(* ===== verification/Desura_Prelude.thy ===== *)
theory Desura_Prelude
  imports Main "HOL-Library.Word" "HOL-Library.Sublist"
begin

text \<open>
  Shared vocabulary of the development: the machine integers of \<^verbatim>\<open>src/src/common/Common.h\<close>
  as words, C++ strings as lists of 8-bit characters, buffers as lists of bytes, exceptions as
  sums, the lemma collections the components extend, and the generic interfaces (locales) that
  several components share.
\<close>

type_synonym u8 = "8 word"
type_synonym u16 = "16 word"
type_synonym u32 = "32 word"
type_synonym u64 = "64 word"
type_synonym bytes = "u8 list"

named_theorems codec_simps "unfolding rules of encoders and decoders"
named_theorems flag_simps "rules that evaluate flag tests and updates"
named_theorems frame_simps "fields an operation leaves alone"

section \<open>Characters and bytes\<close>

abbreviation code :: "char \<Rightarrow> nat" where
  "code c \<equiv> of_char c"

definition byte_of_char :: "char \<Rightarrow> u8" where
  "byte_of_char c = of_char c"

definition char_of_byte :: "u8 \<Rightarrow> char" where
  "char_of_byte b = char_of (unat b)"

lemma code_less_256 [simp]: "code c < 256"
  by (rule nat_of_char_less_256)

lemma byte_of_char_nat: "byte_of_char c = of_nat (code c)"
  by (simp add: byte_of_char_def of_nat_of_char)

lemma unat_byte_of_char [simp]: "unat (byte_of_char c) = code c"
  by (simp add: byte_of_char_nat unat_of_nat take_bit_eq_mod)

lemma char_of_byte_of_char [simp]: "char_of_byte (byte_of_char c) = c"
  by (simp add: char_of_byte_def)

lemma byte_of_char_of_byte [simp]: "byte_of_char (char_of_byte b) = b"
proof -
  have "unat b < 256" using unsigned_less [of b, where ?'a = nat] by simp
  then have "code (char_of (unat b)) = unat b" by simp
  then show ?thesis by (simp add: char_of_byte_def byte_of_char_nat)
qed

lemma all_chars: "(\<forall>c. P c) \<longleftrightarrow> list_all (\<lambda>n. P (char_of n)) [0 ..< 256 :: nat]"
proof
  assume all: "list_all (\<lambda>n. P (char_of n)) [0 ..< 256 :: nat]"
  show "\<forall>c. P c"
  proof
    fix c
    have "code c \<in> set [0 ..< 256]" by simp
    with all have "P (char_of (code c))" unfolding list_all_iff by blast
    then show "P c" by simp
  qed
qed (simp add: list_all_iff)

lemma ucast_up_down [simp]:
  "ucast (ucast (b :: u8) :: u64) = b"
  "ucast (ucast (d :: u32) :: u64) = d"
  "ucast (ucast (b :: u8) :: u32) = b"
  "ucast (ucast (h :: u16) :: u32) = h"
  by (rule bit_word_eqI, simp add: bit_simps)+

section \<open>Exceptions\<close>

text \<open>
  The error ids of \<^verbatim>\<open>src/src/include/gcError.h\<close> that the modelled code throws. A function
  that may throw returns \<open>Inl\<close> the error or \<open>Inr\<close> its result. \<open>UNDEFINED\<close> is not an error
  id: it marks a read or write outside an object (undefined behaviour in C++).
\<close>

datatype gc_error =
    ERR_FAILEDSEEK | ERR_FAILEDWRITE | ERR_FAILEDREAD | ERR_PARTREAD
  | ERR_LAUNCH | ERR_NO32LIBS | ERR_NOBITTEST | ERR_BADITEM | ERR_UNSUPPORTEDPLATFORM | ERR_BADCLASS | ERR_NOUPDATE | ERR_INVALID | ERR_NULLHANDLE | ERR_INVALIDFILE | ERR_ZEROFILE | ERR_INVALIDDATA
  | ERR_BADPATH | ERR_BADHEADER | ERR_SAVE_NOFILES | ERR_NULLSRCFILE | ERR_NULLDESTFILE
  | ERR_WEBDL_FAILED | ERR_USERCANCELED | ERR_HASHMISSMATCH | ERR_BZ2 | ERR_XML_NOPRIMENODE
  | ERR_IPC | ERR_WILDCARD | ERR_BADXML
  | UNDEFINED

type_synonym 'a res = "gc_error + 'a"

definition bind_res :: "'a res \<Rightarrow> ('a \<Rightarrow> 'b res) \<Rightarrow> 'b res" where
  "bind_res r f = (case r of Inl e \<Rightarrow> Inl e | Inr x \<Rightarrow> f x)"

lemma bind_res_simps [simp]:
  "bind_res (Inl e) f = Inl e"
  "bind_res (Inr x) f = f x"
  by (simp_all add: bind_res_def)

lemma bind_res_Inr: "bind_res r f = Inr y \<longleftrightarrow> (\<exists>x. r = Inr x \<and> f x = Inr y)"
  by (cases r) simp_all

lemma bind_res_Inl_pure [simp]: "bind_res r (\<lambda>x. Inr (f x)) = Inl e \<longleftrightarrow> r = Inl e"
  by (cases r) simp_all

section \<open>Lists\<close>

lemma dropWhile_first: "x \<notin> set u \<Longrightarrow> dropWhile (\<lambda>d. d \<noteq> x) (u @ x # h) = x # h"
  by (subst dropWhile_append2) auto

lemma takeWhile_first: "x \<notin> set u \<Longrightarrow> takeWhile (\<lambda>d. d \<noteq> x) (u @ x # h) = u"
  by (subst takeWhile_append2) auto

lemma takeWhile_none: "x \<notin> set u \<Longrightarrow> takeWhile (\<lambda>d. d \<noteq> x) u = u"
  by (induction u) auto

lemma dropWhile_none: "x \<notin> set u \<Longrightarrow> dropWhile (\<lambda>d. d \<noteq> x) u = []"
  by (induction u) auto

section \<open>Interface: a codec\<close>

text \<open>
  An encoder and a partial decoder that inverts it. Every textual or binary format of the
  development (base64, URL escapes, little-endian integers, the MCF header) is an instance.
\<close>

locale codec =
  fixes enc :: "'a \<Rightarrow> 'b list" and dec :: "'b list \<Rightarrow> 'a option"
    and valid :: "'a \<Rightarrow> bool"
  assumes dec_enc: "valid x \<Longrightarrow> dec (enc x) = Some x"
begin

lemma enc_inj: "valid x \<Longrightarrow> valid y \<Longrightarrow> enc x = enc y \<Longrightarrow> x = y"
  by (metis dec_enc option.inject)

end

text \<open>
  A codec of fixed width: the encodings of several values can be laid out one after the other
  and be read back by position.
\<close>

locale fixed_codec = codec +
  fixes width :: nat
  assumes enc_length: "length (enc x) = width"
begin

lemma dec_take [simp]: "valid x \<Longrightarrow> dec (take width (enc x @ rest)) = Some x"
  by (simp add: enc_length dec_enc)

lemma dec_field:
  "valid x \<Longrightarrow> length pre = n \<Longrightarrow> dec (take width (drop n (pre @ enc x @ rest))) = Some x"
  by (simp add: enc_length dec_enc)

lemma dec_chunk:
  assumes "\<forall>x\<in>set xs. valid x" and "i < length xs"
  shows "dec (take width (drop (i * width) (concat (map enc xs)))) = Some (xs ! i)"
  using assms
proof (induction xs arbitrary: i)
  case Nil
  then show ?case by simp
next
  case (Cons x xs)
  show ?case
  proof (cases i)
    case 0
    with Cons.prems show ?thesis by (simp add: enc_length dec_enc)
  next
    case (Suc j)
    with Cons show ?thesis by (simp add: enc_length)
  qed
qed

end

section \<open>Interface: a deterministic machine with an invariant\<close>

locale machine =
  fixes step :: "'s \<Rightarrow> 'e \<Rightarrow> 's" and inv :: "'s \<Rightarrow> bool" and ok :: "'s \<Rightarrow> 'e \<Rightarrow> bool"
  assumes step_inv: "inv s \<Longrightarrow> ok s e \<Longrightarrow> inv (step s e)"
begin

fun oks :: "'s \<Rightarrow> 'e list \<Rightarrow> bool" where
  "oks s [] = True"
| "oks s (e # es) = (ok s e \<and> oks (step s e) es)"

lemma run_inv: "inv s \<Longrightarrow> oks s es \<Longrightarrow> inv (fold (\<lambda>e s. step s e) es s)"
  by (induction es arbitrary: s) (simp_all add: step_inv)

end

text \<open>
  The same for a machine whose steps may throw: in good states no permitted event throws, and runs of permitted
  events keep the invariant.
\<close>

fun runs :: "('s \<Rightarrow> 'e \<Rightarrow> 's res) \<Rightarrow> 's \<Rightarrow> 'e list \<Rightarrow> 's res" where
  "runs step s [] = Inr s"
| "runs step s (e # es) = bind_res (step s e) (\<lambda>t. runs step t es)"

fun permitted :: "('s \<Rightarrow> 'e \<Rightarrow> 's res) \<Rightarrow> ('s \<Rightarrow> 'e \<Rightarrow> bool) \<Rightarrow> 's \<Rightarrow> 'e list \<Rightarrow> bool" where
  "permitted step ok s [] = True"
| "permitted step ok s (e # es) = (ok s e \<and> (case step s e of Inl _ \<Rightarrow> True | Inr t \<Rightarrow> permitted step ok t es))"

lemma runs_append: "runs step s (as @ bs) = bind_res (runs step s as) (\<lambda>t. runs step t bs)"
proof (induction as arbitrary: s)
  case (Cons a as)
  then show ?case by (cases "step s a") simp_all
qed simp

locale fallible_machine =
  fixes step :: "'s \<Rightarrow> 'e \<Rightarrow> 's res" and inv :: "'s \<Rightarrow> bool" and ok :: "'s \<Rightarrow> 'e \<Rightarrow> bool"
  assumes step_inv: "inv s \<Longrightarrow> ok s e \<Longrightarrow> \<exists>t. step s e = Inr t \<and> inv t"
begin

lemma run_inv: "inv s \<Longrightarrow> permitted step ok s es \<Longrightarrow> \<exists>t. runs step s es = Inr t \<and> inv t"
proof (induction es arbitrary: s)
  case (Cons e es)
  then obtain t where "step s e = Inr t" "inv t" using step_inv by fastforce
  then show ?case using Cons by simp
qed simp

end

end
