(* ===== verification/Util_Misc.thy ===== *)
theory Util_Misc
  imports Desura_Prelude
begin

text \<open>
  The pure helpers of \<^verbatim>\<open>src/src/static/util/code/UtilMisc.cpp\<close>: list matching, hexadecimal
  parsing, date strings, format sniffing and the command-line map of \<^verbatim>\<open>CMDArgs\<close>.
\<close>

section \<open>Character classes\<close>

definition is_digit :: "char \<Rightarrow> bool" where
  "is_digit c \<longleftrightarrow> 48 \<le> code c \<and> code c \<le> 57"

definition is_upper :: "char \<Rightarrow> bool" where
  "is_upper c \<longleftrightarrow> 65 \<le> code c \<and> code c \<le> 90"

definition is_lower :: "char \<Rightarrow> bool" where
  "is_lower c \<longleftrightarrow> 97 \<le> code c \<and> code c \<le> 122"

definition NUL :: char where
  "NUL = char_of (0 :: nat)"

lemmas char_class_defs = is_digit_def is_upper_def is_lower_def NUL_def

section \<open>Matching and hashing helpers\<close>

text \<open>\<open>None\<close> is the null pointer; the null-terminated array is a list.\<close>

fun matchList_loop :: "string \<Rightarrow> string list \<Rightarrow> bool" where
  "matchList_loop str [] = False"
| "matchList_loop str (l # ls) = (if str = l then True else matchList_loop str ls)"

definition matchList :: "string option \<Rightarrow> string list \<Rightarrow> bool" where
  "matchList str ls =
     (case str of None \<Rightarrow> False
      | Some s \<Rightarrow> (if s = [] then False else matchList_loop s ls))"

lemma matchList_iff: "matchList (Some s) ls \<longleftrightarrow> s \<noteq> [] \<and> s \<in> set ls"
proof -
  have "matchList_loop s ls \<longleftrightarrow> s \<in> set ls"
    by (induction ls) auto
  then show ?thesis by (simp add: matchList_def)
qed

text \<open>\<open>pow\<close>: repeated multiplication, wrapping at 32 bits.\<close>

fun pow_loop :: "u32 \<Rightarrow> nat \<Rightarrow> u32 \<Rightarrow> u32" where
  "pow_loop num 0 res = res"
| "pow_loop num (Suc n) res = pow_loop num n (res * num)"

definition pow :: "u32 \<Rightarrow> u32 \<Rightarrow> u32" where
  "pow num pwr = (if pwr = 0 then 1 else pow_loop num (unat pwr) 1)"

lemma pow_loop_power: "pow_loop num n res = res * num ^ n"
  by (induction n arbitrary: res) simp_all

lemma pow_power: "pow num pwr = num ^ unat pwr"
  by (simp add: pow_def pow_loop_power)

section \<open>Hexadecimal\<close>

text \<open>
  \<open>hextoDec(hexstr, size)\<close> fills an uninitialised array: a character outside \<open>0-9A-F\<close> leaves its
  cell unset, and the sum then reads it (\<open>UNDEFINED\<close>); so does a size beyond the string.
\<close>

definition hex_cell :: "char \<Rightarrow> u32 option" where
  "hex_cell c =
     (if is_digit c then Some (of_nat (code c - 48))
      else if 65 \<le> code c \<and> code c \<le> 70 then Some (of_nat (code c - 65 + 10))
      else None)"

fun hextoDec_sum :: "string \<Rightarrow> nat \<Rightarrow> u32 \<Rightarrow> u32 res" where
  "hextoDec_sum hexstr 0 res = Inr res"
| "hextoDec_sum [] (Suc n) res = Inl UNDEFINED"
| "hextoDec_sum (c # cs) (Suc n) res =
     (case hex_cell c of
        None \<Rightarrow> Inl UNDEFINED
      | Some a \<Rightarrow> hextoDec_sum cs n (res + a * pow 16 (of_nat n)))"

definition hextoDec_sized :: "string \<Rightarrow> u32 \<Rightarrow> u32 res" where
  "hextoDec_sized hexstr len = hextoDec_sum hexstr (unat len) 0"

lemma hextoDec_sum_lower: "hextoDec_sum (CHR ''a'' # cs) (Suc n) res = Inl UNDEFINED"
  by (simp add: hex_cell_def is_digit_def)

definition xtod :: "char \<Rightarrow> u32" where
  "xtod c =
     (if is_digit c then of_nat (code c - 48)
      else if 65 \<le> code c \<and> code c \<le> 70 then of_nat (code c - 65 + 10)
      else if 97 \<le> code c \<and> code c \<le> 102 then of_nat (code c - 97 + 10)
      else 0)"

fun doHexToDec_loop :: "u32 \<Rightarrow> nat \<Rightarrow> u32" where
  "doHexToDec_loop hex 0 = hex"
| "doHexToDec_loop hex (Suc n) = doHexToDec_loop (hex * 16) n"

definition doHexToDec :: "u32 \<Rightarrow> u32 \<Rightarrow> u32" where
  "doHexToDec hex offset = doHexToDec_loop hex (unat offset)"

lemma doHexToDec_power: "doHexToDec hex offset = hex * 16 ^ unat offset"
proof -
  have "doHexToDec_loop hex n = hex * 16 ^ n" for n
    by (induction n arbitrary: hex) simp_all
  then show ?thesis by (simp add: doHexToDec_def)
qed

text \<open>
  The recursion returns the value and the depth it leaves behind in its reference parameter. The
  two summands of the source are unsequenced; the model evaluates the recursive call first, the
  only order in which the function computes a hexadecimal value.
\<close>

fun hextoDec_rec :: "string \<Rightarrow> u32 \<Rightarrow> u32 \<times> u32" where
  "hextoDec_rec [] depth = (0, depth)"
| "hextoDec_rec (c # cs) depth =
     (if c = NUL then (0, depth)
      else (let (rest, d) = hextoDec_rec cs depth
            in (rest + doHexToDec (xtod c) d, d + 1)))"

definition hextoDec :: "string \<Rightarrow> u32" where
  "hextoDec hex = fst (hextoDec_rec hex 0)"

text \<open>Horner's scheme is what the recursion computes.\<close>

definition hex_value :: "string \<Rightarrow> u32" where
  "hex_value s = fold (\<lambda>c r. r * 16 + xtod c) s 0"

lemma hextoDec_rec_depth:
  "NUL \<notin> set s \<Longrightarrow> snd (hextoDec_rec s d) = d + of_nat (length s)"
  by (induction s) (auto simp: case_prod_beta Let_def)

lemma hex_fold_shift:
  "fold (\<lambda>c r. r * 16 + xtod c) s r = r * 16 ^ length s + hex_value s"
proof (induction s arbitrary: r)
  case (Cons c s)
  show ?case
    using Cons [of "r * 16 + xtod c"] Cons [of "xtod c"]
    by (simp add: hex_value_def algebra_simps)
qed (simp add: hex_value_def)

lemma hextoDec_horner:
  assumes "NUL \<notin> set s" and "length s < 2 ^ 32"
  shows "hextoDec s = hex_value s"
proof -
  have "fst (hextoDec_rec s 0) = hex_value s" using assms
  proof (induction s)
    case (Cons c s)
    have "unat (of_nat (length s) :: u32) = length s"
      using Cons.prems by (simp add: unat_of_nat take_bit_eq_mod)
    then have "fst (hextoDec_rec (c # s) 0) = hex_value s + xtod c * 16 ^ length s"
      using Cons by (auto simp: case_prod_beta Let_def hextoDec_rec_depth doHexToDec_power)
    also have "\<dots> = hex_value (c # s)"
      using hex_fold_shift [of s "xtod c"] by (simp add: hex_value_def)
    finally show ?case .
  qed (simp add: hex_value_def)
  then show ?thesis by (simp add: hextoDec_def)
qed

section \<open>Format sniffing\<close>

definition starts_with :: "string \<Rightarrow> string \<Rightarrow> bool" where
  "starts_with p s \<longleftrightarrow> take (length p) s = p"

definition isWebURL :: "string option \<Rightarrow> bool" where
  "isWebURL str =
     (case str of None \<Rightarrow> False
      | Some s \<Rightarrow> starts_with ''http://'' s \<or> starts_with ''ftp://'' s \<or> starts_with ''https://'' s)"

datatype image_type = IMAGE_VOID | IMAGE_GIF | IMAGE_PNG | IMAGE_JPG

definition isValidImage :: "u8 \<Rightarrow> u8 \<Rightarrow> u8 \<Rightarrow> u8 \<Rightarrow> u8 \<Rightarrow> image_type" where
  "isValidImage h0 h1 h2 h3 h4 =
     (if h0 = 71 \<and> h1 = 73 \<and> h2 = 70 \<and> h3 = 56 then IMAGE_GIF
      else if h0 = 137 \<and> h1 = 80 \<and> h2 = 78 \<and> h3 = 71 then IMAGE_PNG
      else if h0 = 255 \<and> h1 = 216 then IMAGE_JPG
      else IMAGE_VOID)"

text \<open>\<open>strstr\<close>: the suffix that starts at the first occurrence.\<close>

fun strstr :: "string \<Rightarrow> string \<Rightarrow> string option" where
  "strstr s pat =
     (if starts_with pat s then Some s
      else (case s of [] \<Rightarrow> None | _ # cs \<Rightarrow> strstr cs pat))"

declare strstr.simps [simp del]

definition isValidEmail :: "string option \<Rightarrow> bool" where
  "isValidEmail email =
     (case email of None \<Rightarrow> False
      | Some e \<Rightarrow>
          (case strstr e ''@'' of None \<Rightarrow> False
           | Some atSym \<Rightarrow> (case strstr atSym ''.'' of None \<Rightarrow> False | Some _ \<Rightarrow> True)))"

lemma strstr_single: "strstr s [c] = (if c \<in> set s then Some (dropWhile (\<lambda>d. d \<noteq> c) s) else None)"
  by (induction s) (auto simp: strstr.simps [of _ "[c]"] starts_with_def)

lemma isValidEmail_iff:
  "isValidEmail (Some e) \<longleftrightarrow> (\<exists>u h. e = u @ CHR ''@'' # h \<and> CHR ''@'' \<notin> set u \<and> CHR ''.'' \<in> set h)"
proof -
  have "(CHR ''@'' \<in> set e \<and> CHR ''.'' \<in> set (dropWhile (\<lambda>d. d \<noteq> CHR ''@'') e)) \<longleftrightarrow>
    (\<exists>u h. e = u @ CHR ''@'' # h \<and> CHR ''@'' \<notin> set u \<and> CHR ''.'' \<in> set h)"
    (is "?l \<longleftrightarrow> ?r")
  proof
    assume ?l
    then obtain u h where "e = u @ CHR ''@'' # h" and "CHR ''@'' \<notin> set u"
      by (metis split_list_first)
    with \<open>?l\<close> show ?r by (auto simp: dropWhile_first)
  next
    assume ?r
    then obtain u h where e: "e = u @ CHR ''@'' # h" "CHR ''@'' \<notin> set u" "CHR ''.'' \<in> set h"
      by blast
    then show ?l by (simp add: dropWhile_first)
  qed
  moreover have "isValidEmail (Some e) \<longleftrightarrow>
      CHR ''@'' \<in> set e \<and> CHR ''.'' \<in> set (dropWhile (\<lambda>d. d \<noteq> CHR ''@'') e)"
    by (simp add: isValidEmail_def strstr_single)
  ultimately show ?thesis by simp
qed

section \<open>Dates\<close>

text \<open>\<open>fixDateTimeString\<close>: insert the \<open>T\<close> of \<open>20130101T123456\<close> and pad with zeros.\<close>

definition fixDateTimeString :: "string \<Rightarrow> string" where
  "fixDateTimeString dateTime =
     (if length dateTime < 8 then []
      else
        let date_str = (if CHR ''T'' \<notin> set dateTime
                        then take 8 dateTime @ ''T'' @ drop 8 dateTime
                        else dateTime)
        in date_str @ replicate (length ''20130101T123456'' - length date_str) CHR ''0'')"

lemma correct_length: "length ''20130101T123456'' = 15"
  by simp

lemma fixDateTimeString_T:
  "8 \<le> length s \<Longrightarrow> CHR ''T'' \<in> set (fixDateTimeString s) \<and> 15 \<le> length (fixDateTimeString s)"
  unfolding fixDateTimeString_def correct_length by (auto simp: Let_def)

lemma fixDateTimeString_fixpoint:
  "CHR ''T'' \<in> set s \<Longrightarrow> 15 \<le> length s \<Longrightarrow> fixDateTimeString s = s"
  unfolding fixDateTimeString_def correct_length by simp

text \<open>Normalising a date string is idempotent.\<close>

theorem fixDateTimeString_idem: "fixDateTimeString (fixDateTimeString s) = fixDateTimeString s"
proof (cases "length s < 8")
  case True
  then show ?thesis by (simp add: fixDateTimeString_def)
next
  case False
  then show ?thesis
    by (intro fixDateTimeString_fixpoint) (simp_all add: fixDateTimeString_T)
qed

section \<open>Command line\<close>

text \<open>\<open>CMDArgs\<close>: the argument list and the map from argument names to values.\<close>

record cmd_args =
  m_vArgList :: "string list"
  m_mArgv :: "string \<rightharpoonup> string"

abbreviation dash :: "string \<Rightarrow> bool" where
  "dash s \<equiv> s \<noteq> [] \<and> hd s = CHR ''-''"

fun process_args :: "string list \<Rightarrow> (string \<rightharpoonup> string) \<Rightarrow> (string \<rightharpoonup> string)" where
  "process_args [] m = m"
| "process_args (arg # rest) m =
     (if dash arg then
        (let arg' = dropWhile (\<lambda>c. c = CHR ''-'') arg
         in (case rest of
               narg # rest' \<Rightarrow>
                 (if narg \<noteq> [] \<and> hd narg \<noteq> CHR ''-''
                  then process_args rest' (m(arg' \<mapsto> narg))
                  else process_args rest (m(arg' \<mapsto> [])))
             | [] \<Rightarrow> process_args rest (m(arg' \<mapsto> []))))
      else process_args rest (m(arg \<mapsto> [])))"

definition CMDArgs_process :: "cmd_args \<Rightarrow> cmd_args" where
  "CMDArgs_process a = a\<lparr>m_mArgv := process_args (m_vArgList a) (m_mArgv a)\<rparr>"

definition CMDArgs_addValue :: "cmd_args \<Rightarrow> string option \<Rightarrow> string option \<Rightarrow> cmd_args" where
  "CMDArgs_addValue a name value =
     (case name of None \<Rightarrow> a
      | Some n \<Rightarrow>
          a\<lparr>m_mArgv := (m_mArgv a)(n \<mapsto> (case value of None \<Rightarrow> [] | Some v \<Rightarrow> v)),
            m_vArgList := m_vArgList a @ [n] @ (case value of None \<Rightarrow> [] | Some v \<Rightarrow> [v])\<rparr>)"

definition CMDArgs_hasArg :: "cmd_args \<Rightarrow> string \<Rightarrow> bool" where
  "CMDArgs_hasArg a name \<longleftrightarrow> m_mArgv a name \<noteq> None"

definition CMDArgs_hasValue :: "cmd_args \<Rightarrow> string \<Rightarrow> bool" where
  "CMDArgs_hasValue a name \<longleftrightarrow>
     CMDArgs_hasArg a name \<and> (case m_mArgv a name of None \<Rightarrow> False | Some v \<Rightarrow> v \<noteq> [])"

definition CMDArgs_getArgc :: "cmd_args \<Rightarrow> nat" where
  "CMDArgs_getArgc a = length (m_vArgList a)"

lemma process_args_value:
  "process_args [CHR ''-'' # name, v] m = m(dropWhile (\<lambda>c. c = CHR ''-'') name \<mapsto> v)"
  if "v \<noteq> []" "hd v \<noteq> CHR ''-''"
  using that by (simp add: Let_def)

end
