(* ===== verification/Util_Num.thy ===== *)
theory Util_Num
  imports Util_Misc
begin

text \<open>
  Numbers as text: decimal printing (what \<^verbatim>\<open>gcString("{0}", n)\<close> writes for an unsigned integer), the
  C library's \<^verbatim>\<open>strtoull\<close> with base 0 and the \<^verbatim>\<open>Safe::atoi\<close>/\<^verbatim>\<open>Safe::atoll\<close> wrappers of
  \<^verbatim>\<open>src/src/include/util/UtilSafeString.h\<close>, and the hash functions of
  \<^verbatim>\<open>src/src/static/util/code/third_party/GeneralHashFunctions.cpp\<close> that key items and files.
\<close>

unbundle bit_operations_syntax

section \<open>Printing\<close>

definition digit_char :: "nat \<Rightarrow> char" where
  "digit_char d = char_of (d + 48)"

fun dec_digits :: "nat \<Rightarrow> string" where
  "dec_digits n = (if n < 10 then [digit_char n] else dec_digits (n div 10) @ [digit_char (n mod 10)])"

declare dec_digits.simps [simp del]

section \<open>\<open>strtoull\<close> with base 0\<close>

definition digit_value :: "char \<Rightarrow> nat" where
  "digit_value c =
     (if is_digit c then code c - 48
      else if is_upper c then code c - 55
      else if is_lower c then code c - 87
      else 99)"

definition is_space :: "char \<Rightarrow> bool" where
  "is_space c \<longleftrightarrow> code c = 32 \<or> (9 \<le> code c \<and> code c \<le> 13)"

definition take_digits :: "nat \<Rightarrow> string \<Rightarrow> nat" where
  "take_digits base s =
     fold (\<lambda>c r. r * base + digit_value c) (takeWhile (\<lambda>c. digit_value c < base) s) 0"

definition based :: "string \<Rightarrow> nat \<times> string" where
  "based s =
     (case s of
        z # x # d # rest \<Rightarrow>
          (if z = CHR ''0'' \<and> (x = CHR ''x'' \<or> x = CHR ''X'') \<and> digit_value d < 16
           then (16, d # rest) else if z = CHR ''0'' then (8, s) else (10, s))
      | z # rest \<Rightarrow> (if z = CHR ''0'' then (8, s) else (10, s))
      | [] \<Rightarrow> (10, s))"

definition strtoull :: "string \<Rightarrow> u64" where
  "strtoull s =
     (let t = dropWhile is_space s;
          neg = (t \<noteq> [] \<and> hd t = CHR ''-'');
          u = (if t \<noteq> [] \<and> (hd t = CHR ''-'' \<or> hd t = CHR ''+'') then tl t else t);
          (base, v) = based u;
          n = take_digits base v
      in if 2 ^ 64 \<le> n then 0xFFFFFFFFFFFFFFFF
         else if neg then - of_nat n else of_nat n)"

definition Safe_atoll :: "string option \<Rightarrow> u64" where
  "Safe_atoll s = (case s of None \<Rightarrow> 0 | Some t \<Rightarrow> strtoull t)"

definition Safe_atoi :: "string option \<Rightarrow> u32" where
  "Safe_atoi s = (case s of None \<Rightarrow> 0 | Some t \<Rightarrow> ucast (strtoull t))"

subsection \<open>Reading back what was printed\<close>

lemma digit_char_code: "d < 10 \<Longrightarrow> code (digit_char d) = d + 48"
  by (simp add: digit_char_def)

lemma digit_value_char: "d < 10 \<Longrightarrow> digit_value (digit_char d) = d"
  by (simp add: digit_value_def is_digit_def digit_char_code)

lemma dec_digits_set: "c \<in> set (dec_digits n) \<Longrightarrow> is_digit c \<and> digit_value c < 10"
proof (induction n rule: dec_digits.induct)
  case (1 n)
  then show ?case
    by (subst (asm) (2) dec_digits.simps)
       (auto simp: is_digit_def digit_char_code digit_value_char split: if_splits)
qed

lemma dec_digits_value: "fold (\<lambda>c r. r * 10 + digit_value c) (dec_digits n) 0 = n"
proof (induction n rule: dec_digits.induct)
  case (1 n)
  then show ?case
    by (subst dec_digits.simps) (auto simp: digit_value_char)
qed

lemma dec_digits_hd: "0 < n \<Longrightarrow> hd (dec_digits n) \<noteq> CHR ''0''"
proof (induction n rule: dec_digits.induct)
  case (1 n)
  have "digit_char n \<noteq> CHR ''0''" if "n < 10"
    using digit_value_char [OF that] \<open>0 < n\<close> by (auto simp: digit_value_def is_digit_def)
  moreover have "dec_digits (n div 10) \<noteq> []"
    by (subst dec_digits.simps) simp
  ultimately show ?case
    using 1 by (subst dec_digits.simps) auto
qed

lemma dec_digits_nonempty [simp]: "dec_digits n \<noteq> []"
  by (subst dec_digits.simps) simp

lemma dec_digits_hd_digit: "is_digit (hd (dec_digits n))"
  using dec_digits_set [of "hd (dec_digits n)" n] by simp

lemma based_dec: "0 < n \<Longrightarrow> based (dec_digits n) = (10, dec_digits n)"
  using dec_digits_hd [of n] by (auto simp: based_def split: list.splits)

lemma take_digits_dec: "take_digits 10 (dec_digits n) = n"
proof -
  have "takeWhile (\<lambda>c. digit_value c < 10) (dec_digits n) = dec_digits n"
    using dec_digits_set [of _ n] by (simp add: takeWhile_eq_all_conv)
  then show ?thesis by (simp only: take_digits_def dec_digits_value)
qed

lemma strtoull_dec: "n < 2 ^ 64 \<Longrightarrow> strtoull (dec_digits n) = of_nat n"
proof (cases "n = 0")
  case True
  have "dec_digits 0 = ''0''"
    by (simp add: dec_digits.simps digit_char_def char_of_def bit_Suc_0_iff)
  moreover have "strtoull ''0'' = 0"
    by (simp add: strtoull_def is_space_def based_def take_digits_def digit_value_def is_digit_def Let_def)
  ultimately show ?thesis using True by simp
next
  case False
  assume n: "n < 2 ^ 64"
  have "is_digit (hd (dec_digits n))" by (rule dec_digits_hd_digit)
  then have "dropWhile is_space (dec_digits n) = dec_digits n"
    and "hd (dec_digits n) \<noteq> CHR ''-''" "hd (dec_digits n) \<noteq> CHR ''+''"
    by (cases "dec_digits n"; auto simp: is_digit_def is_space_def)+
  then show ?thesis
    using False n by (simp add: strtoull_def based_dec take_digits_dec)
qed

lemma Safe_atoll_dec: "Safe_atoll (Some (dec_digits (unat (w :: u64)))) = w"
  using unsigned_less [of w, where ?'a = nat] by (simp add: Safe_atoll_def strtoull_dec)

lemma Safe_atoi_dec: "Safe_atoi (Some (dec_digits (unat (w :: u32)))) = w"
proof -
  have "unat w < 2 ^ 32" using unsigned_less [of w, where ?'a = nat] by simp
  then have "unat w < 2 ^ 64" by (rule less_trans) simp
  then have "Safe_atoi (Some (dec_digits (unat w))) = ucast (ucast w :: u64)"
    by (simp add: Safe_atoi_def strtoull_dec)
  also have "\<dots> = w" by (rule bit_word_eqI) (simp add: bit_simps)
  finally show ?thesis .
qed

interpretation decimal: codec "\<lambda>w :: u64. dec_digits (unat w)" "\<lambda>s. Some (strtoull s)" "\<lambda>_. True"
  using unsigned_less [where ?'a = nat and ?'b = 64] by unfold_locales (simp add: strtoull_dec)

section \<open>Hashes\<close>

text \<open>A \<open>char\<close> is signed: in an arithmetic context it is sign-extended.\<close>

definition schar32 :: "char \<Rightarrow> u32" where
  "schar32 c = scast (byte_of_char c)"

definition schar64 :: "char \<Rightarrow> u64" where
  "schar64 c = scast (byte_of_char c)"

fun RSHash_loop :: "string \<Rightarrow> u32 \<Rightarrow> u32 \<Rightarrow> u32" where
  "RSHash_loop [] a hash = hash"
| "RSHash_loop (c # cs) a hash = RSHash_loop cs (a * 378551) (hash * a + schar32 c)"

definition RSHash :: "string \<Rightarrow> u32" where
  "RSHash str = RSHash_loop str 63689 0"

text \<open>The unrolled variant: four characters in a round, then the rest one by one.\<close>

fun FastRSHash_loop :: "string \<Rightarrow> u32 \<Rightarrow> u32 \<Rightarrow> u32" where
  "FastRSHash_loop (c0 # c1 # c2 # c3 # cs) a hash =
     (let hash = hash * a + schar32 c0; a = a * 378551;
          hash = hash * a + schar32 c1; a = a * 378551;
          hash = hash * a + schar32 c2; a = a * 378551;
          hash = hash * a + schar32 c3; a = a * 378551
      in FastRSHash_loop cs a hash)"
| "FastRSHash_loop buff a hash = RSHash_loop buff a hash"

definition FastRSHash :: "string \<Rightarrow> u32" where
  "FastRSHash buff = FastRSHash_loop buff 63689 0"

definition FNVHash64 :: "string \<Rightarrow> u64" where
  "FNVHash64 str =
     fold (\<lambda>c hash. (hash * 0xcbf29ce484222325) XOR schar64 c) str 0xcbf29ce484222325"

text \<open>Unrolling the loop changes nothing.\<close>

lemma FastRSHash_loop_eq: "FastRSHash_loop s a h = RSHash_loop s a h"
  by (induction s a h rule: FastRSHash_loop.induct) (simp_all add: Let_def)

lemma FastRSHash_eq: "FastRSHash s = RSHash s"
  by (simp add: FastRSHash_def RSHash_def FastRSHash_loop_eq)

end
