(* ===== verification/Desura_Id.thy ===== *)
theory Desura_Id
  imports Util_Num
begin

text \<open>
  Item ids (\<^verbatim>\<open>src/src/include/DesuraId.h\<close>), MCF branches and builds and the flag helpers
  (\<^verbatim>\<open>src/src/common/Common.h\<close>).
\<close>

unbundle bit_operations_syntax

section \<open>Branches, builds and flags\<close>

record MCFBranch =
  m_bGlobal :: bool
  m_uiBranch :: u32

definition MCFBranch_default :: MCFBranch where
  "MCFBranch_default = \<lparr>m_bGlobal = False, m_uiBranch = 0\<rparr>"

definition BranchFromInt :: "u32 \<Rightarrow> bool \<Rightarrow> MCFBranch" where
  "BranchFromInt branch global = \<lparr>m_bGlobal = global, m_uiBranch = branch\<rparr>"

type_synonym MCFBuild = u32

definition BuildFromInt :: "u32 \<Rightarrow> MCFBuild" where
  "BuildFromInt build = build"

definition HasAnyFlags :: "u32 \<Rightarrow> u32 \<Rightarrow> bool" where
  "HasAnyFlags value flags \<longleftrightarrow> value AND flags \<noteq> 0"

definition HasAllFlags :: "u32 \<Rightarrow> u32 \<Rightarrow> bool" where
  "HasAllFlags value flags \<longleftrightarrow> value AND flags = flags"

definition UNKNOWN_ITEM :: u32 where
  "UNKNOWN_ITEM = 0xFFFFFFFF"

section \<open>Item ids\<close>

text \<open>The type bytes: the new encoding and the types of the old 4-bit field.\<close>

definition TYPE_NONE :: u8 where "TYPE_NONE = 0"
definition TYPE_MOD :: u8 where "TYPE_MOD = 1"
definition TYPE_GAME :: u8 where "TYPE_GAME = 2"
definition TYPE_APP :: u8 where "TYPE_APP = 3"
definition TYPE_TOOL :: u8 where "TYPE_TOOL = 4"
definition TYPE_LINK :: u8 where "TYPE_LINK = 5"

definition O_TYPE_MOD :: u64 where "O_TYPE_MOD = 1"
definition O_TYPE_GAME :: u64 where "O_TYPE_GAME = 2"
definition O_TYPE_APP :: u64 where "O_TYPE_APP = 8"

lemmas desura_types =
  TYPE_NONE_def TYPE_MOD_def TYPE_GAME_def TYPE_APP_def TYPE_TOOL_def TYPE_LINK_def
  O_TYPE_MOD_def O_TYPE_GAME_def O_TYPE_APP_def

record DesuraId =
  m_uiItemId :: u32
  m_uiType :: u8

definition DesuraId_of_u64 :: "u64 \<Rightarrow> DesuraId" where
  "DesuraId_of_u64 i =
     (if i AND 0xF \<noteq> 0 then
        \<lparr>m_uiItemId = ucast (drop_bit 4 i AND 0xFFFFFFFF),
         m_uiType =
           (if i AND 0xF = O_TYPE_MOD then TYPE_MOD
            else if i AND 0xF = O_TYPE_GAME then TYPE_GAME
            else if i AND 0xF = O_TYPE_APP then TYPE_APP
            else TYPE_NONE)\<rparr>
      else
        \<lparr>m_uiItemId = ucast (drop_bit 32 i AND 0xFFFFFFFF),
         m_uiType = ucast (drop_bit 4 i AND 0xFF)\<rparr>)"

definition DesuraId_of_strings :: "string option \<Rightarrow> string option \<Rightarrow> DesuraId" where
  "DesuraId_of_strings ids ty =
     \<lparr>m_uiItemId = (case ids of None \<Rightarrow> 0 | Some s \<Rightarrow> Safe_atoi (Some s)),
      m_uiType =
        (if ty = Some ''mods'' then TYPE_MOD
         else if ty = Some ''games'' then TYPE_GAME
         else if ty = Some ''tools'' then TYPE_TOOL
         else if ty = Some ''links'' then TYPE_LINK
         else TYPE_NONE)\<rparr>"

definition getTypeString :: "u8 \<Rightarrow> string" where
  "getTypeString ty =
     (if ty = TYPE_MOD then ''mods'' else if ty = TYPE_GAME then ''games''
      else if ty = TYPE_TOOL then ''tools'' else if ty = TYPE_LINK then ''links''
      else ''void'')"

definition toInt64 :: "DesuraId \<Rightarrow> u64" where
  "toInt64 i = push_bit 32 (ucast (m_uiItemId i)) + push_bit 4 (ucast (m_uiType i))"

definition DesuraId_isOk :: "DesuraId \<Rightarrow> bool" where
  "DesuraId_isOk i \<longleftrightarrow> m_uiItemId i \<noteq> 0 \<and> m_uiType i \<noteq> TYPE_NONE"

definition getFolderPathExtension :: "DesuraId \<Rightarrow> string option \<Rightarrow> string" where
  "getFolderPathExtension i extra =
     getTypeString (m_uiType i) @ ''/'' @ dec_digits (unat (m_uiItemId i)) @
       (case extra of None \<Rightarrow> [] | Some e \<Rightarrow> ''/'' @ e)"

definition DesuraId_eq :: "DesuraId \<Rightarrow> DesuraId \<Rightarrow> bool" where
  "DesuraId_eq a b \<longleftrightarrow> m_uiItemId a = m_uiItemId b \<and> m_uiType a = m_uiType b"

definition DesuraId_toString :: "DesuraId \<Rightarrow> string" where
  "DesuraId_toString i = dec_digits (unat (toInt64 i))"

lemma DesuraId_eq_iff [simp]: "DesuraId_eq a b \<longleftrightarrow> a = b"
  by (cases a; cases b) (simp add: DesuraId_eq_def)

section \<open>The packed form\<close>

lemma toInt64_or: "toInt64 i = push_bit 32 (ucast (m_uiItemId i)) OR push_bit 4 (ucast (m_uiType i))"
  unfolding toInt64_def
  by (rule disjunctive_add) (auto simp: bit_simps dest: bit_imp_le_length)

lemma toInt64_fields:
  "toInt64 i AND 0xF = 0"
  "drop_bit 32 (toInt64 i) AND 0xFFFFFFFF = ucast (m_uiItemId i)"
  "drop_bit 4 (toInt64 i) AND 0xFF = ucast (m_uiType i)"
proof -
  have m: "(0xF :: u64) = mask 4" "(0xFF :: u64) = mask 8" "(0xFFFFFFFF :: u64) = mask 32"
    by (simp_all add: mask_eq_exp_minus_1)
  show "toInt64 i AND 0xF = 0" "drop_bit 32 (toInt64 i) AND 0xFFFFFFFF = ucast (m_uiItemId i)"
    "drop_bit 4 (toInt64 i) AND 0xFF = ucast (m_uiType i)"
    unfolding toInt64_or m
    by (rule bit_word_eqI, auto simp: bit_simps dest: bit_imp_le_length)+
qed

lemma DesuraId_unpack: "DesuraId_of_u64 (toInt64 i) = i"
  by (cases i) (simp add: DesuraId_of_u64_def toInt64_fields)

lemma toInt64_inj: "toInt64 i = toInt64 j \<longleftrightarrow> i = j"
  by (metis DesuraId_unpack)

text \<open>
  Packing an id into 64 bits and unpacking it gives the id back, also through its decimal
  string; and the textual form of the four folder types reads back.
\<close>

theorem DesuraId_roundtrip:
  "DesuraId_of_u64 (toInt64 i) = i
   \<and> DesuraId_of_u64 (strtoull (DesuraId_toString i)) = i
   \<and> (m_uiType i \<in> {TYPE_MOD, TYPE_GAME, TYPE_TOOL, TYPE_LINK} \<longrightarrow>
      DesuraId_of_strings (Some (dec_digits (unat (m_uiItemId i)))) (Some (getTypeString (m_uiType i))) = i)"
proof (intro conjI impI)
  show "DesuraId_of_u64 (strtoull (DesuraId_toString i)) = i"
    using decimal.dec_enc [of "toInt64 i"] by (simp add: DesuraId_toString_def DesuraId_unpack)
  assume "m_uiType i \<in> {TYPE_MOD, TYPE_GAME, TYPE_TOOL, TYPE_LINK}"
  then show "DesuraId_of_strings (Some (dec_digits (unat (m_uiItemId i))))
      (Some (getTypeString (m_uiType i))) = i"
    by (cases i) (auto simp: DesuraId_of_strings_def Safe_atoi_dec getTypeString_def desura_types)
qed (rule DesuraId_unpack)

theorem DesuraId_roundtrip_witness:
  "DesuraId_of_strings (Some (dec_digits 7)) (Some ''games'') = \<lparr>m_uiItemId = 7, m_uiType = 2\<rparr>"
  using DesuraId_roundtrip [of "\<lparr>m_uiItemId = 7, m_uiType = 2\<rparr>"]
  by (simp add: getTypeString_def desura_types)

end
