(* ===== verification/Util_File.thy ===== *)
theory Util_File
  imports Desura_Prelude
begin

text \<open>
  Files and \<^verbatim>\<open>UTIL::FS::FileHandle\<close> (\<^verbatim>\<open>src/src/static/util_fs/code/UtilFs_nix.cpp\<close> and \<^verbatim>\<open>UtilFs.cpp\<close>): the
  disk maps names to contents, a handle is a name, a mode, an open flag, a base offset and a
  position. \<open>fopen\<close>, \<open>fread\<close>, \<open>fwrite\<close> and \<open>fseeko\<close> behave as C documents them on a disk with free
  space and permission to write; the shell expansion of the name (\<open>wordexp\<close>) is left out.
\<close>

section \<open>Byte stores\<close>

text \<open>Writing at a position overwrites, extends, and fills a gap with zeros.\<close>

definition put_bytes :: "bytes \<Rightarrow> nat \<Rightarrow> bytes \<Rightarrow> bytes" where
  "put_bytes content pos data =
     take pos (content @ replicate (pos - length content) 0) @ data @ drop (pos + length data) content"

definition get_bytes :: "bytes \<Rightarrow> nat \<Rightarrow> nat \<Rightarrow> bytes option" where
  "get_bytes content pos len =
     (if pos + len \<le> length content then Some (take len (drop pos content)) else None)"

lemma length_put_bytes: "data \<noteq> [] \<Longrightarrow>
    length (put_bytes content pos data) = max (length content) (pos + length data)"
  by (auto simp: put_bytes_def max_def)

text \<open>The interface the archive code relies on: what a read returns after a write.\<close>

locale byte_store =
  fixes get :: "'f \<Rightarrow> nat \<Rightarrow> nat \<Rightarrow> bytes option" and put :: "'f \<Rightarrow> nat \<Rightarrow> bytes \<Rightarrow> 'f"
  assumes get_put_same: "get (put f p d) p (length d) = Some d"
    and get_put_before: "q + n \<le> p \<Longrightarrow> get f q n = Some x \<Longrightarrow> get (put f p d) q n = Some x"
    and get_put_after: "p + length d \<le> q \<Longrightarrow> get f q n = Some x \<Longrightarrow> get (put f p d) q n = Some x"
begin

text \<open>Blocks written one behind the other: where each starts and the store after all writes.\<close>

fun put_seq :: "'f \<Rightarrow> nat \<Rightarrow> bytes list \<Rightarrow> 'f" where
  "put_seq f p [] = f"
| "put_seq f p (d # ds) = put_seq (put f p d) (p + length d) ds"

lemma put_seq_keeps:
  "get f q n = Some x \<Longrightarrow> q + n \<le> p \<Longrightarrow> get (put_seq f p ds) q n = Some x"
  by (induction ds arbitrary: f p) (auto simp: get_put_before)

lemma put_seq_get:
  "i < length ds \<Longrightarrow>
   get (put_seq f p ds) (p + sum_list (map length (take i ds))) (length (ds ! i)) = Some (ds ! i)"
proof (induction ds arbitrary: f p i)
  case (Cons d ds)
  show ?case
  proof (cases i)
    case 0
    then show ?thesis by (simp add: put_seq_keeps get_put_same)
  next
    case (Suc j)
    with Cons show ?thesis by (simp flip: add.assoc)
  qed
qed simp

end

lemma get_put_bytes_same: "get_bytes (put_bytes f p d) p (length d) = Some d"
  by (auto simp: get_bytes_def put_bytes_def)

lemma get_put_bytes_before:
  assumes "q + n \<le> p" and "get_bytes f q n = Some x"
  shows "get_bytes (put_bytes f p d) q n = Some x"
proof -
  from assms have "q + n \<le> length f" and x: "x = take n (drop q f)"
    by (auto simp: get_bytes_def split: if_splits)
  then have "take n (drop q (put_bytes f p d)) = x"
    using assms(1) by (simp add: put_bytes_def take_drop)
  then show ?thesis
    using \<open>q + n \<le> length f\<close> assms(1) by (auto simp: get_bytes_def put_bytes_def)
qed

lemma get_put_bytes_after:
  assumes "p + length d \<le> q" and "get_bytes f q n = Some x"
  shows "get_bytes (put_bytes f p d) q n = Some x"
proof -
  from assms have len: "q + n \<le> length f" and x: "x = take n (drop q f)"
    by (auto simp: get_bytes_def split: if_splits)
  have "put_bytes f p d = take p f @ d @ drop (p + length d) f"
    using assms(1) len by (simp add: put_bytes_def)
  then have "drop q (put_bytes f p d) = drop q f"
    using assms(1) len by (simp add: ac_simps)
  then show ?thesis
    using len x by (auto simp: get_bytes_def put_bytes_def)
qed

text \<open>Two writes in a row are one write of the joined data.\<close>

lemma put_bytes_Nil [simp]: "p \<le> length c \<Longrightarrow> put_bytes c p [] = c"
  by (simp add: put_bytes_def)

lemma put_bytes_append:
  "put_bytes (put_bytes c p a) (p + length a) b = put_bytes c p (a @ b)"
proof -
  have "length (take p (c @ replicate (p - length c) 0)) = p" by simp
  then show ?thesis by (simp add: put_bytes_def ac_simps del: length_take)
qed

interpretation disk: byte_store get_bytes put_bytes
  by unfold_locales (rule get_put_bytes_same, erule (1) get_put_bytes_before, erule (1) get_put_bytes_after)

section \<open>Handles\<close>

type_synonym fs = "string \<rightharpoonup> bytes"

datatype file_mode = FILE_READ | FILE_WRITE | FILE_APPEND

record file_handle =
  m_bIsOpen :: bool
  fh_name :: string
  fh_mode :: file_mode
  m_uiOffset :: u64
  fh_pos :: nat

definition fh_closed :: file_handle where
  "fh_closed = \<lparr>m_bIsOpen = False, fh_name = [], fh_mode = FILE_READ, m_uiOffset = 0, fh_pos = 0\<rparr>"

text \<open>
  \<open>open\<close>: reading needs the file to exist, writing truncates it, appending keeps it (and creates it
  when it is missing). A null name is \<open>None\<close>.
\<close>

definition fh_open :: "fs \<Rightarrow> string option \<Rightarrow> file_mode \<Rightarrow> u64 \<Rightarrow> (fs \<times> file_handle) res" where
  "fh_open disk fileName mode offset =
     (case fileName of
        None \<Rightarrow> Inl ERR_BADPATH
      | Some name \<Rightarrow>
          (let h = \<lparr>m_bIsOpen = True, fh_name = name, fh_mode = mode, m_uiOffset = offset, fh_pos = 0\<rparr>
           in (case mode of
                 FILE_READ \<Rightarrow> (case disk name of None \<Rightarrow> Inl ERR_INVALIDFILE | Some _ \<Rightarrow> Inr (disk, h))
               | FILE_WRITE \<Rightarrow> Inr (disk(name \<mapsto> []), h)
               | FILE_APPEND \<Rightarrow>
                   (case disk name of
                      Some c \<Rightarrow> Inr (disk, h\<lparr>fh_pos := length c\<rparr>)
                    | None \<Rightarrow> Inr (disk(name \<mapsto> []), h\<lparr>fh_mode := FILE_WRITE\<rparr>)))))"

definition fh_close :: "file_handle \<Rightarrow> file_handle" where
  "fh_close h = (if \<not> m_bIsOpen h then h else h\<lparr>m_bIsOpen := False\<rparr>)"

definition fh_content :: "fs \<Rightarrow> file_handle \<Rightarrow> bytes" where
  "fh_content disk h = (case disk (fh_name h) of None \<Rightarrow> [] | Some c \<Rightarrow> c)"

text \<open>
  \<open>read(buff, size)\<close>: \<open>fread\<close> of one item of \<open>size\<close> bytes; no item (also when \<open>size\<close> is 0, or on a
  write-only handle) is \<open>ERR_FAILEDREAD\<close>.
\<close>

definition fh_read :: "fs \<Rightarrow> file_handle \<Rightarrow> nat \<Rightarrow> (bytes \<times> file_handle) res" where
  "fh_read disk h len =
     (if \<not> m_bIsOpen h then Inl ERR_NULLHANDLE
      else if len = 0 \<or> fh_mode h = FILE_WRITE then Inl ERR_FAILEDREAD
      else (case get_bytes (fh_content disk h) (fh_pos h) len of
              None \<Rightarrow> Inl ERR_FAILEDREAD
            | Some d \<Rightarrow> Inr (d, h\<lparr>fh_pos := fh_pos h + len\<rparr>)))"

definition fh_write :: "fs \<Rightarrow> file_handle \<Rightarrow> bytes \<Rightarrow> (fs \<times> file_handle) res" where
  "fh_write disk h data =
     (if data = [] then Inr (disk, h)
      else if \<not> m_bIsOpen h then Inl ERR_NULLHANDLE
      else if fh_mode h = FILE_READ then Inl ERR_FAILEDWRITE
      else Inr (disk(fh_name h \<mapsto> put_bytes (fh_content disk h) (fh_pos h) data),
                h\<lparr>fh_pos := fh_pos h + length data\<rparr>))"

text \<open>\<open>seek\<close>: the base offset and the position add up in 64 bits; a negative file offset fails.\<close>

definition fh_seek :: "file_handle \<Rightarrow> u64 \<Rightarrow> file_handle res" where
  "fh_seek h pos =
     (if \<not> m_bIsOpen h then Inl ERR_NULLHANDLE
      else if 2 ^ 63 \<le> unat (m_uiOffset h + pos) then Inl ERR_FAILEDSEEK
      else Inr (h\<lparr>fh_pos := unat (m_uiOffset h + pos)\<rparr>))"

text \<open>
  \<open>readCB\<close> reads in pieces of at most 10 KiB (the last piece shrinks the piece size) and hands each
  to a callback, which threads a state and tells whether to stop. The piece size is 10240 in the
  code and stays positive while bytes are left.
\<close>

function fh_readCB ::
  "fs \<Rightarrow> file_handle \<Rightarrow> nat \<Rightarrow> nat \<Rightarrow> (bytes \<Rightarrow> 's \<Rightarrow> 's \<times> bool) \<Rightarrow> 's \<Rightarrow> ('s \<times> file_handle) res" where
  "fh_readCB disk h len buffSize f s =
     (if len = 0 \<or> buffSize = 0 then Inr (s, h)
      else
        let buffSize' = (if buffSize > len then len else buffSize)
        in (case fh_read disk h buffSize' of
              Inl e \<Rightarrow> Inl e
            | Inr (d, h') \<Rightarrow>
                (case f d s of (s', stop) \<Rightarrow>
                   if stop then Inr (s', h')
                   else fh_readCB disk h' (len - buffSize') buffSize' f s')))"
  by pat_completeness auto
termination
  by (relation "measure (\<lambda>(disk, h, len, b, f, s). len)") (auto simp: Let_def)

declare fh_readCB.simps [simp del]

lemma fh_read_Inr:
  "fh_read disk h len = Inr (d, h') \<Longrightarrow>
   0 < len \<and> get_bytes (fh_content disk h) (fh_pos h) len = Some d \<and> length d = len
   \<and> h' = h\<lparr>fh_pos := fh_pos h + len\<rparr>"
  by (auto simp: fh_read_def get_bytes_def split: if_splits option.splits)

lemma fh_seek_read:
  "fh_seek h p = Inr h' \<Longrightarrow> m_bIsOpen h' \<and> fh_pos h' = unat (m_uiOffset h + p) \<and> fh_name h' = fh_name h
   \<and> fh_mode h' = fh_mode h \<and> m_uiOffset h' = m_uiOffset h"
  by (auto simp: fh_seek_def split: if_splits)

text \<open>What is written through a handle is read back from the same place.\<close>

lemma fh_write_read:
  assumes "fh_write disk h d = Inr (disk', h')" and "d \<noteq> []"
  shows "get_bytes (fh_content disk' h') (fh_pos h) (length d) = Some d"
  using assms by (auto simp: fh_write_def fh_content_def disk.get_put_same split: if_splits)

section \<open>Whole files\<close>

text \<open>
  \<open>isValidFile\<close>, \<open>getFileSize\<close> and \<open>delFile\<close> (directories are not part of the disk), and the hash of a
  file or of a range of an open one; \<open>md5\<close> is the digest of the bytes fed to the MD5 object, and a
  file that cannot be opened or is too short hashes to -1.
\<close>

definition isValidFile :: "fs \<Rightarrow> string \<Rightarrow> bool" where
  "isValidFile disk file \<longleftrightarrow> disk file \<noteq> None"

definition getFileSize :: "fs \<Rightarrow> string \<Rightarrow> u64" where
  "getFileSize disk file = (case disk file of None \<Rightarrow> 0 | Some c \<Rightarrow> of_nat (length c))"

definition delFile :: "fs \<Rightarrow> string \<Rightarrow> fs" where
  "delFile disk file = (if isValidFile disk file then disk(file := None) else disk)"

definition hashFile :: "(bytes \<Rightarrow> string) \<Rightarrow> fs \<Rightarrow> string \<Rightarrow> string" where
  "hashFile md5 disk file = (case disk file of None \<Rightarrow> ''-1'' | Some c \<Rightarrow> md5 c)"

function hash_loop :: "(bytes \<Rightarrow> string) \<Rightarrow> fs \<Rightarrow> file_handle \<Rightarrow> nat \<Rightarrow> bytes \<Rightarrow> string \<times> file_handle" where
  "hash_loop md5 disk h left seen =
     (if left = 0 then (md5 seen, h)
      else
        let buffSize = (if left < 10240 then left else 10240)
        in (case get_bytes (fh_content disk h) (fh_pos h) buffSize of
              None \<Rightarrow> (''-1'', h\<lparr>fh_pos := max (fh_pos h) (length (fh_content disk h))\<rparr>)
            | Some d \<Rightarrow>
                hash_loop md5 disk (h\<lparr>fh_pos := fh_pos h + buffSize\<rparr>) (left - buffSize) (seen @ d)))"
  by pat_completeness auto
termination
  by (relation "measure (\<lambda>(md5, disk, h, left, seen). left)") (auto simp: Let_def)

declare hash_loop.simps [simp del]

definition hashFile_handle :: "(bytes \<Rightarrow> string) \<Rightarrow> fs \<Rightarrow> file_handle \<Rightarrow> u64 \<Rightarrow> string \<times> file_handle" where
  "hashFile_handle md5 disk h len =
     (if \<not> m_bIsOpen h \<or> fh_mode h = FILE_WRITE \<and> len \<noteq> 0 then (''-1'', h)
      else hash_loop md5 disk h (unat len) [])"

text \<open>
  Piecewise reading delivers the whole range: with a callback that appends, the result is the
  bytes of the range in order.
\<close>

lemma get_bytes_split:
  "get_bytes c p (n + m) = Some d \<Longrightarrow>
   get_bytes c p n = Some (take n d) \<and> get_bytes c (p + n) m = Some (drop n d)"
  by (auto simp: get_bytes_def drop_take ac_simps split: if_splits)

lemma fh_readCB_collect:
  assumes "m_bIsOpen h" and "fh_mode h \<noteq> FILE_WRITE" and "0 < b"
    and "get_bytes (fh_content disk h) (fh_pos h) len = Some d"
  shows "fh_readCB disk h len b (\<lambda>x s. (s @ x, False)) s = Inr (s @ d, h\<lparr>fh_pos := fh_pos h + len\<rparr>)"
  using assms
proof (induction len arbitrary: h b s d rule: less_induct)
  case (less len)
  show ?case
  proof (cases "len = 0")
    case True
    with less.prems show ?thesis
      by (auto simp: fh_readCB.simps [of disk h] get_bytes_def split: if_splits)
  next
    case False
    define k where "k = (if b > len then len else b)"
    have k: "0 < k" "k \<le> len" using less.prems(3) False by (auto simp: k_def)
    obtain x y where x: "get_bytes (fh_content disk h) (fh_pos h) k = Some x"
      and y: "get_bytes (fh_content disk h) (fh_pos h + k) (len - k) = Some y" and d: "d = x @ y"
      using less.prems(4) k get_bytes_split [of _ _ k "len - k" d]
      by (metis append_take_drop_id le_add_diff_inverse)
    let ?h = "h\<lparr>fh_pos := fh_pos h + k\<rparr>"
    have "fh_readCB disk ?h (len - k) k (\<lambda>x s. (s @ x, False)) (s @ x) =
        Inr ((s @ x) @ y, ?h\<lparr>fh_pos := fh_pos ?h + (len - k)\<rparr>)"
      using k y less.prems by (intro less.IH) (simp_all add: fh_content_def)
    then show ?thesis
      using less.prems k x d
      by (subst fh_readCB.simps) (simp add: fh_read_def Let_def flip: k_def)
  qed
qed

lemma hash_loop_range:
  "get_bytes (fh_content disk h) (fh_pos h) len = Some d \<Longrightarrow>
   fst (hash_loop md5 disk h len seen) = md5 (seen @ d)"
proof (induction len arbitrary: h seen d rule: less_induct)
  case (less len)
  show ?case
  proof (cases "len = 0")
    case True
    with less.prems show ?thesis by (auto simp: hash_loop.simps [of md5 disk h] get_bytes_def split: if_splits)
  next
    case False
    define k where "k = (if len < 10240 then len else (10240 :: nat))"
    have k: "0 < k" "k \<le> len" using False by (auto simp: k_def)
    obtain x y where x: "get_bytes (fh_content disk h) (fh_pos h) k = Some x"
      and y: "get_bytes (fh_content disk h) (fh_pos h + k) (len - k) = Some y" and d: "d = x @ y"
      using less.prems k get_bytes_split [of _ _ k "len - k" d]
      by (metis append_take_drop_id le_add_diff_inverse)
    have "fst (hash_loop md5 disk (h\<lparr>fh_pos := fh_pos h + k\<rparr>) (len - k) (seen @ x)) = md5 ((seen @ x) @ y)"
      using k y by (intro less.IH) (simp_all add: fh_content_def)
    then show ?thesis
      using False x d by (subst hash_loop.simps) (simp add: Let_def flip: k_def)
  qed
qed

text \<open>The hash of an open file's range is the digest of exactly those bytes.\<close>

lemma hashFile_handle_range:
  "m_bIsOpen h \<Longrightarrow> fh_mode h \<noteq> FILE_WRITE \<Longrightarrow>
   get_bytes (fh_content disk h) (fh_pos h) (unat len) = Some d \<Longrightarrow>
   fst (hashFile_handle md5 disk h len) = md5 d"
  using hash_loop_range [of disk h "unat len" d md5 "[]"] by (simp add: hashFile_handle_def)

text \<open>\<open>readCB\<close> delivers exactly the requested range, in order, whatever the piece size.\<close>

theorem readCB_delivers_range:
  assumes "m_bIsOpen h" and "fh_mode h \<noteq> FILE_WRITE" and "0 < b"
    and "get_bytes (fh_content disk h) (fh_pos h) len = Some d"
  shows "fh_readCB disk h len b (\<lambda>x s. (s @ x, False)) [] = Inr (d, h\<lparr>fh_pos := fh_pos h + len\<rparr>)"
  using fh_readCB_collect [OF assms, of "[]"] by simp

theorem readCB_delivers_range_witness:
  "fh_readCB [''a'' \<mapsto> [1, 2, 3, 4, 5]]
     \<lparr>m_bIsOpen = True, fh_name = ''a'', fh_mode = FILE_READ, m_uiOffset = 0, fh_pos = 1\<rparr>
     3 2 (\<lambda>x s. (s @ x, False)) [] =
   Inr ([2, 3, 4],
     \<lparr>m_bIsOpen = True, fh_name = ''a'', fh_mode = FILE_READ, m_uiOffset = 0, fh_pos = 4\<rparr>)"
  by (subst readCB_delivers_range [where d = "[2, 3, 4]"])
     (simp_all add: get_bytes_def fh_content_def)

end
