(* ===== verification/Util_Bytes.thy ===== *)
theory Util_Bytes
  imports Desura_Prelude
begin

text \<open>
  Integers as bytes, in the order of the machines the client runs on (little-endian): the shifts and \<open>readInt<T>\<close>
  of \<^verbatim>\<open>src/src/static/umcf/code/UMcfHeader.cpp\<close>, which the archive header and the messages between processes share,
  and reading at the front of a buffer, which is undefined when the buffer ends before.
\<close>

unbundle bit_operations_syntax

section \<open>Little-endian integers\<close>

text \<open>\<open>(uint8)(w >> n)\<close>.\<close>

definition byte_at :: "'a::len word \<Rightarrow> nat \<Rightarrow> u8" where
  "byte_at w n = ucast (drop_bit n w)"

definition le32 :: "u32 \<Rightarrow> bytes" where
  "le32 w = [byte_at w 0, byte_at w 8, byte_at w 16, byte_at w 24]"

text \<open>\<open>readInt<T>\<close>: the shifted bytes summed up.\<close>

fun readInt :: "nat \<Rightarrow> bytes \<Rightarrow> 'a::len word" where
  "readInt x [] = 0"
| "readInt x (b # bs) = push_bit (x * 8) (ucast b) + readInt (Suc x) bs"

definition read32 :: "bytes \<Rightarrow> nat \<Rightarrow> u32" where
  "read32 str n = readInt 0 (take 4 (drop n str))"

definition read64 :: "bytes \<Rightarrow> nat \<Rightarrow> u64" where
  "read64 str n = readInt 0 (take 8 (drop n str))"

text \<open>The bits of a sum of shifted bytes.\<close>

lemma bit_readInt:
  "bit (readInt x bs :: 'a::len word) n \<longleftrightarrow>
   n < LENGTH('a) \<and> x * 8 \<le> n \<and> n < (x + length bs) * 8 \<and> bit (bs ! (n div 8 - x)) (n mod 8)"
proof (induction x bs arbitrary: n rule: readInt.induct)
  case (2 x b bs)
  have low: "\<not> bit (readInt (Suc x) bs :: 'a word) m" if "m < Suc x * 8" for m
    using that by (simp add: "2.IH")
  have high: "\<not> bit (push_bit (x * 8) (ucast b) :: 'a word) m" if "Suc x * 8 \<le> m" for m
    using that by (auto simp: bit_simps dest: bit_imp_le_length)
  have "readInt x (b # bs) = (push_bit (x * 8) (ucast b) :: 'a word) OR readInt (Suc x) bs"
    unfolding readInt.simps by (rule disjunctive_add) (metis low high not_less)
  then have eq: "bit (readInt x (b # bs) :: 'a word) n \<longleftrightarrow>
      bit (push_bit (x * 8) (ucast b) :: 'a word) n \<or> bit (readInt (Suc x) bs :: 'a word) n"
    by (simp add: bit_or_iff)
  show ?case
  proof (cases "n < Suc x * 8")
    case True
    show ?thesis
    proof (cases "x * 8 \<le> n")
      case in_byte: True
      then have x: "n div 8 = x" using True by (auto intro: div_nat_eqI)
      then have "n mod 8 = n - x * 8" by (simp add: minus_mult_div_eq_mod [symmetric])
      then show ?thesis
        using True in_byte low [OF True] by (auto simp: eq x bit_simps simp del: readInt.simps dest: bit_imp_le_length)
    next
      case False
      then show ?thesis using low [OF True] by (auto simp: eq bit_simps simp del: readInt.simps)
    qed
  next
    case False
    then have "Suc x \<le> n div 8" by (simp add: less_eq_div_iff_mult_less_eq)
    then have "n div 8 - x = Suc (n div 8 - Suc x)" by simp
    then show ?thesis using False high [of n] by (auto simp: eq "2.IH" simp del: readInt.simps)
  qed
qed simp

declare readInt.simps [simp del]

lemma readInt_bytes:
  fixes w :: "'a::len word"
  assumes "LENGTH('a) = 8 * k" and "length bs = k" and "\<And>i. i < k \<Longrightarrow> bs ! i = byte_at w (8 * i)"
  shows "readInt 0 bs = w"
proof (rule bit_word_eqI)
  fix n assume n: "n < LENGTH('a)"
  then have i: "n div 8 < k" using assms(1) by (simp add: less_mult_imp_div_less)
  have "8 * (n div 8) + n mod 8 = n" by simp
  then show "bit (readInt 0 bs :: 'a word) n = bit w n"
    using n i assms by (auto simp: bit_readInt byte_at_def bit_simps)
qed

lemma readInt_le32: "readInt 0 (le32 w) = w"
  by (rule readInt_bytes [of 4]) (auto simp: le32_def less_Suc_eq numeral_eq_Suc)

lemma length_le32 [simp]: "length (le32 w) = 4"
  by (simp add: le32_def)

interpretation int32: fixed_codec le32 "\<lambda>bs. if length bs = 4 then Some (readInt 0 bs) else None"
  "\<lambda>_. True" 4
  by unfold_locales (simp_all add: readInt_le32)

lemma le32_inj: "le32 v = le32 w \<longleftrightarrow> v = w"
  using int32.enc_inj by auto

definition le64 :: "u64 \<Rightarrow> bytes" where
  "le64 w = map (\<lambda>i. byte_at w (8 * i)) [0 ..< 8]"

lemma readInt_le64: "readInt 0 (le64 w) = w"
  by (rule readInt_bytes [of 8]) (auto simp: le64_def)

lemma length_le64 [simp]: "length (le64 w) = 8"
  by (simp add: le64_def)

interpretation int64: fixed_codec le64 "\<lambda>bs. if length bs = 8 then Some (readInt 0 bs) else None"
  "\<lambda>_. True" 8
  by unfold_locales (simp_all add: readInt_le64)

section \<open>Reading at the front of a buffer\<close>

definition rd_bytes :: "nat \<Rightarrow> bytes \<Rightarrow> bytes res" where
  "rd_bytes n buffer = (if length buffer < n then Inl UNDEFINED else Inr (take n buffer))"

definition rd32 :: "bytes \<Rightarrow> u32 res" where
  "rd32 buffer = bind_res (rd_bytes 4 buffer) (\<lambda>b. Inr (readInt 0 b))"

definition rd64 :: "bytes \<Rightarrow> u64 res" where
  "rd64 buffer = bind_res (rd_bytes 8 buffer) (\<lambda>b. Inr (readInt 0 b))"

lemma rd_bytes_append [codec_simps]: "length a = n \<Longrightarrow> rd_bytes n (a @ rest) = Inr a"
  by (simp add: rd_bytes_def)

lemma rd32_le32 [codec_simps]: "rd32 (le32 w @ rest) = Inr w" "rd32 (le32 w) = Inr w"
  using rd_bytes_append [of "le32 w" 4 rest] rd_bytes_append [of "le32 w" 4 "[]"] by (simp_all add: rd32_def readInt_le32)

lemma rd64_le64 [codec_simps]: "rd64 (le64 w @ rest) = Inr w" "rd64 (le64 w) = Inr w"
  using rd_bytes_append [of "le64 w" 8 rest] rd_bytes_append [of "le64 w" 8 "[]"] by (simp_all add: rd64_def readInt_le64)

lemma rd32_long: "4 \<le> length b \<Longrightarrow> rd32 b = Inr (readInt 0 (take 4 b))"
  by (simp add: rd32_def rd_bytes_def)

lemma rd32_short: "length b < 4 \<Longrightarrow> rd32 b = Inl UNDEFINED"
  by (simp add: rd32_def rd_bytes_def)

section \<open>Sizes counted in 32 bits\<close>

lemma unat_small [simp]: "n < 2 ^ 32 \<Longrightarrow> unat (of_nat n :: u32) = n"
  by (simp add: unat_of_nat take_bit_nat_eq_self)

lemma unat_plus_eq: "unat a + unat b < 2 ^ 32 \<Longrightarrow> unat (a + b :: u32) = unat a + unat b"
  by (simp add: unat_word_ariths)

lemma unat_add_of_nat: "unat k + n < 2 ^ 32 \<Longrightarrow> unat (k + of_nat n :: u32) = unat k + n"
  by (simp add: unat_plus_eq)

lemma unat_numeral_small: "numeral n < (2 :: nat) ^ 32 \<Longrightarrow> unat (numeral n :: u32) = numeral n"
  using unat_small [of "numeral n"] by (simp only: of_nat_numeral)

lemma unat_add_numeral [codec_simps]:
  assumes "unat w + numeral k < 2 ^ 32"
  shows "unat (w + numeral k :: u32) = unat w + numeral k" and "unat (numeral k + w :: u32) = numeral k + unat w"
proof -
  have "unat (numeral k :: u32) = numeral k" by (rule unat_numeral_small) (rule le_less_trans [OF le_add2 assms])
  then show "unat (w + numeral k :: u32) = unat w + numeral k" "unat (numeral k + w :: u32) = numeral k + unat w"
    using assms unat_plus_eq [of w "numeral k"] by (simp_all add: add.commute)
qed

end
