(* ===== verification/Mcf_Header.thy ===== *)
theory Mcf_Header
  imports Desura_Id Util_File Util_Bytes
begin

text \<open>
  The binary header of an MCF archive: \<^verbatim>\<open>src/src/static/umcf/code/UMcfHeader.cpp\<close> and its header, with
  the file operations of \<^verbatim>\<open>src/src/shared/mcfcore/code/mcf/MCFHeader.cpp\<close>.
\<close>

unbundle bit_operations_syntax

section \<open>State\<close>

record UMcfHeader =
  m_szId :: bytes
  m_iFileVer :: u8
  m_iBuild :: MCFBuild
  m_iId :: u32
  m_iType :: u8
  m_iXmlStart :: u64
  m_iXmlSize :: u32
  m_iFlags :: u8
  m_iParentMcf :: u32
  m_iBranch :: MCFBranch

definition default_header :: bytes where
  "default_header = [76, 77, 67, 70]"

definition UMcfHeader_new :: UMcfHeader where
  "UMcfHeader_new =
     \<lparr>m_szId = default_header, m_iFileVer = 2, m_iBuild = 0, m_iId = 0, m_iType = 0,
      m_iXmlStart = 0, m_iXmlSize = 0, m_iFlags = 0, m_iParentMcf = 0, m_iBranch = MCFBranch_default\<rparr>"

text \<open>The copying constructor takes every field of the other header but its magic number.\<close>

definition UMcfHeader_copy :: "UMcfHeader option \<Rightarrow> UMcfHeader" where
  "UMcfHeader_copy head =
     (case head of None \<Rightarrow> UMcfHeader_new
      | Some h \<Rightarrow>
          UMcfHeader_new\<lparr>m_iFileVer := m_iFileVer h, m_iBuild := m_iBuild h, m_iId := m_iId h,
            m_iType := m_iType h, m_iXmlStart := m_iXmlStart h, m_iXmlSize := m_iXmlSize h,
            m_iFlags := m_iFlags h, m_iParentMcf := m_iParentMcf h, m_iBranch := m_iBranch h\<rparr>)"

definition MCF_HEADERSIZE_V1 :: nat where "MCF_HEADERSIZE_V1 = 31"
definition MCF_HEADERSIZE_V2 :: nat where "MCF_HEADERSIZE_V2 = 35"

definition getSize :: "UMcfHeader \<Rightarrow> nat" where
  "getSize h = (if m_iFileVer h = 2 then MCF_HEADERSIZE_V2 else MCF_HEADERSIZE_V1)"

definition updateFileVersion :: "UMcfHeader \<Rightarrow> UMcfHeader" where
  "updateFileVersion h = h\<lparr>m_iFileVer := 2\<rparr>"

definition header_isValid :: "UMcfHeader \<Rightarrow> bool" where
  "header_isValid h \<longleftrightarrow> m_szId h ! 0 = 76 \<and> m_szId h ! 1 = 77 \<and> m_szId h ! 2 = 67 \<and> m_szId h ! 3 = 70"

definition header_getDesuraId :: "UMcfHeader \<Rightarrow> DesuraId" where
  "header_getDesuraId h = \<lparr>m_uiItemId = m_iId h, m_uiType = m_iType h\<rparr>"

text \<open>Branches compare through their conversion to \<open>uint32\<close>; a null header never matches.\<close>

definition header_matches :: "UMcfHeader \<Rightarrow> UMcfHeader option \<Rightarrow> bool" where
  "header_matches h other =
     (case other of None \<Rightarrow> False
      | Some o' \<Rightarrow> DesuraId_eq (header_getDesuraId h) (header_getDesuraId o')
                  \<and> m_uiBranch (m_iBranch h) = m_uiBranch (m_iBranch o'))"

definition header_addFlags :: "u8 \<Rightarrow> UMcfHeader \<Rightarrow> UMcfHeader" where
  "header_addFlags flag h = h\<lparr>m_iFlags := m_iFlags h OR flag\<rparr>"

definition header_delFlags :: "u8 \<Rightarrow> UMcfHeader \<Rightarrow> UMcfHeader" where
  "header_delFlags flag h = h\<lparr>m_iFlags := m_iFlags h AND NOT flag\<rparr>"

definition FLAG_NONVERIFYED :: u8 where "FLAG_NONVERIFYED = 4"
definition FLAG_NOTCOMPRESSED :: u8 where "FLAG_NOTCOMPRESSED = 8"
definition FLAG_COURGETTE :: u8 where "FLAG_COURGETTE = 32"

section \<open>The header as bytes\<close>

text \<open>
  \<open>headerToStr\<close> fills a buffer of \<open>getSize()\<close> bytes by position. The last byte of the XML offset is
  \<open>m_iXmlStart>>52\<close>. A header whose version is above 2 has a buffer of 31 bytes and is written 35.
\<close>

definition xml_start_bytes :: "u64 \<Rightarrow> bytes" where
  "xml_start_bytes x =
     [byte_at x 0, byte_at x 8, byte_at x 16, byte_at x 24,
      byte_at x 32, byte_at x 40, byte_at x 48, byte_at x 52]"

definition header_bytes :: "UMcfHeader \<Rightarrow> bytes" where
  "header_bytes h =
     take 4 (m_szId h) @ [m_iFileVer h] @ le32 (m_iBuild h) @ le32 (m_iId h) @ [m_iType h]
     @ xml_start_bytes (m_iXmlStart h) @ le32 (m_iXmlSize h) @ [m_iFlags h] @ le32 (m_iParentMcf h)
     @ (if 2 \<le> m_iFileVer h then le32 (m_uiBranch (m_iBranch h)) else [])"

definition headerToStr :: "UMcfHeader \<Rightarrow> bytes res" where
  "headerToStr h =
     (if length (header_bytes h) \<le> getSize h then Inr (header_bytes h) else Inl UNDEFINED)"

definition strToHeader :: "UMcfHeader \<Rightarrow> bytes \<Rightarrow> UMcfHeader res" where
  "strToHeader h str =
     (if length str < 31 \<or> 2 \<le> str ! 4 \<and> length str < 35 then Inl UNDEFINED
      else Inr (h\<lparr>m_szId := take 4 str, m_iFileVer := str ! 4,
          m_iBuild := BuildFromInt (read32 str 5), m_iId := read32 str 9, m_iType := str ! 13,
          m_iXmlStart := read64 str 14, m_iXmlSize := read32 str 22, m_iFlags := str ! 26,
          m_iParentMcf := read32 str 27,
          m_iBranch := (if 2 \<le> str ! 4 then BranchFromInt (read32 str 31) False
                        else MCFBranch_default)\<rparr>))"

definition MCFHeader_of_string :: "bytes \<Rightarrow> UMcfHeader res" where
  "MCFHeader_of_string str = strToHeader UMcfHeader_new str"

section \<open>The header in a file\<close>

definition header_saveToFile :: "fs \<Rightarrow> UMcfHeader \<Rightarrow> file_handle \<Rightarrow> (fs \<times> file_handle) res" where
  "header_saveToFile disk h hFile =
     bind_res (headerToStr h) (\<lambda>str.
     bind_res (fh_seek hFile 0) (\<lambda>hFile.
     fh_write disk hFile str))"

definition header_readFromFile :: "fs \<Rightarrow> UMcfHeader \<Rightarrow> file_handle \<Rightarrow> (UMcfHeader \<times> file_handle) res" where
  "header_readFromFile disk h hFile =
     bind_res (fh_read disk hFile (getSize h)) (\<lambda>(buff, hFile).
     bind_res (strToHeader h buff) (\<lambda>h'.
     if header_isValid h' then Inr (h', hFile) else Inl ERR_INVALID))"

text \<open>The C-file variant returns a status; \<open>fread\<close> delivers what is there. A null handle is \<open>None\<close>.\<close>

datatype UMCF_ERRORS = OK | ERR_PARTWRITE | UMCF_PARTREAD | UMCF_INVALID | UMCF_NULLHANDLE

definition UMcfHeader_readFromFile :: "UMcfHeader \<Rightarrow> bytes option \<Rightarrow> (UMcfHeader \<times> UMCF_ERRORS) res" where
  "UMcfHeader_readFromFile h hFile =
     (case hFile of
        None \<Rightarrow> Inr (h, UMCF_NULLHANDLE)
      | Some rest \<Rightarrow>
          (let szBuff = take (getSize h) rest in
           if length szBuff \<noteq> getSize h then Inr (h, UMCF_PARTREAD)
           else bind_res (strToHeader h szBuff)
                  (\<lambda>h'. Inr (h', if header_isValid h' then OK else UMCF_INVALID))))"

section \<open>Reading back what was written\<close>

text \<open>The XML offset after a write and a read.\<close>

definition xml_start_stored :: "u64 \<Rightarrow> u64" where
  "xml_start_stored x = readInt 0 (xml_start_bytes x)"

lemma bit_xml_start_stored:
  "bit (xml_start_stored x) n \<longleftrightarrow>
   n < 64 \<and> (if n < 56 then bit x n else bit x (n - 4))"
proof (cases "n < 64")
  case True
  then have "n div 8 < 8" by simp
  then consider "n div 8 = 0" | "n div 8 = 1" | "n div 8 = 2" | "n div 8 = 3" | "n div 8 = 4"
    | "n div 8 = 5" | "n div 8 = 6" | "n div 8 = 7"
    by linarith
  moreover have "n = 8 * (n div 8) + n mod 8" by simp
  moreover have "n div 8 = 7 \<Longrightarrow> n - 4 = 52 + n mod 8" by presburger
  ultimately show ?thesis
    by cases (auto simp: xml_start_stored_def bit_readInt xml_start_bytes_def byte_at_def bit_simps
        dest: bit_imp_le_length)
qed (simp add: xml_start_stored_def bit_readInt xml_start_bytes_def)

lemma xml_start_stored_id:
  assumes "x < 2 ^ 52"
  shows "xml_start_stored x = x"
proof -
  have "uint x < 2 ^ 52" using assms by (simp add: word_less_def)
  then have "take_bit 52 (uint x) = uint x" by (simp add: take_bit_int_eq_self)
  then have "\<not> bit x n" if "52 \<le> n" for n
    using that by (metis bit_take_bit_iff bit_uint_iff bit_imp_le_length not_less)
  then show ?thesis
    by (intro bit_word_eqI) (auto simp: bit_xml_start_stored)
qed

lemma le32_fields: "take 4 (le32 w @ r) = le32 w" "take 4 (le32 w) = le32 w"
  by simp_all

lemma length_xml_start_bytes [simp]: "length (xml_start_bytes x) = 8"
  by (simp add: xml_start_bytes_def)

lemma version_1_old [simp]: "\<not> 2 \<le> (1 :: u8)"
  by (simp add: word_le_nat_alt)

lemma length_header_bytes:
  "length (m_szId h) = 4 \<Longrightarrow> length (header_bytes h) = (if 2 \<le> m_iFileVer h then 35 else 31)"
  by (simp add: header_bytes_def)

text \<open>
  A header that can be written: four magic characters and a file version the format knows. Version 1
  has no place for the branch, and the global mark of a branch is not stored.
\<close>

definition header_ok :: "UMcfHeader \<Rightarrow> bool" where
  "header_ok h \<longleftrightarrow> m_szId h = default_header \<and> m_iFileVer h \<in> {1, 2} \<and> \<not> m_bGlobal (m_iBranch h)
     \<and> (m_iFileVer h = 1 \<longrightarrow> m_iBranch h = MCFBranch_default)"

lemma strToHeader_header_bytes:
  assumes "header_ok h"
  shows "strToHeader h0 (header_bytes h) = Inr (h\<lparr>m_iXmlStart := xml_start_stored (m_iXmlStart h)\<rparr>)"
proof -
  have nth: "(as @ b # bs) ! length as = b" for as bs and b :: u8 by simp
  have ver: "m_iFileVer h = 1 \<or> m_iFileVer h = 2" using assms by (simp add: header_ok_def)
  have id: "m_szId h = [76, 77, 67, 70]" using assms by (simp add: header_ok_def default_header_def)
  let ?s = "header_bytes h"
  have "?s ! 4 = m_iFileVer h" "?s ! 13 = m_iType h" "?s ! 26 = m_iFlags h" "take 4 ?s = m_szId h"
    by (simp_all add: header_bytes_def id le32_def xml_start_bytes_def)
  moreover have "read32 ?s 5 = m_iBuild h" "read32 ?s 9 = m_iId h" "read32 ?s 22 = m_iXmlSize h"
    "read32 ?s 27 = m_iParentMcf h" "read64 ?s 14 = xml_start_stored (m_iXmlStart h)"
    by (simp_all add: header_bytes_def id read32_def read64_def readInt_le32 xml_start_stored_def)
  moreover have "m_iFileVer h = 2 \<Longrightarrow> read32 ?s 31 = m_uiBranch (m_iBranch h)"
    by (simp add: header_bytes_def id read32_def readInt_le32)
  moreover have "\<not> (length ?s < 31 \<or> 2 \<le> m_iFileVer h \<and> length ?s < 35)"
    by (simp add: length_header_bytes id)
  moreover have "(if 2 \<le> m_iFileVer h then BranchFromInt (read32 ?s 31) False else MCFBranch_default)
      = m_iBranch h"
    using ver assms calculation by (auto simp: BranchFromInt_def header_ok_def)
  ultimately show ?thesis
    unfolding strToHeader_def
    by (simp only: BuildFromInt_def if_False) (intro arg_cong [of _ _ Inr] UMcfHeader.equality, simp_all)
qed

lemma headerToStr_ok:
  assumes "header_ok h"
  shows "headerToStr h = Inr (header_bytes h)" and "length (header_bytes h) = getSize h"
  using assms by (auto simp: headerToStr_def length_header_bytes header_ok_def default_header_def
      getSize_def MCF_HEADERSIZE_V1_def MCF_HEADERSIZE_V2_def)

lemma header_isValid_default: "m_szId h = default_header \<Longrightarrow> header_isValid h"
  by (simp add: header_isValid_def default_header_def)

text \<open>
  A header written to an open, empty file at offset 0 is read back from there unchanged by a
  fresh reader, except for the XML offset, whose upper byte is taken from bit 52 instead of bit 56;
  an offset below 2 to the power of 52 survives.
\<close>

theorem header_file_roundtrip:
  assumes "header_ok h" and "m_iFileVer h = 2"
    and "fh_open disk (Some name) FILE_WRITE 0 = Inr (disk1, w)"
  shows "\<exists>disk2 w2 r r2. header_saveToFile disk1 h w = Inr (disk2, w2)
    \<and> fh_open disk2 (Some name) FILE_READ 0 = Inr (disk2, r)
    \<and> header_readFromFile disk2 UMcfHeader_new r
        = Inr (h\<lparr>m_iXmlStart := xml_start_stored (m_iXmlStart h)\<rparr>, r2)
    \<and> (m_iXmlStart h < 2 ^ 52 \<longrightarrow> xml_start_stored (m_iXmlStart h) = m_iXmlStart h)"
proof -
  have len: "length (header_bytes h) = 35" and ne: "header_bytes h \<noteq> []"
    using headerToStr_ok [OF assms(1)] assms(2) by (auto simp: getSize_def MCF_HEADERSIZE_V2_def)
  have size: "getSize UMcfHeader_new = 35"
    by (simp add: getSize_def UMcfHeader_new_def MCF_HEADERSIZE_V2_def)
  have get: "get_bytes (put_bytes [] 0 (header_bytes h)) 0 35 = Some (header_bytes h)"
    using disk.get_put_same [of "[]" 0 "header_bytes h"] by (simp add: len)
  have "header_isValid (h\<lparr>m_iXmlStart := xml_start_stored (m_iXmlStart h)\<rparr>)"
    using assms(1) by (intro header_isValid_default) (simp add: header_ok_def)
  then show ?thesis
    using assms(3) ne get
    by (auto simp: header_saveToFile_def headerToStr_ok [OF assms(1)] fh_open_def fh_seek_def fh_write_def
        fh_content_def header_readFromFile_def fh_read_def size strToHeader_header_bytes [OF assms(1)]
        xml_start_stored_id)
qed

theorem header_file_roundtrip_witness:
  "\<exists>disk2 w2 r r2. header_saveToFile [''m'' \<mapsto> []] UMcfHeader_new
        \<lparr>m_bIsOpen = True, fh_name = ''m'', fh_mode = FILE_WRITE, m_uiOffset = 0, fh_pos = 0\<rparr> = Inr (disk2, w2)
    \<and> header_readFromFile disk2 UMcfHeader_new r
        = Inr (UMcfHeader_new\<lparr>m_iXmlStart := xml_start_stored 0\<rparr>, r2)"
  using header_file_roundtrip [of UMcfHeader_new Map.empty "''m''"]
  by (fastforce simp: header_ok_def UMcfHeader_new_def MCFBranch_default_def fh_open_def)

text \<open>
  The writer stays inside its buffer exactly for headers whose version is at most 2: a header
  read with version 3 or above (the reader accepts them) is written past the 31 bytes \<open>getSize\<close>
  allocates.
\<close>

theorem headerToStr_overflow:
  "length (m_szId h) = 4 \<Longrightarrow> headerToStr h = Inl UNDEFINED \<longleftrightarrow> 3 \<le> m_iFileVer h"
proof -
  assume id: "length (m_szId h) = 4"
  have "2 \<le> v \<and> v \<noteq> 2 \<longleftrightarrow> 3 \<le> v" for v :: u8
    using word_unat_eq_iff [of v 2] by (auto simp: word_le_nat_alt)
  then show ?thesis
    by (auto simp: headerToStr_def getSize_def length_header_bytes [OF id]
        MCF_HEADERSIZE_V1_def MCF_HEADERSIZE_V2_def)
qed

theorem headerToStr_overflow_witness:
  "headerToStr (UMcfHeader_new\<lparr>m_iFileVer := 3\<rparr>) = Inl UNDEFINED"
  using headerToStr_overflow [of "UMcfHeader_new\<lparr>m_iFileVer := 3\<rparr>"]
  by (simp add: UMcfHeader_new_def default_header_def)

end
