(* ===== verification/Util_Path.thy ===== *)
theory Util_Path
  imports Util_Misc
begin

text \<open>
  The path class of \<^verbatim>\<open>src/src/static/util/code/UtilFsPath.cpp\<close>, as compiled on Linux (separator
  \<open>/\<close>, the other slash being the backslash, and the \<open>m_absolutePath\<close> flag).
\<close>

section \<open>Files\<close>

type_synonym fs_file = string

text \<open>\<open>getFileExt\<close>: what follows the last dot.\<close>

definition getFileExt :: "fs_file \<Rightarrow> string" where
  "getFileExt f = (if CHR ''.'' \<in> set f then rev (takeWhile (\<lambda>c. c \<noteq> CHR ''.'') (rev f)) else [])"

lemma getFileExt_append: "CHR ''.'' \<notin> set e \<Longrightarrow> getFileExt (n @ CHR ''.'' # e) = e"
  by (simp add: getFileExt_def takeWhile_first)

section \<open>Paths\<close>

record fs_path =
  m_absolutePath :: bool
  m_vPath :: "string list"
  m_File :: fs_file

definition good :: char where "good = CHR ''/''"
definition bad :: char where "bad = CHR 0x5C"

definition Path_empty :: fs_path where
  "Path_empty = \<lparr>m_absolutePath = False, m_vPath = [], m_File = []\<rparr>"

text \<open>The search loop of \<open>parsePath\<close>: the pieces between the separators.\<close>

function split_path :: "string \<Rightarrow> string list" where
  "split_path p =
     takeWhile (\<lambda>c. c \<noteq> good) p #
     (case dropWhile (\<lambda>c. c \<noteq> good) p of [] \<Rightarrow> [] | _ # rest \<Rightarrow> split_path rest)"
  by pat_completeness auto
termination
proof (relation "measure length")
  fix p :: string and c rest
  assume "dropWhile (\<lambda>c. c \<noteq> good) p = c # rest"
  then have "length (c # rest) \<le> length p"
    by (metis length_dropWhile_le)
  then show "(rest, p) \<in> measure length" by simp
qed simp

declare split_path.simps [simp del]

definition parsePath :: "fs_path \<Rightarrow> string \<Rightarrow> bool \<Rightarrow> fs_path" where
  "parsePath path p bLastIsFile =
     (let p' = map (\<lambda>c. if c = bad then good else c) p;
          v = filter (\<lambda>s. s \<noteq> []) (m_vPath path @ split_path p')
      in if bLastIsFile \<and> v \<noteq> [] then path\<lparr>m_vPath := butlast v, m_File := last v\<rparr>
         else path\<lparr>m_vPath := v\<rparr>)"

definition Path_ctor :: "string \<Rightarrow> string \<Rightarrow> bool \<Rightarrow> fs_path" where
  "Path_ctor path file bLastIsFile =
     (let p = parsePath (Path_empty\<lparr>m_absolutePath := path \<noteq> [] \<and> hd path = CHR ''/''\<rparr>) path bLastIsFile
      in if bLastIsFile then p else p\<lparr>m_File := file\<rparr>)"

fun join_path :: "string list \<Rightarrow> string" where
  "join_path [] = []"
| "join_path [d] = d"
| "join_path (d # e # ds) = d @ good # join_path (e # ds)"

definition getFolderPath :: "fs_path \<Rightarrow> string" where
  "getFolderPath p = (if m_absolutePath p \<and> m_vPath p \<noteq> [] then [good] else []) @ join_path (m_vPath p)"

definition getFullPath :: "fs_path \<Rightarrow> string" where
  "getFullPath p =
     (let out = getFolderPath p; file = m_File p
      in (if out \<noteq> [] \<and> file \<noteq> [] then out @ [good] else out) @ file)"

definition Path_copy :: "fs_path \<Rightarrow> fs_path" where
  "Path_copy p =
     \<lparr>m_absolutePath = (getFullPath p \<noteq> [] \<and> hd (getFullPath p) = CHR ''/''),
      m_vPath = m_vPath p, m_File = m_File p\<rparr>"

definition getLastFolder :: "fs_path \<Rightarrow> string" where
  "getLastFolder p = (if m_vPath p = [] then [] else last (m_vPath p))"

text \<open>\<open>operator+=\<close> with a string and with a path (whose file is dropped), and \<open>operator+\<close>.\<close>

definition Path_add_str :: "fs_path \<Rightarrow> string \<Rightarrow> fs_path" where
  "Path_add_str p rhs = parsePath p rhs False"

definition Path_add_path :: "fs_path \<Rightarrow> fs_path \<Rightarrow> fs_path" where
  "Path_add_path p rhs = p\<lparr>m_vPath := m_vPath p @ m_vPath rhs\<rparr>"

definition Path_plus :: "fs_path \<Rightarrow> string \<Rightarrow> string" where
  "Path_plus p rhs = getFullPath (Path_add_str (Path_copy p) rhs)"

definition Path_eq :: "fs_path \<Rightarrow> fs_path \<Rightarrow> bool" where
  "Path_eq p q \<longleftrightarrow> m_vPath p = m_vPath q \<and> m_File p = m_File q"

definition getFolder :: "fs_path \<Rightarrow> nat \<Rightarrow> string" where
  "getFolder p i = (if i \<ge> length (m_vPath p) then [] else m_vPath p ! i)"

text \<open>ASCII \<open>tolower\<close>, as in the C locale.\<close>

definition to_lower :: "char \<Rightarrow> char" where
  "to_lower c = (if is_upper c then char_of (code c + 32) else c)"

fun startsWith_loop :: "string list \<Rightarrow> string list \<Rightarrow> bool" where
  "startsWith_loop ps [] = True"
| "startsWith_loop [] (q # qs) = False"
| "startsWith_loop (p # ps) (q # qs) =
     (if map to_lower p \<noteq> map to_lower q then False else startsWith_loop ps qs)"

definition Path_startsWith :: "fs_path \<Rightarrow> fs_path \<Rightarrow> bool" where
  "Path_startsWith p q =
     (if length (m_vPath q) > length (m_vPath p) then False
      else startsWith_loop (m_vPath p) (m_vPath q))"

text \<open>
  \<open>getShortPath\<close>: widen from both ends while the names fit into the ideal length, then replace
  the rest by three dots. \<open>start \<le> stop\<close> holds at every step, so the test \<open>start == stop\<close> of the
  source is written \<open>start \<ge> stop\<close>, which makes the recursion total on all arguments.
\<close>

function short_window :: "string list \<Rightarrow> nat \<Rightarrow> nat \<Rightarrow> nat \<Rightarrow> nat \<Rightarrow> nat \<times> nat" where
  "short_window ls idealLen count start stop =
     (if count < idealLen then
        (if start \<ge> stop then (start, stop)
         else
           let startLen = length (ls ! start); endLen = length (ls ! stop);
               fits = count + startLen < idealLen;
               start' = (if fits then start + 1 else start);
               count' = (if fits then count + startLen else count)
           in if start' \<ge> stop then (start', stop)
              else if count' + endLen < idealLen
                   then short_window ls idealLen (count' + endLen) start' (stop - 1)
                   else (start', stop))
      else (start, stop))"
  by pat_completeness auto
termination
  by (relation "measure (\<lambda>(ls, i, c, start, stop). stop)") (auto simp: Let_def)

declare short_window.simps [simp del]

fun short_build :: "nat \<Rightarrow> nat \<Rightarrow> nat \<Rightarrow> bool \<Rightarrow> string list \<Rightarrow> fs_path \<Rightarrow> fs_path" where
  "short_build start stop x first [] out = out"
| "short_build start stop x first (l # ls) out =
     (if x < start \<or> x > stop then short_build start stop (x + 1) first ls (Path_add_str out l)
      else if first then short_build start stop (x + 1) False ls (Path_add_str out ''...'')
      else short_build start stop (x + 1) first ls out)"

definition getShortPath :: "fs_path \<Rightarrow> nat \<Rightarrow> bool \<Rightarrow> string" where
  "getShortPath p idealLen withFile =
     (let fullPath = (if withFile then getFullPath p else getFolderPath p)
      in if idealLen > length fullPath then fullPath
         else
           let ls = m_vPath p @ (if withFile \<and> m_File p \<noteq> [] then [m_File p] else [])
           in if length ls \<le> 1 then fullPath
              else
                let (start, stop) = short_window ls idealLen 0 0 (length ls - 1)
                in getFullPath (short_build start stop 0 True ls Path_empty))"

section \<open>Components are clean\<close>

text \<open>A component has at least one character and no separator.\<close>

definition clean :: "string \<Rightarrow> bool" where
  "clean s \<longleftrightarrow> s \<noteq> [] \<and> good \<notin> set s \<and> bad \<notin> set s"

lemma good_bad: "good \<noteq> bad"
  by (simp add: good_def bad_def)

lemma split_path_pieces: "s \<in> set (split_path p) \<Longrightarrow> good \<notin> set s \<and> set s \<subseteq> set p"
proof (induction p rule: split_path.induct)
  case (1 p)
  from "1.prems" have "s = takeWhile (\<lambda>c. c \<noteq> good) p \<or>
      (\<exists>c rest. dropWhile (\<lambda>c. c \<noteq> good) p = c # rest \<and> s \<in> set (split_path rest))"
    by (subst (asm) split_path.simps) (cases "dropWhile (\<lambda>c. c \<noteq> good) p", auto)
  then show ?case
  proof (elim disjE exE conjE)
    assume "s = takeWhile (\<lambda>c. c \<noteq> good) p"
    then show ?thesis by (auto dest: set_takeWhileD)
  next
    fix c rest
    assume d: "dropWhile (\<lambda>c. c \<noteq> good) p = c # rest" and "s \<in> set (split_path rest)"
    with "1.IH" [OF d] have "good \<notin> set s \<and> set s \<subseteq> set rest" by blast
    moreover have "set rest \<subseteq> set p" using d set_dropWhileD [of _ "\<lambda>c. c \<noteq> good" p] by auto
    ultimately show ?thesis by blast
  qed
qed

lemma parsePath_parts:
  "\<forall>s\<in>set (m_vPath path). clean s \<Longrightarrow>
   (\<forall>s\<in>set (filter (\<lambda>s. s \<noteq> []) (m_vPath path @ split_path (map (\<lambda>c. if c = bad then good else c) p))). clean s)"
  by (fastforce simp: clean_def good_bad dest: split_path_pieces)

definition path_wf :: "fs_path \<Rightarrow> bool" where
  "path_wf p \<longleftrightarrow> (\<forall>s\<in>set (m_vPath p). clean s)"

lemma parsePath_wf: "path_wf path \<Longrightarrow> path_wf (parsePath path p b)"
proof -
  assume "path_wf path"
  then have "\<forall>s\<in>set (filter (\<lambda>s. s \<noteq> []) (m_vPath path @ split_path (map (\<lambda>c. if c = bad then good else c) p))). clean s"
    unfolding path_wf_def by (rule parsePath_parts)
  then show ?thesis
    by (auto simp: parsePath_def path_wf_def Let_def simp del: filter_append dest: in_set_butlastD)
qed

lemma Path_ctor_wf: "path_wf (Path_ctor p f b)"
  using parsePath_wf [of "Path_empty\<lparr>m_absolutePath := p \<noteq> [] \<and> hd p = CHR ''/''\<rparr>" p b]
  by (auto simp: Path_ctor_def Let_def path_wf_def Path_empty_def)

lemma Path_add_path_wf: "path_wf p \<Longrightarrow> path_wf q \<Longrightarrow> path_wf (Path_add_path p q)"
  by (auto simp: path_wf_def Path_add_path_def)

lemma Path_add_str_wf: "path_wf p \<Longrightarrow> path_wf (Path_add_str p s)"
  by (simp add: Path_add_str_def parsePath_wf)

section \<open>Printing and parsing\<close>

lemma split_path_Nil [simp]: "split_path [] = [[]]"
  by (subst split_path.simps) simp

lemma split_path_sep: "good \<notin> set d \<Longrightarrow> split_path (d @ good # s) = d # split_path s"
  by (subst split_path.simps) (simp add: takeWhile_first dropWhile_first)

lemma split_path_last: "good \<notin> set d \<Longrightarrow> split_path d = [d]"
  by (subst split_path.simps) (simp add: takeWhile_none dropWhile_none)

lemma split_path_join:
  "ds \<noteq> [] \<Longrightarrow> \<forall>d\<in>set ds. good \<notin> set d \<Longrightarrow> split_path (join_path ds) = ds"
  by (induction ds rule: join_path.induct) (simp_all add: split_path_last split_path_sep)

lemma split_path_root: "split_path (good # s) = [] # split_path s"
  using split_path_sep [of "[]" s] by simp

lemma join_path_snoc: "ds \<noteq> [] \<Longrightarrow> join_path ds @ good # f = join_path (ds @ [f])"
  by (induction ds rule: join_path.induct) simp_all

lemma join_path_nonempty: "ds \<noteq> [] \<Longrightarrow> \<forall>d\<in>set ds. d \<noteq> [] \<Longrightarrow> join_path ds \<noteq> [] \<and> hd (join_path ds) = hd (hd ds)"
  by (induction ds rule: join_path.induct) auto

lemma set_join_path: "set (join_path ds) \<subseteq> insert good (\<Union> (set ` set ds))"
  by (induction ds rule: join_path.induct) auto

text \<open>What the printed form of a well-formed path with folders looks like.\<close>

lemma getFullPath_form:
  assumes "path_wf p" and "m_vPath p \<noteq> []" and "clean (m_File p)"
  shows "getFullPath p = (if m_absolutePath p then [good] else []) @ join_path (m_vPath p @ [m_File p])"
proof -
  have "join_path (m_vPath p) \<noteq> []"
    using assms(1,2) by (auto simp: path_wf_def clean_def dest!: join_path_nonempty)
  then show ?thesis
    using assms by (simp add: getFullPath_def getFolderPath_def Let_def clean_def
        flip: join_path_snoc)
qed

lemma parse_printed:
  assumes "ds \<noteq> []" and "\<forall>d\<in>set ds. clean d"
  shows "filter (\<lambda>s. s \<noteq> []) (split_path (map (\<lambda>c. if c = bad then good else c)
      ((if a then [good] else []) @ join_path ds))) = ds"
proof -
  have "map (\<lambda>c. if c = bad then good else c) (join_path ds) = join_path ds"
    using assms(2) set_join_path [of ds] good_bad
    by (intro map_idI) (auto simp: clean_def)
  moreover have "split_path (join_path ds) = ds"
    using assms by (intro split_path_join) (auto simp: clean_def)
  moreover have "filter (\<lambda>s. s \<noteq> []) ds = ds"
    using assms(2) by (auto simp: filter_id_conv clean_def)
  ultimately show ?thesis by (simp add: split_path_root)
qed

text \<open>
  A path with clean components, at least one folder and a file prints to a string that parses
  back to the same path.
\<close>

theorem Path_print_parse:
  assumes "path_wf p" and "m_vPath p \<noteq> []" and "clean (m_File p)"
  shows "Path_ctor (getFullPath p) [] True = p"
proof -
  let ?ds = "m_vPath p @ [m_File p]"
  have clean: "\<forall>d\<in>set ?ds. clean d" using assms by (auto simp: path_wf_def)
  have form: "getFullPath p = (if m_absolutePath p then [good] else []) @ join_path ?ds"
    by (rule getFullPath_form [OF assms])
  have "join_path ?ds \<noteq> [] \<and> hd (join_path ?ds) = hd (hd ?ds)"
    using clean by (intro join_path_nonempty) (auto simp: clean_def)
  moreover have "hd (hd ?ds) \<noteq> good"
    using assms by (cases "m_vPath p"; cases "hd (m_vPath p)") (auto simp: path_wf_def clean_def)
  ultimately have abs: "(getFullPath p \<noteq> [] \<and> hd (getFullPath p) = CHR ''/'') = m_absolutePath p"
    by (simp add: form good_def)
  show ?thesis
    using parse_printed [OF _ clean, of "m_absolutePath p"] abs
    by (simp add: Path_ctor_def parsePath_def Path_empty_def form Let_def del: filter_append)
qed

theorem Path_print_parse_witness:
  "Path_ctor ''/usr/lib/x.so'' [] True =
   \<lparr>m_absolutePath = True, m_vPath = [''usr'', ''lib''], m_File = ''x.so''\<rparr>"
  using Path_print_parse [of "\<lparr>m_absolutePath = True, m_vPath = [''usr'', ''lib''], m_File = ''x.so''\<rparr>"]
  by (simp add: path_wf_def clean_def good_def bad_def getFullPath_def getFolderPath_def Let_def)

text \<open>The path of a file directly under the root prints without its leading separator.\<close>

theorem Path_root_file:
  "clean f \<Longrightarrow> getFullPath (Path_ctor (CHR ''/'' # f) [] True) = f"
proof -
  assume f: "clean f"
  then have "filter (\<lambda>s. s \<noteq> []) (split_path (map (\<lambda>c. if c = bad then good else c) (good # f))) = [f]"
    using parse_printed [of "[f]" True] by simp
  then show ?thesis
    using f by (simp add: Path_ctor_def parsePath_def Path_empty_def Let_def good_def getFullPath_def
        getFolderPath_def)
qed

theorem Path_root_file_witness: "getFullPath (Path_ctor ''/vmlinuz'' [] True) = ''vmlinuz''"
  by (rule Path_root_file) (simp add: clean_def good_def bad_def)

end
