(* ===== verification/Util_String.thy ===== *)
theory Util_String
  imports Util_Misc
begin

text \<open>
  The string routines of \<^verbatim>\<open>src/src/static/util/code/UtilString.cpp\<close>: short names, path
  sanitising, tokenising, URL escapes, base64 and backslash escaping.
\<close>

unbundle bit_operations_syntax

section \<open>Short names\<close>

text \<open>First loop of \<open>getShortName\<close>: drop separators, capitalising the letter after one.\<close>

definition to_upper :: "char \<Rightarrow> char" where
  "to_upper c = char_of (code c - 32)"

fun shortName_strip :: "bool \<Rightarrow> string \<Rightarrow> string" where
  "shortName_strip nextCap [] = []"
| "shortName_strip nextCap (c # cs) =
     (if c = CHR '' '' \<or> c = CHR '':'' \<or> c = CHR ''-'' then shortName_strip True cs
      else if is_digit c \<or> is_upper c \<or> is_lower c then
        (if nextCap \<and> is_lower c then to_upper c else c) # shortName_strip False cs
      else shortName_strip nextCap cs)"

text \<open>Second loop: a digit, or the capital that follows a lower-case letter.\<close>

fun shortName_caps :: "string \<Rightarrow> string" where
  "shortName_caps [] = []"
| "shortName_caps (c # cs) =
     (case cs of
        d # _ \<Rightarrow>
          (if is_lower c \<and> is_upper d then d # shortName_caps cs
           else if is_digit c then c # shortName_caps cs
           else shortName_caps cs)
      | [] \<Rightarrow> (if is_digit c then c # shortName_caps cs else shortName_caps cs))"

definition getShortName :: "string \<Rightarrow> string" where
  "getShortName src =
     (let temp = shortName_strip False src;
          dest = (case temp of [] \<Rightarrow> []
                  | t # _ \<Rightarrow> (if is_lower t then [to_upper t] else if is_upper t then [t] else []))
      in dest @ shortName_caps (tl temp))"

lemma is_upper_to_upper: "is_lower c \<Longrightarrow> is_upper (to_upper c)"
  by (auto simp: is_lower_def is_upper_def to_upper_def less_imp_diff_less)

lemma shortName_caps_set: "c \<in> set (shortName_caps s) \<Longrightarrow> is_upper c \<or> is_digit c"
proof (induction s)
  case (Cons a s)
  then show ?case by (cases s) (auto split: if_splits)
qed simp

lemma getShortName_set: "c \<in> set (getShortName s) \<Longrightarrow> is_upper c \<or> is_digit c"
  by (auto simp: getShortName_def Let_def is_upper_to_upper dest: shortName_caps_set
      split: list.splits if_splits)

section \<open>Sanitising file names\<close>

definition is_slash :: "char \<Rightarrow> bool" where
  "is_slash c \<longleftrightarrow> c = CHR 0x5C \<or> c = CHR ''/''"

fun sanitizeFileName :: "string \<Rightarrow> string" where
  "sanitizeFileName [] = []"
| "sanitizeFileName (c # cs) =
     (if is_slash c then sanitizeFileName cs
      else if c = CHR ''.'' \<and> cs \<noteq> [] \<and> hd cs = CHR ''.'' then sanitizeFileName cs
      else c # sanitizeFileName cs)"

fun sanitizeFilePath :: "string \<Rightarrow> char \<Rightarrow> string" where
  "sanitizeFilePath [] slash = []"
| "sanitizeFilePath (c # cs) slash =
     (if is_slash c then slash # sanitizeFilePath cs slash
      else if c = CHR ''.'' \<and> cs \<noteq> [] \<and> hd cs = CHR ''.''
      then ''..'' @ sanitizeFilePath (tl cs) slash
      else c # sanitizeFilePath cs slash)"

lemma sanitizeFileName_no_slash: "c \<in> set (sanitizeFileName s) \<Longrightarrow> \<not> is_slash c"
  by (induction s) (auto split: if_splits)

lemma sanitizeFileName_subset: "set (sanitizeFileName s) \<subseteq> set s"
  by (induction s) auto

text \<open>No two dots next to each other.\<close>

fun no_dotdot :: "string \<Rightarrow> bool" where
  "no_dotdot (c # d # cs) = (\<not> (c = CHR ''.'' \<and> d = CHR ''.'') \<and> no_dotdot (d # cs))"
| "no_dotdot _ = True"

lemma no_dotdot_Cons:
  "no_dotdot (c # s) \<longleftrightarrow> no_dotdot s \<and> \<not> (c = CHR ''.'' \<and> s \<noteq> [] \<and> hd s = CHR ''.'')"
  by (cases s) auto

lemma sanitizeFileName_hd:
  "\<forall>c\<in>set s. \<not> is_slash c \<Longrightarrow> s \<noteq> [] \<Longrightarrow>
   sanitizeFileName s \<noteq> [] \<and> hd (sanitizeFileName s) = hd s"
  by (induction s) auto

lemma sanitizeFileName_dotfree:
  "\<forall>c\<in>set s. \<not> is_slash c \<Longrightarrow> no_dotdot (sanitizeFileName s)"
proof (induction s)
  case (Cons c s)
  then show ?case
    using sanitizeFileName_hd [of s] by (cases s) (auto simp: no_dotdot_Cons)
qed simp

text \<open>
  A sanitised name holds no separator; it holds no ".." when the input holds no separator, but
  a separator between two dots defeats the check: the sanitised name of \<open>./.\<close> is \<open>..\<close>.
\<close>

theorem sanitizeFileName_safe:
  "(\<forall>c\<in>set (sanitizeFileName s). \<not> is_slash c)
   \<and> ((\<forall>c\<in>set s. \<not> is_slash c) \<longrightarrow> no_dotdot (sanitizeFileName s))
   \<and> sanitizeFileName ''./.'' = ''..''"
  using sanitizeFileName_no_slash sanitizeFileName_dotfree
  by (auto simp: is_slash_def)

theorem sanitizeFileName_safe_witness:
  "no_dotdot (sanitizeFileName ''a..b'') \<and> sanitizeFileName ''a..b'' = ''a.b''"
  using sanitizeFileName_safe [of "''a..b''"] by (simp add: is_slash_def)

section \<open>Tokenising\<close>

text \<open>\<open>std::string::find\<close> from a position: the first index at or after it.\<close>

fun str_find :: "string \<Rightarrow> string \<Rightarrow> nat option" where
  "str_find [] delim = (if delim = [] then Some 0 else None)"
| "str_find (c # cs) delim =
     (if starts_with delim (c # cs) then Some 0 else map_option Suc (str_find cs delim))"

definition find_from :: "string \<Rightarrow> string \<Rightarrow> nat \<Rightarrow> nat option" where
  "find_from str delim pos = map_option ((+) pos) (str_find (drop pos str) delim)"

partial_function (option) tokenize_loop ::
  "string \<Rightarrow> string \<Rightarrow> nat \<Rightarrow> string list \<Rightarrow> string list option" where
  "tokenize_loop str delim lastPos tokens =
     (case find_from str delim lastPos of
        None \<Rightarrow> Some (tokens @ [if lastPos = 0 then str else drop lastPos str])
      | Some pos \<Rightarrow>
          (let tokens' = tokens @ [take (pos - lastPos) (drop lastPos str)];
               lastPos' = pos + length delim
           in if lastPos' \<noteq> length str then tokenize_loop str delim lastPos' tokens'
              else Some tokens'))"

definition tokenize :: "string \<Rightarrow> string \<Rightarrow> string list option" where
  "tokenize str delim = tokenize_loop str delim 0 []"

text \<open>The tokens with the delimiter written between them.\<close>

fun join_with :: "string \<Rightarrow> string list \<Rightarrow> string" where
  "join_with d [] = []"
| "join_with d [t] = t"
| "join_with d (t # u # ts) = t @ d @ join_with d (u # ts)"

lemma str_find_Some:
  "str_find s d = Some i \<Longrightarrow> i \<le> length s \<and> take (length d) (drop i s) = d"
  by (induction s d arbitrary: i rule: str_find.induct)
     (auto simp: starts_with_def split: if_splits)

lemma find_from_Some:
  assumes "find_from s d p = Some q" and "p \<le> length s"
  shows "p \<le> q \<and> q + length d \<le> length s \<and> drop p s = take (q - p) (drop p s) @ d @ drop (q + length d) s"
proof -
  from assms obtain i where i: "str_find (drop p s) d = Some i" and q: "q = p + i"
    by (auto simp: find_from_def)
  from str_find_Some [OF i] have "i \<le> length (drop p s)"
    and d: "take (length d) (drop i (drop p s)) = d" by auto
  then have "length d \<le> length (drop i (drop p s))"
    by (metis length_take min.cobounded1)
  moreover have "drop p s = take i (drop p s) @ d @ drop (q + length d) s"
  proof -
    have "drop (q + length d) s = drop (length d) (drop i (drop p s))"
      by (simp add: q ac_simps)
    then show ?thesis by (metis append_take_drop_id d)
  qed
  ultimately show ?thesis using q assms(2) \<open>i \<le> length (drop p s)\<close> by simp
qed

lemma join_with_snoc: "ts \<noteq> [] \<Longrightarrow> join_with d (ts @ [u]) = join_with d ts @ d @ u"
  by (induction d ts rule: join_with.induct) simp_all

text \<open>What the loop has consumed, and that it ends for a non-empty delimiter.\<close>

definition consumed :: "string \<Rightarrow> string list \<Rightarrow> string" where
  "consumed d ts = (if ts = [] then [] else join_with d ts @ d)"

lemma consumed_snoc: "consumed d ts @ u = join_with d (ts @ [u])"
  by (cases "ts = []") (simp_all add: consumed_def join_with_snoc)

lemma tokenize_loop_total:
  assumes "d \<noteq> []" and "p \<le> length s" and "take p s = consumed d ts"
  shows "\<exists>ts'. tokenize_loop s d p ts = Some ts' \<and> (join_with d ts' = s \<or> join_with d ts' @ d = s)"
  using assms
proof (induction "length s - p" arbitrary: p ts rule: less_induct)
  case less
  show ?case
  proof (cases "find_from s d p")
    case None
    have "join_with d (ts @ [drop p s]) = s"
      using less.prems(3) by (metis append_take_drop_id consumed_snoc)
    with None show ?thesis by (auto simp: tokenize_loop.simps [of s d p ts])
  next
    case (Some q)
    let ?u = "take (q - p) (drop p s)"
    from find_from_Some [OF Some less.prems(2)]
    have q: "p \<le> q" "q + length d \<le> length s" and split: "drop p s = ?u @ d @ drop (q + length d) s"
      by auto
    have pre: "join_with d (ts @ [?u]) @ d = take (q + length d) s"
    proof -
      have "s = (join_with d (ts @ [?u]) @ d) @ drop (q + length d) s"
        using less.prems(3) split
        by (metis append.assoc append_take_drop_id consumed_snoc)
      then show ?thesis by (metis append_same_eq append_take_drop_id)
    qed
    show ?thesis
    proof (cases "q + length d = length s")
      case True
      with pre Some show ?thesis
        by (auto simp: tokenize_loop.simps [of s d p ts] Let_def)
    next
      case False
      have "length s - (q + length d) < length s - p"
        using q False less.prems(1) by (cases d) auto
      from less.hyps [OF this less.prems(1) q(2), of "ts @ [?u]"] pre False Some
      show ?thesis
        by (auto simp: tokenize_loop.simps [of s d p ts] Let_def consumed_def)
    qed
  qed
qed

text \<open>
  With a non-empty delimiter \<open>tokenize\<close> returns, and writing the delimiter between the tokens
  gives back the string (less one trailing delimiter, after which no empty token is pushed).
\<close>

theorem tokenize_join:
  "d \<noteq> [] \<Longrightarrow>
   \<exists>ts. tokenize s d = Some ts \<and> (join_with d ts = s \<or> join_with d ts @ d = s)"
  unfolding tokenize_def by (rule tokenize_loop_total) (simp_all add: consumed_def)

theorem tokenize_join_witness:
  "\<exists>ts. tokenize ''a,b,'' '','' = Some ts \<and>
     (join_with '','' ts = ''a,b,'' \<or> join_with '','' ts @ '','' = ''a,b,'')"
  by (rule tokenize_join) simp

text \<open>With an empty delimiter the loop never leaves position 0.\<close>

lemma tokenize_loop_empty_delim:
  assumes ret: "tokenize_loop s d p ts = Some r"
  shows "s \<noteq> [] \<longrightarrow> d = [] \<longrightarrow> p \<noteq> 0"
proof (rule tokenize_loop.raw_induct
    [where P = "\<lambda>s d p ts r. s \<noteq> [] \<longrightarrow> d = [] \<longrightarrow> p \<noteq> 0", OF _ ret])
  fix f s d p ts r
  assume IH: "\<And>s d p ts r. f s d p ts = Some r \<Longrightarrow> s \<noteq> [] \<longrightarrow> d = [] \<longrightarrow> p \<noteq> 0"
    and eq: "(case find_from s d p of
        None \<Rightarrow> Some (ts @ [if p = 0 then s else drop p s])
      | Some pos \<Rightarrow>
          (let tokens' = ts @ [take (pos - p) (drop p s)]; lastPos' = pos + length d
           in if lastPos' \<noteq> length s then f s d lastPos' tokens' else Some tokens')) = Some r"
  show "s \<noteq> [] \<longrightarrow> d = [] \<longrightarrow> p \<noteq> 0"
  proof (intro impI notI)
    assume "s \<noteq> []" "d = []" "p = 0"
    with eq have "f s [] 0 (ts @ [[]]) = Some r"
      by (cases s) (simp_all add: find_from_def starts_with_def)
    from IH [OF this] \<open>s \<noteq> []\<close> show False by simp
  qed
qed

lemma tokenize_empty_delim: "s \<noteq> [] \<Longrightarrow> tokenize s [] = None"
  using tokenize_loop_empty_delim [of s "[]" 0 "[]"]
  by (cases "tokenize s []") (simp_all add: tokenize_def)

end
