(* ===== verification/Util_Codec.thy ===== *)
theory Util_Codec
  imports Util_String
begin

text \<open>
  The textual encodings of \<^verbatim>\<open>src/src/static/util/code/UtilString.cpp\<close>: URL escapes, base64 with its
  fixed 512-byte decode buffer and callback, and backslash doubling; each is an instance of the
  \<open>codec\<close> interface.
\<close>

unbundle bit_operations_syntax

section \<open>URL escapes\<close>

text \<open>
  \<open>urlDecode\<close> dereferences its iterator after stepping it over the escape; an escape cut short by
  the end of the string reads, and then steps, past the end.
\<close>

fun urlDecode :: "string \<Rightarrow> string res" where
  "urlDecode [] = Inr []"
| "urlDecode (val # url) =
     (if val = CHR ''%'' then
        (case url of
           h1 # h2 # rest \<Rightarrow>
             bind_res (urlDecode rest) (\<lambda>res. Inr (char_of (unat (hextoDec [h1, h2])) # res))
         | _ \<Rightarrow> Inl UNDEFINED)
      else bind_res (urlDecode url) (\<lambda>res. Inr (val # res)))"

definition hex_digit :: "nat \<Rightarrow> char" where
  "hex_digit dig = (if dig \<le> 9 then char_of (dig + 48) else char_of (dig + 97 - 10))"

definition char2hex :: "char \<Rightarrow> string" where
  "char2hex dec = [hex_digit (code dec div 16), hex_digit (code dec mod 16)]"

definition url_plain :: "char \<Rightarrow> bool" where
  "url_plain c \<longleftrightarrow> is_digit c \<or> is_upper c \<or> is_lower c \<or> c \<in> set ''~!*()'' \<or> c = CHR 0x27"

fun urlEncode :: "string \<Rightarrow> string" where
  "urlEncode [] = []"
| "urlEncode (c # cs) =
     (if url_plain c then c # urlEncode cs else ''%'' @ char2hex c @ urlEncode cs)"

lemma hex_digits: "list_all (\<lambda>n. xtod (hex_digit n) = of_nat n \<and> hex_digit n \<noteq> NUL) [0 ..< 16]"
  by (simp add: hex_digit_def xtod_def char_class_defs upt_rec)

lemma hex_digit_xtod: "n < 16 \<Longrightarrow> xtod (hex_digit n) = of_nat n \<and> hex_digit n \<noteq> NUL"
  using hex_digits by (simp add: list_all_iff)

lemma char2hex_value: "char_of (unat (hextoDec (char2hex c))) = c"
proof -
  let ?h = "code c div 16" and ?l = "code c mod 16"
  have "?h < 16" by (rule less_mult_imp_div_less) (use code_less_256 [of c] in simp)
  then have "hextoDec (char2hex c) = of_nat ?h * 16 + of_nat ?l"
    using hex_digit_xtod [of ?h] hex_digit_xtod [of ?l]
    by (subst hextoDec_horner) (auto simp: char2hex_def hex_value_def eq_commute [of NUL])
  also have "\<dots> = of_nat (code c)"
    by (metis div_mult_mod_eq of_nat_add of_nat_mult of_nat_numeral)
  moreover have "code c mod 2 ^ 32 = code c"
    by (rule mod_less) (rule less_trans [OF code_less_256], simp)
  ultimately show ?thesis by (simp add: unat_of_nat take_bit_eq_mod)
qed

lemma url_plain_percent: "\<not> url_plain (CHR ''%'')"
  by (simp add: url_plain_def char_class_defs)

lemma urlDecode_urlEncode: "urlDecode (urlEncode s) = Inr s"
proof (induction s)
  case (Cons c s)
  have esc: "urlDecode (''%'' @ char2hex c @ t) = bind_res (urlDecode t) (\<lambda>res. Inr (c # res))" for t
    using char2hex_value [of c] by (simp add: char2hex_def)
  show ?case
  proof (cases "url_plain c")
    case True
    then have "c \<noteq> CHR ''%''" using url_plain_percent by auto
    with True Cons show ?thesis by simp
  next
    case False
    then show ?thesis using Cons esc [of "urlEncode s"] by simp
  qed
qed simp

text \<open>The decoder reads past its input exactly on a truncated escape.\<close>

fun truncated_escape :: "string \<Rightarrow> bool" where
  "truncated_escape [] = False"
| "truncated_escape (c # cs) =
     (if c = CHR ''%'' then (case cs of h1 # h2 # rest \<Rightarrow> truncated_escape rest | _ \<Rightarrow> True)
      else truncated_escape cs)"

text \<open>\<open>urlDecode\<close> inverts \<open>urlEncode\<close>, and runs off the end exactly on truncated escapes.\<close>

theorem urlDecode_roundtrip:
  "urlDecode (urlEncode s) = Inr s \<and> (urlDecode u = Inl UNDEFINED) = truncated_escape u"
proof
  show "(urlDecode u = Inl UNDEFINED) = truncated_escape u"
  proof (induction u rule: urlDecode.induct)
    case (2 c u)
    show ?case
    proof (cases "c = CHR ''%''")
      case True
      with "2.IH"(1) show ?thesis by (cases u; cases "tl u") simp_all
    next
      case False
      with "2.IH"(2) show ?thesis by simp
    qed
  qed simp
qed (rule urlDecode_urlEncode)

section \<open>Base64\<close>

definition base64_chars :: "char list" where
  "base64_chars = ''ABCDEFGHIJKLMNOPQRSTUVWXYZabcdefghijklmnopqrstuvwxyz0123456789+/''"

definition is_base64 :: "char \<Rightarrow> bool" where
  "is_base64 c \<longleftrightarrow> is_digit c \<or> is_upper c \<or> is_lower c \<or> c = CHR ''+'' \<or> c = CHR ''/''"

definition b64_char :: "u8 \<Rightarrow> char" where
  "b64_char n = base64_chars ! unat n"

text \<open>The four 6-bit groups of three bytes, as the encoder computes them.\<close>

definition enc_quad :: "u8 \<Rightarrow> u8 \<Rightarrow> u8 \<Rightarrow> u8 list" where
  "enc_quad a b c =
     [drop_bit 2 (a AND 0xFC),
      push_bit 4 (a AND 0x03) + drop_bit 4 (b AND 0xF0),
      push_bit 2 (b AND 0x0F) + drop_bit 6 (c AND 0xC0),
      c AND 0x3F]"

fun base64_encode :: "bytes \<Rightarrow> string" where
  "base64_encode (a # b # c # bytes) = map b64_char (enc_quad a b c) @ base64_encode bytes"
| "base64_encode [] = []"
| "base64_encode [a] = map b64_char (take 2 (enc_quad a 0 0)) @ ''==''"
| "base64_encode [a, b] = map b64_char (take 3 (enc_quad a b 0)) @ ''=''"

text \<open>The linear search that replaces a character by its index (left alone when absent).\<close>

fun b64_lookup :: "char list \<Rightarrow> nat \<Rightarrow> u8 \<Rightarrow> u8" where
  "b64_lookup [] x ch = ch"
| "b64_lookup (k # ks) x ch =
     (if byte_of_char k \<noteq> ch then b64_lookup ks (Suc x) ch else of_nat x)"

definition b64_index :: "u8 \<Rightarrow> u8" where
  "b64_index ch = b64_lookup base64_chars 0 ch"

definition decodeHelper :: "bytes \<Rightarrow> u8 list \<Rightarrow> nat \<Rightarrow> bytes" where
  "decodeHelper buff arr i =
     (let a = push_bit 2 (arr ! 0) + drop_bit 4 (arr ! 1 AND 0x30);
          b = push_bit 4 (arr ! 1 AND 0xF) + drop_bit 2 (arr ! 2 AND 0x3C);
          c = push_bit 6 (arr ! 2 AND 0x3) + arr ! 3
      in buff @ (if i > 1 then [a] else []) @ (if i > 2 then [b] else []) @ (if i > 3 then [c] else []))"

text \<open>Hand the 512-byte buffer to the callback when fewer than three bytes are left.\<close>

definition flush :: "bytes \<Rightarrow> bytes list \<times> bytes" where
  "flush buff = (if length buff \<ge> 512 - 3 then ([buff], []) else ([], buff))"

definition b64_finish :: "u8 list \<Rightarrow> bytes \<Rightarrow> bytes list" where
  "b64_finish pending buff =
     (let (out, buff') =
        (if pending \<noteq> [] then
           (let arr = map b64_index (pending @ replicate (4 - length pending) 0);
                (out, buff') = flush buff
            in (out, decodeHelper buff' arr (length pending)))
         else ([], buff))
      in out @ (if buff' \<noteq> [] then [buff'] else []))"

text \<open>
  The decode loop: \<open>pending\<close> is \<open>char_array_4\<close> up to \<open>i\<close>, \<open>buff\<close> the first \<open>pos\<close> bytes of the
  buffer; the result lists what the callback receives, call by call.
\<close>

fun base64_decodeCB :: "string \<Rightarrow> u8 list \<Rightarrow> bytes \<Rightarrow> bytes list" where
  "base64_decodeCB [] pending buff = b64_finish pending buff"
| "base64_decodeCB (ch # rest) pending buff =
     (if ch \<noteq> CHR ''='' \<and> is_base64 ch then
        (let arr = pending @ [byte_of_char ch]
         in if length arr = 4 then
              (let (out, buff') = flush buff
               in out @ base64_decodeCB rest [] (decodeHelper buff' (map b64_index arr) 4))
            else base64_decodeCB rest arr buff)
      else b64_finish pending buff)"

definition base64_decode :: "string \<Rightarrow> bytes" where
  "base64_decode s = concat (base64_decodeCB s [] [])"

subsection \<open>Every callback fits the buffer\<close>

lemma flush_length:
  "flush buff = (out, buff') \<Longrightarrow> length buff \<le> 511 \<Longrightarrow>
   length buff' \<le> 508 \<and> (\<forall>c\<in>set out. c \<noteq> [] \<and> length c \<le> 511)"
  by (auto simp: flush_def split: if_splits)

lemma decodeHelper_length: "length (decodeHelper buff arr i) \<le> length buff + 3"
  by (simp add: decodeHelper_def Let_def)

lemma b64_finish_bounds:
  "length buff \<le> 511 \<Longrightarrow> c \<in> set (b64_finish pending buff) \<Longrightarrow> c \<noteq> [] \<and> length c \<le> 511"
  using decodeHelper_length
  by (fastforce simp: b64_finish_def Let_def case_prod_beta split: if_splits
      dest: flush_length [OF surjective_pairing] intro: order_trans [OF decodeHelper_length])

lemma base64_decodeCB_bounds:
  "length buff \<le> 511 \<Longrightarrow> c \<in> set (base64_decodeCB s pending buff) \<Longrightarrow> c \<noteq> [] \<and> length c \<le> 511"
proof (induction s arbitrary: pending buff)
  case Nil
  then show ?case by (auto dest: b64_finish_bounds)
next
  case (Cons ch s)
  obtain out buff' where fl: "flush buff = (out, buff')" by (cases "flush buff")
  from flush_length [OF fl Cons.prems(1)]
  have ok: "length (decodeHelper buff' arr 4) \<le> 511" for arr
    using decodeHelper_length [of buff' arr 4] by linarith
  from Cons.prems fl Cons.IH [OF ok] Cons.IH [OF Cons.prems(1)] flush_length [OF fl Cons.prems(1)]
  show ?case by (auto simp: Let_def dest: b64_finish_bounds split: if_splits)
qed

text \<open>Every piece the base64 decoder hands to its callback is non-empty and fits the 512-byte buffer.\<close>

theorem base64_decode_buffer_safe:
  "\<forall>c \<in> set (base64_decodeCB s [] []). c \<noteq> [] \<and> length c < 512"
  using base64_decodeCB_bounds [of "[]" _ s "[]"] by fastforce

theorem base64_decode_buffer_safe_witness:
  "[1] \<in> set (base64_decodeCB ''AQ=='' [] []) \<and> length [1 :: u8] < 512"
proof -
  have mem: "[1] \<in> set (base64_decodeCB ''AQ=='' [] [])"
    by code_simp
  then show ?thesis using base64_decode_buffer_safe [of "''AQ==''"] by blast
qed

subsection \<open>Decoding what was encoded\<close>

lemma b64_table:
  "list_all (\<lambda>n. is_base64 (base64_chars ! n) \<and> base64_chars ! n \<noteq> CHR ''=''
      \<and> b64_index (byte_of_char (base64_chars ! n)) = of_nat n) [0 ..< 64]"
  by (simp add: upt_rec base64_chars_def is_base64_def char_class_defs b64_index_def
      byte_of_char_def)

lemma b64_char:
  assumes "unat n < 64"
  shows "is_base64 (b64_char n)" "b64_char n \<noteq> CHR ''=''" "b64_index (byte_of_char (b64_char n)) = n"
  using assms b64_table by (simp_all add: list_all_iff b64_char_def)

lemma u8_eqI:
  fixes x y :: u8
  assumes "bit x 0 = bit y 0" "bit x 1 = bit y 1" "bit x 2 = bit y 2" "bit x 3 = bit y 3"
    "bit x 4 = bit y 4" "bit x 5 = bit y 5" "bit x 6 = bit y 6" "bit x 7 = bit y 7"
  shows "x = y"
proof (rule bit_word_eqI)
  fix n assume "n < LENGTH(8)"
  then have "n \<in> {0, 1, 2, 3, 4, 5, 6, 7}" by (simp, arith)
  then show "bit x n = bit y n" using assms by auto
qed

lemma u8_add_or:
  fixes x y :: u8
  assumes "\<not> (bit x 0 \<and> bit y 0)" "\<not> (bit x 1 \<and> bit y 1)" "\<not> (bit x 2 \<and> bit y 2)"
    "\<not> (bit x 3 \<and> bit y 3)" "\<not> (bit x 4 \<and> bit y 4)" "\<not> (bit x 5 \<and> bit y 5)"
    "\<not> (bit x 6 \<and> bit y 6)" "\<not> (bit x 7 \<and> bit y 7)"
  shows "x + y = x OR y"
proof (rule disjunctive_add)
  fix n
  show "\<not> bit x n \<or> \<not> bit y n"
  proof (cases "n < 8")
    case True
    then have "n \<in> {0, 1, 2, 3, 4, 5, 6, 7}" by (simp, arith)
    then show ?thesis using assms by auto
  next
    case False
    then show ?thesis by (auto dest: bit_imp_le_length)
  qed
qed

lemma enc_quad_or:
  "enc_quad a b c =
     [drop_bit 2 (a AND 0xFC),
      push_bit 4 (a AND 0x03) OR drop_bit 4 (b AND 0xF0),
      push_bit 2 (b AND 0x0F) OR drop_bit 6 (c AND 0xC0),
      c AND 0x3F]"
proof -
  have 1: "push_bit 4 (a AND 0x03) + drop_bit 4 (b AND 0xF0) =
      push_bit 4 (a AND 0x03) OR drop_bit 4 (b AND 0xF0)"
    by (rule u8_add_or) (simp_all add: bit_simps)
  have 2: "push_bit 2 (b AND 0x0F) + drop_bit 6 (c AND 0xC0) =
      push_bit 2 (b AND 0x0F) OR drop_bit 6 (c AND 0xC0)"
    by (rule u8_add_or) (simp_all add: bit_simps)
  show ?thesis by (simp only: enc_quad_def 1 2)
qed

lemma low6: "q = q AND mask 6 \<Longrightarrow> unat (q :: u8) < 64"
  using and_mask_less' [of 6 q] by (simp add: word_less_nat_alt)

lemma enc_quad_small: "q \<in> set (enc_quad a b c) \<Longrightarrow> unat q < 64"
  by (rule low6) (auto simp: enc_quad_or mask_eq_exp_minus_1 bit_simps intro!: u8_eqI)

lemma decodeHelper_quad:
  "decodeHelper buff [p, q, r, s] 4 = buff @
     [push_bit 2 p + drop_bit 4 (q AND 0x30),
      push_bit 4 (q AND 0xF) + drop_bit 2 (r AND 0x3C),
      push_bit 6 (r AND 0x3) + s]"
  by (simp add: decodeHelper_def Let_def)

lemma decodeHelper_short:
  "i \<le> 4 \<Longrightarrow> decodeHelper buff arr i =
     take (length buff + (i - 1)) (decodeHelper buff arr 4)"
  by (auto simp: decodeHelper_def Let_def le_Suc_eq numeral_eq_Suc)

lemma decode_quad: "decodeHelper buff (enc_quad a b c) 4 = buff @ [a, b, c]"
proof -
  have 1: "push_bit 2 (drop_bit 2 (a AND 0xFC)) +
      drop_bit 4 ((push_bit 4 (a AND 0x03) OR drop_bit 4 (b AND 0xF0)) AND 0x30) = a"
    by (subst u8_add_or; (rule u8_eqI)?) (simp_all add: bit_simps)
  have 2: "push_bit 4 ((push_bit 4 (a AND 0x03) OR drop_bit 4 (b AND 0xF0)) AND 0xF) +
      drop_bit 2 ((push_bit 2 (b AND 0x0F) OR drop_bit 6 (c AND 0xC0)) AND 0x3C) = b"
    by (subst u8_add_or; (rule u8_eqI)?) (simp_all add: bit_simps)
  have 3: "push_bit 6 ((push_bit 2 (b AND 0x0F) OR drop_bit 6 (c AND 0xC0)) AND 0x3) + (c AND 0x3F) = c"
    by (subst u8_add_or; (rule u8_eqI)?) (simp_all add: bit_simps)
  show ?thesis by (simp only: enc_quad_or decodeHelper_quad 1 2 3)
qed

lemma b64_quad_index:
  "map (\<lambda>q. b64_index (byte_of_char (b64_char q))) (enc_quad a b c) = enc_quad a b c"
  using enc_quad_small [of _ a b c] by (intro map_idI) (simp add: b64_char)

lemma b64_quad_ok:
  "q \<in> set (enc_quad a b c) \<Longrightarrow> is_base64 (b64_char q) \<and> b64_char q \<noteq> CHR ''=''"
  using enc_quad_small [of q a b c] by (simp add: b64_char)

lemma length_enc_quad [simp]: "length (enc_quad a b c) = 4"
  by (simp add: enc_quad_def)

text \<open>Whole groups pass through the decode loop three bytes at a time.\<close>

lemma decodeCB_quad:
  "concat (base64_decodeCB (map b64_char (enc_quad a b c) @ rest) [] buff) =
   concat (fst (flush buff)) @
   concat (base64_decodeCB rest [] (snd (flush buff) @ [a, b, c]))"
proof -
  obtain p q r s where quad: "enc_quad a b c = [p, q, r, s]"
    by (simp add: enc_quad_def)
  have ok: "\<And>x. x \<in> {p, q, r, s} \<Longrightarrow> is_base64 (b64_char x) \<and> b64_char x \<noteq> CHR ''=''"
    using b64_quad_ok [of _ a b c] quad by auto
  have idx: "map (\<lambda>x. b64_index (byte_of_char (b64_char x))) [p, q, r, s] = [p, q, r, s]"
    using b64_quad_index [of a b c] quad by simp
  have dec: "decodeHelper buff' [p, q, r, s] 4 = buff' @ [a, b, c]" for buff'
    using decode_quad [of buff' a b c] quad by simp
  show ?thesis
    using ok idx dec by (simp add: quad case_prod_beta Let_def)
qed

lemma flush_concat: "concat (fst (flush buff)) @ snd (flush buff) = buff"
  by (simp add: flush_def)

lemma concat_finish:
  assumes "pending \<noteq> []"
  shows "concat (b64_finish pending buff) = concat (fst (flush buff)) @
    decodeHelper (snd (flush buff)) (map b64_index (pending @ replicate (4 - length pending) 0))
      (length pending)"
  using assms by (simp add: b64_finish_def case_prod_beta Let_def)

lemma b64_index_0: "b64_index 0 = 0"
  by (simp add: b64_index_def base64_chars_def byte_of_char_def)

lemma enc_quad_tails:
  "enc_quad a 0 0 = [drop_bit 2 (a AND 0xFC), push_bit 4 (a AND 0x03), 0, 0]"
  "enc_quad a b 0 =
     [drop_bit 2 (a AND 0xFC), push_bit 4 (a AND 0x03) OR drop_bit 4 (b AND 0xF0),
      push_bit 2 (b AND 0x0F), 0]"
  by (simp_all add: enc_quad_or)

lemma decodeCB_tail1:
  "concat (base64_decodeCB (base64_encode [a]) [] buff) = buff @ [a]"
proof -
  obtain p q where quad: "enc_quad a 0 0 = [p, q, 0, 0]"
    by (simp add: enc_quad_tails)
  have ok: "\<And>x. x \<in> {p, q, 0} \<Longrightarrow> is_base64 (b64_char x) \<and> b64_char x \<noteq> CHR ''=''"
    using b64_quad_ok [of _ a 0 0] quad by auto
  have idx: "b64_index (byte_of_char (b64_char p)) = p" "b64_index (byte_of_char (b64_char q)) = q"
    using b64_quad_index [of a 0 0] quad by simp_all
  have "decodeHelper b [p, q, 0, 0] 2 = b @ [a]" for b
    using decode_quad [of b a 0 0] quad decodeHelper_short [of 2 b "[p, q, 0, 0]"] by simp
  then show ?thesis
    using ok idx flush_concat [of buff] by (simp add: quad concat_finish b64_index_0 numeral_2_eq_2)
qed

lemma decodeCB_tail2:
  "concat (base64_decodeCB (base64_encode [a, b]) [] buff) = buff @ [a, b]"
proof -
  obtain p q r where quad: "enc_quad a b 0 = [p, q, r, 0]"
    by (simp add: enc_quad_tails)
  have ok: "\<And>x. x \<in> {p, q, r, 0} \<Longrightarrow> is_base64 (b64_char x) \<and> b64_char x \<noteq> CHR ''=''"
    using b64_quad_ok [of _ a b 0] quad by auto
  have idx: "b64_index (byte_of_char (b64_char p)) = p" "b64_index (byte_of_char (b64_char q)) = q"
    "b64_index (byte_of_char (b64_char r)) = r"
    using b64_quad_index [of a b 0] quad by simp_all
  have "decodeHelper c [p, q, r, 0] 3 = c @ [a, b]" for c
    using decode_quad [of c a b 0] quad decodeHelper_short [of 3 c "[p, q, r, 0]"] by simp
  then show ?thesis
    using ok idx flush_concat [of buff] by (simp add: quad concat_finish b64_index_0 numeral_3_eq_3)
qed

lemma decodeCB_encode: "concat (base64_decodeCB (base64_encode bs) [] buff) = buff @ bs"
proof (induction bs arbitrary: buff rule: base64_encode.induct)
  case (1 a b c bytes)
  have "concat (base64_decodeCB (base64_encode (a # b # c # bytes)) [] buff) =
      concat (fst (flush buff)) @ (snd (flush buff) @ [a, b, c]) @ bytes"
    by (simp only: base64_encode.simps decodeCB_quad 1)
  also have "\<dots> = (concat (fst (flush buff)) @ snd (flush buff)) @ a # b # c # bytes"
    by simp
  finally show ?case by (simp only: flush_concat)
next
  case 2
  show ?case by (simp add: b64_finish_def)
next
  case (3 a)
  show ?case by (rule decodeCB_tail1)
next
  case (4 a b)
  show ?case by (rule decodeCB_tail2)
qed

section \<open>The encodings as codecs\<close>

interpretation base64: codec base64_encode "\<lambda>s. Some (base64_decode s)" "\<lambda>_. True"
  by unfold_locales (simp add: base64_decode_def decodeCB_encode)

interpretation url: codec urlEncode "\<lambda>s. case urlDecode s of Inl _ \<Rightarrow> None | Inr r \<Rightarrow> Some r" "\<lambda>_. True"
  by unfold_locales (simp add: urlDecode_urlEncode)

text \<open>C29: \<open>base64_decode\<close> inverts \<open>base64_encode\<close> on every byte string, across buffer flushes. The length of a text, an
  \<open>int\<close> in the code, is a number without bound here: texts of 2 GiB or more are not what the code takes.\<close>

theorem base64_roundtrip: "base64_decode (base64_encode bs) = bs"
  using base64.dec_enc [of bs] by simp

section \<open>Backslash escaping\<close>

fun escape :: "string \<Rightarrow> string" where
  "escape [] = []"
| "escape (c # cs) = (if c = CHR 0x5C then [CHR 0x5C, CHR 0x5C] else [c]) @ escape cs"

fun unescape :: "string \<Rightarrow> string" where
  "unescape (c # d # cs) =
     (if c = CHR 0x5C \<and> d = CHR 0x5C then c # unescape cs else c # unescape (d # cs))"
| "unescape cs = cs"

lemma unescape_escape: "unescape (escape s) = s"
proof (induction s)
  case (Cons c s)
  then show ?case by (cases "escape s") auto
qed simp

interpretation backslash: codec escape "\<lambda>s. Some (unescape s)" "\<lambda>_. True"
  by unfold_locales (simp add: unescape_escape)

end
