(* ===== verification/Util_Crc.thy ===== *)
theory Util_Crc
  imports Desura_Prelude
begin

text \<open>
  The CRC-32 of \<^verbatim>\<open>src/src/static/util/code/UtilMisc.cpp\<close>: the lookup table, the byte step and the
  whole-buffer loop, with the bitwise shift-register definition of the same checksum as its
  reference.
\<close>

unbundle bit_operations_syntax

definition ulTable :: "u32 list" where
  "ulTable =
    [
     0x00000000, 0x77073096, 0xEE0E612C, 0x990951BA, 0x076DC419, 0x706AF48F,
     0xE963A535, 0x9E6495A3, 0x0EDB8832, 0x79DCB8A4, 0xE0D5E91E, 0x97D2D988,
     0x09B64C2B, 0x7EB17CBD, 0xE7B82D07, 0x90BF1D91, 0x1DB71064, 0x6AB020F2,
     0xF3B97148, 0x84BE41DE, 0x1ADAD47D, 0x6DDDE4EB, 0xF4D4B551, 0x83D385C7,
     0x136C9856, 0x646BA8C0, 0xFD62F97A, 0x8A65C9EC, 0x14015C4F, 0x63066CD9,
     0xFA0F3D63, 0x8D080DF5, 0x3B6E20C8, 0x4C69105E, 0xD56041E4, 0xA2677172,
     0x3C03E4D1, 0x4B04D447, 0xD20D85FD, 0xA50AB56B, 0x35B5A8FA, 0x42B2986C,
     0xDBBBC9D6, 0xACBCF940, 0x32D86CE3, 0x45DF5C75, 0xDCD60DCF, 0xABD13D59,
     0x26D930AC, 0x51DE003A, 0xC8D75180, 0xBFD06116, 0x21B4F4B5, 0x56B3C423,
     0xCFBA9599, 0xB8BDA50F, 0x2802B89E, 0x5F058808, 0xC60CD9B2, 0xB10BE924,
     0x2F6F7C87, 0x58684C11, 0xC1611DAB, 0xB6662D3D, 0x76DC4190, 0x01DB7106,
     0x98D220BC, 0xEFD5102A, 0x71B18589, 0x06B6B51F, 0x9FBFE4A5, 0xE8B8D433,
     0x7807C9A2, 0x0F00F934, 0x9609A88E, 0xE10E9818, 0x7F6A0DBB, 0x086D3D2D,
     0x91646C97, 0xE6635C01, 0x6B6B51F4, 0x1C6C6162, 0x856530D8, 0xF262004E,
     0x6C0695ED, 0x1B01A57B, 0x8208F4C1, 0xF50FC457, 0x65B0D9C6, 0x12B7E950,
     0x8BBEB8EA, 0xFCB9887C, 0x62DD1DDF, 0x15DA2D49, 0x8CD37CF3, 0xFBD44C65,
     0x4DB26158, 0x3AB551CE, 0xA3BC0074, 0xD4BB30E2, 0x4ADFA541, 0x3DD895D7,
     0xA4D1C46D, 0xD3D6F4FB, 0x4369E96A, 0x346ED9FC, 0xAD678846, 0xDA60B8D0,
     0x44042D73, 0x33031DE5, 0xAA0A4C5F, 0xDD0D7CC9, 0x5005713C, 0x270241AA,
     0xBE0B1010, 0xC90C2086, 0x5768B525, 0x206F85B3, 0xB966D409, 0xCE61E49F,
     0x5EDEF90E, 0x29D9C998, 0xB0D09822, 0xC7D7A8B4, 0x59B33D17, 0x2EB40D81,
     0xB7BD5C3B, 0xC0BA6CAD, 0xEDB88320, 0x9ABFB3B6, 0x03B6E20C, 0x74B1D29A,
     0xEAD54739, 0x9DD277AF, 0x04DB2615, 0x73DC1683, 0xE3630B12, 0x94643B84,
     0x0D6D6A3E, 0x7A6A5AA8, 0xE40ECF0B, 0x9309FF9D, 0x0A00AE27, 0x7D079EB1,
     0xF00F9344, 0x8708A3D2, 0x1E01F268, 0x6906C2FE, 0xF762575D, 0x806567CB,
     0x196C3671, 0x6E6B06E7, 0xFED41B76, 0x89D32BE0, 0x10DA7A5A, 0x67DD4ACC,
     0xF9B9DF6F, 0x8EBEEFF9, 0x17B7BE43, 0x60B08ED5, 0xD6D6A3E8, 0xA1D1937E,
     0x38D8C2C4, 0x4FDFF252, 0xD1BB67F1, 0xA6BC5767, 0x3FB506DD, 0x48B2364B,
     0xD80D2BDA, 0xAF0A1B4C, 0x36034AF6, 0x41047A60, 0xDF60EFC3, 0xA867DF55,
     0x316E8EEF, 0x4669BE79, 0xCB61B38C, 0xBC66831A, 0x256FD2A0, 0x5268E236,
     0xCC0C7795, 0xBB0B4703, 0x220216B9, 0x5505262F, 0xC5BA3BBE, 0xB2BD0B28,
     0x2BB45A92, 0x5CB36A04, 0xC2D7FFA7, 0xB5D0CF31, 0x2CD99E8B, 0x5BDEAE1D,
     0x9B64C2B0, 0xEC63F226, 0x756AA39C, 0x026D930A, 0x9C0906A9, 0xEB0E363F,
     0x72076785, 0x05005713, 0x95BF4A82, 0xE2B87A14, 0x7BB12BAE, 0x0CB61B38,
     0x92D28E9B, 0xE5D5BE0D, 0x7CDCEFB7, 0x0BDBDF21, 0x86D3D2D4, 0xF1D4E242,
     0x68DDB3F8, 0x1FDA836E, 0x81BE16CD, 0xF6B9265B, 0x6FB077E1, 0x18B74777,
     0x88085AE6, 0xFF0F6A70, 0x66063BCA, 0x11010B5C, 0x8F659EFF, 0xF862AE69,
     0x616BFFD3, 0x166CCF45, 0xA00AE278, 0xD70DD2EE, 0x4E048354, 0x3903B3C2,
     0xA7672661, 0xD06016F7, 0x4969474D, 0x3E6E77DB, 0xAED16A4A, 0xD9D65ADC,
     0x40DF0B66, 0x37D83BF0, 0xA9BCAE53, 0xDEBB9EC5, 0x47B2CF7F, 0x30B5FFE9,
     0xBDBDF21C, 0xCABAC28A, 0x53B39330, 0x24B4A3A6, 0xBAD03605, 0xCDD70693,
     0x54DE5729, 0x23D967BF, 0xB3667A2E, 0xC4614AB8, 0x5D681B02, 0x2A6F2B94,
     0xB40BBE37, 0xC30C8EA1, 0x5A05DF1B, 0x2D02EF8D
    ]"

text \<open>\<open>CRC32(byte, crc)\<close>: one byte through the table.\<close>

definition CRC32_byte :: "u8 \<Rightarrow> u32 \<Rightarrow> u32" where
  "CRC32_byte byte dwCrc32 =
     drop_bit 8 dwCrc32 XOR ulTable ! unat ((ucast byte :: u32) XOR (dwCrc32 AND 0xFF))"

text \<open>\<open>CRC32(str, len)\<close>: the loop over a buffer.\<close>

fun CRC32_loop :: "bytes \<Rightarrow> u32 \<Rightarrow> u32" where
  "CRC32_loop [] ulCRC = ulCRC"
| "CRC32_loop (b # bs) ulCRC = CRC32_loop bs (CRC32_byte b ulCRC)"

definition CRC32 :: "bytes \<Rightarrow> u32" where
  "CRC32 str = NOT (CRC32_loop str 0xFFFFFFFF)"

section \<open>The bitwise reference\<close>

text \<open>One step of the reflected shift register with polynomial \<open>0xEDB88320\<close>.\<close>

definition lfsr :: "u32 \<Rightarrow> u32" where
  "lfsr x = (if bit x 0 then drop_bit 1 x XOR 0xEDB88320 else drop_bit 1 x)"

definition lfsr8 :: "u32 \<Rightarrow> u32" where
  "lfsr8 x = lfsr (lfsr (lfsr (lfsr (lfsr (lfsr (lfsr (lfsr x)))))))"

definition crc_ref :: "bytes \<Rightarrow> u32" where
  "crc_ref bs = NOT (fold (\<lambda>b r. lfsr8 (r XOR ucast b)) bs 0xFFFFFFFF)"

lemma ff_mask: "(0xFF :: u32) = mask 8"
  by (simp add: mask_eq_exp_minus_1)

text \<open>The register is linear over XOR, so a byte can be shifted through separately.\<close>

lemma lfsr_xor: "lfsr (x XOR y) = lfsr x XOR lfsr y"
  by (auto simp: lfsr_def bit_xor_iff drop_bit_xor ac_simps)

lemma lfsr8_xor: "lfsr8 (x XOR y) = lfsr8 x XOR lfsr8 y"
  by (simp add: lfsr8_def lfsr_xor)

lemma lfsr_even: "\<not> bit x 0 \<Longrightarrow> lfsr x = drop_bit 1 x"
  by (simp add: lfsr_def)

lemma lfsr8_high:
  assumes "\<And>k. k < 8 \<Longrightarrow> \<not> bit x k"
  shows "lfsr8 x = drop_bit 8 x"
proof -
  have step: "lfsr (drop_bit k x) = drop_bit (Suc k) x" if "k < 8" for k
    using assms [OF that] by (simp add: lfsr_even bit_drop_bit_eq)
  have "lfsr x = drop_bit 1 x" using step [of 0] by simp
  then show ?thesis
    using step [of 1] step [of 2] step [of 3] step [of 4] step [of 5] step [of 6] step [of 7]
    by (simp add: lfsr8_def eval_nat_numeral)
qed

lemma word_split_low8:
  fixes x :: u32
  shows "x = (x AND NOT 0xFF) XOR (x AND 0xFF)"
  by (rule bit_word_eqI) (auto simp: bit_simps)

lemma lfsr8_split: "lfsr8 x = drop_bit 8 x XOR lfsr8 (x AND 0xFF)"
proof -
  have "lfsr8 x = lfsr8 (x AND NOT 0xFF) XOR lfsr8 (x AND 0xFF)"
    by (subst word_split_low8) (rule lfsr8_xor)
  moreover have "lfsr8 (x AND NOT 0xFF) = drop_bit 8 (x AND NOT 0xFF)"
    unfolding ff_mask by (rule lfsr8_high) (simp add: bit_simps)
  moreover have "drop_bit 8 (x AND NOT 0xFF) = drop_bit 8 x"
    unfolding ff_mask by (rule bit_word_eqI) (auto simp: bit_simps dest: bit_imp_le_length)
  ultimately show ?thesis by simp
qed

text \<open>The 256 table entries are the register run on their index.\<close>

lemma length_ulTable [simp]: "length ulTable = 256"
  by (simp add: ulTable_def)

fun table_from :: "u32 \<Rightarrow> u32 list \<Rightarrow> bool" where
  "table_from n [] = True"
| "table_from n (t # ts) = (lfsr8 n = t \<and> table_from (n + 1) ts)"

lemma table_from_nth:
  "table_from n ts \<Longrightarrow> i < length ts \<Longrightarrow> ts ! i = lfsr8 (n + of_nat i)"
proof (induction n ts arbitrary: i rule: table_from.induct)
  case (2 n t ts)
  then show ?case by (cases i) (auto simp: ac_simps)
qed simp

lemma ulTable_from: "table_from 0 ulTable"
  by (simp add: ulTable_def lfsr8_def lfsr_def)

lemma ulTable_nth: "n < 256 \<Longrightarrow> ulTable ! n = lfsr8 (of_nat n)"
  using table_from_nth [OF ulTable_from, of n] by simp

lemma low_byte_bound: "unat ((ucast (b :: u8) :: u32) XOR (r AND 0xFF)) < 256"
proof -
  have "(ucast b :: u32) XOR (r AND 0xFF) = ((ucast b :: u32) XOR r) AND mask 8"
    unfolding ff_mask by (rule bit_word_eqI) (auto simp: bit_simps dest: bit_imp_le_length)
  then show ?thesis
    using and_mask_less' [of 8 "(ucast b :: u32) XOR r"] by (simp add: word_less_nat_alt)
qed

lemma CRC32_byte_lfsr8: "CRC32_byte b r = lfsr8 (r XOR ucast b)"
proof -
  have low: "(r XOR ucast b) AND 0xFF = (ucast b :: u32) XOR (r AND 0xFF)"
    unfolding ff_mask by (rule bit_word_eqI) (auto simp: bit_simps dest: bit_imp_le_length)
  have high: "drop_bit 8 (r XOR ucast b) = drop_bit 8 r"
    by (rule bit_word_eqI) (auto simp: bit_simps dest: bit_imp_le_length)
  have "CRC32_byte b r = drop_bit 8 r XOR lfsr8 ((ucast b :: u32) XOR (r AND 0xFF))"
    by (simp add: CRC32_byte_def ulTable_nth low_byte_bound)
  also have "\<dots> = lfsr8 (r XOR ucast b)"
    by (subst lfsr8_split [of "r XOR ucast b"]) (simp only: low high)
  finally show ?thesis .
qed

lemma CRC32_loop_fold: "CRC32_loop bs r = fold CRC32_byte bs r"
  by (induction bs arbitrary: r) simp_all

lemma CRC32_loop_append: "CRC32_loop (as @ bs) r = CRC32_loop bs (CRC32_loop as r)"
  by (simp add: CRC32_loop_fold)

text \<open>C30: the table-driven checksum is the bitwise one.\<close>

theorem CRC32_eq_ref: "CRC32 bs = crc_ref bs"
  by (simp add: CRC32_def crc_ref_def CRC32_loop_fold CRC32_byte_lfsr8 [abs_def])

end
