(* ===== verification/Util_Xml.thy ===== *)
theory Util_Xml
  imports Util_String Util_Num Util_File
begin

text \<open>
  XML as the archive code reads and writes it: elements and the accessors of
  \<^verbatim>\<open>src/src/include/XMLMacros.h\<close>, the escaping of \<^verbatim>\<open>MCFFile.cpp\<close> (\<open>ReplaceAllStr\<close>, \<open>SaveToSac\<close>) and the
  buffered writer \<^verbatim>\<open>XMLSaveAndCompress.cpp\<close>. The parser itself is tinyxml2.
\<close>

section \<open>Elements\<close>

text \<open>An element: its name, attributes, the text it starts with (if any) and its child elements.\<close>

datatype xml = Elem (xml_name: string) (xml_atts: "(string \<times> string) list") (xml_text: "string option")
    (xml_children: "xml list")

definition FirstChildElement :: "xml \<Rightarrow> string \<Rightarrow> xml option" where
  "FirstChildElement e n = List.find (\<lambda>c. xml_name c = n) (xml_children e)"

definition for_each_child :: "xml \<Rightarrow> string \<Rightarrow> xml list" where
  "for_each_child e n = filter (\<lambda>c. xml_name c = n) (xml_children e)"

text \<open>An element that is not there, or has no text, reads as the empty string.\<close>

definition GetText :: "xml option \<Rightarrow> string" where
  "GetText e = (case e of None \<Rightarrow> [] | Some e \<Rightarrow> (case xml_text e of None \<Rightarrow> [] | Some t \<Rightarrow> t))"

definition GetAtt :: "xml option \<Rightarrow> string \<Rightarrow> string" where
  "GetAtt e n = (case e of None \<Rightarrow> []
     | Some e \<Rightarrow> (case map_of (xml_atts e) n of None \<Rightarrow> [] | Some v \<Rightarrow> v))"

text \<open>\<open>GetChild\<close> leaves the target alone when there is no such child.\<close>

definition GetChild :: "xml \<Rightarrow> string \<Rightarrow> (string \<Rightarrow> 's \<Rightarrow> 's) \<Rightarrow> 's \<Rightarrow> 's" where
  "GetChild e n setter s =
     (case FirstChildElement e n of None \<Rightarrow> s | Some c \<Rightarrow> setter (GetText (Some c)) s)"

definition GetChild_u64 :: "xml \<Rightarrow> string \<Rightarrow> u64 \<Rightarrow> u64" where
  "GetChild_u64 e n num = GetChild e n (\<lambda>t _. Safe_atoll (Some t)) num"

definition GetChild_u32 :: "xml \<Rightarrow> string \<Rightarrow> u32 \<Rightarrow> u32" where
  "GetChild_u32 e n num = GetChild e n (\<lambda>t _. Safe_atoi (Some t)) num"

definition GetChild_u16 :: "xml \<Rightarrow> string \<Rightarrow> u16 \<Rightarrow> u16" where
  "GetChild_u16 e n num = GetChild e n (\<lambda>t _. ucast (Safe_atoi (Some t))) num"

definition GetChild_u8 :: "xml \<Rightarrow> string \<Rightarrow> u8 \<Rightarrow> u8" where
  "GetChild_u8 e n num = GetChild e n (\<lambda>t _. ucast (Safe_atoi (Some t))) num"

definition GetChild_bool :: "xml \<Rightarrow> string \<Rightarrow> bool \<Rightarrow> bool" where
  "GetChild_bool e n b =
     GetChild e n (\<lambda>v _. v = ''true'' \<or> v = ''1'' \<or> v = ''yes'') b"

section \<open>Replacing and escaping\<close>

text \<open>
  \<open>ReplaceAllStr\<close> goes on \<open>searchStr.size()\<close> characters after each match, so inside the replacement
  when that is longer; the call does not return when the rest of the replacement matches again.
\<close>

partial_function (option) ReplaceAllStr_loop :: "string \<Rightarrow> string \<Rightarrow> string \<Rightarrow> nat \<Rightarrow> string option" where
  "ReplaceAllStr_loop searchStr replaceStr str pos =
     (case find_from str searchStr pos of
        None \<Rightarrow> Some str
      | Some pos' \<Rightarrow>
          ReplaceAllStr_loop searchStr replaceStr
            (take pos' str @ replaceStr @ drop (pos' + length searchStr) str) (pos' + length searchStr))"

definition ReplaceAllStr :: "string \<Rightarrow> string \<Rightarrow> string \<Rightarrow> string option" where
  "ReplaceAllStr searchStr replaceStr str = ReplaceAllStr_loop searchStr replaceStr str 0"

definition replace_char :: "char \<Rightarrow> string \<Rightarrow> string \<Rightarrow> string" where
  "replace_char c r s = concat (map (\<lambda>x. if x = c then r else [x]) s)"

lemma starts_with_char [simp]: "starts_with [c] (x # xs) \<longleftrightarrow> x = c"
  by (auto simp: starts_with_def)

lemma str_find_char: "str_find s [c] = (if c \<in> set s then Some (length (takeWhile (\<lambda>x. x \<noteq> c) s)) else None)"
  by (induction s) auto

lemma replace_char_none: "c \<notin> set s \<Longrightarrow> replace_char c r s = s"
  by (induction s) (auto simp: replace_char_def)

lemma replace_char_append: "replace_char c r (s @ t) = replace_char c r s @ replace_char c r t"
  by (simp add: replace_char_def)

lemma ReplaceAllStr_char_loop:
  assumes "c \<notin> set (tl r)" and "r \<noteq> []"
  shows "ReplaceAllStr_loop [c] r (a @ s) (length a) = Some (a @ replace_char c r s)"
proof (induction "length (filter (\<lambda>x. x = c) s)" arbitrary: a s)
  case 0
  then have "c \<notin> set s" by (auto simp: filter_empty_conv)
  then show ?case
    by (subst ReplaceAllStr_loop.simps) (simp add: find_from_def str_find_char replace_char_none)
next
  case (Suc n)
  have "c \<in> set s"
  proof (rule ccontr)
    assume "c \<notin> set s"
    then have "filter (\<lambda>x. x = c) s = []" by (auto simp: filter_empty_conv)
    with Suc(2) show False by simp
  qed
  then obtain u v where s: "s = u @ c # v" and u: "c \<notin> set u" by (meson split_list_first)
  obtain x r' where r: "r = x # r'" and r': "c \<notin> set r'" using assms by (cases r) auto
  have none: "filter (\<lambda>x. x = c) u = []" "filter (\<lambda>x. x = c) r' = []"
    using u r' by (auto simp: filter_empty_conv)
  have "ReplaceAllStr_loop [c] r ((a @ u @ [x]) @ (r' @ v)) (length (a @ u @ [x]))
      = Some ((a @ u @ [x]) @ replace_char c r (r' @ v))"
    using Suc(2) none by (intro Suc(1)) (simp add: s)
  then show ?case
    using u r' by (subst ReplaceAllStr_loop.simps)
      (simp add: find_from_def str_find_char takeWhile_first [OF u] s r replace_char_append replace_char_none,
       simp add: replace_char_def)
qed

lemma ReplaceAllStr_char:
  "c \<notin> set (tl r) \<Longrightarrow> r \<noteq> [] \<Longrightarrow> ReplaceAllStr [c] r s = Some (replace_char c r s)"
  using ReplaceAllStr_char_loop [of c r "[]"] by (simp add: ReplaceAllStr_def)

text \<open>The result of a call that returns (all calls of the program do, by the lemma above).\<close>

definition replaced :: "string \<Rightarrow> string \<Rightarrow> string \<Rightarrow> string" where
  "replaced a b s = (case ReplaceAllStr a b s of Some t \<Rightarrow> t | None \<Rightarrow> s)"

lemma replaced_char: "c \<notin> set (tl r) \<Longrightarrow> r \<noteq> [] \<Longrightarrow> replaced [c] r s = replace_char c r s"
  by (simp add: replaced_def ReplaceAllStr_char)

text \<open>\<open>SaveToSac\<close> of a string: the five predefined entities, the ampersand first.\<close>

definition xml_escape :: "string \<Rightarrow> string" where
  "xml_escape str =
     replaced [CHR 0x27] ''&apos;''
       (replaced [CHR 0x22] ''&quot;''
         (replaced ''>'' ''&gt;'' (replaced ''<'' ''&lt;'' (replaced ''&'' ''&amp;'' str))))"

definition escape_char :: "char \<Rightarrow> string" where
  "escape_char c =
     (if c = CHR ''&'' then ''&amp;'' else if c = CHR ''<'' then ''&lt;''
      else if c = CHR ''>'' then ''&gt;'' else if c = CHR 0x22 then ''&quot;''
      else if c = CHR 0x27 then ''&apos;'' else [c])"

lemma xml_escape_chars: "xml_escape s = concat (map escape_char s)"
proof -
  have "xml_escape s = replace_char (CHR 0x27) ''&apos;'' (replace_char (CHR 0x22) ''&quot;''
      (replace_char (CHR ''>'') ''&gt;'' (replace_char (CHR ''<'') ''&lt;'' (replace_char (CHR ''&'') ''&amp;'' s))))"
    by (simp add: xml_escape_def replaced_char)
  also have "\<dots> = concat (map escape_char s)"
    by (induction s) (simp_all add: replace_char_def escape_char_def)
  finally show ?thesis .
qed

section \<open>The buffered writer\<close>

text \<open>
  \<open>XMLSaveAndCompress\<close> without compression: at most \<open>BUFFSIZE\<close> bytes wait in \<open>m_szWriteBuf\<close>.
\<close>

definition BUFFSIZE :: nat where "BUFFSIZE = 10024"

record sac =
  sac_disk :: fs
  m_fhFile :: file_handle
  m_szWriteBuf :: bytes
  m_uiRawSize :: u64
  m_uiTotalSize :: u64

definition sac_write :: "sac \<Rightarrow> bytes \<Rightarrow> sac res" where
  "sac_write s buff =
     (let s' = s\<lparr>m_uiRawSize := m_uiRawSize s + of_nat (length buff),
                 m_uiTotalSize := m_uiTotalSize s + of_nat (length buff)\<rparr>
      in if buff = [] then Inr s'
         else bind_res (fh_write (sac_disk s) (m_fhFile s) buff)
                (\<lambda>(d, h). Inr (s'\<lparr>sac_disk := d, m_fhFile := h\<rparr>)))"

definition sac_save :: "sac \<Rightarrow> bytes \<Rightarrow> sac res" where
  "sac_save s str =
     (if str = [] then Inr s
      else if length (m_szWriteBuf s) + length str < BUFFSIZE
      then Inr (s\<lparr>m_szWriteBuf := m_szWriteBuf s @ str\<rparr>)
      else bind_res (sac_write s (m_szWriteBuf s)) (\<lambda>s1.
           if length str > BUFFSIZE then sac_write (s1\<lparr>m_szWriteBuf := []\<rparr>) str
           else Inr (s1\<lparr>m_szWriteBuf := str\<rparr>)))"

definition sac_finish :: "sac \<Rightarrow> sac res" where
  "sac_finish s = sac_write s (m_szWriteBuf s)"

definition sac_getTotalSize :: "sac \<Rightarrow> u64" where
  "sac_getTotalSize s = m_uiTotalSize s"

fun sac_saves :: "sac \<Rightarrow> bytes list \<Rightarrow> sac res" where
  "sac_saves s [] = Inr s"
| "sac_saves s (x # xs) = bind_res (sac_save s x) (\<lambda>s. sac_saves s xs)"

text \<open>
  The disk so far: the bytes written put at the start position of the handle; the buffer holds the rest
  and is never longer than the space allocated for it.
\<close>

definition sac_inv :: "sac \<Rightarrow> fs \<Rightarrow> file_handle \<Rightarrow> bytes \<Rightarrow> bytes \<Rightarrow> bool" where
  "sac_inv s disk h written pending \<longleftrightarrow>
     m_bIsOpen h \<and> fh_mode h \<noteq> FILE_READ
     \<and> m_fhFile s = h\<lparr>fh_pos := fh_pos h + length written\<rparr>
     \<and> sac_disk s = (if written = [] then disk
          else disk(fh_name h \<mapsto> put_bytes (fh_content disk h) (fh_pos h) written))
     \<and> m_uiTotalSize s = of_nat (length written)
     \<and> m_szWriteBuf s = pending \<and> length pending \<le> BUFFSIZE"

lemma sac_write_inv:
  assumes "sac_inv s disk h w b"
  shows "\<exists>s'. sac_write s d = Inr s' \<and> sac_inv (s'\<lparr>m_szWriteBuf := []\<rparr>) disk h (w @ d) []
    \<and> m_szWriteBuf s' = m_szWriteBuf s"
  using assms by (auto simp: sac_write_def sac_inv_def fh_write_def fh_content_def put_bytes_append Let_def)

lemma sac_save_inv:
  assumes "sac_inv s disk h w b"
  shows "\<exists>s' w' b'. sac_save s str = Inr s' \<and> sac_inv s' disk h w' b' \<and> w' @ b' = w @ b @ str"
proof (cases "str = [] \<or> length b + length str < BUFFSIZE")
  case True
  then show ?thesis using assms by (auto simp: sac_save_def sac_inv_def)
next
  case False
  have b: "m_szWriteBuf s = b" using assms by (simp add: sac_inv_def)
  obtain s1 where s1: "sac_write s b = Inr s1" "sac_inv (s1\<lparr>m_szWriteBuf := []\<rparr>) disk h (w @ b) []"
    using sac_write_inv [OF assms, of b] by blast
  show ?thesis
  proof (cases "length str > BUFFSIZE")
    case True
    obtain s2 where s2: "sac_write (s1\<lparr>m_szWriteBuf := []\<rparr>) str = Inr s2"
      "sac_inv (s2\<lparr>m_szWriteBuf := []\<rparr>) disk h ((w @ b) @ str) []" "m_szWriteBuf s2 = []"
      using sac_write_inv [OF s1(2), of str] by auto
    moreover have "s2\<lparr>m_szWriteBuf := []\<rparr> = s2" using s2(3) by simp
    ultimately show ?thesis
      using False True b s1(1) by (auto simp: sac_save_def)
  next
    case short: False
    have "sac_inv (s1\<lparr>m_szWriteBuf := str\<rparr>) disk h (w @ b) str"
      using s1(2) short by (simp add: sac_inv_def)
    then show ?thesis
      using False short b s1(1)
      by (intro exI [of _ "s1\<lparr>m_szWriteBuf := str\<rparr>"] exI [of _ "w @ b"] exI [of _ str])
         (auto simp: sac_save_def)
  qed
qed

lemma sac_saves_inv:
  "sac_inv s disk h w b \<Longrightarrow>
   \<exists>s' w' b'. sac_saves s xs = Inr s' \<and> sac_inv s' disk h w' b' \<and> w' @ b' = w @ b @ concat xs"
proof (induction xs arbitrary: s w b)
  case (Cons x xs)
  from sac_save_inv [OF Cons.prems, of x] obtain s1 w1 b1
    where s1: "sac_save s x = Inr s1" "sac_inv s1 disk h w1 b1" "w1 @ b1 = w @ b @ x" by blast
  from Cons.IH [OF s1(2)] s1 show ?case by fastforce
qed auto

lemma sac_writes:
  assumes "m_bIsOpen h" and "fh_mode h \<noteq> FILE_READ"
    and "s = \<lparr>sac_disk = disk, m_fhFile = h, m_szWriteBuf = [], m_uiRawSize = 0, m_uiTotalSize = 0\<rparr>"
  shows "\<exists>s'. bind_res (sac_saves s xs) sac_finish = Inr s'
    \<and> sac_disk s' = (if concat xs = [] then disk
         else disk(fh_name h \<mapsto> put_bytes (fh_content disk h) (fh_pos h) (concat xs)))
    \<and> m_fhFile s' = h\<lparr>fh_pos := fh_pos h + length (concat xs)\<rparr>
    \<and> sac_getTotalSize s' = of_nat (length (concat xs))"
proof -
  have "sac_inv s disk h [] []" using assms by (simp add: sac_inv_def)
  from sac_saves_inv [OF this, of xs] obtain s1 w b where s1: "sac_saves s xs = Inr s1"
    "sac_inv s1 disk h w b" "w @ b = concat xs" by auto
  obtain s2 where s2: "sac_write s1 b = Inr s2" "sac_inv (s2\<lparr>m_szWriteBuf := []\<rparr>) disk h (w @ b) []"
    using sac_write_inv [OF s1(2), of b] by blast
  have "m_szWriteBuf s1 = b" using s1(2) by (simp add: sac_inv_def)
  then have "bind_res (sac_saves s xs) sac_finish = Inr s2" using s1(1) s2(1) by (simp add: sac_finish_def)
  with s2(2) show ?thesis
    unfolding s1(3) by (intro exI [of _ s2]) (simp add: sac_inv_def sac_getTotalSize_def)
qed

text \<open>
  Whatever the sizes of the pieces saved, finishing the writer leaves exactly their
  concatenation in the file at the place the writer started from, touches no other file, and reports
  its length.
\<close>

theorem sac_writes_all:
  assumes "m_bIsOpen h" and "fh_mode h \<noteq> FILE_READ"
    and "s = \<lparr>sac_disk = disk, m_fhFile = h, m_szWriteBuf = [], m_uiRawSize = 0, m_uiTotalSize = 0\<rparr>"
  shows "\<exists>s'. bind_res (sac_saves s xs) sac_finish = Inr s'
    \<and> sac_disk s' = (if concat xs = [] then disk
         else disk(fh_name h \<mapsto> put_bytes (fh_content disk h) (fh_pos h) (concat xs)))
    \<and> sac_getTotalSize s' = of_nat (length (concat xs))"
  using sac_writes [OF assms, of xs] by blast

theorem sac_writes_all_witness:
  "\<exists>s'. bind_res (sac_saves \<lparr>sac_disk = [''x'' \<mapsto> [9]], m_fhFile =
      \<lparr>m_bIsOpen = True, fh_name = ''x'', fh_mode = FILE_WRITE, m_uiOffset = 0, fh_pos = 0\<rparr>,
      m_szWriteBuf = [], m_uiRawSize = 0, m_uiTotalSize = 0\<rparr> [[1, 2], [3]]) sac_finish = Inr s'
    \<and> sac_disk s' ''x'' = Some [1, 2, 3] \<and> sac_getTotalSize s' = 3"
  using sac_writes_all [where h = "\<lparr>m_bIsOpen = True, fh_name = ''x'', fh_mode = FILE_WRITE, m_uiOffset = 0, fh_pos = 0\<rparr>"
      and disk = "[''x'' \<mapsto> [9]]" and xs = "[[1, 2], [3]]", OF _ _ refl]
  by (force simp: fh_content_def put_bytes_def)

end
