(* ===== verification/Mcf_File.thy ===== *)
theory Mcf_File
  imports Mcf_Header Util_Path Util_Codec Util_Crc Util_Xml
begin

text \<open>
  One file of an archive: \<^verbatim>\<open>src/src/shared/mcfcore/code/mcf/MCFFile.cpp\<close> with its headers \<^verbatim>\<open>MCFFile.h\<close> and
  \<^verbatim>\<open>src/src/include/mcfcore/MCFFileI.h\<close>. The digest \<open>md5\<close> (third-party code) is a parameter.
\<close>

unbundle bit_operations_syntax

section \<open>State\<close>

record mcf_file =
  m_szName :: string
  m_szPath :: string
  m_szDir :: string
  m_szCsum :: string
  m_szCCsum :: string
  m_uiFlags :: u16
  m_iHash :: u64
  m_iSize :: u64
  m_iCSize :: u64
  m_iTimeStamp :: u64
  m_llOffset :: u64
  m_llDiffOffset :: u64
  m_llDiffSize :: u64
  m_szDiffOrgFileHash :: string
  m_szDiffHash :: string
  m_iBlockSize :: u32
  m_vCRCList :: "u32 list"

definition DEFAULT_BLOCKSIZE :: u32 where "DEFAULT_BLOCKSIZE = 524288"

definition FLAG_SAVE :: u16 where "FLAG_SAVE = 2"
definition FLAG_COMPLETE :: u16 where "FLAG_COMPLETE = 4"
definition FLAG_COMPRESSED :: u16 where "FLAG_COMPRESSED = 8"
definition FLAG_ZEROSIZE :: u16 where "FLAG_ZEROSIZE = 16"
definition FLAG_STARTEDDL :: u16 where "FLAG_STARTEDDL = 32"
definition FLAG_HASDIFF :: u16 where "FLAG_HASDIFF = 64"
definition FLAG_XECUTABLE :: u16 where "FLAG_XECUTABLE = 128"
definition FLAG_CANUSEDIFF :: u16 where "FLAG_CANUSEDIFF = 256"

lemmas file_flags = FLAG_SAVE_def FLAG_COMPLETE_def FLAG_COMPRESSED_def FLAG_ZEROSIZE_def
  FLAG_STARTEDDL_def FLAG_HASDIFF_def FLAG_XECUTABLE_def FLAG_CANUSEDIFF_def

text \<open>Every flag is one bit: tests and updates of flags are tests and updates of that bit.\<close>

definition has_flag :: "mcf_file \<Rightarrow> u16 \<Rightarrow> bool" where
  "has_flag f flag \<longleftrightarrow> m_uiFlags f AND flag \<noteq> 0"

definition addFlag :: "u16 \<Rightarrow> mcf_file \<Rightarrow> mcf_file" where
  "addFlag flag f = f\<lparr>m_uiFlags := m_uiFlags f OR flag\<rparr>"

definition delFlag :: "u16 \<Rightarrow> mcf_file \<Rightarrow> mcf_file" where
  "delFlag flag f = f\<lparr>m_uiFlags := m_uiFlags f AND NOT flag\<rparr>"

definition isSaved :: "mcf_file \<Rightarrow> bool" where "isSaved f \<longleftrightarrow> has_flag f FLAG_SAVE"
definition isComplete :: "mcf_file \<Rightarrow> bool" where "isComplete f \<longleftrightarrow> has_flag f FLAG_COMPLETE"
definition isCompressed :: "mcf_file \<Rightarrow> bool" where "isCompressed f \<longleftrightarrow> has_flag f FLAG_COMPRESSED"
definition isZeroSize :: "mcf_file \<Rightarrow> bool" where "isZeroSize f \<longleftrightarrow> has_flag f FLAG_ZEROSIZE"

definition hasStartedDL :: "mcf_file \<Rightarrow> bool" where
  "hasStartedDL f \<longleftrightarrow> HasAnyFlags (ucast (m_uiFlags f)) (ucast (FLAG_STARTEDDL OR FLAG_COMPLETE))"

definition hasDiff :: "mcf_file \<Rightarrow> bool" where
  "hasDiff f \<longleftrightarrow> HasAnyFlags (ucast (m_uiFlags f)) (ucast FLAG_HASDIFF)"

definition getCurSize :: "mcf_file \<Rightarrow> u64" where
  "getCurSize f = (if isCompressed f then m_iCSize f else m_iSize f)"

definition MCFFile_new :: mcf_file where
  "MCFFile_new =
     \<lparr>m_szName = [], m_szPath = [], m_szDir = [], m_szCsum = [], m_szCCsum = [],
      m_uiFlags = FLAG_SAVE, m_iHash = 0, m_iSize = 0, m_iCSize = 0, m_iTimeStamp = 0,
      m_llOffset = 0, m_llDiffOffset = 0, m_llDiffSize = 0, m_szDiffOrgFileHash = [],
      m_szDiffHash = [], m_iBlockSize = DEFAULT_BLOCKSIZE, m_vCRCList = []\<rparr>"

section \<open>Names, paths and the hash\<close>

text \<open>The hash is taken over the printed path of the file, when it has both a path and a name.\<close>

definition path_hash :: "string \<Rightarrow> string \<Rightarrow> u64" where
  "path_hash path name = FNVHash64 (getFullPath (Path_ctor path name False))"

definition saveHash :: "mcf_file \<Rightarrow> mcf_file" where
  "saveHash f =
     (if m_szPath f \<noteq> [] \<and> m_szName f \<noteq> [] then f\<lparr>m_iHash := path_hash (m_szPath f) (m_szName f)\<rparr>
      else f)"

definition setName :: "string \<Rightarrow> mcf_file \<Rightarrow> mcf_file" where
  "setName var f = saveHash (f\<lparr>m_szName := var\<rparr>)"

definition setDir :: "string \<Rightarrow> mcf_file \<Rightarrow> mcf_file" where
  "setDir var f = f\<lparr>m_szDir := var\<rparr>"

definition setPath :: "string \<Rightarrow> mcf_file \<Rightarrow> mcf_file" where
  "setPath var f = saveHash (f\<lparr>m_szPath := replaced [good] [bad] var\<rparr>)"

definition setCsum :: "string \<Rightarrow> mcf_file \<Rightarrow> mcf_file" where
  "setCsum var f = f\<lparr>m_szCsum := var\<rparr>"

definition setCCsum :: "string \<Rightarrow> mcf_file \<Rightarrow> mcf_file" where
  "setCCsum var f = f\<lparr>m_szCCsum := var\<rparr>"

definition setSize :: "u64 \<Rightarrow> mcf_file \<Rightarrow> mcf_file" where "setSize v f = f\<lparr>m_iSize := v\<rparr>"
definition setCSize :: "u64 \<Rightarrow> mcf_file \<Rightarrow> mcf_file" where "setCSize v f = f\<lparr>m_iCSize := v\<rparr>"
definition setTimeStamp :: "u64 \<Rightarrow> mcf_file \<Rightarrow> mcf_file" where "setTimeStamp v f = f\<lparr>m_iTimeStamp := v\<rparr>"
definition setOffSet :: "u64 \<Rightarrow> mcf_file \<Rightarrow> mcf_file" where "setOffSet v f = f\<lparr>m_llOffset := v\<rparr>"
definition setDiffOffset :: "u64 \<Rightarrow> mcf_file \<Rightarrow> mcf_file" where
  "setDiffOffset v f = f\<lparr>m_llDiffOffset := v\<rparr>"

definition setDiffInfo :: "string \<Rightarrow> string \<Rightarrow> u64 \<Rightarrow> mcf_file \<Rightarrow> mcf_file" where
  "setDiffInfo orgHash hash sz f =
     f\<lparr>m_llDiffSize := sz, m_szDiffOrgFileHash := orgHash, m_szDiffHash := hash\<rparr>"

definition clearDiff :: "mcf_file \<Rightarrow> mcf_file" where
  "clearDiff f =
     (delFlag (FLAG_CANUSEDIFF OR FLAG_HASDIFF) f)\<lparr>m_llDiffSize := 0, m_llDiffOffset := 0,
        m_szDiffOrgFileHash := [], m_szDiffHash := []\<rparr>"

text \<open>A file with neither directory nor path has no full path.\<close>

definition file_path :: "mcf_file \<Rightarrow> string" where
  "file_path f =
     getFullPath (Path_add_str (Path_ctor (m_szDir f) (m_szName f) False) (m_szPath f))"

definition getFullPath_file :: "mcf_file \<Rightarrow> string" where
  "getFullPath_file f = (if m_szDir f = [] \<and> m_szPath f = [] then [] else file_path f)"

definition g_vNoCompressList :: "string list" where
  "g_vNoCompressList = [''zip'', ''rar'', ''bz2'', ''tar'', ''gzip'', ''iso'', ''pk3'']"

definition shouldCompress :: "mcf_file \<Rightarrow> bool" where
  "shouldCompress f =
     (if m_szName f = [] then False else \<not> matchList (Some (getFileExt (m_szName f))) g_vNoCompressList)"

datatype file_cmp = CMP_NOTEQUAL | CMP_SAME | CMP_NEWER | CMP_OLDER

definition isEquals :: "mcf_file \<Rightarrow> mcf_file option \<Rightarrow> file_cmp" where
  "isEquals f file' =
     (case file' of None \<Rightarrow> CMP_NOTEQUAL
      | Some g \<Rightarrow>
          if getFullPath (Path_ctor (m_szPath f) (m_szName f) False)
             \<noteq> getFullPath (Path_ctor (m_szPath g) (m_szName g) False) then CMP_NOTEQUAL
          else if m_iSize f = 0 \<and> has_flag f FLAG_ZEROSIZE \<and> m_iSize g = 0 \<and> has_flag g FLAG_ZEROSIZE
          then CMP_SAME
          else if m_szCsum f = m_szCsum g then CMP_SAME
          else if m_iTimeStamp g < m_iTimeStamp f then CMP_OLDER
          else CMP_NEWER)"

section \<open>Copying\<close>

text \<open>
  The copying constructor does not initialise the place and size of the diff: \<open>d_off\<close> and \<open>d_size\<close> are
  whatever the memory held. The block size is the default one, not the copied file's.
\<close>

definition MCFFile_copy :: "u64 \<Rightarrow> u64 \<Rightarrow> mcf_file \<Rightarrow> mcf_file" where
  "MCFFile_copy d_off d_size t =
     (let f = MCFFile_new\<lparr>m_llDiffOffset := d_off, m_llDiffSize := d_size\<rparr>;
          f = setCCsum (m_szCCsum t) (setCsum (m_szCsum t) (setDir (m_szDir t)
                (setPath (m_szPath t) (setName (m_szName t) f))))
      in f\<lparr>m_iSize := m_iSize t, m_iCSize := m_iCSize t, m_iHash := m_iHash t,
           m_iTimeStamp := m_iTimeStamp t, m_llOffset := 0, m_iBlockSize := DEFAULT_BLOCKSIZE,
           m_uiFlags := m_uiFlags t, m_vCRCList := m_vCRCList t\<rparr>)"

definition copyBorkedSettings :: "mcf_file \<Rightarrow> mcf_file \<Rightarrow> mcf_file" where
  "copyBorkedSettings t f = (setCCsum (m_szCCsum t) f)\<lparr>m_vCRCList := m_vCRCList t\<rparr>"

text \<open>Names and paths that differ only in case are kept; so is the executable flag.\<close>

definition copySettings :: "mcf_file \<Rightarrow> mcf_file \<Rightarrow> mcf_file" where
  "copySettings t f =
     (let f1 = (if map to_lower (m_szName f) \<noteq> map to_lower (m_szName t) then setName (m_szName t) f else f);
          f2 = (if map to_lower (m_szPath f1) \<noteq> map to_lower (m_szPath t) then setPath (m_szPath t) f1 else f1);
          f3 = setCCsum (m_szCCsum t) (setCsum (m_szCsum t) (setDir (m_szDir t) f2))
      in f3\<lparr>m_uiFlags := m_uiFlags t OR (m_uiFlags f3 AND FLAG_XECUTABLE),
            m_iSize := m_iSize t, m_iCSize := m_iCSize t, m_iHash := m_iHash t,
            m_iTimeStamp := m_iTimeStamp t, m_llOffset := 0, m_vCRCList := m_vCRCList t\<rparr>)"

section \<open>XML\<close>

text \<open>The CRC list is stored big-endian; the reader masks the sign extension of its \<open>char\<close>s away.\<close>

definition be32 :: "u32 \<Rightarrow> bytes" where
  "be32 w = [byte_at w 24, byte_at w 16, byte_at w 8, byte_at w 0]"

fun crc_words :: "bytes \<Rightarrow> u32 list" where
  "crc_words (a # b # c # d # rest) =
     (push_bit 24 (ucast a) + push_bit 16 (ucast b) + push_bit 8 (ucast c) + ucast d) # crc_words rest"
| "crc_words _ = []"

definition load_diff :: "xml \<Rightarrow> mcf_file \<Rightarrow> mcf_file" where
  "load_diff e f =
     (case FirstChildElement e ''diff'' of
        Some diff \<Rightarrow>
          if hasDiff f then
            f\<lparr>m_llDiffOffset := GetChild_u64 diff ''offset'' (m_llDiffOffset f),
              m_llDiffSize := GetChild_u64 diff ''size'' (m_llDiffSize f),
              m_szDiffOrgFileHash := GetChild diff ''file_csum'' (\<lambda>t _. t) (m_szDiffOrgFileHash f),
              m_szDiffHash := GetChild diff ''csum'' (\<lambda>t _. t) (m_szDiffHash f)\<rparr>
          else delFlag FLAG_HASDIFF f
      | None \<Rightarrow> delFlag FLAG_HASDIFF f)"

definition load_crc :: "xml \<Rightarrow> mcf_file \<Rightarrow> mcf_file" where
  "load_crc e f =
     (case FirstChildElement e ''crc'' of
        None \<Rightarrow> f
      | Some crcNode \<Rightarrow>
          (let bs = GetAtt (Some crcNode) ''blocksize'';
               buff = base64_decode (GetText (Some crcNode))
           in f\<lparr>m_iBlockSize := (if bs \<noteq> [] then Safe_atoi (Some bs) else m_iBlockSize f),
                m_vCRCList := m_vCRCList f @ crc_words buff\<rparr>))"

definition loadXmlData :: "xml \<Rightarrow> mcf_file \<Rightarrow> mcf_file" where
  "loadXmlData e f =
     (let f = GetChild e ''name'' setName f;
          f = GetChild e ''path'' setPath f;
          f = GetChild e ''nom_csum'' setCsum f;
          f = GetChild e ''com_csum'' setCCsum f;
          f = f\<lparr>m_iSize := GetChild_u64 e ''size'' (m_iSize f),
                m_iCSize := GetChild_u64 e ''csize'' (m_iCSize f),
                m_uiFlags := GetChild_u16 e ''flags'' (m_uiFlags f),
                m_llOffset := GetChild_u64 e ''offset'' (m_llOffset f),
                m_iTimeStamp := GetChild_u64 e ''tstamp'' (m_iTimeStamp f)\<rparr>
      in load_crc e (load_diff e f))"

text \<open>\<open>genXml\<close>: what the calls of \<open>sac->save\<close> append, in order.\<close>

definition tag :: "string \<Rightarrow> string \<Rightarrow> string" where
  "tag n s = ''<'' @ n @ ''>'' @ s @ ''</'' @ n @ ''>''"

definition num :: "'a::len word \<Rightarrow> string" where
  "num w = dec_digits (unat w)"

definition genXml_file :: "mcf_file \<Rightarrow> string" where
  "genXml_file f =
     tag ''name'' (xml_escape (m_szName f)) @ tag ''path'' (xml_escape (m_szPath f))
     @ tag ''flags'' (num (m_uiFlags f))
     @ (if m_iTimeStamp f \<noteq> 0 then tag ''tstamp'' (num (m_iTimeStamp f)) else [])
     @ (if isZeroSize f then [] else
          tag ''offset'' (num (m_llOffset f)) @ tag ''size'' (num (m_iSize f))
          @ (if isCompressed f then tag ''csize'' (num (m_iCSize f)) else [])
          @ tag ''nom_csum'' (xml_escape (m_szCsum f))
          @ (if isCompressed f then tag ''com_csum'' (xml_escape (m_szCCsum f)) else [])
          @ (if hasDiff f then
               tag ''diff''
                 (tag ''offset'' (num (m_llDiffOffset f)) @ tag ''size'' (num (m_llDiffSize f))
                  @ tag ''file_csum'' (xml_escape (m_szDiffOrgFileHash f))
                  @ tag ''csum'' (xml_escape (m_szDiffHash f)))
             else [])
          @ (if m_vCRCList f \<noteq> [] then
               ''<crc blocksize='' @ [CHR 0x22] @ num (m_iBlockSize f) @ [CHR 0x22] @ ''>''
               @ xml_escape (base64_encode (concat (map be32 (m_vCRCList f)))) @ ''</crc>''
             else []))"

text \<open>
  The elements that text stands for, written with the usual printer. An element with empty text has
  no text node.
\<close>

definition opt_text :: "string \<Rightarrow> string option" where
  "opt_text s = (if s = [] then None else Some s)"

definition leaf :: "string \<Rightarrow> string \<Rightarrow> xml" where
  "leaf n s = Elem n [] (opt_text s) []"

fun print_xml :: "xml \<Rightarrow> string" where
  "print_xml (Elem n atts t cs) =
     ''<'' @ n @ concat (map (\<lambda>(a, v). '' '' @ a @ ''='' @ [CHR 0x22] @ xml_escape v @ [CHR 0x22]) atts)
     @ ''>'' @ (case t of None \<Rightarrow> [] | Some s \<Rightarrow> xml_escape s) @ concat (map print_xml cs)
     @ ''</'' @ n @ ''>''"

definition file_elems :: "mcf_file \<Rightarrow> xml list" where
  "file_elems f =
     [leaf ''name'' (m_szName f), leaf ''path'' (m_szPath f), leaf ''flags'' (num (m_uiFlags f))]
     @ (if m_iTimeStamp f \<noteq> 0 then [leaf ''tstamp'' (num (m_iTimeStamp f))] else [])
     @ (if isZeroSize f then [] else
          [leaf ''offset'' (num (m_llOffset f)), leaf ''size'' (num (m_iSize f))]
          @ (if isCompressed f then [leaf ''csize'' (num (m_iCSize f))] else [])
          @ [leaf ''nom_csum'' (m_szCsum f)]
          @ (if isCompressed f then [leaf ''com_csum'' (m_szCCsum f)] else [])
          @ (if hasDiff f then
               [Elem ''diff'' [] None
                 [leaf ''offset'' (num (m_llDiffOffset f)), leaf ''size'' (num (m_llDiffSize f)),
                  leaf ''file_csum'' (m_szDiffOrgFileHash f), leaf ''csum'' (m_szDiffHash f)]]
             else [])
          @ (if m_vCRCList f \<noteq> [] then
               [Elem ''crc'' [(''blocksize'', num (m_iBlockSize f))]
                 (opt_text (base64_encode (concat (map be32 (m_vCRCList f))))) []]
             else []))"

subsection \<open>Escaping leaves the alphabets of numbers and base64 alone\<close>

lemma escape_plain: "(\<And>c. c \<in> set s \<Longrightarrow> escape_char c = [c]) \<Longrightarrow> xml_escape s = s"
  by (simp add: xml_escape_chars) (induction s, auto)

lemma escape_digit: "d < 10 \<Longrightarrow> escape_char (digit_char d) = [digit_char d]"
proof -
  have "48 \<le> code c \<Longrightarrow> code c < 58 \<Longrightarrow> escape_char c = [c]" for c
    by (auto simp: escape_char_def)
  then show "d < 10 \<Longrightarrow> escape_char (digit_char d) = [digit_char d]"
    by (simp add: digit_char_code)
qed

lemma dec_digits_digit: "c \<in> set (dec_digits n) \<Longrightarrow> \<exists>d<10. c = digit_char d"
proof (induction n rule: dec_digits.induct)
  case (1 n)
  then show ?case by (subst (asm) dec_digits.simps) (auto split: if_splits intro: exI [of _ "n mod 10"])
qed

lemma escape_num [simp]: "xml_escape (num w) = num w"
  by (rule escape_plain) (auto simp: num_def dest!: dec_digits_digit intro: escape_digit)

lemma print_leaf: "print_xml (leaf n s) = tag n (xml_escape s)"
  by (simp add: leaf_def opt_text_def tag_def xml_escape_chars)

lemma print_file_elems: "concat (map print_xml (file_elems f)) = genXml_file f"
proof -
  have crc: "xs \<noteq> [] \<Longrightarrow> base64_encode (concat (map be32 xs)) \<noteq> []" for xs
    by (cases xs) (auto simp: be32_def enc_quad_def)
  show ?thesis
    by (simp add: file_elems_def genXml_file_def print_leaf tag_def opt_text_def crc)
qed

subsection \<open>Loading what was written\<close>

lemma be32_rev: "rev (be32 w) = le32 w"
  by (simp add: be32_def le32_def)

lemma crc_words_be32: "crc_words (be32 w @ rest) = w # crc_words rest"
proof -
  have "readInt 0 (rev (be32 w)) = w" by (simp add: be32_rev readInt_le32)
  then show ?thesis by (simp add: be32_def readInt.simps ac_simps)
qed

lemma crc_words_concat: "crc_words (concat (map be32 ws)) = ws"
  by (induction ws) (simp_all add: crc_words_be32)

lemma base64_decode_encode: "base64_decode (base64_encode bs) = bs"
  using base64.dec_enc [of bs] by simp

lemma find_append_option: "List.find P (xs @ ys) = (case List.find P xs of None \<Rightarrow> List.find P ys | Some x \<Rightarrow> Some x)"
  by (induction xs) auto

lemma find_if: "List.find P (if b then xs else ys) = (if b then List.find P xs else List.find P ys)"
  by simp

lemma GetText_leaf [simp]: "GetText (Some (leaf n s)) = s"
  by (simp add: GetText_def leaf_def opt_text_def)

lemma xml_name_leaf [simp]: "xml_name (leaf n s) = n"
  by (simp add: leaf_def)

text \<open>What the reader finds under each name of the element of a file.\<close>

definition file_elem :: "mcf_file \<Rightarrow> xml" where
  "file_elem f = Elem ''file'' [] None (file_elems f)"

lemma file_elem_children:
  "FirstChildElement (file_elem f) ''name'' = Some (leaf ''name'' (m_szName f))"
  "FirstChildElement (file_elem f) ''path'' = Some (leaf ''path'' (m_szPath f))"
  "FirstChildElement (file_elem f) ''flags'' = Some (leaf ''flags'' (num (m_uiFlags f)))"
  "FirstChildElement (file_elem f) ''tstamp'' =
     (if m_iTimeStamp f \<noteq> 0 then Some (leaf ''tstamp'' (num (m_iTimeStamp f))) else None)"
  "FirstChildElement (file_elem f) ''offset'' =
     (if isZeroSize f then None else Some (leaf ''offset'' (num (m_llOffset f))))"
  "FirstChildElement (file_elem f) ''size'' =
     (if isZeroSize f then None else Some (leaf ''size'' (num (m_iSize f))))"
  "FirstChildElement (file_elem f) ''csize'' =
     (if isZeroSize f \<or> \<not> isCompressed f then None else Some (leaf ''csize'' (num (m_iCSize f))))"
  "FirstChildElement (file_elem f) ''nom_csum'' =
     (if isZeroSize f then None else Some (leaf ''nom_csum'' (m_szCsum f)))"
  "FirstChildElement (file_elem f) ''com_csum'' =
     (if isZeroSize f \<or> \<not> isCompressed f then None else Some (leaf ''com_csum'' (m_szCCsum f)))"
  "FirstChildElement (file_elem f) ''diff'' =
     (if isZeroSize f \<or> \<not> hasDiff f then None
      else Some (Elem ''diff'' [] None
        [leaf ''offset'' (num (m_llDiffOffset f)), leaf ''size'' (num (m_llDiffSize f)),
         leaf ''file_csum'' (m_szDiffOrgFileHash f), leaf ''csum'' (m_szDiffHash f)]))"
  "FirstChildElement (file_elem f) ''crc'' =
     (if isZeroSize f \<or> m_vCRCList f = [] then None
      else Some (Elem ''crc'' [(''blocksize'', num (m_iBlockSize f))]
                (opt_text (base64_encode (concat (map be32 (m_vCRCList f))))) []))"
  by (simp_all add: FirstChildElement_def file_elem_def file_elems_def find_append_option find_if)

lemma diff_children:
  "FirstChildElement (Elem n [] None [leaf ''offset'' a, leaf ''size'' b, leaf ''file_csum'' c, leaf ''csum'' d])
     ''offset'' = Some (leaf ''offset'' a)"
  "FirstChildElement (Elem n [] None [leaf ''offset'' a, leaf ''size'' b, leaf ''file_csum'' c, leaf ''csum'' d])
     ''size'' = Some (leaf ''size'' b)"
  "FirstChildElement (Elem n [] None [leaf ''offset'' a, leaf ''size'' b, leaf ''file_csum'' c, leaf ''csum'' d])
     ''file_csum'' = Some (leaf ''file_csum'' c)"
  "FirstChildElement (Elem n [] None [leaf ''offset'' a, leaf ''size'' b, leaf ''file_csum'' c, leaf ''csum'' d])
     ''csum'' = Some (leaf ''csum'' d)"
  by (simp_all add: FirstChildElement_def)

lemma num_reads:
  "Safe_atoll (Some (num (w :: u64))) = w" "Safe_atoi (Some (num (v :: u32))) = v"
  "ucast (Safe_atoi (Some (num (x :: u16)))) = x"
proof -
  show "Safe_atoll (Some (num w)) = w" "Safe_atoi (Some (num v)) = v"
    by (simp_all add: num_def Safe_atoll_dec Safe_atoi_dec)
  have "unat (ucast x :: u32) = unat x"
    using unsigned_less [of x, where ?'a = nat] by (simp add: unsigned_ucast_eq take_bit_nat_eq_self)
  then have "num x = num (ucast x :: u32)" by (simp add: num_def)
  then show "ucast (Safe_atoi (Some (num x))) = x"
    by (simp add: num_def Safe_atoi_dec)
qed

text \<open>
  A file whose fields are those its XML stores: no directory, backslashes in the path, the hash of its
  path, and the default in every field the flags or sizes leave out.
\<close>

definition file_canonical :: "mcf_file \<Rightarrow> bool" where
  "file_canonical f \<longleftrightarrow>
     m_szDir f = [] \<and> good \<notin> set (m_szPath f)
     \<and> m_iHash f = (if m_szPath f \<noteq> [] \<and> m_szName f \<noteq> [] then path_hash (m_szPath f) (m_szName f) else 0)
     \<and> (\<not> hasDiff f \<longrightarrow> m_llDiffOffset f = 0 \<and> m_llDiffSize f = 0 \<and> m_szDiffOrgFileHash f = [] \<and> m_szDiffHash f = [])
     \<and> (\<not> isCompressed f \<longrightarrow> m_iCSize f = 0 \<and> m_szCCsum f = [])
     \<and> (m_vCRCList f = [] \<longrightarrow> m_iBlockSize f = DEFAULT_BLOCKSIZE)
     \<and> (isZeroSize f \<longrightarrow> \<not> hasDiff f \<and> m_llOffset f = 0 \<and> m_iSize f = 0 \<and> m_iCSize f = 0
          \<and> m_szCsum f = [] \<and> m_szCCsum f = [] \<and> m_vCRCList f = [])"

lemma num_not_Nil [simp]: "num w \<noteq> []"
  unfolding num_def by (subst dec_digits.simps) simp

lemma hasDiff_bit: "hasDiff f \<longleftrightarrow> has_flag f FLAG_HASDIFF"
proof -
  have "(ucast (m_uiFlags f) :: u32) AND ucast FLAG_HASDIFF = ucast (m_uiFlags f AND FLAG_HASDIFF)"
    by (rule bit_word_eqI) (auto simp: bit_simps)
  moreover have "(ucast x :: u32) = 0 \<longleftrightarrow> x = 0" for x :: u16
    by (metis ucast_up_down(4) unsigned_0)
  ultimately show ?thesis by (simp add: hasDiff_def HasAnyFlags_def has_flag_def)
qed

lemma delFlag_absent: "\<not> has_flag f flag \<Longrightarrow> delFlag flag f = f"
proof -
  assume "\<not> has_flag f flag"
  then have "m_uiFlags f AND flag = 0" by (simp add: has_flag_def)
  then have "\<not> (bit (m_uiFlags f) n \<and> bit flag n)" for n
    by (metis bit_0_eq bit_and_iff bot_apply bot_bool_def)
  then have "m_uiFlags f AND NOT flag = m_uiFlags f"
    by (intro bit_word_eqI) (auto simp: bit_simps)
  then show ?thesis by (simp add: delFlag_def)
qed

lemma replaced_path: "good \<notin> set s \<Longrightarrow> replaced [good] [bad] s = s"
  by (simp add: replaced_char replace_char_none)

lemma load_names:
  assumes "file_canonical f"
  shows "setPath (m_szPath f) (setName (m_szName f) MCFFile_new) =
    MCFFile_new\<lparr>m_szName := m_szName f, m_szPath := m_szPath f, m_iHash := m_iHash f\<rparr>"
  using assms by (simp add: file_canonical_def setPath_def setName_def saveHash_def MCFFile_new_def replaced_path)

lemma load_fields:
  assumes "file_canonical f"
  shows "loadXmlData (file_elem f) MCFFile_new =
    load_crc (file_elem f) (load_diff (file_elem f)
      (f\<lparr>m_llDiffOffset := 0, m_llDiffSize := 0, m_szDiffOrgFileHash := [], m_szDiffHash := [],
         m_iBlockSize := DEFAULT_BLOCKSIZE, m_vCRCList := []\<rparr>))"
proof -
  have "loadXmlData (file_elem f) MCFFile_new = load_crc (file_elem f) (load_diff (file_elem f)
      (MCFFile_new\<lparr>m_szName := m_szName f, m_szPath := m_szPath f, m_iHash := m_iHash f,
         m_szCsum := m_szCsum f, m_szCCsum := m_szCCsum f, m_iSize := m_iSize f, m_iCSize := m_iCSize f,
         m_uiFlags := m_uiFlags f, m_llOffset := m_llOffset f, m_iTimeStamp := m_iTimeStamp f\<rparr>))"
    using assms
    by (simp add: loadXmlData_def GetChild_def GetChild_u64_def GetChild_u16_def file_elem_children
        load_names num_reads setCsum_def setCCsum_def)
       (auto simp: file_canonical_def MCFFile_new_def)
  also have "MCFFile_new\<lparr>m_szName := m_szName f, m_szPath := m_szPath f, m_iHash := m_iHash f,
         m_szCsum := m_szCsum f, m_szCCsum := m_szCCsum f, m_iSize := m_iSize f, m_iCSize := m_iCSize f,
         m_uiFlags := m_uiFlags f, m_llOffset := m_llOffset f, m_iTimeStamp := m_iTimeStamp f\<rparr>
      = f\<lparr>m_llDiffOffset := 0, m_llDiffSize := 0, m_szDiffOrgFileHash := [], m_szDiffHash := [],
         m_iBlockSize := DEFAULT_BLOCKSIZE, m_vCRCList := []\<rparr>"
    using assms by (intro mcf_file.equality) (simp_all add: MCFFile_new_def file_canonical_def)
  finally show ?thesis .
qed

lemma load_diff_elem:
  assumes "file_canonical f"
    and "g = f\<lparr>m_llDiffOffset := 0, m_llDiffSize := 0, m_szDiffOrgFileHash := [], m_szDiffHash := [],
         m_iBlockSize := b, m_vCRCList := cs\<rparr>"
  shows "load_diff (file_elem f) g = f\<lparr>m_iBlockSize := b, m_vCRCList := cs\<rparr>"
proof -
  have flags: "hasDiff g = hasDiff f" "has_flag g = has_flag f" by (simp_all add: assms(2) hasDiff_def has_flag_def fun_eq_iff)
  have same: "f\<lparr>m_llDiffOffset := 0, m_llDiffSize := 0, m_szDiffOrgFileHash := [], m_szDiffHash := []\<rparr> = f"
    if "\<not> hasDiff f"
    using assms(1) that by (intro mcf_file.equality) (auto simp: file_canonical_def)
  show ?thesis
  proof (cases "isZeroSize f \<or> \<not> hasDiff f")
    case True
    then have nd: "\<not> hasDiff f" using assms(1) by (auto simp: file_canonical_def)
    then have "load_diff (file_elem f) g = g"
      using True by (simp add: load_diff_def file_elem_children delFlag_absent flags flip: hasDiff_bit)
    also have "g = f\<lparr>m_llDiffOffset := 0, m_llDiffSize := 0, m_szDiffOrgFileHash := [], m_szDiffHash := []\<rparr>
        \<lparr>m_iBlockSize := b, m_vCRCList := cs\<rparr>" by (simp add: assms(2))
    finally show ?thesis by (simp only: same [OF nd])
  next
    case False
    then show ?thesis
      by (simp add: load_diff_def file_elem_children flags diff_children GetChild_u64_def GetChild_def
          num_reads)
         (simp add: assms(2))
  qed
qed

lemma load_crc_elem:
  assumes "file_canonical f"
  shows "load_crc (file_elem f) (f\<lparr>m_iBlockSize := DEFAULT_BLOCKSIZE, m_vCRCList := []\<rparr>) = f"
proof (cases "m_vCRCList f = []")
  case True
  have "f\<lparr>m_iBlockSize := DEFAULT_BLOCKSIZE, m_vCRCList := []\<rparr> = f"
    using assms True by (intro mcf_file.equality) (simp_all add: file_canonical_def)
  then show ?thesis using True by (simp add: load_crc_def file_elem_children)
next
  case False
  then have "\<not> isZeroSize f" using assms by (auto simp: file_canonical_def)
  moreover have "GetText (Some (Elem n atts (opt_text s) cs)) = s" for n atts s cs
    by (simp add: GetText_def opt_text_def)
  ultimately show ?thesis
    using False by (simp add: load_crc_def file_elem_children GetAtt_def num_reads base64_decode_encode
        crc_words_concat)
qed

lemma load_file_elem: "file_canonical f \<Longrightarrow> loadXmlData (file_elem f) MCFFile_new = f"
  by (simp add: load_fields load_diff_elem [OF _ refl] load_crc_elem)

text \<open>
  C31: The XML of a file is the printed form of its elements, and loading those elements into a new
  file gives the file back: names, flags, sizes, checksums, the diff and the CRC list.
\<close>

theorem file_xml_roundtrip:
  assumes "file_canonical f"
  shows "concat (map print_xml (file_elems f)) = genXml_file f
    \<and> loadXmlData (Elem ''file'' [] None (file_elems f)) MCFFile_new = f"
  using load_file_elem [OF assms] print_file_elems by (simp add: file_elem_def)

theorem file_xml_roundtrip_witness:
  "loadXmlData (Elem ''file'' [] None (file_elems (MCFFile_new\<lparr>m_szName := ''a&b'', m_iSize := 7,
      m_vCRCList := [0x9D42DF72]\<rparr>))) MCFFile_new
   = MCFFile_new\<lparr>m_szName := ''a&b'', m_iSize := 7, m_vCRCList := [0x9D42DF72]\<rparr>"
  using file_xml_roundtrip [of "MCFFile_new\<lparr>m_szName := ''a&b'', m_iSize := 7, m_vCRCList := [0x9D42DF72]\<rparr>"]
  by (simp add: file_canonical_def MCFFile_new_def hasDiff_bit has_flag_def isZeroSize_def file_flags)

end
