(* ===== verification/Mcf_Check.thy ===== *)
theory Mcf_Check
  imports Mcf_File
begin

text \<open>
  Verification of the files of an archive: checksums and CRC blocks of \<^verbatim>\<open>MCFFile.cpp\<close>. The digest \<open>md5\<close>
  and the cancel flag as the running operation sees it are parameters.
\<close>

unbundle bit_operations_syntax

section \<open>Flags\<close>

text \<open>Flags are single bits, so adding or removing one tells nothing about another.\<close>

lemma has_flag_add: "has_flag (addFlag a f) b \<longleftrightarrow> has_flag f b \<or> a AND b \<noteq> 0"
proof -
  have "(m_uiFlags f OR a) AND b = (m_uiFlags f AND b) OR (a AND b)"
    by (rule bit_word_eqI) (auto simp: bit_simps)
  then show ?thesis by (simp add: has_flag_def addFlag_def or_eq_0_iff)
qed

lemma has_flag_del_same [simp]: "\<not> has_flag (delFlag a f) a"
  by (simp add: has_flag_def delFlag_def and.assoc)

lemma has_flag_del_other: "a AND b = 0 \<Longrightarrow> has_flag (delFlag a f) b \<longleftrightarrow> has_flag f b"
proof -
  assume "a AND b = 0"
  then have "\<not> (bit a n \<and> bit b n)" for n
    by (metis bit_0_eq bit_and_iff bot_apply bot_bool_def)
  then have "(m_uiFlags f AND NOT a) AND b = m_uiFlags f AND b"
    by (intro bit_word_eqI) (auto simp: bit_simps)
  then show ?thesis by (simp add: has_flag_def delFlag_def)
qed

lemma flags_disjoint [flag_simps]:
  "FLAG_COMPLETE AND FLAG_SAVE = 0" "FLAG_COMPLETE AND FLAG_COMPRESSED = 0"
  "FLAG_COMPLETE AND FLAG_ZEROSIZE = 0" "FLAG_COMPLETE AND FLAG_HASDIFF = 0"
  "FLAG_COMPLETE AND FLAG_CANUSEDIFF = 0" "FLAG_CANUSEDIFF AND FLAG_COMPLETE = 0"
  "FLAG_CANUSEDIFF AND FLAG_ZEROSIZE = 0" "FLAG_CANUSEDIFF AND FLAG_COMPRESSED = 0"
  "FLAG_COMPLETE \<noteq> 0" "FLAG_CANUSEDIFF \<noteq> 0"
  by (simp_all add: file_flags)

section \<open>Checksums\<close>

definition verify :: "string option \<Rightarrow> bool \<Rightarrow> bool \<Rightarrow> mcf_file \<Rightarrow> mcf_file" where
  "verify hash compressed useDiffs f =
     (let f = delFlag FLAG_COMPLETE f in
      case hash of
        None \<Rightarrow> f
      | Some h \<Rightarrow>
          if has_flag f FLAG_ZEROSIZE then addFlag FLAG_COMPLETE f
          else if compressed \<and> has_flag f FLAG_COMPRESSED then
            (if m_szCCsum f = h then addFlag FLAG_COMPLETE f else f)
          else if m_szCsum f = h then addFlag FLAG_COMPLETE f
          else if useDiffs \<and> m_llDiffSize f \<noteq> 0 \<and> m_szDiffOrgFileHash f = h
          then addFlag FLAG_CANUSEDIFF f
          else f)"

text \<open>The installed file: its path is the full path with no file split off again.\<close>

definition installed_name :: "mcf_file \<Rightarrow> string" where
  "installed_name f = getFullPath (Path_ctor (getFullPath_file f) [] True)"

definition verifyFile :: "(bytes \<Rightarrow> string) \<Rightarrow> fs \<Rightarrow> bool \<Rightarrow> mcf_file \<Rightarrow> mcf_file" where
  "verifyFile md5 disk useDiffs f =
     (let path = installed_name f in
      if HasAllFlags (ucast (m_uiFlags f)) (ucast FLAG_ZEROSIZE) then
        (if isValidFile disk path \<and> getFileSize disk path = 0 then addFlag FLAG_COMPLETE f
         else delFlag FLAG_COMPLETE f)
      else verify (Some (hashFile md5 disk path)) False useDiffs f)"

text \<open>
  The stored copy. \<open>stop n\<close> is the cancel flag at its n-th reading: twice for each piece read and once
  at the end.
\<close>

definition md5_piece :: "(nat \<Rightarrow> bool) \<Rightarrow> bytes \<Rightarrow> bytes \<times> nat \<Rightarrow> (bytes \<times> nat) \<times> bool" where
  "md5_piece stop d s =
     (case s of (seen, n) \<Rightarrow>
        ((if \<not> stop n \<and> d \<noteq> [] then seen @ d else seen, n + 2), stop (n + 1)))"

definition verifyMcf ::
  "(bytes \<Rightarrow> string) \<Rightarrow> (nat \<Rightarrow> bool) \<Rightarrow> fs \<Rightarrow> file_handle \<Rightarrow> mcf_file \<Rightarrow> (mcf_file \<times> file_handle) res" where
  "verifyMcf md5 stop disk h f =
     bind_res (fh_seek h (m_llOffset f)) (\<lambda>h.
     bind_res (fh_readCB disk h (unat (getCurSize f)) 10240 (md5_piece stop) ([], 0)) (\<lambda>((seen, n), h).
     if stop n then Inl ERR_USERCANCELED
     else Inr (verify (Some (md5 seen)) True False f, h)))"

definition delFile_file :: "fs \<Rightarrow> mcf_file \<Rightarrow> fs" where
  "delFile_file disk f = delFile disk (installed_name f)"

text \<open>Opening or hashing trouble counts as a mismatch; the hash found is returned besides the verdict.\<close>

definition hashCheckFile :: "(bytes \<Rightarrow> string) \<Rightarrow> fs \<Rightarrow> mcf_file \<Rightarrow> string option \<times> bool" where
  "hashCheckFile md5 disk f =
     (if m_szCsum f = [] then (None, False)
      else (case fh_open disk (Some (file_path f)) FILE_READ 0 of
              Inl _ \<Rightarrow> (None, False)
            | Inr (_, fh) \<Rightarrow>
                (let hash = fst (hashFile_handle md5 disk fh (m_iSize f))
                 in (Some hash, hash = m_szCsum f))))"

definition hashFile_file :: "(bytes \<Rightarrow> string) \<Rightarrow> fs \<Rightarrow> mcf_file \<Rightarrow> mcf_file" where
  "hashFile_file md5 disk f = setCsum (hashFile md5 disk (file_path f)) f"

definition generateMD5 ::
  "(bytes \<Rightarrow> string) \<Rightarrow> fs \<Rightarrow> file_handle \<Rightarrow> mcf_file \<Rightarrow> (mcf_file \<times> file_handle) res" where
  "generateMD5 md5 disk h f =
     bind_res (fh_seek h (m_llOffset f)) (\<lambda>h.
     (case hashFile_handle md5 disk h (getCurSize f) of
        (temp, h) \<Rightarrow> Inr (if isCompressed f then setCCsum temp f else setCsum temp f, h)))"

section \<open>CRC blocks\<close>

definition fix_block :: "mcf_file \<Rightarrow> mcf_file" where
  "fix_block f = (if m_iBlockSize f = 0 then f\<lparr>m_iBlockSize := DEFAULT_BLOCKSIZE\<rparr> else f)"

lemma getCurSize_crc [simp]: "getCurSize (f\<lparr>m_vCRCList := crcs\<rparr>) = getCurSize f"
  by (simp add: getCurSize_def isCompressed_def has_flag_def)

definition resetCRC :: "mcf_file \<Rightarrow> mcf_file" where
  "resetCRC f =
     (let f = f\<lparr>m_vCRCList := []\<rparr> in if isZeroSize f \<or> \<not> isSaved f then f else fix_block f)"

definition setCRC :: "u32 list \<Rightarrow> mcf_file \<Rightarrow> mcf_file" where
  "setCRC vCRCList f = f\<lparr>m_vCRCList := vCRCList\<rparr>"

text \<open>The loop of \<open>generateCRC\<close>, over the bytes that are left; \<open>bs\<close> is the block size.\<close>

function crc_blocks :: "fs \<Rightarrow> file_handle \<Rightarrow> nat \<Rightarrow> nat \<Rightarrow> u32 list \<Rightarrow> (u32 list \<times> file_handle) res" where
  "crc_blocks disk h bs left crcs =
     (if left = 0 \<or> bs = 0 then Inr (crcs, h)
      else
        let todo = (if bs > left then left else bs)
        in (case fh_read disk h todo of
              Inl e \<Rightarrow> Inl e
            | Inr (d, h') \<Rightarrow> crc_blocks disk h' bs (left - todo) (crcs @ [CRC32 d])))"
  by pat_completeness auto
termination
  by (relation "measure (\<lambda>(disk, h, bs, left, crcs). left)") (auto simp: Let_def)

declare crc_blocks.simps [simp del]

definition generateCRC :: "fs \<Rightarrow> file_handle \<Rightarrow> mcf_file \<Rightarrow> (mcf_file \<times> file_handle) res" where
  "generateCRC disk h f =
     (let f = f\<lparr>m_vCRCList := []\<rparr> in
      if isZeroSize f \<or> \<not> isSaved f then Inr (f, h)
      else
        let f = fix_block f in
        bind_res (fh_seek h (m_llOffset f)) (\<lambda>h.
        bind_res (crc_blocks disk h (unat (m_iBlockSize f)) (unat (getCurSize f)) []) (\<lambda>(crcs, h).
        Inr (f\<lparr>m_vCRCList := crcs\<rparr>, h))))"

text \<open>
  \<open>legacyBlockCheck\<close>: a block without a CRC counts as good unless it has 16 zero quads in a row or
  all its quads so far are zero at its end. \<open>count\<close> and \<open>quadSize\<close> as in the code.
\<close>

fun legacy_loop :: "nat \<Rightarrow> nat \<Rightarrow> bytes \<Rightarrow> bool" where
  "legacy_loop quadSize count (a # b # c # d # rest) =
     (let count = (if a = 0 \<and> b = 0 \<and> c = 0 \<and> d = 0 then Suc count else 0)
      in if count > 15 \<or> count \<ge> quadSize then False else legacy_loop quadSize count rest)"
| "legacy_loop quadSize count _ = True"

definition legacyBlockCheck :: "bytes \<Rightarrow> bool" where
  "legacyBlockCheck buff = legacy_loop (length buff div 4) 0 buff"

text \<open>
  One block. The offset of the block is computed in 32 bits; \<open>getCurSize() - offset\<close> wraps in 64. What
  the file position is afterwards matters to nobody: the next check seeks.
\<close>

definition crcCheck_block :: "fs \<Rightarrow> file_handle \<Rightarrow> u16 \<Rightarrow> mcf_file \<Rightarrow> bool res" where
  "crcCheck_block disk h blockId f =
     (if m_vCRCList f \<noteq> [] \<and> length (m_vCRCList f) \<le> unat blockId then Inr False
      else
        let offset = (ucast blockId :: u32) * m_iBlockSize f in
        bind_res (fh_seek h (m_llOffset f + ucast offset)) (\<lambda>h.
        let rest = getCurSize f - ucast offset;
            todo = (if ucast (m_iBlockSize f) > rest then (ucast rest :: u32) else m_iBlockSize f)
        in (case fh_read disk h (unat todo) of
              Inl _ \<Rightarrow> Inr False
            | Inr (buff, _) \<Rightarrow>
                Inr (if m_vCRCList f = [] then legacyBlockCheck buff
                     else CRC32 buff = m_vCRCList f ! unat blockId))))"

text \<open>All blocks: \<open>done\<close> has 32 bits and the block number 16. The loop need not end.\<close>

partial_function (option) crcCheck_loop ::
  "fs \<Rightarrow> file_handle \<Rightarrow> mcf_file \<Rightarrow> u32 \<Rightarrow> u16 \<Rightarrow> bool res option" where
  "crcCheck_loop disk h f dn x =
     (if (ucast dn :: u64) < getCurSize f then
        (case crcCheck_block disk h x f of
           Inl e \<Rightarrow> Some (Inl e)
         | Inr ok \<Rightarrow>
             if \<not> ok then Some (Inr False)
             else crcCheck_loop disk h f (dn + m_iBlockSize f) (x + 1))
      else Some (Inr True))"

definition crcCheck :: "fs \<Rightarrow> file_handle \<Rightarrow> mcf_file \<Rightarrow> bool res option" where
  "crcCheck disk h f = crcCheck_loop disk h f 0 0"

section \<open>What the checks tell\<close>

lemma isComplete_verify:
  "isComplete (verify (Some h) compressed useDiffs f) \<longleftrightarrow>
   has_flag f FLAG_ZEROSIZE
   \<or> (if compressed \<and> has_flag f FLAG_COMPRESSED then m_szCCsum f = h else m_szCsum f = h)"
proof -
  have fields: "m_szCCsum (delFlag a f) = m_szCCsum f" "m_szCsum (delFlag a f) = m_szCsum f" for a
    by (simp_all add: delFlag_def)
  show ?thesis
    by (auto simp: verify_def Let_def isComplete_def has_flag_add has_flag_del_other flag_simps fields)
qed

lemma verify_fields:
  "verify hash compressed useDiffs f = f\<lparr>m_uiFlags := m_uiFlags (verify hash compressed useDiffs f)\<rparr>"
  by (auto simp: verify_def Let_def addFlag_def delFlag_def split: option.splits)

lemma verify_other_flags:
  "FLAG_COMPLETE AND b = 0 \<Longrightarrow> FLAG_CANUSEDIFF AND b = 0 \<Longrightarrow>
   has_flag (verify hash compressed useDiffs f) b \<longleftrightarrow> has_flag f b"
  by (auto simp: verify_def Let_def has_flag_add has_flag_del_other split: option.splits)

lemma HasAllFlags_bit:
  fixes v k :: u16
  assumes "k = 2 ^ i" and "i < 16"
  shows "HasAllFlags (ucast v) (ucast k) \<longleftrightarrow> v AND k \<noteq> 0"
proof -
  have "(ucast v AND ucast k :: u32) = ucast (v AND k)"
    by (rule bit_word_eqI) (auto simp: bit_simps)
  then have "HasAllFlags (ucast v) (ucast k) \<longleftrightarrow> v AND k = k"
    unfolding HasAllFlags_def by (metis ucast_up_down(4))
  also have "\<dots> \<longleftrightarrow> v AND k \<noteq> 0"
  proof -
    have "v AND 2 ^ i = (if bit v i then 2 ^ i else 0)"
      by (rule bit_word_eqI) (auto simp: bit_simps)
    moreover have "(2 :: u16) ^ i \<noteq> 0" using assms(2) by auto
    ultimately show ?thesis unfolding assms(1) by simp
  qed
  finally show ?thesis .
qed

text \<open>
  Verifying an installed file marks it complete exactly when the digest computed for it is the listed one, or, for a file
  flagged as empty, when it is there and empty. A file that is missing has the digest \<open>-1\<close>, so one that
  lists this as its digest counts as complete without being there. Nothing but flags changes.
\<close>

lemma isComplete_verifyFile:
  "(isComplete (verifyFile md5 disk useDiffs f) \<longleftrightarrow>
    (if has_flag f FLAG_ZEROSIZE then \<exists>c. disk (installed_name f) = Some c \<and> length c mod 2 ^ 64 = 0
     else hashFile md5 disk (installed_name f) = m_szCsum f))
   \<and> (\<exists>flags. verifyFile md5 disk useDiffs f = f\<lparr>m_uiFlags := flags\<rparr>)"
proof -
  have zero: "HasAllFlags (ucast (m_uiFlags f)) (ucast FLAG_ZEROSIZE) \<longleftrightarrow> has_flag f FLAG_ZEROSIZE"
    unfolding has_flag_def by (rule HasAllFlags_bit [of _ 4]) (simp_all add: FLAG_ZEROSIZE_def)
  have empty: "isValidFile disk p \<and> getFileSize disk p = 0 \<longleftrightarrow> (\<exists>c. disk p = Some c \<and> length c mod 2 ^ 64 = 0)" for p
    by (auto simp: isValidFile_def getFileSize_def word_of_nat_eq_0_iff)
  show ?thesis
  proof (cases "has_flag f FLAG_ZEROSIZE")
    case True
    have "\<exists>flags. addFlag a f = f\<lparr>m_uiFlags := flags\<rparr>" "\<exists>flags. delFlag a f = f\<lparr>m_uiFlags := flags\<rparr>" for a
      by (auto simp: addFlag_def delFlag_def)
    with True show ?thesis
      by (auto simp: verifyFile_def zero empty Let_def isComplete_def has_flag_add flag_simps)
  next
    case False
    then show ?thesis
      using verify_fields [of _ False useDiffs f]
      by (auto simp: verifyFile_def zero Let_def isComplete_verify intro: exI)
  qed
qed

text \<open>Reading with a cancel flag that stays up once it is up: no verdict on a partial digest.\<close>

lemma md5_pieces:
  assumes "\<forall>i j. i \<le> j \<longrightarrow> stop i \<longrightarrow> stop j"
    and "fh_readCB disk h len b (md5_piece stop) (seen, n) = Inr ((seen', n'), h')" and "\<not> stop n'" and "0 < b"
  shows "n \<le> n' \<and> (\<exists>d. seen' = seen @ d \<and> d = take len (drop (fh_pos h) (fh_content disk h)) \<and> length d = len)"
  using assms(2-)
proof (induction len arbitrary: h b seen n rule: less_induct)
  case (less len)
  show ?case
  proof (cases "len = 0")
    case True
    with less.prems show ?thesis by (simp add: fh_readCB.simps [of disk h])
  next
    case False
    define k where "k = (if b > len then len else b)"
    have k: "0 < k" "k \<le> len" using less.prems(3) False by (auto simp: k_def)
    obtain x h1 where x: "fh_read disk h k = Inr (x, h1)"
      using less.prems(1,3) False by (subst (asm) fh_readCB.simps) (auto simp: Let_def simp flip: k_def split: sum.splits)
    from fh_read_Inr [OF x] have g: "get_bytes (fh_content disk h) (fh_pos h) k = Some x" "length x = k"
      and h1: "h1 = h\<lparr>fh_pos := fh_pos h + k\<rparr>" by auto
    let ?s = "(if \<not> stop n \<and> x \<noteq> [] then seen @ x else seen, n + 2)"
    have "\<not> stop (n + 1)"
    proof
      assume up: "stop (n + 1)"
      then have "n' = n + 2"
        using less.prems(1,3) False x
        by (subst (asm) fh_readCB.simps) (auto simp: Let_def md5_piece_def simp flip: k_def)
      with assms(1) [rule_format, of "n + 1" "n + 2"] up less.prems(2) show False by simp
    qed
    then have down: "\<not> stop n" using assms(1) [rule_format, of n "n + 1"] by auto
    have "fh_readCB disk h1 (len - k) k (md5_piece stop) (seen @ x, n + 2) = Inr ((seen', n'), h')"
      using less.prems(1,3) False x \<open>\<not> stop (n + 1)\<close> down g(2) k
      by (subst (asm) fh_readCB.simps) (auto simp: Let_def md5_piece_def simp flip: k_def)
    from less.IH [OF _ this less.prems(2)] k obtain d where "n + 2 \<le> n'" "seen' = (seen @ x) @ d"
      "d = take (len - k) (drop (fh_pos h + k) (fh_content disk h))" "length d = len - k"
      by (auto simp: h1 fh_content_def)
    moreover have "x = take k (drop (fh_pos h) (fh_content disk h))"
      using g(1) by (auto simp: get_bytes_def split: if_splits)
    moreover have "take len (drop (fh_pos h) (fh_content disk h)) = take k (drop (fh_pos h) (fh_content disk h))
        @ take (len - k) (drop (fh_pos h + k) (fh_content disk h))"
      using take_add [of k "len - k" "drop (fh_pos h) (fh_content disk h)"] k by (simp add: add.commute)
    ultimately show ?thesis
      using k g(2) by (intro conjI exI [of _ "x @ d"]) simp_all
  qed
qed

text \<open>
  Verifying the stored copy reads exactly the bytes of the file from its place in the archive and
  compares their digest with the checksum of what is stored. A run that is cancelled (the flag stays up
  once it is up) never gives a verdict on the bytes read so far.
\<close>

theorem verifyMcf_verdict:
  assumes "\<forall>i j. i \<le> j \<longrightarrow> stop i \<longrightarrow> stop j" and "verifyMcf md5 stop disk h f = Inr (f', h')"
  shows "\<exists>d. d = take (unat (getCurSize f)) (drop (unat (m_uiOffset h + m_llOffset f)) (fh_content disk h))
    \<and> length d = unat (getCurSize f)
    \<and> (isComplete f' \<longleftrightarrow> has_flag f FLAG_ZEROSIZE \<or>
         md5 d = (if has_flag f FLAG_COMPRESSED then m_szCCsum f else m_szCsum f))"
proof -
  from assms(2) obtain h1 seen n h2 where h1: "fh_seek h (m_llOffset f) = Inr h1"
    and r: "fh_readCB disk h1 (unat (getCurSize f)) 10240 (md5_piece stop) ([], 0) = Inr ((seen, n), h2)"
    and n: "\<not> stop n" and f': "f' = verify (Some (md5 seen)) True False f"
    by (auto simp: verifyMcf_def bind_res_Inr split: if_splits)
  from fh_seek_read [OF h1] have "fh_content disk h1 = fh_content disk h"
    "fh_pos h1 = unat (m_uiOffset h + m_llOffset f)" by (auto simp: fh_content_def)
  with md5_pieces [OF assms(1) r n] obtain d
    where "seen = d" "d = take (unat (getCurSize f)) (drop (unat (m_uiOffset h + m_llOffset f)) (fh_content disk h))"
      "length d = unat (getCurSize f)" by auto
  then show ?thesis by (intro exI [of _ d]) (auto simp: f' isComplete_verify)
qed

definition demo_file :: mcf_file where
  "demo_file = MCFFile_new\<lparr>m_szName := ''a'', m_szCsum := ''h'', m_iSize := 2, m_llOffset := 1\<rparr>"

definition demo_handle :: file_handle where
  "demo_handle = \<lparr>m_bIsOpen = True, fh_name = ''m'', fh_mode = FILE_READ, m_uiOffset = 0, fh_pos = 0\<rparr>"

theorem verifyMcf_verdict_witness:
  "\<exists>f' h'. verifyMcf (\<lambda>d. if d = [7, 8] then ''h'' else ''-'') (\<lambda>_. False) [''m'' \<mapsto> [6, 7, 8]] demo_handle demo_file
      = Inr (f', h') \<and> isComplete f'"
proof -
  let ?md5 = "\<lambda>d :: bytes. if d = [7, 8] then ''h'' else ''-''"
  obtain f' h' where r: "verifyMcf ?md5 (\<lambda>_. False) [''m'' \<mapsto> [6, 7, 8]] demo_handle demo_file = Inr (f', h')"
    by (simp add: verifyMcf_def demo_file_def demo_handle_def MCFFile_new_def fh_seek_def getCurSize_def
        isCompressed_def has_flag_def file_flags fh_readCB.simps fh_read_def fh_content_def get_bytes_def
        md5_piece_def Let_def)
  from verifyMcf_verdict [OF _ r] have "isComplete f'"
    by (simp add: demo_file_def demo_handle_def MCFFile_new_def getCurSize_def isCompressed_def has_flag_def
        file_flags fh_content_def)
  with r show ?thesis by blast
qed

section \<open>CRC blocks: what is generated passes, and what passes is right\<close>

fun chunks :: "nat \<Rightarrow> bytes \<Rightarrow> bytes list" where
  "chunks bs d = (if bs = 0 \<or> d = [] then [] else take bs d # chunks bs (drop bs d))"

declare chunks.simps [simp del]

lemma chunks_nth:
  "0 < bs \<Longrightarrow> i * bs < length d \<Longrightarrow>
   i < length (chunks bs d) \<and> chunks bs d ! i = take bs (drop (i * bs) d)"
proof (induction bs d arbitrary: i rule: chunks.induct)
  case (1 bs d)
  then have c: "chunks bs d = take bs d # chunks bs (drop bs d)"
    by (subst chunks.simps) auto
  show ?case
  proof (cases i)
    case 0
    then show ?thesis by (simp add: c)
  next
    case (Suc j)
    have "j * bs < length (drop bs d)" "d \<noteq> []" using "1.prems" Suc by auto
    with "1.prems"(1) "1.IH" [of j] have "j < length (chunks bs (drop bs d)) \<and>
        chunks bs (drop bs d) ! j = take bs (drop (j * bs) (drop bs d))" by simp
    then show ?thesis by (simp add: c Suc ac_simps)
  qed
qed

lemma chunks_bound: "0 < bs \<Longrightarrow> i < length (chunks bs d) \<Longrightarrow> i * bs < length d"
proof (induction bs d arbitrary: i rule: chunks.induct)
  case (1 bs d)
  have ne: "d \<noteq> []" using "1.prems" by (cases d) (auto simp: chunks.simps [of bs "[]"])
  then have c: "chunks bs d = take bs d # chunks bs (drop bs d)"
    using "1.prems"(1) by (subst chunks.simps) auto
  show ?case
  proof (cases i)
    case 0
    then show ?thesis using ne by simp
  next
    case (Suc j)
    with "1.prems" have "j * bs < length (drop bs d)" using ne c by (intro "1.IH") auto
    then show ?thesis using Suc by simp
  qed
qed

lemma crc_blocks_chunks:
  assumes "m_bIsOpen h" and "fh_mode h \<noteq> FILE_WRITE" and "0 < bs"
    and "get_bytes (fh_content disk h) (fh_pos h) len = Some d"
  shows "crc_blocks disk h bs len crcs
    = Inr (crcs @ map CRC32 (chunks bs d), h\<lparr>fh_pos := fh_pos h + len\<rparr>)"
  using assms
proof (induction len arbitrary: h d crcs rule: less_induct)
  case (less len)
  have len: "length d = len" using less.prems(4) by (auto simp: get_bytes_def split: if_splits)
  show ?case
  proof (cases "len = 0")
    case True
    with len show ?thesis by (simp add: crc_blocks.simps [of disk h] chunks.simps)
  next
    case False
    define k where "k = (if bs > len then len else bs)"
    have k: "0 < k" "k \<le> len" using less.prems(3) False by (auto simp: k_def)
    have dk: "take k d = take bs d" "drop k d = drop bs d" using len by (auto simp: k_def)
    have x: "get_bytes (fh_content disk h) (fh_pos h) k = Some (take k d)"
      and y: "get_bytes (fh_content disk h) (fh_pos h + k) (len - k) = Some (drop k d)"
      using less.prems(4) k get_bytes_split [of _ _ k "len - k" d] by auto
    have "crc_blocks disk (h\<lparr>fh_pos := fh_pos h + k\<rparr>) bs (len - k) (crcs @ [CRC32 (take k d)])
        = Inr ((crcs @ [CRC32 (take k d)]) @ map CRC32 (chunks bs (drop k d)),
               h\<lparr>fh_pos := fh_pos h + k, fh_pos := fh_pos h + k + (len - k)\<rparr>)"
      using less.prems k y by (subst less.IH) (simp_all add: fh_content_def)
    moreover have "chunks bs d = take k d # chunks bs (drop k d)"
      using less.prems(3) False len by (subst chunks.simps) (auto simp: dk)
    ultimately show ?thesis
      using less.prems False k x
      by (subst crc_blocks.simps) (simp add: fh_read_def Let_def flip: k_def)
  qed
qed

text \<open>The bytes of a file are in the archive: the range is there and offsets do not wrap.\<close>

definition stored_in :: "fs \<Rightarrow> file_handle \<Rightarrow> mcf_file \<Rightarrow> bytes \<Rightarrow> bool" where
  "stored_in disk h f d \<longleftrightarrow>
     m_bIsOpen h \<and> fh_mode h \<noteq> FILE_WRITE
     \<and> get_bytes (fh_content disk h) (unat (m_uiOffset h + m_llOffset f)) (unat (getCurSize f)) = Some d
     \<and> length (fh_content disk h) < 2 ^ 63"

text \<open>What one block is checked against.\<close>

definition block_ok :: "u32 list \<Rightarrow> nat \<Rightarrow> bytes \<Rightarrow> bool" where
  "block_ok crcs i c = (if crcs = [] then legacyBlockCheck c else i < length crcs \<and> CRC32 c = crcs ! i)"

lemma unat_ucast_32_64 [simp]: "unat (ucast (w :: u32) :: u64) = unat w"
  using unsigned_less [of w, where ?'a = nat] by (simp add: unsigned_ucast_eq take_bit_nat_eq_self)

lemma crcCheck_block_eval:
  assumes "stored_in disk h f d" and "0 < unat (m_iBlockSize f)" and "i < 65536"
    and "i * unat (m_iBlockSize f) < length d" and "i * unat (m_iBlockSize f) < 2 ^ 32"
  shows "crcCheck_block disk h (of_nat i) f
    = Inr (block_ok (m_vCRCList f) i (chunks (unat (m_iBlockSize f)) d ! i))"
proof -
  let ?bs = "unat (m_iBlockSize f)" and ?n = "unat (getCurSize f)"
  let ?base = "unat (m_uiOffset h + m_llOffset f)"
  let ?off = "(ucast (of_nat i :: u16) :: u32) * m_iBlockSize f"
  from assms(1) have open_h: "m_bIsOpen h" "fh_mode h \<noteq> FILE_WRITE"
    and g: "get_bytes (fh_content disk h) ?base ?n = Some d"
    and len: "length d = ?n" "?base + ?n < 2 ^ 63"
    by (auto simp: stored_in_def get_bytes_def split: if_splits)
  have i: "unat (of_nat i :: u16) = i" using assms(3) by (simp add: unat_of_nat take_bit_nat_eq_self)
  then have "unat (ucast (of_nat i :: u16) :: u32) = i"
    using assms(3) by (simp add: unsigned_ucast_eq take_bit_nat_eq_self)
  then have off: "unat ?off = i * ?bs"
    using assms(5) by (simp add: unat_mult_lem [THEN iffD1])
  then have off64: "unat (ucast ?off :: u64) = i * ?bs" by simp
  have pos: "unat (m_uiOffset h + (m_llOffset f + ucast ?off)) = ?base + i * ?bs"
  proof -
    have "unat (m_uiOffset h + m_llOffset f) + unat (ucast ?off :: u64) < 2 ^ LENGTH(64)"
      using len assms(4) off64 by simp
    then have "unat (m_uiOffset h + m_llOffset f + ucast ?off) = ?base + unat (ucast ?off :: u64)"
      by (rule unat_add_lem [THEN iffD1])
    then show ?thesis by (simp only: off64 add.assoc)
  qed
  have rest: "unat (getCurSize f - ucast ?off) = ?n - i * ?bs"
    using assms(4) len(1) off64 by (subst unat_sub) (simp_all add: word_le_nat_alt)
  define todo where "todo = (if (ucast (m_iBlockSize f) :: u64) > getCurSize f - ucast ?off
    then (ucast (getCurSize f - ucast ?off) :: u32) else m_iBlockSize f)"
  have todo: "unat todo = min ?bs (?n - i * ?bs)"
  proof (cases "?n - i * ?bs < ?bs")
    case True
    then have "unat (getCurSize f - ucast ?off) < 2 ^ 32"
      using rest unsigned_less [of "m_iBlockSize f", where ?'a = nat] by simp
    then have "unat (ucast (getCurSize f - ucast ?off) :: u32) = ?n - i * ?bs"
      using rest by (simp add: unsigned_ucast_eq take_bit_nat_eq_self)
    then show ?thesis using True rest by (simp add: todo_def word_less_nat_alt)
  next
    case False
    then show ?thesis using rest by (simp add: todo_def word_less_nat_alt)
  qed
  let ?h = "h\<lparr>fh_pos := ?base + i * ?bs\<rparr>"
  have seek: "fh_seek h (m_llOffset f + ucast ?off) = Inr ?h"
    using open_h pos len assms(4) by (simp add: fh_seek_def)
  have nth: "chunks ?bs d ! i = take ?bs (drop (i * ?bs) d)"
    using chunks_nth [OF assms(2,4)] by simp
  have "get_bytes (fh_content disk h) (?base + i * ?bs) (unat todo) = Some (take ?bs (drop (i * ?bs) d))"
    using g assms(4) len(1) todo by (auto simp: get_bytes_def drop_take min_def ac_simps split: if_splits)
  then have "fh_read disk ?h (unat todo) = Inr (chunks ?bs d ! i, ?h\<lparr>fh_pos := ?base + i * ?bs + unat todo\<rparr>)"
    using open_h todo assms(2,4) len(1) by (simp add: fh_read_def fh_content_def nth)
  then show ?thesis
    using seek by (simp add: crcCheck_block_def Let_def i block_ok_def flip: todo_def)
qed

lemma crcCheck_loop_eval:
  assumes "stored_in disk h f d" and "0 < unat (m_iBlockSize f)"
    and "length (chunks (unat (m_iBlockSize f)) d) * unat (m_iBlockSize f) < 2 ^ 32"
    and "length (chunks (unat (m_iBlockSize f)) d) \<le> 65536"
    and "i \<le> length (chunks (unat (m_iBlockSize f)) d)"
  shows "crcCheck_loop disk h f (of_nat (i * unat (m_iBlockSize f))) (of_nat i) =
    Some (Inr (\<forall>j\<in>{i ..< length (chunks (unat (m_iBlockSize f)) d)}.
      block_ok (m_vCRCList f) j (chunks (unat (m_iBlockSize f)) d ! j)))"
  using assms(5)
proof (induction "length (chunks (unat (m_iBlockSize f)) d) - i" arbitrary: i)
  case (0 i)
  let ?bs = "unat (m_iBlockSize f)"
  have i: "i = length (chunks ?bs d)" using 0 by simp
  have "\<not> i * ?bs < length d"
    using chunks_nth [OF assms(2), of i d] i by auto
  moreover have "length d = unat (getCurSize f)"
    using assms(1) by (auto simp: stored_in_def get_bytes_def split: if_splits)
  moreover have "unat (of_nat (i * ?bs) :: u32) = i * ?bs"
    unfolding i unat_of_nat by (rule mod_less) (use assms(3) in simp)
  ultimately have "\<not> (ucast (of_nat (i * ?bs) :: u32) :: u64) < getCurSize f"
    by (simp add: word_less_nat_alt del: of_nat_mult)
  then show ?case
    by (subst crcCheck_loop.simps) (simp add: i del: of_nat_mult)
next
  case (Suc k i)
  let ?bs = "unat (m_iBlockSize f)"
  have i: "i < length (chunks ?bs d)" using Suc(2) by simp
  then have ib: "i * ?bs < length d" by (rule chunks_bound [OF assms(2)])
  have "i * ?bs \<le> length (chunks ?bs d) * ?bs" using i by simp
  then have i32: "i * ?bs < 2 ^ 32" using assms(3) by linarith
  have n: "length d = unat (getCurSize f)"
    using assms(1) by (auto simp: stored_in_def get_bytes_def split: if_splits)
  have "unat (of_nat (i * ?bs) :: u32) = i * ?bs"
    unfolding unat_of_nat by (rule mod_less) (use i32 in simp)
  then have less: "(ucast (of_nat (i * ?bs) :: u32) :: u64) < getCurSize f"
    using ib n by (simp add: word_less_nat_alt del: of_nat_mult)
  have block: "crcCheck_block disk h (of_nat i) f = Inr (block_ok (m_vCRCList f) i (chunks ?bs d ! i))"
    using i assms(4) by (intro crcCheck_block_eval [OF assms(1,2) _ ib i32]) simp
  have next_args: "of_nat (i * ?bs) + m_iBlockSize f = (of_nat (Suc i * ?bs) :: u32)"
    "of_nat i + 1 = (of_nat (Suc i) :: u16)"
    by simp_all
  have range: "{i ..< length (chunks ?bs d)} = insert i {Suc i ..< length (chunks ?bs d)}"
    using i by auto
  have IH: "crcCheck_loop disk h f (of_nat (Suc i * ?bs)) (of_nat (Suc i)) =
      Some (Inr (\<forall>j\<in>{Suc i ..< length (chunks ?bs d)}. block_ok (m_vCRCList f) j (chunks ?bs d ! j)))"
    using Suc(2) i by (intro Suc(1)) simp_all
  show ?case
    by (subst crcCheck_loop.simps) (simp only: less block next_args IH range, simp)
qed

text \<open>
  C38: For a file whose stored copy is in the archive, with a block size above 0, at most 65536 blocks and a number of blocks that,
  times the block size, is below 2^32: the check of all CRC blocks ends and succeeds exactly when every block is listed with
  its CRC or, when there is no list at all, passes the check for blocks without a list (\<open>legacyBlockCheck\<close>).
\<close>

theorem crcCheck_verdict:
  assumes "stored_in disk h f d" and "0 < unat (m_iBlockSize f)"
    and "length (chunks (unat (m_iBlockSize f)) d) * unat (m_iBlockSize f) < 2 ^ 32"
    and "length (chunks (unat (m_iBlockSize f)) d) \<le> 65536"
  shows "crcCheck disk h f = Some (Inr (\<forall>j\<in>{0 ..< length (chunks (unat (m_iBlockSize f)) d)}.
      block_ok (m_vCRCList f) j (chunks (unat (m_iBlockSize f)) d ! j)))"
  using crcCheck_loop_eval [OF assms, of 0] by (simp add: crcCheck_def)

theorem crcCheck_verdict_witness:
  "crcCheck [''m'' \<mapsto> [6, 7, 8]] demo_handle (demo_file\<lparr>m_vCRCList := []\<rparr>) = Some (Inr True)"
proof -
  have "unat (524288 :: u32) = 524288" by simp
  then have chunks: "chunks 524288 [7, 8 :: u8] = [[7, 8]]" by (simp add: chunks.simps)
  show ?thesis
    by (subst crcCheck_verdict [where d = "[7, 8]"])
       (simp_all add: stored_in_def demo_handle_def demo_file_def MCFFile_new_def getCurSize_def
         isCompressed_def has_flag_def file_flags fh_content_def get_bytes_def DEFAULT_BLOCKSIZE_def
         chunks block_ok_def legacyBlockCheck_def)
qed

text \<open>
  Generating the CRC list of a stored file below 4 GiB and checking the file against it succeeds.
\<close>

theorem generateCRC_passes:
  assumes "stored_in disk h f d" and "isSaved f" and "\<not> isZeroSize f" and "g = fix_block f"
    and "length (chunks (unat (m_iBlockSize g)) d) * unat (m_iBlockSize g) < 2 ^ 32"
    and "length (chunks (unat (m_iBlockSize g)) d) \<le> 65536"
    and "generateCRC disk h f = Inr (f', h')"
  shows "crcCheck disk h f' = Some (Inr True)
    \<and> m_vCRCList f' = map CRC32 (chunks (unat (m_iBlockSize g)) d)"
proof -
  let ?bs = "unat (m_iBlockSize g)"
  let ?g = "fix_block (f\<lparr>m_vCRCList := []\<rparr>)"
  have g: "m_iBlockSize ?g = m_iBlockSize g" "getCurSize ?g = getCurSize f" "m_llOffset ?g = m_llOffset f"
    by (simp_all add: assms(4) fix_block_def getCurSize_def isCompressed_def has_flag_def)
  have bs: "0 < ?bs"
    by (simp add: assms(4) fix_block_def DEFAULT_BLOCKSIZE_def unat_gt_0)
  have flags: "isZeroSize (f\<lparr>m_vCRCList := []\<rparr>) = isZeroSize f" "isSaved (f\<lparr>m_vCRCList := []\<rparr>) = isSaved f"
    by (simp_all add: isZeroSize_def isSaved_def has_flag_def)
  from assms(1) have st: "m_bIsOpen h" "fh_mode h \<noteq> FILE_WRITE"
    "get_bytes (fh_content disk h) (unat (m_uiOffset h + m_llOffset f)) (unat (getCurSize f)) = Some d"
    by (auto simp: stored_in_def)
  from assms(7) obtain h1 where h1: "fh_seek h (m_llOffset f) = Inr h1"
    and f': "bind_res (crc_blocks disk h1 ?bs (unat (getCurSize f)) []) (\<lambda>(crcs, h). Inr (?g\<lparr>m_vCRCList := crcs\<rparr>, h))
      = Inr (f', h')"
    by (auto simp: generateCRC_def Let_def flags assms(2,3) g bind_res_Inr)
  have "crc_blocks disk h1 ?bs (unat (getCurSize f)) []
      = Inr ([] @ map CRC32 (chunks ?bs d), h1\<lparr>fh_pos := fh_pos h1 + unat (getCurSize f)\<rparr>)"
    using fh_seek_read [OF h1] st bs by (intro crc_blocks_chunks) (simp_all add: fh_content_def)
  with f' have f'_eq: "f' = ?g\<lparr>m_vCRCList := map CRC32 (chunks ?bs d)\<rparr>" by simp
  then have same: "m_iBlockSize f' = m_iBlockSize g" "getCurSize f' = getCurSize f" "m_llOffset f' = m_llOffset f"
    using g by simp_all
  then have "stored_in disk h f' d" using assms(1) by (simp add: stored_in_def)
  then have "crcCheck_loop disk h f' (of_nat (0 * unat (m_iBlockSize f'))) (of_nat 0) =
      Some (Inr (\<forall>j\<in>{0 ..< length (chunks ?bs d)}. block_ok (m_vCRCList f') j (chunks ?bs d ! j)))"
    using bs assms(5,6) same(1) crcCheck_loop_eval [of disk h f' d 0] by simp
  moreover have "block_ok (m_vCRCList f') j (chunks ?bs d ! j)" if "j < length (chunks ?bs d)" for j
    using that by (auto simp: f'_eq block_ok_def)
  ultimately show ?thesis by (simp add: crcCheck_def f'_eq)
qed

theorem generateCRC_passes_witness:
  "\<exists>f' h'. generateCRC [''m'' \<mapsto> [6, 7, 8]] demo_handle demo_file = Inr (f', h')
    \<and> crcCheck [''m'' \<mapsto> [6, 7, 8]] demo_handle f' = Some (Inr True)"
proof -
  have n: "unat (524288 :: u32) = 524288" by simp
  then have chunks: "chunks 524288 [7, 8 :: u8] = [[7, 8]]" by (simp add: chunks.simps)
  have flags: "isSaved demo_file" "\<not> isZeroSize demo_file" "fix_block demo_file = demo_file"
    "m_iBlockSize demo_file = 524288" "unat (getCurSize demo_file) = 2" "m_llOffset demo_file = 1"
    "demo_file\<lparr>m_vCRCList := []\<rparr> = demo_file"
    by (simp_all add: demo_file_def MCFFile_new_def isSaved_def isZeroSize_def has_flag_def file_flags
        fix_block_def DEFAULT_BLOCKSIZE_def getCurSize_def isCompressed_def)
  have st: "stored_in [''m'' \<mapsto> [6, 7, 8]] demo_handle demo_file [7, 8]"
    by (simp add: stored_in_def demo_handle_def flags fh_content_def get_bytes_def)
  have seek: "fh_seek demo_handle 1 = Inr (demo_handle\<lparr>fh_pos := 1\<rparr>)"
    by (simp add: fh_seek_def demo_handle_def)
  have blocks: "crc_blocks [''m'' \<mapsto> [6, 7, 8]] (demo_handle\<lparr>fh_pos := 1\<rparr>) 524288 2 []
      = Inr ([] @ map CRC32 (chunks 524288 [7, 8]), demo_handle\<lparr>fh_pos := 1, fh_pos := 1 + 2\<rparr>)"
    by (subst crc_blocks_chunks [where d = "[7, 8]"])
       (simp_all add: demo_handle_def fh_content_def get_bytes_def)
  obtain f' h' where r: "generateCRC [''m'' \<mapsto> [6, 7, 8]] demo_handle demo_file = Inr (f', h')"
    by (simp add: generateCRC_def flags Let_def seek blocks del: One_nat_def)
  from generateCRC_passes [OF st flags(1,2) refl _ _ r] show ?thesis
    using r by (simp add: flags n chunks)
qed

text \<open>
  A stored copy of 4 GiB or more never passes the check of all its blocks: the 32-bit count of bytes
  done stays below its size, so the loop ends with a failed block or not at all.
\<close>

theorem crcCheck_large_fails:
  "2 ^ 32 \<le> unat (getCurSize f) \<Longrightarrow> crcCheck disk h f \<noteq> Some (Inr True)"
proof
  assume big: "2 ^ 32 \<le> unat (getCurSize f)" and "crcCheck disk h f = Some (Inr True)"
  have small: "(ucast (dn :: u32) :: u64) < getCurSize f" for dn
    using big unsigned_less [of dn, where ?'a = nat] by (simp add: word_less_nat_alt)
  have "getCurSize f' = getCurSize f \<longrightarrow> y \<noteq> Inr True"
    if "crcCheck_loop disk' h' f' dn x = Some y" for disk' h' f' dn x y
    using crcCheck_loop.raw_induct
        [where P = "\<lambda>disk h f' dn x y. getCurSize f' = getCurSize f \<longrightarrow> y \<noteq> Inr True"
         and xa = "((((disk', h'), f'), dn), x)" and y = y] small that
    by (fastforce split: if_splits sum.splits)
  from this [of disk h f 0 0 "Inr True"] \<open>crcCheck disk h f = Some (Inr True)\<close> show False
    by (simp add: crcCheck_def)
qed

theorem crcCheck_large_fails_witness:
  "crcCheck Map.empty demo_handle (demo_file\<lparr>m_iSize := 2 ^ 32\<rparr>) \<noteq> Some (Inr True)"
  by (rule crcCheck_large_fails)
     (simp add: demo_file_def MCFFile_new_def getCurSize_def isCompressed_def has_flag_def file_flags)

end
