(* ===== verification/Mcf_Index.thy ===== *)
theory Mcf_Index
  imports Mcf_Check
begin

text \<open>
  The archive object: \<^verbatim>\<open>src/src/shared/mcfcore/code/mcf/MCF.cpp\<close> and \<^verbatim>\<open>MCF.h\<close>. The file list holds files, not
  pointers to them (no caller adds a null one); the cancel flag is read as it stands when an operation
  starts; progress events and debug output are left out. \<open>std::sort\<close> is a parameter, the interface
  \<open>hash_sort\<close> says what it does.
\<close>

unbundle bit_operations_syntax

section \<open>State\<close>

record mcf_thread =
  th_paused :: bool
  th_stopped :: bool

record mcf =
  m_uiWCount :: u16
  m_szFile :: string
  m_bStopped :: bool
  m_bPaused :: bool
  m_iLastSorted :: u32
  m_uiFileOffset :: u64
  m_pTHandle :: "mcf_thread option"
  m_sHeader :: UMcfHeader
  m_pFileList :: "mcf_file list"
  m_pMCFServerCon :: "bool option"

definition setWorkerCount :: "u8 \<Rightarrow> u16 \<Rightarrow> mcf \<Rightarrow> mcf" where
  "setWorkerCount coreCount count m =
     m\<lparr>m_uiWCount := (if count = 0 then ucast coreCount else count)\<rparr>"

definition MCF_new :: "u8 \<Rightarrow> mcf" where
  "MCF_new coreCount =
     setWorkerCount coreCount 0
       \<lparr>m_uiWCount = 0, m_szFile = [], m_bStopped = False, m_bPaused = False, m_iLastSorted = 0,
        m_uiFileOffset = 0, m_pTHandle = None, m_sHeader = UMcfHeader_new, m_pFileList = [],
        m_pMCFServerCon = None\<rparr>"

definition disableCompression :: "mcf \<Rightarrow> mcf" where
  "disableCompression m = m\<lparr>m_sHeader := header_addFlags FLAG_NOTCOMPRESSED (m_sHeader m)\<rparr>"

definition mcf_isCompressed :: "mcf \<Rightarrow> bool" where
  "mcf_isCompressed m \<longleftrightarrow> m_iFlags (m_sHeader m) AND FLAG_NOTCOMPRESSED = 0"

definition PathWithFile :: "string \<Rightarrow> string" where
  "PathWithFile path = getFullPath (Path_ctor path [] True)"

definition setFile :: "string \<Rightarrow> mcf \<Rightarrow> mcf" where
  "setFile file m = m\<lparr>m_szFile := PathWithFile file\<rparr>"

definition setFile_offset :: "string \<Rightarrow> u64 \<Rightarrow> mcf \<Rightarrow> mcf" where
  "setFile_offset file offset m = m\<lparr>m_szFile := file, m_uiFileOffset := offset\<rparr>"

definition setHeader :: "UMcfHeader option \<Rightarrow> mcf \<Rightarrow> mcf" where
  "setHeader head m = (case head of None \<Rightarrow> m | Some h \<Rightarrow> m\<lparr>m_sHeader := UMcfHeader_copy (Some h)\<rparr>)"

definition setHeader_id :: "DesuraId \<Rightarrow> MCFBranch \<Rightarrow> MCFBuild \<Rightarrow> mcf \<Rightarrow> mcf" where
  "setHeader_id i branch build m =
     m\<lparr>m_sHeader := (m_sHeader m)\<lparr>m_iBranch := branch, m_iType := m_uiType i, m_iBuild := build,
         m_iId := m_uiItemId i\<rparr>\<rparr>"

definition mcf_pause :: "mcf \<Rightarrow> mcf" where
  "mcf_pause m =
     (if m_bPaused m then m
      else m\<lparr>m_pTHandle := map_option (\<lambda>t. t\<lparr>th_paused := True\<rparr>) (m_pTHandle m), m_bPaused := True\<rparr>)"

definition mcf_unpause :: "mcf \<Rightarrow> mcf" where
  "mcf_unpause m =
     (if \<not> m_bPaused m then m
      else m\<lparr>m_pTHandle := map_option (\<lambda>t. t\<lparr>th_paused := False\<rparr>) (m_pTHandle m), m_bPaused := False\<rparr>)"

definition mcf_stop :: "mcf \<Rightarrow> mcf" where
  "mcf_stop m =
     (if m_bStopped m then m
      else m\<lparr>m_bStopped := True,
             m_pTHandle := map_option (\<lambda>t. if th_stopped t then t else t\<lparr>th_stopped := True\<rparr>) (m_pTHandle m),
             m_pMCFServerCon := map_option (\<lambda>_. True) (m_pMCFServerCon m)\<rparr>)"

section \<open>Sizes and the list\<close>

definition getDLSize :: "mcf \<Rightarrow> u64" where
  "getDLSize m =
     fold (\<lambda>f sz. if \<not> isSaved f then sz
        else sz + getCurSize f + (if hasDiff f then m_llDiffSize f else 0)) (m_pFileList m) 0"

definition getINSize :: "mcf \<Rightarrow> u64" where
  "getINSize m = fold (\<lambda>f sz. sz + m_iSize f) (m_pFileList m) 0"

definition getFileSize_mcf :: "mcf \<Rightarrow> u64" where
  "getFileSize_mcf m = fold (\<lambda>f sz. if \<not> isSaved f then sz else sz + m_iSize f) (m_pFileList m) 0"

definition addFile :: "mcf_file \<Rightarrow> mcf \<Rightarrow> mcf" where
  "addFile f m = m\<lparr>m_pFileList := m_pFileList m @ [f]\<rparr>"

definition getFileCount :: "mcf \<Rightarrow> u32" where
  "getFileCount m = of_nat (length (m_pFileList m))"

definition getFile :: "mcf \<Rightarrow> u32 \<Rightarrow> mcf_file option" where
  "getFile m i =
     (if length (m_pFileList m) \<le> unat i then None else Some (m_pFileList m ! unat i))"

type_synonym sorter = "mcf_file list \<Rightarrow> mcf_file list"

definition sortFileList :: "sorter \<Rightarrow> mcf \<Rightarrow> mcf" where
  "sortFileList srt m =
     m\<lparr>m_pFileList := srt (m_pFileList m), m_iLastSorted := of_nat (length (srt (m_pFileList m)))\<rparr>"

fun find_index :: "('a \<Rightarrow> bool) \<Rightarrow> 'a list \<Rightarrow> nat option" where
  "find_index P [] = None"
| "find_index P (x # xs) = (if P x then Some 0 else map_option Suc (find_index P xs))"

definition findFileIndexByHash :: "mcf \<Rightarrow> u64 \<Rightarrow> u32" where
  "findFileIndexByHash m hash =
     (case find_index (\<lambda>f. m_iHash f = hash) (m_pFileList m) of None \<Rightarrow> UNKNOWN_ITEM | Some i \<Rightarrow> of_nat i)"

lemma find_index_Some:
  "find_index P xs = Some i \<longleftrightarrow> i < length xs \<and> P (xs ! i) \<and> (\<forall>j<i. \<not> P (xs ! j))"
proof (induction xs arbitrary: i)
  case (Cons x xs)
  show ?case
  proof (cases i)
    case 0
    then show ?thesis by simp
  next
    case (Suc k)
    then show ?thesis using Cons by (auto simp: less_Suc_eq_0_disj)
  qed
qed simp

lemma find_index_None: "find_index P xs = None \<longleftrightarrow> (\<forall>x\<in>set xs. \<not> P x)"
  by (induction xs) auto

text \<open>A list shorter than \<open>UNKNOWN_ITEM\<close>: indexes and the marker do not mix.\<close>

lemma findFileIndexByHash_cases:
  assumes "length (m_pFileList m) < 2 ^ 32 - 1"
  shows "findFileIndexByHash m hash = UNKNOWN_ITEM \<longleftrightarrow> (\<forall>f\<in>set (m_pFileList m). m_iHash f \<noteq> hash)"
    and "findFileIndexByHash m hash \<noteq> UNKNOWN_ITEM \<Longrightarrow>
      \<exists>i < length (m_pFileList m). unat (findFileIndexByHash m hash) = i
        \<and> m_iHash (m_pFileList m ! i) = hash \<and> (\<forall>j<i. m_iHash (m_pFileList m ! j) \<noteq> hash)"
proof -
  have nat: "unat (of_nat i :: u32) = i" if "i < length (m_pFileList m)" for i
    using that assms by (simp add: unat_of_nat take_bit_nat_eq_self)
  have ne: "(of_nat i :: u32) \<noteq> UNKNOWN_ITEM" if "i < length (m_pFileList m)" for i
  proof
    assume "(of_nat i :: u32) = UNKNOWN_ITEM"
    then have "unat (of_nat i :: u32) = 2 ^ 32 - 1" by (simp add: UNKNOWN_ITEM_def)
    with nat [OF that] that assms show False by simp
  qed
  let ?r = "find_index (\<lambda>f. m_iHash f = hash) (m_pFileList m)"
  show "findFileIndexByHash m hash = UNKNOWN_ITEM \<longleftrightarrow> (\<forall>f\<in>set (m_pFileList m). m_iHash f \<noteq> hash)"
  proof (cases ?r)
    case None
    then show ?thesis by (simp add: findFileIndexByHash_def) (simp add: find_index_None)
  next
    case (Some i)
    then have "i < length (m_pFileList m) \<and> m_iHash (m_pFileList m ! i) = hash"
      by (simp add: find_index_Some)
    then show ?thesis using Some ne by (auto simp: findFileIndexByHash_def)
  qed
  show "\<exists>i < length (m_pFileList m). unat (findFileIndexByHash m hash) = i
        \<and> m_iHash (m_pFileList m ! i) = hash \<and> (\<forall>j<i. m_iHash (m_pFileList m ! j) \<noteq> hash)"
    if "findFileIndexByHash m hash \<noteq> UNKNOWN_ITEM"
  proof (cases ?r)
    case None
    with that show ?thesis by (simp add: findFileIndexByHash_def)
  next
    case (Some i)
    then have i: "i < length (m_pFileList m)" "m_iHash (m_pFileList m ! i) = hash"
      "\<forall>j<i. m_iHash (m_pFileList m ! j) \<noteq> hash"
      by (simp_all add: find_index_Some)
    moreover have "unat (findFileIndexByHash m hash) = i"
      using Some nat [OF i(1)] by (simp add: findFileIndexByHash_def)
    ultimately show ?thesis by blast
  qed
qed

section \<open>XML\<close>

text \<open>\<open>parseXml\<close>: \<open>root\<close> is the root element the parser finds.\<close>

definition parseXml :: "xml option \<Rightarrow> mcf \<Rightarrow> mcf res" where
  "parseXml root m =
     (if m_bStopped m then Inr m
      else (case root of
              Some r \<Rightarrow>
                if xml_name r = ''files'' then
                  Inr (m\<lparr>m_pFileList := m_pFileList m
                         @ map (\<lambda>e. loadXmlData e MCFFile_new) (for_each_child r ''file'')\<rparr>)
                else Inl ERR_XML_NOPRIMENODE
            | None \<Rightarrow> Inl ERR_XML_NOPRIMENODE))"

text \<open>The pieces \<open>genXml\<close> hands to the writer, one piece per file body.\<close>

definition xml_declaration :: string where
  "xml_declaration =
     ''<?xml version='' @ [CHR 0x22] @ ''1.0'' @ [CHR 0x22] @ '' encoding='' @ [CHR 0x22] @ ''UTF-8''
     @ [CHR 0x22] @ ''?>''"

definition genXml :: "mcf \<Rightarrow> string list" where
  "genXml m =
     [xml_declaration, ''<files>'']
     @ concat (map (\<lambda>f. [''<file>'', genXml_file f, ''</file>'']) (m_pFileList m)) @ [''</files>'']"

definition files_elem :: "mcf_file list \<Rightarrow> xml" where
  "files_elem fs = Elem ''files'' [] None (map file_elem fs)"

lemma genXml_prints: "concat (genXml m) = xml_declaration @ print_xml (files_elem (m_pFileList m))"
proof -
  have "concat (concat (map (\<lambda>f. [''<file>'', genXml_file f, ''</file>'']) fs))
      = concat (map (\<lambda>f. print_xml (file_elem f)) fs)" for fs
    by (induction fs) (simp_all add: file_elem_def print_file_elems)
  then show ?thesis by (simp add: genXml_def files_elem_def comp_def)
qed

lemma parseXml_files:
  assumes "\<forall>f\<in>set fs. file_canonical f" and "\<not> m_bStopped m" and "m_pFileList m = []"
  shows "parseXml (Some (files_elem fs)) m = Inr (m\<lparr>m_pFileList := fs\<rparr>)"
proof -
  have "map (\<lambda>e. loadXmlData e MCFFile_new) (filter (\<lambda>c. xml_name c = ''file'') (map file_elem fs)) = fs"
    using assms(1) by (induction fs) (simp_all add: load_file_elem, simp add: file_elem_def)
  then show ?thesis using assms(2,3) by (simp add: parseXml_def files_elem_def for_each_child_def)
qed

end
