(* ===== verification/Mcf_Verify.thy ===== *)
theory Mcf_Verify
  imports Mcf_Index
begin

text \<open>
  Operations of \<^verbatim>\<open>MCF.cpp\<close> that walk the file list: verification of the archive and of an installation,
  removal, hashing and the bookkeeping of the saved and complete flags. An operation that throws after
  it changed the archive object returns both the object and the error.
\<close>

unbundle bit_operations_syntax

section \<open>The archive\<close>

definition getReadHandle :: "fs \<Rightarrow> mcf \<Rightarrow> file_handle res" where
  "getReadHandle disk m =
     bind_res (fh_open disk (Some (m_szFile m)) FILE_READ (m_uiFileOffset m)) (\<lambda>(_, h). Inr h)"

text \<open>
  The loop of \<open>verifyMCF\<close>: a file whose check throws keeps the flags it had. Every check seeks first, so
  the position an earlier one left the handle at does not matter.
\<close>

fun verify_loop :: "(bytes \<Rightarrow> string) \<Rightarrow> fs \<Rightarrow> file_handle \<Rightarrow> bool \<Rightarrow> mcf_file list \<Rightarrow> mcf_file list \<times> bool" where
  "verify_loop md5 disk h stopped [] = ([], True)"
| "verify_loop md5 disk h stopped (f # fs) =
     (if stopped then (f # fs, False)
      else if \<not> isSaved f then
        (case verify_loop md5 disk h stopped fs of (fs', c) \<Rightarrow> (f # fs', c))
      else
        let f' = (case verifyMcf md5 (\<lambda>_. stopped) disk h f of Inl _ \<Rightarrow> f | Inr (f', _) \<Rightarrow> f')
        in (case verify_loop md5 disk h stopped fs of (fs', c) \<Rightarrow> (f' # fs', isComplete f' \<and> c)))"

definition verifyMCF :: "(bytes \<Rightarrow> string) \<Rightarrow> fs \<Rightarrow> mcf \<Rightarrow> mcf \<times> bool res" where
  "verifyMCF md5 disk m =
     (let m1 = m\<lparr>m_sHeader := header_addFlags FLAG_NONVERIFYED (m_sHeader m)\<rparr> in
      case getReadHandle disk m of
        Inl e \<Rightarrow> (m1, Inl e)
      | Inr hFile \<Rightarrow>
          (case verify_loop md5 disk hFile (m_bStopped m) (m_pFileList m) of
             (fs, complete) \<Rightarrow>
               (m1\<lparr>m_pFileList := fs,
                   m_sHeader := (if complete then header_delFlags FLAG_NONVERIFYED (m_sHeader m1)
                                 else m_sHeader m1)\<rparr>,
                Inr complete)))"

text \<open>\<open>crcCheck\<close> of every file with a CRC list; it may not end.\<close>

fun crc_all :: "fs \<Rightarrow> file_handle \<Rightarrow> mcf_file list \<Rightarrow> bool \<Rightarrow> bool res option" where
  "crc_all disk h [] ok = Some (Inr ok)"
| "crc_all disk h (f # fs) ok =
     (if m_vCRCList f = [] then crc_all disk h fs ok
      else (case crcCheck disk h f of
              None \<Rightarrow> None
            | Some (Inl e) \<Rightarrow> Some (Inl e)
            | Some (Inr good_file) \<Rightarrow> crc_all disk h fs (if good_file then ok else False)))"

definition mcf_crcCheck :: "fs \<Rightarrow> mcf \<Rightarrow> bool res option" where
  "mcf_crcCheck disk m =
     (case getReadHandle disk m of Inl e \<Rightarrow> Some (Inl e) | Inr h \<Rightarrow> crc_all disk h (m_pFileList m) True)"

text \<open>\<open>makeCRC\<close> up to the saving of the header, which is in \<open>Mcf_Save\<close>.\<close>

fun crc_generate_all :: "fs \<Rightarrow> file_handle \<Rightarrow> mcf_file list \<Rightarrow> (mcf_file list) res" where
  "crc_generate_all disk h [] = Inr []"
| "crc_generate_all disk h (f # fs) =
     bind_res (if \<not> isSaved f then Inr f else bind_res (generateCRC disk h f) (\<lambda>(f', _). Inr f'))
       (\<lambda>f'. bind_res (crc_generate_all disk h fs) (\<lambda>fs'. Inr (f' # fs')))"

section \<open>The installation\<close>

text \<open>One file: the complete flag is saved, used for the check and put back.\<close>

definition verify_installed :: "(bytes \<Rightarrow> string) \<Rightarrow> fs \<Rightarrow> string \<Rightarrow> bool \<Rightarrow> bool \<Rightarrow> mcf_file \<Rightarrow> mcf_file \<times> bool" where
  "verify_installed md5 disk path flagMissing useDiffs f =
     (let wasComplete = isComplete f;
          f = delFlag FLAG_COMPLETE f;
          f = setDir [] (verifyFile md5 disk useDiffs (setDir path f));
          ok = isComplete f;
          f = (if flagMissing then (if ok then delFlag FLAG_SAVE f else addFlag FLAG_SAVE f) else f);
          f = delFlag FLAG_COMPLETE f;
          f = (if wasComplete then addFlag FLAG_COMPLETE f else f)
      in (f, ok))"

fun install_loop :: "(bytes \<Rightarrow> string) \<Rightarrow> fs \<Rightarrow> string \<Rightarrow> bool \<Rightarrow> bool \<Rightarrow> bool \<Rightarrow> mcf_file list \<Rightarrow> mcf_file list \<times> bool" where
  "install_loop md5 disk path flagMissing useDiffs stopped [] = ([], True)"
| "install_loop md5 disk path flagMissing useDiffs stopped (f # fs) =
     (if stopped then (f # fs, False)
      else (case verify_installed md5 disk path flagMissing useDiffs f of
              (f', ok) \<Rightarrow>
                (case install_loop md5 disk path flagMissing useDiffs stopped fs of
                   (fs', c) \<Rightarrow> (f' # fs', ok \<and> c))))"

definition verifyInstall ::
  "(bytes \<Rightarrow> string) \<Rightarrow> fs \<Rightarrow> string option \<Rightarrow> bool \<Rightarrow> bool \<Rightarrow> mcf \<Rightarrow> (mcf \<times> bool) res" where
  "verifyInstall md5 disk path flagMissing useDiffs m =
     (case path of
        None \<Rightarrow> Inl ERR_BADPATH
      | Some p \<Rightarrow>
          (case install_loop md5 disk p flagMissing useDiffs (m_bStopped m) (m_pFileList m) of
             (fs, c) \<Rightarrow> Inr (m\<lparr>m_pFileList := fs\<rparr>, c)))"

text \<open>\<open>removeFiles\<close>: the files go; removing empty folders afterwards does not touch files.\<close>

definition removeFiles :: "fs \<Rightarrow> string option \<Rightarrow> bool \<Rightarrow> mcf \<Rightarrow> (fs \<times> mcf) res" where
  "removeFiles disk szPath removeNonSave m =
     (case szPath of
        None \<Rightarrow> Inl ERR_BADPATH
      | Some p \<Rightarrow>
          Inr (fold (\<lambda>f d. if \<not> removeNonSave \<and> \<not> isSaved f then d else delFile_file d (setDir p f))
                 (m_pFileList m) disk,
               m\<lparr>m_pFileList := map (\<lambda>f. if \<not> removeNonSave \<and> \<not> isSaved f then f else setDir [] f)
                   (m_pFileList m)\<rparr>))"

section \<open>Bookkeeping\<close>

definition mcf_isComplete :: "mcf \<Rightarrow> bool" where
  "mcf_isComplete m \<longleftrightarrow> list_all (\<lambda>f. has_flag f FLAG_SAVE) (m_pFileList m)"

definition removeIncompleteFiles :: "mcf \<Rightarrow> mcf" where
  "removeIncompleteFiles m =
     m\<lparr>m_pFileList := map (\<lambda>f. if \<not> has_flag f FLAG_COMPLETE then delFlag FLAG_SAVE f else f) (m_pFileList m)\<rparr>"

definition resetSavedFiles :: "mcf \<Rightarrow> mcf" where
  "resetSavedFiles m = m\<lparr>m_pFileList := map (addFlag FLAG_SAVE) (m_pFileList m)\<rparr>"

definition hashFiles :: "(bytes \<Rightarrow> string) \<Rightarrow> fs \<Rightarrow> mcf \<Rightarrow> mcf" where
  "hashFiles md5 disk m = m\<lparr>m_pFileList := map (hashFile_file md5 disk) (m_pFileList m)\<rparr>"

definition update_file :: "nat \<Rightarrow> (mcf_file \<Rightarrow> mcf_file) \<Rightarrow> mcf \<Rightarrow> mcf" where
  "update_file i g m = m\<lparr>m_pFileList := (m_pFileList m)[i := g (m_pFileList m ! i)]\<rparr>"

text \<open>
  \<open>hashFiles(inMcf)\<close>: hash the files of this archive that the other one has too, walking the shorter
  list. Both lists end up sorted.
\<close>

definition hashFiles_in :: "sorter \<Rightarrow> (bytes \<Rightarrow> string) \<Rightarrow> fs \<Rightarrow> mcf \<Rightarrow> mcf \<Rightarrow> mcf \<times> mcf" where
  "hashFiles_in srt md5 disk other this =
     (let mcf' = sortFileList srt other; this' = sortFileList srt this in
      if getFileCount this' > getFileCount mcf' then
        (fold (\<lambda>x m. let element = findFileIndexByHash m (m_iHash (m_pFileList mcf' ! x)) in
                 if element = UNKNOWN_ITEM then m else update_file (unat element) (hashFile_file md5 disk) m)
           [0 ..< length (m_pFileList mcf')] this', mcf')
      else
        (fold (\<lambda>x m. let element = findFileIndexByHash mcf' (m_iHash (m_pFileList m ! x)) in
                 if element = UNKNOWN_ITEM then m else update_file x (hashFile_file md5 disk) m)
           [0 ..< length (m_pFileList this')] this', mcf'))"

text \<open>\<open>removeNonSavedFiles\<close>: the indexes to delete, erased from the last to the first.\<close>

definition erase_at :: "nat \<Rightarrow> 'a list \<Rightarrow> 'a list" where
  "erase_at i xs = take i xs @ drop (Suc i) xs"

definition removeNonSavedFiles :: "mcf \<Rightarrow> mcf" where
  "removeNonSavedFiles m =
     (let delList = filter (\<lambda>x. \<not> isSaved (m_pFileList m ! x)) [0 ..< length (m_pFileList m)]
      in m\<lparr>m_pFileList := fold erase_at (rev delList) (m_pFileList m)\<rparr>)"

section \<open>Properties\<close>

lemma erase_at_rev_filter:
  "fold erase_at (rev (filter (\<lambda>x. \<not> P (xs ! x)) [0 ..< length xs])) xs = filter P xs"
proof -
  have "fold erase_at (rev (filter (\<lambda>x. \<not> P ((xs @ ys) ! x)) [0 ..< length xs])) (xs @ ys) = filter P xs @ ys" for ys
  proof (induction xs arbitrary: ys rule: rev_induct)
    case (snoc x xs)
    have "filter (\<lambda>i. \<not> P (((xs @ [x]) @ ys) ! i)) [0 ..< length (xs @ [x])]
        = filter (\<lambda>i. \<not> P ((xs @ (x # ys)) ! i)) [0 ..< length xs] @ (if P x then [] else [length xs])"
      by (simp add: nth_append)
    moreover have "erase_at (length xs) (xs @ x # ys) = xs @ ys" by (simp add: erase_at_def)
    moreover have "filter (\<lambda>i. \<not> P ((xs @ (x # ys)) ! i)) [0 ..< length xs]
        = filter (\<lambda>i. \<not> P ((xs @ ys) ! i)) [0 ..< length xs]"
      by (rule filter_cong) (simp_all add: nth_append)
    ultimately show ?case using snoc.IH [of "x # ys"] snoc.IH [of ys] by simp
  qed simp
  from this [of "[]"] show ?thesis by simp
qed

text \<open>Erasing by index from the back keeps exactly the saved files, in their order.\<close>

theorem removeNonSavedFiles_filter:
  "removeNonSavedFiles m = m\<lparr>m_pFileList := filter isSaved (m_pFileList m)\<rparr>"
  by (simp add: removeNonSavedFiles_def erase_at_rev_filter)

text \<open>A file's bytes are in the archive and have the digest it names.\<close>

definition stored_ok :: "(bytes \<Rightarrow> string) \<Rightarrow> fs \<Rightarrow> file_handle \<Rightarrow> mcf_file \<Rightarrow> bool" where
  "stored_ok md5 disk h f \<longleftrightarrow>
     (\<exists>d. d = take (unat (getCurSize f)) (drop (unat (m_uiOffset h + m_llOffset f)) (fh_content disk h))
       \<and> length d = unat (getCurSize f)
       \<and> (has_flag f FLAG_ZEROSIZE \<or> md5 d = (if has_flag f FLAG_COMPRESSED then m_szCCsum f else m_szCsum f)))"

lemma verifyMcf_complete:
  assumes "verifyMcf md5 (\<lambda>_. False) disk h f = Inr (f', h')" and "isComplete f'"
  shows "stored_ok md5 disk h f"
proof -
  from assms(1) obtain h1 seen n h2 where h1: "fh_seek h (m_llOffset f) = Inr h1"
    and r: "fh_readCB disk h1 (unat (getCurSize f)) 10240 (md5_piece (\<lambda>_. False)) ([], 0) = Inr ((seen, n), h2)"
    and f': "f' = verify (Some (md5 seen)) True False f"
    by (auto simp: verifyMcf_def bind_res_Inr)
  from fh_seek_read [OF h1] have same: "fh_content disk h1 = fh_content disk h"
    "fh_pos h1 = unat (m_uiOffset h + m_llOffset f)" by (auto simp: fh_content_def)
  have "\<forall>i j :: nat. i \<le> j \<longrightarrow> False \<longrightarrow> False" "(0 :: nat) < 10240" by simp_all
  from md5_pieces [OF this(1) r _ this(2)] obtain d where d: "seen = [] @ d"
    "d = take (unat (getCurSize f)) (drop (fh_pos h1) (fh_content disk h1))"
    "length d = unat (getCurSize f)" by blast
  have "has_flag f FLAG_ZEROSIZE \<or> md5 d = (if has_flag f FLAG_COMPRESSED then m_szCCsum f else m_szCsum f)"
    using assms(2) d(1) unfolding f' isComplete_verify by auto
  then show ?thesis unfolding stored_ok_def using d(2,3) same by (intro exI [of _ d]) simp
qed

lemma verify_loop_sound:
  "verify_loop md5 disk h False fs = (fs', True) \<Longrightarrow> f \<in> set fs \<Longrightarrow> isSaved f \<Longrightarrow> \<not> isComplete f \<Longrightarrow>
   stored_ok md5 disk h f"
proof (induction fs arbitrary: fs')
  case (Cons g fs)
  obtain gs c where rest: "verify_loop md5 disk h False fs = (gs, c)" by fastforce
  have c: "c" using Cons.prems(1) rest by (auto simp: Let_def split: if_splits)
  show ?case
  proof (cases "f \<in> set fs")
    case True
    then show ?thesis using Cons.IH [of gs] rest c Cons.prems(3,4) by simp
  next
    case False
    then have "g = f" using Cons.prems(2) by simp
    with Cons.prems obtain f' h' where "verifyMcf md5 (\<lambda>_. False) disk h f = Inr (f', h')" "isComplete f'"
      by (auto simp: Let_def rest split: sum.splits prod.splits)
    then show ?thesis by (rule verifyMcf_complete)
  qed
qed simp

text \<open>
  C39: When \<open>verifyMCF\<close> says the archive is complete, every saved file that was not flagged complete
  before has its bytes in the archive with the digest it names, and the header's mark of an unverified
  archive is gone.
\<close>

theorem verifyMCF_sound:
  assumes "verifyMCF md5 disk m = (m', Inr True)" and "\<not> m_bStopped m"
    and "f \<in> set (m_pFileList m)" and "isSaved f" and "\<not> isComplete f"
  shows "(\<exists>h. getReadHandle disk m = Inr h \<and> stored_ok md5 disk h f)
    \<and> m_iFlags (m_sHeader m') AND FLAG_NONVERIFYED = 0"
  using assms
  by (auto simp: verifyMCF_def Let_def header_delFlags_def and.assoc intro: verify_loop_sound
      split: sum.splits prod.splits)

theorem verifyMCF_sound_witness:
  "\<exists>h. getReadHandle [''m'' \<mapsto> [6, 7, 8]] ((addFile demo_file (MCF_new 4))\<lparr>m_szFile := ''m''\<rparr>) = Inr h
    \<and> stored_ok (\<lambda>d. if d = [7, 8] then ''h'' else ''-'') [''m'' \<mapsto> [6, 7, 8]] h demo_file"
proof -
  let ?md5 = "\<lambda>d :: bytes. if d = [7, 8] then ''h'' else ''-''"
  let ?disk = "[''m'' \<mapsto> [6, 7, 8]] :: fs"
  let ?m = "(addFile demo_file (MCF_new 4))\<lparr>m_szFile := ''m''\<rparr>"
  have m: "m_szFile ?m = ''m''" "m_uiFileOffset ?m = 0" "m_bStopped ?m = False" "m_pFileList ?m = [demo_file]"
    by (simp_all add: addFile_def MCF_new_def setWorkerCount_def)
  have h: "getReadHandle ?disk ?m = Inr demo_handle"
    by (simp add: getReadHandle_def m fh_open_def demo_handle_def)
  have sv: "isSaved demo_file" "\<not> isComplete demo_file"
    by (simp_all add: demo_file_def MCFFile_new_def isSaved_def isComplete_def has_flag_def file_flags)
  obtain f' h' where r: "verifyMcf ?md5 (\<lambda>_. False) ?disk demo_handle demo_file = Inr (f', h')"
    and f': "f' = verify (Some ''h'') True False demo_file"
    by (simp add: verifyMcf_def demo_file_def demo_handle_def MCFFile_new_def fh_seek_def getCurSize_def
        isCompressed_def has_flag_def file_flags fh_readCB.simps fh_read_def fh_content_def get_bytes_def
        md5_piece_def Let_def)
  have "isComplete f'"
    unfolding f' isComplete_verify by (simp add: demo_file_def MCFFile_new_def has_flag_def file_flags)
  then have "\<exists>m'. verifyMCF ?md5 ?disk ?m = (m', Inr True)"
    by (simp add: verifyMCF_def h m r sv Let_def)
  then show ?thesis
    using verifyMCF_sound [of ?md5 ?disk ?m _ demo_file] m sv by auto
qed

text \<open>
  The flag of an earlier run is trusted when the archive can no longer be read: with every saved
  file flagged complete and none of them readable, \<open>verifyMCF\<close> still reports a complete archive.
\<close>

theorem verifyMCF_trusts_stale_flags:
  assumes "getReadHandle disk m = Inr h" and "\<not> m_bStopped m"
    and "\<forall>f\<in>set (m_pFileList m). isSaved f \<longrightarrow> isComplete f
           \<and> length (fh_content disk h) \<le> unat (m_uiOffset h + m_llOffset f) \<and> getCurSize f \<noteq> 0"
  shows "\<exists>m'. verifyMCF md5 disk m = (m', Inr True)"
proof -
  have fails: "\<exists>e. verifyMcf md5 (\<lambda>_. False) disk h f = Inl e"
    if "length (fh_content disk h) \<le> unat (m_uiOffset h + m_llOffset f)" "getCurSize f \<noteq> 0" for f
  proof (cases "fh_seek h (m_llOffset f)")
    case (Inr h1)
    from fh_seek_read [OF Inr] have h1: "fh_content disk h1 = fh_content disk h"
      "fh_pos h1 = unat (m_uiOffset h + m_llOffset f)" by (auto simp: fh_content_def)
    have n: "unat (getCurSize f) \<noteq> 0" using that(2) by (simp add: unat_eq_zero)
    have "fh_read disk h1 k = Inl (if \<not> m_bIsOpen h1 then ERR_NULLHANDLE else ERR_FAILEDREAD)" if "k \<noteq> 0" for k
      using that \<open>length (fh_content disk h) \<le> _\<close> h1 by (simp add: fh_read_def get_bytes_def)
    then have "\<exists>e. fh_readCB disk h1 (unat (getCurSize f)) 10240 (md5_piece (\<lambda>_. False)) ([], 0) = Inl e"
      using n by (subst fh_readCB.simps) (simp add: Let_def)
    then show ?thesis by (auto simp: verifyMcf_def Inr)
  qed (simp add: verifyMcf_def)
  have "\<exists>fs'. verify_loop md5 disk h False fs = (fs', True)"
    if "\<forall>f\<in>set fs. isSaved f \<longrightarrow> isComplete f
           \<and> length (fh_content disk h) \<le> unat (m_uiOffset h + m_llOffset f) \<and> getCurSize f \<noteq> 0" for fs
    using that
  proof (induction fs)
    case (Cons f fs)
    then obtain fs' where "verify_loop md5 disk h False fs = (fs', True)" by auto
    then show ?case using Cons.prems fails [of f] by (cases "isSaved f") (auto simp: Let_def)
  qed simp
  from this [OF assms(3)] show ?thesis
    using assms(1,2) by (auto simp: verifyMCF_def Let_def)
qed

theorem verifyMCF_trusts_stale_flags_witness:
  "\<exists>m'. verifyMCF (\<lambda>_. []) [''m'' \<mapsto> []] ((MCF_new 4)\<lparr>m_szFile := ''m'',
      m_pFileList := [addFlag FLAG_COMPLETE demo_file]\<rparr>) = (m', Inr True)"
  by (rule verifyMCF_trusts_stale_flags [where h = demo_handle])
     (simp_all add: getReadHandle_def fh_open_def demo_handle_def MCF_new_def setWorkerCount_def
       isComplete_def has_flag_def addFlag_def demo_file_def MCFFile_new_def file_flags fh_content_def
       getCurSize_def isCompressed_def)

text \<open>What the check of one installed file comes to.\<close>

definition installed_ok :: "(bytes \<Rightarrow> string) \<Rightarrow> fs \<Rightarrow> string \<Rightarrow> mcf_file \<Rightarrow> bool" where
  "installed_ok md5 disk path f \<longleftrightarrow>
     (if has_flag f FLAG_ZEROSIZE
      then \<exists>c. disk (installed_name (setDir path f)) = Some c \<and> length c mod 2 ^ 64 = 0
      else hashFile md5 disk (installed_name (setDir path f)) = m_szCsum f)"

text \<open>How a file may look after the installation was verified.\<close>

definition installed_rel ::
  "(bytes \<Rightarrow> string) \<Rightarrow> fs \<Rightarrow> string \<Rightarrow> bool \<Rightarrow> mcf_file \<Rightarrow> mcf_file \<Rightarrow> bool" where
  "installed_rel md5 disk path flagMissing f f' \<longleftrightarrow>
     (\<exists>flags. f' = f\<lparr>m_szDir := [], m_uiFlags := flags\<rparr>)
     \<and> isComplete f' = isComplete f
     \<and> isSaved f' = (if flagMissing then \<not> installed_ok md5 disk path f else isSaved f)"

lemma has_flag_dir [simp]: "has_flag (setDir p f) b = has_flag f b"
  by (simp add: has_flag_def setDir_def)

lemma installed_name_flags:
  "installed_name (setDir path (delFlag a f)) = installed_name (setDir path f)"
  by (simp add: installed_name_def getFullPath_file_def file_path_def setDir_def delFlag_def)

lemma verifyFile_flags:
  assumes "FLAG_COMPLETE AND b = 0" and "FLAG_CANUSEDIFF AND b = 0"
  shows "has_flag (verifyFile md5 disk u f) b = has_flag f b"
  using assms by (simp add: verifyFile_def Let_def verify_other_flags has_flag_add has_flag_del_other)

lemma save_disjoint [flag_simps]:
  "FLAG_SAVE AND FLAG_COMPLETE = 0" "FLAG_SAVE \<noteq> 0" "FLAG_CANUSEDIFF AND FLAG_SAVE = 0"
  by (simp_all add: file_flags)

lemma verify_installed_rel:
  assumes "verify_installed md5 disk path flagMissing useDiffs f = (f', ok)"
  shows "ok = installed_ok md5 disk path f \<and> installed_rel md5 disk path flagMissing f f'"
proof -
  let ?g = "verifyFile md5 disk useDiffs (setDir path (delFlag FLAG_COMPLETE f))"
  obtain flags where g: "?g = (setDir path (delFlag FLAG_COMPLETE f))\<lparr>m_uiFlags := flags\<rparr>"
    using isComplete_verifyFile [of md5 disk useDiffs "setDir path (delFlag FLAG_COMPLETE f)"] by blast
  have ok: "isComplete ?g \<longleftrightarrow> installed_ok md5 disk path f"
    using isComplete_verifyFile [of md5 disk useDiffs "setDir path (delFlag FLAG_COMPLETE f)"]
    by (simp add: installed_ok_def installed_name_flags has_flag_del_other flag_simps)
       (simp add: setDir_def delFlag_def)
  have saved: "has_flag ?g FLAG_SAVE = has_flag f FLAG_SAVE"
    by (simp add: verifyFile_flags flag_simps has_flag_del_other)
  have shape: "\<exists>flags. addFlag a h = h\<lparr>m_uiFlags := flags\<rparr>" "\<exists>flags. delFlag a h = h\<lparr>m_uiFlags := flags\<rparr>" for a h
    by (auto simp: addFlag_def delFlag_def)
  have dir: "setDir [] ?g = f\<lparr>m_szDir := [], m_uiFlags := flags\<rparr>"
    unfolding g by (simp add: setDir_def delFlag_def)
  have ok': "isComplete (setDir [] ?g) \<longleftrightarrow> isComplete ?g" by (simp add: isComplete_def)
  have f': "f' = (let f1 = (if flagMissing then (if isComplete ?g then delFlag FLAG_SAVE (setDir [] ?g)
        else addFlag FLAG_SAVE (setDir [] ?g)) else setDir [] ?g);
      f2 = delFlag FLAG_COMPLETE f1 in if isComplete f then addFlag FLAG_COMPLETE f2 else f2)"
    and okc: "ok = isComplete ?g"
    using assms by (auto simp: verify_installed_def Let_def ok')
  have "\<exists>flags. f' = f\<lparr>m_szDir := [], m_uiFlags := flags\<rparr>"
    unfolding f' dir by (auto simp: Let_def addFlag_def delFlag_def)
  moreover have "isComplete f' = isComplete f"
    unfolding f' by (simp add: Let_def isComplete_def has_flag_add flag_simps)
  moreover have "isSaved f' = (if flagMissing then \<not> installed_ok md5 disk path f else isSaved f)"
    unfolding f' ok by (simp add: Let_def isSaved_def has_flag_add has_flag_del_other flag_simps saved)
  ultimately show ?thesis by (simp add: installed_rel_def okc ok)
qed

lemma install_loop_rel:
  "install_loop md5 disk path flagMissing useDiffs False fs = (fs', c) \<Longrightarrow>
   list_all2 (installed_rel md5 disk path flagMissing) fs fs'
   \<and> (c \<longleftrightarrow> (\<forall>f\<in>set fs. installed_ok md5 disk path f))"
proof (induction fs arbitrary: fs' c)
  case (Cons f fs)
  obtain f' ok where f': "verify_installed md5 disk path flagMissing useDiffs f = (f', ok)" by fastforce
  obtain gs d where gs: "install_loop md5 disk path flagMissing useDiffs False fs = (gs, d)" by fastforce
  show ?case
    using Cons.prems Cons.IH [OF gs] verify_installed_rel [OF f'] by (auto simp: f' gs)
qed simp

text \<open>
  Verifying an installation says whether every file is installed with its checksum, changes nothing
  but flags (the directory is cleared again), keeps every complete flag, and with \<open>flagMissing\<close> marks for
  saving exactly the files that are not installed right.
\<close>

theorem verifyInstall_verdict:
  assumes "verifyInstall md5 disk (Some path) flagMissing useDiffs m = Inr (m', c)" and "\<not> m_bStopped m"
  shows "(c \<longleftrightarrow> (\<forall>f\<in>set (m_pFileList m). installed_ok md5 disk path f))
    \<and> list_all2 (installed_rel md5 disk path flagMissing) (m_pFileList m) (m_pFileList m')
    \<and> m' = m\<lparr>m_pFileList := m_pFileList m'\<rparr>"
  using assms by (auto simp: verifyInstall_def split: prod.splits dest: install_loop_rel)

theorem verifyInstall_verdict_witness:
  "\<exists>m'. verifyInstall (\<lambda>_. []) Map.empty (Some ''d'') True False
      (addFile (demo_file\<lparr>m_szCsum := ''-1''\<rparr>) (MCF_new 4)) = Inr (m', True)"
proof -
  let ?m = "addFile (demo_file\<lparr>m_szCsum := ''-1''\<rparr>) (MCF_new 4)"
  have "\<exists>m' c. verifyInstall (\<lambda>_. []) Map.empty (Some ''d'') True False ?m = Inr (m', c)"
    by (simp add: verifyInstall_def split: prod.split)
  then obtain m' c where r: "verifyInstall (\<lambda>_. []) Map.empty (Some ''d'') True False ?m = Inr (m', c)" by blast
  have "c"
    using verifyInstall_verdict [OF r]
    by (simp add: addFile_def MCF_new_def setWorkerCount_def installed_ok_def hashFile_def demo_file_def
        MCFFile_new_def has_flag_def file_flags)
  with r show ?thesis by auto
qed

text \<open>
  Removing the files of an archive from an installation deletes the files it lists (only the saved
  ones unless asked for all) and no other file.
\<close>

theorem removeFiles_exact:
  assumes "removeFiles disk (Some path) removeNonSave m = Inr (disk', m')"
  shows "disk' = (\<lambda>n. if n \<in> (\<lambda>f. installed_name (setDir path f)) `
      {f \<in> set (m_pFileList m). removeNonSave \<or> isSaved f} then None else disk n)"
proof -
  have del: "delFile_file d f = d(installed_name f := None)" for d f
    by (auto simp: delFile_file_def delFile_def isValidFile_def)
  have "fold (\<lambda>f d. if \<not> removeNonSave \<and> \<not> isSaved f then d else delFile_file d (setDir path f)) fs d n
    = (if \<exists>f\<in>set fs. (removeNonSave \<or> isSaved f) \<and> n = installed_name (setDir path f) then None else d n)" for fs d n
    by (induction fs arbitrary: d) (auto simp: del)
  then have "fold (\<lambda>f d. if \<not> removeNonSave \<and> \<not> isSaved f then d else delFile_file d (setDir path f)) fs d
    = (\<lambda>n. if n \<in> (\<lambda>f. installed_name (setDir path f)) ` {f \<in> set fs. removeNonSave \<or> isSaved f}
        then None else d n)" for fs d
    by (intro ext) (auto simp: image_iff)
  with assms show ?thesis by (simp add: removeFiles_def)
qed

theorem removeFiles_exact_witness:
  "\<exists>disk' m'. removeFiles [''x'' \<mapsto> [1]] (Some ''d'') True (addFile demo_file (MCF_new 4)) = Inr (disk', m')
    \<and> disk' (installed_name (setDir ''d'' demo_file)) = None"
proof -
  let ?m = "addFile demo_file (MCF_new 4)"
  obtain disk' m' where r: "removeFiles [''x'' \<mapsto> [1]] (Some ''d'') True ?m = Inr (disk', m')"
    by (simp add: removeFiles_def)
  have "m_pFileList ?m = [demo_file]" by (simp add: addFile_def MCF_new_def setWorkerCount_def)
  with removeFiles_exact [OF r] r show ?thesis by auto
qed

end
