(* ===== verification/Mcf_Diff.thy ===== *)
theory Mcf_Diff
  imports Mcf_Verify "HOL-Library.Multiset"
begin

text \<open>
  Comparing two archives: \<open>findChanges\<close> and the operations of \<^verbatim>\<open>MCF_Patch.cpp\<close> that only move the save flags.
  The sorting function is a parameter; \<open>hash_sort\<close> is what \<open>std::sort\<close> promises for \<open>file_sortkey\<close>.
\<close>

unbundle bit_operations_syntax

section \<open>Interface: sorting by hash\<close>

locale hash_sort =
  fixes srt :: sorter
  assumes mset_srt: "mset (srt fs) = mset fs"
    and sorted_srt: "sorted (map m_iHash (srt fs))"
begin

lemma length_srt [simp]: "length (srt fs) = length fs"
  by (metis mset_srt size_mset)

lemma set_srt [simp]: "set (srt fs) = set fs"
  by (metis mset_srt set_mset_mset)

lemma distinct_hashes: "distinct (map m_iHash (srt fs)) \<longleftrightarrow> distinct (map m_iHash fs)"
  by (metis mset_srt mset_map mset_eq_imp_distinct_iff)

lemma distinct_srt: "distinct (srt fs) \<longleftrightarrow> distinct fs"
  by (metis mset_srt mset_eq_imp_distinct_iff)

text \<open>With hashes that differ the result is determined: any two sorting functions agree.\<close>

lemma srt_unique:
  assumes "distinct (map m_iHash fs)"
  shows "srt fs = sort_key m_iHash fs"
proof -
  have "inj_on m_iHash (set fs)" using assms by (simp add: distinct_map)
  then show ?thesis
    by (intro sort_key_inj_key_eq [symmetric]) (simp_all add: mset_srt sorted_srt)
qed

end

interpretation stable: hash_sort "sort_key m_iHash"
  by unfold_locales simp_all

section \<open>The changes between two archives\<close>

record mcfDif_s =
  thisMcf :: u32
  otherMcf :: u32

record changes =
  vSame :: "mcfDif_s list"
  vDiff :: "mcfDif_s list"
  vDel :: "mcfDif_s list"
  vNew :: "mcfDif_s list"

definition no_changes :: changes where
  "no_changes = \<lparr>vSame = [], vDiff = [], vDel = [], vNew = []\<rparr>"

text \<open>One step of the loop of \<open>findChanges\<close>: the changes so far and the used elements.\<close>

definition change_step :: "mcf \<Rightarrow> mcf \<Rightarrow> nat \<Rightarrow> changes \<times> u32 list \<Rightarrow> changes \<times> u32 list" where
  "change_step this newFile x s =
     (case s of (c, vUsedList) \<Rightarrow>
       let f = m_pFileList this ! x;
           element = findFileIndexByHash newFile (m_iHash f)
       in if element = UNKNOWN_ITEM then
            (c\<lparr>vDel := vDel c @ [\<lparr>thisMcf = of_nat x, otherMcf = UNKNOWN_ITEM\<rparr>]\<rparr>, vUsedList)
          else
            (let temp = \<lparr>thisMcf = of_nat x, otherMcf = element\<rparr>;
                 c' = (case isEquals f (getFile newFile element) of
                         CMP_SAME \<Rightarrow> c\<lparr>vSame := vSame c @ [temp]\<rparr>
                       | CMP_OLDER \<Rightarrow> c\<lparr>vDiff := vDiff c @ [temp]\<rparr>
                       | CMP_NEWER \<Rightarrow> c\<lparr>vDiff := vDiff c @ [temp]\<rparr>
                       | CMP_NOTEQUAL \<Rightarrow> c)
             in (c', vUsedList @ [element])))"

text \<open>
  The result lists that a caller does not ask for (null pointers) are the ones it does not use. Both
  archives end up sorted.
\<close>

definition findChanges :: "sorter \<Rightarrow> mcf \<Rightarrow> mcf \<Rightarrow> mcf \<times> mcf \<times> changes" where
  "findChanges srt newFile this =
     (if m_bStopped this then (this, newFile, no_changes)
      else
        let newFile = sortFileList srt newFile;
            this = sortFileList srt this;
            (c, vUsedList) = fold (change_step this newFile) [0 ..< length (m_pFileList this)] (no_changes, [])
        in (this, newFile,
            c\<lparr>vNew := map (\<lambda>x. \<lparr>thisMcf = UNKNOWN_ITEM, otherMcf = of_nat x\<rparr>)
                 (filter (\<lambda>x. of_nat x \<notin> set vUsedList) [0 ..< length (m_pFileList newFile)])\<rparr>))"

text \<open>\<open>findSameHashFile\<close>: every pair with the same size and checksum, and the files without one.\<close>

definition findSameHashFile :: "mcf \<Rightarrow> mcf \<Rightarrow> mcfDif_s list \<times> nat list" where
  "findSameHashFile newFile this =
     (let same = (\<lambda>x y. m_iSize (m_pFileList this ! x) = m_iSize (m_pFileList newFile ! y)
                      \<and> m_szCsum (m_pFileList this ! x) = m_szCsum (m_pFileList newFile ! y));
          ys = [0 ..< length (m_pFileList newFile)]; xs = [0 ..< length (m_pFileList this)]
      in (concat (map (\<lambda>x. map (\<lambda>y. \<lparr>thisMcf = of_nat x, otherMcf = of_nat y\<rparr>) (filter (same x) ys)) xs),
          filter (\<lambda>x. \<not> list_ex (same x) ys) xs))"

section \<open>Operations on the save flags\<close>

text \<open>\<open>m_pFileList[i]\<close> with an index out of range is undefined behaviour.\<close>

definition at_index :: "u32 \<Rightarrow> (mcf_file \<Rightarrow> mcf_file) \<Rightarrow> mcf \<Rightarrow> mcf res" where
  "at_index i g m =
     (if unat i < length (m_pFileList m) then Inr (update_file (unat i) g m) else Inl UNDEFINED)"

fun at_indexes :: "u32 list \<Rightarrow> (mcf_file \<Rightarrow> mcf_file) \<Rightarrow> mcf \<Rightarrow> mcf res" where
  "at_indexes [] g m = Inr m"
| "at_indexes (i # is) g m = bind_res (at_index i g m) (\<lambda>m. at_indexes is g m)"

definition mcf_isComplete_with :: "sorter \<Rightarrow> mcf \<Rightarrow> mcf \<Rightarrow> mcf \<times> mcf \<times> bool" where
  "mcf_isComplete_with srt exsitingFiles m =
     (case findChanges srt exsitingFiles m of (this, other, c) \<Rightarrow>
        (this, other,
         list_all (\<lambda>x. isSaved (m_pFileList this ! x) \<or> (\<exists>d\<in>set (vSame c). unat (thisMcf d) = x))
           [0 ..< length (m_pFileList this)]))"

definition verifyUnitTest :: "sorter \<Rightarrow> mcf \<Rightarrow> mcf \<Rightarrow> mcf \<times> mcf \<times> bool" where
  "verifyUnitTest srt other this =
     (case findChanges srt other this of (this, other, c) \<Rightarrow>
        (this, other, vDiff c = [] \<and> vDel c = [] \<and> vNew c = []))"

definition markFiles ::
  "sorter \<Rightarrow> bool \<Rightarrow> bool \<Rightarrow> bool \<Rightarrow> bool \<Rightarrow> mcf \<Rightarrow> mcf \<Rightarrow> (mcf \<times> mcf) res" where
  "markFiles srt tagSame tagChanged tagDeleted tagNew inMcf this =
     (if m_bStopped this then Inr (this, inMcf)
      else
        case findChanges srt inMcf this of (this, other, c) \<Rightarrow>
          let m = this\<lparr>m_pFileList := map (delFlag FLAG_SAVE) (m_pFileList this)\<rparr>;
              tag = addFlag FLAG_SAVE
          in bind_res (at_indexes (if tagSame then map thisMcf (vSame c) else []) tag m) (\<lambda>m.
             bind_res (at_indexes (if tagChanged then map thisMcf (vDiff c) else []) tag m) (\<lambda>m.
             bind_res (at_indexes (if tagDeleted then map thisMcf (vDel c) else []) tag m) (\<lambda>m.
             bind_res (at_indexes (if tagNew then map thisMcf (vNew c) else []) tag m) (\<lambda>m.
             Inr (m, other))))))"

definition markChanged :: "sorter \<Rightarrow> mcf \<Rightarrow> mcf \<Rightarrow> (mcf \<times> mcf) res" where
  "markChanged srt inMcf this =
     (if m_bStopped this then Inr (this, inMcf)
      else
        case findChanges srt inMcf this of (this, other, c) \<Rightarrow>
          bind_res (at_indexes (map thisMcf (vSame c)) (delFlag FLAG_SAVE)
              (this\<lparr>m_pFileList := map (addFlag FLAG_SAVE) (m_pFileList this)\<rparr>))
            (\<lambda>m. Inr (m, other)))"

text \<open>A stopped archive or a null one leaves the two results as they were.\<close>

definition getPatchStats :: "sorter \<Rightarrow> mcf option \<Rightarrow> mcf \<Rightarrow> u64 \<times> u32 \<Rightarrow> mcf \<times> mcf option \<times> u64 \<times> u32" where
  "getPatchStats srt inMcf this results =
     (if m_bStopped this then (this, inMcf, results)
      else
        case inMcf of
          None \<Rightarrow> (this, inMcf, results)
        | Some other \<Rightarrow>
            (case findChanges srt other this of (this, other, c) \<Rightarrow>
               let sameSize = fold (\<lambda>d sz. sz + getCurSize (m_pFileList this ! unat (thisMcf d))) (vSame c) 0
               in (this, Some other, getDLSize this - sameSize,
                   of_nat (length (m_pFileList this)) - of_nat (length (vSame c)))))"

definition makePatch :: "sorter \<Rightarrow> mcf \<Rightarrow> mcf \<Rightarrow> (mcf \<times> mcf) res" where
  "makePatch srt file this =
     (if m_bStopped this then Inr (this, file)
      else
        case findChanges srt file this of (this, other, c) \<Rightarrow>
          bind_res (fold (\<lambda>d r. bind_res r (\<lambda>m.
              case getFile other (otherMcf d) of
                None \<Rightarrow> Inl UNDEFINED
              | Some t \<Rightarrow> at_index (thisMcf d) (\<lambda>f. setOffSet 0 (delFlag FLAG_SAVE (copySettings t f))) m))
            (vSame c) (Inr this))
          (\<lambda>m. Inr (m, other)))"

section \<open>What \<open>findChanges\<close> finds\<close>

text \<open>
  Specification: the counterpart of a file is the first file of the other archive with its hash, and
  its verdict is how the two compare.
\<close>

definition counterpart :: "mcf \<Rightarrow> mcf_file \<Rightarrow> mcf_file option" where
  "counterpart other f = List.find (\<lambda>g. m_iHash g = m_iHash f) (m_pFileList other)"

definition verdict :: "mcf \<Rightarrow> mcf_file \<Rightarrow> file_cmp option" where
  "verdict other f = map_option (\<lambda>g. isEquals f (Some g)) (counterpart other f)"

definition small :: "mcf \<Rightarrow> bool" where
  "small m \<longleftrightarrow> length (m_pFileList m) < 2 ^ 32 - 1"

lemma counterpart_index:
  assumes "small other"
  shows "findFileIndexByHash other (m_iHash f) = UNKNOWN_ITEM \<longleftrightarrow> counterpart other f = None"
    and "counterpart other f = Some g \<Longrightarrow>
      getFile other (findFileIndexByHash other (m_iHash f)) = Some g \<and> m_iHash g = m_iHash f"
proof -
  note cases = findFileIndexByHash_cases [OF assms [unfolded small_def], of "m_iHash f"]
  show none: "findFileIndexByHash other (m_iHash f) = UNKNOWN_ITEM \<longleftrightarrow> counterpart other f = None"
    using cases(1) by (auto simp: counterpart_def find_None_iff)
  assume g: "counterpart other f = Some g"
  then obtain i where i: "i < length (m_pFileList other)" "g = m_pFileList other ! i"
    "m_iHash g = m_iHash f" "\<forall>j<i. m_iHash (m_pFileList other ! j) \<noteq> m_iHash f"
    by (auto simp: counterpart_def find_Some_iff)
  obtain k where k: "k < length (m_pFileList other)" "unat (findFileIndexByHash other (m_iHash f)) = k"
    "m_iHash (m_pFileList other ! k) = m_iHash f" "\<forall>j<k. m_iHash (m_pFileList other ! j) \<noteq> m_iHash f"
    using cases(2) none g by auto
  have "k = i" using i k by (metis linorder_neqE_nat)
  then show "getFile other (findFileIndexByHash other (m_iHash f)) = Some g \<and> m_iHash g = m_iHash f"
    using i k by (simp add: getFile_def)
qed

text \<open>The indexes of the files with a verdict, in order.\<close>

definition with_verdict :: "mcf \<Rightarrow> mcf \<Rightarrow> file_cmp option set \<Rightarrow> nat \<Rightarrow> nat list" where
  "with_verdict this other vs k = filter (\<lambda>x. verdict other (m_pFileList this ! x) \<in> vs) [0 ..< k]"

definition dif_of :: "mcf \<Rightarrow> mcf \<Rightarrow> nat \<Rightarrow> mcfDif_s" where
  "dif_of this other x =
     \<lparr>thisMcf = of_nat x, otherMcf = findFileIndexByHash other (m_iHash (m_pFileList this ! x))\<rparr>"

lemma change_step_verdict:
  assumes "small other"
  shows "change_step this other x (c, used) =
    (case verdict other (m_pFileList this ! x) of
       None \<Rightarrow> (c\<lparr>vDel := vDel c @ [dif_of this other x]\<rparr>, used)
     | Some v \<Rightarrow>
         ((case v of CMP_SAME \<Rightarrow> c\<lparr>vSame := vSame c @ [dif_of this other x]\<rparr>
             | CMP_OLDER \<Rightarrow> c\<lparr>vDiff := vDiff c @ [dif_of this other x]\<rparr>
             | CMP_NEWER \<Rightarrow> c\<lparr>vDiff := vDiff c @ [dif_of this other x]\<rparr>
             | CMP_NOTEQUAL \<Rightarrow> c),
          used @ [findFileIndexByHash other (m_iHash (m_pFileList this ! x))]))"
proof (cases "counterpart other (m_pFileList this ! x)")
  case None
  then have "findFileIndexByHash other (m_iHash (m_pFileList this ! x)) = UNKNOWN_ITEM"
    using counterpart_index(1) [OF assms] by blast
  with None show ?thesis by (simp add: change_step_def verdict_def Let_def dif_of_def)
next
  case (Some g)
  then have "findFileIndexByHash other (m_iHash (m_pFileList this ! x)) \<noteq> UNKNOWN_ITEM"
    using counterpart_index(1) [OF assms] by simp
  with Some counterpart_index(2) [OF assms Some] show ?thesis
    by (simp add: change_step_def verdict_def Let_def dif_of_def split: file_cmp.split)
qed

lemma change_steps:
  assumes "small other"
  shows "fold (change_step this other) [0 ..< k] (no_changes, []) =
    (\<lparr>vSame = map (dif_of this other) (with_verdict this other {Some CMP_SAME} k),
      vDiff = map (dif_of this other) (with_verdict this other {Some CMP_OLDER, Some CMP_NEWER} k),
      vDel = map (dif_of this other) (with_verdict this other {None} k), vNew = []\<rparr>,
     map (\<lambda>x. findFileIndexByHash other (m_iHash (m_pFileList this ! x)))
       (with_verdict this other (range Some) k))"
proof (induction k)
  case 0
  then show ?case by (simp add: no_changes_def with_verdict_def)
next
  case (Suc k)
  have snoc: "with_verdict this other vs (Suc k) = with_verdict this other vs k
      @ (if verdict other (m_pFileList this ! k) \<in> vs then [k] else [])" for vs
    by (simp add: with_verdict_def)
  show ?case
    by (simp add: Suc change_step_verdict [OF assms] snoc split: option.split file_cmp.split)
qed

lemma small_sort: "hash_sort srt \<Longrightarrow> small (sortFileList srt m) = small m"
  by (simp add: small_def sortFileList_def hash_sort.length_srt)

lemma findChanges_eval:
  assumes "hash_sort srt" and "\<not> m_bStopped this" and "small this" and "small other"
    and "findChanges srt other this = (this', other', c)"
  shows "this' = sortFileList srt this" and "other' = sortFileList srt other"
    and "small this'" and "small other'"
    and "vSame c = map (dif_of this' other') (with_verdict this' other' {Some CMP_SAME} (length (m_pFileList this')))"
    and "vDiff c = map (dif_of this' other')
      (with_verdict this' other' {Some CMP_OLDER, Some CMP_NEWER} (length (m_pFileList this')))"
    and "vDel c = map (dif_of this' other') (with_verdict this' other' {None} (length (m_pFileList this')))"
    and "vNew c = map (\<lambda>x. \<lparr>thisMcf = UNKNOWN_ITEM, otherMcf = of_nat x\<rparr>)
      (filter (\<lambda>y. of_nat y \<notin> set (map (\<lambda>x. findFileIndexByHash other' (m_iHash (m_pFileList this' ! x)))
         (with_verdict this' other' (range Some) (length (m_pFileList this')))))
        [0 ..< length (m_pFileList other')])"
  using assms change_steps [of "sortFileList srt other" "sortFileList srt this"
      "length (m_pFileList (sortFileList srt this))"]
  by (auto simp: findChanges_def Let_def small_sort)

lemma unat_index: "small m \<Longrightarrow> x < length (m_pFileList m) \<Longrightarrow> unat (of_nat x :: u32) = x"
  by (simp add: small_def unat_of_nat take_bit_nat_eq_self)

lemma dif_of_this: "small this \<Longrightarrow> x < length (m_pFileList this) \<Longrightarrow> unat (thisMcf (dif_of this other x)) = x"
  by (simp add: dif_of_def unat_index)

lemma map_this_with_verdict:
  assumes "small this"
  shows "map (unat \<circ> thisMcf) (map (dif_of this other) (with_verdict this other vs (length (m_pFileList this))))
    = with_verdict this other vs (length (m_pFileList this))"
  using assms unfolding map_map by (intro map_idI) (auto simp: with_verdict_def dif_of_this)

text \<open>With hashes that differ, what is used of the other archive is what has a hash of this one.\<close>

lemma used_elements:
  assumes "small other" and "distinct (map m_iHash (m_pFileList other))" and y: "y < length (m_pFileList other)"
  shows "of_nat y \<in> set (map (\<lambda>x. findFileIndexByHash other (m_iHash (m_pFileList this ! x)))
      (with_verdict this other (range Some) (length (m_pFileList this))))
    \<longleftrightarrow> m_iHash (m_pFileList other ! y) \<in> m_iHash ` set (m_pFileList this)"
proof
  assume "m_iHash (m_pFileList other ! y) \<in> m_iHash ` set (m_pFileList this)"
  then obtain x where x: "x < length (m_pFileList this)"
    "m_iHash (m_pFileList this ! x) = m_iHash (m_pFileList other ! y)"
    by (auto simp: in_set_conv_nth)
  let ?e = "findFileIndexByHash other (m_iHash (m_pFileList this ! x))"
  note cases = findFileIndexByHash_cases [OF assms(1) [unfolded small_def], of "m_iHash (m_pFileList this ! x)"]
  have known: "?e \<noteq> UNKNOWN_ITEM" using cases(1) x y by (metis nth_mem)
  then obtain k where k: "k < length (m_pFileList other)" "unat ?e = k"
    "m_iHash (m_pFileList other ! k) = m_iHash (m_pFileList other ! y)" using cases(2) x by auto
  then have "k = y" using assms(2) y by (auto simp: distinct_conv_nth)
  moreover have "?e = of_nat (unat ?e)" by simp
  ultimately have "?e = of_nat y" using k(2) by simp
  moreover have "verdict other (m_pFileList this ! x) \<in> range Some"
    using known counterpart_index(1) [OF assms(1)] by (auto simp: verdict_def)
  ultimately show "of_nat y \<in> set (map (\<lambda>x. findFileIndexByHash other (m_iHash (m_pFileList this ! x)))
      (with_verdict this other (range Some) (length (m_pFileList this))))"
    using x(1) by (force simp: with_verdict_def)
next
  assume "of_nat y \<in> set (map (\<lambda>x. findFileIndexByHash other (m_iHash (m_pFileList this ! x)))
      (with_verdict this other (range Some) (length (m_pFileList this))))"
  then obtain x where x: "x < length (m_pFileList this)" "verdict other (m_pFileList this ! x) \<in> range Some"
    "of_nat y = findFileIndexByHash other (m_iHash (m_pFileList this ! x))"
    by (auto simp: with_verdict_def)
  then obtain g where g: "counterpart other (m_pFileList this ! x) = Some g"
    by (auto simp: verdict_def)
  from counterpart_index(2) [OF assms(1) this] have "getFile other (of_nat y) = Some g"
    "m_iHash g = m_iHash (m_pFileList this ! x)" by (simp_all add: x(3))
  then have "g = m_pFileList other ! y" using y assms(1) by (simp add: getFile_def unat_index split: if_splits)
  with \<open>m_iHash g = _\<close> x(1) show "m_iHash (m_pFileList other ! y) \<in> m_iHash ` set (m_pFileList this)"
    by (metis image_eqI nth_mem)
qed

text \<open>
  C33: \<open>findChanges\<close> splits the files of this archive by their verdict: same, different, deleted (no
  counterpart), each in the order of the sorted list, the rest being files whose counterpart has
  another path; and with hashes that differ the new files are exactly the files of the other archive
  whose hash this one lacks.
\<close>

theorem findChanges_classifies:
  assumes "hash_sort srt" and "\<not> m_bStopped this" and "small this" and "small other"
    and "findChanges srt other this = (this', other', c)"
    and "distinct (map m_iHash (m_pFileList other))"
  shows "mset (m_pFileList this') = mset (m_pFileList this) \<and> mset (m_pFileList other') = mset (m_pFileList other)
    \<and> map (unat \<circ> thisMcf) (vSame c) = with_verdict this' other' {Some CMP_SAME} (length (m_pFileList this'))
    \<and> map (unat \<circ> thisMcf) (vDiff c)
      = with_verdict this' other' {Some CMP_OLDER, Some CMP_NEWER} (length (m_pFileList this'))
    \<and> map (unat \<circ> thisMcf) (vDel c) = with_verdict this' other' {None} (length (m_pFileList this'))
    \<and> map (unat \<circ> otherMcf) (vNew c) = filter (\<lambda>y. m_iHash (m_pFileList other' ! y) \<notin> m_iHash ` set (m_pFileList this))
        [0 ..< length (m_pFileList other')]"
proof -
  note ev = findChanges_eval [OF assms(1-5)]
  have lists: "m_pFileList this' = srt (m_pFileList this)" "m_pFileList other' = srt (m_pFileList other)"
    by (simp_all add: ev(1,2) sortFileList_def)
  have set_this: "set (m_pFileList this) = set (m_pFileList this')"
    by (simp add: lists hash_sort.set_srt [OF assms(1)])
  have d: "distinct (map m_iHash (m_pFileList other'))"
    using assms(6) by (simp add: lists hash_sort.distinct_hashes [OF assms(1)])
  have "filter (\<lambda>y. of_nat y \<notin> set (map (\<lambda>x. findFileIndexByHash other' (m_iHash (m_pFileList this' ! x)))
         (with_verdict this' other' (range Some) (length (m_pFileList this'))))) [0 ..< length (m_pFileList other')]
      = filter (\<lambda>y. m_iHash (m_pFileList other' ! y) \<notin> m_iHash ` set (m_pFileList this)) [0 ..< length (m_pFileList other')]"
    by (rule filter_cong) (simp_all only: used_elements [OF ev(4) d] set_upt atLeastLessThan_iff set_this)
  moreover have "map (unat \<circ> otherMcf) (map (\<lambda>x. \<lparr>thisMcf = UNKNOWN_ITEM, otherMcf = of_nat x\<rparr>) (filter P [0 ..< length (m_pFileList other')]))
      = filter P [0 ..< length (m_pFileList other')]" for P
    unfolding map_map by (intro map_idI) (auto simp: unat_index [OF ev(4)])
  ultimately have "map (unat \<circ> otherMcf) (vNew c)
      = filter (\<lambda>y. m_iHash (m_pFileList other' ! y) \<notin> m_iHash ` set (m_pFileList this)) [0 ..< length (m_pFileList other')]"
    unfolding ev(8) by simp
  moreover have "mset (m_pFileList this') = mset (m_pFileList this)" "mset (m_pFileList other') = mset (m_pFileList other)"
    by (simp_all add: lists hash_sort.mset_srt [OF assms(1)])
  ultimately show ?thesis
    by (simp only: ev(5-7) map_this_with_verdict [OF ev(3)])
qed

theorem findChanges_classifies_witness:
  "\<exists>this' other' c. findChanges (sort_key m_iHash) (addFile demo_file (MCF_new 4)) (addFile demo_file (MCF_new 4))
      = (this', other', c) \<and> length (vSame c) = 1 \<and> vDiff c = [] \<and> vDel c = [] \<and> vNew c = []"
proof -
  let ?m = "addFile demo_file (MCF_new 4)"
  obtain this' other' c where r: "findChanges (sort_key m_iHash) ?m ?m = (this', other', c)"
    by (metis prod_cases3)
  have m: "m_pFileList ?m = [demo_file]" "\<not> m_bStopped ?m" "small ?m"
    by (simp_all add: addFile_def MCF_new_def setWorkerCount_def small_def)
  have cl: "mset (m_pFileList this') = {#demo_file#}" "mset (m_pFileList other') = {#demo_file#}"
    "map (unat \<circ> thisMcf) (vSame c) = with_verdict this' other' {Some CMP_SAME} (length (m_pFileList this'))"
    "map (unat \<circ> thisMcf) (vDiff c)
      = with_verdict this' other' {Some CMP_OLDER, Some CMP_NEWER} (length (m_pFileList this'))"
    "map (unat \<circ> thisMcf) (vDel c) = with_verdict this' other' {None} (length (m_pFileList this'))"
    "map (unat \<circ> otherMcf) (vNew c) = filter (\<lambda>y. m_iHash (m_pFileList other' ! y) \<notin> m_iHash ` set (m_pFileList ?m))
        [0 ..< length (m_pFileList other')]"
    using findChanges_classifies [OF stable.hash_sort_axioms m(2) m(3) m(3) r] by (simp_all add: m(1))
  then have files: "m_pFileList this' = [demo_file]" "m_pFileList other' = [demo_file]" by simp_all
  have "verdict other' demo_file = Some CMP_SAME"
    by (simp add: verdict_def counterpart_def files isEquals_def demo_file_def MCFFile_new_def has_flag_def file_flags)
  then have "length (vSame c) = 1" "vDiff c = []" "vDel c = []" "vNew c = []"
    using arg_cong [OF cl(3), of length] cl(4-6) by (simp_all add: files with_verdict_def m)
  with r show ?thesis by blast
qed

section \<open>What the marking operations mark\<close>

definition update_files :: "nat set \<Rightarrow> (mcf_file \<Rightarrow> mcf_file) \<Rightarrow> mcf_file list \<Rightarrow> mcf_file list" where
  "update_files I g fs = map (\<lambda>j. if j \<in> I then g (fs ! j) else fs ! j) [0 ..< length fs]"

lemma update_files_simps [simp]:
  "length (update_files I g fs) = length fs"
  "j < length fs \<Longrightarrow> update_files I g fs ! j = (if j \<in> I then g (fs ! j) else fs ! j)"
  "update_files {} g fs = fs"
  by (simp_all add: update_files_def map_nth)

lemma at_indexes_eval:
  "distinct (map unat is) \<Longrightarrow> \<forall>i\<in>set is. unat i < length (m_pFileList m) \<Longrightarrow>
   at_indexes is g m = Inr (m\<lparr>m_pFileList := update_files (unat ` set is) g (m_pFileList m)\<rparr>)"
proof (induction "is" arbitrary: m)
  case (Cons i "is")
  let ?m = "update_file (unat i) g m"
  have "at_indexes is g ?m = Inr (?m\<lparr>m_pFileList := update_files (unat ` set is) g (m_pFileList ?m)\<rparr>)"
    using Cons.prems by (intro Cons.IH) (auto simp: update_file_def)
  moreover have "update_files (unat ` set is) g (m_pFileList ?m) = update_files (unat ` set (i # is)) g (m_pFileList m)"
    using Cons.prems by (intro nth_equalityI) (auto simp: update_file_def nth_list_update)
  ultimately show ?case using Cons.prems by (simp add: at_index_def update_file_def)
qed simp

lemma at_indexes_out:
  "unat i \<ge> length (m_pFileList m) \<Longrightarrow> at_indexes (i # is) g m = Inl UNDEFINED"
  by (simp add: at_index_def)

lemma verdict_indexes:
  assumes "small this"
  shows "distinct (map unat (map thisMcf (map (dif_of this other) (with_verdict this other vs (length (m_pFileList this))))))"
    and "unat ` set (map thisMcf (map (dif_of this other) (with_verdict this other vs (length (m_pFileList this)))))
      = {x. x < length (m_pFileList this) \<and> verdict other (m_pFileList this ! x) \<in> vs}"
    and "\<forall>i\<in>set (map thisMcf (map (dif_of this other) (with_verdict this other vs (length (m_pFileList this))))).
      unat i < length (m_pFileList this)"
proof -
  have eq: "map unat (map thisMcf (map (dif_of this other) (with_verdict this other vs (length (m_pFileList this)))))
      = with_verdict this other vs (length (m_pFileList this))"
    using map_this_with_verdict [OF assms] by (simp only: map_map o_assoc)
  then show "distinct (map unat (map thisMcf (map (dif_of this other) (with_verdict this other vs (length (m_pFileList this))))))"
    by (simp add: with_verdict_def)
  have img: "unat ` set xs = set (map unat xs)" for xs :: "u32 list" by simp
  show "unat ` set (map thisMcf (map (dif_of this other) (with_verdict this other vs (length (m_pFileList this)))))
      = {x. x < length (m_pFileList this) \<and> verdict other (m_pFileList this ! x) \<in> vs}"
    unfolding img eq by (auto simp: with_verdict_def)
  then show "\<forall>i\<in>set (map thisMcf (map (dif_of this other) (with_verdict this other vs (length (m_pFileList this))))).
      unat i < length (m_pFileList this)" by blast
qed

text \<open>The comparison does not look at the save flag.\<close>

lemma isEquals_save:
  "isEquals (addFlag FLAG_SAVE f) g = isEquals f g" "isEquals (delFlag FLAG_SAVE f) g = isEquals f g"
proof -
  have "has_flag (addFlag FLAG_SAVE f) FLAG_ZEROSIZE = has_flag f FLAG_ZEROSIZE"
    "has_flag (delFlag FLAG_SAVE f) FLAG_ZEROSIZE = has_flag f FLAG_ZEROSIZE"
    by (simp_all add: has_flag_add has_flag_del_other file_flags)
  then show "isEquals (addFlag FLAG_SAVE f) g = isEquals f g" "isEquals (delFlag FLAG_SAVE f) g = isEquals f g"
    by (simp_all add: isEquals_def addFlag_def delFlag_def split: option.split)
qed

text \<open>
  \<open>markChanged\<close> leaves marked for saving exactly the files of the (sorted) list that are not the
  same in the other archive, and changes nothing but that flag.
\<close>

theorem markChanged_marks:
  assumes "hash_sort srt" and "\<not> m_bStopped this" and "small this" and "small other"
  shows "\<exists>m'. markChanged srt other this = Inr (m', sortFileList srt other)
    \<and> length (m_pFileList m') = length (m_pFileList this)
    \<and> (\<forall>x < length (m_pFileList this).
        let f = srt (m_pFileList this) ! x; f' = m_pFileList m' ! x
        in (isSaved f' \<longleftrightarrow> verdict (sortFileList srt other) f \<noteq> Some CMP_SAME)
           \<and> (\<exists>flags. f' = f\<lparr>m_uiFlags := flags\<rparr>))"
proof -
  obtain this' other' c where r: "findChanges srt other this = (this', other', c)" by (metis prod_cases3)
  note ev = findChanges_eval [OF assms r]
  let ?same = "{x. x < length (m_pFileList this') \<and> verdict other' (m_pFileList this' ! x) \<in> {Some CMP_SAME}}"
  let ?fs = "update_files ?same (delFlag FLAG_SAVE) (map (addFlag FLAG_SAVE) (m_pFileList this'))"
  have len: "length (m_pFileList this') = length (m_pFileList this)"
    by (simp add: ev(1) sortFileList_def hash_sort.length_srt [OF assms(1)])
  have "markChanged srt other this = Inr (this'\<lparr>m_pFileList := ?fs\<rparr>, other')"
    using assms(2) verdict_indexes [OF ev(3), of other' "{Some CMP_SAME}"]
    by (simp add: markChanged_def r at_indexes_eval ev(5))
  moreover have "isSaved (delFlag FLAG_SAVE f) = False" "isSaved (addFlag FLAG_SAVE f) = True" for f
    by (simp_all add: isSaved_def has_flag_add file_flags)
  moreover have "\<exists>flags. delFlag FLAG_SAVE (addFlag FLAG_SAVE f) = f\<lparr>m_uiFlags := flags\<rparr>"
    "\<exists>flags. addFlag FLAG_SAVE f = f\<lparr>m_uiFlags := flags\<rparr>" for f
    by (auto simp: addFlag_def delFlag_def)
  moreover have "m_pFileList this' = srt (m_pFileList this)" by (simp add: ev(1) sortFileList_def)
  ultimately show ?thesis
    by (intro exI [of _ "this'\<lparr>m_pFileList := ?fs\<rparr>"]) (auto simp: Let_def len ev(2) hash_sort.length_srt [OF assms(1)])
qed

theorem markChanged_marks_witness:
  "\<exists>m'. markChanged (sort_key m_iHash) (MCF_new 4) (addFile demo_file (MCF_new 4)) = Inr (m', sortFileList (sort_key m_iHash) (MCF_new 4))
    \<and> isSaved (m_pFileList m' ! 0)"
proof -
  let ?m = "addFile demo_file (MCF_new 4)"
  have m: "m_pFileList ?m = [demo_file]" "\<not> m_bStopped ?m" "small ?m" "small (MCF_new 4)"
    by (simp_all add: addFile_def MCF_new_def setWorkerCount_def small_def)
  have "verdict (sortFileList (sort_key m_iHash) (MCF_new 4)) demo_file = None"
    by (simp add: verdict_def counterpart_def sortFileList_def MCF_new_def setWorkerCount_def)
  then show ?thesis
    using markChanged_marks [OF stable.hash_sort_axioms m(2-4)] by (auto simp: m(1) Let_def)
qed

text \<open>
  Tagging new files indexes this archive's list with the marker for no index: whenever the other
  archive has a file this one lacks, \<open>markFiles\<close> with \<open>tagNew\<close> reads outside the list.
\<close>

theorem markFiles_new_undefined:
  assumes "hash_sort srt" and "\<not> m_bStopped this" and "small this" and "small other"
    and "distinct (map m_iHash (m_pFileList other))"
    and "g \<in> set (m_pFileList other)" and "m_iHash g \<notin> m_iHash ` set (m_pFileList this)"
  shows "markFiles srt tagSame tagChanged tagDeleted True other this = Inl UNDEFINED"
proof -
  obtain this' other' c where r: "findChanges srt other this = (this', other', c)" by (metis prod_cases3)
  note ev = findChanges_eval [OF assms(1-4) r]
  have lists: "set (m_pFileList this') = set (m_pFileList this)" "set (m_pFileList other') = set (m_pFileList other)"
    by (simp_all add: ev(1,2) sortFileList_def hash_sort.set_srt [OF assms(1)])
  have d: "distinct (map m_iHash (m_pFileList other'))"
    using assms(5) by (simp add: ev(2) sortFileList_def hash_sort.distinct_hashes [OF assms(1)])
  obtain y where y: "y < length (m_pFileList other')" "m_pFileList other' ! y = g"
    using assms(6) lists by (metis in_set_conv_nth)
  have "vNew c \<noteq> []"
    unfolding ev(8) using used_elements [OF ev(4) d y(1), of this'] y assms(7) lists by (auto simp: filter_empty_conv)
  then obtain t ts where new: "map thisMcf (vNew c) = UNKNOWN_ITEM # ts"
    unfolding ev(8) by (cases "vNew c") (auto simp: ev(8))
  have out: "at_indexes (UNKNOWN_ITEM # ts) h m = Inl UNDEFINED" if "length (m_pFileList m) = length (m_pFileList this')" for h m
    using ev(3) that by (intro at_indexes_out) (simp add: small_def UNKNOWN_ITEM_def)
  let ?m = "this'\<lparr>m_pFileList := map (delFlag FLAG_SAVE) (m_pFileList this')\<rparr>"
  have step: "\<exists>m'. at_indexes (if b then map thisMcf xs else []) h m = Inr m' \<and> length (m_pFileList m') = length (m_pFileList this')"
    if "xs = map (dif_of this' other') (with_verdict this' other' vs (length (m_pFileList this')))"
      "length (m_pFileList m) = length (m_pFileList this')" for xs vs b h m
    using verdict_indexes [OF ev(3), of other' vs] that by (cases b) (simp_all add: at_indexes_eval)
  obtain m1 where m1: "at_indexes (if tagSame then map thisMcf (vSame c) else []) (addFlag FLAG_SAVE) ?m = Inr m1"
    "length (m_pFileList m1) = length (m_pFileList this')" using step [OF ev(5), of ?m] by auto
  obtain m2 where m2: "at_indexes (if tagChanged then map thisMcf (vDiff c) else []) (addFlag FLAG_SAVE) m1 = Inr m2"
    "length (m_pFileList m2) = length (m_pFileList this')" using step [OF ev(6) m1(2)] by blast
  obtain m3 where m3: "at_indexes (if tagDeleted then map thisMcf (vDel c) else []) (addFlag FLAG_SAVE) m2 = Inr m3"
    "length (m_pFileList m3) = length (m_pFileList this')" using step [OF ev(7) m2(2)] by blast
  show ?thesis
    using assms(2) by (simp add: markFiles_def r Let_def m1(1) m2(1) m3(1) new out [OF m3(2)] del: at_indexes.simps)
qed

theorem markFiles_new_undefined_witness:
  "markFiles (sort_key m_iHash) True True True True (addFile demo_file (MCF_new 4)) (MCF_new 4) = Inl UNDEFINED"
  by (rule markFiles_new_undefined [OF stable.hash_sort_axioms, where g = demo_file])
     (simp_all add: addFile_def MCF_new_def setWorkerCount_def small_def)

end
