(* ===== verification/Mcf_Save.thy ===== *)
theory Mcf_Save
  imports Mcf_Diff
begin

text \<open>
  Saving and loading an archive: \<^verbatim>\<open>src/src/shared/mcfcore/code/mcf/MCF_Save.cpp\<close>. The bzip2 compressor and
  decompressor and the XML parser (third-party) are parameters.
\<close>

unbundle bit_operations_syntax

section \<open>Helpers\<close>

definition ConvertTimeStringToInt :: "string \<Rightarrow> u64" where
  "ConvertTimeStringToInt timeStr =
     Safe_atoll (Some
       (case find_from timeStr ''T'' 0 of None \<Rightarrow> timeStr
        | Some tPos \<Rightarrow> take tPos timeStr @ drop (tPos + 1) timeStr))"

text \<open>The download buffer: its bytes so far and its size; what does not fit is dropped.\<close>

record OutBuffer =
  m_szBuffer :: bytes
  m_uiBuffSize :: u32

definition OutBuffer_new :: "u32 \<Rightarrow> OutBuffer" where
  "OutBuffer_new sz = \<lparr>m_szBuffer = [], m_uiBuffSize = sz\<rparr>"

definition OutBuffer_writeData :: "bytes \<Rightarrow> OutBuffer \<Rightarrow> OutBuffer \<times> bool" where
  "OutBuffer_writeData data b =
     (let room = unat (m_uiBuffSize b) - length (m_szBuffer b);
          bsize = (if length data > room then room else length data)
      in (if bsize = 0 then b else b\<lparr>m_szBuffer := m_szBuffer b @ take bsize data\<rparr>, True))"

definition OutBuffer_reset :: "OutBuffer \<Rightarrow> OutBuffer" where
  "OutBuffer_reset b = b\<lparr>m_szBuffer := []\<rparr>"

definition bytes_of :: "string \<Rightarrow> bytes" where
  "bytes_of s = map byte_of_char s"

section \<open>The XML and the header\<close>

text \<open>
  \<open>XMLSaveAndCompress\<close> fed with pieces and finished: with compression, the compressed text is written.
\<close>

definition write_xml ::
  "(bytes \<Rightarrow> bytes) \<Rightarrow> bool \<Rightarrow> fs \<Rightarrow> file_handle \<Rightarrow> bytes list \<Rightarrow> (fs \<times> file_handle \<times> u64) res" where
  "write_xml bz2c compress disk h pieces =
     (if compress then
        (let out = bz2c (concat pieces)
         in bind_res (fh_write disk h out) (\<lambda>(disk, h). Inr (disk, h, of_nat (length out))))
      else
        bind_res (sac_saves \<lparr>sac_disk = disk, m_fhFile = h, m_szWriteBuf = [], m_uiRawSize = 0,
                             m_uiTotalSize = 0\<rparr> pieces) (\<lambda>s.
        bind_res (sac_finish s) (\<lambda>s. Inr (sac_disk s, m_fhFile s, sac_getTotalSize s))))"

text \<open>The end of the last saved file or diff; the size of the header when there is none.\<close>

definition data_end_step :: "mcf_file \<Rightarrow> u64 \<Rightarrow> u64" where
  "data_end_step f offset =
     (if \<not> isSaved f then offset
      else
        let pos = m_llOffset f + getCurSize f;
            offset = (if offset < pos then pos else offset);
            diffpos = m_llDiffOffset f + m_llDiffSize f
        in if hasDiff f \<and> offset < diffpos then diffpos else offset)"

definition xml_offset :: "mcf \<Rightarrow> u64" where
  "xml_offset m =
     (let offset = fold data_end_step (m_pFileList m) 0
      in if offset = 0 then of_nat (getSize (m_sHeader m)) else offset)"

definition saveMCF_Header :: "(bytes \<Rightarrow> bytes) \<Rightarrow> fs \<Rightarrow> mcf \<Rightarrow> (fs \<times> mcf) res" where
  "saveMCF_Header bz2c disk m =
     (let offset = xml_offset m in
      bind_res (fh_open disk (Some (m_szFile m)) FILE_APPEND 0) (\<lambda>(disk, hFile).
      bind_res (fh_seek hFile offset) (\<lambda>hFile.
      bind_res (write_xml bz2c (mcf_isCompressed m) disk hFile (map bytes_of (genXml m))) (\<lambda>(disk, hFile, total).
      let head = (m_sHeader m)\<lparr>m_iXmlStart := offset, m_iXmlSize := ucast total\<rparr> in
      bind_res (header_saveToFile disk head hFile) (\<lambda>(disk, _).
      Inr (disk, m\<lparr>m_sHeader := head\<rparr>))))))"

definition saveMCFHeader :: "(bytes \<Rightarrow> bytes) \<Rightarrow> fs \<Rightarrow> mcf \<Rightarrow> (fs \<times> mcf) res" where
  "saveMCFHeader bz2c disk m = (if m_bStopped m then Inr (disk, m) else saveMCF_Header bz2c disk m)"

definition makeCRC :: "(bytes \<Rightarrow> bytes) \<Rightarrow> fs \<Rightarrow> mcf \<Rightarrow> (fs \<times> mcf) res" where
  "makeCRC bz2c disk m =
     bind_res (getReadHandle disk m) (\<lambda>hFile.
     bind_res (crc_generate_all disk hFile (m_pFileList m)) (\<lambda>fs.
     saveMCF_Header bz2c disk (m\<lparr>m_pFileList := fs\<rparr>)))"

text \<open>\<open>saveBlankMcf\<close>: the list is saved as if no file were in the archive, then the flags come back.\<close>

definition saveBlankMcf :: "(bytes \<Rightarrow> bytes) \<Rightarrow> fs \<Rightarrow> mcf \<Rightarrow> (fs \<times> mcf) res" where
  "saveBlankMcf bz2c disk m =
     (let saved = filter (\<lambda>x. isSaved (m_pFileList m ! x)) [0 ..< length (m_pFileList m)];
          m1 = fold (\<lambda>x. update_file x (delFlag FLAG_SAVE)) saved m
      in bind_res (saveMCF_Header bz2c disk m1) (\<lambda>(disk, m2).
         Inr (disk, fold (\<lambda>x. update_file x (addFlag FLAG_SAVE)) saved m2)))"

text \<open>\<open>saveXml\<close> sorts by offset (\<open>osrt\<close>); failures to write are only logged.\<close>

definition saveXml :: "sorter \<Rightarrow> fs \<Rightarrow> string option \<Rightarrow> mcf \<Rightarrow> (fs \<times> mcf) res" where
  "saveXml osrt disk file m =
     bind_res (fh_open disk file FILE_WRITE 0) (\<lambda>(disk, handle).
     let m = m\<lparr>m_pFileList := osrt (m_pFileList m)\<rparr> in
     (case write_xml (\<lambda>x. x) False disk handle (map bytes_of (genXml m)) of
        Inl _ \<Rightarrow> Inr (disk, m)
      | Inr (disk, _, _) \<Rightarrow> Inr (disk, m)))"

text \<open>The digest of no data marks a compressed checksum that was never computed.\<close>

definition empty_md5 :: string where
  "empty_md5 = ''d41d8cd98f00b204e9800998ecf8427e''"

fun fix_all :: "(bytes \<Rightarrow> string) \<Rightarrow> fs \<Rightarrow> file_handle \<Rightarrow> mcf_file list \<Rightarrow> (mcf_file list \<times> bool) res" where
  "fix_all md5 disk h [] = Inr ([], False)"
| "fix_all md5 disk h (f # fs) =
     (if \<not> isSaved f then bind_res (fix_all md5 disk h fs) (\<lambda>(fs', b). Inr (f # fs', b))
      else
        bind_res (if isCompressed f \<and> m_szCCsum f = empty_md5
                  then bind_res (generateMD5 md5 disk h f) (\<lambda>(f, _). Inr f) else Inr f) (\<lambda>f.
        bind_res (generateCRC disk h f) (\<lambda>(f, _).
        bind_res (fix_all md5 disk h fs) (\<lambda>(fs', _). Inr (f # fs', True)))))"

definition fixMD5AndCRC ::
  "(bytes \<Rightarrow> string) \<Rightarrow> (bytes \<Rightarrow> bytes) \<Rightarrow> fs \<Rightarrow> mcf \<Rightarrow> (fs \<times> mcf \<times> bool) res" where
  "fixMD5AndCRC md5 bz2c disk m =
     bind_res (getReadHandle disk m) (\<lambda>handle.
     bind_res (fix_all md5 disk handle (m_pFileList m)) (\<lambda>(fs, fixed).
     let m = m\<lparr>m_pFileList := fs\<rparr> in
     if fixed then bind_res (saveMCF_Header bz2c disk m) (\<lambda>(disk, m). Inr (disk, m, True))
     else Inr (disk, m, False)))"

text \<open>
  \<open>parseMCF\<close>: the XML is read with one more (zero) byte behind it; \<open>parse\<close> is the XML parser, \<open>bz2d\<close> the
  decompressor. A size that leaves no room for the zero byte makes the buffer empty.
\<close>

definition parseMCF ::
  "(bytes \<Rightarrow> bytes option) \<Rightarrow> (bytes \<Rightarrow> xml option) \<Rightarrow> fs \<Rightarrow> mcf \<Rightarrow> mcf res" where
  "parseMCF bz2d parse disk m =
     (if m_bStopped m then Inr m
      else
        bind_res (getReadHandle disk m) (\<lambda>hFile.
        bind_res (header_readFromFile disk UMcfHeader_new hFile) (\<lambda>(tempHeader, hFile).
        let m = setHeader (Some tempHeader) (m\<lparr>m_pFileList := []\<rparr>) in
        bind_res (fh_seek hFile (m_iXmlStart tempHeader)) (\<lambda>hFile.
        if m_iXmlSize tempHeader + 1 = 0 then Inl UNDEFINED
        else
          bind_res (fh_read disk hFile (unat (m_iXmlSize tempHeader))) (\<lambda>(xmlBuff, hFile).
          if m_iFlags (m_sHeader m) AND FLAG_NOTCOMPRESSED \<noteq> 0 then parseXml (parse (xmlBuff @ [0])) m
          else (case bz2d (xmlBuff @ [0]) of
                  None \<Rightarrow> Inl ERR_BZ2
                | Some out \<Rightarrow> if out = [] then Inl ERR_BZ2 else parseXml (parse out) m))))))"

text \<open>
  \<open>preAllocateFile\<close> seeks up to the end in steps of 10 MiB. Seeking does not make the file longer, so all
  that can come of it is a failed seek (at the first step past the range of file offsets); a cancelled
  run seeks nowhere and removes the file.
\<close>

definition preAllocateFile :: "fs \<Rightarrow> mcf \<Rightarrow> fs res" where
  "preAllocateFile disk m =
     (let offset = getDLSize m + of_nat (getSize (m_sHeader m)) in
      bind_res (fh_open disk (Some (m_szFile m)) FILE_APPEND 0) (\<lambda>(disk, hFile).
      let pos = getFileSize disk (m_szFile m) in
      if m_bStopped m then Inr (delFile disk (m_szFile m))
      else if pos < offset \<and> 2 ^ 63 \<le> unat offset then Inl ERR_FAILEDSEEK
      else Inr disk))"

section \<open>What the third-party code promises\<close>

text \<open>bzip2 gives back what was compressed, also with a byte behind the end of the stream.\<close>

definition bz2_ok :: "(bytes \<Rightarrow> bytes) \<Rightarrow> (bytes \<Rightarrow> bytes option) \<Rightarrow> bool" where
  "bz2_ok bz2c bz2d \<longleftrightarrow> (\<forall>x. x \<noteq> [] \<longrightarrow> bz2c x \<noteq> [] \<and> bz2d (bz2c x @ [0]) = Some x)"

text \<open>The XML parser reads the printed form of a tree, also with a zero byte behind it.\<close>

definition parser_reads :: "(bytes \<Rightarrow> xml option) \<Rightarrow> xml \<Rightarrow> bool" where
  "parser_reads parse e \<longleftrightarrow>
     parse (bytes_of (xml_declaration @ print_xml e)) = Some e
     \<and> parse (bytes_of (xml_declaration @ print_xml e) @ [0]) = Some e"

section \<open>Saving and loading\<close>

definition xml_text :: "mcf \<Rightarrow> bytes" where
  "xml_text m = bytes_of (concat (genXml m))"

definition xml_stored :: "(bytes \<Rightarrow> bytes) \<Rightarrow> mcf \<Rightarrow> bytes" where
  "xml_stored bz2c m = (if mcf_isCompressed m then bz2c (xml_text m) else xml_text m)"

definition file_content :: "fs \<Rightarrow> string \<Rightarrow> bytes" where
  "file_content disk n = (case disk n of None \<Rightarrow> [] | Some c \<Rightarrow> c)"

lemma xml_text_pieces: "concat (map bytes_of (genXml m)) = xml_text m"
  by (simp add: xml_text_def bytes_of_def [abs_def] map_concat)

lemma xml_text_nonempty: "xml_text m \<noteq> []"
  by (simp add: xml_text_def bytes_of_def genXml_def xml_declaration_def)

lemma xml_text_tree: "xml_text m = bytes_of (xml_declaration @ print_xml (files_elem (m_pFileList m)))"
  by (simp add: xml_text_def genXml_prints)

lemma write_xml_eval:
  assumes "m_bIsOpen h" and "fh_mode h \<noteq> FILE_READ" and "xml_stored bz2c m \<noteq> []"
  shows "write_xml bz2c (mcf_isCompressed m) disk h (map bytes_of (genXml m)) =
    Inr (disk(fh_name h \<mapsto> put_bytes (fh_content disk h) (fh_pos h) (xml_stored bz2c m)),
         h\<lparr>fh_pos := fh_pos h + length (xml_stored bz2c m)\<rparr>, of_nat (length (xml_stored bz2c m)))"
proof (cases "mcf_isCompressed m")
  case True
  then show ?thesis
    using assms by (simp add: write_xml_def xml_text_pieces xml_stored_def fh_write_def Let_def)
next
  case False
  obtain s' where s': "bind_res (sac_saves \<lparr>sac_disk = disk, m_fhFile = h, m_szWriteBuf = [], m_uiRawSize = 0,
      m_uiTotalSize = 0\<rparr> (map bytes_of (genXml m))) sac_finish = Inr s'"
    "sac_disk s' = disk(fh_name h \<mapsto> put_bytes (fh_content disk h) (fh_pos h) (xml_text m))"
    "m_fhFile s' = h\<lparr>fh_pos := fh_pos h + length (xml_text m)\<rparr>"
    "sac_getTotalSize s' = of_nat (length (xml_text m))"
    using sac_writes [OF assms(1,2) refl, of disk "map bytes_of (genXml m)"] xml_text_nonempty
    unfolding xml_text_pieces by auto
  then show ?thesis
    using False by (auto simp: write_xml_def xml_stored_def bind_res_Inr)
qed

definition saved_header :: "(bytes \<Rightarrow> bytes) \<Rightarrow> mcf \<Rightarrow> UMcfHeader" where
  "saved_header bz2c m =
     (m_sHeader m)\<lparr>m_iXmlStart := xml_offset m, m_iXmlSize := of_nat (length (xml_stored bz2c m))\<rparr>"

lemma saveMCF_Header_eval:
  assumes "header_ok (m_sHeader m)" and "unat (xml_offset m) < 2 ^ 63" and "xml_stored bz2c m \<noteq> []"
  shows "saveMCF_Header bz2c disk m =
    Inr (disk(m_szFile m \<mapsto> put_bytes (put_bytes (file_content disk (m_szFile m)) (unat (xml_offset m))
           (xml_stored bz2c m)) 0 (header_bytes (saved_header bz2c m))),
         m\<lparr>m_sHeader := saved_header bz2c m\<rparr>)"
proof -
  let ?n = "m_szFile m" and ?X = "xml_stored bz2c m" and ?head = "saved_header bz2c m"
  have ok: "header_ok ?head" using assms(1) by (simp add: header_ok_def saved_header_def)
  have ne: "header_bytes ?head \<noteq> []"
    using headerToStr_ok(2) [OF ok] by (auto simp: getSize_def MCF_HEADERSIZE_V1_def MCF_HEADERSIZE_V2_def split: if_splits)
  obtain disk1 h where open_h: "fh_open disk (Some ?n) FILE_APPEND 0 = Inr (disk1, h)"
    and h: "m_bIsOpen h" "fh_mode h \<noteq> FILE_READ" "fh_name h = ?n" "m_uiOffset h = 0"
    and c: "fh_content disk1 h = file_content disk ?n" and d: "disk1(?n \<mapsto> x) = disk(?n \<mapsto> x)" for x
    by (cases "disk ?n") (auto simp: fh_open_def fh_content_def file_content_def)
  let ?h = "h\<lparr>fh_pos := unat (xml_offset m)\<rparr>"
  have seek: "fh_seek h (xml_offset m) = Inr ?h" using assms(2) h by (simp add: fh_seek_def)
  have "fh_content disk1 ?h = file_content disk ?n" using c by (simp add: fh_content_def)
  then have xml: "write_xml bz2c (mcf_isCompressed m) disk1 ?h (map bytes_of (genXml m)) =
      Inr (disk(?n \<mapsto> put_bytes (file_content disk ?n) (unat (xml_offset m)) ?X),
           ?h\<lparr>fh_pos := unat (xml_offset m) + length ?X\<rparr>, of_nat (length ?X))"
    using write_xml_eval [of ?h bz2c m disk1] h assms(3) d by simp
  have head: "(m_sHeader m)\<lparr>m_iXmlStart := xml_offset m, m_iXmlSize := ucast (of_nat (length ?X) :: u64)\<rparr> = ?head"
  proof -
    have "(ucast (of_nat n :: u64) :: u32) = of_nat n" for n
      by (rule bit_word_eqI) (auto simp: bit_simps)
    then show ?thesis by (simp only: saved_header_def)
  qed
  have seek0: "m_bIsOpen g \<Longrightarrow> m_uiOffset g = 0 \<Longrightarrow> fh_seek g 0 = Inr (g\<lparr>fh_pos := 0\<rparr>)" for g
    by (simp add: fh_seek_def)
  show ?thesis
    using h ne by (simp add: saveMCF_Header_def Let_def open_h seek xml head header_saveToFile_def
        headerToStr_ok(1) [OF ok] seek0 fh_write_def fh_content_def)
qed

lemma UMcfHeader_copy_id: "m_szId h = default_header \<Longrightarrow> UMcfHeader_copy (Some h) = h"
  by (intro UMcfHeader.equality) (simp_all add: UMcfHeader_copy_def UMcfHeader_new_def)

text \<open>The two reads of \<open>parseMCF\<close>: the header and the XML behind the data.\<close>

lemma saved_reads:
  assumes "header_ok (m_sHeader m)" and "m_iFileVer (m_sHeader m) = 2" and "35 \<le> unat (xml_offset m)"
    and "F = put_bytes (put_bytes c (unat (xml_offset m)) (xml_stored bz2c m)) 0 (header_bytes (saved_header bz2c m))"
  shows "get_bytes F 0 35 = Some (header_bytes (saved_header bz2c m))"
    and "get_bytes F (unat (xml_offset m)) (length (xml_stored bz2c m)) = Some (xml_stored bz2c m)"
    and "35 \<le> q \<Longrightarrow> q + n \<le> unat (xml_offset m) \<Longrightarrow> get_bytes c q n = Some d \<Longrightarrow> get_bytes F q n = Some d"
proof -
  have ok: "header_ok (saved_header bz2c m)" using assms(1) by (simp add: header_ok_def saved_header_def)
  have len: "length (header_bytes (saved_header bz2c m)) = 35"
    using headerToStr_ok(2) [OF ok] assms(2) by (simp add: getSize_def saved_header_def MCF_HEADERSIZE_V2_def)
  show "get_bytes F 0 35 = Some (header_bytes (saved_header bz2c m))"
    using disk.get_put_same [of _ 0 "header_bytes (saved_header bz2c m)"] by (simp add: assms(4) len)
  show "get_bytes F (unat (xml_offset m)) (length (xml_stored bz2c m)) = Some (xml_stored bz2c m)"
    unfolding assms(4) using assms(3) len by (intro disk.get_put_after disk.get_put_same) simp
  show "get_bytes F q n = Some d" if "35 \<le> q" "q + n \<le> unat (xml_offset m)" "get_bytes c q n = Some d"
    unfolding assms(4) using that len by (intro disk.get_put_after disk.get_put_before) simp_all
qed

text \<open>
  C32: Saving the list and header of an archive and parsing the file gives the list and the header back,
  compressed or not, and leaves the stored data and every other file alone.
\<close>

theorem save_parse_roundtrip:
  assumes "header_ok (m_sHeader m)" and "m_iFileVer (m_sHeader m) = 2"
    and "\<forall>f\<in>set (m_pFileList m). file_canonical f"
    and "35 \<le> unat (xml_offset m)" and "xml_offset m < 2 ^ 52"
    and "length (xml_stored bz2c m) < 2 ^ 32 - 1"
    and "bz2_ok bz2c bz2d" and "parser_reads parse (files_elem (m_pFileList m))"
    and "m_szFile m2 = m_szFile m" and "m_uiFileOffset m2 = 0" and "\<not> m_bStopped m2"
  shows "\<exists>disk' m1. saveMCF_Header bz2c disk m = Inr (disk', m1)
    \<and> parseMCF bz2d parse disk' m2 = Inr (m2\<lparr>m_pFileList := m_pFileList m, m_sHeader := m_sHeader m1\<rparr>)
    \<and> (\<forall>q n d. 35 \<le> q \<longrightarrow> q + n \<le> unat (xml_offset m) \<longrightarrow>
         get_bytes (file_content disk (m_szFile m)) q n = Some d \<longrightarrow>
         get_bytes (file_content disk' (m_szFile m)) q n = Some d)
    \<and> (\<forall>name. name \<noteq> m_szFile m \<longrightarrow> disk' name = disk name)"
proof -
  let ?n = "m_szFile m" and ?X = "xml_stored bz2c m" and ?off = "xml_offset m" and ?head = "saved_header bz2c m"
  let ?F = "put_bytes (put_bytes (file_content disk ?n) (unat ?off) ?X) 0 (header_bytes ?head)"
  let ?disk = "disk(?n \<mapsto> ?F)"
  have X: "?X \<noteq> []" using assms(7) xml_text_nonempty by (simp add: xml_stored_def bz2_ok_def)
  have "unat ?off < 2 ^ 52" using assms(5) by (simp add: word_less_nat_alt)
  then have off: "unat ?off < 2 ^ 63" by (rule less_trans) simp
  have ok: "header_ok ?head" using assms(1) by (simp add: header_ok_def saved_header_def)
  have small: "k < 2 ^ 32 \<Longrightarrow> unat (of_nat k :: u32) = k" for k
    by (simp add: unat_of_nat take_bit_nat_eq_self)
  have size: "unat (of_nat (length ?X) :: u32) = length ?X"
    using assms(6) by (intro small) simp
  have size1: "(of_nat (length ?X) :: u32) + 1 \<noteq> 0"
  proof
    assume "(of_nat (length ?X) :: u32) + 1 = 0"
    then have "unat (of_nat (length ?X + 1) :: u32) = 0" by (simp add: add.commute)
    moreover have "unat (of_nat (length ?X + 1) :: u32) = length ?X + 1"
      using assms(6) by (intro small) simp
    ultimately show False by simp
  qed
  have start: "?head\<lparr>m_iXmlStart := xml_start_stored (m_iXmlStart ?head)\<rparr> = ?head"
    using xml_start_stored_id [OF assms(5)] by (simp add: saved_header_def)
  have valid: "header_isValid ?head" and copy: "UMcfHeader_copy (Some ?head) = ?head"
    using ok by (auto intro: header_isValid_default UMcfHeader_copy_id simp: header_ok_def)
  note reads = saved_reads [OF assms(1,2,4) refl, where c = "file_content disk ?n" and bz2c = bz2c]
  let ?m = "setHeader (Some ?head) (m2\<lparr>m_pFileList := []\<rparr>)"
  let ?r = "m2\<lparr>m_pFileList := m_pFileList m, m_sHeader := ?head\<rparr>"
  have px: "parseXml (Some (files_elem (m_pFileList m))) ?m = Inr ?r"
    using parseXml_files [OF assms(3), of ?m] assms(11) by (simp add: setHeader_def copy)
  have body: "(if m_iFlags (m_sHeader m) AND FLAG_NOTCOMPRESSED \<noteq> 0 then parseXml (parse (?X @ [0])) ?m
      else (case bz2d (?X @ [0]) of None \<Rightarrow> Inl ERR_BZ2
        | Some out \<Rightarrow> if out = [] then Inl ERR_BZ2 else parseXml (parse out) ?m)) = Inr ?r"
    using assms(7,8) px xml_text_nonempty
    by (auto simp: xml_stored_def mcf_isCompressed_def bz2_ok_def parser_reads_def xml_text_tree)
  have parsed: "parseMCF bz2d parse ?disk m2 = Inr ?r"
  proof -
    let ?h = "\<lambda>p. \<lparr>m_bIsOpen = True, fh_name = ?n, fh_mode = FILE_READ, m_uiOffset = 0, fh_pos = p\<rparr>"
    have handle: "getReadHandle ?disk m2 = Inr (?h 0)"
      using assms(9,10) by (simp add: getReadHandle_def fh_open_def)
    have "getSize UMcfHeader_new = 35"
      by (simp add: getSize_def UMcfHeader_new_def MCF_HEADERSIZE_V2_def)
    then have head: "header_readFromFile ?disk UMcfHeader_new (?h 0) = Inr (?head, ?h 35)"
      using reads(1) valid strToHeader_header_bytes [OF ok, of UMcfHeader_new]
      by (simp add: header_readFromFile_def fh_read_def fh_content_def start)
    have seek: "fh_seek (?h 35) ?off = Inr (?h (unat ?off))"
      using off by (simp add: fh_seek_def)
    have xml: "fh_read ?disk (?h (unat ?off)) (length ?X)
        = Inr (?X, ?h (unat ?off + length ?X))"
      using reads(2) X by (simp add: fh_read_def fh_content_def)
    have fields: "m_iXmlStart ?head = ?off" "m_iXmlSize ?head = of_nat (length ?X)"
        "m_iFlags ?head = m_iFlags (m_sHeader m)"
      by (simp_all add: saved_header_def)
    have flags: "m_iFlags (m_sHeader ?m) = m_iFlags (m_sHeader m)"
      by (simp add: setHeader_def copy fields)
    show ?thesis
      using assms(11) body
      by (simp add: parseMCF_def handle head seek xml fields flags size size1 Let_def del: fun_upd_apply)
  qed
  show ?thesis
    using saveMCF_Header_eval [OF assms(1) off X, of disk] parsed reads(3)
    by (auto simp: file_content_def)
qed


theorem save_parse_roundtrip_witness:
  "\<exists>disk' m1. saveMCF_Header (\<lambda>x. x) [''m'' \<mapsto> replicate 40 7]
        ((MCF_new 4)\<lparr>m_szFile := ''m''\<rparr>) = Inr (disk', m1)
    \<and> parseMCF (\<lambda>x. Some (butlast x)) (\<lambda>_. Some (files_elem [])) disk' ((MCF_new 2)\<lparr>m_szFile := ''m''\<rparr>)
        = Inr ((MCF_new 2)\<lparr>m_szFile := ''m'', m_sHeader := m_sHeader m1\<rparr>)"
proof -
  let ?m = "(MCF_new 4)\<lparr>m_szFile := ''m''\<rparr>" and ?m2 = "(MCF_new 2)\<lparr>m_szFile := ''m''\<rparr>"
  have list: "m_pFileList ?m = []" "m_szFile ?m = ''m''" "m_szFile ?m2 = ''m''" "m_uiFileOffset ?m2 = 0" "\<not> m_bStopped ?m2"
    "m_pFileList ?m2 = []" "m_sHeader ?m = UMcfHeader_new"
    by (simp_all add: MCF_new_def setWorkerCount_def)
  have off: "xml_offset ?m = 35"
    by (simp add: xml_offset_def list getSize_def UMcfHeader_new_def MCF_HEADERSIZE_V2_def)
  have "length (xml_stored (\<lambda>x. x) ?m) < 2 ^ 32 - 1"
    by (simp add: xml_stored_def xml_text_def bytes_of_def genXml_def list xml_declaration_def)
  moreover have "bz2_ok (\<lambda>x. x) (\<lambda>x. Some (butlast x))" by (simp add: bz2_ok_def)
  moreover have "parser_reads (\<lambda>_. Some (files_elem [])) (files_elem (m_pFileList ?m))"
    by (simp add: parser_reads_def list)
  moreover have "header_ok (m_sHeader ?m)"
    by (simp add: list header_ok_def UMcfHeader_new_def MCFBranch_default_def)
  moreover have "m_iFileVer (m_sHeader ?m) = 2" by (simp add: list UMcfHeader_new_def)
  ultimately show ?thesis
    using save_parse_roundtrip [of ?m "\<lambda>x. x" "\<lambda>x. Some (butlast x)" "\<lambda>_. Some (files_elem [])" ?m2
        "[''m'' \<mapsto> replicate 40 7]"] off list
    by auto
qed

end
