(* ===== verification/Mcf_Merge.thy ===== *)
theory Mcf_Merge
  imports Mcf_Save
begin

text \<open>
  Moving files from one archive to another: \<open>copyFile\<close> and the operations built on it in
  \<^verbatim>\<open>src/src/shared/mcfcore/code/mcf/MCF_Patch.cpp\<close> and \<^verbatim>\<open>MCF_Save.cpp\<close>: \<open>copyMissingFiles\<close>,
  \<open>makeFullFile\<close>, \<open>makeBackPatchMCF\<close>, \<open>exportMcf\<close> and \<open>optimiseAndSaveMcf\<close>.
\<close>

unbundle bit_operations_syntax

section \<open>CRC blocks of a stream\<close>

record CRCInfo =
  vCRCList :: "u32 list"
  m_uiCrc :: u32
  m_uiCount :: u32
  m_uiBlockSize :: u32

definition CRCInfo_new :: "u32 \<Rightarrow> CRCInfo" where
  "CRCInfo_new blockSize =
     \<lparr>vCRCList = [], m_uiCrc = 0xFFFFFFFF, m_uiCount = 0, m_uiBlockSize = blockSize\<rparr>"

definition CRCInfo_finish :: "CRCInfo \<Rightarrow> CRCInfo" where
  "CRCInfo_finish c =
     c\<lparr>vCRCList := vCRCList c @ [NOT (m_uiCrc c)], m_uiCrc := 0xFFFFFFFF, m_uiCount := 0\<rparr>"

fun CRCInfo_generate :: "bytes \<Rightarrow> CRCInfo \<Rightarrow> CRCInfo" where
  "CRCInfo_generate [] c = c"
| "CRCInfo_generate (b # bs) c =
     (let c = (if m_uiCount c = m_uiBlockSize c then CRCInfo_finish c else c)
      in CRCInfo_generate bs (c\<lparr>m_uiCrc := CRC32_byte b (m_uiCrc c), m_uiCount := m_uiCount c + 1\<rparr>))"

lemma CRCInfo_generate_append:
  "CRCInfo_generate (as @ bs) c = CRCInfo_generate bs (CRCInfo_generate as c)"
  by (induction as arbitrary: c) (simp_all add: Let_def)

section \<open>Copying one file\<close>

text \<open>
  Reading in pieces of 10 KiB from one handle and writing each piece to another. The disk is threaded,
  because both handles may be on the same file.
\<close>

function copy_loop ::
  "fs \<Rightarrow> file_handle \<Rightarrow> file_handle \<Rightarrow> nat \<Rightarrow> nat \<Rightarrow> (fs \<times> file_handle \<times> file_handle) res" where
  "copy_loop disk src dst len buffSize =
     (if len = 0 \<or> buffSize = 0 then Inr (disk, src, dst)
      else
        let buffSize' = (if buffSize > len then len else buffSize)
        in bind_res (fh_read disk src buffSize') (\<lambda>(d, src).
           bind_res (fh_write disk dst d) (\<lambda>(disk, dst).
           copy_loop disk src dst (len - buffSize') buffSize')))"
  by pat_completeness auto
termination
  by (relation "measure (\<lambda>(disk, src, dst, len, b). len)") (auto simp: Let_def)

declare copy_loop.simps [simp del]

text \<open>The state of a merge: the target archive, the next free offset, the disk and the two handles.\<close>

type_synonym merge = "mcf \<times> u64 \<times> fs \<times> file_handle \<times> file_handle"

text \<open>
  The copy of a file whose compressed form is larger than the file: the stream is decompressed and its
  CRC list made anew.
\<close>

definition inflate_file ::
  "(bytes \<Rightarrow> bytes option) \<Rightarrow> mcf_file \<Rightarrow> mcf_file \<Rightarrow> fs \<Rightarrow> file_handle \<Rightarrow> file_handle \<Rightarrow>
   (mcf_file \<times> fs \<times> file_handle \<times> file_handle) res" where
  "inflate_file bz2d file temp disk src dst =
     (let temp = resetCRC temp in
      bind_res (fh_readCB disk src (unat (getCurSize file)) 10240 (\<lambda>d s. (s @ d, False)) []) (\<lambda>(packed, src).
      case bz2d packed of
        None \<Rightarrow> Inl ERR_BZ2
      | Some out \<Rightarrow>
          bind_res (fh_write disk dst out) (\<lambda>(disk, dst).
          let ci = CRCInfo_finish (CRCInfo_generate out (CRCInfo_new (m_iBlockSize temp)))
          in Inr (setCRC (vCRCList ci) (delFlag FLAG_COMPRESSED temp), disk, src, dst))))"

definition copyFile :: "(bytes \<Rightarrow> bytes option) \<Rightarrow> mcf_file \<Rightarrow> merge \<Rightarrow> merge res" where
  "copyFile bz2d file s =
     (case s of (m, lastOffset, disk, src, dst) \<Rightarrow>
      if m_bStopped m then Inr s
      else if \<not> m_bIsOpen src then Inl ERR_NULLSRCFILE
      else if \<not> m_bIsOpen dst then Inl ERR_NULLDESTFILE
      else
        let element = findFileIndexByHash m (m_iHash file);
            m = (if element = UNKNOWN_ITEM then addFile MCFFile_new m else m);
            i = (if element = UNKNOWN_ITEM then length (m_pFileList m) - 1 else unat element);
            temp = setOffSet 0 (copySettings file (m_pFileList m ! i));
            put = (\<lambda>t. m\<lparr>m_pFileList := (m_pFileList m)[i := t]\<rparr>)
        in if isZeroSize file then Inr (put temp, lastOffset, disk, src, dst)
           else
             bind_res (fh_seek dst lastOffset) (\<lambda>dst.
             bind_res (fh_seek src (m_llOffset file)) (\<lambda>src.
             bind_res
               (if isCompressed file \<and> m_iCSize file > m_iSize file then inflate_file bz2d file temp disk src dst
                else bind_res (copy_loop disk src dst (unat (getCurSize file)) 10240) (\<lambda>(disk, src, dst).
                     Inr (temp, disk, src, dst))) (\<lambda>(temp, disk, src, dst).
             Inr (put (setOffSet lastOffset temp), lastOffset + getCurSize temp, disk, src, dst)))))"

fun copyFiles :: "(bytes \<Rightarrow> bytes option) \<Rightarrow> mcf_file list \<Rightarrow> merge \<Rightarrow> merge res" where
  "copyFiles bz2d [] s = Inr s"
| "copyFiles bz2d (f # fs) s = bind_res (copyFile bz2d f s) (copyFiles bz2d fs)"

section \<open>Export and merge\<close>

text \<open>
  The new archive that a merge writes to: its header is the given one, brought up to the current version,
  and the data starts behind it. \<open>cores\<close> is the processor count the constructor asks for.
\<close>

definition new_target :: "u8 \<Rightarrow> string \<Rightarrow> UMcfHeader \<Rightarrow> mcf" where
  "new_target cores path head =
     (let m = setHeader (Some head) (setFile path (MCF_new cores))
      in m\<lparr>m_sHeader := updateFileVersion (m_sHeader m)\<rparr>)"

definition data_start :: "mcf \<Rightarrow> u64" where
  "data_start m = of_nat (getSize (m_sHeader m))"

definition exportMcf ::
  "(bytes \<Rightarrow> bytes) \<Rightarrow> (bytes \<Rightarrow> bytes option) \<Rightarrow> u8 \<Rightarrow> string option \<Rightarrow> fs \<Rightarrow> mcf \<Rightarrow> (fs \<times> mcf option) res" where
  "exportMcf bz2c bz2d cores path disk this =
     (if m_bStopped this then Inr (disk, None)
      else
        case path of None \<Rightarrow> Inl ERR_INVALID
        | Some path \<Rightarrow>
            let dest = new_target cores path (m_sHeader this); lastOffset = data_start dest in
            bind_res (fh_open disk (Some (m_szFile this)) FILE_READ 0) (\<lambda>(disk, src).
            bind_res (fh_open disk (Some path) FILE_WRITE 0) (\<lambda>(disk, dst).
            bind_res (fh_seek dst lastOffset) (\<lambda>dst.
            bind_res (copyFiles bz2d (filter isSaved (m_pFileList this)) (dest, lastOffset, disk, src, dst))
              (\<lambda>(dest, _, disk, _, _).
            bind_res (saveMCF_Header bz2c disk dest) (\<lambda>(disk, dest).
            bind_res (makeCRC bz2c disk dest) (\<lambda>(disk, dest). Inr (disk, Some dest))))))))"

text \<open>
  \<open>optimiseAndSaveMcf\<close> copies new, different and same files in this order. The index of a new file is
  taken in this archive, where it is the unknown-item mark. \<open>prevMcf\<close> is \<open>None\<close> when it is no archive.
\<close>

fun files_at :: "u32 list \<Rightarrow> mcf \<Rightarrow> mcf_file list res" where
  "files_at [] m = Inr []"
| "files_at (i # is) m =
     (case getFile m i of None \<Rightarrow> Inl UNDEFINED
      | Some f \<Rightarrow> bind_res (files_at is m) (\<lambda>fs. Inr (if isSaved f then f # fs else fs)))"

definition optimiseAndSaveMcf ::
  "sorter \<Rightarrow> (bytes \<Rightarrow> bytes) \<Rightarrow> (bytes \<Rightarrow> bytes option) \<Rightarrow> u8 \<Rightarrow> mcf option \<Rightarrow> string option \<Rightarrow> fs \<Rightarrow> mcf \<Rightarrow>
   (fs \<times> mcf option) res" where
  "optimiseAndSaveMcf srt bz2c bz2d cores prevMcf path disk this =
     (if m_bStopped this then Inr (disk, None)
      else
        case path of None \<Rightarrow> Inl ERR_INVALID
        | Some path \<Rightarrow>
            case prevMcf of None \<Rightarrow> Inr (disk, None)
            | Some prev \<Rightarrow>
                case findChanges srt prev this of (this, _, c) \<Rightarrow>
                let dest = new_target cores path (m_sHeader this); lastOffset = data_start dest in
                bind_res (fh_open disk (Some (m_szFile this)) FILE_READ 0) (\<lambda>(disk, src).
                bind_res (fh_open disk (Some path) FILE_WRITE 0) (\<lambda>(disk, dst).
                bind_res (fh_seek dst lastOffset) (\<lambda>dst.
                bind_res (files_at (map thisMcf (vNew c @ vDiff c @ vSame c)) this) (\<lambda>fs.
                bind_res (copyFiles bz2d fs (dest, lastOffset, disk, src, dst)) (\<lambda>(dest, _, disk, _, _).
                bind_res (saveMCF_Header bz2c disk dest) (\<lambda>(disk, dest).
                bind_res (makeCRC bz2c disk dest) (\<lambda>(disk, dest). Inr (disk, Some dest)))))))))"

text \<open>
  \<open>makeFullFile\<close>: one file that is the same in this archive and the patch. A file missing from both only
  fails an assertion of debug builds.
\<close>

definition merge_same :: "mcfDif_s \<Rightarrow> mcf \<times> mcf \<Rightarrow> (mcf \<times> mcf) res" where
  "merge_same d s =
     (case s of (this, patch) \<Rightarrow>
      case (getFile this (thisMcf d), getFile patch (otherMcf d)) of
        (Some thisFile, Some patchFile) \<Rightarrow>
          if isSaved thisFile then
            Inr (update_file (unat (thisMcf d)) (\<lambda>f.
                   setName (m_szName patchFile) (setPath (m_szPath patchFile)
                     (addFlag (m_uiFlags patchFile AND FLAG_XECUTABLE) f))) this,
                 update_file (unat (otherMcf d)) (delFlag FLAG_SAVE) patch)
          else if isSaved patchFile then
            Inr (update_file (unat (thisMcf d)) (delFlag FLAG_SAVE) this, patch)
          else Inr s
      | _ \<Rightarrow> Inl UNDEFINED)"

fun merge_all :: "mcfDif_s list \<Rightarrow> mcf \<times> mcf \<Rightarrow> (mcf \<times> mcf) res" where
  "merge_all [] s = Inr s"
| "merge_all (d # ds) s = bind_res (merge_same d s) (merge_all ds)"

text \<open>Checksums for the files of the result that came without any.\<close>

fun missing_crcs :: "fs \<Rightarrow> file_handle \<Rightarrow> mcf_file list \<Rightarrow> mcf_file list res" where
  "missing_crcs disk h [] = Inr []"
| "missing_crcs disk h (f # fs) =
     bind_res (if m_vCRCList f = [] then bind_res (generateCRC disk h f) (\<lambda>(f, _). Inr f) else Inr f) (\<lambda>f.
     bind_res (missing_crcs disk h fs) (\<lambda>fs. Inr (f # fs)))"

definition makeFullFile ::
  "sorter \<Rightarrow> (bytes \<Rightarrow> bytes) \<Rightarrow> (bytes \<Rightarrow> bytes option) \<Rightarrow> u8 \<Rightarrow> mcf \<Rightarrow> string \<Rightarrow> fs \<Rightarrow> mcf \<Rightarrow>
   (fs \<times> mcf option) res" where
  "makeFullFile srt bz2c bz2d cores patch path disk this =
     (let strPath = PathWithFile path in
      if m_bStopped this then Inr (disk, None)
      else if \<not> header_matches (m_sHeader this) (Some (m_sHeader patch)) then Inl ERR_INVALIDFILE
      else if m_iParentMcf (m_sHeader patch) \<noteq> m_iBuild (m_sHeader this) then Inl ERR_INVALIDFILE
      else
        case findChanges srt patch this of (this, patch, c) \<Rightarrow>
        bind_res (at_indexes (map thisMcf (vDel c)) (delFlag FLAG_SAVE) this) (\<lambda>this.
        bind_res (at_indexes (map thisMcf (vDiff c)) (delFlag FLAG_SAVE) this) (\<lambda>this.
        bind_res (merge_all (vSame c) (this, patch)) (\<lambda>(this, patch).
        let full = new_target cores strPath (m_sHeader patch); lastOffset = data_start full in
        bind_res (fh_open disk (Some (m_szFile patch)) FILE_READ 0) (\<lambda>(disk, src).
        bind_res (fh_open disk (Some strPath) FILE_WRITE 0) (\<lambda>(disk, dst).
        bind_res (fh_seek dst lastOffset) (\<lambda>dst.
        bind_res (copyFiles bz2d (filter isSaved (m_pFileList patch)) (full, lastOffset, disk, src, dst))
          (\<lambda>(full, lastOffset, disk, _, dst).
        bind_res (fh_open disk (Some (m_szFile this)) FILE_READ 0) (\<lambda>(disk, src).
        bind_res (copyFiles bz2d (filter isSaved (m_pFileList this)) (full, lastOffset, disk, src, dst))
          (\<lambda>(full, lastOffset, disk, _, _).
        bind_res (fh_open disk (Some strPath) FILE_READ 0) (\<lambda>(disk, h).
        bind_res (missing_crcs disk h (m_pFileList full)) (\<lambda>fs.
        bind_res (saveMCF_Header bz2c disk (full\<lparr>m_pFileList := fs\<rparr>)) (\<lambda>(disk, full).
        Inr (disk, Some full))))))))))))))"

section \<open>Back patches and resumed downloads\<close>

text \<open>
  \<open>makeBackPatchMCF\<close>: files that are the same are only listed (\<open>junk\<close> is what the copy constructor leaves in
  the diff offset and size), all others are copied.
\<close>

fun back_files ::
  "(nat \<Rightarrow> u64 \<times> u64) \<Rightarrow> (bytes \<Rightarrow> bytes option) \<Rightarrow> mcf_file list \<Rightarrow> merge \<Rightarrow> merge res" where
  "back_files junk bz2d [] s = Inr s"
| "back_files junk bz2d (f # fs) s =
     (if \<not> isSaved f then
        (case s of (m, rest) \<Rightarrow>
           case junk (length (m_pFileList m)) of (d_off, d_size) \<Rightarrow>
             back_files junk bz2d fs (addFile (MCFFile_copy d_off d_size f) m, rest))
      else bind_res (copyFile bz2d f s) (back_files junk bz2d fs))"

definition makeBackPatchMCF ::
  "(nat \<Rightarrow> u64 \<times> u64) \<Rightarrow> sorter \<Rightarrow> (bytes \<Rightarrow> bytes) \<Rightarrow> (bytes \<Rightarrow> bytes option) \<Rightarrow> u8 \<Rightarrow> mcf \<Rightarrow> string \<Rightarrow> fs \<Rightarrow> mcf \<Rightarrow>
   (fs \<times> mcf option) res" where
  "makeBackPatchMCF junk srt bz2c bz2d cores backFile path disk this =
     (let strPath = PathWithFile path in
      if m_bStopped this then Inr (disk, None)
      else
        case findChanges srt backFile this of (this, back, c) \<Rightarrow>
        bind_res (at_indexes (map thisMcf (vSame c)) (delFlag FLAG_SAVE) this) (\<lambda>this.
        let full = setHeader (Some (m_sHeader back)) (setFile strPath (MCF_new cores)) in
        bind_res (fh_open disk (Some (m_szFile this)) FILE_READ 0) (\<lambda>(disk, src).
        bind_res (fh_open disk (Some strPath) FILE_WRITE 0) (\<lambda>(disk, dst).
        bind_res (back_files junk bz2d (m_pFileList this) (full, data_start full, disk, src, dst))
          (\<lambda>(full, _, disk, _, _).
        bind_res (saveMCF_Header bz2c disk full) (\<lambda>(disk, full). Inr (disk, Some full)))))))"

text \<open>
  \<open>copyMissingFiles\<close>: where the data of this archive ends, which of the same files still have to be copied,
  and the copying itself.
\<close>

definition last_offset :: "mcf \<Rightarrow> u64" where
  "last_offset m =
     fold (\<lambda>f lo. if isSaved f \<and> (isComplete f \<or> hasStartedDL f) \<and> m_llOffset f \<ge> lo
             then m_llOffset f + getCurSize f else lo)
       (m_pFileList m) (data_start m)"

fun missing_files ::
  "(bytes \<Rightarrow> string) \<Rightarrow> fs \<Rightarrow> file_handle option \<Rightarrow> mcf \<Rightarrow> mcfDif_s list \<Rightarrow> mcf \<Rightarrow>
   (mcf \<times> mcfDif_s list) res" where
  "missing_files md5 disk dest source [] this = Inr (this, [])"
| "missing_files md5 disk dest source (d # ds) this =
     (case (getFile this (thisMcf d), getFile source (otherMcf d)) of
        (Some thisFile, Some tempFile) \<Rightarrow>
          bind_res (case dest of
                      Some h \<Rightarrow>
                        if isSaved thisFile then
                          bind_res (verifyMcf md5 (\<lambda>_. False) disk h thisFile) (\<lambda>(f, _). Inr f)
                        else Inr thisFile
                    | None \<Rightarrow> Inr thisFile) (\<lambda>thisFile.
          bind_res (missing_files md5 disk dest source ds (update_file (unat (thisMcf d)) (\<lambda>_. thisFile) this))
            (\<lambda>(this, rest).
          Inr (this, if isSaved tempFile \<and> \<not> (isSaved thisFile \<and> isComplete thisFile) then d # rest else rest)))
      | _ \<Rightarrow> Inl UNDEFINED)"

fun copy_missing ::
  "(bytes \<Rightarrow> string) \<Rightarrow> (bytes \<Rightarrow> bytes option) \<Rightarrow> mcfDif_s list \<Rightarrow> merge \<times> mcf \<Rightarrow> (merge \<times> mcf) res" where
  "copy_missing md5 bz2d [] s = Inr s"
| "copy_missing md5 bz2d (d # ds) ((this, lastOffset, disk, src, dst), source) =
     (case (getFile this (thisMcf d), getFile source (otherMcf d)) of
        (Some thisFile, Some tempFile) \<Rightarrow>
          bind_res (verifyMcf md5 (\<lambda>_. False) disk src tempFile) (\<lambda>(tempFile, src).
          let source = update_file (unat (otherMcf d)) (\<lambda>_. tempFile) source; i = unat (thisMcf d) in
          if hasStartedDL thisFile then
            bind_res (copyFile bz2d tempFile (this, m_llOffset thisFile, disk, src, dst))
              (\<lambda>(this, _, disk, src, dst). copy_missing md5 bz2d ds ((this, lastOffset, disk, src, dst), source))
          else if isComplete tempFile then
            bind_res (copyFile bz2d tempFile (this, lastOffset, disk, src, dst))
              (\<lambda>(this, lastOffset, disk, src, dst).
            copy_missing md5 bz2d ds
              ((update_file i (\<lambda>f. delFlag FLAG_STARTEDDL (addFlag FLAG_COMPLETE f)) this, lastOffset, disk, src, dst),
               source))
          else
            copy_missing md5 bz2d ds
              ((update_file i (delFlag (FLAG_STARTEDDL OR FLAG_COMPLETE)) this, lastOffset, disk, src, dst), source))
      | _ \<Rightarrow> Inl UNDEFINED)"

text \<open>The files still to be downloaded are laid out behind what is there.\<close>

fun reset_offsets :: "u64 \<Rightarrow> mcf_file list \<Rightarrow> mcf_file list" where
  "reset_offsets lastOffset [] = []"
| "reset_offsets lastOffset (f # fs) =
     (if isSaved f \<and> \<not> isComplete f \<and> \<not> hasStartedDL f
      then setOffSet lastOffset f # reset_offsets (lastOffset + getCurSize f) fs
      else f # reset_offsets lastOffset fs)"

definition copyMissingFiles ::
  "sorter \<Rightarrow> (bytes \<Rightarrow> string) \<Rightarrow> (bytes \<Rightarrow> bytes) \<Rightarrow> (bytes \<Rightarrow> bytes option) \<Rightarrow> mcf option \<Rightarrow> fs \<Rightarrow> mcf \<Rightarrow>
   (fs \<times> mcf \<times> mcf option) res" where
  "copyMissingFiles srt md5 bz2c bz2d sourceMcf disk this =
     (if m_bStopped this then Inr (disk, this, sourceMcf)
      else
        case sourceMcf of None \<Rightarrow> Inr (disk, this, None)
        | Some source \<Rightarrow>
            case findChanges srt source this of (this, source, c) \<Rightarrow>
            if vSame c = [] then Inr (disk, this, Some source)
            else
              let lastOffset = last_offset this in
              bind_res (fh_open disk (Some (m_szFile source)) FILE_READ 0) (\<lambda>(_, src).
              bind_res (if isValidFile disk (m_szFile this)
                        then bind_res (fh_open disk (Some (m_szFile this)) FILE_READ 0) (\<lambda>(_, h). Inr (Some h))
                        else Inr None) (\<lambda>dest.
              bind_res (missing_files md5 disk dest source (vSame c) this) (\<lambda>(this, todo).
              bind_res (fh_open disk (Some (m_szFile this)) FILE_APPEND 0) (\<lambda>(disk, dst).
              bind_res (copy_missing md5 bz2d todo ((this, lastOffset, disk, src, dst), source))
                (\<lambda>((this, lastOffset, disk, _, _), source).
              let this = this\<lparr>m_pFileList := reset_offsets lastOffset (m_pFileList this)\<rparr> in
              bind_res (saveMCF_Header bz2c disk this) (\<lambda>(disk, this). Inr (disk, this, Some source))))))))"

section \<open>The stream's CRC blocks and the copy loop\<close>

text \<open>What has been counted of the current block: \<open>p\<close> are its bytes so far.\<close>

definition crc_pending :: "nat \<Rightarrow> bytes \<Rightarrow> CRCInfo \<Rightarrow> bool" where
  "crc_pending bs p c \<longleftrightarrow> length p \<le> bs \<and> unat (m_uiCount c) = length p \<and> unat (CRCInfo.m_uiBlockSize c) = bs
     \<and> m_uiCrc c = CRC32_loop p 0xFFFFFFFF"

lemma chunks_short: "p \<noteq> [] \<Longrightarrow> length p \<le> bs \<Longrightarrow> chunks bs p = [p]"
  by (cases p) (subst chunks.simps, auto simp: chunks.simps [of bs "[]"])+

lemma chunks_block: "p \<noteq> [] \<Longrightarrow> length p = bs \<Longrightarrow> chunks bs (p @ d) = p # chunks bs d"
  by (subst chunks.simps) auto

lemma CRCInfo_stream:
  "crc_pending bs p c \<Longrightarrow> 0 < bs \<Longrightarrow> p @ d \<noteq> [] \<Longrightarrow>
   vCRCList (CRCInfo_finish (CRCInfo_generate d c)) = vCRCList c @ map CRC32 (chunks bs (p @ d))"
proof (induction d arbitrary: p c)
  case Nil
  then show ?case by (simp add: crc_pending_def chunks_short CRCInfo_finish_def CRC32_def)
next
  case (Cons b d)
  have inc: "unat (m_uiCount c + 1) = Suc (unat (m_uiCount c))" if "unat (m_uiCount c) < bs"
  proof -
    have "unat (CRCInfo.m_uiBlockSize c) < 2 ^ 32" using unsigned_less [of "CRCInfo.m_uiBlockSize c", where ?'a = nat] by simp
    then show ?thesis using that Cons.prems(1) by (simp add: crc_pending_def unat_word_ariths)
  qed
  show ?case
  proof (cases "length p = bs")
    case True
    let ?c = "(CRCInfo_finish c)\<lparr>m_uiCrc := CRC32_byte b 0xFFFFFFFF, m_uiCount := 1\<rparr>"
    have full: "m_uiCount c = CRCInfo.m_uiBlockSize c"
      using Cons.prems(1) True by (simp add: crc_pending_def word_unat_eq_iff)
    have "crc_pending bs [b] ?c"
      using Cons.prems(1,2) by (simp add: crc_pending_def CRCInfo_finish_def)
    from Cons.IH [OF this Cons.prems(2)]
    have "vCRCList (CRCInfo_finish (CRCInfo_generate d ?c))
        = vCRCList (CRCInfo_finish c) @ map CRC32 (chunks bs (b # d))" by simp
    moreover have "chunks bs (p @ b # d) = p # chunks bs (b # d)"
      using True Cons.prems(2) by (intro chunks_block) auto
    ultimately show ?thesis
      using Cons.prems(1) full by (simp add: crc_pending_def CRCInfo_finish_def CRC32_def)
  next
    case False
    let ?c = "c\<lparr>m_uiCrc := CRC32_byte b (m_uiCrc c), m_uiCount := m_uiCount c + 1\<rparr>"
    have "m_uiCount c \<noteq> CRCInfo.m_uiBlockSize c"
      using Cons.prems(1) False by (auto simp: crc_pending_def)
    moreover have "crc_pending bs (p @ [b]) ?c"
      using Cons.prems(1) False inc by (auto simp: crc_pending_def CRC32_loop_append)
    ultimately show ?thesis using Cons.IH [of "p @ [b]" ?c] Cons.prems(2) by simp
  qed
qed

lemma CRCInfo_chunks:
  "d \<noteq> [] \<Longrightarrow> bs \<noteq> 0 \<Longrightarrow> vCRCList (CRCInfo_finish (CRCInfo_generate d (CRCInfo_new bs))) = map CRC32 (chunks (unat bs) d)"
  using CRCInfo_stream [of "unat bs" "[]" "CRCInfo_new bs" d]
  by (simp add: crc_pending_def CRCInfo_new_def unat_gt_0)

lemma copy_loop_eval:
  assumes "m_bIsOpen src" "fh_mode src \<noteq> FILE_WRITE" "m_bIsOpen dst" "fh_mode dst \<noteq> FILE_READ" "fh_name src \<noteq> fh_name dst"
  shows "0 < b \<Longrightarrow> get_bytes (fh_content disk src) (fh_pos src) len = Some d \<Longrightarrow> 0 < len \<Longrightarrow>
    copy_loop disk src dst len b =
      Inr (disk(fh_name dst \<mapsto> put_bytes (fh_content disk dst) (fh_pos dst) d),
           src\<lparr>fh_pos := fh_pos src + len\<rparr>, dst\<lparr>fh_pos := fh_pos dst + len\<rparr>)"
  using assms
proof (induction len arbitrary: disk src dst b d rule: less_induct)
  case (less len)
  define k where "k = (if b > len then len else b)"
  have k: "0 < k" "k \<le> len" using less.prems(1,3) by (auto simp: k_def)
  have d: "length d = len" "d = take len (drop (fh_pos src) (fh_content disk src))"
      "fh_pos src + len \<le> length (fh_content disk src)"
    using less.prems(2) by (auto simp: get_bytes_def split: if_splits)
  have rd: "fh_read disk src k = Inr (take k d, src\<lparr>fh_pos := fh_pos src + k\<rparr>)"
    using less.prems(4,5) k d by (simp add: fh_read_def get_bytes_def min_def)
  have ne: "take k d \<noteq> []" using k d by auto
  let ?disk = "disk(fh_name dst \<mapsto> put_bytes (fh_content disk dst) (fh_pos dst) (take k d))"
  have wr: "fh_write disk dst (take k d) = Inr (?disk, dst\<lparr>fh_pos := fh_pos dst + k\<rparr>)"
    using less.prems(6,7) ne k d by (simp add: fh_write_def)
  have step: "copy_loop disk src dst len b
      = copy_loop ?disk (src\<lparr>fh_pos := fh_pos src + k\<rparr>) (dst\<lparr>fh_pos := fh_pos dst + k\<rparr>) (len - k) k"
    using less.prems(1,3) rd wr unfolding k_def by (subst copy_loop.simps) (simp add: Let_def)
  show ?case
  proof (cases "k = len")
    case True
    then show ?thesis using step d by (simp add: copy_loop.simps [of _ _ _ 0] fun_upd_def)
  next
    case False
    then have lt: "len - k < len" "0 < len - k" using k by auto
    have rest: "get_bytes (fh_content ?disk (src\<lparr>fh_pos := fh_pos src + k\<rparr>)) (fh_pos src + k) (len - k) = Some (drop k d)"
      using d less.prems(8) k by (simp add: fh_content_def get_bytes_def drop_take ac_simps)
    have app: "put_bytes (put_bytes c p (take k d)) (p + k) (drop k d) = put_bytes c p d" for c p
    proof -
      have "length (take k d) = k" using k d(1) by simp
      then show ?thesis using put_bytes_append [of c p "take k d" "drop k d"] by (simp only: append_take_drop_id)
    qed
    let ?src = "src\<lparr>fh_pos := fh_pos src + k\<rparr>" and ?dst = "dst\<lparr>fh_pos := fh_pos dst + k\<rparr>"
    have c: "fh_content ?disk ?dst = put_bytes (fh_content disk dst) (fh_pos dst) (take k d)"
      by (simp add: fh_content_def)
    have "copy_loop ?disk ?src ?dst (len - k) k = Inr (?disk(fh_name ?dst \<mapsto>
        put_bytes (fh_content ?disk ?dst) (fh_pos ?dst) (drop k d)),
        ?src\<lparr>fh_pos := fh_pos ?src + (len - k)\<rparr>, ?dst\<lparr>fh_pos := fh_pos ?dst + (len - k)\<rparr>)"
      using less.prems(4-) by (intro less.IH lt k(1)) (simp_all add: rest del: fun_upd_apply)
    then show ?thesis
      unfolding step c using k by (simp add: app del: fun_upd_apply)
  qed
qed

section \<open>What a copy holds\<close>

text \<open>
  Specification: the bytes a copy of a file must hold (none for an empty file, the decompressed stream for one
  that grew by compression), when they can be had at all, and the list entry of the copy.
\<close>

definition inflated :: "mcf_file \<Rightarrow> bool" where
  "inflated f \<longleftrightarrow> isCompressed f \<and> m_iCSize f > m_iSize f"

definition payload :: "(bytes \<Rightarrow> bytes option) \<Rightarrow> bytes \<Rightarrow> mcf_file \<Rightarrow> bytes option" where
  "payload bz2d c f =
     (if isZeroSize f then Some []
      else case get_bytes c (unat (m_llOffset f)) (unat (getCurSize f)) of
             None \<Rightarrow> None
           | Some d \<Rightarrow> if d = [] then None else if inflated f then bz2d d else Some d)"

definition readable :: "(bytes \<Rightarrow> bytes option) \<Rightarrow> bytes \<Rightarrow> mcf_file \<Rightarrow> bool" where
  "readable bz2d c f \<longleftrightarrow>
     (\<exists>d. payload bz2d c f = Some d \<and> unat (m_llOffset f) < 2 ^ 63
        \<and> (if isZeroSize f then getCurSize f = 0
           else d \<noteq> [] \<and> (inflated f \<longrightarrow> length d = unat (m_iSize f))))"

definition data_of :: "(bytes \<Rightarrow> bytes option) \<Rightarrow> bytes \<Rightarrow> mcf_file \<Rightarrow> bytes" where
  "data_of bz2d c f = (case payload bz2d c f of None \<Rightarrow> [] | Some d \<Rightarrow> d)"

definition entry_of :: "bytes \<Rightarrow> u64 \<Rightarrow> mcf_file \<Rightarrow> mcf_file" where
  "entry_of d lo f =
     (let temp = setOffSet 0 (copySettings f MCFFile_new) in
      if isZeroSize f then temp
      else if inflated f then
        setOffSet lo (setCRC (map CRC32 (chunks (unat DEFAULT_BLOCKSIZE) d)) (delFlag FLAG_COMPRESSED temp))
      else setOffSet lo temp)"

lemma copySettings_flags [simp]:
  "m_uiFlags (copySettings t f) = m_uiFlags t OR (m_uiFlags f AND FLAG_XECUTABLE)"
  "m_iSize (copySettings t f) = m_iSize t" "m_iCSize (copySettings t f) = m_iCSize t"
  "m_iHash (copySettings t f) = m_iHash t" "m_iBlockSize (copySettings t f) = m_iBlockSize f"
  "m_vCRCList (copySettings t f) = m_vCRCList t"
  "m_llDiffOffset (copySettings t f) = m_llDiffOffset f" "m_llDiffSize (copySettings t f) = m_llDiffSize f"
  "m_szCsum (copySettings t f) = m_szCsum t" "m_szCCsum (copySettings t f) = m_szCCsum t"
  by (simp_all add: copySettings_def Let_def setName_def setPath_def saveHash_def setDir_def setCsum_def setCCsum_def)

lemma new_flags: "m_uiFlags MCFFile_new AND FLAG_XECUTABLE = 0"
  by (simp add: MCFFile_new_def file_flags)

lemma resetCRC_temp:
  "setCRC l (delFlag k (resetCRC (setOffSet v (copySettings f MCFFile_new))))
     = setCRC l (delFlag k (setOffSet v (copySettings f MCFFile_new)))"
  "m_iBlockSize (resetCRC (setOffSet v (copySettings f MCFFile_new))) = DEFAULT_BLOCKSIZE"
  by (simp_all add: resetCRC_def Let_def fix_block_def setOffSet_def setCRC_def delFlag_def MCFFile_new_def DEFAULT_BLOCKSIZE_def)

lemma entry_flags:
  "b \<in> {FLAG_SAVE, FLAG_ZEROSIZE, FLAG_HASDIFF} \<Longrightarrow> has_flag (entry_of d lo f) b = has_flag f b"
  "has_flag (entry_of d lo f) FLAG_COMPRESSED \<longleftrightarrow> has_flag f FLAG_COMPRESSED \<and> \<not> (inflated f \<and> \<not> isZeroSize f)"
  using new_flags
  by (auto simp: entry_of_def Let_def setOffSet_def setCRC_def has_flag_def delFlag_def file_flags and.assoc)

lemma entry_sizes:
  "m_iSize (entry_of d lo f) = m_iSize f" "m_iCSize (entry_of d lo f) = m_iCSize f"
  "m_iHash (entry_of d lo f) = m_iHash f"
  "\<not> isZeroSize f \<Longrightarrow> m_llOffset (entry_of d lo f) = lo"
  by (simp_all add: entry_of_def Let_def setOffSet_def setCRC_def delFlag_def)

lemma getCurSize_entry:
  "readable bz2d c f \<Longrightarrow> \<not> isZeroSize f \<Longrightarrow>
   getCurSize (entry_of (data_of bz2d c f) lo f) = of_nat (length (data_of bz2d c f))"
  unfolding readable_def data_of_def payload_def getCurSize_def isCompressed_def entry_flags entry_sizes
  by (auto simp: get_bytes_def inflated_def isCompressed_def getCurSize_def split: if_splits option.splits)

lemma copyFile_new:
  assumes h: "m_bIsOpen src" "fh_mode src = FILE_READ" "m_uiOffset src = 0"
      "m_bIsOpen dst" "fh_mode dst \<noteq> FILE_READ" "m_uiOffset dst = 0" "fh_name src \<noteq> fh_name dst"
    and m: "\<not> m_bStopped m" "small m" "m_iHash f \<notin> m_iHash ` set (m_pFileList m)"
    and lo: "unat lo < 2 ^ 63" and f: "readable bz2d (fh_content disk src) f"
  shows "\<exists>ps pd. copyFile bz2d f (m, lo, disk, src, dst) =
    (let d = data_of bz2d (fh_content disk src) f in
     Inr (addFile (entry_of d lo f) m, lo + of_nat (length d),
       (if isZeroSize f then disk else disk(fh_name dst \<mapsto> put_bytes (fh_content disk dst) (unat lo) d)),
       src\<lparr>fh_pos := ps\<rparr>, dst\<lparr>fh_pos := pd\<rparr>))"
proof -
  let ?c = "fh_content disk src" and ?d = "data_of bz2d (fh_content disk src) f"
  let ?t = "setOffSet 0 (copySettings f MCFFile_new)"
  have new: "findFileIndexByHash m (m_iHash f) = UNKNOWN_ITEM"
    using findFileIndexByHash_cases(1) [OF m(2) [unfolded small_def], of "m_iHash f"] m(3) by (metis image_eqI)
  have put: "(addFile MCFFile_new m)\<lparr>m_pFileList := (m_pFileList (addFile MCFFile_new m))
      [length (m_pFileList (addFile MCFFile_new m)) - Suc 0 := t]\<rparr> = addFile t m" for t
    by (simp add: addFile_def)
  have at: "m_pFileList (addFile MCFFile_new m) ! (length (m_pFileList (addFile MCFFile_new m)) - Suc 0) = MCFFile_new"
    by (simp add: addFile_def)
  note start = copyFile_def new put at
  show ?thesis
  proof (cases "isZeroSize f")
    case True
    show ?thesis
      using True h m(1) by - (rule exI [of _ "fh_pos src"], rule exI [of _ "fh_pos dst"],
            simp add: start Let_def entry_of_def data_of_def payload_def)
  next
    case False
    then obtain p where p: "get_bytes ?c (unat (m_llOffset f)) (unat (getCurSize f)) = Some p" "p \<noteq> []"
      and pay: "payload bz2d ?c f = (if inflated f then bz2d p else Some p)"
      using f False by (auto simp: readable_def payload_def split: option.splits if_splits)
    have some: "payload bz2d ?c f = Some ?d" and ne: "?d \<noteq> []" and off: "unat (m_llOffset f) < 2 ^ 63"
      using f False by (auto simp: readable_def data_of_def)
    have d: "if inflated f then bz2d p = Some ?d else p = ?d"
      using some unfolding pay by (cases "inflated f") simp_all
    let ?src = "src\<lparr>fh_pos := unat (m_llOffset f)\<rparr>" and ?dst = "dst\<lparr>fh_pos := unat lo\<rparr>"
    have seek: "fh_seek dst lo = Inr ?dst" "fh_seek src (m_llOffset f) = Inr ?src"
      using h lo off by (simp_all add: fh_seek_def)
    have len: "0 < unat (getCurSize f)" using p by (auto simp: get_bytes_def split: if_splits)
    have content: "fh_content disk ?src = ?c" "fh_content disk ?dst = fh_content disk dst"
      by (simp_all add: fh_content_def)
    have size: "getCurSize (entry_of ?d lo f) = of_nat (length ?d)"
      by (rule getCurSize_entry [OF f False])
    show ?thesis
    proof (cases "inflated f")
      case True
      then have out: "bz2d p = Some ?d" using d by simp
      let ?s = "src\<lparr>fh_pos := unat (m_llOffset f) + unat (getCurSize f)\<rparr>"
        and ?r = "dst\<lparr>fh_pos := unat lo + length ?d\<rparr>"
        and ?disk = "disk(fh_name dst \<mapsto> put_bytes (fh_content disk dst) (unat lo) ?d)"
      have rd: "fh_readCB disk ?src (unat (getCurSize f)) 10240 (\<lambda>d s. (s @ d, False)) [] = Inr (p, ?s)"
        using fh_readCB_collect [of ?src 10240 disk "unat (getCurSize f)" p "[]"] h p by (simp add: content)
      have wr: "fh_write disk ?dst ?d = Inr (?disk, ?r)"
        using h ne by (simp add: fh_write_def content)
      have "inflate_file bz2d f ?t disk ?src ?dst =
          Inr (setCRC (map CRC32 (chunks (unat DEFAULT_BLOCKSIZE) ?d)) (delFlag FLAG_COMPRESSED ?t), ?disk, ?s, ?r)"
        unfolding inflate_file_def Let_def resetCRC_temp rd
        by (simp add: out wr CRCInfo_chunks [OF ne] resetCRC_temp DEFAULT_BLOCKSIZE_def del: fun_upd_apply)
      moreover have e: "entry_of ?d lo f =
          setOffSet lo (setCRC (map CRC32 (chunks (unat DEFAULT_BLOCKSIZE) ?d)) (delFlag FLAG_COMPRESSED ?t))"
        using True \<open>\<not> isZeroSize f\<close> by (simp add: entry_of_def)
      moreover have "getCurSize (setOffSet lo t) = getCurSize t" for t
        by (simp add: getCurSize_def setOffSet_def isCompressed_def has_flag_def)
      ultimately show ?thesis
        using True \<open>\<not> isZeroSize f\<close> h m(1) size
        by - (rule exI [of _ "fh_pos ?s"], rule exI [of _ "fh_pos ?r"],
            simp add: start seek Let_def flip: inflated_def del: fun_upd_apply)
    next
      case False
      then have d: "p = ?d" using d by simp
      have copy: "copy_loop disk ?src ?dst (unat (getCurSize f)) 10240 =
          Inr (disk(fh_name dst \<mapsto> put_bytes (fh_content disk dst) (unat lo) ?d),
            src\<lparr>fh_pos := unat (m_llOffset f) + unat (getCurSize f)\<rparr>,
            dst\<lparr>fh_pos := unat lo + unat (getCurSize f)\<rparr>)"
        using copy_loop_eval [of ?src ?dst 10240 disk "unat (getCurSize f)" p] h p len
        by (simp add: content d del: fun_upd_apply)
      have "entry_of ?d lo f = setOffSet lo ?t"
        using False \<open>\<not> isZeroSize f\<close> by (simp add: entry_of_def)
      moreover have "getCurSize (setOffSet lo ?t) = getCurSize ?t"
        by (simp add: getCurSize_def setOffSet_def isCompressed_def has_flag_def)
      ultimately show ?thesis
        using False \<open>\<not> isZeroSize f\<close> h m(1) size
        by - (rule exI [of _ "unat (m_llOffset f) + unat (getCurSize f)"], rule exI [of _ "unat lo + unat (getCurSize f)"],
            simp add: start seek copy Let_def flip: inflated_def del: fun_upd_apply)
    qed
  qed
qed

fun entries_of :: "(bytes \<Rightarrow> bytes option) \<Rightarrow> bytes \<Rightarrow> u64 \<Rightarrow> mcf_file list \<Rightarrow> mcf_file list" where
  "entries_of bz2d c lo [] = []"
| "entries_of bz2d c lo (f # fs) =
     entry_of (data_of bz2d c f) lo f # entries_of bz2d c (lo + of_nat (length (data_of bz2d c f))) fs"

definition total_data :: "(bytes \<Rightarrow> bytes option) \<Rightarrow> bytes \<Rightarrow> mcf_file list \<Rightarrow> nat" where
  "total_data bz2d c fs = sum_list (map (length \<circ> data_of bz2d c) fs)"

definition holds :: "bytes \<Rightarrow> mcf_file \<Rightarrow> bytes \<Rightarrow> bool" where
  "holds content e d \<longleftrightarrow> get_bytes content (unat (m_llOffset e)) (length d) = Some d"

lemma unat_advance: "unat (lo :: u64) + n < 2 ^ 63 \<Longrightarrow> unat (lo + of_nat n) = unat lo + n"
  by (simp add: unat_word_ariths unat_of_nat take_bit_nat_eq_self)

lemma copyFiles_new:
  assumes "m_bIsOpen src" "fh_mode src = FILE_READ" "m_uiOffset src = 0"
      "m_bIsOpen dst" "fh_mode dst \<noteq> FILE_READ" "m_uiOffset dst = 0" "fh_name src \<noteq> fh_name dst"
    and "\<not> m_bStopped m" and "length (m_pFileList m) + length fs < 2 ^ 32 - 1"
    and "distinct (map m_iHash (m_pFileList m @ fs))"
    and "c = fh_content disk src" and "\<forall>f\<in>set fs. readable bz2d c f"
    and "unat lo + total_data bz2d c fs < 2 ^ 63"
  shows "\<exists>disk' ps pd. copyFiles bz2d fs (m, lo, disk, src, dst) =
      Inr (m\<lparr>m_pFileList := m_pFileList m @ entries_of bz2d c lo fs\<rparr>, lo + of_nat (total_data bz2d c fs), disk',
           src\<lparr>fh_pos := ps\<rparr>, dst\<lparr>fh_pos := pd\<rparr>)
    \<and> (\<forall>n. n \<noteq> fh_name dst \<longrightarrow> disk' n = disk n)
    \<and> (disk (fh_name dst) \<noteq> None \<longrightarrow> disk' (fh_name dst) \<noteq> None)
    \<and> (\<forall>q n x. q + n \<le> unat lo \<longrightarrow> get_bytes (fh_content disk dst) q n = Some x \<longrightarrow>
         get_bytes (fh_content disk' dst) q n = Some x)
    \<and> list_all2 (\<lambda>f e. \<not> isZeroSize f \<longrightarrow> holds (fh_content disk' dst) e (data_of bz2d c f)
         \<and> unat lo \<le> unat (m_llOffset e)
         \<and> unat (m_llOffset e) + length (data_of bz2d c f) \<le> unat lo + total_data bz2d c fs)
       fs (entries_of bz2d c lo fs)"
  using assms
proof (induction fs arbitrary: m lo disk src dst)
  case Nil
  show ?case
    by (rule exI [of _ disk], rule exI [of _ "fh_pos src"], rule exI [of _ "fh_pos dst"])
      (simp add: total_data_def)
next
  case (Cons f fs)
  let ?d = "data_of bz2d c f" and ?m = "addFile (entry_of (data_of bz2d c f) lo f) m"
  let ?T = "total_data bz2d c (f # fs)"
  let ?lo = "lo + of_nat (length ?d)"
    and ?disk = "if isZeroSize f then disk else disk(fh_name dst \<mapsto> put_bytes (fh_content disk dst) (unat lo) (data_of bz2d c f))"
  have tot: "total_data bz2d c (f # fs) = length ?d + total_data bz2d c fs" by (simp add: total_data_def)
  have lo: "unat ?lo = unat lo + length ?d" using Cons.prems(13) tot by (intro unat_advance) linarith
  have small: "small m" and new: "m_iHash f \<notin> m_iHash ` set (m_pFileList m)" and lo63: "unat lo < 2 ^ 63"
    using Cons.prems(9,10,13) by (auto simp: small_def)
  have fr: "readable bz2d (fh_content disk src) f" using Cons.prems(11,12) by simp
  obtain ps pd where step: "copyFile bz2d f (m, lo, disk, src, dst)
      = Inr (?m, ?lo, ?disk, src\<lparr>fh_pos := ps\<rparr>, dst\<lparr>fh_pos := pd\<rparr>)"
    using copyFile_new [OF Cons.prems(1-8) small new lo63 fr] Cons.prems(11) by (auto simp: Let_def)
  let ?src = "src\<lparr>fh_pos := ps\<rparr>" and ?dst = "dst\<lparr>fh_pos := pd\<rparr>"
  have c: "c = fh_content ?disk ?src" using Cons.prems(7,11) by (simp add: fh_content_def)
  have list: "m_pFileList ?m = m_pFileList m @ [entry_of ?d lo f]" by (simp add: addFile_def)
  have IH: "\<exists>disk' ps' pd'. copyFiles bz2d fs (?m, ?lo, ?disk, ?src, ?dst) =
      Inr (?m\<lparr>m_pFileList := m_pFileList ?m @ entries_of bz2d c ?lo fs\<rparr>, ?lo + of_nat (total_data bz2d c fs), disk',
           ?src\<lparr>fh_pos := ps'\<rparr>, ?dst\<lparr>fh_pos := pd'\<rparr>)
    \<and> (\<forall>n. n \<noteq> fh_name ?dst \<longrightarrow> disk' n = ?disk n)
    \<and> (?disk (fh_name ?dst) \<noteq> None \<longrightarrow> disk' (fh_name ?dst) \<noteq> None)
    \<and> (\<forall>q n x. q + n \<le> unat ?lo \<longrightarrow> get_bytes (fh_content ?disk ?dst) q n = Some x \<longrightarrow>
         get_bytes (fh_content disk' ?dst) q n = Some x)
    \<and> list_all2 (\<lambda>f e. \<not> isZeroSize f \<longrightarrow> holds (fh_content disk' ?dst) e (data_of bz2d c f)
         \<and> unat ?lo \<le> unat (m_llOffset e)
         \<and> unat (m_llOffset e) + length (data_of bz2d c f) \<le> unat ?lo + total_data bz2d c fs)
       fs (entries_of bz2d c ?lo fs)"
    using Cons.prems tot lo c
    by (intro Cons.IH) (simp_all add: addFile_def entry_sizes del: fun_upd_apply)
  then obtain disk' ps' pd' where r: "copyFiles bz2d fs (?m, ?lo, ?disk, ?src, ?dst) =
      Inr (?m\<lparr>m_pFileList := m_pFileList ?m @ entries_of bz2d c ?lo fs\<rparr>, ?lo + of_nat (total_data bz2d c fs), disk',
           ?src\<lparr>fh_pos := ps'\<rparr>, ?dst\<lparr>fh_pos := pd'\<rparr>)"
    and others: "\<forall>n. n \<noteq> fh_name dst \<longrightarrow> disk' n = ?disk n" "?disk (fh_name dst) \<noteq> None \<longrightarrow> disk' (fh_name dst) \<noteq> None"
    and keep: "\<And>q n x. q + n \<le> unat ?lo \<Longrightarrow> get_bytes (fh_content ?disk dst) q n = Some x \<Longrightarrow>
         get_bytes (fh_content disk' dst) q n = Some x"
    and all: "list_all2 (\<lambda>f e. \<not> isZeroSize f \<longrightarrow> holds (fh_content disk' dst) e (data_of bz2d c f)
         \<and> unat ?lo \<le> unat (m_llOffset e)
         \<and> unat (m_llOffset e) + length (data_of bz2d c f) \<le> unat ?lo + total_data bz2d c fs)
       fs (entries_of bz2d c ?lo fs)"
    by (auto simp: fh_content_def simp del: fun_upd_apply)
  have keep0: "get_bytes (fh_content ?disk dst) q n = Some x"
    if "q + n \<le> unat lo" "get_bytes (fh_content disk dst) q n = Some x" for q n x
    using that by (simp add: fh_content_def disk.get_put_before)
  have here: "\<not> isZeroSize f \<Longrightarrow> holds (fh_content disk' dst) (entry_of ?d lo f) ?d"
    using keep [of "unat lo" "length ?d" ?d] lo
    by (simp add: holds_def entry_sizes fh_content_def disk.get_put_same)
  have "copyFiles bz2d (f # fs) (m, lo, disk, src, dst) =
      Inr (m\<lparr>m_pFileList := m_pFileList m @ entries_of bz2d c lo (f # fs)\<rparr>, lo + of_nat (total_data bz2d c (f # fs)), disk',
           src\<lparr>fh_pos := ps'\<rparr>, dst\<lparr>fh_pos := pd'\<rparr>)"
    using r tot by (simp add: step addFile_def ac_simps del: fun_upd_apply)
  moreover have "list_all2 (\<lambda>f e. \<not> isZeroSize f \<longrightarrow> holds (fh_content disk' dst) e (data_of bz2d c f)
         \<and> unat lo \<le> unat (m_llOffset e)
         \<and> unat (m_llOffset e) + length (data_of bz2d c f) \<le> unat lo + ?T)
       fs (entries_of bz2d c ?lo fs)"
    by (rule list_all2_mono [OF all]) (use tot lo in auto)
  moreover have "\<forall>n. n \<noteq> fh_name dst \<longrightarrow> disk' n = disk n" using others(1) by simp
  moreover have "disk (fh_name dst) \<noteq> None \<longrightarrow> disk' (fh_name dst) \<noteq> None"
    using others(2) by (cases "isZeroSize f") simp_all
  moreover have "get_bytes (fh_content disk' dst) q n = Some x"
    if "q + n \<le> unat lo" "get_bytes (fh_content disk dst) q n = Some x" for q n x
    using keep [OF _ keep0 [OF that]] that lo by simp
  moreover have "\<not> isZeroSize f \<longrightarrow> holds (fh_content disk' dst) (entry_of ?d lo f) ?d
      \<and> unat lo \<le> unat (m_llOffset (entry_of ?d lo f))
      \<and> unat (m_llOffset (entry_of ?d lo f)) + length ?d \<le> unat lo + ?T"
    using here tot by (simp add: entry_sizes)
  ultimately show ?case
    by (intro exI [of _ disk'] exI [of _ ps'] exI [of _ pd'] conjI) (assumption | simp)+
qed

section \<open>Saving what was copied\<close>

lemma save_keeps:
  assumes "header_ok (m_sHeader m)" and "m_iFileVer (m_sHeader m) = 2"
    and "35 \<le> unat (xml_offset m)" and "unat (xml_offset m) < 2 ^ 63" and "\<forall>x. x \<noteq> [] \<longrightarrow> bz2c x \<noteq> []"
  shows "\<exists>disk'. saveMCF_Header bz2c disk m = Inr (disk', m\<lparr>m_sHeader := saved_header bz2c m\<rparr>)
    \<and> disk' (m_szFile m) \<noteq> None \<and> (\<forall>n. n \<noteq> m_szFile m \<longrightarrow> disk' n = disk n)
    \<and> (\<forall>q n x. 35 \<le> q \<longrightarrow> q + n \<le> unat (xml_offset m) \<longrightarrow>
         get_bytes (file_content disk (m_szFile m)) q n = Some x \<longrightarrow>
         get_bytes (file_content disk' (m_szFile m)) q n = Some x)"
proof -
  have "xml_stored bz2c m \<noteq> []" using assms(5) xml_text_nonempty by (simp add: xml_stored_def)
  from saveMCF_Header_eval [OF assms(1,4) this, of disk]
  show ?thesis
    using saved_reads(3) [OF assms(1-3) refl, where c = "file_content disk (m_szFile m)" and bz2c = bz2c]
    by (auto simp: file_content_def)
qed

lemma generateCRC_eval:
  assumes "m_bIsOpen h" "fh_mode h = FILE_READ" "m_uiOffset h = 0" "unat (m_llOffset f) < 2 ^ 63"
    and "isSaved f" "\<not> isZeroSize f"
    and "get_bytes (fh_content disk h) (unat (m_llOffset f)) (unat (getCurSize f)) = Some d"
  shows "\<exists>h'. generateCRC disk h f
    = Inr ((fix_block f)\<lparr>m_vCRCList := map CRC32 (chunks (unat (m_iBlockSize (fix_block f))) d)\<rparr>, h')"
proof -
  let ?g = "fix_block (f\<lparr>m_vCRCList := []\<rparr>)"
  have g: "?g = (fix_block f)\<lparr>m_vCRCList := []\<rparr>" "m_llOffset (fix_block f) = m_llOffset f"
    "getCurSize (fix_block f) = getCurSize f"
    by (auto simp: fix_block_def getCurSize_def isCompressed_def has_flag_def)
  have z: "isZeroSize (f\<lparr>m_vCRCList := []\<rparr>) = isZeroSize f" "isSaved (f\<lparr>m_vCRCList := []\<rparr>) = isSaved f"
    by (simp_all add: isZeroSize_def isSaved_def has_flag_def)
  have seek: "fh_seek h (m_llOffset f) = Inr (h\<lparr>fh_pos := unat (m_llOffset f)\<rparr>)"
    using assms(1,3,4) by (simp add: fh_seek_def)
  have bs: "0 < unat (m_iBlockSize (fix_block f))"
    by (simp add: fix_block_def DEFAULT_BLOCKSIZE_def unat_gt_0)
  have "crc_blocks disk (h\<lparr>fh_pos := unat (m_llOffset f)\<rparr>) (unat (m_iBlockSize (fix_block f))) (unat (getCurSize f)) []
      = Inr ([] @ map CRC32 (chunks (unat (m_iBlockSize (fix_block f))) d),
             (h\<lparr>fh_pos := unat (m_llOffset f)\<rparr>)\<lparr>fh_pos := unat (m_llOffset f) + unat (getCurSize f)\<rparr>)"
    using assms(1,2,7) bs crc_blocks_chunks [of "h\<lparr>fh_pos := unat (m_llOffset f)\<rparr>"]
    by (simp add: fh_content_def)
  then show ?thesis
    by (simp add: generateCRC_def Let_def z assms(5,6) g seek)
qed

text \<open>
  An entry whose data is where it says, behind the header and before \<open>B\<close>, and what a new CRC list makes of it.
\<close>

definition placed :: "bytes \<Rightarrow> nat \<Rightarrow> mcf_file \<Rightarrow> bytes \<Rightarrow> bool" where
  "placed content B e d \<longleftrightarrow>
     isSaved e \<and> m_llDiffOffset e = 0 \<and> m_llDiffSize e = 0
     \<and> (if isZeroSize e then m_llOffset e = 0 \<and> getCurSize e = 0
        else holds content e d \<and> 35 \<le> unat (m_llOffset e) \<and> unat (getCurSize e) = length d
          \<and> unat (m_llOffset e) + length d \<le> B)"

definition with_crc :: "mcf_file \<Rightarrow> bytes \<Rightarrow> mcf_file" where
  "with_crc e d =
     (if isZeroSize e then e\<lparr>m_vCRCList := []\<rparr>
      else (fix_block e)\<lparr>m_vCRCList := map CRC32 (chunks (unat (m_iBlockSize (fix_block e))) d)\<rparr>)"

lemma with_crc_fields [simp]:
  "m_llOffset (with_crc e d) = m_llOffset e" "m_uiFlags (with_crc e d) = m_uiFlags e"
  "m_iSize (with_crc e d) = m_iSize e" "m_iCSize (with_crc e d) = m_iCSize e" "m_iHash (with_crc e d) = m_iHash e"
  "m_llDiffOffset (with_crc e d) = m_llDiffOffset e" "m_llDiffSize (with_crc e d) = m_llDiffSize e"
  by (simp_all add: with_crc_def fix_block_def)

lemma with_crc_flags [simp]:
  "isSaved (with_crc e d) = isSaved e" "isZeroSize (with_crc e d) = isZeroSize e"
  "getCurSize (with_crc e d) = getCurSize e" "has_flag (with_crc e d) b = has_flag e b"
  "hasDiff (with_crc e d) = hasDiff e"
  by (simp_all add: isSaved_def isZeroSize_def has_flag_def getCurSize_def isCompressed_def hasDiff_def)

lemma placed_with_crc [simp]: "placed c B (with_crc e x) d = placed c B e d"
  by (simp add: placed_def holds_def)

lemma data_end_step_with_crc [simp]: "data_end_step (with_crc e d) = data_end_step e"
  by (rule ext) (simp add: data_end_step_def)

lemma placed_keep:
  assumes "placed c B e d" and "\<And>q n x. 35 \<le> q \<Longrightarrow> q + n \<le> B \<Longrightarrow> get_bytes c q n = Some x \<Longrightarrow> get_bytes c' q n = Some x"
  shows "placed c' B e d"
  using assms by (auto simp: placed_def holds_def split: if_splits)

lemma data_end_fold:
  assumes "\<forall>e\<in>set es. isSaved e \<longrightarrow> m_llDiffOffset e = 0 \<and> m_llDiffSize e = 0 \<and> unat (m_llOffset e) + unat (getCurSize e) \<le> B"
    and "B < 2 ^ 63" and "unat a \<le> B"
  shows "unat a \<le> unat (fold data_end_step es a) \<and> unat (fold data_end_step es a) \<le> B
    \<and> (\<forall>e\<in>set es. isSaved e \<longrightarrow> unat (m_llOffset e) + unat (getCurSize e) \<le> unat (fold data_end_step es a))
    \<and> (fold data_end_step es a = a \<or> (\<exists>e\<in>set es. isSaved e \<and>
         unat (fold data_end_step es a) = unat (m_llOffset e) + unat (getCurSize e)))"
  using assms(1,3)
proof (induction es arbitrary: a)
  case (Cons e es)
  let ?pos = "m_llOffset e + getCurSize e" and ?a = "data_end_step e a"
  have pos: "isSaved e \<Longrightarrow> unat ?pos = unat (m_llOffset e) + unat (getCurSize e)"
    using Cons.prems(1) assms(2) by (simp add: unat_word_ariths)
  have a: "?a = (if isSaved e \<and> a < ?pos then ?pos else a)"
    using Cons.prems(1) by (simp add: data_end_step_def Let_def)
  have step: "unat a \<le> unat ?a" "unat ?a \<le> B" "isSaved e \<Longrightarrow> unat (m_llOffset e) + unat (getCurSize e) \<le> unat ?a"
    using Cons.prems pos by (auto simp: a word_less_nat_alt)
  have "?a = a \<or> isSaved e \<and> unat ?a = unat (m_llOffset e) + unat (getCurSize e)" using a pos by auto
  with Cons.IH [of ?a] step Cons.prems(1) show ?case by fastforce
qed simp

lemma xml_offset_placed:
  assumes "list_all2 (placed c B) (m_pFileList m) ds" and "35 \<le> B" and "B < 2 ^ 63" and "m_iFileVer (m_sHeader m) = 2"
  shows "35 \<le> unat (xml_offset m) \<and> unat (xml_offset m) \<le> B
    \<and> (\<forall>e\<in>set (m_pFileList m). unat (m_llOffset e) + unat (getCurSize e) \<le> unat (xml_offset m))"
proof -
  let ?x = "fold data_end_step (m_pFileList m) 0"
  have p: "\<forall>e\<in>set (m_pFileList m). \<exists>d. placed c B e d"
    using assms(1) by (fastforce simp: list_all2_conv_all_nth in_set_conv_nth)
  then have e: "\<forall>e\<in>set (m_pFileList m). isSaved e \<and> m_llDiffOffset e = 0 \<and> m_llDiffSize e = 0
      \<and> unat (m_llOffset e) + unat (getCurSize e) \<le> B
      \<and> (m_llOffset e = 0 \<and> getCurSize e = 0 \<or> 35 \<le> unat (m_llOffset e))"
    by (fastforce simp: placed_def split: if_splits)
  have f: "unat ?x \<le> B"
      "\<forall>e\<in>set (m_pFileList m). unat (m_llOffset e) + unat (getCurSize e) \<le> unat ?x"
      "?x = 0 \<or> (\<exists>e\<in>set (m_pFileList m). unat ?x = unat (m_llOffset e) + unat (getCurSize e))"
    using data_end_fold [of "m_pFileList m" B 0] e assms(3) by auto
  show ?thesis
  proof (cases "?x = 0")
    case True
    then have "xml_offset m = 35"
      using assms(4) by (simp add: xml_offset_def getSize_def MCF_HEADERSIZE_V2_def)
    then show ?thesis using f True assms(2) by auto
  next
    case False
    then have x: "xml_offset m = ?x" by (simp add: xml_offset_def)
    have "0 < unat ?x" using False by (simp add: unat_gt_0)
    then have "35 \<le> unat ?x" using f(3) False e by force
    then show ?thesis using f x by simp
  qed
qed

lemma crc_generate_all_placed:
  assumes h: "m_bIsOpen h" "fh_mode h = FILE_READ" "m_uiOffset h = 0" and "B < 2 ^ 63"
  shows "list_all2 (placed (fh_content disk h) B) es ds \<Longrightarrow>
    crc_generate_all disk h es = Inr (map2 with_crc es ds)"
proof (induction es ds rule: list_all2_induct)
  case (Cons e es d ds)
  have "(if \<not> isSaved e then Inr e else bind_res (generateCRC disk h e) (\<lambda>(f', _). Inr f')) = Inr (with_crc e d)"
  proof (cases "isZeroSize e")
    case True
    have "isZeroSize (e\<lparr>m_vCRCList := []\<rparr>)" using True by (simp add: isZeroSize_def has_flag_def)
    then show ?thesis using True Cons.hyps(1) by (simp add: placed_def generateCRC_def with_crc_def Let_def)
  next
    case False
    then have p: "isSaved e" "unat (m_llOffset e) < 2 ^ 63"
      "get_bytes (fh_content disk h) (unat (m_llOffset e)) (unat (getCurSize e)) = Some d"
      using Cons.hyps(1) assms(4) by (auto simp: placed_def holds_def)
    from generateCRC_eval [OF h p(2,1) False p(3)] show ?thesis
      using False p(1) by (auto simp: with_crc_def)
  qed
  then show ?case using Cons.IH by simp
qed simp

lemma entries_placed:
  assumes "list_all2 (\<lambda>f e. \<not> isZeroSize f \<longrightarrow> holds content e (data_of bz2d c f)
         \<and> unat lo \<le> unat (m_llOffset e) \<and> unat (m_llOffset e) + length (data_of bz2d c f) \<le> B)
       fs (entries_of bz2d c lo0 fs)"
    and "35 \<le> unat lo" and "\<forall>f\<in>set fs. readable bz2d c f \<and> isSaved f" and "B < 2 ^ 63"
  shows "list_all2 (placed content B) (entries_of bz2d c lo0 fs) (map (data_of bz2d c) fs)"
  using assms(1,3)
proof (induction fs arbitrary: lo0)
  case (Cons f fs)
  let ?e = "entry_of (data_of bz2d c f) lo0 f"
  have flags: "isSaved ?e" "isZeroSize ?e = isZeroSize f" "m_llDiffOffset ?e = 0" "m_llDiffSize ?e = 0"
    using Cons.prems(2) entry_flags(1) [of FLAG_SAVE] entry_flags(1) [of FLAG_ZEROSIZE]
    by (auto simp: isSaved_def isZeroSize_def entry_of_def Let_def setOffSet_def setCRC_def delFlag_def MCFFile_new_def)
  have "placed content B ?e (data_of bz2d c f)"
  proof (cases "isZeroSize f")
    case True
    have "getCurSize ?e = getCurSize f"
      using True entry_flags(2) by (simp add: getCurSize_def isCompressed_def entry_sizes)
    moreover have "m_llOffset ?e = 0" using True by (simp add: entry_of_def setOffSet_def)
    ultimately show ?thesis using True flags Cons.prems(2) by (simp add: placed_def readable_def)
  next
    case False
    have "unat (getCurSize ?e) = length (data_of bz2d c f)"
      using getCurSize_entry [of bz2d c f lo0] False Cons.prems assms(4)
      by (simp add: unat_of_nat take_bit_nat_eq_self)
    then show ?thesis using False flags Cons.prems assms(2) by (simp add: placed_def)
  qed
  with Cons show ?case by simp
qed simp

lemma new_target_fields:
  "m_szFile (new_target cores path head) = PathWithFile path" "m_pFileList (new_target cores path head) = []"
  "m_sHeader (new_target cores path head) = updateFileVersion (UMcfHeader_copy (Some head))"
  "\<not> m_bStopped (new_target cores path head)" "m_uiFileOffset (new_target cores path head) = 0"
  "data_start (new_target cores path head) = 35"
  by (simp_all add: new_target_def Let_def setHeader_def setFile_def MCF_new_def setWorkerCount_def data_start_def
      getSize_def updateFileVersion_def MCF_HEADERSIZE_V2_def)

lemma entries_fields:
  "map m_iHash (entries_of bz2d c lo fs) = map m_iHash fs" "length (entries_of bz2d c lo fs) = length fs"
  "\<forall>e\<in>set (entries_of bz2d c lo fs). m_iBlockSize e = DEFAULT_BLOCKSIZE"
  "map isZeroSize (entries_of bz2d c lo fs) = map isZeroSize fs"
  by (induction fs arbitrary: lo)
    (simp_all add: entry_sizes isZeroSize_def entry_flags,
      simp add: entry_of_def Let_def setOffSet_def setCRC_def delFlag_def MCFFile_new_def)

text \<open>What a copy of a file is: the same hash, and its data where the entry says.\<close>

definition same_data :: "bytes \<Rightarrow> mcf_file \<Rightarrow> bytes \<Rightarrow> mcf_file \<Rightarrow> bool" where
  "same_data content f d e \<longleftrightarrow>
     m_iHash e = m_iHash f \<and> isZeroSize e = isZeroSize f \<and> (\<not> isZeroSize f \<longrightarrow> holds content e d)"

lemma opened:
  "fh_open disk (Some n) FILE_READ 0 = Inr (disk, \<lparr>m_bIsOpen = True, fh_name = n, fh_mode = FILE_READ, m_uiOffset = 0, fh_pos = 0\<rparr>)
     \<longleftrightarrow> disk n \<noteq> None"
  "fh_open disk (Some n) FILE_WRITE 0 = Inr (disk(n \<mapsto> []),
     \<lparr>m_bIsOpen = True, fh_name = n, fh_mode = FILE_WRITE, m_uiOffset = 0, fh_pos = 0\<rparr>)"
  by (auto simp: fh_open_def split: option.splits)

text \<open>Saving, making the CRC lists and saving again keeps the data of every entry.\<close>

lemma saved_entries:
  assumes "header_ok (m_sHeader m)" and "m_iFileVer (m_sHeader m) = 2" and "m_uiFileOffset m = 0"
    and "\<forall>x. x \<noteq> [] \<longrightarrow> bz2c x \<noteq> []" and "disk (m_szFile m) \<noteq> None"
    and "list_all2 (placed (file_content disk (m_szFile m)) B) (m_pFileList m) ds" and "35 \<le> B" and "B < 2 ^ 63"
  shows "\<exists>disk' head. saveMCF_Header bz2c disk m = Inr (disk', m\<lparr>m_sHeader := head\<rparr>)
    \<and> header_ok head \<and> m_iFileVer head = 2
    \<and> list_all2 (placed (file_content disk' (m_szFile m)) B) (m_pFileList m) ds
    \<and> disk' (m_szFile m) \<noteq> None \<and> (\<forall>n. n \<noteq> m_szFile m \<longrightarrow> disk' n = disk n)"
proof -
  note xo = xml_offset_placed [OF assms(6-8,2)]
  then have "unat (xml_offset m) < 2 ^ 63" using assms(8) by linarith
  with xo obtain disk' where d: "saveMCF_Header bz2c disk m = Inr (disk', m\<lparr>m_sHeader := saved_header bz2c m\<rparr>)"
    "disk' (m_szFile m) \<noteq> None" "\<forall>n. n \<noteq> m_szFile m \<longrightarrow> disk' n = disk n"
    and keep: "\<And>q n x. 35 \<le> q \<Longrightarrow> q + n \<le> unat (xml_offset m) \<Longrightarrow>
         get_bytes (file_content disk (m_szFile m)) q n = Some x \<Longrightarrow>
         get_bytes (file_content disk' (m_szFile m)) q n = Some x"
    using save_keeps [OF assms(1,2) _ _ assms(4), of disk] by blast
  have "placed (file_content disk' (m_szFile m)) B e x"
    if "placed (file_content disk (m_szFile m)) B e x" "e \<in> set (m_pFileList m)" for e x
    using that xo keep by (auto simp: placed_def holds_def split: if_splits)
  then have "list_all2 (placed (file_content disk' (m_szFile m)) B) (m_pFileList m) ds"
    using assms(6) by (auto simp: list_all2_conv_all_nth)
  moreover have "header_ok (saved_header bz2c m)" "m_iFileVer (saved_header bz2c m) = 2"
    using assms(1,2) by (simp_all add: header_ok_def saved_header_def)
  ultimately show ?thesis using d by blast
qed

lemma makeCRC_entries:
  assumes "header_ok (m_sHeader m)" and "m_iFileVer (m_sHeader m) = 2" and "m_uiFileOffset m = 0"
    and "\<forall>x. x \<noteq> [] \<longrightarrow> bz2c x \<noteq> []" and "disk (m_szFile m) \<noteq> None"
    and "list_all2 (placed (file_content disk (m_szFile m)) B) (m_pFileList m) ds" and "35 \<le> B" and "B < 2 ^ 63"
  shows "\<exists>disk' head. makeCRC bz2c disk m = Inr (disk', m\<lparr>m_pFileList := map2 with_crc (m_pFileList m) ds, m_sHeader := head\<rparr>)
    \<and> header_ok head \<and> m_iFileVer head = 2
    \<and> list_all2 (placed (file_content disk' (m_szFile m)) B) (map2 with_crc (m_pFileList m) ds) ds
    \<and> disk' (m_szFile m) \<noteq> None \<and> (\<forall>n. n \<noteq> m_szFile m \<longrightarrow> disk' n = disk n)"
proof -
  let ?h = "\<lparr>m_bIsOpen = True, fh_name = m_szFile m, fh_mode = FILE_READ, m_uiOffset = 0, fh_pos = 0\<rparr>"
  let ?m = "m\<lparr>m_pFileList := map2 with_crc (m_pFileList m) ds\<rparr>"
  have open_h: "getReadHandle disk m = Inr ?h"
    using assms(3,5) opened(1) [of disk "m_szFile m"] by (simp add: getReadHandle_def)
  have "fh_content disk ?h = file_content disk (m_szFile m)" by (simp add: fh_content_def file_content_def)
  then have crc: "crc_generate_all disk ?h (m_pFileList m) = Inr (map2 with_crc (m_pFileList m) ds)"
    using crc_generate_all_placed [of ?h B disk] assms(6,8) by simp
  have "list_all2 (placed (file_content disk (m_szFile ?m)) B) (m_pFileList ?m) ds"
    using assms(6) by (auto simp: list_all2_conv_all_nth)
  with saved_entries [of ?m bz2c disk B ds] assms show ?thesis
    by (simp add: makeCRC_def open_h crc)
qed

lemma placed_same_data:
  assumes "list_all2 (placed content B) es (map d fs)" and "map m_iHash es = map m_iHash fs"
    and "map isZeroSize es = map isZeroSize fs"
  shows "list_all2 (\<lambda>f e. same_data content f (d f) e) fs es"
proof -
  have len: "length es = length fs" using assms(2) by (metis length_map)
  have "same_data content (fs ! i) (d (fs ! i)) (es ! i)" if "i < length fs" for i
  proof -
    have "m_iHash (es ! i) = m_iHash (fs ! i)" "isZeroSize (es ! i) = isZeroSize (fs ! i)"
      using that len assms(2,3) by (metis nth_map)+
    moreover have "placed content B (es ! i) (d (fs ! i))"
      using assms(1) that len by (simp add: list_all2_conv_all_nth)
    ultimately show ?thesis by (simp add: same_data_def placed_def)
  qed
  then show ?thesis using len by (simp add: list_all2_conv_all_nth)
qed

text \<open>
  C5: Exporting writes an archive that holds exactly the saved files, in order, each with its bytes behind
  the header and with fresh block checksums; files that compression made larger are stored as they are. No
  other file is touched.
\<close>

theorem exportMcf_holds:
  assumes "\<not> m_bStopped this" and "disk (m_szFile this) = Some c"
    and "path \<noteq> m_szFile this" and "PathWithFile path = path"
    and "header_ok (updateFileVersion (UMcfHeader_copy (Some (m_sHeader this))))"
    and "fs = filter isSaved (m_pFileList this)" and "length fs < 2 ^ 32 - 1" and "distinct (map m_iHash fs)"
    and "\<forall>f\<in>set fs. readable bz2d c f" and "35 + total_data bz2d c fs < 2 ^ 63"
    and "\<forall>x. x \<noteq> [] \<longrightarrow> bz2c x \<noteq> []"
  shows "\<exists>disk' dest content. exportMcf bz2c bz2d cores (Some path) disk this = Inr (disk', Some dest)
    \<and> disk' path = Some content
    \<and> list_all2 (\<lambda>f e. same_data content f (data_of bz2d c f) e
         \<and> m_vCRCList e = map CRC32 (chunks (unat DEFAULT_BLOCKSIZE) (data_of bz2d c f))) fs (m_pFileList dest)
    \<and> (\<forall>n. n \<noteq> path \<longrightarrow> disk' n = disk n)"
proof -
  let ?t = "new_target cores path (m_sHeader this)" and ?B = "35 + total_data bz2d c fs"
  let ?src = "\<lparr>m_bIsOpen = True, fh_name = m_szFile this, fh_mode = FILE_READ, m_uiOffset = 0, fh_pos = 0\<rparr>"
    and ?dst = "\<lparr>m_bIsOpen = True, fh_name = path, fh_mode = FILE_WRITE, m_uiOffset = 0, fh_pos = 0\<rparr>"
  let ?es = "entries_of bz2d c 35 fs" and ?ds = "map (data_of bz2d c) fs"
  let ?dst' = "\<lparr>m_bIsOpen = True, fh_name = path, fh_mode = FILE_WRITE, m_uiOffset = 0, fh_pos = 35\<rparr>" and ?disk0 = "disk(path \<mapsto> [])"
  have src: "fh_open disk (Some (m_szFile this)) FILE_READ 0 = Inr (disk, ?src)"
    using assms(2) opened(1) [of disk "m_szFile this"] by simp
  have seek: "fh_seek ?dst 35 = Inr ?dst'" by (simp add: fh_seek_def)
  note t = new_target_fields [of cores path "m_sHeader this"]
  obtain disk1 ps pd where copy: "copyFiles bz2d fs (?t, 35, ?disk0, ?src, ?dst') =
      Inr (?t\<lparr>m_pFileList := m_pFileList ?t @ ?es\<rparr>, 35 + of_nat (total_data bz2d c fs), disk1,
           ?src\<lparr>fh_pos := ps\<rparr>, ?dst'\<lparr>fh_pos := pd\<rparr>)"
    and d1: "\<forall>n. n \<noteq> path \<longrightarrow> disk1 n = disk n" "disk1 path \<noteq> None"
    and held: "list_all2 (\<lambda>f e. \<not> isZeroSize f \<longrightarrow> holds (fh_content disk1 ?dst') e (data_of bz2d c f)
         \<and> unat (35 :: u64) \<le> unat (m_llOffset e)
         \<and> unat (m_llOffset e) + length (data_of bz2d c f) \<le> unat (35 :: u64) + total_data bz2d c fs) fs ?es"
    using copyFiles_new [of ?src ?dst' ?t fs c ?disk0 bz2d 35] assms t
    by (auto simp: fh_content_def)
  let ?m = "?t\<lparr>m_pFileList := ?es\<rparr>"
  have fc: "fh_content disk1 ?dst' = file_content disk1 path" by (simp add: fh_content_def file_content_def)
  have all: "\<forall>f\<in>set fs. readable bz2d c f \<and> isSaved f" using assms(6,9) by simp
  have placed: "list_all2 (placed (file_content disk1 path) ?B) ?es ?ds"
    using held unfolding fc by (intro entries_placed [where lo = "35 :: u64"]) (use all assms(10) in simp_all)
  have head: "header_ok (m_sHeader ?m)" "m_iFileVer (m_sHeader ?m) = 2" "m_uiFileOffset ?m = 0" "m_szFile ?m = path"
    using assms(4,5) t by (simp_all add: updateFileVersion_def)
  obtain disk2 h2 where save: "saveMCF_Header bz2c disk1 ?m = Inr (disk2, ?m\<lparr>m_sHeader := h2\<rparr>)"
    "header_ok h2" "m_iFileVer h2 = 2" "list_all2 (placed (file_content disk2 path) ?B) ?es ?ds"
    "disk2 path \<noteq> None" "\<forall>n. n \<noteq> path \<longrightarrow> disk2 n = disk1 n"
    using saved_entries [of ?m bz2c disk1 ?B ?ds] head assms(10,11) d1 placed by auto
  obtain disk3 h3 where crc: "makeCRC bz2c disk2 (?m\<lparr>m_sHeader := h2\<rparr>)
      = Inr (disk3, ?m\<lparr>m_pFileList := map2 with_crc ?es ?ds, m_sHeader := h3\<rparr>)"
    "list_all2 (placed (file_content disk3 path) ?B) (map2 with_crc ?es ?ds) ?ds"
    "disk3 path \<noteq> None" "\<forall>n. n \<noteq> path \<longrightarrow> disk3 n = disk2 n"
    using makeCRC_entries [of "?m\<lparr>m_sHeader := h2\<rparr>" bz2c disk2 ?B ?ds] save head assms(10,11) by auto
  have r: "exportMcf bz2c bz2d cores (Some path) disk this
      = Inr (disk3, Some (?m\<lparr>m_pFileList := map2 with_crc ?es ?ds, m_sHeader := h3\<rparr>))"
    using assms(1) t(2) save(1) crc(1)
    by (simp add: exportMcf_def Let_def t(6) src opened(2) seek copy flip: assms(6))
  have "list_all2 (\<lambda>f e. same_data (file_content disk3 path) f (data_of bz2d c f) e) fs (map2 with_crc ?es ?ds)"
    using crc(2) by (rule placed_same_data)
      (simp_all add: nth_equalityI entries_fields list_eq_iff_nth_eq, (metis entries_fields nth_map)+)
  moreover have "list_all2 (\<lambda>f e. m_vCRCList e = map CRC32 (chunks (unat DEFAULT_BLOCKSIZE) (data_of bz2d c f)))
      fs (map2 with_crc ?es ?ds)"
    unfolding list_all2_conv_all_nth
  proof (intro conjI allI impI)
    fix i
    assume "i < length fs"
    moreover from this have "m_iBlockSize (?es ! i) = DEFAULT_BLOCKSIZE" "isZeroSize (?es ! i) = isZeroSize (fs ! i)"
      using entries_fields [of bz2d c 35 fs] by (metis nth_mem, metis nth_map)
    moreover have "isZeroSize f \<Longrightarrow> chunks n (data_of bz2d c f) = []" for f n
      by (simp add: data_of_def payload_def chunks.simps)
    ultimately show "m_vCRCList (map2 with_crc ?es ?ds ! i)
        = map CRC32 (chunks (unat DEFAULT_BLOCKSIZE) (data_of bz2d c (fs ! i)))"
      by (simp add: with_crc_def fix_block_def entries_fields DEFAULT_BLOCKSIZE_def)
  qed (simp add: entries_fields)
  ultimately show ?thesis
    using r crc(3,4) save(6) d1(1) by (auto simp: file_content_def list_all2_conv_all_nth)
qed

lemma demo_readable: "readable Some [6, 7, 8] demo_file" "data_of Some [6, 7, 8] demo_file = [7, 8]"
  by (simp_all add: readable_def data_of_def payload_def inflated_def demo_file_def MCFFile_new_def isZeroSize_def
      isCompressed_def has_flag_def file_flags getCurSize_def get_bytes_def)

lemma demo_paths: "PathWithFile ''n'' = ''n''"
  by code_simp

theorem exportMcf_holds_witness:
  "\<exists>disk' dest content. exportMcf (\<lambda>x. x) Some 1 (Some ''n'') [''m'' \<mapsto> [6, 7, 8]]
      ((MCF_new 1)\<lparr>m_szFile := ''m'', m_pFileList := [demo_file]\<rparr>) = Inr (disk', Some dest)
    \<and> disk' ''n'' = Some content
    \<and> list_all2 (\<lambda>f e. same_data content f [7, 8] e) [demo_file] (m_pFileList dest)"
proof -
  let ?m = "(MCF_new 1)\<lparr>m_szFile := ''m'', m_pFileList := [demo_file]\<rparr>"
  have m: "\<not> m_bStopped ?m" "m_szFile ?m = ''m''" "m_pFileList ?m = [demo_file]" "m_sHeader ?m = UMcfHeader_new"
    by (simp_all add: MCF_new_def setWorkerCount_def)
  have h: "header_ok (updateFileVersion (UMcfHeader_copy (Some UMcfHeader_new)))"
    by (simp add: header_ok_def updateFileVersion_def UMcfHeader_copy_def UMcfHeader_new_def MCFBranch_default_def)
  have "isSaved demo_file" by (simp add: demo_file_def MCFFile_new_def isSaved_def has_flag_def file_flags)
  then have fs: "[demo_file] = filter isSaved (m_pFileList ?m)" by (simp add: m)
  have size: "35 + total_data Some [6, 7, 8] [demo_file] < 2 ^ 63" by (simp add: total_data_def demo_readable)
  have disk: "([''m'' \<mapsto> [6, 7, 8]] :: fs) (m_szFile ?m) = Some [6, 7, 8]" "''n'' \<noteq> m_szFile ?m" by (simp_all add: m)
  have list: "length [demo_file] < 2 ^ 32 - 1" "distinct (map m_iHash [demo_file])"
    "\<forall>f\<in>set [demo_file]. readable Some [6, 7, 8] f"
    by (simp_all add: demo_readable)
  obtain disk' dest content where
    "exportMcf (\<lambda>x. x) Some 1 (Some ''n'') [''m'' \<mapsto> [6, 7, 8]] ?m = Inr (disk', Some dest)"
    "disk' ''n'' = Some content"
    "list_all2 (\<lambda>f e. same_data content f (data_of Some [6, 7, 8] f) e
       \<and> m_vCRCList e = map CRC32 (chunks (unat DEFAULT_BLOCKSIZE) (data_of Some [6, 7, 8] f)))
       [demo_file] (m_pFileList dest)"
    using exportMcf_holds [of ?m "[''m'' \<mapsto> [6, 7, 8]]" "[6, 7, 8]" "''n''" "[demo_file]" Some "\<lambda>x. x" 1,
        OF m(1) disk demo_paths h [folded m(4)] fs list size] by auto
  then show ?thesis by (auto simp: list_all2_Cons1 demo_readable)
qed

end
