(* ===== verification/Mcf_Patch.thy ===== *)
theory Mcf_Patch
  imports Mcf_Merge
begin

text \<open>
  What \<open>makeFullFile\<close> makes of an archive and a patch: the files of the new version whose data is in either
  of the two, each with its bytes.
\<close>

unbundle bit_operations_syntax

section \<open>The specification of a merge\<close>

definition kept :: "mcf \<Rightarrow> mcf_file \<Rightarrow> bool" where
  "kept patch t \<longleftrightarrow> isSaved t \<and> verdict patch t = Some CMP_SAME"

definition renamed :: "mcf_file \<Rightarrow> mcf_file \<Rightarrow> mcf_file" where
  "renamed p t = setName (m_szName p) (setPath (m_szPath p) (addFlag (m_uiFlags p AND FLAG_XECUTABLE) t))"

definition renamed_as :: "mcf \<Rightarrow> mcf_file \<Rightarrow> mcf_file" where
  "renamed_as patch t = (case counterpart patch t of None \<Rightarrow> t | Some p \<Rightarrow> renamed p t)"

text \<open>The old files that stay, and the files only the patch has.\<close>

definition from_old :: "mcf \<Rightarrow> mcf \<Rightarrow> mcf_file list" where
  "from_old this patch = map (renamed_as patch) (filter (kept patch) (m_pFileList this))"

definition from_patch :: "mcf \<Rightarrow> mcf \<Rightarrow> mcf_file list" where
  "from_patch this patch =
     filter (\<lambda>p. isSaved p \<and> \<not> (\<exists>t\<in>set (m_pFileList this). m_iHash t = m_iHash p \<and> kept patch t))
       (m_pFileList patch)"

section \<open>The loop over the same files\<close>

definition up_this :: "mcf_file \<Rightarrow> mcf_file \<Rightarrow> mcf_file" where
  "up_this t p = (if isSaved t then renamed p t else if isSaved p then delFlag FLAG_SAVE t else t)"

definition up_patch :: "mcf_file \<Rightarrow> mcf_file \<Rightarrow> mcf_file" where
  "up_patch t p = (if isSaved t then delFlag FLAG_SAVE p else p)"

lemma merge_same_eval:
  assumes "unat (thisMcf d) < length (m_pFileList this)" and "unat (otherMcf d) < length (m_pFileList patch)"
  shows "merge_same d (this, patch) =
    (let t = m_pFileList this ! unat (thisMcf d); p = m_pFileList patch ! unat (otherMcf d) in
     Inr (this\<lparr>m_pFileList := (m_pFileList this)[unat (thisMcf d) := up_this t p]\<rparr>,
          patch\<lparr>m_pFileList := (m_pFileList patch)[unat (otherMcf d) := up_patch t p]\<rparr>))"
  using assms
  by (simp add: merge_same_def getFile_def up_this_def up_patch_def renamed_def update_file_def Let_def)

lemma merge_all_eval:
  "distinct (map (unat \<circ> thisMcf) ds) \<Longrightarrow> distinct (map (unat \<circ> otherMcf) ds) \<Longrightarrow>
   \<forall>d\<in>set ds. unat (thisMcf d) < length (m_pFileList this) \<and> unat (otherMcf d) < length (m_pFileList patch) \<Longrightarrow>
   \<exists>ts ps. merge_all ds (this, patch) = Inr (this\<lparr>m_pFileList := ts\<rparr>, patch\<lparr>m_pFileList := ps\<rparr>)
     \<and> length ts = length (m_pFileList this) \<and> length ps = length (m_pFileList patch)
     \<and> (\<forall>d\<in>set ds. ts ! unat (thisMcf d) = up_this (m_pFileList this ! unat (thisMcf d)) (m_pFileList patch ! unat (otherMcf d))
          \<and> ps ! unat (otherMcf d) = up_patch (m_pFileList this ! unat (thisMcf d)) (m_pFileList patch ! unat (otherMcf d)))
     \<and> (\<forall>i. i \<notin> (unat \<circ> thisMcf) ` set ds \<longrightarrow> ts ! i = m_pFileList this ! i)
     \<and> (\<forall>j. j \<notin> (unat \<circ> otherMcf) ` set ds \<longrightarrow> ps ! j = m_pFileList patch ! j)"
proof (induction ds arbitrary: this patch)
  case Nil
  show ?case by (rule exI [of _ "m_pFileList this"], rule exI [of _ "m_pFileList patch"]) simp
next
  case (Cons d ds)
  let ?i = "unat (thisMcf d)" and ?j = "unat (otherMcf d)"
  let ?t = "m_pFileList this ! ?i" and ?p = "m_pFileList patch ! ?j"
  let ?T = "this\<lparr>m_pFileList := (m_pFileList this)[?i := up_this ?t ?p]\<rparr>"
    and ?P = "patch\<lparr>m_pFileList := (m_pFileList patch)[?j := up_patch ?t ?p]\<rparr>"
  have step: "merge_same d (this, patch) = Inr (?T, ?P)"
    using Cons.prems by (simp add: merge_same_eval Let_def)
  obtain ts ps where r: "merge_all ds (?T, ?P) = Inr (?T\<lparr>m_pFileList := ts\<rparr>, ?P\<lparr>m_pFileList := ps\<rparr>)"
    and len: "length ts = length (m_pFileList this)" "length ps = length (m_pFileList patch)"
    and at: "\<forall>e\<in>set ds. ts ! unat (thisMcf e) = up_this (m_pFileList ?T ! unat (thisMcf e)) (m_pFileList ?P ! unat (otherMcf e))
          \<and> ps ! unat (otherMcf e) = up_patch (m_pFileList ?T ! unat (thisMcf e)) (m_pFileList ?P ! unat (otherMcf e))"
    and out: "\<forall>i. i \<notin> (unat \<circ> thisMcf) ` set ds \<longrightarrow> ts ! i = m_pFileList ?T ! i"
      "\<forall>j. j \<notin> (unat \<circ> otherMcf) ` set ds \<longrightarrow> ps ! j = m_pFileList ?P ! j"
    using Cons.IH [of ?T ?P] Cons.prems by auto
  have ne: "unat (thisMcf e) \<noteq> ?i" "unat (otherMcf e) \<noteq> ?j" if "e \<in> set ds" for e
    using Cons.prems(1,2) that by (auto simp: image_iff)
  have "ts ! ?i = up_this ?t ?p" "ps ! ?j = up_patch ?t ?p"
    using out Cons.prems by auto
  moreover have "\<forall>e\<in>set ds. ts ! unat (thisMcf e) = up_this (m_pFileList this ! unat (thisMcf e)) (m_pFileList patch ! unat (otherMcf e))
          \<and> ps ! unat (otherMcf e) = up_patch (m_pFileList this ! unat (thisMcf e)) (m_pFileList patch ! unat (otherMcf e))"
    using at by (simp add: ne [symmetric])
  moreover have "i \<notin> (unat \<circ> thisMcf) ` set (d # ds) \<Longrightarrow> ts ! i = m_pFileList this ! i" for i
    using out(1) by simp
  moreover have "j \<notin> (unat \<circ> otherMcf) ` set (d # ds) \<Longrightarrow> ps ! j = m_pFileList patch ! j" for j
    using out(2) by simp
  ultimately show ?case
    using r len by (intro exI [of _ ts] exI [of _ ps]) (simp add: step)
qed

lemma filter_saved_as:
  "list_all2 (\<lambda>l l'. (isSaved l' \<longleftrightarrow> Q l) \<and> (Q l \<longrightarrow> l' = h l)) L L' \<Longrightarrow> filter isSaved L' = map h (filter Q L)"
  by (induction L L' rule: list_all2_induct) auto


text \<open>The index of the counterpart, for the files that have one.\<close>

lemma other_index:
  assumes "small patch" and "counterpart patch (m_pFileList this ! x) = Some p"
  shows "unat (otherMcf (dif_of this patch x)) < length (m_pFileList patch)"
    and "m_pFileList patch ! unat (otherMcf (dif_of this patch x)) = p"
    and "m_iHash p = m_iHash (m_pFileList this ! x)"
  using counterpart_index(2) [OF assms] by (auto simp: getFile_def dif_of_def split: if_splits)

lemma isSaved_renamed [simp]: "isSaved (renamed p t) = isSaved t"
proof -
  have "m_uiFlags (renamed p t) = m_uiFlags (addFlag (m_uiFlags p AND FLAG_XECUTABLE) t)"
    by (simp add: renamed_def setName_def setPath_def saveHash_def)
  moreover have "(m_uiFlags p AND FLAG_XECUTABLE) AND FLAG_SAVE = 0"
    by (simp add: file_flags and.assoc)
  ultimately show ?thesis by (simp add: isSaved_def has_flag_def addFlag_def and.assoc bit.conj_disj_distrib2)
qed

lemma isSaved_del [simp]: "\<not> isSaved (delFlag FLAG_SAVE t)"
  by (simp add: isSaved_def)

lemma merged_lists:
  assumes srt: "hash_sort srt" and m: "\<not> m_bStopped this0" "small this0" "small patch0"
    and dist: "distinct (map m_iHash (m_pFileList this0))" "distinct (map m_iHash (m_pFileList patch0))"
    and r: "findChanges srt patch0 this0 = (this, patch, c)"
    and verdicts: "\<forall>t\<in>set (m_pFileList this). verdict patch t \<noteq> Some CMP_NOTEQUAL"
  shows "\<exists>t0 t1 ts ps. at_indexes (map thisMcf (vDel c)) (delFlag FLAG_SAVE) this = Inr t0
    \<and> at_indexes (map thisMcf (vDiff c)) (delFlag FLAG_SAVE) t0 = Inr t1
    \<and> merge_all (vSame c) (t1, patch) = Inr (this\<lparr>m_pFileList := ts\<rparr>, patch\<lparr>m_pFileList := ps\<rparr>)
    \<and> filter isSaved ts = from_old this patch \<and> filter isSaved ps = from_patch this patch"
proof -
  note ev = findChanges_eval [OF srt m r]
  let ?T = "m_pFileList this" and ?P = "m_pFileList patch"
  let ?I = "\<lambda>vs. {x. x < length ?T \<and> verdict patch (?T ! x) \<in> vs}"
  let ?xs = "with_verdict this patch {Some CMP_SAME} (length ?T)"
  let ?o = "\<lambda>x. unat (otherMcf (dif_of this patch x))"
  have dT: "distinct (map m_iHash ?T)" and dP: "distinct (map m_iHash ?P)"
    using dist hash_sort.distinct_hashes [OF srt] by (simp_all add: ev(1,2) sortFileList_def)
  have hashT: "x = y" if "x < length ?T" "y < length ?T" "m_iHash (?T ! x) = m_iHash (?T ! y)" for x y
    using dT that by (auto simp: distinct_conv_nth)
  have hashP: "x = y" if "x < length ?P" "y < length ?P" "m_iHash (?P ! x) = m_iHash (?P ! y)" for x y
    using dP that by (auto simp: distinct_conv_nth)
  note vi = verdict_indexes [OF ev(3), of patch]
  let ?t0 = "this\<lparr>m_pFileList := update_files (?I {None}) (delFlag FLAG_SAVE) ?T\<rparr>"
  let ?T1 = "update_files (?I {Some CMP_OLDER, Some CMP_NEWER}) (delFlag FLAG_SAVE) (m_pFileList ?t0)"
  have del: "at_indexes (map thisMcf (vDel c)) (delFlag FLAG_SAVE) this = Inr ?t0"
    unfolding ev(7) using vi [of "{None}"] by (simp add: at_indexes_eval)
  have diff: "at_indexes (map thisMcf (vDiff c)) (delFlag FLAG_SAVE) ?t0 = Inr (this\<lparr>m_pFileList := ?T1\<rparr>)"
    unfolding ev(6) using vi [of "{Some CMP_OLDER, Some CMP_NEWER}"] by (simp add: at_indexes_eval)
  have T1: "length ?T1 = length ?T"
    "\<And>x. x < length ?T \<Longrightarrow> ?T1 ! x = (if verdict patch (?T ! x) = Some CMP_SAME then ?T ! x else delFlag FLAG_SAVE (?T ! x))"
  proof -
    fix x
    assume x: "x < length ?T"
    then have "verdict patch (?T ! x) \<noteq> Some CMP_NOTEQUAL" using verdicts by simp
    then consider "verdict patch (?T ! x) = None" | "verdict patch (?T ! x) = Some CMP_SAME"
      | "verdict patch (?T ! x) = Some CMP_OLDER" | "verdict patch (?T ! x) = Some CMP_NEWER"
      by (cases "verdict patch (?T ! x)") (auto intro: file_cmp.exhaust)
    then show "?T1 ! x = (if verdict patch (?T ! x) = Some CMP_SAME then ?T ! x else delFlag FLAG_SAVE (?T ! x))"
      using x by cases simp_all
  qed simp
  have xs: "x \<in> set ?xs \<longleftrightarrow> x < length ?T \<and> verdict patch (?T ! x) = Some CMP_SAME" for x
    by (auto simp: with_verdict_def)
  have cp: "?o x < length ?P" "counterpart patch (?T ! x) = Some (?P ! ?o x)" "m_iHash (?P ! ?o x) = m_iHash (?T ! x)"
    if "x \<in> set ?xs" for x
    using that xs other_index [OF ev(4)] by (auto simp: verdict_def)
  have this_ix: "unat (thisMcf (dif_of this patch x)) = x" if "x \<in> set ?xs" for x
    using that xs dif_of_this [OF ev(3)] by blast
  have ds: "distinct (map (unat \<circ> thisMcf) (vSame c))" "distinct (map (unat \<circ> otherMcf) (vSame c))"
  proof -
    have dx: "distinct ?xs" by (simp add: with_verdict_def)
    have "map (unat \<circ> thisMcf) (vSame c) = ?xs"
      unfolding ev(5) by (rule map_this_with_verdict [OF ev(3)])
    then show "distinct (map (unat \<circ> thisMcf) (vSame c))" using dx by simp
    have "inj_on ?o (set ?xs)"
      by (rule inj_onI) (metis cp(3) hashT xs)
    then show "distinct (map (unat \<circ> otherMcf) (vSame c))"
      unfolding ev(5) by (simp add: distinct_map dx o_def)
  qed
  obtain ts ps where merge: "merge_all (vSame c) (this\<lparr>m_pFileList := ?T1\<rparr>, patch)
      = Inr (this\<lparr>m_pFileList := ts\<rparr>, patch\<lparr>m_pFileList := ps\<rparr>)"
    and len: "length ts = length ?T" "length ps = length ?P"
    and at: "\<And>x. x \<in> set ?xs \<Longrightarrow> ts ! x = up_this (?T ! x) (?P ! ?o x) \<and> ps ! ?o x = up_patch (?T ! x) (?P ! ?o x)"
    and out: "\<And>x. x \<notin> set ?xs \<Longrightarrow> ts ! x = ?T1 ! x" "\<And>y. y \<notin> ?o ` set ?xs \<Longrightarrow> ps ! y = ?P ! y"
  proof -
    have mem: "\<forall>d\<in>set (vSame c). unat (thisMcf d) < length (m_pFileList (this\<lparr>m_pFileList := ?T1\<rparr>))
        \<and> unat (otherMcf d) < length ?P"
      unfolding ev(5) using cp(1) this_ix xs by auto
    have img: "(unat \<circ> thisMcf) ` set (vSame c) = set ?xs" "(unat \<circ> otherMcf) ` set (vSame c) = ?o ` set ?xs"
      unfolding ev(5) using this_ix by (auto simp: image_iff)
    show thesis
      using merge_all_eval [OF ds mem] that unfolding img
      by (auto simp: ev(5) this_ix xs T1)
  qed
  have "filter isSaved ts = map (renamed_as patch) (filter (kept patch) ?T)"
  proof (rule filter_saved_as, unfold list_all2_conv_all_nth, intro conjI allI impI)
    fix x
    assume x: "x < length ?T"
    have "(isSaved (ts ! x) \<longleftrightarrow> kept patch (?T ! x)) \<and> (kept patch (?T ! x) \<longrightarrow> ts ! x = renamed_as patch (?T ! x))"
    proof (cases "x \<in> set ?xs")
      case True
      then show ?thesis using at [OF True] cp(2) [OF True] xs
        by (auto simp: up_this_def kept_def renamed_as_def)
    next
      case False
      then show ?thesis using out(1) [OF False] T1(2) [OF x] x xs by (simp add: kept_def)
    qed
    then show "isSaved (ts ! x) \<longleftrightarrow> kept patch (?T ! x)"
      and "kept patch (?T ! x) \<Longrightarrow> ts ! x = renamed_as patch (?T ! x)" by blast+
  qed (simp add: len)
  moreover have "filter isSaved ps = map (\<lambda>p. p) (filter (\<lambda>p. isSaved p
      \<and> \<not> (\<exists>t\<in>set ?T. m_iHash t = m_iHash p \<and> kept patch t)) ?P)"
  proof (rule filter_saved_as, unfold list_all2_conv_all_nth, intro conjI allI impI)
    fix y
    assume y: "y < length ?P"
    let ?Q = "\<lambda>p. isSaved p \<and> \<not> (\<exists>t\<in>set ?T. m_iHash t = m_iHash p \<and> kept patch t)"
    have "(isSaved (ps ! y) \<longleftrightarrow> ?Q (?P ! y)) \<and> (?Q (?P ! y) \<longrightarrow> ps ! y = ?P ! y)"
    proof (cases "y \<in> ?o ` set ?xs")
      case True
      then obtain x where x: "x \<in> set ?xs" "y = ?o x" by blast
      have "(\<exists>t\<in>set ?T. m_iHash t = m_iHash (?P ! y) \<and> kept patch t) \<longleftrightarrow> isSaved (?T ! x)"
      proof
        assume "\<exists>t\<in>set ?T. m_iHash t = m_iHash (?P ! y) \<and> kept patch t"
        then obtain z where z: "z < length ?T" "m_iHash (?T ! z) = m_iHash (?P ! y)" "isSaved (?T ! z)"
          by (auto simp: kept_def in_set_conv_nth)
        then have "z = x" using hashT [of z x] x xs [of x] cp(3) [OF x(1)] by simp
        with z show "isSaved (?T ! x)" by simp
      next
        assume "isSaved (?T ! x)"
        then show "\<exists>t\<in>set ?T. m_iHash t = m_iHash (?P ! y) \<and> kept patch t"
          using x xs [of x] cp(3) [OF x(1)] by (intro bexI [of _ "?T ! x"]) (simp_all add: kept_def)
      qed
      then show ?thesis using at [OF x(1)] x(2) by (auto simp: up_patch_def)
    next
      case False
      have "\<not> (\<exists>t\<in>set ?T. m_iHash t = m_iHash (?P ! y) \<and> kept patch t)"
      proof
        assume "\<exists>t\<in>set ?T. m_iHash t = m_iHash (?P ! y) \<and> kept patch t"
        then obtain x where "x < length ?T" "verdict patch (?T ! x) = Some CMP_SAME"
          and hx: "m_iHash (?T ! x) = m_iHash (?P ! y)"
          by (auto simp: in_set_conv_nth kept_def)
        then have x: "x \<in> set ?xs" using xs by blast
        then have "y = ?o x" using hashP [OF y cp(1) [OF x]] cp(3) [OF x] hx by simp
        with False x show False by blast
      qed
      then show ?thesis using out(2) [OF False] by simp
    qed
    then show "isSaved (ps ! y) \<longleftrightarrow> ?Q (?P ! y)" and "?Q (?P ! y) \<Longrightarrow> ps ! y = ?P ! y" by blast+
  qed (simp add: len)
  ultimately show ?thesis using del diff merge by (auto simp: from_old_def from_patch_def)
qed

text \<open>What is renamed keeps its data; with the patch's path it gets the patch's hash.\<close>

definition named :: "mcf_file \<Rightarrow> bool" where
  "named p \<longleftrightarrow> m_szPath p \<noteq> [] \<and> m_szName p \<noteq> [] \<and> good \<notin> set (m_szPath p)
     \<and> m_iHash p = path_hash (m_szPath p) (m_szName p)"

lemma renamed_hash: "named p \<Longrightarrow> m_iHash (renamed p t) = m_iHash p"
  by (simp add: named_def renamed_def setName_def setPath_def saveHash_def replaced_path)

lemma renamed_fields [simp]:
  "m_iSize (renamed p t) = m_iSize t" "m_iCSize (renamed p t) = m_iCSize t" "m_llOffset (renamed p t) = m_llOffset t"
  by (simp_all add: renamed_def setName_def setPath_def saveHash_def addFlag_def)

lemma renamed_flags:
  "b AND FLAG_XECUTABLE = 0 \<Longrightarrow> has_flag (renamed p t) b = has_flag t b"
proof -
  assume b: "b AND FLAG_XECUTABLE = 0"
  have "m_uiFlags (renamed p t) = m_uiFlags (addFlag (m_uiFlags p AND FLAG_XECUTABLE) t)"
    by (simp add: renamed_def setName_def setPath_def saveHash_def)
  moreover have "(m_uiFlags p AND FLAG_XECUTABLE) AND b = 0"
    using b by (metis and.assoc and.commute and_zero_eq)
  ultimately show ?thesis by (simp add: has_flag_def addFlag_def bit.conj_disj_distrib2)
qed

lemma renamed_data [simp]:
  "readable bz2d c (renamed p t) = readable bz2d c t" "data_of bz2d c (renamed p t) = data_of bz2d c t"
  "isZeroSize (renamed p t) = isZeroSize t"
proof -
  have f: "isZeroSize (renamed p t) = isZeroSize t" "isCompressed (renamed p t) = isCompressed t"
    by (simp_all add: isZeroSize_def isCompressed_def renamed_flags file_flags)
  then have g: "getCurSize (renamed p t) = getCurSize t" "inflated (renamed p t) = inflated t"
    by (simp_all add: getCurSize_def inflated_def)
  have "payload bz2d c (renamed p t) = payload bz2d c t" by (simp only: payload_def f g renamed_fields)
  then show "readable bz2d c (renamed p t) = readable bz2d c t" "data_of bz2d c (renamed p t) = data_of bz2d c t"
    by (simp_all add: readable_def data_of_def f g)
  show "isZeroSize (renamed p t) = isZeroSize t" by (rule f(1))
qed

lemma kept_counterpart:
  "kept patch t \<Longrightarrow> \<exists>p\<in>set (m_pFileList patch). counterpart patch t = Some p \<and> m_iHash p = m_iHash t
     \<and> renamed_as patch t = renamed p t"
proof -
  assume "kept patch t"
  then obtain p where p: "counterpart patch t = Some p" by (auto simp: kept_def verdict_def)
  then have "p \<in> set (m_pFileList patch)" "m_iHash p = m_iHash t"
    by (auto simp: counterpart_def find_Some_iff)
  with p show ?thesis by (auto simp: renamed_as_def)
qed

text \<open>The hashes of a merge: every file of the patch's list whose data is there, each once.\<close>

lemma merge_hashes:
  assumes "distinct (map m_iHash (m_pFileList this))" and "distinct (map m_iHash (m_pFileList patch))"
    and "\<forall>p\<in>set (m_pFileList patch). named p"
  shows "map m_iHash (from_old this patch) = map m_iHash (filter (kept patch) (m_pFileList this))"
    and "distinct (map m_iHash (from_patch this patch @ from_old this patch))"
    and "m_iHash ` set (from_patch this patch @ from_old this patch) =
      {m_iHash p |p. p \<in> set (m_pFileList patch)
         \<and> (isSaved p \<or> (\<exists>t\<in>set (m_pFileList this). m_iHash t = m_iHash p \<and> kept patch t))}"
proof -
  have h: "m_iHash (renamed_as patch t) = m_iHash t" if "kept patch t" for t
    using kept_counterpart [OF that] assms(3) renamed_hash by auto
  then show old: "map m_iHash (from_old this patch) = map m_iHash (filter (kept patch) (m_pFileList this))"
    by (simp add: from_old_def)
  then have set_old: "m_iHash ` set (from_old this patch) = {m_iHash t |t. t \<in> set (m_pFileList this) \<and> kept patch t}"
    using arg_cong [OF old, of set] unfolding set_map by auto
  have "distinct (map m_iHash (from_patch this patch))" "distinct (map m_iHash (from_old this patch))"
    unfolding old from_patch_def using assms(1,2) by (simp_all add: distinct_map_filter)
  then show "distinct (map m_iHash (from_patch this patch @ from_old this patch))"
    using set_old by (auto simp: from_patch_def)
  show "m_iHash ` set (from_patch this patch @ from_old this patch) =
      {m_iHash p |p. p \<in> set (m_pFileList patch)
         \<and> (isSaved p \<or> (\<exists>t\<in>set (m_pFileList this). m_iHash t = m_iHash p \<and> kept patch t))}"
    (is "?L = ?R")
  proof
    show "?L \<subseteq> ?R"
    proof
      fix h
      assume "h \<in> ?L"
      then have "h \<in> m_iHash ` set (from_patch this patch) \<or> h \<in> m_iHash ` set (from_old this patch)" by auto
      then show "h \<in> ?R"
      proof
        assume "h \<in> m_iHash ` set (from_old this patch)"
        then obtain t where t: "t \<in> set (m_pFileList this)" "kept patch t" "h = m_iHash t"
          unfolding set_old by blast
        obtain p where "p \<in> set (m_pFileList patch)" "m_iHash p = m_iHash t"
          using kept_counterpart [OF t(2)] by blast
        then show ?thesis using t by (intro CollectI exI [of _ p]) auto
      qed (auto simp: from_patch_def)
    qed
    show "?R \<subseteq> ?L"
    proof
      fix h
      assume "h \<in> ?R"
      then obtain p where p: "p \<in> set (m_pFileList patch)" "h = m_iHash p"
        "isSaved p \<or> (\<exists>t\<in>set (m_pFileList this). m_iHash t = m_iHash p \<and> kept patch t)" by blast
      show "h \<in> ?L"
      proof (cases "\<exists>t\<in>set (m_pFileList this). m_iHash t = m_iHash p \<and> kept patch t")
        case True
        then have "h \<in> m_iHash ` set (from_old this patch)" unfolding set_old p(2) by (auto simp: eq_commute)
        then show ?thesis by auto
      next
        case False
        with p have "p \<in> set (from_patch this patch)" by (simp add: from_patch_def)
        with p(2) show ?thesis by auto
      qed
    qed
  qed
qed

section \<open>The merged archive\<close>

definition fill_crc :: "mcf_file \<Rightarrow> bytes \<Rightarrow> mcf_file" where
  "fill_crc e d = (if m_vCRCList e = [] then with_crc e d else e)"

lemma fill_crc_simps [simp]:
  "placed c B (fill_crc e x) d = placed c B e d" "m_iHash (fill_crc e x) = m_iHash e"
  "isZeroSize (fill_crc e x) = isZeroSize e"
  by (simp_all add: fill_crc_def)

lemma missing_crcs_placed:
  assumes h: "m_bIsOpen h" "fh_mode h = FILE_READ" "m_uiOffset h = 0" and "B < 2 ^ 63"
  shows "list_all2 (placed (fh_content disk h) B) es ds \<Longrightarrow>
    missing_crcs disk h es = Inr (map2 fill_crc es ds)"
proof (induction es ds rule: list_all2_induct)
  case (Cons e es d ds)
  have "crc_generate_all disk h [e] = Inr [with_crc e d]"
    using crc_generate_all_placed [OF h assms(4), of disk "[e]" "[d]"] Cons.hyps(1) by simp
  then have "bind_res (generateCRC disk h e) (\<lambda>(f', _). Inr f') = Inr (with_crc e d)"
    using Cons.hyps(1) by (cases "generateCRC disk h e") (auto simp: placed_def split: if_splits prod.splits)
  then show ?case using Cons.IH by (simp add: fill_crc_def)
qed simp

lemma placed_same_zip:
  assumes "list_all2 (placed content B) es ds" and "map m_iHash es = map m_iHash fs"
    and "map isZeroSize es = map isZeroSize fs"
  shows "list_all2 (\<lambda>(f, d) e. same_data content f d e) (zip fs ds) es"
proof -
  have len: "length es = length fs" "length ds = length es"
    using assms(2) list_all2_lengthD [OF assms(1)] by (metis length_map, simp)
  have "same_data content (fs ! i) (ds ! i) (es ! i)" if "i < length fs" for i
  proof -
    have "m_iHash (es ! i) = m_iHash (fs ! i)" "isZeroSize (es ! i) = isZeroSize (fs ! i)"
      using that len assms(2,3) by (metis nth_map)+
    then show ?thesis using assms(1) that len by (simp add: list_all2_conv_all_nth same_data_def placed_def)
  qed
  then show ?thesis using len by (simp add: list_all2_conv_all_nth)
qed

lemma zip_map_self: "zip fs (map d fs) = map (\<lambda>f. (f, d f)) fs"
  by (induction fs) simp_all

lemma placed_mono: "placed c B e d \<Longrightarrow> B \<le> B' \<Longrightarrow> placed c B' e d"
  by (auto simp: placed_def split: if_splits)

text \<open>
  C4: Merging an archive with a patch for it gives an archive that lists exactly the files of the patch's
  version whose data is in one of the two, each once and with its bytes: the old archive's bytes where the old
  file is saved and the same, the patch's bytes otherwise. Deleted files are gone, and no other file on the disk
  changes.
\<close>

theorem makeFullFile_merges:
  assumes srt: "hash_sort srt" and m: "\<not> m_bStopped this0" "small this0" "small patch0"
    and dist: "distinct (map m_iHash (m_pFileList this0))" "distinct (map m_iHash (m_pFileList patch0))"
    and sorted: "this = sortFileList srt this0" "patch = sortFileList srt patch0"
    and verdicts: "\<forall>t\<in>set (m_pFileList this). verdict patch t \<noteq> Some CMP_NOTEQUAL"
    and named: "\<forall>p\<in>set (m_pFileList patch). named p"
    and fits: "header_matches (m_sHeader this0) (Some (m_sHeader patch0))"
      "m_iParentMcf (m_sHeader patch0) = m_iBuild (m_sHeader this0)"
      "header_ok (updateFileVersion (UMcfHeader_copy (Some (m_sHeader patch0))))"
    and disk: "disk (m_szFile this0) = Some tc" "disk (m_szFile patch0) = Some pc"
    and path: "PathWithFile path = path" "path \<noteq> m_szFile this0" "path \<noteq> m_szFile patch0"
    and readable: "\<forall>p\<in>set (from_patch this patch). readable bz2d pc p"
      "\<forall>t\<in>set (from_old this patch). readable bz2d tc t"
    and size: "35 + total_data bz2d pc (from_patch this patch) + total_data bz2d tc (from_old this patch) < 2 ^ 63"
      "length (from_patch this patch) + length (from_old this patch) < 2 ^ 32 - 1"
    and bz2c: "\<forall>x. x \<noteq> [] \<longrightarrow> bz2c x \<noteq> []"
  shows "\<exists>disk' full content. makeFullFile srt bz2c bz2d cores patch0 path disk this0 = Inr (disk', Some full)
    \<and> disk' path = Some content
    \<and> list_all2 (\<lambda>(f, d) e. same_data content f d e)
        (map (\<lambda>p. (p, data_of bz2d pc p)) (from_patch this patch) @ map (\<lambda>t. (t, data_of bz2d tc t)) (from_old this patch))
        (m_pFileList full)
    \<and> m_iHash ` set (m_pFileList full) = {m_iHash p |p. p \<in> set (m_pFileList patch)
        \<and> (isSaved p \<or> (\<exists>t\<in>set (m_pFileList this). m_iHash t = m_iHash p \<and> kept patch t))}
    \<and> distinct (map m_iHash (m_pFileList full))
    \<and> (\<forall>n. n \<noteq> path \<longrightarrow> disk' n = disk n)"
proof -
  let ?fp = "from_patch this patch" and ?fo = "from_old this patch"
  let ?n1 = "total_data bz2d pc ?fp" and ?n2 = "total_data bz2d tc ?fo"
  let ?B1 = "35 + ?n1" and ?B = "35 + ?n1 + ?n2"
  let ?t = "new_target cores path (m_sHeader patch0)"
  let ?handle = "\<lambda>n md p. \<lparr>m_bIsOpen = True, fh_name = n, fh_mode = md, m_uiOffset = 0, fh_pos = p\<rparr>"
  obtain c where r: "findChanges srt patch0 this0 = (this, patch, c)"
    using m(1) sorted by (cases "findChanges srt patch0 this0") (auto simp: findChanges_def Let_def split: prod.splits)
  have same: "m_szFile this = m_szFile this0" "m_szFile patch = m_szFile patch0" "m_sHeader patch = m_sHeader patch0"
    by (simp_all add: sorted sortFileList_def)
  have dists: "distinct (map m_iHash (m_pFileList this))" "distinct (map m_iHash (m_pFileList patch))"
    using dist hash_sort.distinct_hashes [OF srt] by (simp_all add: sorted sortFileList_def)
  note hashes = merge_hashes [OF dists named]
  obtain t0 t1 ts ps where lists: "at_indexes (map thisMcf (vDel c)) (delFlag FLAG_SAVE) this = Inr t0"
    "at_indexes (map thisMcf (vDiff c)) (delFlag FLAG_SAVE) t0 = Inr t1"
    "merge_all (vSame c) (t1, patch) = Inr (this\<lparr>m_pFileList := ts\<rparr>, patch\<lparr>m_pFileList := ps\<rparr>)"
    and saved: "filter isSaved ts = ?fo" "filter isSaved ps = ?fp"
    using merged_lists [OF srt m dist r verdicts] by auto
  note t = new_target_fields [of cores path "m_sHeader patch0"]
  have isS: "\<forall>f\<in>set ?fp. isSaved f" "\<forall>f\<in>set ?fo. isSaved f"
    by (simp_all flip: saved)
  \<comment> \<open>the files of the patch\<close>
  let ?es1 = "entries_of bz2d pc 35 ?fp" and ?dst = "?handle path FILE_WRITE 35" and ?src1 = "?handle (m_szFile patch0) FILE_READ 0"
  obtain disk1 ps1 pd1 where copy1: "copyFiles bz2d ?fp (?t, 35, disk(path \<mapsto> []), ?src1, ?dst) =
      Inr (?t\<lparr>m_pFileList := m_pFileList ?t @ ?es1\<rparr>, 35 + of_nat ?n1, disk1, ?src1\<lparr>fh_pos := ps1\<rparr>, ?dst\<lparr>fh_pos := pd1\<rparr>)"
    and d1: "\<forall>n. n \<noteq> path \<longrightarrow> disk1 n = disk n" "disk1 path \<noteq> None"
    and held1: "list_all2 (\<lambda>f e. \<not> isZeroSize f \<longrightarrow> holds (fh_content disk1 ?dst) e (data_of bz2d pc f)
         \<and> unat (35 :: u64) \<le> unat (m_llOffset e)
         \<and> unat (m_llOffset e) + length (data_of bz2d pc f) \<le> unat (35 :: u64) + ?n1) ?fp ?es1"
    using copyFiles_new [of ?src1 ?dst ?t ?fp pc "disk(path \<mapsto> [])" bz2d 35] disk path readable(1) size t hashes(2)
    by (auto simp: fh_content_def)
  have placed1: "list_all2 (placed (fh_content disk1 ?dst) ?B1) ?es1 (map (data_of bz2d pc) ?fp)"
    using held1 by (intro entries_placed [where lo = "35 :: u64"]) (use isS readable size in simp_all)
  \<comment> \<open>the files of the old archive\<close>
  let ?lo = "35 + of_nat ?n1 :: u64" and ?m1 = "?t\<lparr>m_pFileList := ?es1\<rparr>"
  let ?es2 = "entries_of bz2d tc ?lo ?fo" and ?src2 = "?handle (m_szFile this0) FILE_READ 0"
  have lo: "unat ?lo = ?B1" using unat_advance [of 35 ?n1] size(1) by simp
  obtain disk2 ps2 pd2 where copy2: "copyFiles bz2d ?fo (?m1, ?lo, disk1, ?src2, ?dst\<lparr>fh_pos := pd1\<rparr>) =
      Inr (?m1\<lparr>m_pFileList := ?es1 @ ?es2\<rparr>, ?lo + of_nat ?n2, disk2, ?src2\<lparr>fh_pos := ps2\<rparr>, ?dst\<lparr>fh_pos := pd2\<rparr>)"
    and d2: "\<forall>n. n \<noteq> path \<longrightarrow> disk2 n = disk1 n" "disk2 path \<noteq> None"
    and keep: "\<And>q n x. q + n \<le> ?B1 \<Longrightarrow> get_bytes (fh_content disk1 ?dst) q n = Some x \<Longrightarrow> get_bytes (fh_content disk2 ?dst) q n = Some x"
    and held2: "list_all2 (\<lambda>f e. \<not> isZeroSize f \<longrightarrow> holds (fh_content disk2 ?dst) e (data_of bz2d tc f)
         \<and> unat ?lo \<le> unat (m_llOffset e)
         \<and> unat (m_llOffset e) + length (data_of bz2d tc f) \<le> unat ?lo + ?n2) ?fo ?es2"
    using copyFiles_new [of ?src2 "?dst\<lparr>fh_pos := pd1\<rparr>" ?m1 ?fo tc disk1 bz2d ?lo] disk path readable(2) size t hashes(2) d1 lo
    by (auto simp: fh_content_def entries_fields)
  have placed2: "list_all2 (placed (fh_content disk2 ?dst) ?B) ?es2 (map (data_of bz2d tc) ?fo)"
    using held2 by (intro entries_placed [where lo = ?lo]) (use isS readable size lo in \<open>simp_all add: ac_simps\<close>)
  let ?es = "?es1 @ ?es2" and ?ds = "map (data_of bz2d pc) ?fp @ map (data_of bz2d tc) ?fo"
  have "list_all2 (placed (fh_content disk2 ?dst) ?B) ?es1 (map (data_of bz2d pc) ?fp)"
    by (rule list_all2_mono [OF placed1]) (auto intro: placed_mono [OF placed_keep] keep)
  with placed2 have "list_all2 (placed (fh_content disk2 ?dst) ?B) ?es ?ds" by (simp add: list_all2_appendI)
  moreover have fc: "fh_content disk2 ?dst = file_content disk2 path"
      "fh_content disk2 (?handle path FILE_READ 0) = file_content disk2 path"
    by (simp_all add: fh_content_def file_content_def)
  ultimately have placed: "list_all2 (placed (file_content disk2 path) ?B) ?es ?ds" by simp
  \<comment> \<open>the checksums and the list\<close>
  let ?es' = "map2 fill_crc ?es ?ds"
  have crcs: "missing_crcs disk2 (?handle path FILE_READ 0) ?es = Inr ?es'"
    using missing_crcs_placed [of "?handle path FILE_READ 0" ?B disk2] placed size(1) unfolding fc by simp
  have placed': "list_all2 (placed (file_content disk2 path) ?B) ?es' ?ds"
    using placed by (auto simp: list_all2_conv_all_nth)
  let ?m = "?m1\<lparr>m_pFileList := ?es'\<rparr>"
  obtain disk3 head where save: "saveMCF_Header bz2c disk2 ?m = Inr (disk3, ?m\<lparr>m_sHeader := head\<rparr>)"
    "list_all2 (placed (file_content disk3 path) ?B) ?es' ?ds" "disk3 path \<noteq> None" "\<forall>n. n \<noteq> path \<longrightarrow> disk3 n = disk2 n"
    using saved_entries [of ?m bz2c disk2 ?B ?ds] fits(3) t path(1) bz2c d2 placed' size(1)
    by (auto simp: updateFileVersion_def)
  have open1: "fh_open disk (Some (m_szFile patch0)) FILE_READ 0 = Inr (disk, ?src1)"
    "fh_open disk1 (Some (m_szFile this0)) FILE_READ 0 = Inr (disk1, ?src2)"
    "fh_open disk2 (Some path) FILE_READ 0 = Inr (disk2, ?handle path FILE_READ 0)"
    using disk d1 d2 path by (simp_all add: opened(1))
  have "fh_seek (?handle path FILE_WRITE 0) 35 = Inr ?dst" by (simp add: fh_seek_def)
  then have run: "makeFullFile srt bz2c bz2d cores patch0 path disk this0 = Inr (disk3, Some (?m\<lparr>m_sHeader := head\<rparr>))"
    using m(1) fits(1,2) copy1 copy2 save(1) crcs
    by (simp add: makeFullFile_def Let_def path(1) r lists saved same t opened(2) open1 del: fun_upd_apply)
  have maps: "map m_iHash ?es' = map m_iHash (?fp @ ?fo)" "map isZeroSize ?es' = map isZeroSize (?fp @ ?fo)"
  proof -
    have "map m_iHash ?es = map m_iHash (?fp @ ?fo)" "map isZeroSize ?es = map isZeroSize (?fp @ ?fo)"
      by (simp_all add: entries_fields)
    moreover have "map m_iHash (map2 fill_crc es ds) = map m_iHash es"
        "map isZeroSize (map2 fill_crc es ds) = map isZeroSize es" if "length ds = length es" for es ds
      using that by (simp_all add: list_eq_iff_nth_eq)
    moreover have "length ?ds = length ?es" by (simp add: entries_fields)
    ultimately show "map m_iHash ?es' = map m_iHash (?fp @ ?fo)" "map isZeroSize ?es' = map isZeroSize (?fp @ ?fo)"
      by metis+
  qed
  have "zip (?fp @ ?fo) ?ds = map (\<lambda>p. (p, data_of bz2d pc p)) ?fp @ map (\<lambda>t. (t, data_of bz2d tc t)) ?fo"
    by (simp add: zip_map_self)
  then have "list_all2 (\<lambda>(f, d) e. same_data (file_content disk3 path) f d e)
      (map (\<lambda>p. (p, data_of bz2d pc p)) ?fp @ map (\<lambda>t. (t, data_of bz2d tc t)) ?fo) ?es'"
    using placed_same_zip [OF save(2) maps] by simp
  moreover have "m_iHash ` set ?es' = m_iHash ` set (?fp @ ?fo)" using maps(1) by (metis set_map)
  moreover have "distinct (map m_iHash ?es')" using hashes(2) maps(1) by simp
  moreover obtain content where "disk3 path = Some content" using save(3) by blast
  moreover from this have "file_content disk3 path = content" by (simp add: file_content_def)
  moreover have "\<forall>n. n \<noteq> path \<longrightarrow> disk3 n = disk n" using save(4) d1(1) d2(1) by simp
  ultimately show ?thesis
    unfolding run hashes(3) [symmetric] by (intro exI [of _ disk3] exI conjI) (auto simp del: set_append map_append)
qed

definition old_file :: mcf_file where
  "old_file = MCFFile_new\<lparr>m_szPath := ''d'', m_szName := ''b'', m_iHash := path_hash ''d'' ''b'', m_iSize := 2,
     m_szCsum := ''h'', m_llOffset := 1\<rparr>"

definition archive_with :: "string \<Rightarrow> mcf_file \<Rightarrow> mcf" where
  "archive_with n f = (MCF_new 1)\<lparr>m_szFile := n, m_pFileList := [f]\<rparr>"

lemma archive_with_fields:
  "\<not> m_bStopped (archive_with n f)" "m_szFile (archive_with n f) = n" "m_pFileList (archive_with n f) = [f]"
  "m_sHeader (archive_with n f) = UMcfHeader_new" "small (archive_with n f)"
  "m_pFileList (sortFileList (sort_key m_iHash) (archive_with n f)) = [f]"
  by (simp_all add: archive_with_def MCF_new_def setWorkerCount_def small_def sortFileList_def)

lemma old_file_facts:
  "isSaved old_file" "\<not> isZeroSize old_file" "getCurSize old_file = 2" "\<not> inflated old_file" "m_llOffset old_file = 1"
  "named (delFlag FLAG_SAVE old_file)" "isEquals old_file (Some (delFlag FLAG_SAVE old_file)) = CMP_SAME"
  "m_iHash (delFlag FLAG_SAVE old_file) = m_iHash old_file"
  by (simp_all add: old_file_def MCFFile_new_def isSaved_def isZeroSize_def inflated_def isCompressed_def getCurSize_def
      has_flag_def file_flags named_def good_def isEquals_def delFlag_def)

theorem makeFullFile_merges_witness:
  "\<exists>disk' full content. makeFullFile (sort_key m_iHash) (\<lambda>x. x) Some 1 (archive_with ''p'' (delFlag FLAG_SAVE old_file)) ''n''
      [''o'' \<mapsto> [6, 7, 8], ''p'' \<mapsto> [1]] (archive_with ''o'' old_file) = Inr (disk', Some full)
    \<and> disk' ''n'' = Some content
    \<and> (\<exists>e. m_pFileList full = [e] \<and> m_iHash e = path_hash ''d'' ''b'' \<and> holds content e [7, 8])"
proof -
  let ?o = "archive_with ''o'' old_file" and ?p = "archive_with ''p'' (delFlag FLAG_SAVE old_file)"
  let ?t = "sortFileList (sort_key m_iHash) ?o" and ?q = "sortFileList (sort_key m_iHash) ?p"
  let ?disk = "[''o'' \<mapsto> [6, 7, 8], ''p'' \<mapsto> [1]] :: fs"
  note f = archive_with_fields old_file_facts
  have cp: "counterpart ?q old_file = Some (delFlag FLAG_SAVE old_file)" by (simp add: counterpart_def f)
  then have v: "verdict ?q old_file = Some CMP_SAME" by (simp add: verdict_def f)
  have lists: "from_patch ?t ?q = []" "from_old ?t ?q = [renamed (delFlag FLAG_SAVE old_file) old_file]"
    using v cp by (simp_all add: from_patch_def from_old_def kept_def renamed_as_def f)
  have data: "readable Some [6, 7, 8] old_file" "data_of Some [6, 7, 8] old_file = [7, 8]"
    by (simp_all add: readable_def data_of_def payload_def f get_bytes_def)
  have h: "header_ok (updateFileVersion (UMcfHeader_copy (Some (m_sHeader ?p))))"
    "header_matches (m_sHeader ?o) (Some (m_sHeader ?p))" "m_iParentMcf (m_sHeader ?p) = m_iBuild (m_sHeader ?o)"
    by (simp_all add: f header_ok_def updateFileVersion_def UMcfHeader_copy_def UMcfHeader_new_def MCFBranch_default_def
        header_matches_def DesuraId_eq_def)
  obtain disk' full content where
    "makeFullFile (sort_key m_iHash) (\<lambda>x. x) Some 1 ?p ''n'' ?disk ?o = Inr (disk', Some full)" "disk' ''n'' = Some content"
    "list_all2 (\<lambda>(f, d) e. same_data content f d e)
        (map (\<lambda>p. (p, data_of Some [1] p)) (from_patch ?t ?q)
          @ map (\<lambda>t. (t, data_of Some [6, 7, 8] t)) (from_old ?t ?q)) (m_pFileList full)"
    using makeFullFile_merges [of "sort_key m_iHash" ?o ?p ?t ?q ?disk "[6, 7, 8]" "[1]" "''n''" Some "\<lambda>x. x" 1,
        OF stable.hash_sort_axioms] h demo_paths
    by (auto simp: f lists v data total_data_def)
  then show ?thesis
    by (auto simp: lists data same_data_def f list_all2_Cons1 renamed_hash) (simp add: old_file_def)
qed

section \<open>Pieces and a fault\<close>

text \<open>
  However the decompressor cuts its output into pieces, the CRC list gathered on the way is the one of the
  whole output cut into blocks.
\<close>

theorem CRCInfo_any_pieces:
  assumes "concat pieces \<noteq> []" and "bs \<noteq> 0"
  shows "vCRCList (CRCInfo_finish (fold CRCInfo_generate pieces (CRCInfo_new bs)))
    = map CRC32 (chunks (unat bs) (concat pieces))"
proof -
  have "fold CRCInfo_generate pieces c = CRCInfo_generate (concat pieces) c" for c
    by (induction pieces arbitrary: c) (simp_all add: CRCInfo_generate_append)
  then show ?thesis using CRCInfo_chunks [OF assms] by simp
qed

theorem CRCInfo_any_pieces_witness:
  "vCRCList (CRCInfo_finish (fold CRCInfo_generate [[1], [], [2, 3]] (CRCInfo_new 2)))
    = map CRC32 (chunks (unat (2 :: u32)) [1, 2, 3])"
  using CRCInfo_any_pieces [of "[[1], [], [2, 3]]" 2] by simp

text \<open>
  When the previous archive has a file this one lacks, the optimiser reads the file list at the unknown-item
  mark, which is outside any list.
\<close>

theorem optimise_new_undefined:
  assumes "findChanges srt prev this0 = (this, prev', c)" and "vNew c \<noteq> []"
    and "\<not> m_bStopped this0" and "length (m_pFileList this) < 2 ^ 32" and "disk (m_szFile this) \<noteq> None"
  shows "optimiseAndSaveMcf srt bz2c bz2d cores (Some prev) (Some path) disk this0 = Inl UNDEFINED"
proof -
  obtain d ds where new: "vNew c = d # ds" using assms(2) by (cases "vNew c") auto
  have "thisMcf d = UNKNOWN_ITEM"
    using assms(1,3) new by (auto simp: findChanges_def Let_def split: prod.splits)
  then have "files_at (map thisMcf (vNew c @ vDiff c @ vSame c)) this = Inl UNDEFINED"
    using assms(4) by (simp add: new getFile_def UNKNOWN_ITEM_def)
  moreover have "fh_seek \<lparr>m_bIsOpen = True, fh_name = path, fh_mode = FILE_WRITE, m_uiOffset = 0, fh_pos = 0\<rparr> 35
      = Inr \<lparr>m_bIsOpen = True, fh_name = path, fh_mode = FILE_WRITE, m_uiOffset = 0, fh_pos = 35\<rparr>"
    by (simp add: fh_seek_def)
  ultimately show ?thesis
    using assms(3,5) opened(1) [of disk "m_szFile this"]
    by (simp add: optimiseAndSaveMcf_def assms(1) Let_def new_target_fields opened(2))
qed

theorem optimise_new_undefined_witness:
  "optimiseAndSaveMcf (sort_key m_iHash) (\<lambda>x. x) Some 1 (Some (archive_with ''p'' old_file)) (Some ''n'')
     [''o'' \<mapsto> []] ((archive_with ''o'' old_file)\<lparr>m_pFileList := []\<rparr>) = Inl UNDEFINED"
proof -
  let ?o = "(archive_with ''o'' old_file)\<lparr>m_pFileList := []\<rparr>" and ?p = "archive_with ''p'' old_file"
  obtain o' p' c where r: "findChanges (sort_key m_iHash) ?p ?o = (o', p', c)"
    by (cases "findChanges (sort_key m_iHash) ?p ?o") auto
  then have "vNew c \<noteq> []" "length (m_pFileList o') < 2 ^ 32" "m_szFile o' = ''o''"
    by (auto simp: findChanges_def archive_with_fields Let_def no_changes_def sortFileList_def)
  then show ?thesis
    using optimise_new_undefined [OF r, of "[''o'' \<mapsto> []]" "\<lambda>x. x" Some 1 "''n''"] by (simp add: archive_with_fields)
qed

end
