(* ===== verification/Wgt_Download.thy ===== *)
theory Wgt_Download
  imports Mcf_Save
begin

text \<open>
  Downloading the blocks of an archive: the work lists of
  \<^verbatim>\<open>src/src/shared/mcfcore/code/thread/WGTController.cpp\<close> and the workers of \<^verbatim>\<open>WGTWorker.cpp\<close>. A worker and
  its entry in the controller hold the same current block (\<open>m_pCurBlock\<close> and \<open>curBlock\<close> are set and reset
  together), so there is one copy of it. Workers are numbered by their place in the list. A pass of a worker
  (\<open>worker_pass\<close>) and one of the controller (\<open>run_pass\<close>) are what the thread does when nobody acts in between; in a run
  (\<open>wgt_step\<close>) they are cut into the calls they make, and the threads take turns between any two of them. The network (the pieces a connection delivers and the error it ends with), the
  answers of the provider manager and the provider names are parameters.
\<close>

unbundle bit_operations_syntax

section \<open>Blocks\<close>

record WGTBlock =
  webOffset :: u64
  fileOffset :: u64
  buff :: bytes
  block_size :: u32
  dlsize :: u32
  block_crc :: u32
  block_file :: nat
  block_index :: u32
  provider :: string

record WGTSuperBlock =
  sb_offset :: u64
  sb_size :: u64
  sb_done :: u64
  vBlockList :: "WGTBlock list"

definition WGTBlock_new :: WGTBlock where
  "WGTBlock_new =
     \<lparr>webOffset = 0, fileOffset = 0, buff = [], block_size = 0, dlsize = 0, block_crc = 0, block_file = 0,
      block_index = - 1, provider = []\<rparr>"

definition WGTSuperBlock_new :: WGTSuperBlock where
  "WGTSuperBlock_new = \<lparr>sb_offset = 0, sb_size = 0, sb_done = 0, vBlockList = []\<rparr>"

text \<open>
  The recursion of \<open>writeData\<close>: the received data fills the first block; what is too much goes on to the next.
  A block that starts gets a new buffer.
\<close>

function write_blocks :: "string \<Rightarrow> bytes \<Rightarrow> WGTSuperBlock \<Rightarrow> WGTBlock list \<times> WGTSuperBlock" where
  "write_blocks name data sb =
     (if data = [] then ([], sb)
      else
        case vBlockList sb of [] \<Rightarrow> ([], sb)
        | block # rest \<Rightarrow>
            let old = (if sb_done sb = 0 then [] else buff block);
                ds = unat (ucast (block_size block) - sb_done sb)
            in if length data \<ge> ds then
                 let finished = block\<lparr>buff := old @ take ds data, dlsize := block_size block, provider := name\<rparr>;
                     sb = sb\<lparr>vBlockList := rest, sb_done := 0, sb_offset := sb_offset sb + ucast (block_size block),
                            sb_size := sb_size sb - ucast (block_size block)\<rparr>
                 in (case write_blocks name (drop ds data) sb of (done, sb) \<Rightarrow> (finished # done, sb))
               else
                 ([], sb\<lparr>vBlockList := block\<lparr>buff := old @ data\<rparr> # rest, sb_done := sb_done sb + of_nat (length data)\<rparr>))"
  by pat_completeness auto
termination
  by (relation "measure (\<lambda>(name, data, sb). length (vBlockList sb))") (auto simp: Let_def)

declare write_blocks.simps [simp del]

section \<open>The controller\<close>

datatype MCFThreadStatus =
    SF_STATUS_NULL | SF_STATUS_PAUSE | SF_STATUS_STOP | SF_STATUS_ENDFILE | SF_STATUS_SKIP
  | SF_STATUS_CONTINUE | SF_STATUS_COMPLETE | SF_STATUS_HASHMISSMATCH | SF_STATUS_ERROR

record WGTWorkerInfo =
  ammountDone :: u64
  worker_status :: MCFThreadStatus
  curBlock :: "WGTSuperBlock option"
  vBuffer :: "WGTBlock list"
  m_bError :: bool
  m_iAttempt :: u32
  worker_stopped :: bool

record wgt =
  m_iAvailbleWork :: u32
  m_iRunningWorkers :: u32
  m_vWorkerList :: "WGTWorkerInfo list"
  m_vSuperBlockList :: "WGTSuperBlock list"
  ctl_stopped :: bool
  ctl_paused :: bool

definition WGTWorkerInfo_new :: WGTWorkerInfo where
  "WGTWorkerInfo_new =
     \<lparr>ammountDone = 0, worker_status = SF_STATUS_CONTINUE, curBlock = None, vBuffer = [], m_bError = False,
      m_iAttempt = 0, worker_stopped = False\<rparr>"

definition createWorkers :: "nat \<Rightarrow> wgt \<Rightarrow> wgt" where
  "createWorkers n s =
     s\<lparr>m_vWorkerList := m_vWorkerList s @ replicate n WGTWorkerInfo_new, m_iRunningWorkers := m_iRunningWorkers s + of_nat n\<rparr>"

definition upd_worker :: "nat \<Rightarrow> (WGTWorkerInfo \<Rightarrow> WGTWorkerInfo) \<Rightarrow> wgt \<Rightarrow> wgt" where
  "upd_worker i g s = s\<lparr>m_vWorkerList := (m_vWorkerList s)[i := g (m_vWorkerList s ! i)]\<rparr>"

definition setCurrentBlock :: "WGTSuperBlock \<Rightarrow> WGTWorkerInfo \<Rightarrow> WGTWorkerInfo" where
  "setCurrentBlock sb w = w\<lparr>curBlock := Some sb, worker_status := SF_STATUS_CONTINUE\<rparr>"

definition resetCurrentBlock :: "WGTWorkerInfo \<Rightarrow> WGTWorkerInfo" where
  "resetCurrentBlock w = w\<lparr>curBlock := None, worker_status := SF_STATUS_CONTINUE\<rparr>"

definition addBlock :: "WGTBlock \<Rightarrow> WGTWorkerInfo \<Rightarrow> WGTWorkerInfo" where
  "addBlock b w = w\<lparr>vBuffer := vBuffer w @ [b]\<rparr>"

definition getCurrentBlockSize :: "WGTWorkerInfo \<Rightarrow> nat" where
  "getCurrentBlockSize w = (case curBlock w of None \<Rightarrow> 0 | Some sb \<Rightarrow> length (vBlockList sb))"

definition blocks_size :: "WGTBlock list \<Rightarrow> u64" where
  "blocks_size bs = fold (\<lambda>b n. n + ucast (block_size b)) bs 0"

text \<open>The halves of a super block: what stays and what is taken away.\<close>

definition split_block :: "nat \<Rightarrow> WGTSuperBlock \<Rightarrow> WGTSuperBlock \<times> WGTSuperBlock" where
  "split_block halfWay sb =
     (let secondHalf = drop halfWay (vBlockList sb); totSize = blocks_size secondHalf; size = sb_size sb - totSize
      in (sb\<lparr>sb_size := size, vBlockList := take halfWay (vBlockList sb)\<rparr>,
          \<lparr>sb_offset = sb_offset sb + size, sb_size = totSize, sb_done = 0, vBlockList = secondHalf\<rparr>))"

definition splitCurrentBlock :: "nat \<Rightarrow> WGTWorkerInfo \<Rightarrow> (WGTWorkerInfo \<times> WGTSuperBlock) option" where
  "splitCurrentBlock halfWay w =
     (case curBlock w of None \<Rightarrow> None
      | Some sb \<Rightarrow>
          if halfWay > length (vBlockList sb) then None
          else (case split_block halfWay sb of (stays, taken) \<Rightarrow> Some (w\<lparr>curBlock := Some stays\<rparr>, taken)))"

fun largest_worker :: "WGTWorkerInfo list \<Rightarrow> nat \<Rightarrow> nat \<times> nat option \<Rightarrow> nat \<times> nat option" where
  "largest_worker [] i r = r"
| "largest_worker (w # ws) i (c, r) =
     largest_worker ws (Suc i) (if getCurrentBlockSize w > c then (getCurrentBlockSize w, Some i) else (c, r))"

definition stealBlocks :: "wgt \<Rightarrow> (wgt \<times> WGTSuperBlock) option" where
  "stealBlocks s =
     (case largest_worker (m_vWorkerList s) 0 (0, None) of
        (largestCount, None) \<Rightarrow> None
      | (largestCount, Some i) \<Rightarrow>
          if largestCount < 3 then None
          else
            (case splitCurrentBlock (largestCount div 2) (m_vWorkerList s ! i) of
               None \<Rightarrow> None
             | Some (w, taken) \<Rightarrow> Some (upd_worker i (\<lambda>_. w) s, taken)))"

definition newTask :: "nat \<Rightarrow> wgt \<Rightarrow> MCFThreadStatus \<times> bool \<times> wgt" where
  "newTask i s =
     (let w = m_vWorkerList s ! i in
      if worker_status w \<noteq> SF_STATUS_CONTINUE then (worker_status w, False, s)
      else if curBlock w \<noteq> None then (worker_status w, True, s)
      else
        case m_vSuperBlockList s of
          sb # rest \<Rightarrow> (SF_STATUS_CONTINUE, True, upd_worker i (setCurrentBlock sb) (s\<lparr>m_vSuperBlockList := rest\<rparr>))
        | [] \<Rightarrow>
            (case stealBlocks s of
               Some (s, sb) \<Rightarrow>
                 (SF_STATUS_CONTINUE, True,
                  upd_worker i (setCurrentBlock sb) (s\<lparr>m_iAvailbleWork := m_iAvailbleWork s + 1\<rparr>))
             | None \<Rightarrow>
                 (SF_STATUS_STOP, False,
                  upd_worker i (\<lambda>w. w\<lparr>worker_status := SF_STATUS_STOP\<rparr>)
                    (s\<lparr>m_iRunningWorkers := m_iRunningWorkers s - 1\<rparr>))))"

definition workerFinishedSuperBlock :: "nat \<Rightarrow> wgt \<Rightarrow> wgt" where
  "workerFinishedSuperBlock i s =
     (let block = curBlock (m_vWorkerList s ! i); s = upd_worker i resetCurrentBlock s in
      case block of None \<Rightarrow> s
      | Some sb \<Rightarrow>
          if vBlockList sb = [] then s\<lparr>m_iAvailbleWork := m_iAvailbleWork s - 1\<rparr>
          else s\<lparr>m_vSuperBlockList := m_vSuperBlockList s @ [sb]\<rparr>)"

definition workerFinishedBlock :: "nat \<Rightarrow> WGTBlock \<Rightarrow> wgt \<Rightarrow> wgt" where
  "workerFinishedBlock i b s = upd_worker i (addBlock b) s"

definition getStatus :: "nat \<Rightarrow> wgt \<Rightarrow> MCFThreadStatus" where
  "getStatus i s =
     (if ctl_paused s then SF_STATUS_PAUSE else if ctl_stopped s then SF_STATUS_STOP
      else worker_status (m_vWorkerList s ! i))"

definition reportError :: "nat \<Rightarrow> wgt \<Rightarrow> wgt" where
  "reportError i s =
     (let s = upd_worker i (\<lambda>w. w\<lparr>worker_status := SF_STATUS_STOP\<rparr>) (workerFinishedSuperBlock i s)
      in s\<lparr>m_iRunningWorkers := m_iRunningWorkers s - 1\<rparr>)"

definition reportProgress :: "nat \<Rightarrow> u64 \<Rightarrow> wgt \<Rightarrow> wgt" where
  "reportProgress i ammount s = upd_worker i (\<lambda>w. w\<lparr>ammountDone := ammountDone w + ammount\<rparr>) s"

definition reportNegProgress :: "nat \<Rightarrow> u64 \<Rightarrow> wgt \<Rightarrow> wgt" where
  "reportNegProgress i ammount s = upd_worker i (\<lambda>w. w\<lparr>ammountDone := ammountDone w - ammount\<rparr>) s"

section \<open>The workers\<close>

text \<open>\<open>writeData\<close>; the finished blocks go to the buffer of the worker.\<close>

definition writeData :: "string \<Rightarrow> nat \<Rightarrow> bytes \<Rightarrow> wgt \<Rightarrow> bool \<times> wgt" where
  "writeData name i data s =
     (let w = m_vWorkerList s ! i in
      if worker_stopped w \<or> m_bError w then (False, s)
      else if data = [] then (True, s)
      else
        case curBlock w of None \<Rightarrow> (False, s)
        | Some sb \<Rightarrow>
            if vBlockList sb = [] then (False, s)
            else
              (case write_blocks name data sb of
                 (finished, sb) \<Rightarrow>
                   let s = upd_worker i (\<lambda>w. w\<lparr>curBlock := Some sb, vBuffer := vBuffer w @ finished\<rparr>) s
                   in (getStatus i s \<noteq> SF_STATUS_PAUSE, s)))"

definition takeProgressOff :: "nat \<Rightarrow> wgt \<Rightarrow> wgt" where
  "takeProgressOff i s =
     (case curBlock (m_vWorkerList s ! i) of None \<Rightarrow> s
      | Some sb \<Rightarrow>
          workerFinishedSuperBlock i
            (upd_worker i (\<lambda>w. w\<lparr>curBlock := Some (sb\<lparr>sb_done := 0\<rparr>)\<rparr>) (reportNegProgress i (sb_done sb) s)))"

definition isGoodSocketError :: "u32 \<Rightarrow> bool" where
  "isGoodSocketError errId \<longleftrightarrow> errId = 28 \<or> errId = 42 \<or> errId = 81"

text \<open>\<open>got\<close> tells whether the provider manager had another valid provider.\<close>

definition requestNewUrl :: "nat \<Rightarrow> bool \<Rightarrow> wgt \<Rightarrow> wgt" where
  "requestNewUrl i got s = (if got then upd_worker i (\<lambda>w. w\<lparr>m_iAttempt := 0\<rparr>) s else reportError i s)"

datatype download_error = Canceled | Curl u32 | McfServer | Other

definition download_failed :: "nat \<Rightarrow> download_error \<Rightarrow> bool \<Rightarrow> wgt \<Rightarrow> wgt" where
  "download_failed i e got s =
     (let s = takeProgressOff i s; w = m_vWorkerList s ! i in
      if e = Canceled \<or> worker_stopped w then s
      else
        (case e of
           Curl n \<Rightarrow>
             if isGoodSocketError n \<and> m_iAttempt w < 3 then upd_worker i (\<lambda>w. w\<lparr>m_iAttempt := m_iAttempt w + 1\<rparr>) s
             else requestNewUrl i got s
         | McfServer \<Rightarrow> requestNewUrl i got s
         | _ \<Rightarrow> reportError i s))"

text \<open>
  \<open>doDownload\<close>: the connection hands the pieces it received to \<open>writeData\<close> and returns or throws \<open>err\<close> (also
  when there is no valid provider).
\<close>

definition doDownload :: "string \<Rightarrow> nat \<Rightarrow> bytes list \<Rightarrow> download_error option \<Rightarrow> bool \<Rightarrow> wgt \<Rightarrow> wgt" where
  "doDownload name i pieces err got s =
     (let s = (if curBlock (m_vWorkerList s ! i) = None then snd (snd (newTask i s)) else s) in
      if curBlock (m_vWorkerList s ! i) = None then s
      else
        let s = fold (\<lambda>d s. snd (writeData name i d s)) pieces s in
        case err of
          Some e \<Rightarrow> download_failed i e got s
        | None \<Rightarrow>
            (case curBlock (m_vWorkerList s ! i) of
               Some sb \<Rightarrow> if sb_size sb = 0 then workerFinishedSuperBlock i s else s
             | None \<Rightarrow> s))"

text \<open>One pass of the loop of a running worker.\<close>

definition worker_pass :: "string \<Rightarrow> nat \<Rightarrow> bytes list \<Rightarrow> download_error option \<Rightarrow> bool \<Rightarrow> bool \<Rightarrow> wgt \<Rightarrow> wgt" where
  "worker_pass name i pieces err got got2 s =
     (let status = getStatus i s in
      if status = SF_STATUS_STOP \<or> status = SF_STATUS_PAUSE then s
      else
        let s = (if m_bError (m_vWorkerList s ! i)
                 then upd_worker i (\<lambda>w. w\<lparr>m_bError := False\<rparr>) (requestNewUrl i got2 s) else s)
        in if status = SF_STATUS_CONTINUE then doDownload name i pieces err got s else s)"

section \<open>Checking and saving\<close>

text \<open>
  Where the controller is in its loop: at the head; at a worker whose buffer it saves, or looks into; at the counter of
  running workers; at the question for providers; at a worker whose whole buffer it saves; behind the loop.
\<close>

datatype ctl_point = AtLoop | AtSave nat | AtScan nat | AtCount | AtAgents | AtSaveAll nat | AtEnd

text \<open>
  The whole download: the controller, the disk with the open archive, two histories, the blocks written and
  the blocks taken from a buffer whose write failed, and where the controller is.
\<close>

record wgt_sys =
  ctl :: wgt
  sys_disk :: fs
  sys_handle :: file_handle
  saved :: "WGTBlock list"
  lost :: "WGTBlock list"
  ctl_at :: ctl_point

definition block_good :: "WGTBlock \<Rightarrow> bool" where
  "block_good b \<longleftrightarrow>
     dlsize b = block_size b \<and> (block_crc b = 0 \<or> block_crc b = CRC32 (take (unat (block_size b)) (buff b)))"

text \<open>
  \<open>checkBlock\<close>: a bad block becomes a super block of its own, and the worker is told when it still uses the
  provider the block came from. The log files it writes are not part of the model.
\<close>

definition checkBlock :: "(nat \<Rightarrow> string) \<Rightarrow> WGTBlock \<Rightarrow> nat \<Rightarrow> wgt \<Rightarrow> bool \<times> wgt" where
  "checkBlock getName b i s =
     (if block_good b then (True, s)
      else
        let s = reportNegProgress i (ucast (dlsize b)) s;
            super = \<lparr>sb_offset = webOffset b, sb_size = ucast (block_size b), sb_done = 0, vBlockList = [b]\<rparr>;
            s = s\<lparr>m_vSuperBlockList := m_vSuperBlockList s @ [super], m_iAvailbleWork := m_iAvailbleWork s + 1\<rparr>
        in (False, upd_worker i (\<lambda>w. if getName i = provider b then w\<lparr>m_bError := True\<rparr> else w) s))"

text \<open>
  The loop over one worker's buffer: one block, or as many as there are (checking adds none). A block whose write
  fails is gone, and the loop ends.
\<close>

fun save_blocks :: "(nat \<Rightarrow> string) \<Rightarrow> nat \<Rightarrow> nat \<Rightarrow> wgt_sys \<Rightarrow> wgt_sys" where
  "save_blocks getName 0 i s = s"
| "save_blocks getName (Suc n) i s =
     (case vBuffer (m_vWorkerList (ctl s) ! i) of
        [] \<Rightarrow> s
      | b # rest \<Rightarrow>
          let s = s\<lparr>ctl := upd_worker i (\<lambda>w. w\<lparr>vBuffer := rest\<rparr>) (ctl s)\<rparr> in
          (case checkBlock getName b i (ctl s) of
             (False, c) \<Rightarrow> save_blocks getName n i (s\<lparr>ctl := c\<rparr>)
           | (True, c) \<Rightarrow>
               (case bind_res (fh_seek (sys_handle s) (fileOffset b)) (\<lambda>h.
                       fh_write (sys_disk s) h (take (unat (block_size b)) (buff b))) of
                  Inl _ \<Rightarrow> s\<lparr>lost := lost s @ [b]\<rparr>
                | Inr (disk, h) \<Rightarrow>
                    save_blocks getName n i (s\<lparr>sys_disk := disk, sys_handle := h, saved := saved s @ [b]\<rparr>))))"

definition saveBuffers :: "(nat \<Rightarrow> string) \<Rightarrow> bool \<Rightarrow> wgt_sys \<Rightarrow> wgt_sys" where
  "saveBuffers getName allBlocks s =
     fold (\<lambda>i s. save_blocks getName (if allBlocks then length (vBuffer (m_vWorkerList (ctl s) ! i)) else 1) i s)
       [0 ..< length (m_vWorkerList (ctl s))] s"

definition isQueuedBlocks :: "wgt \<Rightarrow> bool" where
  "isQueuedBlocks s \<longleftrightarrow> list_ex (\<lambda>w. vBuffer w \<noteq> []) (m_vWorkerList s)"

text \<open>
  One pass of the loop of \<open>run\<close>, and whether the loop goes on; \<open>agents\<close> is what the provider manager says about
  providers left.
\<close>

definition run_pass :: "(nat \<Rightarrow> string) \<Rightarrow> bool \<Rightarrow> wgt_sys \<Rightarrow> wgt_sys \<times> bool" where
  "run_pass getName agents s =
     (if ctl_stopped (ctl s) then (s, False)
      else
        let s = saveBuffers getName False s in
        if isQueuedBlocks (ctl s) then (s, True)
        else if m_iRunningWorkers (ctl s) = 0 then (s, False)
        else if \<not> agents then (saveBuffers getName True s, False)
        else (s, True))"

text \<open>
  The end of \<open>run\<close>: with no work left the listed files are marked complete, else an error is reported unless
  the download was stopped. The list holds positions in the file list.
\<close>

fun mark_done :: "u32 list \<Rightarrow> mcf_file list \<Rightarrow> mcf_file list res" where
  "mark_done [] fs = Inr fs"
| "mark_done (x # xs) fs =
     (if unat x < length fs
      then mark_done xs (fs[unat x := delFlag FLAG_STARTEDDL (addFlag FLAG_COMPLETE (fs ! unat x))])
      else Inl UNDEFINED)"

definition run_end :: "wgt \<Rightarrow> u32 list \<Rightarrow> mcf_file list \<Rightarrow> (mcf_file list \<times> bool) res" where
  "run_end s vDlFiles fs =
     (if m_iAvailbleWork s = 0 then bind_res (mark_done vDlFiles fs) (\<lambda>fs. Inr (fs, False))
      else Inr (fs, \<not> ctl_stopped s))"

section \<open>Runs\<close>

text \<open>\<open>onStop\<close>: the controller and all its workers are told to stop.\<close>

definition wgt_onStop :: "wgt \<Rightarrow> wgt" where
  "wgt_onStop s = s\<lparr>ctl_stopped := True, m_vWorkerList := map (\<lambda>w. w\<lparr>worker_stopped := True\<rparr>) (m_vWorkerList s)\<rparr>"

text \<open>The start: the super blocks of the block list and fresh workers.\<close>

definition wgt_init :: "WGTSuperBlock list \<Rightarrow> nat \<Rightarrow> fs \<Rightarrow> file_handle \<Rightarrow> wgt_sys" where
  "wgt_init supers n disk h =
     \<lparr>ctl = createWorkers n
        \<lparr>m_iAvailbleWork = of_nat (length supers), m_iRunningWorkers = 0, m_vWorkerList = [], m_vSuperBlockList = supers,
         ctl_stopped = False, ctl_paused = False\<rparr>,
      sys_disk = disk, sys_handle = h, saved = [], lost = [], ctl_at = AtLoop\<rparr>"

text \<open>
  The loop of \<open>run\<close> in steps: the buffers are saved, then looked into, one worker after the other, and only then the
  counter of running workers is read. No lock is held from one step to the next.
\<close>

definition ctl_step :: "(nat \<Rightarrow> string) \<Rightarrow> bool \<Rightarrow> wgt_sys \<Rightarrow> wgt_sys" where
  "ctl_step getName agents s =
     (let n = length (m_vWorkerList (ctl s)) in
      case ctl_at s of
        AtLoop \<Rightarrow> s\<lparr>ctl_at := (if ctl_stopped (ctl s) then AtEnd else AtSave 0)\<rparr>
      | AtSave i \<Rightarrow> if i < n then (save_blocks getName 1 i s)\<lparr>ctl_at := AtSave (Suc i)\<rparr> else s\<lparr>ctl_at := AtScan 0\<rparr>
      | AtScan i \<Rightarrow>
          s\<lparr>ctl_at := (if i < n then if vBuffer (m_vWorkerList (ctl s) ! i) \<noteq> [] then AtLoop else AtScan (Suc i) else AtCount)\<rparr>
      | AtCount \<Rightarrow> s\<lparr>ctl_at := (if m_iRunningWorkers (ctl s) = 0 then AtEnd else AtAgents)\<rparr>
      | AtAgents \<Rightarrow> s\<lparr>ctl_at := (if agents then AtLoop else AtSaveAll 0)\<rparr>
      | AtSaveAll i \<Rightarrow>
          if i < n then
            if vBuffer (m_vWorkerList (ctl s) ! i) = [] then s\<lparr>ctl_at := AtSaveAll (Suc i)\<rparr>
            else let t = save_blocks getName 1 i s
                 in if lost t = lost s then t else t\<lparr>ctl_at := AtSaveAll (Suc i)\<rparr>
          else s\<lparr>ctl_at := AtEnd\<rparr>
      | AtEnd \<Rightarrow> s)"

text \<open>
  Any worker, the controller and the user act in any order. A worker asks for a task, takes in a piece of data, gives its
  super block back after an error or when it is finished, counts an attempt, takes note of an error, and gives up. The
  pieces are arbitrary, so the state between two blocks of one piece is that between two pieces. Two moments lie inside a
  step: a super block that is just taken or split off is counted already, or its other half still is, under the lock of
  the list; and a finished block is handed in a little before it leaves its super block, which is split behind its first block.
\<close>

inductive wgt_step :: "wgt_sys \<Rightarrow> wgt_sys \<Rightarrow> bool" where
  task: "i < length (m_vWorkerList (ctl s)) \<Longrightarrow> wgt_step s (s\<lparr>ctl := snd (snd (newTask i (ctl s)))\<rparr>)"
| data: "i < length (m_vWorkerList (ctl s)) \<Longrightarrow> wgt_step s (s\<lparr>ctl := snd (writeData name i d (ctl s))\<rparr>)"
| give_back: "i < length (m_vWorkerList (ctl s)) \<Longrightarrow> wgt_step s (s\<lparr>ctl := takeProgressOff i (ctl s)\<rparr>)"
| finished: "i < length (m_vWorkerList (ctl s)) \<Longrightarrow> wgt_step s (s\<lparr>ctl := workerFinishedSuperBlock i (ctl s)\<rparr>)"
| attempt: "i < length (m_vWorkerList (ctl s)) \<Longrightarrow>
     wgt_step s (s\<lparr>ctl := upd_worker i (\<lambda>w. w\<lparr>m_iAttempt := n\<rparr>) (ctl s)\<rparr>)"
| error_seen: "i < length (m_vWorkerList (ctl s)) \<Longrightarrow>
     wgt_step s (s\<lparr>ctl := upd_worker i (\<lambda>w. w\<lparr>m_bError := False\<rparr>) (ctl s)\<rparr>)"
| give_up: "i < length (m_vWorkerList (ctl s)) \<Longrightarrow> wgt_step s (s\<lparr>ctl := reportError i (ctl s)\<rparr>)"
| progress: "wgt_step s (s\<lparr>ctl := reportProgress i ammount (ctl s)\<rparr>)"
| controller: "wgt_step s (ctl_step getName agents s)"
| pause: "wgt_step s (s\<lparr>ctl := (ctl s)\<lparr>ctl_paused := b\<rparr>\<rparr>)"
| stop: "wgt_step s (s\<lparr>ctl := wgt_onStop (ctl s)\<rparr>)"

inductive wgt_reach :: "wgt_sys \<Rightarrow> wgt_sys \<Rightarrow> bool" for s0 where
  start: "wgt_reach s0 s0"
| step: "wgt_reach s0 s \<Longrightarrow> wgt_step s t \<Longrightarrow> wgt_reach s0 t"

inductive_cases wgt_stepE: "wgt_step s t"

end
