(* ===== verification/Wgt_Safety.thy ===== *)
theory Wgt_Safety
  imports Wgt_Download "HOL-Library.Multiset"
begin

text \<open>
  No block of a download is lost or invented: the invariant of the download machine, and what a finished download
  has on the disk.
\<close>

unbundle bit_operations_syntax

section \<open>What a block is, and where the blocks are\<close>

definition key :: "WGTBlock \<Rightarrow> WGTBlock" where
  "key b = b\<lparr>buff := [], dlsize := 0, provider := []\<rparr>"

definition keys :: "WGTBlock list \<Rightarrow> WGTBlock multiset" where
  "keys bs = mset (map key bs)"

lemma keys_simps [simp]:
  "keys [] = {#}" "keys (b # bs) = add_mset (key b) (keys bs)" "keys (as @ bs) = keys as + keys bs"
  by (simp_all add: keys_def)

lemma key_updates [simp]:
  "key (b\<lparr>buff := d\<rparr>) = key b" "key (b\<lparr>dlsize := n\<rparr>) = key b" "key (b\<lparr>provider := p\<rparr>) = key b"
  by (simp_all add: key_def)

definition held :: "WGTWorkerInfo \<Rightarrow> WGTBlock list" where
  "held w = (case curBlock w of None \<Rightarrow> [] | Some sb \<Rightarrow> vBlockList sb) @ vBuffer w"

definition contents :: "wgt \<Rightarrow> WGTBlock list" where
  "contents s = concat (map vBlockList (m_vSuperBlockList s)) @ concat (map held (m_vWorkerList s))"

definition busy :: "wgt \<Rightarrow> nat" where
  "busy s = length (filter (\<lambda>w. curBlock w \<noteq> None) (m_vWorkerList s))"

definition full :: "WGTBlock \<Rightarrow> bool" where
  "full b \<longleftrightarrow> dlsize b = block_size b \<and> length (buff b) = unat (block_size b) \<and> block_size b \<noteq> 0"

definition sb_wf :: "WGTSuperBlock \<Rightarrow> bool" where
  "sb_wf sb \<longleftrightarrow>
     (\<forall>b\<in>set (vBlockList sb). block_size b \<noteq> 0) \<and> sb_size sb = blocks_size (vBlockList sb)
     \<and> (case vBlockList sb of [] \<Rightarrow> sb_done sb = 0
        | b # _ \<Rightarrow> sb_done sb < ucast (block_size b) \<and> (sb_done sb \<noteq> 0 \<longrightarrow> length (buff b) = unat (sb_done sb)))"

definition worker_wf :: "WGTWorkerInfo \<Rightarrow> bool" where
  "worker_wf w \<longleftrightarrow> (\<forall>sb. curBlock w = Some sb \<longrightarrow> sb_wf sb) \<and> (\<forall>b\<in>set (vBuffer w). full b)"

text \<open>
  The invariant: which blocks there are, the work counter (it counts the super blocks in the list and those the
  workers have), and the shape of super blocks and buffers.
\<close>

definition wgt_inv :: "WGTBlock multiset \<Rightarrow> wgt \<Rightarrow> bool" where
  "wgt_inv K s \<longleftrightarrow>
     keys (contents s) = K \<and> m_iAvailbleWork s = of_nat (length (m_vSuperBlockList s) + busy s)
     \<and> (\<forall>sb\<in>set (m_vSuperBlockList s). sb_wf sb \<and> vBlockList sb \<noteq> []) \<and> (\<forall>w\<in>set (m_vWorkerList s). worker_wf w)"

section \<open>Updating one worker\<close>

lemma concat_update:
  "i < length ws \<Longrightarrow> keys (concat (map held (ws[i := w]))) + keys (held (ws ! i)) = keys (concat (map held ws)) + keys (held w)"
proof (induction ws arbitrary: i)
  case (Cons v vs)
  then show ?case by (cases i) (auto simp: ac_simps)
qed simp

lemma busy_update:
  "i < length ws \<Longrightarrow> length (filter P (ws[i := w])) + (if P (ws ! i) then 1 else 0)
     = length (filter P ws) + (if P w then 1 else 0)"
proof (induction ws arbitrary: i)
  case (Cons v vs)
  then show ?case by (cases i) (auto simp: ac_simps)
qed simp

lemma upd_worker_fields [simp]:
  "m_iAvailbleWork (upd_worker i g s) = m_iAvailbleWork s" "m_vSuperBlockList (upd_worker i g s) = m_vSuperBlockList s"
  "length (m_vWorkerList (upd_worker i g s)) = length (m_vWorkerList s)"
  "i < length (m_vWorkerList s) \<Longrightarrow> m_vWorkerList (upd_worker i g s) ! i = g (m_vWorkerList s ! i)"
  by (simp_all add: upd_worker_def)

lemma contents_upd:
  "i < length (m_vWorkerList s) \<Longrightarrow>
   keys (contents (upd_worker i g s)) + keys (held (m_vWorkerList s ! i))
     = keys (contents s) + keys (held (g (m_vWorkerList s ! i)))"
  using concat_update [of i "m_vWorkerList s" "g (m_vWorkerList s ! i)"]
  by (simp add: contents_def upd_worker_def)

lemma busy_upd:
  "i < length (m_vWorkerList s) \<Longrightarrow>
   busy (upd_worker i g s) + (if curBlock (m_vWorkerList s ! i) \<noteq> None then 1 else 0)
     = busy s + (if curBlock (g (m_vWorkerList s ! i)) \<noteq> None then 1 else 0)"
  using busy_update [of i "m_vWorkerList s" "\<lambda>w. curBlock w \<noteq> None" "g (m_vWorkerList s ! i)"]
  by (simp add: busy_def upd_worker_def)

text \<open>Updates that keep the blocks of the worker and whether it has a super block keep the invariant.\<close>

lemma wgt_inv_upd:
  assumes "wgt_inv K s" and "i < length (m_vWorkerList s)"
    and "keys (held (g (m_vWorkerList s ! i))) = keys (held (m_vWorkerList s ! i))"
    and "curBlock (g (m_vWorkerList s ! i)) = None \<longleftrightarrow> curBlock (m_vWorkerList s ! i) = None"
    and "worker_wf (m_vWorkerList s ! i) \<Longrightarrow> worker_wf (g (m_vWorkerList s ! i))"
  shows "wgt_inv K (upd_worker i g s)"
proof -
  have "keys (contents (upd_worker i g s)) = keys (contents s)"
    using contents_upd [OF assms(2), of g] assms(3) by simp
  moreover have "busy (upd_worker i g s) = busy s"
    using busy_upd [OF assms(2), of g] assms(4) by (auto split: if_splits)
  moreover have "worker_wf (g (m_vWorkerList s ! i))" using assms(1,2,5) by (simp add: wgt_inv_def)
  then have "\<forall>w\<in>set (m_vWorkerList (upd_worker i g s)). worker_wf w"
    using assms(1) set_update_subset_insert [of "m_vWorkerList s" i "g (m_vWorkerList s ! i)"]
    by (auto simp: upd_worker_def wgt_inv_def)
  ultimately show ?thesis using assms(1) by (simp add: wgt_inv_def)
qed

section \<open>Writing received data\<close>

lemma ucast_32_64_eq_0 [simp]: "(ucast (x :: u32) :: u64) = 0 \<longleftrightarrow> x = 0"
  by (metis unat_ucast_32_64 unat_eq_0 ucast_0)

lemma blocks_size_fold: "fold (\<lambda>b n. n + ucast (block_size b)) bs (m :: u64) = m + blocks_size bs"
  unfolding blocks_size_def
proof (induction bs arbitrary: m)
  case (Cons b bs)
  show ?case using Cons [of "m + ucast (block_size b)"] Cons [of "ucast (block_size b)"] by (simp add: ac_simps)
qed simp

lemma blocks_size_simps [simp]:
  "blocks_size [] = 0" "blocks_size (b # bs) = ucast (block_size b) + blocks_size bs"
  using blocks_size_fold [of bs "ucast (block_size b)"] by (simp_all add: blocks_size_def)

lemma blocks_size_append [simp]: "blocks_size (as @ bs) = blocks_size as + blocks_size bs"
  by (induction as) simp_all

lemma write_blocks_wf:
  "sb_wf sb \<Longrightarrow> write_blocks name data sb = (finished, sb') \<Longrightarrow>
   sb_wf sb' \<and> keys finished + keys (vBlockList sb') = keys (vBlockList sb) \<and> (\<forall>b\<in>set finished. full b)"
proof (induction name data sb arbitrary: finished sb' rule: write_blocks.induct)
  case (1 name data sb)
  show ?case
  proof (cases "data = [] \<or> vBlockList sb = []")
    case True
    then show ?thesis using "1.prems" by (subst (asm) write_blocks.simps) (auto split: list.splits)
  next
    case False
    then obtain b rest where bl: "vBlockList sb = b # rest" and d: "data \<noteq> []" by (cases "vBlockList sb") auto
    let ?old = "if sb_done sb = 0 then [] else buff b" and ?ds = "unat (ucast (block_size b) - sb_done sb)"
    have size: "(ucast (block_size b) :: u64) = of_nat (unat (block_size b))" by simp
    have lt: "sb_done sb < ucast (block_size b)" and old: "length ?old = unat (sb_done sb)"
      using "1.prems"(1) bl by (auto simp: sb_wf_def)
    then have ds: "?ds = unat (block_size b) - unat (sb_done sb)"
      by (simp add: unat_sub word_less_nat_alt order_less_imp_le)
    show ?thesis
    proof (cases "length data \<ge> ?ds")
      case True
      let ?b = "b\<lparr>buff := ?old @ take ?ds data, dlsize := block_size b, provider := name\<rparr>"
      let ?sb = "sb\<lparr>vBlockList := rest, sb_done := 0, sb_offset := sb_offset sb + ucast (block_size b),
          sb_size := sb_size sb - ucast (block_size b)\<rparr>"
      obtain f2 s2 where rec: "write_blocks name (drop ?ds data) ?sb = (f2, s2)" by fastforce
      have r: "finished = ?b # f2" "sb' = s2"
        using "1.prems"(2) bl d True rec by (subst (asm) write_blocks.simps, simp add: Let_def)+
      have "sb_wf ?sb" using "1.prems"(1) bl by (auto simp: sb_wf_def split: list.splits) (auto simp: word_gt_0)
      from "1.IH" [OF d bl refl refl True refl refl this rec]
      have IH: "sb_wf s2 \<and> keys f2 + keys (vBlockList s2) = keys rest \<and> (\<forall>b\<in>set f2. full b)" by simp
      have "length ?old + min (length data) ?ds = unat (block_size b)"
        using old ds lt True by (simp add: word_less_nat_alt)
      then have "full ?b" using "1.prems"(1) bl by (simp add: full_def sb_wf_def)
      then show ?thesis using IH r bl by (simp add: keys_def)
    next
      case False
      then have r: "finished = []" "sb' = sb\<lparr>vBlockList := b\<lparr>buff := ?old @ data\<rparr> # rest,
          sb_done := sb_done sb + of_nat (length data)\<rparr>"
        using "1.prems"(2) bl d by (subst (asm) write_blocks.simps, simp add: Let_def)+
      have "unat (sb_done sb + of_nat (length data)) = unat (sb_done sb) + length data"
      proof -
        have "unat (sb_done sb) + length data < unat (block_size b)" using False ds by linarith
        moreover have "unat (block_size b) < 2 ^ 32" using unsigned_less [of "block_size b", where ?'a = nat] by simp
        ultimately show ?thesis by (simp add: unat_word_ariths unat_of_nat take_bit_nat_eq_self)
      qed
      then have "sb_wf sb'" using "1.prems"(1) bl r(2) old False ds
        by (auto simp: sb_wf_def word_less_nat_alt)
      then show ?thesis using r bl by simp
    qed
  qed
qed

section \<open>Every operation keeps the invariant\<close>

lemma wgt_inv_other [simp]:
  "wgt_inv K (s\<lparr>m_iRunningWorkers := n\<rparr>) = wgt_inv K s" "wgt_inv K (s\<lparr>ctl_paused := b\<rparr>) = wgt_inv K s"
  "wgt_inv K (s\<lparr>ctl_stopped := b\<rparr>) = wgt_inv K s"
  by (simp_all add: wgt_inv_def contents_def busy_def)

lemma wgt_inv_flag:
  assumes "wgt_inv K s" and "i < length (m_vWorkerList s)"
    and "curBlock (g (m_vWorkerList s ! i)) = curBlock (m_vWorkerList s ! i)"
    and "vBuffer (g (m_vWorkerList s ! i)) = vBuffer (m_vWorkerList s ! i)"
  shows "wgt_inv K (upd_worker i g s)"
  using assms by (intro wgt_inv_upd) (simp_all add: held_def worker_wf_def)

lemma upd_worker_out: "\<not> i < length (m_vWorkerList s) \<Longrightarrow> upd_worker i g s = s"
  by (simp add: upd_worker_def list_update_beyond)

lemma wgt_inv_progress:
  "wgt_inv K s \<Longrightarrow> wgt_inv K (reportNegProgress i n s)" "wgt_inv K s \<Longrightarrow> wgt_inv K (reportProgress i n s)"
  unfolding reportNegProgress_def reportProgress_def
  by (cases "i < length (m_vWorkerList s)"; simp add: wgt_inv_flag upd_worker_out)+

text \<open>A worker without a super block gets one that is not in the list any more.\<close>

lemma wgt_inv_give:
  assumes inv: "keys (contents s) + keys (vBlockList sb) = K"
      "m_iAvailbleWork s = of_nat (length (m_vSuperBlockList s) + Suc (busy s))"
      "\<forall>sb\<in>set (m_vSuperBlockList s). sb_wf sb \<and> vBlockList sb \<noteq> []" "\<forall>w\<in>set (m_vWorkerList s). worker_wf w"
    and i: "i < length (m_vWorkerList s)" and none: "curBlock (m_vWorkerList s ! i) = None" and sb: "sb_wf sb"
  shows "wgt_inv K (upd_worker i (setCurrentBlock sb) s)"
proof -
  let ?s = "upd_worker i (setCurrentBlock sb) s" and ?w = "m_vWorkerList s ! i"
  have "keys (contents ?s) + keys (vBuffer ?w) = keys (contents s) + (keys (vBlockList sb) + keys (vBuffer ?w))"
    using contents_upd [OF i, of "setCurrentBlock sb"] none by (simp add: held_def setCurrentBlock_def)
  then have "keys (contents ?s) = K" using inv(1) by (simp add: ac_simps)
  moreover have "busy ?s = Suc (busy s)" using busy_upd [OF i, of "setCurrentBlock sb"] none by (simp add: setCurrentBlock_def)
  moreover have "worker_wf (setCurrentBlock sb ?w)"
    using inv(4) i sb by (auto simp: worker_wf_def setCurrentBlock_def)
  then have "\<forall>w\<in>set (m_vWorkerList ?s). worker_wf w"
    using inv(4) set_update_subset_insert [of "m_vWorkerList s" i "setCurrentBlock sb ?w"]
    by (auto simp: upd_worker_def)
  ultimately show ?thesis using inv(2,3) by (simp add: wgt_inv_def)
qed

lemma largest_worker_max:
  "largest_worker ws k (c, r) = (c', r') \<Longrightarrow> r' = r \<and> c' = c \<or>
     (\<exists>j. r' = Some (k + j) \<and> j < length ws \<and> c' = getCurrentBlockSize (ws ! j))"
proof (induction ws arbitrary: k c r)
  case (Cons w ws)
  let ?n = "getCurrentBlockSize w"
  have "largest_worker ws (Suc k) (if ?n > c then (?n, Some k) else (c, r)) = (c', r')" using Cons.prems by simp
  then consider "r' = (if ?n > c then Some k else r) \<and> c' = (if ?n > c then ?n else c)"
    | j where "r' = Some (Suc k + j)" "j < length ws" "c' = getCurrentBlockSize (ws ! j)"
    using Cons.IH [of "Suc k" "if ?n > c then ?n else c" "if ?n > c then Some k else r"] by (auto split: if_splits)
  then show ?case
  proof cases
    case 1
    then show ?thesis by (cases "?n > c") (auto intro: exI [of _ 0])
  next
    case 2
    then show ?thesis by (intro disjI2 exI [of _ "Suc j"]) simp
  qed
qed simp

text \<open>Splitting keeps the blocks, and both halves are well-formed when the first is not empty.\<close>

lemma split_block_wf:
  assumes "sb_wf sb" and "0 < n" and "n \<le> length (vBlockList sb)" and "split_block n sb = (stays, taken)"
  shows "sb_wf stays" and "sb_wf taken" and "keys (vBlockList stays) + keys (vBlockList taken) = keys (vBlockList sb)"
    and "vBlockList stays \<noteq> []"
proof -
  have parts: "vBlockList stays = take n (vBlockList sb)" "vBlockList taken = drop n (vBlockList sb)"
    "sb_size stays = sb_size sb - blocks_size (drop n (vBlockList sb))" "sb_done stays = sb_done sb"
    "sb_size taken = blocks_size (drop n (vBlockList sb))" "sb_done taken = 0"
    using assms(4) by (auto simp: split_block_def Let_def)
  have sum: "blocks_size (vBlockList sb) = blocks_size (take n (vBlockList sb)) + blocks_size (drop n (vBlockList sb))"
    by (simp flip: blocks_size_append)
  have "keys (take n xs) + keys (drop n xs) = keys xs" for xs by (simp flip: keys_simps(3))
  then show "keys (vBlockList stays) + keys (vBlockList taken) = keys (vBlockList sb)" by (simp add: parts)
  show ne: "vBlockList stays \<noteq> []" using assms(2,3) parts by auto
  obtain b rest where "vBlockList sb = b # rest" using assms(2,3) by (cases "vBlockList sb") auto
  then have "vBlockList stays = b # take (n - 1) rest" using parts assms(2) by (simp add: take_Cons')
  then show "sb_wf stays" using assms(1) sum \<open>vBlockList sb = b # rest\<close>
    by (auto simp: sb_wf_def parts dest: in_set_takeD)
  have "\<forall>b\<in>set (drop n (vBlockList sb)). block_size b \<noteq> 0"
    using assms(1) by (auto simp: sb_wf_def dest: in_set_dropD)
  then show "sb_wf taken"
    by (cases "drop n (vBlockList sb)") (simp_all add: sb_wf_def parts word_gt_0)
qed

lemma stealBlocks_wf:
  assumes "wgt_inv K s" and "stealBlocks s = Some (t, sb)"
  shows "keys (contents t) + keys (vBlockList sb) = K" and "m_iAvailbleWork t = of_nat (length (m_vSuperBlockList t) + busy t)"
    and "\<forall>sb\<in>set (m_vSuperBlockList t). sb_wf sb \<and> vBlockList sb \<noteq> []" "\<forall>w\<in>set (m_vWorkerList t). worker_wf w" and "sb_wf sb"
    and "length (m_vWorkerList t) = length (m_vWorkerList s)"
    and "curBlock (m_vWorkerList t ! i) = None \<longleftrightarrow> curBlock (m_vWorkerList s ! i) = None"
proof -
  obtain c j where l: "largest_worker (m_vWorkerList s) 0 (0, None) = (c, Some j)" and c: "3 \<le> c"
    and sp: "\<exists>w. splitCurrentBlock (c div 2) (m_vWorkerList s ! j) = Some (w, sb) \<and> t = upd_worker j (\<lambda>_. w) s"
    using assms(2) by (auto simp: stealBlocks_def split: prod.splits option.splits if_splits)
  then have j: "j < length (m_vWorkerList s)" and cs: "c = getCurrentBlockSize (m_vWorkerList s ! j)"
    using largest_worker_max [OF l] by auto
  obtain cur where cur: "curBlock (m_vWorkerList s ! j) = Some cur"
    using cs c by (cases "curBlock (m_vWorkerList s ! j)") (auto simp: getCurrentBlockSize_def)
  then have len: "length (vBlockList cur) = c" using cs by (simp add: getCurrentBlockSize_def)
  obtain stays where split: "split_block (c div 2) cur = (stays, sb)"
    and t: "t = upd_worker j (\<lambda>_. (m_vWorkerList s ! j)\<lparr>curBlock := Some stays\<rparr>) s"
    using sp cur by (auto simp: splitCurrentBlock_def split: prod.splits if_splits)
  have ww: "worker_wf (m_vWorkerList s ! j)" using assms(1) j by (simp add: wgt_inv_def)
  then have wf: "sb_wf cur" using cur by (simp add: worker_wf_def)
  note halves = split_block_wf [OF wf _ _ split]
  let ?w = "(m_vWorkerList s ! j)\<lparr>curBlock := Some stays\<rparr>"
  have pos: "0 < c div 2" "c div 2 \<le> length (vBlockList cur)" using c len by auto
  show "sb_wf sb" using halves(2) [OF pos] .
  have "keys (contents t) + keys (vBlockList cur) = keys (contents s) + keys (vBlockList stays)"
    using contents_upd [OF j, of "\<lambda>_. ?w"] cur unfolding t by (simp add: held_def)
  then have "(keys (contents t) + keys (vBlockList sb)) + keys (vBlockList stays) = keys (contents s) + keys (vBlockList stays)"
    unfolding halves(3) [OF pos, symmetric] by (simp add: ac_simps)
  then show "keys (contents t) + keys (vBlockList sb) = K" using assms(1) by (simp add: wgt_inv_def)
  have "busy t = busy s" using busy_upd [OF j, of "\<lambda>_. ?w"] cur unfolding t by simp
  then show "m_iAvailbleWork t = of_nat (length (m_vSuperBlockList t) + busy t)"
    using assms(1) unfolding t by (simp add: wgt_inv_def)
  show "\<forall>sb\<in>set (m_vSuperBlockList t). sb_wf sb \<and> vBlockList sb \<noteq> []" using assms(1) unfolding t by (simp add: wgt_inv_def)
  have "worker_wf ?w" using ww halves(1) [OF pos] by (simp add: worker_wf_def)
  then show "\<forall>w\<in>set (m_vWorkerList t). worker_wf w"
    using assms(1) set_update_subset_insert [of "m_vWorkerList s" j ?w] unfolding t by (auto simp: upd_worker_def wgt_inv_def)
  show "length (m_vWorkerList t) = length (m_vWorkerList s)" by (simp add: t)
  show "curBlock (m_vWorkerList t ! i) = None \<longleftrightarrow> curBlock (m_vWorkerList s ! i) = None"
    using cur j by (auto simp: t upd_worker_def nth_list_update)
qed

lemma busy_Cons: "busy (s\<lparr>m_vSuperBlockList := l\<rparr>) = busy s" "busy (s\<lparr>m_iAvailbleWork := n\<rparr>) = busy s"
  by (simp_all add: busy_def)

lemma newTask_inv:
  assumes "wgt_inv K s" and i: "i < length (m_vWorkerList s)"
  shows "wgt_inv K (snd (snd (newTask i s))) \<and> length (m_vWorkerList (snd (snd (newTask i s)))) = length (m_vWorkerList s)"
proof (cases "worker_status (m_vWorkerList s ! i) \<noteq> SF_STATUS_CONTINUE \<or> curBlock (m_vWorkerList s ! i) \<noteq> None")
  case True
  then show ?thesis using assms by (auto simp: newTask_def Let_def)
next
  case False
  then have none: "curBlock (m_vWorkerList s ! i) = None" and c: "worker_status (m_vWorkerList s ! i) = SF_STATUS_CONTINUE"
    by auto
  show ?thesis
  proof (cases "m_vSuperBlockList s")
    case (Cons sb rest)
    let ?s = "s\<lparr>m_vSuperBlockList := rest\<rparr>"
    have "wgt_inv K (upd_worker i (setCurrentBlock sb) ?s)"
      using assms none Cons by (intro wgt_inv_give) (auto simp: wgt_inv_def contents_def busy_Cons ac_simps)
    then show ?thesis using none c Cons by (simp add: newTask_def Let_def)
  next
    case Nil
    show ?thesis
    proof (cases "stealBlocks s")
      case None
      have "wgt_inv K (upd_worker i (\<lambda>w. w\<lparr>worker_status := SF_STATUS_STOP\<rparr>) (s\<lparr>m_iRunningWorkers := m_iRunningWorkers s - 1\<rparr>))"
        using assms by (intro wgt_inv_flag) simp_all
      then show ?thesis using none c Nil None by (simp add: newTask_def Let_def)
    next
      case (Some p)
      obtain t sb where p: "p = (t, sb)" by fastforce
      note st = stealBlocks_wf [OF assms(1) Some [unfolded p]]
      let ?t = "t\<lparr>m_iAvailbleWork := m_iAvailbleWork t + 1\<rparr>"
      have "wgt_inv K (upd_worker i (setCurrentBlock sb) ?t)"
        using st none i by (intro wgt_inv_give) (simp_all add: contents_def busy_Cons)
      then show ?thesis using none c Nil Some p st(6) by (simp add: newTask_def Let_def)
    qed
  qed
qed

lemma workerFinishedSuperBlock_inv:
  assumes "wgt_inv K s" and i: "i < length (m_vWorkerList s)"
  shows "wgt_inv K (workerFinishedSuperBlock i s) \<and>
    length (m_vWorkerList (workerFinishedSuperBlock i s)) = length (m_vWorkerList s)"
proof (cases "curBlock (m_vWorkerList s ! i)")
  case None
  then show ?thesis
    using assms by (auto simp: workerFinishedSuperBlock_def Let_def resetCurrentBlock_def intro!: wgt_inv_flag)
next
  case (Some sb)
  let ?w = "m_vWorkerList s ! i" and ?s = "upd_worker i resetCurrentBlock s"
  have ww: "worker_wf ?w" using assms by (simp add: wgt_inv_def)
  then have wf: "sb_wf sb" using Some by (simp add: worker_wf_def)
  have "keys (contents ?s) + (keys (vBlockList sb) + keys (vBuffer ?w)) = keys (contents s) + keys (vBuffer ?w)"
    using contents_upd [OF i, of resetCurrentBlock] Some by (simp add: held_def resetCurrentBlock_def)
  then have c: "keys (contents ?s) + keys (vBlockList sb) = K" using assms(1) by (simp add: ac_simps wgt_inv_def)
  have b: "Suc (busy ?s) = busy s" using busy_upd [OF i, of resetCurrentBlock] Some by (simp add: resetCurrentBlock_def)
  have "worker_wf (resetCurrentBlock ?w)" using ww by (simp add: worker_wf_def resetCurrentBlock_def)
  then have all: "\<forall>w\<in>set (m_vWorkerList ?s). worker_wf w"
    using assms(1) set_update_subset_insert [of "m_vWorkerList s" i "resetCurrentBlock ?w"]
    by (auto simp: upd_worker_def wgt_inv_def)
  have avail: "m_iAvailbleWork s = of_nat (length (m_vSuperBlockList s)) + of_nat (busy ?s) + 1"
    using assms(1) by (simp add: wgt_inv_def flip: b)
  show ?thesis
  proof (cases "vBlockList sb = []")
    case True
    then show ?thesis using Some c all avail assms(1)
      by (simp add: workerFinishedSuperBlock_def Let_def wgt_inv_def contents_def busy_Cons)
  next
    case False
    then show ?thesis using Some c all avail wf assms(1)
      by (auto simp: workerFinishedSuperBlock_def Let_def wgt_inv_def contents_def busy_Cons ac_simps)
  qed
qed

lemma reportError_inv:
  assumes "wgt_inv K s" and "i < length (m_vWorkerList s)"
  shows "wgt_inv K (reportError i s) \<and> length (m_vWorkerList (reportError i s)) = length (m_vWorkerList s)"
  using workerFinishedSuperBlock_inv [OF assms] assms(2)
  by (auto simp: reportError_def Let_def intro!: wgt_inv_flag)

lemma writeData_inv:
  assumes "wgt_inv K s" and i: "i < length (m_vWorkerList s)"
  shows "wgt_inv K (snd (writeData name i d s)) \<and> length (m_vWorkerList (snd (writeData name i d s))) = length (m_vWorkerList s)"
proof (cases "worker_stopped (m_vWorkerList s ! i) \<or> m_bError (m_vWorkerList s ! i) \<or> d = []
    \<or> curBlock (m_vWorkerList s ! i) = None \<or> (\<exists>sb. curBlock (m_vWorkerList s ! i) = Some sb \<and> vBlockList sb = [])")
  case True
  then show ?thesis using assms by (auto simp: writeData_def Let_def split: option.splits)
next
  case False
  then obtain sb where sb: "curBlock (m_vWorkerList s ! i) = Some sb" "vBlockList sb \<noteq> []" by auto
  obtain finished sb' where w: "write_blocks name d sb = (finished, sb')" by fastforce
  let ?g = "\<lambda>w. w\<lparr>curBlock := Some sb', vBuffer := vBuffer w @ finished\<rparr>"
  have "sb_wf sb" using assms sb(1) by (auto simp: wgt_inv_def worker_wf_def)
  note r = write_blocks_wf [OF this w]
  have "wgt_inv K (upd_worker i ?g s)"
    using assms sb(1) r by (intro wgt_inv_upd) (auto simp: held_def worker_wf_def ac_simps)
  then show ?thesis using False sb w by (simp add: writeData_def Let_def)
qed

lemma writeData_fold_inv:
  "wgt_inv K s \<Longrightarrow> i < length (m_vWorkerList s) \<Longrightarrow>
   wgt_inv K (fold (\<lambda>d s. snd (writeData name i d s)) pieces s)
   \<and> length (m_vWorkerList (fold (\<lambda>d s. snd (writeData name i d s)) pieces s)) = length (m_vWorkerList s)"
proof (induction pieces arbitrary: s)
  case (Cons d ds)
  then show ?case using writeData_inv [of K s i name d] Cons.IH [of "snd (writeData name i d s)"] by simp
qed simp

lemma sb_wf_done_0: "sb_wf sb \<Longrightarrow> sb_wf (sb\<lparr>sb_done := 0\<rparr>)"
  by (cases "vBlockList sb") (auto simp: sb_wf_def word_gt_0)

lemma takeProgressOff_inv:
  assumes "wgt_inv K s" and i: "i < length (m_vWorkerList s)"
  shows "wgt_inv K (takeProgressOff i s) \<and> length (m_vWorkerList (takeProgressOff i s)) = length (m_vWorkerList s)"
proof (cases "curBlock (m_vWorkerList s ! i)")
  case (Some sb)
  let ?s = "reportNegProgress i (sb_done sb) s"
  have s: "wgt_inv K ?s" "length (m_vWorkerList ?s) = length (m_vWorkerList s)" "curBlock (m_vWorkerList ?s ! i) = Some sb"
    using wgt_inv_progress(1) [OF assms(1), of i "sb_done sb"] i Some by (simp_all add: reportNegProgress_def)
  then have "sb_wf sb" using i by (auto simp: wgt_inv_def worker_wf_def)
  then have "wgt_inv K (upd_worker i (\<lambda>w. w\<lparr>curBlock := Some (sb\<lparr>sb_done := 0\<rparr>)\<rparr>) ?s)"
    using s i sb_wf_done_0 by (intro wgt_inv_upd) (auto simp: held_def worker_wf_def)
  from workerFinishedSuperBlock_inv [OF this, of i] show ?thesis
    using s(2) i Some by (simp add: takeProgressOff_def)
qed (use assms in \<open>simp add: takeProgressOff_def\<close>)

lemma requestNewUrl_inv:
  assumes "wgt_inv K s" and "i < length (m_vWorkerList s)"
  shows "wgt_inv K (requestNewUrl i got s) \<and> length (m_vWorkerList (requestNewUrl i got s)) = length (m_vWorkerList s)"
  using reportError_inv [OF assms] assms by (auto simp: requestNewUrl_def intro!: wgt_inv_flag)

lemma download_failed_inv:
  assumes "wgt_inv K s" and "i < length (m_vWorkerList s)"
  shows "wgt_inv K (download_failed i e got s) \<and> length (m_vWorkerList (download_failed i e got s)) = length (m_vWorkerList s)"
proof -
  let ?s = "takeProgressOff i s"
  have s: "wgt_inv K ?s" "length (m_vWorkerList ?s) = length (m_vWorkerList s)"
    using takeProgressOff_inv [OF assms] by auto
  then show ?thesis
    using assms(2) requestNewUrl_inv [OF s(1), of i got] reportError_inv [OF s(1), of i]
    by (cases e) (auto simp: download_failed_def Let_def intro!: wgt_inv_flag)
qed

lemma doDownload_inv:
  assumes "wgt_inv K s" and "i < length (m_vWorkerList s)"
  shows "wgt_inv K (doDownload name i pieces err got s)
    \<and> length (m_vWorkerList (doDownload name i pieces err got s)) = length (m_vWorkerList s)"
proof -
  let ?s = "if curBlock (m_vWorkerList s ! i) = None then snd (snd (newTask i s)) else s"
  have s: "wgt_inv K ?s" "length (m_vWorkerList ?s) = length (m_vWorkerList s)" using newTask_inv [OF assms] assms by auto
  let ?t = "fold (\<lambda>d s. snd (writeData name i d s)) pieces ?s"
  have t: "wgt_inv K ?t" "length (m_vWorkerList ?t) = length (m_vWorkerList s)"
    using writeData_fold_inv [OF s(1), of i name pieces] s(2) assms(2) by auto
  show ?thesis
    using s t assms(2) download_failed_inv [OF t(1), of i] workerFinishedSuperBlock_inv [OF t(1), of i]
    unfolding doDownload_def Let_def by (auto split: option.splits)
qed

lemma worker_pass_inv:
  assumes "wgt_inv K s" and "i < length (m_vWorkerList s)"
  shows "wgt_inv K (worker_pass name i pieces err got got2 s)
    \<and> length (m_vWorkerList (worker_pass name i pieces err got got2 s)) = length (m_vWorkerList s)"
proof -
  let ?s = "if m_bError (m_vWorkerList s ! i)
    then upd_worker i (\<lambda>w. w\<lparr>m_bError := False\<rparr>) (requestNewUrl i got2 s) else s"
  have s: "wgt_inv K ?s" "length (m_vWorkerList ?s) = length (m_vWorkerList s)"
    using requestNewUrl_inv [OF assms, of got2] assms by (auto intro!: wgt_inv_flag)
  then show ?thesis
    using assms doDownload_inv [OF s(1), of i name pieces err got] unfolding worker_pass_def Let_def by auto
qed

section \<open>Saving\<close>

lemma pop_inv:
  assumes "wgt_inv K s" and i: "i < length (m_vWorkerList s)" and b: "vBuffer (m_vWorkerList s ! i) = b # rest"
  shows "\<exists>K'. K = add_mset (key b) K' \<and> wgt_inv K' (upd_worker i (\<lambda>w. w\<lparr>vBuffer := rest\<rparr>) s)" and "full b"
proof -
  let ?w = "m_vWorkerList s ! i" and ?g = "\<lambda>w. w\<lparr>vBuffer := rest\<rparr>"
  let ?s = "upd_worker i ?g s"
  have ww: "worker_wf ?w" using assms by (simp add: wgt_inv_def)
  then show "full b" using b by (simp add: worker_wf_def)
  have "keys (contents ?s) + keys (held ?w) = keys (contents s) + keys (held (?w\<lparr>vBuffer := rest\<rparr>))"
    using contents_upd [OF i, of ?g] by simp
  moreover have "keys (held ?w) = add_mset (key b) (keys (held (?w\<lparr>vBuffer := rest\<rparr>)))"
    using b by (simp add: held_def)
  ultimately have "keys (contents s) = add_mset (key b) (keys (contents ?s))" by simp
  then have K: "K = add_mset (key b) (keys (contents ?s))" using assms(1) by (simp add: wgt_inv_def)
  have "busy ?s = busy s" using busy_upd [OF i, of ?g] by (simp split: if_splits)
  moreover have "worker_wf (?g ?w)" using ww b by (simp add: worker_wf_def)
  then have "\<forall>w\<in>set (m_vWorkerList ?s). worker_wf w"
    using assms(1) set_update_subset_insert [of "m_vWorkerList s" i "?g ?w"] by (auto simp: upd_worker_def wgt_inv_def)
  ultimately have "wgt_inv (keys (contents ?s)) ?s" using assms(1) by (simp add: wgt_inv_def)
  with K show "\<exists>K'. K = add_mset (key b) K' \<and> wgt_inv K' ?s" by blast
qed

lemma checkBlock_bad:
  assumes "wgt_inv K s" and i: "i < length (m_vWorkerList s)" and "full b" and "checkBlock getName b i s = (False, t)"
  shows "wgt_inv (add_mset (key b) K) t" and "length (m_vWorkerList t) = length (m_vWorkerList s)"
proof -
  let ?super = "\<lparr>sb_offset = webOffset b, sb_size = ucast (block_size b), sb_done = 0, vBlockList = [b]\<rparr>"
  let ?s = "reportNegProgress i (ucast (dlsize b)) s"
  let ?t = "?s\<lparr>m_vSuperBlockList := m_vSuperBlockList ?s @ [?super], m_iAvailbleWork := m_iAvailbleWork ?s + 1\<rparr>"
  have s: "wgt_inv K ?s" "length (m_vWorkerList ?s) = length (m_vWorkerList s)"
    using wgt_inv_progress(1) [OF assms(1)] by (simp_all add: reportNegProgress_def)
  have "sb_wf ?super" using assms(3) by (simp add: sb_wf_def full_def word_gt_0)
  then have "wgt_inv (add_mset (key b) K) ?t"
    using s(1) by (auto simp: wgt_inv_def contents_def busy_Cons ac_simps)
  moreover have t: "t = upd_worker i (\<lambda>w. if getName i = provider b then w\<lparr>m_bError := True\<rparr> else w) ?t"
    using assms(4) by (simp add: checkBlock_def Let_def split: if_splits)
  ultimately show "wgt_inv (add_mset (key b) K) t"
    unfolding t using i s(2) by (intro wgt_inv_flag) auto
  show "length (m_vWorkerList t) = length (m_vWorkerList s)" unfolding t using s(2) by simp
qed

text \<open>
  The invariant of the whole download. The second part needs blocks that do not overlap in the archive: what has
  been saved stays on the disk.
\<close>

definition apart :: "WGTBlock multiset \<Rightarrow> bool" where
  "apart K \<longleftrightarrow> (\<forall>b. count K b \<le> 1) \<and> (\<forall>a\<in>#K. \<forall>b\<in>#K. a \<noteq> b \<longrightarrow>
     unat (fileOffset a) + unat (block_size a) \<le> unat (fileOffset b)
     \<or> unat (fileOffset b) + unat (block_size b) \<le> unat (fileOffset a))"

definition on_disk :: "bytes \<Rightarrow> WGTBlock \<Rightarrow> bool" where
  "on_disk content b \<longleftrightarrow> get_bytes content (unat (fileOffset b)) (unat (block_size b)) = Some (buff b)"

definition sys_inv :: "WGTBlock multiset \<Rightarrow> string \<Rightarrow> nat \<Rightarrow> wgt_sys \<Rightarrow> bool" where
  "sys_inv K name n s \<longleftrightarrow>
     (\<exists>K'. wgt_inv K' (ctl s) \<and> K = K' + keys (saved s) + keys (lost s))
     \<and> length (m_vWorkerList (ctl s)) = n
     \<and> (\<forall>b\<in>set (saved s). full b \<and> block_good b)
     \<and> m_uiOffset (sys_handle s) = 0 \<and> fh_name (sys_handle s) = name
     \<and> (apart K \<longrightarrow> (\<forall>b\<in>set (saved s). on_disk (fh_content (sys_disk s) (sys_handle s)) b))"

lemma key_fields [simp]:
  "fileOffset (key b) = fileOffset b" "block_size (key b) = block_size b" "block_crc (key b) = block_crc b"
  by (simp_all add: key_def)

lemma key_in_keys: "b \<in> set bs \<Longrightarrow> key b \<in># keys bs"
  by (simp add: keys_def)

text \<open>A good block of a buffer that is written: what was saved before stays, as no two blocks overlap.\<close>

lemma save_good:
  assumes inv: "sys_inv K name n s" and K': "wgt_inv K' c" "K = add_mset (key b) K' + keys (saved s) + keys (lost s)"
    and n: "length (m_vWorkerList c) = n" and b: "full b" "block_good b"
    and seek: "fh_seek (sys_handle s) (fileOffset b) = Inr h"
    and w: "fh_write (sys_disk s) h (take (unat (block_size b)) (buff b)) = Inr (disk, h2)"
  shows "sys_inv K name n (s\<lparr>ctl := c, sys_disk := disk, sys_handle := h2, saved := saved s @ [b]\<rparr>)"
proof -
  let ?old = "fh_content (sys_disk s) (sys_handle s)"
  have len: "length (buff b) = unat (block_size b)" "buff b \<noteq> []" using b(1) by (auto simp: full_def unat_eq_zero)
  have h: "fh_pos h = unat (fileOffset b)" "fh_name h = name" "m_uiOffset h = 0" "fh_content (sys_disk s) h = ?old"
    using fh_seek_read [OF seek] inv by (simp_all add: sys_inv_def fh_content_def)
  then have new: "fh_content disk h2 = put_bytes ?old (unat (fileOffset b)) (buff b)" "fh_name h2 = name" "m_uiOffset h2 = 0"
    using w len by (auto simp: fh_write_def fh_content_def split: if_splits)
  have disk: "on_disk (fh_content disk h2) a" if K: "apart K" and a: "a \<in> set (saved s @ [b])" for a
  proof (cases "a = b")
    case True
    then show ?thesis using new(1) len disk.get_put_same [of ?old "unat (fileOffset b)" "buff b"] by (simp add: on_disk_def)
  next
    case False
    then have a: "a \<in> set (saved s)" using a by simp
    then have "0 < count (keys (saved s)) (key a)" using key_in_keys by fastforce
    moreover have "count K (key b) = 1 + count K' (key b) + count (keys (saved s)) (key b) + count (keys (lost s)) (key b)"
      using K'(2) by simp
    moreover have "count K (key b) \<le> 1" using K by (simp add: apart_def)
    ultimately have "count (keys (saved s)) (key a) \<noteq> count (keys (saved s)) (key b)" by linarith
    then have "key a \<noteq> key b" by auto
    moreover have "key a \<in># K" "key b \<in># K" using K'(2) key_in_keys [OF a] by simp_all
    ultimately have "unat (fileOffset a) + unat (block_size a) \<le> unat (fileOffset b)
        \<or> unat (fileOffset b) + unat (block_size b) \<le> unat (fileOffset a)"
      using K unfolding apart_def by (metis key_fields)
    moreover have "get_bytes ?old (unat (fileOffset a)) (unat (block_size a)) = Some (buff a)"
      using inv K a by (simp add: sys_inv_def on_disk_def)
    ultimately show ?thesis
      using new(1) len(1) disk.get_put_before disk.get_put_after by (metis on_disk_def)
  qed
  show ?thesis using inv K' n b new disk by (auto simp: sys_inv_def intro!: exI [of _ K'])
qed

lemma checkBlock_good: "block_good b \<Longrightarrow> checkBlock getName b i s = (True, s)"
  by (simp add: checkBlock_def)

lemma save_blocks_inv:
  "sys_inv K name n s \<Longrightarrow> i < n \<Longrightarrow> sys_inv K name n (save_blocks getName k i s)"
proof (induction k arbitrary: s)
  case (Suc k)
  note inv = Suc.prems(1) and i = Suc.prems(2)
  obtain K' where K': "wgt_inv K' (ctl s)" "K = K' + keys (saved s) + keys (lost s)"
    and n: "length (m_vWorkerList (ctl s)) = n" using inv by (auto simp: sys_inv_def)
  show ?case
  proof (cases "vBuffer (m_vWorkerList (ctl s) ! i)")
    case Nil
    then show ?thesis using inv by simp
  next
    case (Cons b rest)
    let ?c = "upd_worker i (\<lambda>w. w\<lparr>vBuffer := rest\<rparr>) (ctl s)"
    obtain K2 where K2: "K' = add_mset (key b) K2" "wgt_inv K2 ?c" and full: "full b"
      using pop_inv [OF K'(1) _ Cons] i n by auto
    show ?thesis
    proof (cases "block_good b")
      case False
      obtain t where t: "checkBlock getName b i ?c = (False, t)" using False by (simp add: checkBlock_def Let_def)
      note c = checkBlock_bad [OF K2(2) _ full t]
      have "sys_inv K name n (s\<lparr>ctl := t\<rparr>)"
        using inv c K2(1) K'(2) i n by (auto simp: sys_inv_def intro!: exI [of _ K'])
      from Suc.IH [OF this i] show ?thesis using Cons t by simp
    next
      case True
      have K: "K = add_mset (key b) K2 + keys (saved s) + keys (lost s)" using K'(2) K2(1) by simp
      show ?thesis
      proof (cases "bind_res (fh_seek (sys_handle s) (fileOffset b)) (\<lambda>h.
          fh_write (sys_disk s) h (take (unat (block_size b)) (buff b)))")
        case (Inl e)
        have "sys_inv K name n (s\<lparr>ctl := ?c, lost := lost s @ [b]\<rparr>)"
          using inv K2(2) K n by (auto simp: sys_inv_def intro!: exI [of _ K2])
        then show ?thesis using Cons True Inl by (simp add: checkBlock_good)
      next
        case (Inr r)
        obtain disk h2 where r: "r = (disk, h2)" by fastforce
        then obtain h where "fh_seek (sys_handle s) (fileOffset b) = Inr h"
          "fh_write (sys_disk s) h (take (unat (block_size b)) (buff b)) = Inr (disk, h2)"
          using Inr by (auto simp: bind_res_Inr)
        from save_good [OF inv K2(2) K _ full True this] n
        have "sys_inv K name n (s\<lparr>ctl := ?c, sys_disk := disk, sys_handle := h2, saved := saved s @ [b]\<rparr>)" by simp
        from Suc.IH [OF this i] show ?thesis using Cons True Inr r by (simp add: checkBlock_good)
      qed
    qed
  qed
qed simp

interpretation saver: machine
  "\<lambda>s i. save_blocks getName (if all then length (vBuffer (m_vWorkerList (ctl s) ! i)) else 1) i s"
  "sys_inv K name n" "\<lambda>s i. i < n" for getName all K name n
  by unfold_locales (rule save_blocks_inv)

lemma saver_oks: "\<forall>i\<in>set is. i < n \<Longrightarrow> saver.oks getName all n s is"
  by (induction "is" arbitrary: s) (simp_all add: saver.oks.simps)

lemma saveBuffers_inv: "sys_inv K name n s \<Longrightarrow> sys_inv K name n (saveBuffers getName all s)"
  unfolding saveBuffers_def by (rule saver.run_inv) (auto simp: sys_inv_def intro!: saver_oks)

lemma run_pass_inv: "sys_inv K name n s \<Longrightarrow> sys_inv K name n (fst (run_pass getName agents s))"
  by (auto simp: run_pass_def Let_def intro!: saveBuffers_inv)

lemma sys_inv_ctl:
  assumes "sys_inv K name n s"
    and "\<And>K'. wgt_inv K' (ctl s) \<Longrightarrow> wgt_inv K' c \<and> length (m_vWorkerList c) = length (m_vWorkerList (ctl s))"
  shows "sys_inv K name n (s\<lparr>ctl := c\<rparr>)"
  using assms by (auto simp: sys_inv_def)

lemma stop_inv:
  assumes "wgt_inv K s"
  shows "wgt_inv K (wgt_onStop s) \<and> length (m_vWorkerList (wgt_onStop s)) = length (m_vWorkerList s)"
proof -
  have "held (w\<lparr>worker_stopped := True\<rparr>) = held w" for w by (simp add: held_def)
  then show ?thesis
    using assms by (simp add: wgt_onStop_def wgt_inv_def contents_def busy_def worker_wf_def filter_map comp_def)
qed

lemma reportProgress_length: "length (m_vWorkerList (reportProgress i n s)) = length (m_vWorkerList s)"
  by (simp add: reportProgress_def)

lemma sys_inv_at [simp]: "sys_inv K name n (s\<lparr>ctl_at := p\<rparr>) = sys_inv K name n s"
  by (simp add: sys_inv_def)

lemma ctl_step_inv:
  assumes "sys_inv K name n s"
  shows "sys_inv K name n (ctl_step getName agents s)"
proof -
  have "length (m_vWorkerList (ctl s)) = n" using assms by (simp add: sys_inv_def)
  then show ?thesis
    using assms save_blocks_inv [OF assms]
    by (cases "ctl_at s") (simp_all add: ctl_step_def Let_def del: save_blocks.simps)
qed

lemma wgt_step_inv:
  assumes "wgt_step s t" and "sys_inv K name n s"
  shows "sys_inv K name n t"
  using assms(1)
proof cases
  case (task i)
  then show ?thesis using assms(2) newTask_inv by (auto intro!: sys_inv_ctl)
next
  case (data i)
  then show ?thesis using assms(2) writeData_inv by (auto intro!: sys_inv_ctl)
next
  case (give_back i)
  then show ?thesis using assms(2) takeProgressOff_inv by (auto intro!: sys_inv_ctl)
next
  case (finished i)
  then show ?thesis using assms(2) workerFinishedSuperBlock_inv by (auto intro!: sys_inv_ctl)
next
  case (give_up i)
  then show ?thesis using assms(2) reportError_inv by (auto intro!: sys_inv_ctl)
next
  case (progress i ammount)
  then show ?thesis using assms(2) wgt_inv_progress(2) by (auto intro!: sys_inv_ctl simp: reportProgress_length)
next
  case (controller getName agents)
  then show ?thesis using assms(2) ctl_step_inv by simp
next
  case stop
  then show ?thesis using assms(2) stop_inv by (auto intro!: sys_inv_ctl)
qed (use assms(2) in \<open>auto intro!: sys_inv_ctl wgt_inv_flag\<close>)

lemma wgt_reach_inv: "wgt_reach s0 s \<Longrightarrow> sys_inv K name n s0 \<Longrightarrow> sys_inv K name n s"
  by (induction rule: wgt_reach.induct) (blast intro: wgt_step_inv)+

text \<open>The start of a download.\<close>

definition new_super :: "WGTSuperBlock \<Rightarrow> bool" where
  "new_super sb \<longleftrightarrow> vBlockList sb \<noteq> [] \<and> list_all (\<lambda>b. block_size b \<noteq> 0) (vBlockList sb) \<and> sb_size sb = blocks_size (vBlockList sb) \<and> sb_done sb = 0"

lemma new_super_wf: "new_super sb \<Longrightarrow> sb_wf sb \<and> vBlockList sb \<noteq> []"
  by (cases "vBlockList sb") (auto simp: new_super_def sb_wf_def list_all_iff word_gt_0)

lemma wgt_init_inv:
  assumes "list_all new_super supers" and "m_uiOffset h = 0"
  shows "sys_inv (keys (concat (map vBlockList supers))) (fh_name h) n (wgt_init supers n disk h)"
proof -
  have "concat (map held (replicate n WGTWorkerInfo_new)) = []" by (simp add: held_def WGTWorkerInfo_new_def)
  then show ?thesis
    using assms new_super_wf
    by (auto simp: sys_inv_def wgt_init_def createWorkers_def wgt_inv_def contents_def busy_def list_all_iff
        WGTWorkerInfo_new_def worker_wf_def)
qed

end
