(* ===== verification/Wgt_Steps.thy ===== *)
theory Wgt_Steps
  imports Wgt_Safety
begin

text \<open>
  How the passes of a worker and of the controller, which \<^verbatim>\<open>Wgt_Download\<close> has as functions, are made of the steps of a
  run: a pass is what happens when no other thread acts in between.
\<close>

section \<open>A pass of a worker\<close>

text \<open>What worker \<open>i\<close> makes of the controller is reached in steps, whatever the rest of the state is.\<close>

definition can_reach :: "wgt_sys \<Rightarrow> wgt_sys \<Rightarrow> nat \<Rightarrow> wgt \<Rightarrow> bool" where
  "can_reach s0 s i c \<longleftrightarrow> wgt_reach s0 (s\<lparr>ctl := c\<rparr>) \<and> i < length (m_vWorkerList c)"

lemma stealBlocks_length: "stealBlocks c = Some (d, sb) \<Longrightarrow> length (m_vWorkerList d) = length (m_vWorkerList c)"
  by (auto simp: stealBlocks_def split: prod.splits option.splits if_splits)

lemma newTask_length: "length (m_vWorkerList (snd (snd (newTask i c)))) = length (m_vWorkerList c)"
  by (auto simp: newTask_def Let_def dest: stealBlocks_length split: list.split option.split)

lemma finished_length: "length (m_vWorkerList (workerFinishedSuperBlock i c)) = length (m_vWorkerList c)"
  by (simp add: workerFinishedSuperBlock_def Let_def split: option.split)

lemma give_back_length: "length (m_vWorkerList (takeProgressOff i c)) = length (m_vWorkerList c)"
  by (simp add: takeProgressOff_def finished_length reportNegProgress_def split: option.split)

lemma reportError_length: "length (m_vWorkerList (reportError i c)) = length (m_vWorkerList c)"
  by (simp add: reportError_def Let_def finished_length)

lemma writeData_length: "length (m_vWorkerList (snd (writeData name i d c))) = length (m_vWorkerList c)"
  by (simp add: writeData_def Let_def split: option.split prod.split)

lemma can_step:
  assumes "can_reach s0 s i c" and "wgt_step (s\<lparr>ctl := c\<rparr>) (s\<lparr>ctl := d\<rparr>)" and "length (m_vWorkerList d) = length (m_vWorkerList c)"
  shows "can_reach s0 s i d"
  using assms wgt_reach.step unfolding can_reach_def by metis

lemma can_steps:
  assumes "can_reach s0 s i c"
  shows "can_reach s0 s i (snd (snd (newTask i c)))" "can_reach s0 s i (snd (writeData name i d c))"
    "can_reach s0 s i (takeProgressOff i c)" "can_reach s0 s i (workerFinishedSuperBlock i c)"
    "can_reach s0 s i (upd_worker i (\<lambda>w. w\<lparr>m_iAttempt := n\<rparr>) c)"
    "can_reach s0 s i (upd_worker i (\<lambda>w. w\<lparr>m_bError := False\<rparr>) c)" "can_reach s0 s i (reportError i c)"
proof -
  have i: "i < length (m_vWorkerList (ctl (s\<lparr>ctl := c\<rparr>)))" using assms by (simp add: can_reach_def)
  note go = can_step [OF assms]
  show "can_reach s0 s i (snd (snd (newTask i c)))" by (rule go) (use task [OF i] newTask_length in simp_all)
  show "can_reach s0 s i (snd (writeData name i d c))" by (rule go) (use data [OF i] writeData_length in simp_all)
  show "can_reach s0 s i (takeProgressOff i c)" by (rule go) (use give_back [OF i] give_back_length in simp_all)
  show "can_reach s0 s i (workerFinishedSuperBlock i c)" by (rule go) (use finished [OF i] finished_length in simp_all)
  show "can_reach s0 s i (upd_worker i (\<lambda>w. w\<lparr>m_iAttempt := n\<rparr>) c)" by (rule go) (use attempt [OF i] in simp_all)
  show "can_reach s0 s i (upd_worker i (\<lambda>w. w\<lparr>m_bError := False\<rparr>) c)" by (rule go) (use error_seen [OF i] in simp_all)
  show "can_reach s0 s i (reportError i c)" by (rule go) (use give_up [OF i] reportError_length in simp_all)
qed

lemma attempts_update: "upd_worker i (\<lambda>w. w\<lparr>m_iAttempt := m_iAttempt w + 1\<rparr>) c = upd_worker i (\<lambda>w. w\<lparr>m_iAttempt := m_iAttempt (m_vWorkerList c ! i) + 1\<rparr>) c"
  by (simp add: upd_worker_def)

lemma can_new_url: "can_reach s0 s i c \<Longrightarrow> can_reach s0 s i (requestNewUrl i got c)"
  by (simp add: requestNewUrl_def can_steps)

lemma can_fail: "can_reach s0 s i c \<Longrightarrow> can_reach s0 s i (download_failed i e got c)"
  by (simp add: download_failed_def Let_def can_steps can_new_url attempts_update split: download_error.split)

lemma can_pieces: "can_reach s0 s i c \<Longrightarrow> can_reach s0 s i (fold (\<lambda>d c. snd (writeData name i d c)) pieces c)"
  by (induction pieces arbitrary: c) (simp_all add: can_steps)

lemma can_download: "can_reach s0 s i c \<Longrightarrow> can_reach s0 s i (doDownload name i pieces err got c)"
  by (simp add: doDownload_def Let_def can_steps can_pieces can_fail split: option.split)

lemma can_pass: "can_reach s0 s i c \<Longrightarrow> can_reach s0 s i (worker_pass name i pieces err got got2 c)"
  by (simp add: worker_pass_def Let_def can_steps can_new_url can_download)

section \<open>A pass of the controller\<close>

lemma checkBlock_workers:
  assumes "checkBlock getName b i c = (ok, d)"
  shows "length (m_vWorkerList d) = length (m_vWorkerList c) \<and> (\<forall>j. vBuffer (m_vWorkerList d ! j) = vBuffer (m_vWorkerList c ! j))"
proof -
  have "vBuffer (m_vWorkerList (upd_worker i g e) ! j) = vBuffer (m_vWorkerList e ! j)"
    if "\<And>w. vBuffer (g w) = vBuffer w" for g e j
    using that by (cases "i < length (m_vWorkerList e)") (auto simp: upd_worker_def nth_list_update list_update_beyond)
  then show ?thesis
    using assms by (auto simp: checkBlock_def Let_def reportNegProgress_def split: if_splits)
qed

lemma save_blocks_at: "save_blocks getName k i (s\<lparr>ctl_at := p\<rparr>) = (save_blocks getName k i s)\<lparr>ctl_at := p\<rparr>"
proof (induction k arbitrary: s)
  case (Suc k)
  have eqs: "s\<lparr>ctl_at := p, ctl := c\<rparr> = s\<lparr>ctl := c, ctl_at := p\<rparr>"
    "s\<lparr>ctl := c, ctl_at := p, lost := l\<rparr> = s\<lparr>ctl := c, lost := l, ctl_at := p\<rparr>"
    "s\<lparr>ctl := c, ctl_at := p, sys_disk := e, sys_handle := h, saved := l\<rparr> = s\<lparr>ctl := c, sys_disk := e, sys_handle := h, saved := l, ctl_at := p\<rparr>"
    for s :: wgt_sys and c e h l by simp_all
  show ?case
    by (auto simp: Let_def eqs Suc.IH split: list.split prod.split bool.split sum.split)
qed simp

lemma save_one:
  fixes getName :: "nat \<Rightarrow> string"
  assumes "vBuffer (m_vWorkerList (ctl s) ! i) = b # rest" and "i < length (m_vWorkerList (ctl s))"
  defines "t \<equiv> save_blocks getName (Suc 0) i s"
  shows "length (m_vWorkerList (ctl t)) = length (m_vWorkerList (ctl s))" and "vBuffer (m_vWorkerList (ctl t) ! i) = rest"
    and "save_blocks getName (Suc k) i s = (if lost t = lost s then save_blocks getName k i t else t)"
proof -
  let ?c = "upd_worker i (\<lambda>w. w\<lparr>vBuffer := rest\<rparr>) (ctl s)"
  obtain ok d where c: "checkBlock getName b i ?c = (ok, d)" by fastforce
  have d: "length (m_vWorkerList d) = length (m_vWorkerList (ctl s))" "vBuffer (m_vWorkerList d ! i) = rest"
    using checkBlock_workers [OF c] assms(2) by (simp_all add: upd_worker_def)
  have ok: "d = ?c" if ok
    using c that by (auto simp: checkBlock_def Let_def split: if_splits)
  have r: "length (m_vWorkerList ?c) = length (m_vWorkerList (ctl s))" "vBuffer (m_vWorkerList ?c ! i) = rest"
    using assms(2) by (simp_all add: upd_worker_def)
  have "length (m_vWorkerList (ctl t)) = length (m_vWorkerList (ctl s)) \<and> vBuffer (m_vWorkerList (ctl t) ! i) = rest
      \<and> save_blocks getName (Suc k) i s = (if lost t = lost s then save_blocks getName k i t else t)"
  proof (cases ok)
    case False
    then show ?thesis using assms(1) c d by (simp add: t_def)
  next
    case True
    with c ok have c: "checkBlock getName b i ?c = (True, ?c)" by simp
    show ?thesis
    proof (cases "bind_res (fh_seek (sys_handle s) (fileOffset b)) (\<lambda>h.
        fh_write (sys_disk s) h (take (unat (block_size b)) (buff b)))")
      case (Inl e)
      then show ?thesis using assms(1) c r by (simp add: t_def)
    next
      case (Inr q)
      then show ?thesis using assms(1) c r by (cases q) (simp add: t_def)
    qed
  qed
  then show "length (m_vWorkerList (ctl t)) = length (m_vWorkerList (ctl s))" "vBuffer (m_vWorkerList (ctl t) ! i) = rest"
    "save_blocks getName (Suc k) i s = (if lost t = lost s then save_blocks getName k i t else t)" by simp_all
qed

lemma save_blocks_length:
  "i < length (m_vWorkerList (ctl s)) \<Longrightarrow>
   length (m_vWorkerList (ctl (save_blocks getName k i s))) = length (m_vWorkerList (ctl s))"
proof (induction k arbitrary: s)
  case (Suc k)
  show ?case
  proof (cases "vBuffer (m_vWorkerList (ctl s) ! i)")
    case (Cons b rest)
    obtain t where t: "t = save_blocks getName (Suc 0) i s" by blast
    note one = save_one [OF Cons Suc.prems, of getName, folded t]
    have "length (m_vWorkerList (ctl (save_blocks getName k i t))) = length (m_vWorkerList (ctl s))"
      using Suc.IH [of t] one(1) Suc.prems by simp
    then show ?thesis using one(1) by (subst one(3)) simp
  qed simp
qed simp

lemma fold_save_length:
  "\<forall>i\<in>set is. i < length (m_vWorkerList (ctl s)) \<Longrightarrow>
   length (m_vWorkerList (ctl (fold (\<lambda>i s. save_blocks getName (k i s) i s) is s))) = length (m_vWorkerList (ctl s))"
  by (induction "is" arbitrary: s) (simp_all add: save_blocks_length del: save_blocks.simps)

lemma saveBuffers_length: "length (m_vWorkerList (ctl (saveBuffers getName all s))) = length (m_vWorkerList (ctl s))"
  unfolding saveBuffers_def by (rule fold_save_length) simp

text \<open>The controller alone: from its place \<open>p\<close> with the rest of the state \<open>u\<close>.\<close>

definition ctl_reach :: "wgt_sys \<Rightarrow> wgt_sys \<Rightarrow> ctl_point \<Rightarrow> bool" where
  "ctl_reach s0 u p \<longleftrightarrow> wgt_reach s0 (u\<lparr>ctl_at := p\<rparr>)"

lemma ctl_go:
  assumes "ctl_reach s0 u p" and "ctl_step getName agents (u\<lparr>ctl_at := p\<rparr>) = v\<lparr>ctl_at := q\<rparr>"
  shows "ctl_reach s0 v q"
  using assms controller [of "u\<lparr>ctl_at := p\<rparr>" getName agents] wgt_reach.step unfolding ctl_reach_def by metis

lemma ctl_save:
  "ctl_reach s0 u (AtSave i) \<Longrightarrow> i + k = length (m_vWorkerList (ctl u)) \<Longrightarrow>
   ctl_reach s0 (fold (\<lambda>i s. save_blocks getName 1 i s) [i ..< i + k] u) (AtSave (i + k))"
proof (induction k arbitrary: i u)
  case (Suc k)
  then have i: "i < length (m_vWorkerList (ctl u))" by simp
  obtain t where t: "t = save_blocks getName 1 i u" by blast
  have "ctl_reach s0 t (AtSave (Suc i))"
    by (rule ctl_go [OF Suc.prems(1), of getName True]) (use i t in \<open>simp add: ctl_step_def save_blocks_at Let_def del: save_blocks.simps\<close>)
  moreover have "Suc i + k = length (m_vWorkerList (ctl t))" using save_blocks_length [OF i, of getName 1] Suc.prems(2) t by simp
  ultimately have "ctl_reach s0 (fold (\<lambda>i s. save_blocks getName 1 i s) [Suc i ..< Suc i + k] t) (AtSave (Suc i + k))"
    by (rule Suc.IH)
  moreover have "[i ..< i + Suc k] = i # [Suc i ..< Suc i + k]" by (simp add: upt_conv_Cons)
  ultimately show ?case by (simp add: t del: save_blocks.simps)
qed simp

lemma ctl_scan:
  "ctl_reach s0 u (AtScan i) \<Longrightarrow> i + k = length (m_vWorkerList (ctl u)) \<Longrightarrow>
   ctl_reach s0 u (if list_ex (\<lambda>w. vBuffer w \<noteq> []) (drop i (m_vWorkerList (ctl u))) then AtLoop else AtScan (i + k))"
proof (induction k arbitrary: i)
  case (Suc k)
  then have i: "i < length (m_vWorkerList (ctl u))" by simp
  have go: "ctl_reach s0 u (if vBuffer (m_vWorkerList (ctl u) ! i) \<noteq> [] then AtLoop else AtScan (Suc i))"
    by (rule ctl_go [OF Suc.prems(1), of undefined True]) (use i in \<open>simp add: ctl_step_def\<close>)
  have split: "drop i (m_vWorkerList (ctl u)) = m_vWorkerList (ctl u) ! i # drop (Suc i) (m_vWorkerList (ctl u))"
    using i by (simp add: Cons_nth_drop_Suc)
  show ?case
  proof (cases "vBuffer (m_vWorkerList (ctl u) ! i) = []")
    case True
    with go have "ctl_reach s0 u (AtScan (Suc i))" by simp
    from Suc.IH [OF this] Suc.prems(2) show ?thesis unfolding split using True by (simp split: if_splits)
  next
    case False
    then show ?thesis unfolding split using go by simp
  qed
qed simp

lemma ctl_save_all:
  "ctl_reach s0 u (AtSaveAll i) \<Longrightarrow> i < length (m_vWorkerList (ctl u)) \<Longrightarrow> k = length (vBuffer (m_vWorkerList (ctl u) ! i)) \<Longrightarrow>
   ctl_reach s0 (save_blocks getName k i u) (AtSaveAll (Suc i))"
proof (induction k arbitrary: u)
  case 0
  have "ctl_reach s0 u (AtSaveAll (Suc i))" by (rule ctl_go [OF 0(1), of getName True]) (use 0 in \<open>simp add: ctl_step_def\<close>)
  then show ?case by simp
next
  case (Suc k)
  then obtain b rest where buf: "vBuffer (m_vWorkerList (ctl u) ! i) = b # rest" by (metis length_Suc_conv)
  obtain t where t: "t = save_blocks getName (Suc 0) i u" by blast
  note one = save_one [OF buf Suc.prems(2), of getName, folded t]
  have "ctl_step getName True (u\<lparr>ctl_at := AtSaveAll i\<rparr>) = t\<lparr>ctl_at := if lost t = lost u then AtSaveAll i else AtSaveAll (Suc i)\<rparr>"
    using Suc.prems(2) buf by (simp add: ctl_step_def save_blocks_at Let_def t del: save_blocks.simps)
  from ctl_go [OF Suc.prems(1) this]
  have go: "ctl_reach s0 t (if lost t = lost u then AtSaveAll i else AtSaveAll (Suc i))" .
  show ?case
  proof (cases "lost t = lost u")
    case True
    with go have "ctl_reach s0 (save_blocks getName k i t) (AtSaveAll (Suc i))"
      using Suc.IH [of t] one(1,2) Suc.prems buf by simp
    then show ?thesis using True by (subst one(3)) simp
  next
    case False
    then show ?thesis using go by (subst one(3)) simp
  qed
qed

lemma ctl_save_everything:
  "ctl_reach s0 u (AtSaveAll i) \<Longrightarrow> i + k = length (m_vWorkerList (ctl u)) \<Longrightarrow>
   ctl_reach s0 (fold (\<lambda>i s. save_blocks getName (length (vBuffer (m_vWorkerList (ctl s) ! i))) i s) [i ..< i + k] u) (AtSaveAll (i + k))"
proof (induction k arbitrary: i u)
  case (Suc k)
  then have i: "i < length (m_vWorkerList (ctl u))" by simp
  obtain t where t: "t = save_blocks getName (length (vBuffer (m_vWorkerList (ctl u) ! i))) i u" by blast
  have "ctl_reach s0 t (AtSaveAll (Suc i))" unfolding t using ctl_save_all [OF Suc.prems(1) i refl] .
  moreover have "Suc i + k = length (m_vWorkerList (ctl t))" using save_blocks_length [OF i, of getName] Suc.prems(2) t by simp
  ultimately have "ctl_reach s0 (fold (\<lambda>i s. save_blocks getName (length (vBuffer (m_vWorkerList (ctl s) ! i))) i s)
      [Suc i ..< Suc i + k] t) (AtSaveAll (Suc i + k))" by (rule Suc.IH)
  moreover have "[i ..< i + Suc k] = i # [Suc i ..< Suc i + k]" by (simp add: upt_conv_Cons)
  ultimately show ?case by (simp add: t)
qed simp

text \<open>A pass that nobody disturbs is one of the runs.\<close>

lemma run_pass_reach:
  assumes "ctl_reach s0 s AtLoop" and "run_pass getName agents s = (t, goes)"
  shows "ctl_reach s0 t (if goes then AtLoop else AtEnd)"
proof (cases "ctl_stopped (ctl s)")
  case True
  then have "ctl_reach s0 s AtEnd" by (intro ctl_go [OF assms(1), of getName agents]) (simp add: ctl_step_def)
  then show ?thesis using True assms(2) by (simp add: run_pass_def)
next
  case False
  let ?n = "length (m_vWorkerList (ctl s))" and ?u = "saveBuffers getName False s"
  have "ctl_reach s0 s (AtSave 0)"
    by (rule ctl_go [OF assms(1), of getName agents]) (use False in \<open>simp add: ctl_step_def\<close>)
  from ctl_save [OF this, of ?n getName] have "ctl_reach s0 ?u (AtSave ?n)"
    by (simp add: saveBuffers_def del: save_blocks.simps)
  then have "ctl_reach s0 ?u (AtScan 0)"
    by (rule ctl_go [where getName = getName and agents = agents]) (simp add: ctl_step_def saveBuffers_length)
  from ctl_scan [OF this, of ?n]
  have scan: "ctl_reach s0 ?u (if isQueuedBlocks (ctl ?u) then AtLoop else AtScan ?n)"
    by (simp add: isQueuedBlocks_def saveBuffers_length split: if_splits)
  show ?thesis
  proof (cases "isQueuedBlocks (ctl ?u)")
    case True
    then show ?thesis using scan False assms(2) by (simp add: run_pass_def)
  next
    case queue: False
    with scan have "ctl_reach s0 ?u (AtScan ?n)" by simp
    then have "ctl_reach s0 ?u AtCount"
      by (rule ctl_go [where getName = getName and agents = agents]) (simp add: ctl_step_def saveBuffers_length)
    then have count: "ctl_reach s0 ?u (if m_iRunningWorkers (ctl ?u) = 0 then AtEnd else AtAgents)"
      by (rule ctl_go [where getName = getName and agents = agents]) (simp add: ctl_step_def)
    show ?thesis
    proof (cases "m_iRunningWorkers (ctl ?u) = 0")
      case True
      then show ?thesis using count queue False assms(2) by (simp add: run_pass_def)
    next
      case run: False
      with count have "ctl_reach s0 ?u AtAgents" by simp
      then have ask: "ctl_reach s0 ?u (if agents then AtLoop else AtSaveAll 0)"
        by (rule ctl_go [where getName = getName and agents = agents]) (simp add: ctl_step_def)
      have "ctl_reach s0 (saveBuffers getName True ?u) AtEnd" if "\<not> agents"
      proof -
        have "ctl_reach s0 (saveBuffers getName True ?u) (AtSaveAll ?n)"
          using ctl_save_everything [of s0 ?u 0 ?n getName] ask that
          by (simp add: saveBuffers_def [of _ True] saveBuffers_length)
        then show ?thesis
          by (rule ctl_go [where getName = getName and agents = agents]) (simp add: ctl_step_def saveBuffers_length)
      qed
      then show ?thesis using ask run queue False assms(2) by (cases agents) (auto simp: run_pass_def Let_def)
    qed
  qed
qed

end
