(* ===== verification/Wgt_Complete.thy ===== *)
theory Wgt_Complete
  imports Wgt_Steps
begin

text \<open>
  What a download that ran to its end has on the disk, what happens when it is stopped or a write fails, and that
  the blocks do not depend on how the connection cuts the data.
\<close>

unbundle bit_operations_syntax

section \<open>Saving everything\<close>

definition all_blocks :: "WGTSuperBlock list \<Rightarrow> WGTBlock list" where
  "all_blocks supers = concat (map vBlockList supers)"

definition empty_from :: "nat \<Rightarrow> nat \<Rightarrow> wgt \<Rightarrow> bool" where
  "empty_from a e c \<longleftrightarrow> (\<forall>j. a \<le> j \<longrightarrow> j < e \<longrightarrow> vBuffer (m_vWorkerList c ! j) = [])"

lemma save_blocks_lost: "\<exists>l. lost (save_blocks getName k i s) = lost s @ l"
proof (induction k arbitrary: s)
  case (Suc k)
  have trans: "lost t = lost s @ l \<Longrightarrow> \<exists>l. lost (save_blocks getName k i t) = lost s @ l" for t l
    using Suc.IH [of t] by (metis append_assoc)
  show ?case
    by (auto split: list.splits prod.splits bool.splits sum.splits simp: Let_def intro!: trans)
qed simp

text \<open>A loop of \<open>k\<close> turns that loses nothing takes \<open>k\<close> blocks off the buffer, and no other buffer changes.\<close>

lemma save_blocks_buffers:
  "i < length (m_vWorkerList (ctl s)) \<Longrightarrow> lost (save_blocks getName k i s) = [] \<Longrightarrow>
   length (m_vWorkerList (ctl (save_blocks getName k i s))) = length (m_vWorkerList (ctl s))
   \<and> (\<forall>j. vBuffer (m_vWorkerList (ctl (save_blocks getName k i s)) ! j)
         = (if j = i then drop k (vBuffer (m_vWorkerList (ctl s) ! i)) else vBuffer (m_vWorkerList (ctl s) ! j)))"
proof (induction k arbitrary: s)
  case (Suc k)
  show ?case
  proof (cases "vBuffer (m_vWorkerList (ctl s) ! i)")
    case Nil
    then show ?thesis by auto
  next
    case (Cons b rest)
    let ?c = "upd_worker i (\<lambda>w. w\<lparr>vBuffer := rest\<rparr>) (ctl s)"
    have c: "length (m_vWorkerList ?c) = length (m_vWorkerList (ctl s))"
      "\<forall>j. vBuffer (m_vWorkerList ?c ! j) = (if j = i then rest else vBuffer (m_vWorkerList (ctl s) ! j))"
      using Suc.prems(1) by (auto simp: upd_worker_def nth_list_update)
    have goon: ?thesis
      if t: "save_blocks getName (Suc k) i s = save_blocks getName k i t" "length (m_vWorkerList (ctl t)) = length (m_vWorkerList ?c)"
        "\<forall>j. vBuffer (m_vWorkerList (ctl t) ! j) = vBuffer (m_vWorkerList ?c ! j)" for t
      using Suc.IH [of t] Suc.prems c t Cons by auto
    show ?thesis
    proof (cases "checkBlock getName b i ?c")
      case (Pair ok d)
      have d: "length (m_vWorkerList d) = length (m_vWorkerList ?c)" "\<forall>j. vBuffer (m_vWorkerList d ! j) = vBuffer (m_vWorkerList ?c ! j)"
        using checkBlock_workers [OF Pair] by auto
      show ?thesis
      proof (cases ok)
        case False
        then show ?thesis using goon [of "s\<lparr>ctl := d\<rparr>"] Cons Pair d by simp
      next
        case True
        then have "d = ?c" using Pair by (auto simp: checkBlock_def Let_def split: if_splits)
        then have ok: "checkBlock getName b i ?c = (True, ?c)" using Pair True by simp
        show ?thesis
        proof (cases "bind_res (fh_seek (sys_handle s) (fileOffset b)) (\<lambda>h.
            fh_write (sys_disk s) h (take (unat (block_size b)) (buff b)))")
          case (Inl e)
          then show ?thesis using Suc.prems(2) Cons ok by simp
        next
          case (Inr r)
          then show ?thesis
            using goon [of "s\<lparr>ctl := ?c, sys_disk := fst r, sys_handle := snd r, saved := saved s @ [b]\<rparr>"] Cons ok
            by (cases r) simp
        qed
      qed
    qed
  qed
qed simp

lemma saveBuffers_fold:
  "lost (fold (\<lambda>i s. save_blocks getName (if all then length (vBuffer (m_vWorkerList (ctl s) ! i)) else 1) i s) is s) = [] \<Longrightarrow>
   \<forall>i\<in>set is. i < length (m_vWorkerList (ctl s)) \<Longrightarrow>
   (let t = fold (\<lambda>i s. save_blocks getName (if all then length (vBuffer (m_vWorkerList (ctl s) ! i)) else 1) i s) is s in
    length (m_vWorkerList (ctl t)) = length (m_vWorkerList (ctl s)) \<and>
    (all \<longrightarrow> (\<forall>j. j \<in> set is \<or> vBuffer (m_vWorkerList (ctl s) ! j) = [] \<longrightarrow> vBuffer (m_vWorkerList (ctl t) ! j) = [])))"
proof (induction "is" arbitrary: s)
  case (Cons i "is")
  let ?k = "if all then length (vBuffer (m_vWorkerList (ctl s) ! i)) else 1"
  let ?s = "save_blocks getName ?k i s"
  have "\<exists>l. lost (fold (\<lambda>i s. save_blocks getName (if all then length (vBuffer (m_vWorkerList (ctl s) ! i)) else 1) i s) is u)
      = lost u @ l" for u
  proof (induction "is" arbitrary: u)
    case (Cons i "is")
    then show ?case using save_blocks_lost by (metis (no_types, lifting) append_assoc fold_simps(2))
  qed simp
  then have "lost ?s = []" using Cons.prems(1) by (metis (no_types, lifting) Nil_is_append_conv fold_simps(2))
  from save_blocks_buffers [OF _ this] Cons.prems(2)
  have s: "length (m_vWorkerList (ctl ?s)) = length (m_vWorkerList (ctl s))"
    "\<forall>j. vBuffer (m_vWorkerList (ctl ?s) ! j)
       = (if j = i then drop ?k (vBuffer (m_vWorkerList (ctl s) ! i)) else vBuffer (m_vWorkerList (ctl s) ! j))"
    by auto
  then show ?case using Cons.IH [of ?s] Cons.prems by (auto simp: Let_def)
qed simp

lemma saveBuffers_all_empty:
  "lost (saveBuffers getName True s) = [] \<Longrightarrow> \<not> isQueuedBlocks (ctl (saveBuffers getName True s))"
  using saveBuffers_fold [of getName True "[0 ..< length (m_vWorkerList (ctl s))]" s]
  by (auto simp: saveBuffers_def isQueuedBlocks_def list_ex_iff in_set_conv_nth Let_def)

text \<open>The loop ends by itself only with nothing left in a buffer.\<close>

lemma run_pass_ends:
  assumes "run_pass getName agents s = (t, False)" and "\<not> ctl_stopped (ctl s)" and "lost t = []"
  shows "\<not> isQueuedBlocks (ctl t)"
  using assms saveBuffers_all_empty by (auto simp: run_pass_def Let_def split: if_splits)

section \<open>The end of a download\<close>

lemma nonempty_lists: "\<forall>x\<in>set xs. f x \<noteq> [] \<Longrightarrow> length xs \<le> length (concat (map f xs))"
proof (induction xs)
  case (Cons x xs)
  then show ?case by (cases "f x") auto
qed simp

lemma no_work_no_blocks:
  assumes "wgt_inv K s" and "m_iAvailbleWork s = 0" and "\<not> isQueuedBlocks s"
    and "size K + length (m_vWorkerList s) < 2 ^ 32"
  shows "K = {#}"
proof -
  have "length (m_vSuperBlockList s) \<le> length (concat (map vBlockList (m_vSuperBlockList s)))"
    using assms(1) by (intro nonempty_lists) (simp add: wgt_inv_def)
  moreover have "size K = length (contents s)" using assms(1) by (auto simp: wgt_inv_def keys_def)
  ultimately have "length (m_vSuperBlockList s) \<le> size K" by (simp add: contents_def)
  moreover have "busy s \<le> length (m_vWorkerList s)" by (simp add: busy_def)
  ultimately have "length (m_vSuperBlockList s) + busy s < 2 ^ 32" (is "?n < _") using assms(4) by linarith
  note lt = this
  have "(of_nat (length (m_vSuperBlockList s) + busy s) :: u32) = 0" using assms(1,2) by (simp add: wgt_inv_def)
  then have "length (m_vSuperBlockList s) + busy s = 0"
    using lt nat_dvd_not_less [of ?n "2 ^ 32"] by (simp only: word_of_nat_eq_0_iff) auto
  then have "m_vSuperBlockList s = []" and "\<forall>w\<in>set (m_vWorkerList s). curBlock w = None"
    by (simp_all add: busy_def filter_empty_conv)
  moreover have "\<forall>w\<in>set (m_vWorkerList s). vBuffer w = []" using assms(3) by (simp add: isQueuedBlocks_def list_ex_iff)
  ultimately have "contents s = []" by (simp add: contents_def held_def)
  then show "K = {#}" using assms(1) by (simp add: wgt_inv_def)
qed

text \<open>C1: When no work is left, no finished block waits in a buffer and no write failed, every block of the list is on the
  disk: at the place of the block in the archive stand as many bytes as the block has, and they have its CRC
  (where it has one). This holds at every point of every run, however the steps of the workers, the controller and the
  user alternate, with any number of workers, any providers and connection errors, any pieces of data received, bad
  data included. That the buffers are empty at the end is what the code does not make sure of.\<close>

theorem finished_download_complete:
  assumes "list_all new_super supers" and "apart (keys (all_blocks supers))"
    and "length (all_blocks supers) + n < 2 ^ 32" and "m_uiOffset h = 0"
    and "wgt_reach (wgt_init supers n disk h) s"
    and "m_iAvailbleWork (ctl s) = 0" and "\<not> isQueuedBlocks (ctl s)" and "lost s = []"
    and "b \<in> set (all_blocks supers)"
  shows "\<exists>d. get_bytes (fh_content (sys_disk s) (sys_handle s)) (unat (fileOffset b)) (unat (block_size b)) = Some d
    \<and> (block_crc b = 0 \<or> CRC32 d = block_crc b)"
proof -
  let ?K = "keys (all_blocks supers)"
  have t: "sys_inv ?K (fh_name h) n s"
    unfolding all_blocks_def by (rule wgt_reach_inv [OF assms(5)]) (rule wgt_init_inv [OF assms(1,4)])
  then obtain K' where K': "wgt_inv K' (ctl s)" "?K = K' + keys (saved s)" using assms(8) by (auto simp: sys_inv_def)
  have "size ?K = length (all_blocks supers)" by (simp add: keys_def)
  then have "size K' + length (m_vWorkerList (ctl s)) < 2 ^ 32" using K'(2) t assms(3) by (simp add: sys_inv_def)
  from no_work_no_blocks [OF K'(1) assms(6,7) this]
  have "key b \<in># keys (saved s)" using K'(2) key_in_keys [OF assms(9)] by simp
  then obtain a where a: "a \<in> set (saved s)" "key a = key b" by (auto simp: keys_def)
  have same: "fileOffset a = fileOffset b" "block_size a = block_size b" "block_crc a = block_crc b"
    using key_fields [of a] key_fields [of b] a(2) by simp_all
  have "full a" "block_good a" "on_disk (fh_content (sys_disk s) (sys_handle s)) a"
    using t a(1) assms(2) by (auto simp: sys_inv_def)
  then show ?thesis unfolding same [symmetric] by (auto simp: on_disk_def block_good_def full_def)
qed

definition demo_block :: WGTBlock where
  "demo_block = WGTBlock_new\<lparr>block_size := 2\<rparr>"

definition demo_super :: WGTSuperBlock where
  "demo_super = \<lparr>sb_offset = 0, sb_size = 2, sb_done = 0, vBlockList = [demo_block]\<rparr>"

definition demo_handle :: file_handle where
  "demo_handle = \<lparr>m_bIsOpen = True, fh_name = ''a'', fh_mode = FILE_WRITE, m_uiOffset = 0, fh_pos = 0\<rparr>"

definition demo_start :: wgt_sys where
  "demo_start = wgt_init [demo_super] 1 (Map.empty(''a'' \<mapsto> [])) demo_handle"

definition demo_pass :: "bytes list \<Rightarrow> wgt_sys \<Rightarrow> wgt_sys" where
  "demo_pass pieces s = s\<lparr>ctl := worker_pass ''p'' 0 pieces None True True (ctl s)\<rparr>"

lemma ctl_at_same: "ctl_at s = p \<Longrightarrow> s\<lparr>ctl_at := p\<rparr> = s" for s :: wgt_sys
  by (cases s) simp

lemma ctl_first: "s\<lparr>ctl_at := p, ctl := c\<rparr> = s\<lparr>ctl := c, ctl_at := p\<rparr>" for s :: wgt_sys
  by simp

lemma demo_pass_step:
  "ctl_reach s0 s AtLoop \<Longrightarrow> 0 < length (m_vWorkerList (ctl s)) \<Longrightarrow> ctl_reach s0 (demo_pass pieces s) AtLoop"
  using can_pass [of s0 "s\<lparr>ctl_at := AtLoop\<rparr>" 0 "ctl s"] by (simp add: demo_pass_def can_reach_def ctl_reach_def ctl_first)

definition demo_run :: wgt_sys where
  "demo_run = demo_pass [] (demo_pass [[7], [8]] demo_start)"

lemma demo_reach: "ctl_reach demo_start demo_run AtLoop"
proof -
  have "ctl_reach demo_start demo_start AtLoop"
    by (simp add: ctl_reach_def demo_start_def wgt_init_def wgt_reach.start)
  then have "ctl_reach demo_start (demo_pass [[7], [8]] demo_start) AtLoop" by (rule demo_pass_step) code_simp
  then show ?thesis unfolding demo_run_def by (rule demo_pass_step) code_simp
qed

lemma demo_run_ctl: "ctl demo_run =
   \<lparr>m_iAvailbleWork = 0, m_iRunningWorkers = 0,
    m_vWorkerList = [WGTWorkerInfo_new\<lparr>worker_status := SF_STATUS_STOP,
      vBuffer := [demo_block\<lparr>buff := [7, 8], dlsize := 2, provider := ''p''\<rparr>]\<rparr>],
    m_vSuperBlockList = [], ctl_stopped = False, ctl_paused = False\<rparr>"
  by code_simp

lemma demo_run_rest: "lost demo_run = []" "sys_handle demo_run = demo_handle" "sys_disk demo_run = Map.empty(''a'' \<mapsto> [])"
  by (simp_all add: demo_run_def demo_pass_def demo_start_def wgt_init_def)

lemma demo_run_reach: "wgt_reach demo_start demo_run"
proof -
  have "ctl_at demo_run = AtLoop" by (simp add: demo_run_def demo_pass_def demo_start_def wgt_init_def)
  then show ?thesis using demo_reach by (simp add: ctl_reach_def ctl_at_same)
qed

definition demo_end :: wgt_sys where
  "demo_end = fst (run_pass (\<lambda>_. ''p'') True demo_run)\<lparr>ctl_at := AtEnd\<rparr>"

lemma demo_run_ends: "(\<lambda>(t, more). \<not> more \<and> m_iAvailbleWork (ctl t) = 0 \<and> lost t = []) (run_pass (\<lambda>_. ''p'') True demo_run)"
  by (simp add: run_pass_def demo_run_ctl demo_run_rest saveBuffers_def checkBlock_def block_good_def
      demo_block_def WGTBlock_new_def upd_worker_def fh_seek_def fh_write_def demo_handle_def isQueuedBlocks_def)

lemma demo_end_facts: "wgt_reach demo_start demo_end" "m_iAvailbleWork (ctl demo_end) = 0" "lost demo_end = []"
  "\<not> isQueuedBlocks (ctl demo_end)"
proof -
  obtain t where t: "run_pass (\<lambda>_. ''p'') True demo_run = (t, False)" "m_iAvailbleWork (ctl t) = 0" "lost t = []"
    using demo_run_ends by (auto split: prod.splits)
  then show "m_iAvailbleWork (ctl demo_end) = 0" "lost demo_end = []" by (simp_all add: demo_end_def)
  show "wgt_reach demo_start demo_end" using run_pass_reach [OF demo_reach t(1)] by (simp add: ctl_reach_def demo_end_def t(1))
  have "\<not> ctl_stopped (ctl demo_run)" by (simp add: demo_run_ctl)
  then show "\<not> isQueuedBlocks (ctl demo_end)" using run_pass_ends [OF t(1) _ t(3)] by (simp add: demo_end_def t(1))
qed

theorem finished_download_complete_witness:
  "\<exists>d. get_bytes (fh_content (sys_disk demo_end) (sys_handle demo_end)) 0 2 = Some d"
proof -
  have "list_all new_super [demo_super]" by code_simp
  moreover have "apart (keys (all_blocks [demo_super]))"
    by (simp add: apart_def keys_def all_blocks_def demo_super_def)
  moreover have "length (all_blocks [demo_super]) + 1 < 2 ^ 32" "demo_block \<in> set (all_blocks [demo_super])"
    by (simp_all add: all_blocks_def demo_super_def)
  ultimately show ?thesis
    using finished_download_complete [of "[demo_super]" 1 demo_handle "Map.empty(''a'' \<mapsto> [])" demo_end demo_block]
      demo_end_facts by (auto simp: demo_start_def demo_handle_def demo_block_def WGTBlock_new_def)
qed

section \<open>No block is lost or invented\<close>

text \<open>C2: In every state a download can reach, the blocks waiting, held by workers, buffered, saved and lost in a failed
  write together are exactly the blocks of its list, each once; the work counter counts the super blocks that wait
  or are being fetched; and only full blocks that pass the check are written.\<close>

theorem download_keeps_blocks:
  assumes "list_all new_super supers" and "m_uiOffset h = 0" and "wgt_reach (wgt_init supers n disk h) s"
  shows "keys (contents (ctl s)) + keys (saved s) + keys (lost s) = keys (all_blocks supers)
    \<and> m_iAvailbleWork (ctl s) = of_nat (length (m_vSuperBlockList (ctl s)) + busy (ctl s))
    \<and> (\<forall>b\<in>set (saved s). full b \<and> block_good b)"
proof -
  have "sys_inv (keys (all_blocks supers)) (fh_name h) n s"
    unfolding all_blocks_def by (rule wgt_reach_inv [OF assms(3)]) (rule wgt_init_inv [OF assms(1,2)])
  then show ?thesis by (auto simp: sys_inv_def wgt_inv_def)
qed

theorem download_keeps_blocks_witness:
  "keys (contents (ctl demo_run)) + keys (saved demo_run) + keys (lost demo_run) = keys (all_blocks [demo_super])"
proof -
  have "list_all new_super [demo_super]" by code_simp
  then show ?thesis
    using download_keeps_blocks [of "[demo_super]" demo_handle 1 "Map.empty(''a'' \<mapsto> [])" demo_run] demo_run_reach
    by (simp add: demo_start_def demo_handle_def)
qed

section \<open>Pieces of data\<close>

lemma write_blocks_Nil [simp]: "write_blocks name [] sb = ([], sb)"
  by (simp add: write_blocks.simps)

lemma write_blocks_none [simp]: "vBlockList sb = [] \<Longrightarrow> write_blocks name d sb = ([], sb)"
  by (simp add: write_blocks.simps)

text \<open>One turn of the recursion, for a super block that starts with \<open>b\<close>.\<close>

definition so_far :: "WGTSuperBlock \<Rightarrow> WGTBlock \<Rightarrow> bytes" where
  "so_far sb b = (if sb_done sb = 0 then [] else buff b)"

definition missing :: "WGTSuperBlock \<Rightarrow> WGTBlock \<Rightarrow> nat" where
  "missing sb b = unat (block_size b) - unat (sb_done sb)"

definition after_block :: "WGTSuperBlock \<Rightarrow> WGTSuperBlock" where
  "after_block sb =
     sb\<lparr>vBlockList := tl (vBlockList sb), sb_done := 0,
        sb_offset := sb_offset sb + ucast (block_size (vBlockList sb ! 0)),
        sb_size := sb_size sb - ucast (block_size (vBlockList sb ! 0))\<rparr>"

lemma write_blocks_Cons:
  assumes "sb_wf sb" and "vBlockList sb = b # rest"
  shows "length d \<ge> missing sb b \<Longrightarrow> write_blocks name d sb =
      (case write_blocks name (drop (missing sb b) d) (after_block sb) of (f, t) \<Rightarrow>
        (b\<lparr>buff := so_far sb b @ take (missing sb b) d, dlsize := block_size b, provider := name\<rparr> # f, t))"
    and "d \<noteq> [] \<Longrightarrow> length d < missing sb b \<Longrightarrow> write_blocks name d sb =
      ([], sb\<lparr>vBlockList := b\<lparr>buff := so_far sb b @ d\<rparr> # rest, sb_done := sb_done sb + of_nat (length d)\<rparr>)"
    and "0 < missing sb b"
proof -
  have "sb_done sb < ucast (block_size b)" using assms by (simp add: sb_wf_def)
  then have m: "unat (ucast (block_size b) - sb_done sb) = missing sb b" and pos: "0 < missing sb b"
    by (simp_all add: missing_def unat_sub word_less_nat_alt order_less_imp_le)
  show "0 < missing sb b" by (rule pos)
  show "length d \<ge> missing sb b \<Longrightarrow> write_blocks name d sb =
      (case write_blocks name (drop (missing sb b) d) (after_block sb) of (f, t) \<Rightarrow>
        (b\<lparr>buff := so_far sb b @ take (missing sb b) d, dlsize := block_size b, provider := name\<rparr> # f, t))"
    using pos assms(2)
    by (subst write_blocks.simps) (auto simp: m so_far_def after_block_def Let_def split: prod.splits)
  show "d \<noteq> [] \<Longrightarrow> length d < missing sb b \<Longrightarrow> write_blocks name d sb =
      ([], sb\<lparr>vBlockList := b\<lparr>buff := so_far sb b @ d\<rparr> # rest, sb_done := sb_done sb + of_nat (length d)\<rparr>)"
    using assms(2) by (subst write_blocks.simps) (auto simp: m so_far_def Let_def)
qed

text \<open>Writing two pieces is writing them as one.\<close>

lemma after_block_wf: "sb_wf sb \<Longrightarrow> vBlockList sb \<noteq> [] \<Longrightarrow> sb_wf (after_block sb)"
  by (cases "vBlockList sb") (auto simp: sb_wf_def after_block_def word_gt_0 split: list.splits)

lemma write_blocks_append:
  "sb_wf sb \<Longrightarrow> write_blocks name (d1 @ d2) sb =
     (case write_blocks name d1 sb of (f1, sb1) \<Rightarrow> case write_blocks name d2 sb1 of (f2, sb2) \<Rightarrow> (f1 @ f2, sb2))"
proof (induction "length (vBlockList sb)" arbitrary: d1 sb)
  case 0
  then show ?case by simp
next
  case (Suc n)
  then obtain b rest where bl: "vBlockList sb = b # rest" by (cases "vBlockList sb") auto
  note turn = write_blocks_Cons [OF Suc.prems bl]
  consider "d1 = []" | "length d1 \<ge> missing sb b" | "d1 \<noteq> []" "length d1 < missing sb b" by linarith
  then show ?case
  proof cases
    case 2
    have "n = length (vBlockList (after_block sb))" using Suc.hyps(2) bl by (simp add: after_block_def)
    from Suc.hyps(1) [OF this after_block_wf, of "drop (missing sb b) d1"] show ?thesis
      using 2 turn(1) [of d1] turn(1) [of "d1 @ d2"] bl Suc.prems by (simp split: prod.splits)
  next
    case 3
    let ?sb = "sb\<lparr>vBlockList := b\<lparr>buff := so_far sb b @ d1\<rparr> # rest, sb_done := sb_done sb + of_nat (length d1)\<rparr>"
    have w: "write_blocks name d1 sb = ([], ?sb)" by (rule turn(2) [OF 3])
    have wf: "sb_wf ?sb" using write_blocks_wf [OF Suc.prems w] by simp
    note turn' = write_blocks_Cons [OF wf, of "b\<lparr>buff := so_far sb b @ d1\<rparr>" rest, simplified]
    have "unat (sb_done sb) + length d1 < 2 ^ 32"
      using 3(2) unsigned_less [of "block_size b", where ?'a = nat] by (simp add: missing_def)
    then have dn: "unat (sb_done ?sb) = unat (sb_done sb) + length d1"
      by (simp add: unat_word_ariths unat_of_nat take_bit_nat_eq_self)
    have "sb_done ?sb \<noteq> 0" using 3(1) dn by (metis add_is_0 length_0_conv unsigned_0)
    then have m: "missing ?sb (b\<lparr>buff := so_far sb b @ d1\<rparr>) = missing sb b - length d1"
      "so_far ?sb (b\<lparr>buff := so_far sb b @ d1\<rparr>) = so_far sb b @ d1"
      using dn by (simp_all add: missing_def so_far_def)
    have a: "after_block ?sb = after_block sb" using bl by (simp add: after_block_def)
    consider "d2 = []" | "length (d1 @ d2) \<ge> missing sb b" | "d2 \<noteq> []" "length (d1 @ d2) < missing sb b" by linarith
    then show ?thesis
    proof cases
      case 1
      then show ?thesis using w by simp
    next
      case 2
      then have "write_blocks name d2 ?sb = write_blocks name (d1 @ d2) sb"
        using turn(1) [of "d1 @ d2" name] turn'(1) [of d2 name] m a 3(2) by (simp split: prod.splits)
      then show ?thesis using w by (simp split: prod.splits)
    next
      case 3
      then show ?thesis using turn(2) [of "d1 @ d2" name] turn'(2) [of d2 name] m w by (simp add: ac_simps)
    qed
  qed simp
qed

text \<open>What the connection delivers in pieces, and what each block should get of it.\<close>

definition write_pieces :: "string \<Rightarrow> bytes list \<Rightarrow> WGTSuperBlock \<Rightarrow> WGTBlock list \<times> WGTSuperBlock" where
  "write_pieces name pieces sb =
     fold (\<lambda>d (f, sb). case write_blocks name d sb of (g, sb) \<Rightarrow> (f @ g, sb)) pieces ([], sb)"

primrec deliver :: "string \<Rightarrow> WGTBlock list \<Rightarrow> bytes \<Rightarrow> WGTBlock list" where
  "deliver name [] d = []"
| "deliver name (b # bs) d =
     b\<lparr>buff := take (unat (block_size b)) d, dlsize := block_size b, provider := name\<rparr>
     # deliver name bs (drop (unat (block_size b)) d)"

definition total_size :: "WGTBlock list \<Rightarrow> nat" where
  "total_size bs = sum_list (map (\<lambda>b. unat (block_size b)) bs)"

lemma write_pieces_concat: "sb_wf sb \<Longrightarrow> write_pieces name pieces sb = write_blocks name (concat pieces) sb"
proof -
  have "sb_wf sb \<Longrightarrow> fold (\<lambda>d (f, sb). case write_blocks name d sb of (g, sb) \<Rightarrow> (f @ g, sb)) pieces (f, sb)
      = (case write_blocks name (concat pieces) sb of (g, t) \<Rightarrow> (f @ g, t))" for f
  proof (induction pieces arbitrary: f sb)
    case (Cons d ds)
    obtain g t where w: "write_blocks name d sb = (g, t)" by fastforce
    then have "sb_wf t" using write_blocks_wf [OF Cons.prems w] by simp
    then show ?case using Cons.IH [of t "f @ g"] w write_blocks_append [OF Cons.prems, of name d "concat ds"]
      by (simp split: prod.splits)
  qed simp
  from this [of "[]"] show "sb_wf sb \<Longrightarrow> ?thesis" by (simp add: write_pieces_def)
qed

lemma write_blocks_exact:
  "sb_wf sb \<Longrightarrow> sb_done sb = 0 \<Longrightarrow> length d = total_size (vBlockList sb) \<Longrightarrow>
   write_blocks name d sb = (deliver name (vBlockList sb) d,
     sb\<lparr>sb_offset := sb_offset sb + sb_size sb, sb_size := 0, vBlockList := []\<rparr>)"
proof (induction "length (vBlockList sb)" arbitrary: d sb)
  case 0
  then show ?case by (simp add: sb_wf_def)
next
  case (Suc n)
  then obtain b rest where bl: "vBlockList sb = b # rest" by (cases "vBlockList sb") auto
  have m: "missing sb b = unat (block_size b)" "so_far sb b = []" using Suc.prems(2) by (simp_all add: missing_def so_far_def)
  have after: "n = length (vBlockList (after_block sb))" "sb_done (after_block sb) = 0" "vBlockList (after_block sb) = rest"
    using Suc.hyps(2) bl by (simp_all add: after_block_def)
  have "sb_size sb = ucast (block_size b) + blocks_size rest" using Suc.prems(1) bl by (simp add: sb_wf_def)
  then have sizes: "sb_offset (after_block sb) + sb_size (after_block sb) = sb_offset sb + sb_size sb"
    using bl by (simp add: after_block_def)
  have "length (drop (missing sb b) d) = total_size (vBlockList (after_block sb))"
    using Suc.prems(3) bl m by (simp add: total_size_def after_block_def)
  from Suc.hyps(1) [OF after(1) after_block_wf [OF Suc.prems(1)] after(2) this] bl
  have "write_blocks name (drop (missing sb b) d) (after_block sb) = (deliver name rest (drop (missing sb b) d),
      (after_block sb)\<lparr>sb_offset := sb_offset sb + sb_size sb, sb_size := 0, vBlockList := []\<rparr>)"
    using sizes after(3) by simp
  moreover have "length d \<ge> missing sb b" using Suc.prems(3) bl m by (simp add: total_size_def)
  ultimately show ?case
    using write_blocks_Cons(1) [OF Suc.prems(1) bl, of d name] bl m Suc.prems(2) by (simp add: after_block_def)
qed

text \<open>C34: However a connection cuts the bytes of a super block into pieces, every block of it gets exactly its bytes,
  in order, and the super block ends empty, with nothing left to fetch.\<close>

theorem super_block_delivered:
  assumes "new_super sb" and "length (concat pieces) = total_size (vBlockList sb)"
  shows "write_pieces name pieces sb = (deliver name (vBlockList sb) (concat pieces),
    sb\<lparr>sb_offset := sb_offset sb + sb_size sb, sb_size := 0, vBlockList := []\<rparr>)"
  using assms new_super_wf write_pieces_concat write_blocks_exact by (simp add: new_super_def)

theorem super_block_delivered_witness:
  "write_pieces ''p'' [[7], [8]] demo_super
     = ([demo_block\<lparr>buff := [7, 8], dlsize := 2, provider := ''p''\<rparr>], demo_super\<lparr>sb_offset := 2, sb_size := 0, vBlockList := []\<rparr>)"
proof -
  have "new_super demo_super" by code_simp
  from super_block_delivered [OF this, of "[[7], [8]]" "''p''"] show ?thesis
    by (simp add: demo_super_def demo_block_def WGTBlock_new_def total_size_def)
qed

section \<open>Downloads that are marked complete too early\<close>

text \<open>One worker that receives the bytes of the only super block in one piece, and then finds nothing more to do.\<close>

definition one_worker :: "WGTSuperBlock list \<Rightarrow> u32 \<Rightarrow> u32 \<Rightarrow> WGTWorkerInfo \<Rightarrow> wgt" where
  "one_worker supers avail running w =
     \<lparr>m_iAvailbleWork = avail, m_iRunningWorkers = running, m_vWorkerList = [w], m_vSuperBlockList = supers,
      ctl_stopped = False, ctl_paused = False\<rparr>"

lemma one_received:
  assumes "new_super sb" and "length (d :: bytes) = total_size (vBlockList sb)"
  shows "worker_pass [] 0 [d] None True True (one_worker [sb] 1 1 WGTWorkerInfo_new)
    = one_worker [] 0 1 (WGTWorkerInfo_new\<lparr>vBuffer := deliver [] (vBlockList sb) d\<rparr>)"
proof -
  have sb: "vBlockList sb \<noteq> []" "sb_done sb = 0" "sb_wf sb" using assms(1) new_super_wf by (auto simp: new_super_def)
  have "d \<noteq> []"
    using assms sb(1) by (cases "vBlockList sb") (auto simp: total_size_def new_super_def unat_eq_zero)
  then show ?thesis
    using write_blocks_exact [OF sb(3,2) assms(2), of "[]"] sb(1)
    by (simp add: worker_pass_def getStatus_def one_worker_def WGTWorkerInfo_new_def doDownload_def newTask_def
        upd_worker_def setCurrentBlock_def writeData_def workerFinishedSuperBlock_def resetCurrentBlock_def Let_def)
qed

lemma one_stops:
  "worker_pass [] 0 [] None True True (one_worker [] 0 1 (WGTWorkerInfo_new\<lparr>vBuffer := bs\<rparr>))
    = one_worker [] 0 0 (WGTWorkerInfo_new\<lparr>vBuffer := bs, worker_status := SF_STATUS_STOP\<rparr>)"
  by (simp add: worker_pass_def getStatus_def one_worker_def WGTWorkerInfo_new_def doDownload_def newTask_def
      upd_worker_def stealBlocks_def getCurrentBlockSize_def Let_def)

lemma one_start: "wgt_init [sb] (Suc 0) disk h =
    \<lparr>ctl = one_worker [sb] 1 1 WGTWorkerInfo_new, sys_disk = disk, sys_handle = h, saved = [], lost = [], ctl_at = AtLoop\<rparr>"
  by (simp add: wgt_init_def createWorkers_def one_worker_def)

text \<open>C36: A download that is stopped after its last block was received, but before the controller saved it, is marked
  complete though nothing was written.\<close>

theorem stopped_download_marked_complete:
  assumes "new_super sb" and "length (d :: bytes) = total_size (vBlockList sb)"
  shows "\<exists>s. wgt_reach (wgt_init [sb] 1 disk h) s \<and> run_pass getName agents s = (s, False) \<and> saved s = []
    \<and> sys_disk s = disk \<and> run_end (ctl s) [0] [f] = Inr ([delFlag FLAG_STARTEDDL (addFlag FLAG_COMPLETE f)], False)"
proof -
  let ?s0 = "wgt_init [sb] 1 disk h" and ?c = "one_worker [] 0 1 (WGTWorkerInfo_new\<lparr>vBuffer := deliver [] (vBlockList sb) d\<rparr>)"
  let ?s1 = "?s0\<lparr>ctl := ?c\<rparr>" and ?c2 = "wgt_onStop ?c"
  have "can_reach ?s0 ?s0 0 (one_worker [sb] 1 1 WGTWorkerInfo_new)"
    by (simp add: can_reach_def one_start wgt_reach.start) (simp add: one_worker_def)
  from can_pass [OF this, of "[]" "[d]" None True True] have "wgt_reach ?s0 ?s1"
    by (simp add: one_received [OF assms] can_reach_def)
  moreover have "wgt_step ?s1 (?s1\<lparr>ctl := ?c2\<rparr>)" using stop [of ?s1] by simp
  ultimately have reach: "wgt_reach ?s0 (?s1\<lparr>ctl := ?c2\<rparr>)" by (blast intro: wgt_reach.intros)
  have "run_end ?c2 [0] [f] = Inr ([delFlag FLAG_STARTEDDL (addFlag FLAG_COMPLETE f)], False)"
    by (simp add: run_end_def wgt_onStop_def one_worker_def)
  then show ?thesis using reach
    by (intro exI [of _ "?s1\<lparr>ctl := ?c2\<rparr>"]) (simp add: run_pass_def one_start wgt_onStop_def)
qed

text \<open>C37: Nobody needs to stop it: when the last worker hands in its last block and ends after the controller looked into the
  buffers, and before it reads the number of running workers, the loop ends and the files are marked complete with the
  block still in the buffer and nothing of it written.\<close>

theorem late_block_marked_complete:
  assumes "new_super sb" and "length (d :: bytes) = total_size (vBlockList sb)"
  shows "\<exists>s. wgt_reach (wgt_init [sb] 1 disk h) s \<and> ctl_at s = AtEnd \<and> \<not> ctl_stopped (ctl s) \<and> isQueuedBlocks (ctl s)
    \<and> saved s = [] \<and> lost s = [] \<and> sys_disk s = disk
    \<and> run_end (ctl s) [0] [f] = Inr ([delFlag FLAG_STARTEDDL (addFlag FLAG_COMPLETE f)], False)"
proof -
  let ?s0 = "wgt_init [sb] 1 disk h" and ?bs = "deliver [] (vBlockList sb) d"
  have start: "ctl_reach ?s0 ?s0 AtLoop" by (simp add: ctl_reach_def one_start wgt_reach.start)
  have "ctl_reach ?s0 ?s0 (AtSave 0)" by (rule ctl_go [OF start, of undefined True]) (simp add: ctl_step_def one_start one_worker_def WGTWorkerInfo_new_def)
  then have "ctl_reach ?s0 ?s0 (AtSave 1)" by (rule ctl_go [where getName = undefined and agents = True]) (simp add: ctl_step_def one_start one_worker_def WGTWorkerInfo_new_def)
  then have "ctl_reach ?s0 ?s0 (AtScan 0)" by (rule ctl_go [where getName = undefined and agents = True]) (simp add: ctl_step_def one_start one_worker_def WGTWorkerInfo_new_def)
  then have "ctl_reach ?s0 ?s0 (AtScan 1)" by (rule ctl_go [where getName = undefined and agents = True]) (simp add: ctl_step_def one_start one_worker_def WGTWorkerInfo_new_def)
  then have "ctl_reach ?s0 ?s0 AtCount" by (rule ctl_go [where getName = undefined and agents = True]) (simp add: ctl_step_def one_start one_worker_def WGTWorkerInfo_new_def)
  then have "can_reach ?s0 (?s0\<lparr>ctl_at := AtCount\<rparr>) 0 (one_worker [sb] 1 1 WGTWorkerInfo_new)"
    by (simp add: can_reach_def ctl_reach_def one_start) (simp add: one_worker_def)
  from can_pass [OF can_pass [OF this, of "[]" "[d]" None True True], of "[]" "[]" None True True]
  have "can_reach ?s0 (?s0\<lparr>ctl_at := AtCount\<rparr>) 0
      (one_worker [] 0 0 (WGTWorkerInfo_new\<lparr>vBuffer := ?bs, worker_status := SF_STATUS_STOP\<rparr>))" (is "can_reach _ _ _ ?c")
    by (simp add: one_received [OF assms] one_stops)
  then have "ctl_reach ?s0 (?s0\<lparr>ctl := ?c\<rparr>) AtCount" by (simp add: can_reach_def ctl_reach_def one_start)
  then have reach: "ctl_reach ?s0 (?s0\<lparr>ctl := ?c\<rparr>) AtEnd"
    by (rule ctl_go [where getName = undefined and agents = True]) (simp add: ctl_step_def one_worker_def)
  have "?bs \<noteq> []" using assms(1) by (cases "vBlockList sb") (auto simp: new_super_def)
  then have "isQueuedBlocks ?c" by (simp add: isQueuedBlocks_def one_worker_def)
  moreover have "run_end ?c [0] [f] = Inr ([delFlag FLAG_STARTEDDL (addFlag FLAG_COMPLETE f)], False)" "\<not> ctl_stopped ?c"
    by (simp_all add: run_end_def one_worker_def)
  ultimately show ?thesis using reach
    by (intro exI [of _ "?s0\<lparr>ctl := ?c, ctl_at := AtEnd\<rparr>"]) (simp add: ctl_reach_def one_start)
qed

theorem stopped_download_marked_complete_witness:
  "\<exists>s. wgt_reach (wgt_init [demo_super] 1 (Map.empty(''a'' \<mapsto> [])) demo_handle) s \<and> saved s = []
    \<and> run_end (ctl s) [0] [MCFFile_new] = Inr ([delFlag FLAG_STARTEDDL (addFlag FLAG_COMPLETE MCFFile_new)], False)"
proof -
  have "new_super demo_super" by code_simp
  from stopped_download_marked_complete [OF this, of "[7, 8]"] show ?thesis
    by (fastforce simp: demo_super_def demo_block_def WGTBlock_new_def total_size_def)
qed

theorem late_block_marked_complete_witness:
  "\<exists>s. wgt_reach (wgt_init [demo_super] 1 (Map.empty(''a'' \<mapsto> [])) demo_handle) s \<and> ctl_at s = AtEnd \<and> saved s = []
    \<and> run_end (ctl s) [0] [MCFFile_new] = Inr ([delFlag FLAG_STARTEDDL (addFlag FLAG_COMPLETE MCFFile_new)], False)"
proof -
  have "new_super demo_super" by code_simp
  from late_block_marked_complete [OF this, of "[7, 8]"] show ?thesis
    by (fastforce simp: demo_super_def demo_block_def WGTBlock_new_def total_size_def)
qed

end
