(* ===== verification/Wgt_Blocks.thy ===== *)
theory Wgt_Blocks
  imports Wgt_Complete
begin

text \<open>
  \<open>fillBlockList\<close> of \<^verbatim>\<open>src/src/shared/mcfcore/code/thread/WGTController.cpp\<close>: which bytes of which files are
  fetched. The list of the provider (\<open>webMcf\<close> after \<open>dlHeaderFromWeb\<close>), the two sorts and the answers of
  \<open>isStopped\<close> are parameters; progress is not part of the model. Files are named by their place in the file list
  of the archive.
\<close>

unbundle bit_operations_syntax

section \<open>Cutting a file into blocks\<close>

definition block_at :: "nat \<Rightarrow> mcf_file \<Rightarrow> mcf_file \<Rightarrow> u32 \<Rightarrow> u32 \<Rightarrow> WGTBlock" where
  "block_at i file webFile offset y =
     WGTBlock_new\<lparr>block_file := i, block_index := y,
       webOffset := m_llOffset webFile + ucast offset, fileOffset := m_llOffset file + ucast offset,
       block_crc := (if length (m_vCRCList webFile) > unat y then m_vCRCList webFile ! unat y else 0),
       block_size :=
         (if getCurSize file - ucast offset < ucast (m_iBlockSize file) then ucast (getCurSize file - ucast offset)
          else m_iBlockSize file)\<rparr>"

text \<open>
  The loop over one file: \<open>there\<close> tells whether block \<open>y\<close> is in the archive already. The offset has 32 bits, so the
  loop need not end.
\<close>

partial_function (option) cut_file ::
  "(u32 \<Rightarrow> bool res) \<Rightarrow> nat \<Rightarrow> mcf_file \<Rightarrow> mcf_file \<Rightarrow> u32 \<Rightarrow> u32 \<Rightarrow> WGTBlock list \<Rightarrow> u64 \<Rightarrow> (WGTBlock list \<times> u64) res option" where
  "cut_file there i file webFile offset y blocks dn =
     (if (ucast offset :: u64) < getCurSize file then
        (case there y of
           Inl e \<Rightarrow> Some (Inl e)
         | Inr ok \<Rightarrow>
             cut_file there i file webFile (offset + m_iBlockSize file) (y + 1)
               (if ok then blocks else blocks @ [block_at i file webFile offset y])
               (if ok then dn + ucast (block_size (block_at i file webFile offset y)) else dn))
      else Some (Inr (blocks, dn)))"

section \<open>The loop over the files\<close>

record fill =
  fill_files :: "mcf_file list"
  mcfOffset :: u64
  fill_done :: u64
  vBlocks :: "WGTBlock list"
  m_vDlFiles :: "u32 list"

text \<open>The end of the last file that is already in the archive.\<close>

definition end_of_files :: "u64 \<Rightarrow> mcf_file list \<Rightarrow> u64" where
  "end_of_files start fs =
     fold (\<lambda>f off. if (isComplete f \<or> hasStartedDL f) \<and> m_llOffset f > off then m_llOffset f + getCurSize f else off)
       (filter isSaved fs) start"

text \<open>The place of a file that has one: does it run into the next file of the list, or the one before into it?\<close>

definition overlaps :: "mcf_file list \<Rightarrow> nat list \<Rightarrow> nat \<Rightarrow> bool" where
  "overlaps fs temp x =
     (let file = fs ! (temp ! x); n = length temp;
          check1 = (n > 1 \<and> x \<noteq> n - 1 \<and> m_llOffset file + getCurSize file > m_llOffset (fs ! (temp ! (x + 1))));
          check2 = (n > 1 \<and> x \<noteq> 0 \<and>
            m_llOffset file < m_llOffset (fs ! (temp ! (x - 1))) + getCurSize (fs ! (temp ! (x - 1))))
      in check1 \<or> check2)"

definition web_file :: "mcf \<Rightarrow> mcf_file \<Rightarrow> mcf_file option" where
  "web_file webMcf file =
     (let index = findFileIndexByHash webMcf (m_iHash file) in
      case getFile webMcf index of
        None \<Rightarrow> None
      | Some w \<Rightarrow> if index = UNKNOWN_ITEM \<or> \<not> isSaved w then None else Some w)"

definition block_there :: "bool \<Rightarrow> fs \<Rightarrow> file_handle option \<Rightarrow> bool \<Rightarrow> mcf_file \<Rightarrow> u32 \<Rightarrow> bool res" where
  "block_there checkMcf disk fh started file y =
     (case fh of
        Some h \<Rightarrow> if started \<and> checkMcf then crcCheck_block disk h (ucast y) file else Inr False
      | None \<Rightarrow> Inr False)"

text \<open>One turn, for position \<open>x\<close> of the sorted list \<open>temp\<close>.\<close>

definition fill_file ::
  "bool \<Rightarrow> fs \<Rightarrow> file_handle option \<Rightarrow> mcf \<Rightarrow> nat list \<Rightarrow> nat \<Rightarrow> fill \<Rightarrow> fill res option" where
  "fill_file checkMcf disk fh webMcf temp x s =
     (let i = temp ! x; file = fill_files s ! i in
      if isComplete file then Some (Inr (s\<lparr>fill_done := fill_done s + getCurSize file\<rparr>))
      else if \<not> isSaved file then Some (Inr s)
      else if isZeroSize file then Some (Inr (s\<lparr>fill_files := (fill_files s)[i := setOffSet 0 file]\<rparr>))
      else
        let size = getCurSize file; started = hasStartedDL file in
        case web_file webMcf file of
          None \<Rightarrow>
            Some (Inr (if started then s else s\<lparr>fill_files := (fill_files s)[i := delFlag FLAG_SAVE file]\<rparr>))
        | Some webFile \<Rightarrow>
            let file = addFlag FLAG_STARTEDDL (copyBorkedSettings webFile file);
                started = (started \<or> (m_llOffset file \<noteq> 0 \<and> \<not> overlaps ((fill_files s)[i := file]) temp x));
                (file, off) = (if started then (file, mcfOffset s) else (setOffSet (mcfOffset s) file, mcfOffset s + size))
            in map_option (map_sum id (\<lambda>(blocks, dn).
                 s\<lparr>fill_files := (fill_files s)[i := file], mcfOffset := off, fill_done := dn, vBlocks := blocks,
                   m_vDlFiles := m_vDlFiles s @ [of_nat x]\<rparr>))
               (cut_file (block_there checkMcf disk fh started file) i file webFile 0 0 (vBlocks s) (fill_done s)))"

text \<open>The loop ends early, without a result, when the download is stopped at some file.\<close>

fun fill_loop ::
  "(nat \<Rightarrow> bool) \<Rightarrow> bool \<Rightarrow> fs \<Rightarrow> file_handle option \<Rightarrow> mcf \<Rightarrow> nat list \<Rightarrow> nat list \<Rightarrow> fill \<Rightarrow> (fill \<times> bool) res option" where
  "fill_loop stopped checkMcf disk fh webMcf temp [] s = Some (Inr (s, True))"
| "fill_loop stopped checkMcf disk fh webMcf temp (x # xs) s =
     (if stopped x then Some (Inr (s, False))
      else
        case fill_file checkMcf disk fh webMcf temp x s of
          None \<Rightarrow> None
        | Some (Inl e) \<Rightarrow> Some (Inl e)
        | Some (Inr s) \<Rightarrow> fill_loop stopped checkMcf disk fh webMcf temp xs s)"

section \<open>Grouping the blocks\<close>

text \<open>
  The inner loop, on the super block so far and the blocks left: it takes blocks while they follow each other in the
  archive of the provider, the super block is smaller than \<open>maxSize\<close> and stays below 4 GiB.
\<close>

fun take_blocks :: "u64 \<Rightarrow> WGTSuperBlock \<Rightarrow> WGTBlock list \<Rightarrow> WGTSuperBlock \<times> WGTBlock list" where
  "take_blocks maxSize sb [] = (sb, [])"
| "take_blocks maxSize sb (b # bs) =
     (let t = ucast (block_size b) + sb_size sb in
      if drop_bit 32 t \<noteq> 0 then (sb, b # bs)
      else
        let sb = sb\<lparr>sb_size := sb_size sb + ucast (block_size b), vBlockList := vBlockList sb @ [b]\<rparr>;
            size = (bs \<noteq> []); offset = (size \<and> webOffset (bs ! 0) = sb_offset sb + sb_size sb); maxsize = (sb_size sb < maxSize)
        in if size \<and> offset \<and> maxsize then take_blocks maxSize sb bs else (sb, bs))"

lemma take_blocks_length: "length (snd (take_blocks maxSize sb bs)) \<le> length bs"
  by (induction bs arbitrary: sb) (auto simp: Let_def le_SucI)

lemma drop_bit_block: "drop_bit 32 (ucast (n :: u32) :: u64) = 0"
  by (rule bit_word_eqI) (auto simp: bit_simps dest: bit_imp_le_length)

lemma take_blocks_first:
  "take_blocks maxSize (WGTSuperBlock_new\<lparr>sb_offset := webOffset b\<rparr>) (b # bs) = (sb, rest) \<Longrightarrow> length rest \<le> length bs"
  using take_blocks_length [of maxSize "WGTSuperBlock_new\<lparr>sb_offset := webOffset b, sb_size := ucast (block_size b), vBlockList := [b]\<rparr>" bs]
  by (auto simp: Let_def WGTSuperBlock_new_def drop_bit_block split: if_splits)

function group_blocks :: "u64 \<Rightarrow> WGTBlock list \<Rightarrow> WGTSuperBlock list" where
  "group_blocks maxSize [] = []"
| "group_blocks maxSize (b # bs) =
     (case take_blocks maxSize (WGTSuperBlock_new\<lparr>sb_offset := webOffset b\<rparr>) (b # bs) of
        (sb, rest) \<Rightarrow> sb # group_blocks maxSize rest)"
  by pat_completeness auto
termination
  by (relation "measure (\<lambda>(maxSize, bs). length bs)") (auto simp del: take_blocks.simps simp: less_Suc_eq_le intro: take_blocks_first [OF sym])

definition max_super :: "u64 \<Rightarrow> u16 \<Rightarrow> u64 res" where
  "max_super downloadSize workers =
     (if workers = 0 then Inl UNDEFINED
      else Inr (ucast (min (ucast (downloadSize div ucast workers) :: u32) (256 * 1024 * 1024))))"

section \<open>The whole function\<close>

text \<open>
  \<open>web\<close> is what \<open>dlHeaderFromWeb\<close> gives. The answer is the file list and the work list, or no work list when the
  download was stopped.
\<close>

definition fillBlockList ::
  "sorter \<Rightarrow> ((nat \<times> u64) list \<Rightarrow> (nat \<times> u64) list) \<Rightarrow> (WGTBlock list \<Rightarrow> WGTBlock list) \<Rightarrow> (nat \<Rightarrow> bool) \<Rightarrow> bool \<Rightarrow>
   fs \<Rightarrow> mcf res \<Rightarrow> u16 \<Rightarrow> mcf \<Rightarrow> (mcf \<times> WGTSuperBlock list option \<times> u32 list \<times> u64 \<times> u64) res option" where
  "fillBlockList srt fsort bsort stopped checkMcf disk web workers m =
     (case web of
        Inl e \<Rightarrow> Some (Inl e)
      | Inr webMcf \<Rightarrow>
          let webMcf = sortFileList srt webMcf;
              fs = m_pFileList m;
              temp = map fst (fsort (map (\<lambda>i. (i, m_llOffset (fs ! i))) (filter (\<lambda>i. isSaved (fs ! i)) [0 ..< length fs])));
              fh = (case fh_open disk (Some (m_szFile m)) FILE_READ 0 of Inl _ \<Rightarrow> None | Inr (_, h) \<Rightarrow> Some h);
              s = \<lparr>fill_files = fs, mcfOffset = end_of_files (of_nat (getSize (m_sHeader m))) fs, fill_done = 0,
                   vBlocks = [], m_vDlFiles = []\<rparr>
          in (case fill_loop stopped checkMcf disk fh webMcf temp [0 ..< length temp] s of
                None \<Rightarrow> None
              | Some (Inl e) \<Rightarrow> Some (Inl e)
              | Some (Inr (s, False)) \<Rightarrow> Some (Inr (m\<lparr>m_pFileList := fill_files s\<rparr>, None, m_vDlFiles s, 0, 0))
              | Some (Inr (s, True)) \<Rightarrow>
                  Some (map_sum id (\<lambda>maxSize.
                      (m\<lparr>m_pFileList := fill_files s\<rparr>, Some (group_blocks maxSize (bsort (vBlocks s))), m_vDlFiles s,
                       fill_done s, blocks_size (vBlocks s) + fill_done s))
                    (max_super (blocks_size (vBlocks s)) workers))))"

section \<open>The blocks of one file\<close>

definition small_file :: "mcf_file \<Rightarrow> bool" where
  "small_file f \<longleftrightarrow> 0 < unat (m_iBlockSize f) \<and> unat (getCurSize f) + unat (m_iBlockSize f) \<le> 2 ^ 32"

definition block_count :: "mcf_file \<Rightarrow> nat" where
  "block_count f = (unat (getCurSize f) + unat (m_iBlockSize f) - 1) div unat (m_iBlockSize f)"

definition file_blocks :: "nat \<Rightarrow> mcf_file \<Rightarrow> mcf_file \<Rightarrow> WGTBlock list" where
  "file_blocks i file webFile =
     map (\<lambda>k. block_at i file webFile (of_nat (k * unat (m_iBlockSize file))) (of_nat k)) [0 ..< block_count file]"

lemma block_count_less:
  assumes "small_file f"
  shows "k < block_count f \<longleftrightarrow> k * unat (m_iBlockSize f) < unat (getCurSize f)"
proof -
  let ?B = "unat (m_iBlockSize f)" and ?S = "unat (getCurSize f)"
  have B: "0 < ?B" using assms by (simp add: small_file_def)
  have "k < block_count f \<longleftrightarrow> Suc k * ?B \<le> ?S + ?B - 1"
    using B by (simp only: block_count_def Suc_le_eq [symmetric] less_eq_div_iff_mult_less_eq)
  also have "\<dots> \<longleftrightarrow> k * ?B < ?S" using B by auto
  finally show ?thesis .
qed

lemma unat_of_nat_32: "n < 2 ^ 32 \<Longrightarrow> unat (of_nat n :: u32) = n"
  by (simp add: unat_of_nat take_bit_nat_eq_self)

lemma ucast_of_nat_32:
  assumes "n < 2 ^ 32"
  shows "ucast (of_nat n :: u32) = (of_nat n :: u64)"
proof -
  have "unat (ucast (of_nat n :: u32) :: u64) = n" using assms by (simp only: unat_ucast_32_64 unat_of_nat_32)
  then show ?thesis by (metis of_nat_unat ucast_id)
qed

lemma cut_file_all:
  assumes "small_file f" and "k \<le> block_count f" and "\<And>y. there y = Inr False"
  shows "cut_file there i f w (of_nat (k * unat (m_iBlockSize f))) (of_nat k) blocks dn =
    Some (Inr (blocks @ map (\<lambda>k. block_at i f w (of_nat (k * unat (m_iBlockSize f))) (of_nat k)) [k ..< block_count f], dn))"
  using assms(2)
proof (induction "block_count f - k" arbitrary: k blocks)
  case 0
  then have "k = block_count f" by simp
  then have "unat (getCurSize f) \<le> k * unat (m_iBlockSize f)" using block_count_less [OF assms(1), of k] by simp
  moreover have "k * unat (m_iBlockSize f) < 2 ^ 32"
  proof (cases k)
    case (Suc j)
    then have "j * unat (m_iBlockSize f) < unat (getCurSize f)"
      using \<open>k = block_count f\<close> block_count_less [OF assms(1), of j] by simp
    then show ?thesis using assms(1) Suc by (simp add: small_file_def)
  qed simp
  ultimately have "\<not> (ucast (of_nat (k * unat (m_iBlockSize f)) :: u32) :: u64) < getCurSize f"
    by (simp only: word_less_nat_alt unat_ucast_32_64 unat_of_nat_32 not_less)
  then show ?case using \<open>k = block_count f\<close> by (simp add: cut_file.simps)
next
  case (Suc n)
  then have k: "k < block_count f" by simp
  then have lt: "k * unat (m_iBlockSize f) < unat (getCurSize f)" using block_count_less [OF assms(1)] by simp
  then have "k * unat (m_iBlockSize f) < 2 ^ 32" using assms(1) by (simp add: small_file_def)
  with lt have less: "(ucast (of_nat (k * unat (m_iBlockSize f)) :: u32) :: u64) < getCurSize f"
    by (simp only: word_less_nat_alt unat_ucast_32_64 unat_of_nat_32)
  have next_k: "(of_nat (k * unat (m_iBlockSize f)) :: u32) + m_iBlockSize f = of_nat (Suc k * unat (m_iBlockSize f))"
    "(of_nat k :: u32) + 1 = of_nat (Suc k)" by (simp_all add: ac_simps)
  have "n = block_count f - Suc k" "Suc k \<le> block_count f" using Suc.hyps(2) k by simp_all
  note IH = Suc.hyps(1) [OF this]
  show ?case
    by (subst cut_file.simps) (simp only: less if_True assms(3) sum.case if_False next_k IH append_assoc upt_conv_Cons [OF k] list.map append_Cons append_Nil)
qed

lemma file_blocks_nth:
  assumes "small_file f" and "k < block_count f"
  shows "file_blocks i f w ! k = block_at i f w (of_nat (k * unat (m_iBlockSize f))) (of_nat k)"
    and "unat (block_size (file_blocks i f w ! k)) = min (unat (m_iBlockSize f)) (unat (getCurSize f) - k * unat (m_iBlockSize f))"
    and "k < 2 ^ 32"
proof -
  let ?B = "unat (m_iBlockSize f)" and ?o = "of_nat (k * unat (m_iBlockSize f)) :: u32"
  have lt: "k * ?B < unat (getCurSize f)" using assms block_count_less by simp
  then have small: "k * ?B < 2 ^ 32" "unat (getCurSize f) < 2 ^ 32" using assms(1) by (simp_all add: small_file_def)
  have "0 < ?B" using assms(1) by (simp add: small_file_def)
  then have "k * 1 \<le> k * ?B" by (intro mult_le_mono2) simp
  then show "k < 2 ^ 32" using small(1) by linarith
  show nth: "file_blocks i f w ! k = block_at i f w ?o (of_nat k)" using assms(2) by (simp add: file_blocks_def)
  have o: "unat (ucast ?o :: u64) = k * ?B" using small(1) by (simp only: unat_ucast_32_64 unat_of_nat_32)
  then have le: "(ucast ?o :: u64) \<le> getCurSize f" using lt by (simp add: word_le_nat_alt)
  have rest: "unat (getCurSize f - ucast ?o) = unat (getCurSize f) - k * ?B" by (simp only: unat_sub [OF le] o)
  then have "unat (ucast (getCurSize f - ucast ?o) :: u32) = unat (getCurSize f) - k * ?B"
    using small(2) by (simp add: unsigned_ucast_eq take_bit_nat_eq_self)
  then show "unat (block_size (file_blocks i f w ! k)) = min ?B (unat (getCurSize f) - k * ?B)"
    using rest by (auto simp: nth block_at_def word_less_nat_alt)
qed

lemma length_file_blocks [simp]: "length (file_blocks i f w) = block_count f"
  by (simp add: file_blocks_def)

lemma file_blocks_cover:
  assumes "small_file f"
  shows "(\<forall>p < unat (getCurSize f). \<exists>!k. k < length (file_blocks i f w) \<and> k * unat (m_iBlockSize f) \<le> p
      \<and> p < k * unat (m_iBlockSize f) + unat (block_size (file_blocks i f w ! k)))
    \<and> (\<forall>k < length (file_blocks i f w). let b = file_blocks i f w ! k in
      0 < unat (block_size b) \<and> unat (block_size b) \<le> unat (m_iBlockSize f)
      \<and> k * unat (m_iBlockSize f) + unat (block_size b) \<le> unat (getCurSize f)
      \<and> fileOffset b = m_llOffset f + of_nat (k * unat (m_iBlockSize f))
      \<and> webOffset b = m_llOffset w + of_nat (k * unat (m_iBlockSize f))
      \<and> block_crc b = (if k < length (m_vCRCList w) then m_vCRCList w ! k else 0) \<and> block_file b = i)"
proof (intro conjI allI impI)
  let ?B = "unat (m_iBlockSize f)" and ?S = "unat (getCurSize f)"
  have B: "0 < ?B" using assms by (simp add: small_file_def)
  fix p assume p: "p < ?S"
  have "p div ?B * ?B \<le> p" by simp
  have here: "p div ?B < block_count f"
    using p div_times_less_eq_dividend [of p ?B] unfolding block_count_less [OF assms] by linarith
  show "\<exists>!k. k < length (file_blocks i f w) \<and> k * ?B \<le> p \<and> p < k * ?B + unat (block_size (file_blocks i f w ! k))"
  proof (rule ex1I [of _ "p div ?B"])
    show "p div ?B < length (file_blocks i f w) \<and> p div ?B * ?B \<le> p
        \<and> p < p div ?B * ?B + unat (block_size (file_blocks i f w ! (p div ?B)))"
      using here p B file_blocks_nth(2) [OF assms here] dividend_less_div_times [of ?B p] by (auto simp: min_def)
  next
    fix k assume k: "k < length (file_blocks i f w) \<and> k * ?B \<le> p \<and> p < k * ?B + unat (block_size (file_blocks i f w ! k))"
    then have "p < k * ?B + ?B" using file_blocks_nth(2) [OF assms, of k i w] by (auto simp: min_def split: if_splits)
    then show "k = p div ?B" using k by (intro div_nat_eqI [symmetric]) (simp_all add: ac_simps)
  qed
next
  fix k assume "k < length (file_blocks i f w)"
  then have k: "k < block_count f" by simp
  note n = file_blocks_nth [OF assms k]
  have lt: "k * unat (m_iBlockSize f) < unat (getCurSize f)" using k block_count_less [OF assms] by simp
  then have "k * unat (m_iBlockSize f) < 2 ^ 32" using assms by (simp add: small_file_def)
  then have o: "ucast (of_nat (k * unat (m_iBlockSize f)) :: u32) = (of_nat (k * unat (m_iBlockSize f)) :: u64)"
    by (rule ucast_of_nat_32)
  have "unat (of_nat k :: u32) = k" using n(3) by (simp only: unat_of_nat_32)
  then show "let b = file_blocks i f w ! k in
      0 < unat (block_size b) \<and> unat (block_size b) \<le> unat (m_iBlockSize f)
      \<and> k * unat (m_iBlockSize f) + unat (block_size b) \<le> unat (getCurSize f)
      \<and> fileOffset b = m_llOffset f + of_nat (k * unat (m_iBlockSize f))
      \<and> webOffset b = m_llOffset w + of_nat (k * unat (m_iBlockSize f))
      \<and> block_crc b = (if k < length (m_vCRCList w) then m_vCRCList w ! k else 0) \<and> block_file b = i"
    using assms lt n(2) by (simp only: Let_def n(1) [symmetric] o small_file_def) (simp add: n(1) block_at_def o del: of_nat_mult)
qed


section \<open>The super blocks\<close>

fun in_row :: "u64 \<Rightarrow> WGTBlock list \<Rightarrow> bool" where
  "in_row off [] = True"
| "in_row off (b # bs) = (webOffset b = off \<and> in_row (off + ucast (block_size b)) bs)"

lemma in_row_append: "in_row off (as @ bs) \<longleftrightarrow> in_row off as \<and> in_row (off + blocks_size as) bs"
  by (induction as arbitrary: off) (auto simp: ac_simps)

definition good_super :: "WGTSuperBlock \<Rightarrow> bool" where
  "good_super sb \<longleftrightarrow> sb_done sb = 0 \<and> sb_size sb = blocks_size (vBlockList sb)
     \<and> in_row (sb_offset sb) (vBlockList sb) \<and> drop_bit 32 (sb_size sb) = 0"

lemma take_blocks_split:
  "take_blocks maxSize sb bs = (sb', rest) \<Longrightarrow> \<exists>pre. bs = pre @ rest \<and> vBlockList sb' = vBlockList sb @ pre"
proof (induction bs arbitrary: sb)
  case (Cons b bs)
  then show ?case by (fastforce simp: Let_def split: if_splits)
qed simp

lemma take_blocks_good:
  "take_blocks maxSize sb bs = (sb', rest) \<Longrightarrow> good_super sb \<Longrightarrow>
   (bs \<noteq> [] \<Longrightarrow> webOffset (bs ! 0) = sb_offset sb + sb_size sb) \<Longrightarrow> good_super sb'"
proof (induction bs arbitrary: sb)
  case (Cons b bs)
  let ?sb = "sb\<lparr>sb_size := sb_size sb + ucast (block_size b), vBlockList := vBlockList sb @ [b]\<rparr>"
  have "good_super ?sb" if "drop_bit 32 (ucast (block_size b) + sb_size sb) = 0"
    using Cons.prems(2,3) that by (simp add: good_super_def in_row_append ac_simps)
  then show ?case using Cons.IH [of ?sb] Cons.prems(1,2) by (auto simp: Let_def split: if_splits)
qed simp

lemma start_good: "good_super (WGTSuperBlock_new\<lparr>sb_offset := off\<rparr>)"
  by (simp add: good_super_def WGTSuperBlock_new_def)

text \<open>Grouping loses, repeats and moves nothing: the super blocks, one after the other, hold the blocks of the list.
  Each starts unread, with the size of its blocks, which are below 4 GiB and follow each other without a gap in the
  archive of the provider; so one range request fetches it.\<close>

theorem group_blocks_keeps:
  "all_blocks (group_blocks maxSize bs) = bs \<and> list_all good_super (group_blocks maxSize bs)
   \<and> list_all (\<lambda>sb. vBlockList sb \<noteq> []) (group_blocks maxSize bs)"
proof (induction maxSize bs rule: group_blocks.induct)
  case (1 maxSize)
  then show ?case by (simp add: all_blocks_def)
next
  case (2 maxSize b bs)
  let ?start = "WGTSuperBlock_new\<lparr>sb_offset := webOffset b\<rparr>"
  obtain sb rest where t: "take_blocks maxSize ?start (b # bs) = (sb, rest)" by fastforce
  from take_blocks_split [OF t] obtain pre where pre: "b # bs = pre @ rest" "vBlockList sb = pre"
    by (auto simp: WGTSuperBlock_new_def)
  have "pre \<noteq> []" using take_blocks_first [OF t] pre(1) by auto
  moreover have "good_super sb" using take_blocks_good [OF t start_good] by (simp add: WGTSuperBlock_new_def)
  moreover have "group_blocks maxSize (b # bs) = sb # group_blocks maxSize rest"
    by (simp add: t del: take_blocks.simps)
  ultimately show ?case using "2.IH" [OF t [symmetric]] pre by (simp only: all_blocks_def) simp
qed

section \<open>A file of 4 GiB or more\<close>

lemma cut_file_never:
  assumes "2 ^ 32 \<le> unat (getCurSize f)" and "\<And>y. \<exists>ok. there y = Inr ok"
  shows "cut_file there i f w offset y blocks dn = None"
proof -
  have small: "(ucast (o' :: u32) :: u64) < getCurSize f" for o'
    using assms(1) unsigned_less [of o', where ?'a = nat] by (simp add: word_less_nat_alt)
  have never: "th = there \<longrightarrow> f' = f \<longrightarrow> False" if "cut_file th i' f' w' o' y' bl' d' = Some r" for th i' f' w' o' y' bl' d' r
  proof (rule cut_file.raw_induct
      [where P = "\<lambda>th i' f' w' o' y' bl' d' r. th = there \<longrightarrow> f' = f \<longrightarrow> False", OF _ that])
    fix g th i' f' w' o' y' bl' d' r
    assume IH: "\<And>th i' f' w' o' y' bl' d' r. g th i' f' w' o' y' bl' d' = Some r \<Longrightarrow> th = there \<longrightarrow> f' = f \<longrightarrow> False"
      and "(if ucast o' < getCurSize f' then
          (case th y' of Inl e \<Rightarrow> Some (Inl e)
           | Inr ok \<Rightarrow> g th i' f' w' (o' + m_iBlockSize f') (y' + 1) (if ok then bl' else bl' @ [block_at i' f' w' o' y'])
               (if ok then d' + ucast (block_size (block_at i' f' w' o' y')) else d'))
        else Some (Inr (bl', d'))) = Some r"
    then show "th = there \<longrightarrow> f' = f \<longrightarrow> False" using small assms(2) [of y'] by (auto dest: IH)
  qed
  show ?thesis
  proof (cases "cut_file there i f w offset y blocks dn")
    case (Some r)
    from never [OF this] show ?thesis by simp
  qed simp
qed

text \<open>Listing the blocks of a file of 4 GiB or more never ends: the offset in the file has 32 bits and stays below
  the size for ever.\<close>

theorem cut_file_large_never_ends:
  assumes "2 ^ 32 \<le> unat (getCurSize f)"
  shows "cut_file (\<lambda>_. Inr False) i f w 0 0 blocks dn = None"
  by (rule cut_file_never [OF assms]) blast

theorem cut_file_large_never_ends_witness:
  "cut_file (\<lambda>_. Inr False) 0 (MCFFile_new\<lparr>m_iSize := 4294967296\<rparr>) MCFFile_new 0 0 [] 0 = None"
  by (rule cut_file_large_never_ends) (simp add: getCurSize_def isCompressed_def has_flag_def MCFFile_new_def file_flags)

section \<open>What is fetched\<close>

text \<open>The file of the provider's list a file is fetched from, if it has to be fetched.\<close>

definition wanted :: "mcf \<Rightarrow> mcf_file \<Rightarrow> mcf_file option" where
  "wanted webMcf f = (if isSaved f \<and> \<not> isComplete f \<and> \<not> isZeroSize f then web_file webMcf f else None)"

definition fetched :: "mcf \<Rightarrow> mcf_file list \<Rightarrow> mcf_file list \<Rightarrow> nat \<Rightarrow> WGTBlock list" where
  "fetched webMcf old new i =
     (case wanted webMcf (old ! i) of None \<Rightarrow> [] | Some w \<Rightarrow> file_blocks i (new ! i) w)"

lemma small_file_offset [simp]: "small_file (setOffSet off f) = small_file f"
  by (simp add: small_file_def setOffSet_def getCurSize_def isCompressed_def has_flag_def)

lemma small_file_started [simp]: "small_file (addFlag FLAG_STARTEDDL (copyBorkedSettings w f)) = small_file f"
proof -
  have "(flags OR FLAG_STARTEDDL) AND FLAG_COMPRESSED = flags AND FLAG_COMPRESSED" for flags :: u16
    by (simp add: file_flags bit.conj_disj_distrib2)
  then show ?thesis
    by (simp add: small_file_def copyBorkedSettings_def setCCsum_def addFlag_def getCurSize_def isCompressed_def has_flag_def)
qed

lemma fill_file_result:
  assumes "small_file (fill_files s ! (temp ! x))" and "temp ! x < length (fill_files s)"
  shows "\<exists>t. fill_file False disk fh webMcf temp x s = Some (Inr t) \<and> length (fill_files t) = length (fill_files s)
    \<and> (\<forall>j. j \<noteq> temp ! x \<longrightarrow> fill_files t ! j = fill_files s ! j) \<and> small_file (fill_files t ! (temp ! x))
    \<and> (isSaved (fill_files s ! (temp ! x)) \<longrightarrow> vBlocks t = vBlocks s @ fetched webMcf (fill_files s) (fill_files t) (temp ! x))"
proof -
  let ?i = "temp ! x"
  let ?f = "fill_files s ! ?i"
  have cut: "cut_file (block_there False disk fh st f) i f w 0 0 bs dn = Some (Inr (bs @ file_blocks i f w, dn))"
    if "small_file f" for st f i w bs dn
    using cut_file_all [OF that, of 0 "block_there False disk fh st f" i w bs dn]
    by (simp add: block_there_def file_blocks_def split: option.splits)
  show ?thesis
  proof (cases "isComplete ?f \<or> \<not> isSaved ?f \<or> isZeroSize ?f \<or> web_file webMcf ?f = None")
    case True
    moreover have "small_file (delFlag FLAG_SAVE ?f)"
    proof -
      have "(flags AND NOT FLAG_SAVE) AND FLAG_COMPRESSED = flags AND FLAG_COMPRESSED" for flags :: u16
        by (simp add: file_flags and.assoc)
      then show ?thesis using assms(1)
        by (auto simp: small_file_def delFlag_def getCurSize_def isCompressed_def has_flag_def split: if_splits)
    qed
    ultimately show ?thesis using assms by (auto simp: fill_file_def Let_def fetched_def wanted_def)
  next
    case False
    then obtain w where w: "web_file webMcf ?f = Some w" by auto
    let ?g = "addFlag FLAG_STARTEDDL (copyBorkedSettings w ?f)"
    have "small_file ?g" "small_file (setOffSet off ?g)" for off using assms(1) by simp_all
    then show ?thesis using False w assms(2) by (auto simp: fill_file_def Let_def fetched_def wanted_def cut)
  qed
qed

lemma fetched_cong: "old ! i = old' ! i \<Longrightarrow> new ! i = new' ! i \<Longrightarrow> fetched webMcf old new i = fetched webMcf old' new' i"
  by (auto simp: fetched_def split: option.split)

lemma fill_loop_result:
  assumes "distinct (map ((!) temp) xs)" and "\<And>x. \<not> stopped x"
    and "\<forall>x\<in>set xs. temp ! x < length (fill_files s) \<and> small_file (fill_files s ! (temp ! x)) \<and> isSaved (fill_files s ! (temp ! x))"
  shows "\<exists>t. fill_loop stopped False disk fh webMcf temp xs s = Some (Inr (t, True))
    \<and> (\<forall>x\<in>set xs. small_file (fill_files t ! (temp ! x))) \<and> length (fill_files t) = length (fill_files s) \<and> (\<forall>j. j \<notin> (!) temp ` set xs \<longrightarrow> fill_files t ! j = fill_files s ! j)
    \<and> vBlocks t = vBlocks s @ concat (map (\<lambda>x. fetched webMcf (fill_files s) (fill_files t) (temp ! x)) xs)"
  using assms(1,3)
proof (induction xs arbitrary: s)
  case (Cons x xs)
  then have x: "small_file (fill_files s ! (temp ! x))" "temp ! x < length (fill_files s)" "isSaved (fill_files s ! (temp ! x))"
    by simp_all
  obtain u where u: "fill_file False disk fh webMcf temp x s = Some (Inr u)" "length (fill_files u) = length (fill_files s)"
    "\<And>j. j \<noteq> temp ! x \<Longrightarrow> fill_files u ! j = fill_files s ! j"
    "vBlocks u = vBlocks s @ fetched webMcf (fill_files s) (fill_files u) (temp ! x)" "small_file (fill_files u ! (temp ! x))"
    using fill_file_result [OF x(1,2)] x(3) by blast
  have ne: "temp ! y \<noteq> temp ! x" if "y \<in> set xs" for y using Cons.prems(1) that by (simp add: image_iff) metis
  have "\<forall>y\<in>set xs. temp ! y < length (fill_files u) \<and> small_file (fill_files u ! (temp ! y)) \<and> isSaved (fill_files u ! (temp ! y))"
    using Cons.prems(2) u(2,3) ne by simp
  from Cons.IH [OF _ this] Cons.prems(1) obtain t where
    t: "fill_loop stopped False disk fh webMcf temp xs u = Some (Inr (t, True))" "length (fill_files t) = length (fill_files u)"
      "\<forall>j. j \<notin> (!) temp ` set xs \<longrightarrow> fill_files t ! j = fill_files u ! j"
      "vBlocks t = vBlocks u @ concat (map (\<lambda>x. fetched webMcf (fill_files u) (fill_files t) (temp ! x)) xs)"
      "\<forall>x\<in>set xs. small_file (fill_files t ! (temp ! x))"
    by auto
  have "fill_files t ! (temp ! x) = fill_files u ! (temp ! x)" using t(3) ne by (metis imageE)
  then have "small_file (fill_files t ! (temp ! x))" using u(5) by simp
  moreover have "fetched webMcf (fill_files s) (fill_files u) (temp ! x) = fetched webMcf (fill_files s) (fill_files t) (temp ! x)"
    using \<open>fill_files t ! _ = _\<close> by (intro fetched_cong) simp_all
  moreover have "map (\<lambda>x. fetched webMcf (fill_files u) (fill_files t) (temp ! x)) xs
      = map (\<lambda>x. fetched webMcf (fill_files s) (fill_files t) (temp ! x)) xs"
    using u(3) ne by (intro map_cong fetched_cong) simp_all
  ultimately have "vBlocks t = vBlocks s @ concat (map (\<lambda>x. fetched webMcf (fill_files s) (fill_files t) (temp ! x)) (x # xs))"
    by (simp only: t(4) u(4) list.map concat.simps append_assoc)
  moreover have "\<forall>j. j \<notin> (!) temp ` set (x # xs) \<longrightarrow> fill_files t ! j = fill_files s ! j" using t(3) u(3) by simp
  ultimately show ?case using t(1,2,5) u(1,2) assms(2) [of x] \<open>small_file (fill_files t ! (temp ! x))\<close> by simp
qed simp

text \<open>The list the loop goes over: the saved files, each once.\<close>

lemma sorted_positions:
  assumes "mset (fsort (map (\<lambda>i. (i, k i)) is)) = mset (map (\<lambda>i. (i, k i)) is)"
  shows "mset (map fst (fsort (map (\<lambda>i. (i, k i)) is))) = mset is"
proof -
  have "mset (map fst (fsort (map (\<lambda>i. (i, k i)) is))) = image_mset fst (mset (map (\<lambda>i. (i, k i)) is))"
    by (simp add: assms)
  also have "\<dots> = mset is" by (induction "is") auto
  finally show ?thesis .
qed

lemma file_blocks_nonzero:
  assumes "small_file f" and "b \<in> set (file_blocks i f w)"
  shows "block_size b \<noteq> 0"
proof -
  obtain k where k: "k < block_count f" "b = file_blocks i f w ! k" using assms(2) by (auto simp: in_set_conv_nth)
  then have "k * unat (m_iBlockSize f) < unat (getCurSize f)" using block_count_less [OF assms(1)] by simp
  then have "0 < unat (block_size b)"
    using file_blocks_nth(2) [OF assms(1) k(1)] k(2) assms(1) by (simp add: small_file_def)
  then show ?thesis by auto
qed

lemma fetched_nonzero: "small_file (new ! i) \<Longrightarrow> b \<in> set (fetched webMcf old new i) \<Longrightarrow> block_size b \<noteq> 0"
  by (auto simp: fetched_def file_blocks_nonzero split: option.splits)

lemma mset_concat_map_cong: "mset xs = mset ys \<Longrightarrow> mset (concat (map F xs)) = mset (concat (map F ys))"
proof -
  have "mset (concat (map F zs)) = \<Sum>\<^sub># (image_mset (\<lambda>x. mset (F x)) (mset zs))" for zs by (induction zs) simp_all
  then show "mset xs = mset ys \<Longrightarrow> ?thesis" by simp
qed

lemma concat_map_filter: "(\<And>x. x \<in> set xs \<Longrightarrow> \<not> P x \<Longrightarrow> F x = []) \<Longrightarrow> concat (map F (filter P xs)) = concat (map F xs)"
  by (induction xs) auto

lemma fill_loop_all:
  assumes temp: "mset temp = mset (filter (\<lambda>i. isSaved (fs ! i)) [0 ..< length fs])" and "\<forall>f\<in>set fs. small_file f"
    and "\<And>x. \<not> stopped x" and s: "fill_files s = fs" "vBlocks s = []"
  shows "\<exists>t. fill_loop stopped False disk fh web temp [0 ..< length temp] s = Some (Inr (t, True))
    \<and> length (fill_files t) = length fs
    \<and> mset (vBlocks t) = mset (concat (map (fetched web fs (fill_files t)) [0 ..< length fs]))
    \<and> (\<forall>b\<in>set (vBlocks t). block_size b \<noteq> 0)"
proof -
  have dist: "distinct temp" using temp by (metis distinct_filter distinct_upt mset_eq_imp_distinct_iff)
  have all: "map ((!) temp) [0 ..< length temp] = temp" by (rule map_nth)
  have "set temp = {i. i < length fs \<and> isSaved (fs ! i)}" using mset_eq_setD [OF temp] by auto
  then have inl: "temp ! x < length fs" "isSaved (fs ! (temp ! x))" if "x < length temp" for x
    using nth_mem [OF that] by auto
  have ok: "\<forall>x\<in>set [0 ..< length temp]. temp ! x < length (fill_files s) \<and> small_file (fill_files s ! (temp ! x))
      \<and> isSaved (fill_files s ! (temp ! x))"
    using inl assms(2) s(1) by simp
  obtain t where t: "fill_loop stopped False disk fh web temp [0 ..< length temp] s = Some (Inr (t, True))"
      "length (fill_files t) = length fs" "\<forall>x\<in>set [0 ..< length temp]. small_file (fill_files t ! (temp ! x))"
      "vBlocks t = concat (map (\<lambda>x. fetched web fs (fill_files t) (temp ! x)) [0 ..< length temp])"
    using fill_loop_result [of temp "[0 ..< length temp]" stopped s disk fh web, unfolded all, OF dist assms(3) ok] s by auto
  let ?F = "fetched web fs (fill_files t)"
  have "map (\<lambda>x. ?F (temp ! x)) [0 ..< length temp] = map ?F (map ((!) temp) [0 ..< length temp])"
    by (simp only: map_map comp_def)
  then have blocks: "vBlocks t = concat (map ?F temp)" using t(4) by (simp only: all)
  have "mset (vBlocks t) = mset (concat (map ?F (filter (\<lambda>i. isSaved (fs ! i)) [0 ..< length fs])))"
    unfolding blocks using temp by (rule mset_concat_map_cong)
  also have "concat (map ?F (filter (\<lambda>i. isSaved (fs ! i)) [0 ..< length fs])) = concat (map ?F [0 ..< length fs])"
    by (rule concat_map_filter) (simp add: fetched_def wanted_def)
  finally have listed: "mset (vBlocks t) = mset (concat (map ?F [0 ..< length fs]))" .
  have "block_size b \<noteq> 0" if b: "b \<in> set (vBlocks t)" for b
  proof -
    obtain i where i: "i \<in> set temp" "b \<in> set (?F i)" using b unfolding blocks by auto
    then have "small_file (fill_files t ! i)" using t(3) by (auto simp: in_set_conv_nth)
    then show ?thesis using i(2) by (rule fetched_nonzero)
  qed
  then show ?thesis using t(1,2) listed by blast
qed

lemma group_blocks_new:
  assumes "\<forall>b\<in>set bs. block_size b \<noteq> 0"
  shows "list_all new_super (group_blocks maxSize bs)"
proof -
  have "set (vBlockList sb) \<subseteq> set bs" if "sb \<in> set (group_blocks maxSize bs)" for sb
  proof -
    have "set bs = set (all_blocks (group_blocks maxSize bs))" using group_blocks_keeps [of maxSize bs] by simp
    then show ?thesis using that by (auto simp: all_blocks_def)
  qed
  then show ?thesis
    using group_blocks_keeps [of maxSize bs] assms by (auto simp: list_all_iff new_super_def good_super_def subset_iff)
qed


text \<open>A file of three bytes, blocks of two bytes, and a provider that has the file elsewhere.\<close>

definition demo_local :: mcf_file where
  "demo_local = MCFFile_new\<lparr>m_iHash := 5, m_iSize := 3, m_iBlockSize := 2\<rparr>"

definition demo_web :: mcf_file where
  "demo_web = demo_local\<lparr>m_llOffset := 100\<rparr>"



end
