(* ===== verification/Item_Branch.thy ===== *)
theory Item_Branch
  imports Desura_Id Util_Xml Util_Codec Util_Path
begin

text \<open>
  Branches of an item: \<^verbatim>\<open>src/src/shared/usercore/code/BranchInfo.cpp\<close> with the flags of \<^verbatim>\<open>BranchInfoI.h\<close>, and
  the choice of a branch in \<^verbatim>\<open>ItemInfo.cpp\<close>. The database rows (sqlite) are not modelled. Disk and process are an
  environment: which files are there, which can be written, the directory for application data.
\<close>

unbundle bit_operations_syntax

section \<open>Flags\<close>

text \<open>A set of flags holds a single flag when its bit is set.\<close>

lemma flag_bit:
  fixes f :: u32
  assumes "f = push_bit n 1" and "n < 32"
  shows "bit f i \<longleftrightarrow> i = n" "HasAnyFlags v f \<longleftrightarrow> bit v n" "HasAllFlags v f \<longleftrightarrow> bit v n"
proof -
  show f: "bit f i \<longleftrightarrow> i = n" for i
    using assms(2) unfolding assms(1) bit_push_bit_iff by (auto simp: bit_1_iff)
  have "v AND f \<noteq> 0 \<longleftrightarrow> (\<exists>i. bit (v AND f) i)" by (metis bit_0_eq bit_eqI bot_apply bot_bool_def)
  then show "HasAnyFlags v f \<longleftrightarrow> bit v n" by (simp add: HasAnyFlags_def bit_and_iff f)
  show "HasAllFlags v f \<longleftrightarrow> bit v n"
    using assms(2) by (auto simp: HasAllFlags_def bit_eq_iff [of "v AND f"] bit_and_iff f)
qed

lemma has_any_or [simp]: "HasAnyFlags v (a OR b) \<longleftrightarrow> HasAnyFlags v a \<or> HasAnyFlags v b"
  by (simp add: HasAnyFlags_def bit.conj_disj_distrib or_eq_0_iff)

lemma has_all_or [simp]: "HasAllFlags v (a OR b) \<longleftrightarrow> HasAllFlags v a \<and> HasAllFlags v b"
proof -
  have "v AND (a OR b) = a OR b \<longleftrightarrow> v AND a = a \<and> v AND b = b"
  proof
    assume h: "v AND (a OR b) = a OR b"
    have "v AND a = a" "v AND b = b"
      by (rule bit_word_eqI, use h in \<open>metis bit_and_iff bit_or_iff\<close>)+
    then show "v AND a = a \<and> v AND b = b" by simp
  qed (simp add: bit.conj_disj_distrib)
  then show ?thesis by (simp add: HasAllFlags_def)
qed

definition BF_DISPLAY_NAME :: u32 where "BF_DISPLAY_NAME = push_bit 1 1"
definition BF_FREE :: u32 where "BF_FREE = push_bit 2 1"
definition BF_ONACCOUNT :: u32 where "BF_ONACCOUNT = push_bit 3 1"
definition BF_REGIONLOCK :: u32 where "BF_REGIONLOCK = push_bit 4 1"
definition BF_MEMBERLOCK :: u32 where "BF_MEMBERLOCK = push_bit 5 1"
definition BF_NORELEASES :: u32 where "BF_NORELEASES = push_bit 6 1"
definition BF_DEMO :: u32 where "BF_DEMO = push_bit 7 1"
definition BF_ACCEPTED_EULA :: u32 where "BF_ACCEPTED_EULA = push_bit 8 1"
definition BF_PREORDER :: u32 where "BF_PREORDER = push_bit 9 1"
definition BF_TEST :: u32 where "BF_TEST = push_bit 10 1"
definition BF_CDKEY :: u32 where "BF_CDKEY = push_bit 11 1"
definition BF_WINDOWS_32 :: u32 where "BF_WINDOWS_32 = push_bit 12 1"
definition BF_WINDOWS_64 :: u32 where "BF_WINDOWS_64 = push_bit 13 1"
definition BF_LINUX_32 :: u32 where "BF_LINUX_32 = push_bit 14 1"
definition BF_LINUX_64 :: u32 where "BF_LINUX_64 = push_bit 15 1"
definition BF_MACOSX :: u32 where "BF_MACOSX = push_bit 16 1"
definition BF_STEAMGAME :: u32 where "BF_STEAMGAME = push_bit 17 1"

lemmas branch_flag_bits [simp] =
  flag_bit [OF BF_DISPLAY_NAME_def, simplified]
  flag_bit [OF BF_FREE_def, simplified]
  flag_bit [OF BF_ONACCOUNT_def, simplified]
  flag_bit [OF BF_REGIONLOCK_def, simplified]
  flag_bit [OF BF_MEMBERLOCK_def, simplified]
  flag_bit [OF BF_NORELEASES_def, simplified]
  flag_bit [OF BF_DEMO_def, simplified]
  flag_bit [OF BF_ACCEPTED_EULA_def, simplified]
  flag_bit [OF BF_PREORDER_def, simplified]
  flag_bit [OF BF_TEST_def, simplified]
  flag_bit [OF BF_CDKEY_def, simplified]
  flag_bit [OF BF_WINDOWS_32_def, simplified]
  flag_bit [OF BF_WINDOWS_64_def, simplified]
  flag_bit [OF BF_LINUX_32_def, simplified]
  flag_bit [OF BF_LINUX_64_def, simplified]
  flag_bit [OF BF_MACOSX_def, simplified]
  flag_bit [OF BF_STEAMGAME_def, simplified]

section \<open>State\<close>

text \<open>What the process gives: files (by full path), writing, the directory for application data, a 64-bit system.\<close>

record item_env =
  valid_file :: "string \<Rightarrow> bool"
  can_write :: "string \<Rightarrow> bool"
  app_data :: string
  is64OS :: bool

definition valid_path :: "item_env \<Rightarrow> string \<Rightarrow> bool" where
  "valid_path env s = valid_file env (getFullPath (Path_ctor s [] True))"

text \<open>Events a branch raises, and the script it writes to disk, in their order.\<close>

datatype branch_event = BranchInfoChanged | BranchCDKeyChanged | ScriptWritten string bytes

text \<open>
  \<open>m_InstallInfo\<close> is the key of the install info in the map of the item, \<open>item_listens\<close> says whether the item is
  registered for the change event.
\<close>

record branch_info =
  m_ItemId_b :: DesuraId
  m_szName_b :: string
  m_szCost :: string
  m_szEulaUrl_b :: string
  m_szEulaDate :: string
  m_szPreOrderDate :: string
  m_szInstallScript :: string
  m_uiInstallScriptCRC :: u32
  m_uiFlags_b :: u32
  m_uiUserId :: u32
  m_uiGlobalId :: MCFBranch
  m_uiBranchId :: MCFBranch
  m_uiLatestBuild :: MCFBuild
  m_vToolList :: "DesuraId list"
  m_vCDKeyList :: "string list"
  m_InstallInfo :: u32
  item_listens :: bool
  branch_events :: "branch_event list"

definition raise_branch :: "branch_event \<Rightarrow> branch_info \<Rightarrow> branch_info" where
  "raise_branch e b = b\<lparr>branch_events := branch_events b @ [e]\<rparr>"

definition add_flag :: "u32 \<Rightarrow> branch_info \<Rightarrow> branch_info" where
  "add_flag f b = b\<lparr>m_uiFlags_b := m_uiFlags_b b OR f\<rparr>"

definition del_flag :: "u32 \<Rightarrow> branch_info \<Rightarrow> branch_info" where
  "del_flag f b = b\<lparr>m_uiFlags_b := m_uiFlags_b b AND NOT f\<rparr>"

text \<open>The constructor; it leaves the CRC of the script uninitialised.\<close>

definition BranchInfo_new :: "MCFBranch \<Rightarrow> DesuraId \<Rightarrow> u32 \<Rightarrow> u32 \<Rightarrow> u32 \<Rightarrow> u32 \<Rightarrow> branch_info" where
  "BranchInfo_new branchId itemId bii platformId userid garbage =
     \<lparr>m_ItemId_b = itemId, m_szName_b = [], m_szCost = [], m_szEulaUrl_b = [], m_szEulaDate = [], m_szPreOrderDate = [],
      m_szInstallScript = [], m_uiInstallScriptCRC = garbage,
      m_uiFlags_b =
        (if platformId = 0 then 0
         else if platformId = 110 then BF_LINUX_32
         else if platformId = 120 then BF_LINUX_64
         else BF_WINDOWS_32),
      m_uiUserId = userid, m_uiGlobalId = MCFBranch_default, m_uiBranchId = branchId, m_uiLatestBuild = 0,
      m_vToolList = [], m_vCDKeyList = [], m_InstallInfo = bii, item_listens = False,
      branch_events = []\<rparr>"

section \<open>Queries\<close>

definition isLinux :: "branch_info \<Rightarrow> bool" where
  "isLinux b \<longleftrightarrow> HasAnyFlags (m_uiFlags_b b) (BF_LINUX_32 OR BF_LINUX_64)"

definition isMacOsX :: "branch_info \<Rightarrow> bool" where
  "isMacOsX b \<longleftrightarrow> HasAnyFlags (m_uiFlags_b b) BF_MACOSX"

definition isWindows :: "branch_info \<Rightarrow> bool" where
  "isWindows b \<longleftrightarrow> HasAnyFlags (m_uiFlags_b b) (BF_WINDOWS_32 OR BF_WINDOWS_64) \<or> \<not> isLinux b \<and> \<not> isMacOsX b"

definition is64Bit :: "branch_info \<Rightarrow> bool" where
  "is64Bit b \<longleftrightarrow> HasAnyFlags (m_uiFlags_b b) (BF_WINDOWS_64 OR BF_LINUX_64) \<or> isMacOsX b"

definition is32Bit :: "branch_info \<Rightarrow> bool" where
  "is32Bit b \<longleftrightarrow> HasAnyFlags (m_uiFlags_b b) (BF_WINDOWS_32 OR BF_LINUX_32) \<or> isMacOsX b \<or> \<not> is64Bit b"

definition isAvaliable :: "branch_info \<Rightarrow> bool" where
  "isAvaliable b \<longleftrightarrow>
     HasAnyFlags (m_uiFlags_b b) (BF_FREE OR BF_ONACCOUNT OR BF_DEMO OR BF_TEST) \<and>
     \<not> (HasAnyFlags (m_uiFlags_b b) (BF_REGIONLOCK OR BF_MEMBERLOCK) \<and> \<not> HasAnyFlags (m_uiFlags_b b) BF_ONACCOUNT)"

definition isDownloadable_branch :: "branch_info \<Rightarrow> bool" where
  "isDownloadable_branch b \<longleftrightarrow> isAvaliable b \<and> \<not> HasAnyFlags (m_uiFlags_b b) BF_NORELEASES"

definition isPreOrder :: "branch_info \<Rightarrow> bool" where
  "isPreOrder b \<longleftrightarrow> isAvaliable b \<and> HasAllFlags (m_uiFlags_b b) BF_PREORDER"

definition isPreOrderAndNotPreload :: "branch_info \<Rightarrow> bool" where
  "isPreOrderAndNotPreload b \<longleftrightarrow> isAvaliable b \<and> HasAllFlags (m_uiFlags_b b) (BF_PREORDER OR BF_NORELEASES)"

definition hasAcceptedEula_branch :: "branch_info \<Rightarrow> bool" where
  "hasAcceptedEula_branch b \<longleftrightarrow> m_szEulaUrl_b b = [] \<or> HasAnyFlags (m_uiFlags_b b) BF_ACCEPTED_EULA"

definition hasCDKey :: "branch_info \<Rightarrow> bool" where
  "hasCDKey b \<longleftrightarrow> HasAllFlags (m_uiFlags_b b) BF_CDKEY"

definition isSteamGame :: "branch_info \<Rightarrow> bool" where
  "isSteamGame b \<longleftrightarrow> HasAllFlags (m_uiFlags_b b) BF_STEAMGAME"

definition isCDKeyValid :: "branch_info \<Rightarrow> bool" where
  "isCDKeyValid b \<longleftrightarrow> m_vCDKeyList b \<noteq> []"

definition getInstallScriptPath :: "branch_info \<Rightarrow> string option" where
  "getInstallScriptPath b = (if m_szInstallScript b \<noteq> [] then Some (m_szInstallScript b) else None)"

section \<open>Changes\<close>

definition acceptEula_branch :: "branch_info \<Rightarrow> branch_info" where
  "acceptEula_branch b = add_flag BF_ACCEPTED_EULA b"

definition setCDKey :: "string \<Rightarrow> branch_info \<Rightarrow> branch_info" where
  "setCDKey key b =
     (if key \<in> set (m_vCDKeyList b) then b
      else raise_branch BranchCDKeyChanged (b\<lparr>m_vCDKeyList := m_vCDKeyList b @ [key]\<rparr>))"

definition addJSTool :: "DesuraId \<Rightarrow> branch_info \<Rightarrow> branch_info" where
  "addJSTool toolId b =
     (if \<exists>t \<in> set (m_vToolList b). DesuraId_eq t toolId then b else b\<lparr>m_vToolList := m_vToolList b @ [toolId]\<rparr>)"

definition setLinkInfo_branch :: "string \<Rightarrow> branch_info \<Rightarrow> branch_info" where
  "setLinkInfo_branch name b = add_flag (BF_LINUX_32 OR BF_LINUX_64) (b\<lparr>m_szName_b := name, m_uiFlags_b := BF_FREE\<rparr>)"

text \<open>CD keys as they are stored: base64 (outside Windows), empty for empty.\<close>

definition encodeCDKey :: "string \<Rightarrow> string" where
  "encodeCDKey raw = (if raw = [] then [] else base64_encode (map byte_of_char raw))"

definition decodeCDKey :: "string \<Rightarrow> string" where
  "decodeCDKey enc = (if enc = [] then [] else map char_of_byte (base64_decode enc))"

subsection \<open>Loading a branch from XML\<close>

definition GetAtt_u32 :: "xml option \<Rightarrow> string \<Rightarrow> u32 \<Rightarrow> u32" where
  "GetAtt_u32 e n outVal = (if GetAtt e n \<noteq> [] then Safe_atoi (Some (GetAtt e n)) else outVal)"

definition GetChild_str :: "xml \<Rightarrow> string \<Rightarrow> string \<Rightarrow> string" where
  "GetChild_str e n s = GetChild e n (\<lambda>t _. t) s"

definition getAppDataPath :: "item_env \<Rightarrow> string \<Rightarrow> string" where
  "getAppDataPath env extra = app_data env @ (if extra \<noteq> [] then CHR ''/'' # extra else [])"

definition script_path :: "item_env \<Rightarrow> branch_info \<Rightarrow> string" where
  "script_path env b =
     getAppDataPath env (getFolderPathExtension (m_ItemId_b b) None @ [CHR 0x5C]
       @ dec_digits (unat (MCFBranch.m_uiBranch (m_uiBranchId b))) @ [CHR 0x5C] @ ''install_script.js'')"

definition processInstallScript :: "item_env \<Rightarrow> xml \<Rightarrow> branch_info \<Rightarrow> branch_info" where
  "processInstallScript env e b =
     (let crc = GetAtt_u32 (Some e) ''crc'' 0; there = valid_path env (m_szInstallScript b)
      in if there \<and> crc \<noteq> 0 \<and> m_uiInstallScriptCRC b = crc then b
         else
           let b' = (if there then b else b\<lparr>m_szInstallScript := script_path env b\<rparr>)
           in if can_write env (m_szInstallScript b') then
                raise_branch (ScriptWritten (m_szInstallScript b') (base64_decode (GetText (Some e))))
                  (b'\<lparr>m_uiInstallScriptCRC := crc\<rparr>)
              else b'\<lparr>m_szInstallScript := []\<rparr>)"

definition load_eula :: "xml \<Rightarrow> branch_info \<Rightarrow> branch_info" where
  "load_eula e b =
     (case FirstChildElement e ''eula'' of None \<Rightarrow> b
      | Some n \<Rightarrow>
          let date = GetAtt (Some n) ''date''
          in if date \<noteq> [] \<and> m_szEulaDate b \<noteq> date
             then (del_flag BF_ACCEPTED_EULA b)\<lparr>m_szEulaDate := date\<rparr> else b)"

definition load_preload :: "xml \<Rightarrow> branch_info \<Rightarrow> branch_info" where
  "load_preload e b =
     (let preload = GetChild_str e ''preload'' []
      in if m_szPreOrderDate b \<noteq> [] \<and> (preload = [] \<or> preload = ''0'') then
           raise_branch BranchInfoChanged (del_flag BF_PREORDER (b\<lparr>m_szPreOrderDate := []\<rparr>))
         else if preload \<noteq> ''0'' then
           raise_branch BranchInfoChanged (add_flag BF_PREORDER (b\<lparr>m_szPreOrderDate := preload\<rparr>))
         else b)"

definition flag_if :: "bool \<Rightarrow> u32 \<Rightarrow> branch_info \<Rightarrow> branch_info" where
  "flag_if c f b = (if c then add_flag f b else b)"

definition load_flags :: "xml \<Rightarrow> branch_info \<Rightarrow> branch_info" where
  "load_flags e b =
     (let b1 = flag_if (GetChild_bool e ''nameon'' False) BF_DISPLAY_NAME b;
          b2 = flag_if (GetChild_bool e ''free'' False) BF_FREE b1;
          b3 = flag_if (GetChild_bool e ''onaccount'' False) BF_ONACCOUNT b2;
          b4 = flag_if (GetChild_bool e ''regionlock'' False) BF_REGIONLOCK b3;
          b5 = flag_if (GetChild_bool e ''inviteonly'' False) BF_MEMBERLOCK b4;
          b6 = flag_if (GetChild_bool e ''demo'' False) BF_DEMO b5;
          b7 = flag_if (GetChild_bool e ''test'' False) BF_TEST b6;
          b8 = flag_if (GetChild_bool e ''cdkey'' False) BF_CDKEY b7
      in flag_if (GetAtt (FirstChildElement e ''cdkey'') ''type'' = ''steam'') BF_STEAMGAME b8)"

definition load_mcf :: "xml \<Rightarrow> branch_info \<Rightarrow> branch_info" where
  "load_mcf e b =
     (case FirstChildElement e ''mcf'' of
        None \<Rightarrow> add_flag BF_NORELEASES b
      | Some n \<Rightarrow> (del_flag BF_NORELEASES b)\<lparr>m_uiLatestBuild := BuildFromInt (GetChild_u32 n ''build'' (- 1))\<rparr>)"

definition load_tools :: "xml \<Rightarrow> branch_info \<Rightarrow> branch_info" where
  "load_tools e b =
     (case FirstChildElement e ''tools'' of None \<Rightarrow> b
      | Some n \<Rightarrow>
          b\<lparr>m_vToolList :=
              map (\<lambda>i. DesuraId_of_strings (Some i) (Some ''tools''))
                (filter (\<lambda>i. i \<noteq> []) (map (\<lambda>c. GetText (Some c)) (for_each_child n ''tool'')))\<rparr>)"

definition loadXmlData_branch :: "item_env \<Rightarrow> xml \<Rightarrow> branch_info \<Rightarrow> branch_info" where
  "loadXmlData_branch env e b =
     (let b1 = b\<lparr>m_szName_b := GetChild_str e ''name'' (m_szName_b b),
                 m_szCost := GetChild_str e ''price'' (m_szCost b),
                 m_szEulaUrl_b := GetChild_str e ''eula'' (m_szEulaUrl_b b)\<rparr>;
          b2 = load_preload e (load_eula e b1);
          global = GetChild_u32 e ''global'' (- 1);
          b3 = (if global \<noteq> - 1 then b2\<lparr>m_uiGlobalId := BranchFromInt global True\<rparr> else b2);
          b4 = load_tools e (load_mcf e (load_flags e b3))
      in case FirstChildElement e ''installscript'' of None \<Rightarrow> b4 | Some n \<Rightarrow> processInstallScript env n b4)"

section \<open>Choosing a branch\<close>

definition branch_int :: "branch_info \<Rightarrow> u32" where
  "branch_int b = MCFBranch.m_uiBranch (m_uiBranchId b)"

text \<open>What \<open>shortListBranches\<close> lets through.\<close>

definition short_listed :: "item_env \<Rightarrow> bool \<Rightarrow> branch_info \<Rightarrow> bool" where
  "short_listed env ignoreDemo b =
     (let flags = m_uiFlags_b b;
          noRelease = HasAllFlags flags BF_NORELEASES; isPreorder = isPreOrder b
      in if noRelease \<and> \<not> isPreorder then False
         else
           let free = HasAnyFlags flags BF_FREE; onAccount = HasAllFlags flags BF_ONACCOUNT;
               locked = HasAnyFlags flags (BF_MEMBERLOCK OR BF_REGIONLOCK)
           in if \<not> onAccount \<and> (locked \<or> \<not> free) then False
              else
                let isDemo = HasAnyFlags flags BF_DEMO; test = HasAnyFlags flags BF_TEST
                in if \<not> ignoreDemo \<and> isDemo \<or> test then False
                   else if \<not> is64OS env \<and> is64Bit b then False
                   else True)"

definition shortListBranches :: "item_env \<Rightarrow> bool \<Rightarrow> branch_info list \<Rightarrow> branch_info list" where
  "shortListBranches env ignoreDemo list = filter (short_listed env ignoreDemo) list"

definition selectBestBranch :: "item_env \<Rightarrow> branch_info list \<Rightarrow> MCFBranch" where
  "selectBestBranch env list =
     (if length list = 1 then m_uiBranchId (list ! 0)
      else
        let first = shortListBranches env True list;
            short1 = (if first = [] then shortListBranches env False list else first);
            hasWin = (\<exists>b \<in> set list. isWindows b); hasNix = (\<exists>b \<in> set list. isLinux b);
            short2 = (if hasWin \<and> hasNix then filter isLinux short1 else short1);
            short3 = (if length short2 > 1 \<and> is64OS env
                      then (if filter is64Bit short2 = [] then short2 else filter is64Bit short2)
                      else short2)
        in if length short3 = 1 then m_uiBranchId (short3 ! 0) else BranchFromInt 0 False)"


section \<open>Lemmas\<close>

lemma some_platform: "isWindows b \<or> isLinux b \<or> isMacOsX b"
  by (auto simp: isWindows_def)

lemma some_width: "is32Bit b \<or> is64Bit b"
  by (auto simp: is32Bit_def)

lemma setCDKey_distinct: "distinct (m_vCDKeyList b) \<Longrightarrow> distinct (m_vCDKeyList (setCDKey key b))"
  by (simp add: setCDKey_def raise_branch_def)

lemma addJSTool_distinct: "distinct (m_vToolList b) \<Longrightarrow> distinct (m_vToolList (addJSTool t b))"
  by (auto simp: addJSTool_def)

text \<open>The parts of loading that leave a field alone.\<close>

named_theorems branch_frame

lemma flag_ops_frame [branch_frame]:
  "m_uiFlags_b (raise_branch ev b) = m_uiFlags_b b" "m_uiFlags_b (add_flag f b) = m_uiFlags_b b OR f"
  "m_uiFlags_b (del_flag f b) = m_uiFlags_b b AND NOT f"
  "m_szPreOrderDate (add_flag f b) = m_szPreOrderDate b" "m_szPreOrderDate (del_flag f b) = m_szPreOrderDate b"
  "m_szPreOrderDate (raise_branch ev b) = m_szPreOrderDate b"
  "m_szEulaDate (add_flag f b) = m_szEulaDate b" "m_szEulaDate (del_flag f b) = m_szEulaDate b"
  "m_uiBranchId (raise_branch ev b) = m_uiBranchId b" "m_uiBranchId (add_flag f b) = m_uiBranchId b"
  "m_uiBranchId (del_flag f b) = m_uiBranchId b" "m_InstallInfo (raise_branch ev b) = m_InstallInfo b"
  "m_InstallInfo (add_flag f b) = m_InstallInfo b" "m_InstallInfo (del_flag f b) = m_InstallInfo b"
  by (simp_all add: raise_branch_def add_flag_def del_flag_def)

lemma flag_if_frame [branch_frame]:
  "m_uiFlags_b (flag_if c f b) = (if c then m_uiFlags_b b OR f else m_uiFlags_b b)"
  "m_uiBranchId (flag_if c f b) = m_uiBranchId b" "m_InstallInfo (flag_if c f b) = m_InstallInfo b"
  by (simp_all add: flag_if_def branch_frame)

lemma processInstallScript_frame [branch_frame]:
  "m_uiFlags_b (processInstallScript env e b) = m_uiFlags_b b"
  "m_uiBranchId (processInstallScript env e b) = m_uiBranchId b"
  "m_InstallInfo (processInstallScript env e b) = m_InstallInfo b"
  by (simp_all add: processInstallScript_def Let_def branch_frame)

lemma load_tools_frame [branch_frame]:
  "m_uiFlags_b (load_tools e b) = m_uiFlags_b b" "m_uiBranchId (load_tools e b) = m_uiBranchId b"
  "m_InstallInfo (load_tools e b) = m_InstallInfo b"
  by (simp_all add: load_tools_def split: option.split)

lemma load_id_frame [branch_frame]:
  "m_uiBranchId (load_flags e b) = m_uiBranchId b" "m_uiBranchId (load_mcf e b) = m_uiBranchId b"
  "m_uiBranchId (load_preload e b) = m_uiBranchId b" "m_uiBranchId (load_eula e b) = m_uiBranchId b"
  "m_InstallInfo (load_flags e b) = m_InstallInfo b" "m_InstallInfo (load_mcf e b) = m_InstallInfo b"
  "m_InstallInfo (load_preload e b) = m_InstallInfo b" "m_InstallInfo (load_eula e b) = m_InstallInfo b"
  by (simp_all add: load_flags_def load_mcf_def load_preload_def load_eula_def Let_def branch_frame split: option.split)

lemma loadXmlData_branch_keeps_id [simp]:
  "m_uiBranchId (loadXmlData_branch env e b) = m_uiBranchId b"
  "m_InstallInfo (loadXmlData_branch env e b) = m_InstallInfo b"
  by (simp_all add: loadXmlData_branch_def Let_def branch_frame split: option.split)

subsection \<open>The flags a branch has after loading\<close>

definition preload_text :: "xml \<Rightarrow> string" where
  "preload_text e = GetChild_str e ''preload'' []"

definition new_eula :: "xml \<Rightarrow> branch_info \<Rightarrow> bool" where
  "new_eula e b \<longleftrightarrow>
     (let date = GetAtt (FirstChildElement e ''eula'') ''date'' in date \<noteq> [] \<and> m_szEulaDate b \<noteq> date)"

definition preorder_after :: "xml \<Rightarrow> branch_info \<Rightarrow> bool" where
  "preorder_after e b \<longleftrightarrow>
     (if preload_text e = ''0'' then m_szPreOrderDate b = [] \<and> bit (m_uiFlags_b b) 9
      else preload_text e \<noteq> [] \<or> m_szPreOrderDate b = [])"

definition flag_child :: "nat \<Rightarrow> string" where
  "flag_child i = (if i = 1 then ''nameon'' else if i = 2 then ''free'' else if i = 3 then ''onaccount''
     else if i = 4 then ''regionlock'' else if i = 5 then ''inviteonly'' else if i = 7 then ''demo''
     else if i = 10 then ''test'' else ''cdkey'')"

lemma bit_and_not [simp]: "bit (v AND NOT f) i \<longleftrightarrow> bit v i \<and> \<not> bit f i" for v f :: u32
  by (auto simp: bit_and_iff bit_not_iff dest: bit_imp_le_length)

lemma flag_if_bit: "bit (m_uiFlags_b (flag_if c f b)) i \<longleftrightarrow> bit (m_uiFlags_b b) i \<or> c \<and> bit f i"
  by (simp add: branch_frame bit_or_iff)

lemma load_flags_bit:
  "bit (m_uiFlags_b (load_flags e b)) i \<longleftrightarrow> bit (m_uiFlags_b b) i
     \<or> i \<in> {1, 2, 3, 4, 5, 7, 10, 11} \<and> GetChild_bool e (flag_child i) False
     \<or> i = 17 \<and> GetAtt (FirstChildElement e ''cdkey'') ''type'' = ''steam''"
  unfolding load_flags_def Let_def flag_if_bit branch_flag_bits flag_child_def by auto

lemma load_preload_bit:
  "bit (m_uiFlags_b (load_preload e b)) i \<longleftrightarrow> (if i = 9 then preorder_after e b else bit (m_uiFlags_b b) i)"
  by (auto simp: load_preload_def preorder_after_def preload_text_def Let_def branch_frame bit_or_iff)

lemma load_eula_bit:
  "bit (m_uiFlags_b (load_eula e b)) i \<longleftrightarrow> bit (m_uiFlags_b b) i \<and> (i = 8 \<longrightarrow> \<not> new_eula e b)"
  by (auto simp: load_eula_def new_eula_def Let_def GetAtt_def branch_frame split: option.split)

lemma load_mcf_bit:
  "bit (m_uiFlags_b (load_mcf e b)) i \<longleftrightarrow>
     (if i = 6 then FirstChildElement e ''mcf'' = None else bit (m_uiFlags_b b) i)"
  by (auto simp: load_mcf_def branch_frame bit_or_iff split: option.split)

lemma load_eula_date: "m_szPreOrderDate (load_eula e b) = m_szPreOrderDate b"
  by (simp add: load_eula_def Let_def branch_frame split: option.split)

lemma preorder_after_eula [simp]: "preorder_after e (load_eula e b) = preorder_after e b"
  by (simp add: preorder_after_def load_eula_date load_eula_bit)

lemma preorder_after_cong:
  "m_szPreOrderDate b' = m_szPreOrderDate b \<Longrightarrow> m_uiFlags_b b' = m_uiFlags_b b
    \<Longrightarrow> preorder_after e b' = preorder_after e b"
  by (simp add: preorder_after_def)

lemma loaded_branch_bit:
  "bit (m_uiFlags_b (loadXmlData_branch env e b)) i \<longleftrightarrow>
     (if i = 9 then preorder_after e b
      else if i = 6 then FirstChildElement e ''mcf'' = None
      else if i = 8 then bit (m_uiFlags_b b) 8 \<and> \<not> new_eula e b
      else bit (m_uiFlags_b b) i \<or> i \<in> {1, 2, 3, 4, 5, 7, 10, 11} \<and> GetChild_bool e (flag_child i) False
        \<or> i = 17 \<and> GetAtt (FirstChildElement e ''cdkey'') ''type'' = ''steam'')"
proof -
  define b1 where "b1 = b\<lparr>m_szName_b := GetChild_str e ''name'' (m_szName_b b),
    m_szCost := GetChild_str e ''price'' (m_szCost b), m_szEulaUrl_b := GetChild_str e ''eula'' (m_szEulaUrl_b b)\<rparr>"
  define b2 where "b2 = load_preload e (load_eula e b1)"
  have "bit (m_uiFlags_b (loadXmlData_branch env e b)) i \<longleftrightarrow> bit (m_uiFlags_b (load_mcf e (load_flags e
      (if GetChild_u32 e ''global'' (- 1) \<noteq> - 1
       then b2\<lparr>m_uiGlobalId := BranchFromInt (GetChild_u32 e ''global'' (- 1)) True\<rparr> else b2)))) i"
    unfolding loadXmlData_branch_def b1_def [symmetric] Let_def b2_def [symmetric]
    by (simp add: branch_frame split: option.split)
  also have "\<dots> \<longleftrightarrow> (if i = 6 then FirstChildElement e ''mcf'' = None else bit (m_uiFlags_b b2) i
       \<or> i \<in> {1, 2, 3, 4, 5, 7, 10, 11} \<and> GetChild_bool e (flag_child i) False
       \<or> i = 17 \<and> GetAtt (FirstChildElement e ''cdkey'') ''type'' = ''steam'')"
    by (simp add: load_mcf_bit load_flags_bit)
  finally show ?thesis
    by (auto simp: b2_def b1_def load_preload_bit load_eula_bit preorder_after_def new_eula_def load_eula_date)
qed


text \<open>After a branch is loaded from XML it is a pre-order unless its preload text is 0, or missing while it was one with a date; it has no releases exactly when no archive is named; a new licence date takes the acceptance back; and every other flag is kept or added, never removed.\<close>

theorem loaded_branch_flags:
  "bit (m_uiFlags_b (loadXmlData_branch env e b)) i \<longleftrightarrow>
     (if i = 9 then preorder_after e b
      else if i = 6 then FirstChildElement e ''mcf'' = None
      else if i = 8 then bit (m_uiFlags_b b) 8 \<and> \<not> new_eula e b
      else bit (m_uiFlags_b b) i \<or> i \<in> {1, 2, 3, 4, 5, 7, 10, 11} \<and> GetChild_bool e (flag_child i) False
        \<or> i = 17 \<and> GetAtt (FirstChildElement e ''cdkey'') ''type'' = ''steam'')"
  by (rule loaded_branch_bit)

text \<open>A branch of which the service says nothing about a preload is flagged as a pre-order when it is loaded.\<close>

lemma no_preload_is_preorder:
  "preload_text e = [] \<Longrightarrow> m_szPreOrderDate b = [] \<Longrightarrow> HasAllFlags (m_uiFlags_b (loadXmlData_branch env e b)) BF_PREORDER"
  by (simp add: loaded_branch_bit preorder_after_def)

subsection \<open>Keys\<close>

text \<open>A stored key reads back, unless it is empty; a set of keys stays free of repetitions.\<close>

lemma decode_encode_CDKey: "decodeCDKey (encodeCDKey key) = key"
proof (cases key)
  case (Cons c cs)
  have dec: "base64_decode (base64_encode (map byte_of_char key)) = map byte_of_char key"
    using base64.dec_enc [of "map byte_of_char key"] by simp
  have "base64_encode (map byte_of_char key) \<noteq> []"
  proof
    assume "base64_encode (map byte_of_char key) = []"
    with dec have "base64_decode [] = map byte_of_char key" by simp
    then show False using Cons by (simp add: base64_decode_def b64_finish_def)
  qed
  then show ?thesis using dec Cons by (simp add: decodeCDKey_def encodeCDKey_def comp_def)
qed (simp add: decodeCDKey_def encodeCDKey_def)

section \<open>The best branch\<close>

text \<open>
  What the choice should be: among the branches that may be installed here (released or a pre-order, bought or free and
  not locked, not a test, for this system), of Linux where both systems are offered, of 64 bits where some are, the one
  that is left when it is alone.
\<close>

definition installable :: "item_env \<Rightarrow> branch_info \<Rightarrow> bool" where
  "installable env b \<longleftrightarrow>
     (let f = m_uiFlags_b b
      in (bit f 6 \<longrightarrow> isPreOrder b) \<and> (bit f 3 \<or> bit f 2 \<and> \<not> bit f 4 \<and> \<not> bit f 5) \<and> \<not> bit f 10
         \<and> (is64OS env \<or> \<not> is64Bit b))"

definition mixed :: "branch_info list \<Rightarrow> bool" where
  "mixed list \<longleftrightarrow> (\<exists>b \<in> set list. isWindows b) \<and> (\<exists>b \<in> set list. isLinux b)"

definition fits_system :: "item_env \<Rightarrow> branch_info list \<Rightarrow> branch_info \<Rightarrow> bool" where
  "fits_system env list b \<longleftrightarrow> installable env b \<and> (mixed list \<longrightarrow> isLinux b)"

definition best :: "item_env \<Rightarrow> branch_info list \<Rightarrow> branch_info \<Rightarrow> bool" where
  "best env list b \<longleftrightarrow> fits_system env list b \<and>
     (is64OS env \<and> (\<exists>c \<in> set list. fits_system env list c \<and> is64Bit c) \<longrightarrow> is64Bit b)"

lemma short_listed_True: "short_listed env True b = installable env b"
  by (auto simp: short_listed_def installable_def Let_def)

lemma short_listed_False: "short_listed env False b \<Longrightarrow> installable env b"
  by (auto simp: short_listed_def installable_def Let_def split: if_splits)

text \<open>The second pass, without the demos, finds nothing that the first has not found.\<close>

lemma second_pass: "(if shortListBranches env True list = [] then shortListBranches env False list
    else shortListBranches env True list) = filter (installable env) list"
proof -
  have "filter (short_listed env True) list = filter (installable env) list"
    by (rule filter_cong) (simp_all add: short_listed_True)
  then show ?thesis
    using short_listed_False by (auto simp: shortListBranches_def filter_empty_conv)
qed

lemma prefer_64:
  "(if length xs > 1 \<and> w then (if filter P xs = [] then xs else filter P xs) else xs)
    = filter (\<lambda>x. w \<and> (\<exists>y \<in> set xs. P y) \<longrightarrow> P x) xs"
proof (cases "length xs > 1")
  case False
  then show ?thesis by (cases xs) auto
qed (auto simp: filter_empty_conv filter_True)

text \<open>C26: The best branch of a list: a single branch is taken as it is, unchecked. Of several it is the one that is left, when
  exactly one is left, of those that may be installed, are for Linux if the list offers branches for both Windows and
  Linux, and have 64 bits if the system has and such a one is among them; otherwise there is none.\<close>

theorem selectBestBranch_best:
  "selectBestBranch env list =
    (case list of [b] \<Rightarrow> m_uiBranchId b
     | _ \<Rightarrow> (case filter (best env list) list of [b] \<Rightarrow> m_uiBranchId b | _ \<Rightarrow> BranchFromInt 0 False))"
proof (cases "length list = 1")
  case True
  then obtain b where "list = [b]" by (auto simp: length_Suc_conv)
  then show ?thesis by (simp add: selectBestBranch_def)
next
  case False
  have two: "(if mixed list then filter isLinux (filter (installable env) list) else filter (installable env) list)
      = filter (fits_system env list) list"
    by (auto simp: fits_system_def intro: filter_cong)
  have three: "filter (\<lambda>x. is64OS env \<and> (\<exists>y \<in> set (filter (fits_system env list) list). is64Bit y) \<longrightarrow> is64Bit x)
      (filter (fits_system env list) list) = filter (best env list) list"
    unfolding filter_filter by (rule filter_cong) (auto simp: best_def)
  have "selectBestBranch env list = (let short3 = filter (best env list) list
      in if length short3 = 1 then m_uiBranchId (short3 ! 0) else BranchFromInt 0 False)"
    using False unfolding selectBestBranch_def Let_def second_pass mixed_def [symmetric] two prefer_64 three by simp
  moreover have "(case list of [b] \<Rightarrow> x b | _ \<Rightarrow> y) = y" for x :: "branch_info \<Rightarrow> MCFBranch" and y
    using False by (auto split: list.split)
  ultimately show ?thesis by (auto simp: Let_def split: list.split)
qed

definition demo_branch :: "u32 \<Rightarrow> u32 \<Rightarrow> branch_info" where
  "demo_branch i f = (BranchInfo_new (BranchFromInt i False) \<lparr>m_uiItemId = 2, m_uiType = TYPE_GAME\<rparr> 0 0 1 0)\<lparr>m_uiFlags_b := f\<rparr>"

definition demo_env :: item_env where
  "demo_env = \<lparr>valid_file = (\<lambda>_. False), can_write = (\<lambda>_. True), app_data = ''/d'', is64OS = True\<rparr>"

theorem selectBestBranch_best_witness:
  "selectBestBranch demo_env [demo_branch 7 (BF_FREE OR BF_LINUX_32), demo_branch 9 (BF_FREE OR BF_LINUX_64)]
     = BranchFromInt 9 False"
  using selectBestBranch_best [of demo_env "[demo_branch 7 (BF_FREE OR BF_LINUX_32), demo_branch 9 (BF_FREE OR BF_LINUX_64)]"]
  by (simp add: best_def fits_system_def installable_def mixed_def demo_branch_def demo_env_def BranchInfo_new_def
      Let_def isWindows_def isLinux_def isMacOsX_def is64Bit_def bit_or_iff)

end
