(* ===== verification/Item_Flags.thy ===== *)
theory Item_Flags
  imports Item_Branch
begin

text \<open>
  The flags of an item: its status, options and changes (\<^verbatim>\<open>src/src/include/usercore/ItemInfoI.h\<close>).
\<close>

unbundle bit_operations_syntax

section \<open>Status\<close>

definition STATUS_INSTALLED :: u32 where "STATUS_INSTALLED = push_bit 1 1"
definition STATUS_ONACCOUNT :: u32 where "STATUS_ONACCOUNT = push_bit 2 1"
definition STATUS_ONCOMPUTER :: u32 where "STATUS_ONCOMPUTER = push_bit 3 1"
definition STATUS_READY :: u32 where "STATUS_READY = push_bit 4 1"
definition STATUS_UPDATING :: u32 where "STATUS_UPDATING = push_bit 5 1"
definition STATUS_DOWNLOADING :: u32 where "STATUS_DOWNLOADING = push_bit 6 1"
definition STATUS_INSTALLING :: u32 where "STATUS_INSTALLING = push_bit 7 1"
definition STATUS_UPLOADING :: u32 where "STATUS_UPLOADING = push_bit 8 1"
definition STATUS_VERIFING :: u32 where "STATUS_VERIFING = push_bit 9 1"
definition STATUS_DEVELOPER :: u32 where "STATUS_DEVELOPER = push_bit 10 1"
definition STATUS_STUB :: u32 where "STATUS_STUB = push_bit 11 1"
definition STATUS_UPDATEAVAL :: u32 where "STATUS_UPDATEAVAL = push_bit 13 1"
definition STATUS_DELETED :: u32 where "STATUS_DELETED = push_bit 14 1"
definition STATUS_NONDOWNLOADABLE :: u32 where "STATUS_NONDOWNLOADABLE = push_bit 15 1"
definition STATUS_NEEDCLEANUP :: u32 where "STATUS_NEEDCLEANUP = push_bit 16 1"
definition STATUS_PAUSED :: u32 where "STATUS_PAUSED = push_bit 17 1"
definition STATUS_UNAUTHED :: u32 where "STATUS_UNAUTHED = push_bit 18 1"
definition STATUS_PAUSABLE :: u32 where "STATUS_PAUSABLE = push_bit 19 1"
definition STATUS_INSTALLCOMPLEX :: u32 where "STATUS_INSTALLCOMPLEX = push_bit 20 1"
definition STATUS_LINK :: u32 where "STATUS_LINK = push_bit 21 1"
definition STATUS_GLOBAL :: u32 where "STATUS_GLOBAL = push_bit 23 1"
definition STATUS_LAUNCHED :: u32 where "STATUS_LAUNCHED = push_bit 24 1"
definition STATUS_DLC :: u32 where "STATUS_DLC = push_bit 25 1"
definition STATUS_PRELOADED :: u32 where "STATUS_PRELOADED = push_bit 26 1"

lemmas status_bits [simp] =
  flag_bit [OF STATUS_INSTALLED_def, simplified]
  flag_bit [OF STATUS_ONACCOUNT_def, simplified]
  flag_bit [OF STATUS_ONCOMPUTER_def, simplified]
  flag_bit [OF STATUS_READY_def, simplified]
  flag_bit [OF STATUS_UPDATING_def, simplified]
  flag_bit [OF STATUS_DOWNLOADING_def, simplified]
  flag_bit [OF STATUS_INSTALLING_def, simplified]
  flag_bit [OF STATUS_UPLOADING_def, simplified]
  flag_bit [OF STATUS_VERIFING_def, simplified]
  flag_bit [OF STATUS_DEVELOPER_def, simplified]
  flag_bit [OF STATUS_STUB_def, simplified]
  flag_bit [OF STATUS_UPDATEAVAL_def, simplified]
  flag_bit [OF STATUS_DELETED_def, simplified]
  flag_bit [OF STATUS_NONDOWNLOADABLE_def, simplified]
  flag_bit [OF STATUS_NEEDCLEANUP_def, simplified]
  flag_bit [OF STATUS_PAUSED_def, simplified]
  flag_bit [OF STATUS_UNAUTHED_def, simplified]
  flag_bit [OF STATUS_PAUSABLE_def, simplified]
  flag_bit [OF STATUS_INSTALLCOMPLEX_def, simplified]
  flag_bit [OF STATUS_LINK_def, simplified]
  flag_bit [OF STATUS_GLOBAL_def, simplified]
  flag_bit [OF STATUS_LAUNCHED_def, simplified]
  flag_bit [OF STATUS_DLC_def, simplified]
  flag_bit [OF STATUS_PRELOADED_def, simplified]

section \<open>Changes\<close>

definition CHANGED_ICON :: u32 where "CHANGED_ICON = push_bit 1 1"
definition CHANGED_LOGO :: u32 where "CHANGED_LOGO = push_bit 2 1"
definition CHANGED_STATUS :: u32 where "CHANGED_STATUS = push_bit 3 1"
definition CHANGED_PERCENT :: u32 where "CHANGED_PERCENT = push_bit 4 1"
definition CHANGED_INFO :: u32 where "CHANGED_INFO = push_bit 5 1"

lemmas changed_bits [simp] =
  flag_bit [OF CHANGED_ICON_def, simplified]
  flag_bit [OF CHANGED_LOGO_def, simplified]
  flag_bit [OF CHANGED_STATUS_def, simplified]
  flag_bit [OF CHANGED_PERCENT_def, simplified]
  flag_bit [OF CHANGED_INFO_def, simplified]

section \<open>Options\<close>

text \<open>Options have eight bits; not to update is the empty set.\<close>

definition OPTION_NOUPDATE :: u8 where "OPTION_NOUPDATE = 0"
definition OPTION_PROMPTUPDATE :: u8 where "OPTION_PROMPTUPDATE = push_bit 1 1"
definition OPTION_AUTOUPDATE :: u8 where "OPTION_AUTOUPDATE = push_bit 2 1"
definition OPTION_NOTREMINDUPDATE :: u8 where "OPTION_NOTREMINDUPDATE = push_bit 3 1"
definition OPTION_REMOVEFILES :: u8 where "OPTION_REMOVEFILES = push_bit 4 1"
definition OPTION_DONTPROMPTGAMEDISK :: u8 where "OPTION_DONTPROMPTGAMEDISK = push_bit 5 1"
definition OPTION_NOTREMINDUPDATE_ONETIME :: u8 where "OPTION_NOTREMINDUPDATE_ONETIME = push_bit 6 1"

lemmas option_flags =
  OPTION_NOUPDATE_def OPTION_PROMPTUPDATE_def OPTION_AUTOUPDATE_def OPTION_NOTREMINDUPDATE_def OPTION_REMOVEFILES_def
  OPTION_DONTPROMPTGAMEDISK_def OPTION_NOTREMINDUPDATE_ONETIME_def

end
