(* ===== verification/Util_Wildcard.thy ===== *)
theory Util_Wildcard
  imports Util_Path Util_Xml
begin

text \<open>
  Wildcards in paths: \<^verbatim>\<open>src/src/static/managers/code/WildcardManager.cpp\<close> with the map of
  \<^verbatim>\<open>BaseManager.h\<close>. A manager keeps named wildcards under the hash of their name. \<open>constructPath\<close> replaces each
  \<open>%name%\<close> of a path by the path of that wildcard, itself expanded, and stores the expansions it finds. Strings hold
  no NUL and are shorter than 2 GiB (positions are \<open>int32\<close> in the code). A call that goes down deeper than its fuel
  is \<open>None\<close>; an exception keeps the state reached.
\<close>

section \<open>The manager\<close>

record wildcard =
  m_szName_wc :: string
  m_szPath_wc :: string
  m_szType_wc :: string
  m_bResolved :: bool

definition WildcardInfo :: "string \<Rightarrow> string \<Rightarrow> string \<Rightarrow> bool \<Rightarrow> wildcard" where
  "WildcardInfo name path type resolved =
     \<lparr>m_szName_wc = name, m_szPath_wc = path, m_szType_wc = type, m_bResolved = resolved\<rparr>"

text \<open>
  The items in the order of their hashes, the handlers of the two events (what an event with this name and result is
  answered with, if any handler answers) and the registry (\<open>getConfigValue\<close>), which the process gives.
\<close>

record wc_manager =
  m_mItemMap :: "(u64 \<times> wildcard) list"
  onNeedSpecialEvent :: "string \<Rightarrow> string \<Rightarrow> string option"
  onNeedInstallSpecialEvent :: "string \<Rightarrow> string \<Rightarrow> string option"
  registry :: "string \<Rightarrow> bool \<Rightarrow> string"

definition name_hash :: "string \<Rightarrow> u64" where
  "name_hash name = ucast (FastRSHash name)"

definition findItem_key :: "u64 \<Rightarrow> wc_manager \<Rightarrow> wildcard option" where
  "findItem_key k m = map_of (m_mItemMap m) k"

definition findItem :: "string \<Rightarrow> wc_manager \<Rightarrow> wildcard option" where
  "findItem name m = findItem_key (name_hash name) m"

text \<open>\<open>std::map::insert\<close> keeps an item that is there.\<close>

definition addItem_key :: "u64 \<Rightarrow> wildcard \<Rightarrow> wc_manager \<Rightarrow> wc_manager" where
  "addItem_key k w m =
     (if map_of (m_mItemMap m) k \<noteq> None then m
      else m\<lparr>m_mItemMap := insort_key fst (k, w) (m_mItemMap m)\<rparr>)"

definition addItem_wc :: "wildcard \<Rightarrow> wc_manager \<Rightarrow> wc_manager" where
  "addItem_wc w m = addItem_key (name_hash (m_szName_wc w)) w m"

text \<open>An assignment through a pointer to the item of a key.\<close>

definition change_item :: "u64 \<Rightarrow> (wildcard \<Rightarrow> wildcard) \<Rightarrow> wc_manager \<Rightarrow> wc_manager" where
  "change_item k f m =
     m\<lparr>m_mItemMap := map (\<lambda>(k', w). if k' = k then (k', f w) else (k', w)) (m_mItemMap m)\<rparr>"

definition getItem :: "u32 \<Rightarrow> wc_manager \<Rightarrow> wildcard option" where
  "getItem index m =
     (if unat index < length (m_mItemMap m) then Some (snd (m_mItemMap m ! unat index)) else None)"

definition getCount_wc :: "wc_manager \<Rightarrow> u32" where
  "getCount_wc m = of_nat (length (m_mItemMap m))"

text \<open>The copy constructor: its counter has eight bits.\<close>

partial_function (option) copy_items :: "wc_manager \<Rightarrow> u8 \<Rightarrow> wc_manager \<Rightarrow> wc_manager option" where
  "copy_items mng x m =
     (if ucast x < getCount_wc mng then
        copy_items mng (x + 1)
          (case getItem (ucast x) mng of None \<Rightarrow> m
           | Some t \<Rightarrow>
               addItem_wc (WildcardInfo (m_szName_wc t) (m_szPath_wc t) (m_szType_wc t) (m_bResolved t)) m)
      else Some m)"

definition WildcardManager_copy :: "wc_manager \<Rightarrow> wc_manager option" where
  "WildcardManager_copy mng =
     copy_items mng 0
       \<lparr>m_mItemMap = [], onNeedSpecialEvent = onNeedSpecialEvent mng,
        onNeedInstallSpecialEvent = (\<lambda>_ _. None), registry = registry mng\<rparr>"

definition parseXML_wc :: "xml option \<Rightarrow> wc_manager \<Rightarrow> wc_manager \<times> nat" where
  "parseXML_wc node m =
     (case node of None \<Rightarrow> (m, 1)
      | Some e \<Rightarrow>
          (fold (\<lambda>c m.
             let name = GetAtt (Some c) ''name''; type = GetAtt (Some c) ''type''; string = GetText (Some c)
             in if name \<noteq> [] \<and> type \<noteq> [] \<and> string \<noteq> [] then addItem_wc (WildcardInfo name string type False) m
                else m)
             (for_each_child e ''wcard'') m, 0))"

definition updateInstallWildcard :: "string \<Rightarrow> string \<Rightarrow> wc_manager \<Rightarrow> wc_manager" where
  "updateInstallWildcard name v m =
     (if name = ''INSTALL_PATH'' \<or> name = ''PARENT_INSTALL_PATH'' then
        (case findItem name m of
           Some _ \<Rightarrow> change_item (name_hash name) (\<lambda>w. w\<lparr>m_szPath_wc := v, m_bResolved := True\<rparr>) m
         | None \<Rightarrow> addItem_wc (WildcardInfo name v ''special'' True) m)
      else m)"

definition wildcardCheck :: "string \<Rightarrow> bool" where
  "wildcardCheck s \<longleftrightarrow> length (filter (\<lambda>c. c = CHR ''%'') s) mod 2 = 0"

section \<open>Splitting a path\<close>

text \<open>The characters from position \<open>a\<close> up to position \<open>b\<close>.\<close>

definition slice :: "string \<Rightarrow> nat \<Rightarrow> nat \<Rightarrow> string" where
  "slice path a b = take (b - a) (drop a path)"

text \<open>The loop over the positions of the path; \<open>start\<close> is \<open>None\<close> where the code has \<open>-1\<close>.\<close>

function split_loop :: "string \<Rightarrow> nat \<Rightarrow> nat option \<Rightarrow> nat \<Rightarrow> string list" where
  "split_loop path x start stop =
     (if length path \<le> x then []
      else if path ! x = CHR ''%'' then
        (if x = 0 then split_loop path 1 (Some 0) stop
         else (case start of
             None \<Rightarrow> slice path stop x # split_loop path (x + 1) (Some x) stop
           | Some s \<Rightarrow> slice path s x # split_loop path (x + 1) None (x + 1)))
      else if length path - 1 \<le> x then slice path stop (length path) # split_loop path (x + 1) start stop
      else split_loop path (x + 1) start stop)"
  by pat_completeness auto
termination by (relation "measure (\<lambda>(path, x, _). length path - x)") auto

declare split_loop.simps [simp del]

definition split_wildcards :: "string \<Rightarrow> string list" where
  "split_wildcards path = split_loop path 0 None 0"

section \<open>Resolving and expanding\<close>

text \<open>
  What a call does to the manager, and its result: \<open>None\<close> when the fuel does not last, otherwise the state with an
  error or a value.
\<close>

type_synonym 'a wc_call = "wc_manager \<Rightarrow> (wc_manager \<times> 'a res) option"

definition wc_bind :: "'a wc_call \<Rightarrow> ('a \<Rightarrow> 'b wc_call) \<Rightarrow> 'b wc_call" where
  "wc_bind c k m =
     (case c m of None \<Rightarrow> None
      | Some (m', Inl e) \<Rightarrow> Some (m', Inl e)
      | Some (m', Inr x) \<Rightarrow> k x m')"

definition wc_throw :: "gc_error \<Rightarrow> 'a wc_call" where "wc_throw e m = Some (m, Inl e)"

definition wc_return :: "'a \<Rightarrow> 'a wc_call" where "wc_return x m = Some (m, Inr x)"

fun wc_each :: "('a \<Rightarrow> 'b wc_call) \<Rightarrow> 'a list \<Rightarrow> 'b list wc_call" where
  "wc_each f [] = wc_return []"
| "wc_each f (x # xs) = wc_bind (f x) (\<lambda>y. wc_bind (wc_each f xs) (\<lambda>ys. wc_return (y # ys)))"

text \<open>What \<open>fixPath\<close> asks for: the text is read as a directory and printed again.\<close>

definition fix_path :: "string \<Rightarrow> string" where
  "fix_path s = getFullPath (Path_ctor s [] False)"

text \<open>
  \<open>resolveWildCard\<close> of the item of a key. \<open>self\<close> is \<open>constructPath\<close> by depth. Its exceptions are caught here; the
  depth starts at 0 again.
\<close>

definition set_resolved :: "u64 \<Rightarrow> string \<Rightarrow> wc_manager \<Rightarrow> wc_manager" where
  "set_resolved k path = change_item k (\<lambda>w. w\<lparr>m_szPath_wc := path, m_bResolved := True\<rparr>)"

definition answered :: "u64 \<Rightarrow> string option \<Rightarrow> unit wc_call" where
  "answered k a m = Some ((case a of None \<Rightarrow> m | Some r \<Rightarrow> set_resolved k r m), Inr ())"

definition resolveWildCard :: "(nat \<Rightarrow> string \<Rightarrow> string wc_call) \<Rightarrow> u64 \<Rightarrow> wildcard \<Rightarrow> unit wc_call" where
  "resolveWildCard self k w m =
     (if m_bResolved w then wc_return () m
      else if m_szType_wc w = ''path'' \<or> m_szType_wc w = ''exe'' then
        (case self 0 (m_szPath_wc w) m of None \<Rightarrow> None
         | Some (m', Inl e) \<Rightarrow> Some (m', Inr ())
         | Some (m', Inr path) \<Rightarrow> Some (set_resolved k (fix_path path) m', Inr ()))
      else if m_szType_wc w = ''regkey'' then
        wc_return () (set_resolved k (registry m (m_szPath_wc w) False) m)
      else if m_szType_wc w = ''regkey64'' then
        wc_return () (set_resolved k (registry m (m_szPath_wc w) True) m)
      else if m_szType_wc w = ''msicheck'' \<or> m_szType_wc w = ''dotnetcheck'' then
        answered k (onNeedInstallSpecialEvent m (m_szType_wc w) (m_szPath_wc w)) m
      else if m_szType_wc w = ''special'' then
        (if m_szName_wc w = ''INSTALL_PATH'' \<or> m_szName_wc w = ''PARENT_INSTALL_PATH'' then
           wc_return () (change_item k (\<lambda>w. w\<lparr>m_bResolved := m_szPath_wc w \<noteq> []\<rparr>) m)
         else answered k (onNeedSpecialEvent m (m_szName_wc w) []) m)
      else wc_return () m)"

definition is_TEMP :: "string \<Rightarrow> bool" where
  "is_TEMP name \<longleftrightarrow> map to_lower name = map to_lower ''TEMP''"

text \<open>
  What a part \<open>%name\<close> becomes. \<open>TEMP\<close> is asked for each time, in an item of its own; any other wildcard is looked up,
  resolved, read again, and keeps its expansion.
\<close>

definition expand_path :: "(string \<Rightarrow> string wc_call) \<Rightarrow> string \<Rightarrow> string \<Rightarrow> string wc_call" where
  "expand_path deeper name path m =
     (if path = name then wc_return (''%'' @ name @ ''%'') m
      else if path \<noteq> [] then deeper path m
      else wc_throw ERR_WILDCARD m)"

definition expand_temp :: "(string \<Rightarrow> string wc_call) \<Rightarrow> string \<Rightarrow> string wc_call" where
  "expand_temp deeper name m =
     (case onNeedInstallSpecialEvent m ''temp'' [] of
        None \<Rightarrow> wc_throw ERR_WILDCARD m
      | Some path \<Rightarrow> expand_path deeper name path m)"

definition expand_named ::
  "(nat \<Rightarrow> string \<Rightarrow> string wc_call) \<Rightarrow> (string \<Rightarrow> string wc_call) \<Rightarrow> string \<Rightarrow> string wc_call" where
  "expand_named self deeper name m =
     (case findItem name m of None \<Rightarrow> wc_throw ERR_WILDCARD m
      | Some w \<Rightarrow>
          wc_bind (resolveWildCard self (name_hash name) w)
            (\<lambda>_ m. case findItem name m of None \<Rightarrow> Some (m, Inl UNDEFINED)
               | Some w' \<Rightarrow>
                   if \<not> m_bResolved w' then wc_throw ERR_WILDCARD m
                   else wc_bind (expand_path deeper name (m_szPath_wc w'))
                     (\<lambda>newPath m.
                        wc_return newPath
                          (if m_szPath_wc w' = name then m
                           else change_item (name_hash name) (\<lambda>w. w\<lparr>m_szPath_wc := newPath\<rparr>) m)) m) m)"

definition expand_part ::
  "(nat \<Rightarrow> string \<Rightarrow> string wc_call) \<Rightarrow> (string \<Rightarrow> string wc_call) \<Rightarrow> string \<Rightarrow> string wc_call" where
  "expand_part self deeper part m =
     (case part of [] \<Rightarrow> wc_return [] m
      | c # name \<Rightarrow>
          if c \<noteq> CHR ''%'' then wc_return part m
          else if name = [] then wc_throw ERR_WILDCARD m
          else if is_TEMP name then expand_temp deeper name m
          else expand_named self deeper name m)"

definition MAX_DEPTH :: nat where "MAX_DEPTH = 25"

primrec constructPath :: "nat \<Rightarrow> nat \<Rightarrow> string \<Rightarrow> string wc_call" where
  "constructPath 0 depth path m = None"
| "constructPath (Suc n) depth path m =
     (if depth + 1 > MAX_DEPTH then wc_throw ERR_WILDCARD m
      else wc_bind (wc_each (expand_part (constructPath n) (constructPath n (depth + 1))) (split_wildcards path))
             (\<lambda>parts. wc_return (concat parts)) m)"

text \<open>The entry points; null paths throw.\<close>

definition constructPath_fix :: "nat \<Rightarrow> string option \<Rightarrow> bool \<Rightarrow> string wc_call" where
  "constructPath_fix n path fixPath m =
     (case path of None \<Rightarrow> wc_throw ERR_BADPATH m
      | Some p \<Rightarrow>
          wc_bind (constructPath n 0 p)
            (\<lambda>res. wc_return (if fixPath then fix_path res else res)) m)"

fun compact_loop :: "nat \<Rightarrow> nat list \<Rightarrow> wc_manager \<Rightarrow> wc_manager option" where
  "compact_loop n [] m = Some m"
| "compact_loop n (x # xs) m =
     (case getItem (of_nat x) m of None \<Rightarrow> compact_loop n xs m
      | Some t \<Rightarrow>
          if wildcardCheck (m_szPath_wc t) then
            (case constructPath_fix n (Some (m_szPath_wc t)) True m of None \<Rightarrow> None
             | Some (m', _) \<Rightarrow> compact_loop n xs m')
          else compact_loop n xs m)"

definition compactWildCards :: "nat \<Rightarrow> wc_manager \<Rightarrow> wc_manager option" where
  "compactWildCards n m = compact_loop n [0..<unat (getCount_wc m)] m"

section \<open>How a path splits\<close>

lemma slice_self [simp]: "slice p a a = []"
  by (simp add: slice_def)

lemma slice_prefix [simp]: "slice p 0 (length p) = p"
  by (simp add: slice_def)

text \<open>From a position after which no wildcard begins, what is left is one part.\<close>

lemma split_loop_plain:
  assumes "\<forall>i. x \<le> i \<longrightarrow> i < length p \<longrightarrow> p ! i \<noteq> CHR ''%''" and "x < length p"
  shows "split_loop p x start stop = [slice p stop (length p)]"
  using assms
proof (induction "length p - x" arbitrary: x)
  case (Suc n)
  show ?case
  proof (cases "length p - 1 \<le> x")
    case True
    have "split_loop p (x + 1) start stop = []"
      using True Suc(4) by (subst split_loop.simps) simp
    then show ?thesis using Suc(3,4) True by (subst split_loop.simps) auto
  next
    case False
    then have "split_loop p (x + 1) start stop = [slice p stop (length p)]"
      using Suc(2,3,4) by (intro Suc(1)) auto
    then show ?thesis using Suc(3,4) False by (subst split_loop.simps) auto
  qed
qed simp

lemma split_plain:
  assumes "CHR ''%'' \<notin> set p"
  shows "split_wildcards p = (if p = [] then [] else [p])"
proof (cases "p = []")
  case True
  then show ?thesis by (simp add: split_wildcards_def split_loop.simps)
next
  case False
  have "\<forall>i. 0 \<le> i \<longrightarrow> i < length p \<longrightarrow> p ! i \<noteq> CHR ''%''"
    using assms nth_mem by metis
  then show ?thesis using False by (simp add: split_wildcards_def split_loop_plain)
qed

text \<open>Up to the next percent sign nothing happens.\<close>

lemma split_loop_skip:
  assumes "x \<le> y" and "y < length p" and "\<forall>i. x \<le> i \<longrightarrow> i < y \<longrightarrow> p ! i \<noteq> CHR ''%''"
  shows "split_loop p x start stop = split_loop p y start stop"
  using assms
proof (induction "y - x" arbitrary: x)
  case (Suc n)
  then have "p ! x \<noteq> CHR ''%''" "x + 1 < length p" by auto
  then have "split_loop p x start stop = split_loop p (x + 1) start stop"
    by (subst split_loop.simps) simp
  also have "\<dots> = split_loop p y start stop"
    using Suc(2-5) by (intro Suc(1)) auto
  finally show ?case .
qed simp

text \<open>A wildcard that is opened and not closed: the text before it comes twice.\<close>

lemma split_open:
  assumes a: "CHR ''%'' \<notin> set a" "a \<noteq> []" and b: "CHR ''%'' \<notin> set b" "b \<noteq> []"
  shows "split_wildcards (a @ CHR ''%'' # b) = [a, a @ CHR ''%'' # b]"
proof -
  let ?p = "a @ CHR ''%'' # b"
  have na: "\<forall>i. 0 \<le> i \<longrightarrow> i < length a \<longrightarrow> ?p ! i \<noteq> CHR ''%''"
    using a by (metis nth_append nth_mem)
  have nb: "\<forall>i. length a + 1 \<le> i \<longrightarrow> i < length ?p \<longrightarrow> ?p ! i \<noteq> CHR ''%''"
  proof (intro allI impI)
    fix i assume "length a + 1 \<le> i" "i < length ?p"
    then have "?p ! i = b ! (i - length a - 1)" "i - length a - 1 < length b"
      by (auto simp: nth_append nth_Cons')
    then show "?p ! i \<noteq> CHR ''%''" using b(1) nth_mem by metis
  qed
  have "split_wildcards ?p = split_loop ?p (length a) None 0"
    unfolding split_wildcards_def by (rule split_loop_skip) (use na in auto)
  also have "\<dots> = slice ?p 0 (length a) # split_loop ?p (length a + 1) (Some (length a)) 0"
    using a(2) by (subst split_loop.simps) (simp add: nth_append)
  also have "split_loop ?p (length a + 1) (Some (length a)) 0 = [slice ?p 0 (length ?p)]"
    by (rule split_loop_plain) (use nb b in auto)
  finally show ?thesis by (simp add: slice_def)
qed

section \<open>Calls\<close>

lemma wc_bind_simps [simp]:
  "c m = None \<Longrightarrow> wc_bind c k m = None"
  "c m = Some (m', Inl e) \<Longrightarrow> wc_bind c k m = Some (m', Inl e)"
  "c m = Some (m', Inr x) \<Longrightarrow> wc_bind c k m = k x m'"
  by (simp_all add: wc_bind_def)

lemma wc_return_simp [simp]: "wc_return x m = Some (m, Inr x)"
  by (simp add: wc_return_def)

lemma wc_throw_simp [simp]: "wc_throw e m = Some (m, Inl e)"
  by (simp add: wc_throw_def)

lemma expand_part_plain [simp]:
  "part = [] \<or> hd part \<noteq> CHR ''%'' \<Longrightarrow> expand_part self deeper part m = Some (m, Inr part)"
  by (cases part) (simp_all add: expand_part_def)

lemma constructPath_plain:
  assumes "CHR ''%'' \<notin> set p" and "depth < MAX_DEPTH"
  shows "constructPath (Suc n) depth p m = Some (m, Inr p)"
proof (cases p)
  case Nil
  then show ?thesis using assms(2) by (simp add: split_plain wc_bind_def)
next
  case (Cons c s)
  then have "expand_part (constructPath n) (constructPath n (depth + 1)) p m = Some (m, Inr p)"
    using assms(1) by (intro expand_part_plain) auto
  then show ?thesis using assms Cons by (simp add: split_plain)
qed

lemma constructPath_open:
  assumes a: "CHR ''%'' \<notin> set a" "a \<noteq> []" and b: "CHR ''%'' \<notin> set b" "b \<noteq> []" and "depth < MAX_DEPTH"
  shows "constructPath (Suc n) depth (a @ ''%'' @ b) m = Some (m, Inr (a @ a @ ''%'' @ b))"
proof -
  have "hd a \<noteq> CHR ''%''" using a by (metis hd_in_set)
  then show ?thesis using assms(5) a(2) by (simp add: split_open [OF a b] wc_bind_def)
qed

section \<open>Termination\<close>

lemma wc_each_None:
  assumes "\<And>x m. x \<in> set xs \<Longrightarrow> I m \<Longrightarrow> \<exists>m' r. f x m = Some (m', r) \<and> I m'" and "I m"
  shows "\<exists>m' r. wc_each f xs m = Some (m', r) \<and> I m'"
  using assms
proof (induction xs arbitrary: m)
  case (Cons x xs)
  obtain m1 r1 where 1: "f x m = Some (m1, r1)" "I m1" using Cons(2) [of x m] Cons(3) by auto
  show ?case
  proof (cases r1)
    case (Inr y)
    obtain m2 r2 where 2: "wc_each f xs m1 = Some (m2, r2)" "I m2"
      using Cons(1) [of m1] Cons(2) 1(2) by auto
    show ?thesis using 1 2 Inr by (cases r2) (auto simp: wc_bind_def)
  qed (use 1 in \<open>auto simp: wc_bind_def\<close>)
qed simp

text \<open>
  When every wildcard is resolved, the guard on the depth ends every expansion: 27 levels of fuel are enough, whatever
  refers to whatever.
\<close>

definition all_resolved :: "wc_manager \<Rightarrow> bool" where
  "all_resolved m \<longleftrightarrow> (\<forall>(k, w) \<in> set (m_mItemMap m). m_bResolved w)"

lemma all_resolved_findItem: "all_resolved m \<Longrightarrow> findItem name m = Some w \<Longrightarrow> m_bResolved w"
  by (auto simp: all_resolved_def findItem_def findItem_key_def dest: map_of_SomeD)

lemma all_resolved_set_path:
  "all_resolved m \<Longrightarrow> all_resolved (change_item k (\<lambda>w. w\<lparr>m_szPath_wc := p\<rparr>) m)"
  by (fastforce simp: all_resolved_def change_item_def split: if_splits)

lemma expand_part_total:
  assumes self: "\<And>p m. all_resolved m \<Longrightarrow> \<exists>m' r. deeper p m = Some (m', r) \<and> all_resolved m'"
    and m: "all_resolved m"
  shows "\<exists>m' r. expand_part self deeper part m = Some (m', r) \<and> all_resolved m'"
proof -
  have path: "\<exists>m' r. expand_path deeper name p m = Some (m', r) \<and> all_resolved m'"
    if "all_resolved m" for name p m
    using self [of m p] that by (auto simp: expand_path_def)
  have temp: "\<exists>m' r. expand_temp deeper name m = Some (m', r) \<and> all_resolved m'" for name
    using path [OF m] m by (auto simp: expand_temp_def split: option.split)
  have named: "\<exists>m' r. expand_named self deeper name m = Some (m', r) \<and> all_resolved m'" for name
  proof (cases "findItem name m")
    case (Some w)
    have w: "m_bResolved w" by (rule all_resolved_findItem [OF m Some])
    obtain m' r where e: "expand_path deeper name (m_szPath_wc w) m = Some (m', r)" "all_resolved m'"
      using path [OF m] by blast
    then show ?thesis using w Some
      by (cases r) (auto simp: expand_named_def resolveWildCard_def wc_bind_def all_resolved_set_path)
  qed (use m in \<open>simp add: expand_named_def\<close>)
  show ?thesis
    using temp named m by (cases part) (auto simp: expand_part_def)
qed

lemma constructPath_resolved:
  assumes "all_resolved m" and "MAX_DEPTH + 1 < n + depth" and "0 < n"
  shows "\<exists>m' r. constructPath n depth p m = Some (m', r) \<and> all_resolved m'"
  using assms
proof (induction n arbitrary: depth p m)
  case (Suc n)
  show ?case
  proof (cases "depth + 1 > MAX_DEPTH")
    case False
    have deeper: "\<exists>m' r. constructPath n (depth + 1) p m = Some (m', r) \<and> all_resolved m'"
      if "all_resolved m" for p m
      using Suc(3) False that by (intro Suc(1)) auto
    have "\<exists>m' r. wc_each (expand_part (constructPath n) (constructPath n (depth + 1))) (split_wildcards p) m
        = Some (m', r) \<and> all_resolved m'"
      by (rule wc_each_None [where I = all_resolved, OF expand_part_total [OF deeper]]) (use Suc(2) in auto)
    then obtain m' r where "wc_each (expand_part (constructPath n) (constructPath n (depth + 1))) (split_wildcards p) m
        = Some (m', r)" "all_resolved m'" by blast
    then show ?thesis using False by (cases r) (auto simp: wc_bind_def)
  qed (use Suc(2) in simp)
qed simp

text \<open>
  When a path leads to an unresolved wildcard of type path whose own path leads back, no amount of fuel is enough: the
  depth starts again at each resolving.
\<close>

definition first_name :: "string \<Rightarrow> string option" where
  "first_name p =
     (case filter (\<lambda>s. s \<noteq> [] \<and> hd s = CHR ''%'') (split_wildcards p) of [] \<Rightarrow> None | s # _ \<Rightarrow> Some (tl s))"

definition leads_to :: "u64 set \<Rightarrow> string \<Rightarrow> bool" where
  "leads_to K p \<longleftrightarrow>
     (case first_name p of None \<Rightarrow> False | Some t \<Rightarrow> t \<noteq> [] \<and> \<not> is_TEMP t \<and> name_hash t \<in> K)"

definition loops :: "wc_manager \<Rightarrow> u64 set \<Rightarrow> bool" where
  "loops m K \<longleftrightarrow>
     (\<forall>k \<in> K. case findItem_key k m of None \<Rightarrow> False
        | Some w \<Rightarrow> \<not> m_bResolved w \<and> m_szType_wc w \<in> {''path'', ''exe''} \<and> leads_to K (m_szPath_wc w))"

lemma wc_each_diverges:
  assumes "filter (\<lambda>s. s \<noteq> [] \<and> hd s = CHR ''%'') parts = part # rest"
    and "expand_part self deeper part m = None"
  shows "wc_each (expand_part self deeper) parts m = None"
  using assms
proof (induction parts)
  case (Cons s parts)
  show ?case
  proof (cases "s \<noteq> [] \<and> hd s = CHR ''%''")
    case True
    then show ?thesis using Cons(2,3) by (simp add: wc_bind_def)
  next
    case False
    then have "expand_part self deeper s m = Some (m, Inr s)" by (intro expand_part_plain) auto
    then show ?thesis using Cons False by (simp add: wc_bind_def)
  qed
qed simp

lemma constructPath_loops:
  assumes "loops m K" and "leads_to K p" and "depth < MAX_DEPTH"
  shows "constructPath n depth p m = None"
  using assms(2,3)
proof (induction n arbitrary: depth p)
  case (Suc n)
  obtain s rest where s: "filter (\<lambda>s. s \<noteq> [] \<and> hd s = CHR ''%'') (split_wildcards p) = s # rest"
      "tl s \<noteq> []" "\<not> is_TEMP (tl s)" "name_hash (tl s) \<in> K"
    using Suc(2) by (auto simp: leads_to_def first_name_def split: option.splits list.splits)
  obtain name where name: "s = CHR ''%'' # name"
    using s(1) by (cases s) (auto simp: filter_eq_Cons_iff)
  obtain w where w: "findItem name m = Some w" "\<not> m_bResolved w" "m_szType_wc w \<in> {''path'', ''exe''}"
      "leads_to K (m_szPath_wc w)"
    using assms(1) s(4) name by (fastforce simp: loops_def findItem_def split: option.splits)
  have "constructPath n 0 (m_szPath_wc w) m = None"
    using Suc(1) w(4) by (simp add: MAX_DEPTH_def)
  then have "expand_part (constructPath n) (constructPath n (depth + 1)) s m = None"
    using w s by (auto simp: name expand_part_def expand_named_def resolveWildCard_def wc_bind_def)
  then have "wc_each (expand_part (constructPath n) (constructPath n (depth + 1))) (split_wildcards p) m = None"
    by (rule wc_each_diverges [OF s(1)])
  then show ?case using Suc(3) by (simp add: wc_bind_def)
qed simp

section \<open>Expansions\<close>

text \<open>
  What a path means when the wildcards mean \<open>mean\<close>: each part \<open>%name\<close> stands for the meaning of its name.
\<close>

definition part_meaning :: "(u64 \<rightharpoonup> string) \<Rightarrow> string \<Rightarrow> string option" where
  "part_meaning mean part =
     (case part of [] \<Rightarrow> Some []
      | c # name \<Rightarrow>
          if c \<noteq> CHR ''%'' then Some part
          else if name = [] \<or> is_TEMP name then None
          else mean (name_hash name))"

fun parts_meaning :: "(u64 \<rightharpoonup> string) \<Rightarrow> string list \<Rightarrow> string option" where
  "parts_meaning mean [] = Some []"
| "parts_meaning mean (p # ps) =
     (case part_meaning mean p of None \<Rightarrow> None
      | Some s \<Rightarrow> map_option ((@) s) (parts_meaning mean ps))"

definition meaning :: "(u64 \<rightharpoonup> string) \<Rightarrow> string \<Rightarrow> string option" where
  "meaning mean path = parts_meaning mean (split_wildcards path)"

text \<open>The wildcards a path names.\<close>

definition names :: "string \<Rightarrow> u64 set" where
  "names path = (\<lambda>s. name_hash (tl s)) ` set (filter (\<lambda>s. s \<noteq> [] \<and> hd s = CHR ''%'') (split_wildcards path))"

text \<open>
  An item fits: it is resolved, and its path means what the wildcard means, or it is an unresolved path that means this
  once its slashes are put right; and it refers only to wildcards of smaller rank. A meaning is not empty, has no
  percent sign and is not the wildcard's own name, nor is the path.
\<close>

definition item_fits :: "(u64 \<rightharpoonup> string) \<Rightarrow> (u64 \<Rightarrow> nat) \<Rightarrow> u64 \<Rightarrow> wildcard \<Rightarrow> bool" where
  "item_fits mean rank k w \<longleftrightarrow>
     m_szPath_wc w \<noteq> [] \<and> name_hash (m_szPath_wc w) \<noteq> k \<and> (\<forall>j \<in> names (m_szPath_wc w). rank j < rank k)
     \<and> (if m_bResolved w then meaning mean (m_szPath_wc w) = mean k
        else m_szType_wc w \<in> {''path'', ''exe''} \<and> map_option fix_path (meaning mean (m_szPath_wc w)) = mean k)"

definition good_meaning :: "u64 \<Rightarrow> string \<Rightarrow> bool" where
  "good_meaning k v \<longleftrightarrow> v \<noteq> [] \<and> CHR ''%'' \<notin> set v \<and> name_hash v \<noteq> k"

definition wc_fits :: "(u64 \<rightharpoonup> string) \<Rightarrow> (u64 \<Rightarrow> nat) \<Rightarrow> wc_manager \<Rightarrow> bool" where
  "wc_fits mean rank m \<longleftrightarrow>
     (\<forall>k v. mean k = Some v \<longrightarrow>
        good_meaning k v \<and> (\<exists>w. findItem_key k m = Some w \<and> item_fits mean rank k w))"

lemma meaning_plain: "CHR ''%'' \<notin> set v \<Longrightarrow> meaning mean v = Some v"
proof (cases v)
  case (Cons c s)
  assume "CHR ''%'' \<notin> set v"
  then show ?thesis using Cons by (auto simp: meaning_def split_plain part_meaning_def)
qed (simp add: meaning_def split_plain)

lemma names_plain: "CHR ''%'' \<notin> set v \<Longrightarrow> names v = {}"
  by (cases v) (auto simp: names_def split_plain)

lemma findItem_change:
  "findItem_key j (change_item k f m) = (if j = k then map_option f (findItem_key k m) else findItem_key j m)"
proof -
  have "map_of (map (\<lambda>(k', w). if k' = k then (k', f w) else (k', w)) xs) j
      = (if j = k then map_option f (map_of xs k) else map_of xs j)" for xs :: "(u64 \<times> wildcard) list"
    by (induction xs) auto
  then show ?thesis by (simp add: findItem_key_def change_item_def)
qed

lemma wc_fits_find:
  assumes "wc_fits mean rank m" and "mean k = Some v"
  obtains w where "findItem_key k m = Some w" "item_fits mean rank k w" "good_meaning k v"
  using assms by (auto simp: wc_fits_def)

definition resolved_keys :: "wc_manager \<Rightarrow> u64 set" where
  "resolved_keys m = {k. \<exists>w. findItem_key k m = Some w \<and> m_bResolved w}"

lemma resolved_keys_change:
  "(\<And>w. m_bResolved w \<Longrightarrow> m_bResolved (f w)) \<Longrightarrow> resolved_keys m \<subseteq> resolved_keys (change_item k f m)"
  by (auto simp: resolved_keys_def findItem_change)

text \<open>Storing the meaning of a wildcard in its item changes no meaning.\<close>

lemma wc_fits_store:
  assumes "wc_fits mean rank m" and "mean k = Some v" and "\<And>w. m_szPath_wc (f w) = v" and
    "\<And>w. findItem_key k m = Some w \<Longrightarrow> m_bResolved (f w)"
  shows "wc_fits mean rank (change_item k f m)"
proof -
  obtain w where w: "findItem_key k m = Some w" and v: "good_meaning k v"
    using wc_fits_find [OF assms(1,2)] by blast
  have "item_fits mean rank k (f w)"
    using v assms(2,3) assms(4) [OF w]
    by (simp add: item_fits_def good_meaning_def meaning_plain names_plain)
  then show ?thesis
    using assms(1,2) w by (auto simp: wc_fits_def findItem_change)
qed

lemma set_resolved_fits:
  "wc_fits mean rank m \<Longrightarrow> mean k = Some v \<Longrightarrow> wc_fits mean rank (set_resolved k v m)"
  unfolding set_resolved_def by (rule wc_fits_store) auto

text \<open>Calls that find what is meant, and leave a manager that means the same.\<close>

definition finds :: "(u64 \<rightharpoonup> string) \<Rightarrow> (u64 \<Rightarrow> nat) \<Rightarrow> 'a wc_call \<Rightarrow> 'a \<Rightarrow> bool" where
  "finds mean rank c v \<longleftrightarrow>
     (\<forall>m. wc_fits mean rank m \<longrightarrow> (\<exists>m'. c m = Some (m', Inr v) \<and> wc_fits mean rank m' \<and> resolved_keys m \<subseteq> resolved_keys m'))"

lemma findsE:
  assumes "finds mean rank c v" and "wc_fits mean rank m"
  obtains m' where "c m = Some (m', Inr v)" "wc_fits mean rank m'" "resolved_keys m \<subseteq> resolved_keys m'"
  using assms by (auto simp: finds_def)

lemma finds_each:
  assumes "\<And>p s. p \<in> set ps \<Longrightarrow> part_meaning mean p = Some s \<Longrightarrow> finds mean rank (f p) s"
    and "parts_meaning mean ps = Some v"
  shows "\<exists>vs. concat vs = v \<and> finds mean rank (wc_each f ps) vs"
  using assms
proof (induction ps arbitrary: v)
  case Nil
  then show ?case by (auto simp: finds_def intro!: exI [of _ "[]"])
next
  case (Cons p ps)
  obtain s u where s: "part_meaning mean p = Some s" "parts_meaning mean ps = Some u" "v = s @ u"
    using Cons(3) by (auto split: option.splits)
  obtain us where us: "concat us = u" "finds mean rank (wc_each f ps) us"
    using Cons(1) [OF _ s(2)] Cons(2) by auto
  have p: "finds mean rank (f p) s" using Cons(2) s(1) by simp
  have "finds mean rank (wc_each f (p # ps)) (s # us)"
    unfolding finds_def
  proof (intro allI impI)
    fix m assume m: "wc_fits mean rank m"
    obtain m1 where 1: "f p m = Some (m1, Inr s)" "wc_fits mean rank m1" "resolved_keys m \<subseteq> resolved_keys m1"
      using findsE [OF p m] .
    obtain m2 where 2: "wc_each f ps m1 = Some (m2, Inr us)" "wc_fits mean rank m2"
        "resolved_keys m1 \<subseteq> resolved_keys m2"
      using findsE [OF us(2) 1(2)] .
    show "\<exists>m'. wc_each f (p # ps) m = Some (m', Inr (s # us)) \<and> wc_fits mean rank m'
        \<and> resolved_keys m \<subseteq> resolved_keys m'"
      using 1 2 by auto
  qed
  then show ?case using us(1) s(3) by (intro exI [of _ "s # us"]) simp
qed

text \<open>An unresolved item is resolved first; afterwards it is there, resolved, and fits.\<close>

lemma resolve_fits:
  assumes self: "\<And>q u. meaning mean q = Some u \<Longrightarrow> \<forall>j \<in> names q. rank j < rank k \<Longrightarrow> finds mean rank (self 0 q) u"
    and m: "wc_fits mean rank m" and v: "mean k = Some v" and w: "findItem_key k m = Some w"
  obtains m' w' where "resolveWildCard self k w m = Some (m', Inr ())" "wc_fits mean rank m'"
    "findItem_key k m' = Some w'" "m_bResolved w'" "resolved_keys m \<subseteq> resolved_keys m'"
proof (cases "m_bResolved w")
  case True
  then show ?thesis using that m w by (simp add: resolveWildCard_def)
next
  case False
  have fits: "item_fits mean rank k w" using wc_fits_find [OF m v] w by auto
  then obtain u where u: "meaning mean (m_szPath_wc w) = Some u" "v = fix_path u"
    using False v by (auto simp: item_fits_def)
  have "\<forall>j \<in> names (m_szPath_wc w). rank j < rank k" using fits by (simp add: item_fits_def)
  then obtain m1 where 1: "self 0 (m_szPath_wc w) m = Some (m1, Inr u)" "wc_fits mean rank m1"
      "resolved_keys m \<subseteq> resolved_keys m1"
    using findsE [OF self [OF u(1)] m] by blast
  obtain w1 where w1: "findItem_key k m1 = Some w1" using wc_fits_find [OF 1(2) v] by auto
  have "resolveWildCard self k w m = Some (set_resolved k v m1, Inr ())"
    using False fits 1 u(2) by (auto simp: resolveWildCard_def item_fits_def)
  moreover have "resolved_keys m1 \<subseteq> resolved_keys (set_resolved k v m1)"
    unfolding set_resolved_def by (rule resolved_keys_change) simp
  ultimately show ?thesis
    using that [of "set_resolved k v m1"] set_resolved_fits [OF 1(2) v] w1 1(3)
    by (auto simp: set_resolved_def findItem_change)
qed

lemma expand_named_finds:
  assumes self: "\<And>d q u. d = 0 \<or> d = depth \<Longrightarrow> meaning mean q = Some u \<Longrightarrow>
      \<forall>j \<in> names q. rank j < rank (name_hash name) \<Longrightarrow> finds mean rank (self d q) u"
    and v: "mean (name_hash name) = Some v"
  shows "finds mean rank (expand_named self (self depth) name) v"
  unfolding finds_def
proof (intro allI impI)
  let ?k = "name_hash name"
  fix m assume m: "wc_fits mean rank m"
  obtain w where w: "findItem_key ?k m = Some w" using wc_fits_find [OF m v] by auto
  obtain m1 w1 where 1: "resolveWildCard self ?k w m = Some (m1, Inr ())" "wc_fits mean rank m1"
      "findItem_key ?k m1 = Some w1" "m_bResolved w1" "resolved_keys m \<subseteq> resolved_keys m1"
    by (rule resolve_fits [where self = self, OF _ m v w]) (use self in auto)
  have fits: "item_fits mean rank ?k w1" using wc_fits_find [OF 1(2) v] 1(3) by auto
  then have ne: "m_szPath_wc w1 \<noteq> name" "m_szPath_wc w1 \<noteq> []" by (auto simp: item_fits_def)
  have mean: "meaning mean (m_szPath_wc w1) = Some v" "\<forall>j \<in> names (m_szPath_wc w1). rank j < rank ?k"
    using fits 1(4) v by (auto simp: item_fits_def)
  obtain m2 where 2: "self depth (m_szPath_wc w1) m1 = Some (m2, Inr v)" "wc_fits mean rank m2"
      "resolved_keys m1 \<subseteq> resolved_keys m2"
    using findsE [OF self [OF disjI2 [OF refl] mean] 1(2)] .
  have "?k \<in> resolved_keys m2" using 1(3,4) 2(3) by (auto simp: resolved_keys_def)
  then have "wc_fits mean rank (change_item ?k (\<lambda>w. w\<lparr>m_szPath_wc := v\<rparr>) m2)"
    by (intro wc_fits_store [OF 2(2) v]) (auto simp: resolved_keys_def)
  moreover have "resolved_keys m2 \<subseteq> resolved_keys (change_item ?k (\<lambda>w. w\<lparr>m_szPath_wc := v\<rparr>) m2)"
    by (rule resolved_keys_change) simp
  ultimately show "\<exists>m'. expand_named self (self depth) name m = Some (m', Inr v) \<and> wc_fits mean rank m'
      \<and> resolved_keys m \<subseteq> resolved_keys m'"
    using w 1 2 ne by (auto simp: expand_named_def findItem_def expand_path_def)
qed

lemma expand_part_finds:
  assumes self: "\<And>d q u j. d = 0 \<or> d = depth \<Longrightarrow> meaning mean q = Some u \<Longrightarrow> part = CHR ''%'' # j \<Longrightarrow>
      \<forall>i \<in> names q. rank i < rank (name_hash j) \<Longrightarrow> finds mean rank (self d q) u"
    and v: "part_meaning mean part = Some v"
  shows "finds mean rank (expand_part self (self depth) part) v"
proof (cases part)
  case (Cons c name)
  show ?thesis
  proof (cases "c = CHR ''%''")
    case True
    then have "name \<noteq> []" "\<not> is_TEMP name" and k: "mean (name_hash name) = Some v"
      using v Cons by (auto simp: part_meaning_def split: if_splits)
    moreover have "finds mean rank (expand_named self (self depth) name) v"
      by (rule expand_named_finds [where self = self and mean = mean and name = name, OF _ k]) (use self Cons True in auto)
    ultimately show ?thesis using Cons True by (simp add: expand_part_def finds_def)
  qed (use v Cons in \<open>auto simp: part_meaning_def expand_part_def finds_def\<close>)
qed (use v in \<open>auto simp: part_meaning_def finds_def\<close>)

lemma constructPath_finds:
  assumes "meaning mean p = Some v" and "\<forall>k \<in> names p. rank k < r" and "depth + r < MAX_DEPTH" and "r < n"
  shows "finds mean rank (constructPath n depth p) v"
  using assms
proof (induction n arbitrary: depth p v r)
  case (Suc n)
  let ?f = "expand_part (constructPath n) (constructPath n (depth + 1))"
  have part: "finds mean rank (?f q) s" if q: "q \<in> set (split_wildcards p)" and s: "part_meaning mean q = Some s" for q s
  proof (rule expand_part_finds [where self = "constructPath n", OF _ s])
    fix d q' u j
    assume d: "d = 0 \<or> d = depth + 1" and u: "meaning mean q' = Some u" and j: "q = CHR ''%'' # j"
      and below: "\<forall>i \<in> names q'. rank i < rank (name_hash j)"
    have "name_hash j \<in> names p" using q j by (force simp: names_def)
    then have r: "rank (name_hash j) < r" using Suc(3) by blast
    show "finds mean rank (constructPath n d q') u"
      by (rule Suc(1) [OF u below]) (use d r Suc(4,5) in auto)
  qed
  obtain vs where vs: "concat vs = v" "finds mean rank (wc_each ?f (split_wildcards p)) vs"
    using finds_each [where f = ?f, OF part] Suc(2) unfolding meaning_def by blast
  show ?case
    unfolding finds_def
  proof (intro allI impI)
    fix m assume "wc_fits mean rank m"
    with vs(2) obtain m' where "wc_each ?f (split_wildcards p) m = Some (m', Inr vs)" "wc_fits mean rank m'"
        "resolved_keys m \<subseteq> resolved_keys m'" by (rule findsE)
    then show "\<exists>m'. constructPath (Suc n) depth p m = Some (m', Inr v) \<and> wc_fits mean rank m'
        \<and> resolved_keys m \<subseteq> resolved_keys m'"
      using vs(1) Suc(4) by simp
  qed
qed simp

section \<open>Copies\<close>

definition wc_map_ok :: "wc_manager \<Rightarrow> bool" where
  "wc_map_ok m \<longleftrightarrow> sorted_wrt (<) (map fst (m_mItemMap m))
     \<and> (\<forall>(k, w) \<in> set (m_mItemMap m). k = name_hash (m_szName_wc w))"

lemma map_of_strict:
  "sorted_wrt (<) (map fst xs) \<Longrightarrow> \<forall>x \<in> set xs. fst x < (k :: 'a :: linorder) \<Longrightarrow> map_of xs k = None"
  by (induction xs) auto

lemma insort_key_snoc: "\<forall>x \<in> set xs. fst x < (k :: 'a :: linorder) \<Longrightarrow> insort_key fst (k, w) xs = xs @ [(k, w)]"
  by (induction xs) auto

lemma insort_key_strict:
  "sorted_wrt (<) (map fst xs) \<Longrightarrow> map_of xs (k :: 'a :: linorder) = None
    \<Longrightarrow> sorted_wrt (<) (map fst (insort_key fst (k, w) xs))"
proof (induction xs)
  case (Cons x xs)
  have "map_of xs k = None" "fst x \<noteq> k" using Cons(3) by (auto split: if_splits)
  then show ?case using Cons(1,2) by (auto simp: set_insort_key)
qed simp

text \<open>The map keeps its order and its keys; \<open>addItem\<close> does not replace, \<open>updateInstallWildcard\<close> does.\<close>

lemma addItem_ok: "wc_map_ok m \<Longrightarrow> wc_map_ok (addItem_wc w m)"
  by (auto simp: wc_map_ok_def addItem_wc_def addItem_key_def insort_key_strict set_insort_key)

lemma wc_map_ok_update:
  "wc_map_ok (m\<lparr>m_mItemMap := xs\<rparr>) \<longleftrightarrow>
     sorted_wrt (<) (map fst xs) \<and> (\<forall>(k, w) \<in> set xs. k = name_hash (m_szName_wc w))"
  by (simp add: wc_map_ok_def)

lemma change_item_ok:
  assumes "wc_map_ok m" and "\<And>w. m_szName_wc (f w) = m_szName_wc w"
  shows "wc_map_ok (change_item k f m)"
proof -
  let ?g = "\<lambda>(k', w). if k' = k then (k', f w) else (k', w)"
  have keys: "map fst (map ?g xs) = map fst xs" for xs by (induction xs) auto
  have "sorted_wrt (<) (map fst (map ?g (m_mItemMap m)))"
    unfolding keys using assms(1) by (simp add: wc_map_ok_def)
  moreover have "\<forall>(k', w) \<in> set (map ?g (m_mItemMap m)). k' = name_hash (m_szName_wc w)"
    using assms by (auto simp: wc_map_ok_def split: if_splits)
  ultimately show ?thesis unfolding change_item_def wc_map_ok_update by (rule conjI)
qed

lemma updateInstallWildcard_ok: "wc_map_ok m \<Longrightarrow> wc_map_ok (updateInstallWildcard name v m)"
  by (auto simp: updateInstallWildcard_def addItem_ok change_item_ok split: option.split)

lemma parseXML_ok: "wc_map_ok m \<Longrightarrow> wc_map_ok (fst (parseXML_wc node m))"
proof (cases node)
  case (Some e)
  assume m: "wc_map_ok m"
  have "wc_map_ok (fold (\<lambda>c m.
             let name = GetAtt (Some c) ''name''; type = GetAtt (Some c) ''type''; string = GetText (Some c)
             in if name \<noteq> [] \<and> type \<noteq> [] \<and> string \<noteq> [] then addItem_wc (WildcardInfo name string type False) m
                else m) cs m)" for cs
    using m by (induction cs arbitrary: m) (auto simp: Let_def addItem_ok)
  then show ?thesis by (simp add: parseXML_wc_def Some)
qed (simp add: parseXML_wc_def)

lemma unat_ucast_8: "unat (ucast (x :: u8) :: u32) = unat x"
  using unsigned_less [of x, where ?'a = nat] by (simp add: unsigned_ucast_eq take_bit_eq_mod)

lemma copy_items_le:
  assumes "copy_items mng x m = Some m'"
  shows "unat (getCount_wc mng) < 256"
proof -
  have step: "unat (getCount_wc mng) < 256" if "\<not> ucast x < getCount_wc mng" for mng and x :: u8
    using that unsigned_less [of x, where ?'a = nat] by (simp add: word_less_nat_alt unat_ucast_8)
  show ?thesis
    using copy_items.raw_induct [where P = "\<lambda>mng x m m'. unat (getCount_wc mng) < 256"
        and xa = "((mng, x), m)" and y = m'] assms step
    by (fastforce split: if_splits)
qed

lemma copy_items_all:
  assumes ok: "wc_map_ok mng" and count: "length (m_mItemMap mng) < 256"
    and m: "m_mItemMap m = take (unat x) (m_mItemMap mng)" and x: "unat x \<le> length (m_mItemMap mng)"
  shows "copy_items mng x m = Some (m\<lparr>m_mItemMap := m_mItemMap mng\<rparr>)"
  using m x
proof (induction "length (m_mItemMap mng) - unat x" arbitrary: x m)
  case 0
  have "unat (getCount_wc mng) = length (m_mItemMap mng)"
    using count by (simp add: getCount_wc_def unat_of_nat)
  then have "\<not> ucast x < getCount_wc mng"
    using 0 by (simp add: word_less_nat_alt unat_ucast_8)
  then show ?case using 0 by (subst copy_items.simps) simp
next
  case (Suc n)
  let ?l = "m_mItemMap mng"
  have x: "unat x < length ?l" using Suc(2) by simp
  have ux: "unat (ucast x :: u32) = unat x"
    by (rule unat_ucast_8)
  have "unat (getCount_wc mng) = length ?l"
    using count by (simp add: getCount_wc_def unat_of_nat)
  then have lt: "ucast x < getCount_wc mng"
    using x ux by (simp add: word_less_nat_alt)
  have x1: "unat (x + 1) = unat x + 1"
    using x count by (simp add: unat_word_ariths)
  obtain k w where kw: "?l ! unat x = (k, w)" by fastforce
  have in_l: "(k, w) \<in> set ?l" using kw x by (metis nth_mem)
  have k: "k = name_hash (m_szName_wc w)" using ok in_l by (auto simp: wc_map_ok_def)
  have below: "\<forall>y \<in> set (take (unat x) ?l). fst y < k"
  proof
    fix y assume "y \<in> set (take (unat x) ?l)"
    then obtain i where i: "i < unat x" "y = ?l ! i" using x by (auto simp: in_set_conv_nth)
    have "map fst ?l ! i < map fst ?l ! unat x"
      using ok i x by (intro sorted_wrt_nth_less) (auto simp: wc_map_ok_def)
    then show "fst y < k" using i x kw by simp
  qed
  have "sorted_wrt (<) (map fst (take (unat x) ?l))"
    using ok by (simp add: wc_map_ok_def take_map [symmetric] sorted_wrt_take)
  then have "map_of (take (unat x) ?l) k = None" by (rule map_of_strict [OF _ below])
  then have "addItem_key k w m = m\<lparr>m_mItemMap := take (unat (x + 1)) ?l\<rparr>"
    using insort_key_snoc [OF below] x kw x1
    by (simp add: addItem_key_def Suc(3) take_Suc_conv_app_nth)
  moreover have "getItem (ucast x) mng = Some w" using x ux kw by (simp add: getItem_def)
  moreover have "WildcardInfo (m_szName_wc w) (m_szPath_wc w) (m_szType_wc w) (m_bResolved w) = w"
    by (simp add: WildcardInfo_def)
  ultimately have "copy_items mng x m = copy_items mng (x + 1) (m\<lparr>m_mItemMap := take (unat (x + 1)) ?l\<rparr>)"
    using lt k by (subst copy_items.simps) (simp add: addItem_wc_def)
  also have "\<dots> = Some (m\<lparr>m_mItemMap := take (unat (x + 1)) ?l, m_mItemMap := ?l\<rparr>)"
    by (rule Suc(1)) (use Suc(2) x x1 in auto)
  finally show ?case by simp
qed

section \<open>Properties\<close>

text \<open>C27: Let every wildcard that has a meaning be in the manager, resolved or an unresolved one of type path or exe (not
  special or regkey), refer only to such wildcards of smaller rank (so to none in a cycle), and have a path that is
  not empty and does not hash to its own name; let its meaning be not empty, without percent sign and not hash to its own
  name either. Then a path that leads only to such wildcards, of rank below 24, and to no empty name and not to TEMP, is
  expanded by constructPath, with its wildcards replaced by their meanings, and the expansions stored on
  the way leave every meaning as it was.\<close>

theorem wildcards_expand:
  assumes "meaning mean p = Some v" and "\<forall>k \<in> names p. rank k < 24" and "wc_fits mean rank m" and "25 \<le> n"
  shows "\<exists>m'. constructPath n 0 p m = Some (m', Inr v) \<and> wc_fits mean rank m'"
  using constructPath_finds [of mean p v rank 24 0 n] assms by (auto simp: finds_def MAX_DEPTH_def)

definition demo_wc :: wc_manager where
  "demo_wc = \<lparr>m_mItemMap = [(name_hash ''A'', WildcardInfo ''A'' ''%B%/a'' ''path'' False),
      (name_hash ''B'', WildcardInfo ''B'' ''/opt'' ''path'' True)],
     onNeedSpecialEvent = (\<lambda>_ _. None), onNeedInstallSpecialEvent = (\<lambda>_ _. None), registry = (\<lambda>_ _. [])\<rparr>"

definition demo_mean :: "u64 \<rightharpoonup> string" where
  "demo_mean = [name_hash ''A'' \<mapsto> ''/opt/a'', name_hash ''B'' \<mapsto> ''/opt'']"

definition demo_rank :: "u64 \<Rightarrow> nat" where
  "demo_rank k = (if k = name_hash ''A'' then 1 else 0)"

lemma demo_hash: "name_hash ''A'' = 65" "name_hash ''B'' = 66"
  "name_hash ''%B%/a'' \<noteq> 65" "name_hash ''/opt'' \<noteq> 66" "name_hash ''/opt/a'' \<noteq> 65"
  by (simp_all add: name_hash_def FastRSHash_def Let_def schar32_def byte_of_char_def)

lemma demo_split:
  "split_wildcards ''%B%/a'' = [''%B'', ''/a'']" "split_wildcards ''%A%/x'' = [''%A'', ''/x'']"
  by code_simp+


lemma demo_fits: "wc_fits demo_mean demo_rank demo_wc"
proof -
  have fixed: "fix_path ''/opt/a'' = ''/opt/a''" by code_simp
  have "meaning demo_mean ''%B%/a'' = Some ''/opt/a''"
    by (simp add: meaning_def demo_split part_meaning_def demo_mean_def demo_hash is_TEMP_def)
  moreover have "meaning demo_mean ''/opt'' = Some ''/opt''" by (simp add: meaning_plain)
  moreover have "names ''%B%/a'' = {66}" "names ''/opt'' = {}"
    by (simp_all add: names_def demo_split demo_hash) (simp add: split_plain)
  ultimately show ?thesis
    by (auto simp: wc_fits_def demo_wc_def demo_rank_def findItem_key_def item_fits_def good_meaning_def WildcardInfo_def
        demo_hash demo_mean_def fixed split: if_splits)
qed

theorem wildcards_expand_witness:
  "\<exists>m'. constructPath 25 0 ''%A%/x'' demo_wc = Some (m', Inr ''/opt/a/x'') \<and> wc_fits demo_mean demo_rank m'"
proof (rule wildcards_expand)
  show "meaning demo_mean ''%A%/x'' = Some ''/opt/a/x''"
    by (simp add: meaning_def demo_split part_meaning_def demo_mean_def demo_hash is_TEMP_def)
  show "\<forall>k \<in> names ''%A%/x''. demo_rank k < 24"
    by (auto simp: names_def demo_split demo_rank_def)
  show "wc_fits demo_mean demo_rank demo_wc" by (rule demo_fits)
qed simp

text \<open>C28: When the first wildcard of a path is an unresolved path whose own first wildcard leads back, constructPath does not return, whatever the depth it is given: the guard against loops counts from zero again each time a wildcard is resolved.\<close>

theorem wildcard_loop_never_returns:
  assumes "loops m K" and "leads_to K p"
  shows "constructPath n 0 p m = None"
  by (rule constructPath_loops [OF assms]) (simp add: MAX_DEPTH_def)

theorem wildcard_loop_never_returns_witness:
  "constructPath 1000 0 ''%A%/x''
     (demo_wc\<lparr>m_mItemMap := [(65, WildcardInfo ''A'' ''%A%/x'' ''path'' False)]\<rparr>) = None"
proof (rule wildcard_loop_never_returns [where K = "{65}"])
  have l: "leads_to {65} ''%A%/x''"
    by (simp add: leads_to_def first_name_def demo_split demo_hash is_TEMP_def)
  then show "loops (demo_wc\<lparr>m_mItemMap := [(65, WildcardInfo ''A'' ''%A%/x'' ''path'' False)]\<rparr>) {65}"
    by (simp add: loops_def findItem_key_def WildcardInfo_def)
  show "leads_to {65} ''%A%/x''" by (rule l)
qed

text \<open>When all wildcards are resolved, constructPath returns, with a path or an error, also where they refer to each other in a cycle, and they stay resolved: 27 calls deep is enough.\<close>

theorem wildcard_resolved_returns:
  assumes "all_resolved m" and "27 \<le> n"
  shows "\<exists>m' r. constructPath n 0 p m = Some (m', r) \<and> all_resolved m'"
  by (rule constructPath_resolved [OF assms(1)]) (use assms(2) in \<open>auto simp: MAX_DEPTH_def\<close>)

theorem wildcard_resolved_returns_witness:
  "\<exists>m' r. constructPath 27 0 ''%A%/x''
     (demo_wc\<lparr>m_mItemMap := [(65, WildcardInfo ''A'' ''%A%/x'' ''path'' True)]\<rparr>) = Some (m', r) \<and> all_resolved m'"
  by (rule wildcard_resolved_returns) (simp_all add: all_resolved_def WildcardInfo_def)

text \<open>A percent sign that is not closed doubles the text before it: of \<open>a%b\<close> constructPath makes \<open>aa%b\<close>.\<close>

theorem unclosed_wildcard_doubles:
  assumes "CHR ''%'' \<notin> set a" "a \<noteq> []" and "CHR ''%'' \<notin> set b" "b \<noteq> []" and "0 < n"
  shows "constructPath n 0 (a @ ''%'' @ b) m = Some (m, Inr (a @ a @ ''%'' @ b))"
  using constructPath_open [OF assms(1-4), of 0 "n - 1" m] assms(5) by (simp add: MAX_DEPTH_def)

theorem unclosed_wildcard_doubles_witness:
  "constructPath 1 0 (''10'' @ ''%'' @ '' off'') demo_wc = Some (demo_wc, Inr (''10'' @ ''10'' @ ''%'' @ '' off''))"
  by (rule unclosed_wildcard_doubles) simp_all

text \<open>Copying a manager with fewer than 256 wildcards gives the same wildcards; copying one with more never ends, since the copying loop counts in eight bits.\<close>

theorem copy_manager:
  assumes "wc_map_ok m" and "length (m_mItemMap m) < 2 ^ 32"
  shows "map_option m_mItemMap (WildcardManager_copy m)
      = (if length (m_mItemMap m) < 256 then Some (m_mItemMap m) else None)"
proof (cases "length (m_mItemMap m) < 256")
  case True
  then show ?thesis
    using copy_items_all [OF assms(1), of "\<lparr>m_mItemMap = [], onNeedSpecialEvent = onNeedSpecialEvent m,
        onNeedInstallSpecialEvent = (\<lambda>_ _. None), registry = registry m\<rparr>" 0]
    by (simp add: WildcardManager_copy_def)
next
  case False
  have "unat (getCount_wc m) = length (m_mItemMap m)"
    using assms(2) by (simp add: getCount_wc_def unat_of_nat)
  then have "copy_items m x c = None" for x c
    using copy_items_le [of m x c] False by (cases "copy_items m x c") auto
  then show ?thesis using False by (simp add: WildcardManager_copy_def)
qed

theorem copy_manager_witness:
  "map_option m_mItemMap (WildcardManager_copy demo_wc)
     = (if length (m_mItemMap demo_wc) < 256 then Some (m_mItemMap demo_wc) else None)"
  by (rule copy_manager) (simp_all add: demo_wc_def wc_map_ok_def demo_hash, simp_all add: WildcardInfo_def demo_hash)

end
