(* ===== verification/Item_Install.thy ===== *)
theory Item_Install
  imports Item_Flags Util_Wildcard
begin

text \<open>
  Installation data of a branch: \<^verbatim>\<open>src/src/shared/usercore/code/BranchInstallInfo.cpp\<close>, as compiled outside
  Windows and without its database rows. The status of the item is an argument, since the data keep a pointer to the
  item; the wildcard manager is passed along. Calls that expand a path have the fuel of \<^verbatim>\<open>Util_Wildcard\<close> and are
  \<open>None\<close> when it does not last. The order in which \<open>std::sort\<close> leaves executables of equal rank is a parameter.
\<close>

unbundle bit_operations_syntax

section \<open>State\<close>

record exe_info =
  m_szExe :: string
  m_szExeArgs :: string
  m_szUserArgs :: string
  m_szName_e :: string
  m_uiRank :: u32

definition ExeInfo_new :: "string \<Rightarrow> exe_info" where
  "ExeInfo_new name = \<lparr>m_szExe = [], m_szExeArgs = [], m_szUserArgs = [], m_szName_e = name, m_uiRank = - 1\<rparr>"

definition file_path_text :: "string \<Rightarrow> string" where
  "file_path_text s = getFullPath (Path_ctor s [] True)"

definition setExe :: "string \<Rightarrow> exe_info \<Rightarrow> exe_info" where
  "setExe exe e = e\<lparr>m_szExe := file_path_text exe\<rparr>"

record install_info =
  m_szPath_i :: string
  m_szInsCheck :: string
  m_szInsPrim :: string
  m_szInsVersion :: string
  m_szActiveExe :: string
  m_vExeList :: "exe_info list"
  m_vInstallChecks :: "string list"
  m_NextBuild :: MCFBuild
  m_INBuild :: MCFBuild
  m_LastBuild :: MCFBuild
  m_uiInstallSize :: u64
  m_uiDownloadSize :: u64
  m_ItemId_i :: DesuraId
  m_iInstalledMod :: DesuraId
  m_BiId :: u32

definition DesuraId_none :: DesuraId where
  "DesuraId_none = \<lparr>m_uiItemId = 0, m_uiType = TYPE_NONE\<rparr>"

definition BranchInstallInfo_new :: "u32 \<Rightarrow> DesuraId \<Rightarrow> install_info" where
  "BranchInstallInfo_new biId itemId =
     \<lparr>m_szPath_i = [], m_szInsCheck = [], m_szInsPrim = [], m_szInsVersion = [], m_szActiveExe = [], m_vExeList = [],
      m_vInstallChecks = [], m_NextBuild = 0, m_INBuild = 0, m_LastBuild = 0, m_uiInstallSize = 0, m_uiDownloadSize = 0,
      m_ItemId_i = itemId, m_iInstalledMod = DesuraId_none, m_BiId = biId\<rparr>"

definition isInstalled_bii :: "u32 \<Rightarrow> bool" where
  "isInstalled_bii status \<longleftrightarrow> status AND STATUS_INSTALLED = STATUS_INSTALLED"

section \<open>Builds\<close>

definition updated_bii :: "install_info \<Rightarrow> install_info" where
  "updated_bii b =
     (if m_NextBuild b > m_INBuild b then b\<lparr>m_LastBuild := m_INBuild b, m_INBuild := m_NextBuild b\<rparr> else b)"

definition overideInstalledBuild_bii :: "MCFBuild \<Rightarrow> install_info \<Rightarrow> install_info" where
  "overideInstalledBuild_bii build b = b\<lparr>m_LastBuild := m_INBuild b, m_INBuild := build\<rparr>"

definition overideMcfBuild_bii :: "MCFBuild \<Rightarrow> install_info \<Rightarrow> install_info" where
  "overideMcfBuild_bii build b = b\<lparr>m_INBuild := build\<rparr>"

definition setInstalledMcf_bii :: "MCFBuild \<Rightarrow> install_info \<Rightarrow> install_info \<times> bool" where
  "setInstalledMcf_bii build b =
     (let b' = b\<lparr>m_LastBuild := m_INBuild b, m_INBuild := build\<rparr>
      in if m_NextBuild b' = m_INBuild b' then (b'\<lparr>m_NextBuild := 0\<rparr>, True) else (b', False))"

definition resetInstalledMcf_bii :: "install_info \<Rightarrow> install_info" where
  "resetInstalledMcf_bii b = b\<lparr>m_LastBuild := 0, m_INBuild := 0\<rparr>"

definition processUpdateXml_bii :: "xml \<Rightarrow> install_info \<Rightarrow> install_info \<times> bool" where
  "processUpdateXml_bii branch b =
     (let b' =
        (case FirstChildElement branch ''mcf'' of None \<Rightarrow> b
         | Some mcfEl \<Rightarrow>
             if GetAtt (Some mcfEl) ''id'' \<noteq> [] then
               let build = GetChild_u32 mcfEl ''build'' (- 1)
               in if m_INBuild b = 0 \<or> build > m_INBuild b then b\<lparr>m_NextBuild := BuildFromInt build\<rparr>
                  else b\<lparr>m_NextBuild := m_INBuild b\<rparr>
             else b)
      in (b', m_NextBuild b' > m_INBuild b'))"

section \<open>Paths\<close>

definition setPath_bii :: "u32 \<Rightarrow> string \<Rightarrow> install_info \<Rightarrow> install_info" where
  "setPath_bii status path b =
     (if m_szPath_i b = path then b
      else if isInstalled_bii status then b
      else b\<lparr>m_szPath_i := file_path_text path\<rparr>)"

definition setInsPrimary :: "u32 \<Rightarrow> string \<Rightarrow> install_info \<Rightarrow> install_info" where
  "setInsPrimary status path b =
     (if m_szInsPrim b = path then b
      else if isInstalled_bii status then b
      else b\<lparr>m_szInsPrim := file_path_text path\<rparr>)"

definition setInsCheck :: "u32 \<Rightarrow> string \<Rightarrow> install_info \<Rightarrow> install_info" where
  "setInsCheck status path b =
     (if m_szInsCheck b = path then b
      else
        let bCheckFailed =
          (if isInstalled_bii status then
             getFolderPath (Path_ctor (m_szInsCheck b) [] False) = getFolderPath (Path_ctor path [] False)
           else False)
        in if bCheckFailed then b else b\<lparr>m_szInsCheck := file_path_text path\<rparr>)"

definition setInstalledModId_bii :: "DesuraId \<Rightarrow> install_info \<Rightarrow> install_info" where
  "setInstalledModId_bii i b = b\<lparr>m_iInstalledMod := i\<rparr>"

definition hasInstalledMod :: "install_info \<Rightarrow> bool" where
  "hasInstalledMod b \<longleftrightarrow> DesuraId_isOk (m_iInstalledMod b)"

text \<open>How many folders two paths have in common, from the front.\<close>

fun common_folders :: "string list \<Rightarrow> string list \<Rightarrow> nat" where
  "common_folders (a # as) (b # bs) = (if a = b then Suc (common_folders as bs) else 0)"
| "common_folders as bs = 0"

definition updateInstallCheck :: "u32 \<Rightarrow> string \<Rightarrow> string \<Rightarrow> install_info \<Rightarrow> bool \<times> string" where
  "updateInstallCheck status strCheckRes strPath b =
     (if \<not> isInstalled_bii status then (True, strCheckRes)
      else
        let insCheckPath = Path_ctor strCheckRes [] True; insPath = Path_ctor strPath [] False;
            x = common_folders (m_vPath insCheckPath) (m_vPath insPath)
        in if x = 0 \<or> x \<noteq> length (m_vPath insPath) then (False, strCheckRes)
           else (True, m_szPath_i b @ concat (map (\<lambda>f. good # f) (drop x (m_vPath insCheckPath)))
                         @ good # m_File insCheckPath))"

section \<open>Executables\<close>

definition setLinkInfo_exe :: "string \<Rightarrow> string \<Rightarrow> install_info \<Rightarrow> install_info" where
  "setLinkInfo_exe exe args b =
     (let l = (if m_vExeList b = [] then [ExeInfo_new ''Link''] else m_vExeList b)
      in b\<lparr>m_vExeList := (setExe exe (l ! 0))\<lparr>m_szUserArgs := args\<rparr> # drop 1 l\<rparr>)"

definition setLinkInfo_bii :: "u32 \<Rightarrow> string \<Rightarrow> string \<Rightarrow> string \<Rightarrow> install_info \<Rightarrow> install_info" where
  "setLinkInfo_bii status szPath szExe szArgs b =
     (if status AND STATUS_LINK \<noteq> STATUS_LINK then b
      else setLinkInfo_exe szExe szArgs (setInsCheck status szExe (setPath_bii status szPath b)))"

definition best_rank :: "exe_info list \<Rightarrow> exe_info option" where
  "best_rank l =
     fst (fold (\<lambda>exe (ei, rank). if ei = None \<or> m_uiRank exe > rank then (Some exe, m_uiRank exe) else (ei, rank))
       l (None, 0))"

definition getActiveExe :: "install_info \<Rightarrow> exe_info option" where
  "getActiveExe b =
     (case List.find (\<lambda>e. m_szName_e e = m_szActiveExe b) (m_vExeList b) of
        Some e \<Rightarrow> Some e | None \<Rightarrow> best_rank (m_vExeList b))"

definition setActiveExe :: "string \<Rightarrow> install_info \<Rightarrow> install_info" where
  "setActiveExe name b =
     (if \<exists>e \<in> set (m_vExeList b). m_szName_e e = name then b\<lparr>m_szActiveExe := name\<rparr> else b)"

definition getExeList :: "item_env \<Rightarrow> (exe_info list \<Rightarrow> exe_info list) \<Rightarrow> install_info \<Rightarrow> exe_info list" where
  "getExeList env srt b =
     (let valid = filter (\<lambda>e. valid_path env (m_szExe e)) (m_vExeList b)
      in srt (if valid = [] \<and> m_vExeList b \<noteq> [] then [m_vExeList b ! 0] else valid))"

definition getExeCount :: "item_env \<Rightarrow> bool \<Rightarrow> install_info \<Rightarrow> install_info \<times> nat" where
  "getExeCount env setActive b =
     (let valid = filter (\<lambda>e. valid_path env (m_szExe e)) (m_vExeList b); count = length valid;
          b' = (if setActive \<and> count = 1 then setActiveExe (m_szName_e (valid ! 0)) b else b)
      in (b', if count = 0 then 1 else count))"

section \<open>Settings from XML\<close>

text \<open>A call of \<open>constructPath\<close> in a \<open>try\<close> block: no result when it throws.\<close>

definition try_construct :: "nat \<Rightarrow> string \<Rightarrow> bool \<Rightarrow> wc_manager \<Rightarrow> (wc_manager \<times> string option) option" where
  "try_construct n path fixPath m =
     (case constructPath_fix n (Some path) fixPath m of None \<Rightarrow> None
      | Some (m', Inl _) \<Rightarrow> Some (m', None)
      | Some (m', Inr s) \<Rightarrow> Some (m', Some s))"

type_synonym ins_check = "string \<times> string"

fun extract_loop :: "nat \<Rightarrow> u32 \<Rightarrow> install_info \<Rightarrow> xml list \<Rightarrow> wc_manager \<Rightarrow> ins_check list
    \<Rightarrow> (wc_manager \<times> ins_check list) option" where
  "extract_loop n status b [] m vInsChecks = Some (m, vInsChecks)"
| "extract_loop n status b (icNode # rest) m vInsChecks =
     (let iCheck = GetChild_str icNode ''check'' []; iPath = GetChild_str icNode ''path'' []
      in if iCheck = [] \<or> iPath = [] then extract_loop n status b rest m vInsChecks
         else
           (case try_construct n iCheck True m of None \<Rightarrow> None
            | Some (m', None) \<Rightarrow> extract_loop n status b rest m' vInsChecks
            | Some (m', Some strCheckRes) \<Rightarrow>
                if isInstalled_bii status then
                  (let (ok, strCheckRes') = updateInstallCheck status strCheckRes iPath b
                   in if \<not> ok then extract_loop n status b rest m' vInsChecks
                      else extract_loop n status b rest m' (vInsChecks @ [(strCheckRes', m_szPath_i b)]))
                else extract_loop n status b rest m' (vInsChecks @ [(strCheckRes, iPath)])))"

definition extractInstallChecks ::
  "nat \<Rightarrow> u32 \<Rightarrow> xml \<Rightarrow> install_info \<Rightarrow> wc_manager \<Rightarrow> (wc_manager \<times> ins_check list) option" where
  "extractInstallChecks n status icsNode b m =
     extract_loop n status b (for_each_child icsNode ''installlocation'') m []"

fun UpdateInstallCheckList ::
  "nat \<Rightarrow> ins_check list \<Rightarrow> install_info \<Rightarrow> wc_manager \<Rightarrow> (wc_manager \<times> install_info) option" where
  "UpdateInstallCheckList n [] b m = Some (m, b)"
| "UpdateInstallCheckList n ((check, path) # rest) b m =
     (case try_construct n path True m of None \<Rightarrow> None
      | Some (m', None) \<Rightarrow> UpdateInstallCheckList n rest b m'
      | Some (m', Some strPath) \<Rightarrow>
          if \<not> starts_with (m_szPath_i b) strPath then UpdateInstallCheckList n rest b m'
          else if check \<in> set (m_vInstallChecks b) then UpdateInstallCheckList n rest b m'
          else UpdateInstallCheckList n rest (b\<lparr>m_vInstallChecks := m_vInstallChecks b @ [check]\<rparr>) m')"

text \<open>The executable of a name, made when there is none; its position in the list.\<close>

definition exe_position :: "string \<Rightarrow> install_info \<Rightarrow> install_info \<times> nat" where
  "exe_position name b =
     (let i = length (takeWhile (\<lambda>e. m_szName_e e \<noteq> name) (m_vExeList b))
      in (if i < length (m_vExeList b) then b else b\<lparr>m_vExeList := m_vExeList b @ [ExeInfo_new name]\<rparr>, i))"

definition change_exe :: "nat \<Rightarrow> (exe_info \<Rightarrow> exe_info) \<Rightarrow> install_info \<Rightarrow> install_info" where
  "change_exe i f b = b\<lparr>m_vExeList := (m_vExeList b)[i := f (m_vExeList b ! i)]\<rparr>"

fun processExes_loop ::
  "nat \<Rightarrow> u32 \<Rightarrow> bool \<Rightarrow> xml list \<Rightarrow> u32 \<Rightarrow> install_info \<Rightarrow> wc_manager \<Rightarrow> (wc_manager \<times> install_info) option" where
  "processExes_loop n status useCip [] rank b m = Some (m, b)"
| "processExes_loop n status useCip (xmlChild # rest) rank b m =
     (let ePath = GetChild_str xmlChild ''exe'' []; args = GetChild_str xmlChild ''args'' [];
          name0 = GetChild_str xmlChild ''name'' []
      in if ePath = [] then processExes_loop n status useCip rest rank b m
         else
           let name = (if name0 = [] then ''Play'' else name0);
               (b0, i) = exe_position name b;
               b1 = change_exe i (\<lambda>e. e\<lparr>m_uiRank := rank\<rparr>) b0
           in (case try_construct n ePath True m of None \<Rightarrow> None
               | Some (m1, res) \<Rightarrow>
                   let b2 =
                     (case res of
                        Some ePathRes \<Rightarrow>
                          (if useCip then setInsCheck status ePathRes (change_exe i (setExe ePathRes) b1)
                           else change_exe i (setExe ePathRes) b1)
                      | None \<Rightarrow> change_exe i (setExe ePath) b1)
                   in (case try_construct n args False m1 of None \<Rightarrow> None
                       | Some (m2, ares) \<Rightarrow>
                           processExes_loop n status useCip rest (rank + 1)
                             (change_exe i (\<lambda>e. e\<lparr>m_szExeArgs := (case ares of Some a \<Rightarrow> a | None \<Rightarrow> args)\<rparr>) b2) m2)))"

definition processExes ::
  "nat \<Rightarrow> u32 \<Rightarrow> bool \<Rightarrow> xml \<Rightarrow> install_info \<Rightarrow> wc_manager \<Rightarrow> (wc_manager \<times> install_info) option" where
  "processExes n status useCip setNode b m =
     processExes_loop n status useCip
       (case FirstChildElement setNode ''executes'' of None \<Rightarrow> [] | Some e \<Rightarrow> for_each_child e ''execute'') 0 b m"

record process_result =
  pr_found :: bool
  pr_useCip :: bool
  pr_notFirst :: bool
  pr_insCheck :: string

text \<open>
  The parts of \<open>processSettings\<close>: which install check is there, what the wildcard for the install path becomes, and the
  paths read with it.
\<close>

definition first_valid :: "item_env \<Rightarrow> ins_check list \<Rightarrow> nat option" where
  "first_valid env l =
     (let i = length (takeWhile (\<lambda>c. \<not> valid_path env (fst c)) l) in if i < length l then Some i else None)"

definition install_wildcard :: "string \<Rightarrow> wc_manager \<Rightarrow> wc_manager" where
  "install_wildcard v = updateInstallWildcard ''INSTALL_PATH'' v"

definition found_check :: "u32 \<Rightarrow> ins_check \<Rightarrow> install_info \<Rightarrow> wc_manager \<Rightarrow> wc_manager \<times> install_info" where
  "found_check status c b m =
     (let b' = setInsCheck status (fst c) b
      in (install_wildcard (if isInstalled_bii status then m_szPath_i b' else snd c) m, b'))"

definition default_check :: "nat \<Rightarrow> ins_check \<Rightarrow> u32 \<Rightarrow> install_info \<Rightarrow> wc_manager \<Rightarrow> (wc_manager \<times> install_info) option" where
  "default_check n c status b m =
     (case try_construct n (fst c) True m of None \<Rightarrow> None
      | Some (m', None) \<Rightarrow> Some (m', b)
      | Some (m', Some CheckRes) \<Rightarrow> Some (install_wildcard (snd c) m', setInsCheck status CheckRes b))"

definition choose_check ::
  "nat \<Rightarrow> item_env \<Rightarrow> u32 \<Rightarrow> bool \<Rightarrow> string option \<Rightarrow> ins_check list \<Rightarrow> install_info \<Rightarrow> wc_manager
    \<Rightarrow> (wc_manager \<times> install_info \<times> process_result) option" where
  "choose_check n env status onlyFirst cipPath vInsChecks b m =
     (let pr = \<lparr>pr_found = False, pr_useCip = False, pr_notFirst = False, pr_insCheck = []\<rparr>
      in case first_valid env (if onlyFirst then take 1 vInsChecks else vInsChecks) of
           Some x \<Rightarrow>
             (let (m', b') = found_check status (vInsChecks ! x) b m
              in Some (m', b', pr\<lparr>pr_found := True, pr_notFirst := x \<noteq> 0\<rparr>))
         | None \<Rightarrow>
             if vInsChecks = [] then Some (m, b, pr)
             else if isInstalled_bii status then Some (install_wildcard (m_szPath_i b) m, b, pr)
             else
               (case cipPath of
                  Some cip \<Rightarrow> Some (install_wildcard cip m, b, pr\<lparr>pr_useCip := True\<rparr>)
                | None \<Rightarrow> map_option (\<lambda>(m', b'). (m', b', pr)) (default_check n (vInsChecks ! 0) status b m)))"

definition read_paths ::
  "nat \<Rightarrow> u32 \<Rightarrow> xml \<Rightarrow> install_info \<Rightarrow> wc_manager \<Rightarrow> (wc_manager \<times> install_info) option" where
  "read_paths n status setNode b m =
     (case try_construct n ''%INSTALL_PATH%'' True m of None \<Rightarrow> None
      | Some (m1, res) \<Rightarrow>
          let b1 = (case res of Some iPathRes \<Rightarrow> setPath_bii status iPathRes b | None \<Rightarrow> b)
          in (case try_construct n (GetChild_str setNode ''installprimary'' []) True m1 of None \<Rightarrow> None
              | Some (m2, res2) \<Rightarrow>
                  Some (m2, setInsPrimary status (case res2 of Some p \<Rightarrow> p | None \<Rightarrow> []) b1)))"

definition process_locations ::
  "nat \<Rightarrow> item_env \<Rightarrow> u32 \<Rightarrow> xml \<Rightarrow> xml \<Rightarrow> bool \<Rightarrow> bool \<Rightarrow> string option \<Rightarrow> install_info \<Rightarrow> wc_manager
    \<Rightarrow> (wc_manager \<times> install_info \<times> process_result) option" where
  "process_locations n env status setNode icsNode reset hasBroughtItem cipPath b m =
     (case extractInstallChecks n status icsNode b m of None \<Rightarrow> None
      | Some (m1, vInsChecks) \<Rightarrow>
     (case UpdateInstallCheckList n vInsChecks b m1 of None \<Rightarrow> None
      | Some (m2, b1) \<Rightarrow>
     (case choose_check n env status (reset \<or> hasBroughtItem \<and> \<not> isInstalled_bii status) cipPath vInsChecks b1 m2 of
        None \<Rightarrow> None
      | Some (m3, b2, pr) \<Rightarrow>
     (case read_paths n status setNode b2 m3 of None \<Rightarrow> None
      | Some (m4, b3) \<Rightarrow>
     (case processExes n status (pr_useCip pr) setNode b3 m4 of None \<Rightarrow> None
      | Some (m5, b4) \<Rightarrow> Some (m5, b4, pr))))))"

definition processSettings_bii ::
  "nat \<Rightarrow> item_env \<Rightarrow> u32 \<Rightarrow> xml \<Rightarrow> bool \<Rightarrow> bool \<Rightarrow> string option \<Rightarrow> install_info \<Rightarrow> wc_manager
    \<Rightarrow> (wc_manager \<times> install_info \<times> process_result) option" where
  "processSettings_bii n env status setNode reset hasBroughtItem cipPath b m =
     (let b0 = (if \<not> isInstalled_bii status then b\<lparr>m_vInstallChecks := []\<rparr> else b)
      in map_option
           (\<lambda>(m', b', pr).
              let b'' = (if m_vInstallChecks b' = [] then b'\<lparr>m_vInstallChecks := [m_szInsCheck b']\<rparr> else b')
              in (m', b'', pr\<lparr>pr_insCheck := m_szInsCheck b''\<rparr>))
           (case FirstChildElement setNode ''installlocations'' of
              None \<Rightarrow> Some (m, b0, \<lparr>pr_found = False, pr_useCip = False, pr_notFirst = False, pr_insCheck = []\<rparr>)
            | Some icsNode \<Rightarrow> process_locations n env status setNode icsNode reset hasBroughtItem cipPath b0 m))"


section \<open>Lemmas\<close>

subsection \<open>Executables\<close>

lemma best_rank_fold:
  assumes "fold (\<lambda>exe (ei, rank). if ei = None \<or> m_uiRank exe > rank then (Some exe, m_uiRank exe) else (ei, rank)) l
      (Some e, m_uiRank e) = (r, k)"
  shows "\<exists>e'. r = Some e' \<and> e' \<in> insert e (set l) \<and> (\<forall>x \<in> insert e (set l). m_uiRank x \<le> m_uiRank e')"
  using assms
proof (induction l arbitrary: e)
  case (Cons x l)
  show ?case
  proof (cases "m_uiRank x > m_uiRank e")
    case True
    then have "fold (\<lambda>exe (ei, rank). if ei = None \<or> m_uiRank exe > rank then (Some exe, m_uiRank exe) else (ei, rank)) l
        (Some x, m_uiRank x) = (r, k)" using Cons(2) by simp
    from Cons(1) [OF this] show ?thesis using True by fastforce
  next
    case False
    then have "fold (\<lambda>exe (ei, rank). if ei = None \<or> m_uiRank exe > rank then (Some exe, m_uiRank exe) else (ei, rank)) l
        (Some e, m_uiRank e) = (r, k)" using Cons(2) by simp
    from Cons(1) [OF this] show ?thesis using False by fastforce
  qed
qed auto

text \<open>An item with executables has an active one: the chosen one, or one of the highest rank.\<close>

lemma best_rank_max:
  assumes "l \<noteq> []"
  obtains e where "best_rank l = Some e" "e \<in> set l" "\<forall>x \<in> set l. m_uiRank x \<le> m_uiRank e"
proof -
  obtain x xs where l: "l = x # xs" using assms by (cases l) auto
  obtain r k where rk: "fold (\<lambda>exe (ei, rank). if ei = None \<or> m_uiRank exe > rank then (Some exe, m_uiRank exe)
      else (ei, rank)) xs (Some x, m_uiRank x) = (r, k)" by (rule prod.exhaust)
  then have "best_rank l = r" by (simp add: best_rank_def l)
  moreover obtain e' where "r = Some e'" "e' \<in> insert x (set xs)" "\<forall>y \<in> insert x (set xs). m_uiRank y \<le> m_uiRank e'"
    using best_rank_fold [OF rk] by blast
  ultimately show ?thesis using that l by simp
qed

lemma getActiveExe_some:
  assumes "m_vExeList b \<noteq> []"
  shows "\<exists>e \<in> set (m_vExeList b). getActiveExe b = Some e"
proof (cases "List.find (\<lambda>e. m_szName_e e = m_szActiveExe b) (m_vExeList b)")
  case None
  obtain e where "best_rank (m_vExeList b) = Some e" "e \<in> set (m_vExeList b)" using best_rank_max [OF assms] by blast
  then show ?thesis using None by (simp add: getActiveExe_def)
next
  case (Some e)
  then have "e \<in> set (m_vExeList b)" by (auto simp: find_Some_iff)
  then show ?thesis using Some by (simp add: getActiveExe_def)
qed

lemma getExeCount_positive: "0 < snd (getExeCount env a b)"
  by (simp add: getExeCount_def Let_def)

subsection \<open>What leaves the paths alone\<close>

text \<open>The data that say where a branch is installed.\<close>

definition places :: "install_info \<Rightarrow> string \<times> string \<times> string \<times> string list" where
  "places b = (m_szPath_i b, m_szInsPrim b, m_szInsCheck b, m_vInstallChecks b)"

lemma exe_ops_places [simp]:
  "places (change_exe i f b) = places b" "places (fst (exe_position name b)) = places b"
  by (simp_all add: places_def change_exe_def exe_position_def Let_def)

lemma processExes_loop_places:
  "processExes_loop n status False l rank b m = Some (m', b') \<Longrightarrow> places b' = places b"
proof (induction l arbitrary: rank b m)
  case (Cons x l)
  let ?name = "if GetChild_str x ''name'' [] = [] then ''Play'' else GetChild_str x ''name'' []"
  obtain b0 i where p: "exe_position ?name b = (b0, i)" by (metis surj_pair)
  have b0: "places b0 = places b" using exe_ops_places(2) [of ?name b] p by simp
  show ?case
  proof (cases "GetChild_str x ''exe'' [] = []")
    case True
    then show ?thesis using Cons by simp
  next
    case False
    obtain rank' b1 m1 where "processExes_loop n status False l rank' b1 m1 = Some (m', b')" "places b1 = places b0"
      using Cons(2) False p by (auto simp: Let_def split: option.splits)
    then show ?thesis using Cons(1) b0 by metis
  qed
qed simp

text \<open>What is below the install path of a branch.\<close>

definition below :: "install_info \<Rightarrow> string \<Rightarrow> bool" where
  "below b c \<longleftrightarrow> starts_with (m_szPath_i b @ [good]) c"

lemma below_iff: "below b c \<longleftrightarrow> (\<exists>s. c = m_szPath_i b @ good # s)"
proof
  assume "below b c"
  then have "c = (m_szPath_i b @ [good]) @ drop (length (m_szPath_i b @ [good])) c"
    unfolding below_def starts_with_def by (metis append_take_drop_id)
  then show "\<exists>s. c = m_szPath_i b @ good # s" by (metis append_Cons append_Nil append_assoc)
qed (auto simp: below_def starts_with_def)

lemma updateInstallCheck_below:
  assumes "isInstalled_bii status" and "updateInstallCheck status x y b = (True, c)"
  shows "below b c"
proof -
  obtain ds f where c: "c = m_szPath_i b @ concat (map (\<lambda>f. good # f) ds) @ good # f"
    using assms by (auto simp: updateInstallCheck_def Let_def split: if_splits)
  show ?thesis unfolding below_iff by (cases ds) (auto simp: c)
qed

lemma extract_loop_below:
  assumes inst: "isInstalled_bii status"
  shows "extract_loop n status b l m acc = Some (m', r) \<Longrightarrow> \<forall>c \<in> fst ` set acc. below b c \<Longrightarrow> \<forall>c \<in> fst ` set r. below b c"
proof (induction l arbitrary: m acc)
  case (Cons x l)
  let ?ck = "GetChild_str x ''check'' []" and ?p = "GetChild_str x ''path'' []"
  show ?case
  proof (cases "?ck = [] \<or> ?p = []")
    case True
    then show ?thesis using Cons by auto
  next
    case False
    obtain m1 o1 where t: "try_construct n ?ck True m = Some (m1, o1)"
      using Cons(2) False by (auto simp: Let_def split: option.splits)
    show ?thesis
    proof (cases o1)
      case None
      then show ?thesis using Cons False t by auto
    next
      case (Some res)
      obtain ok c where u: "updateInstallCheck status res ?p b = (ok, c)" by (metis surj_pair)
      define acc' where "acc' = (if ok then acc @ [(c, m_szPath_i b)] else acc)"
      have "extract_loop n status b l m1 acc' = Some (m', r)"
        using Cons(2) False t Some u inst by (cases ok) (simp_all add: acc'_def)
      moreover have "\<forall>c \<in> fst ` set acc'. below b c"
        using Cons(3) updateInstallCheck_below [OF inst] u by (auto simp: acc'_def)
      ultimately show ?thesis by (rule Cons(1))
    qed
  qed
qed simp

lemma UpdateInstallCheckList_keeps:
  "UpdateInstallCheckList n l b m = Some (m', b') \<Longrightarrow>
     m_szPath_i b' = m_szPath_i b \<and> m_szInsPrim b' = m_szInsPrim b \<and> m_szInsCheck b' = m_szInsCheck b
     \<and> set (m_vInstallChecks b') \<subseteq> set (m_vInstallChecks b) \<union> fst ` set l"
proof (induction l arbitrary: b m)
  case (Cons x l)
  obtain c p where x: "x = (c, p)" by (cases x)
  obtain m1 b1 where "UpdateInstallCheckList n l b1 m1 = Some (m', b')"
      "b1 = b \<or> b1 = b\<lparr>m_vInstallChecks := m_vInstallChecks b @ [c]\<rparr>"
    using Cons(2) by (auto simp: x split: option.splits if_splits)
  then show ?case using Cons(1) [of b1 m1] by (auto simp: x)
qed simp


lemma setters_installed [simp]:
  "isInstalled_bii status \<Longrightarrow> setPath_bii status p b = b"
  "isInstalled_bii status \<Longrightarrow> setInsPrimary status p b = b"
  by (simp_all add: setPath_bii_def setInsPrimary_def)

lemma setInsCheck_places:
  "m_szPath_i (setInsCheck status c b) = m_szPath_i b" "m_szInsPrim (setInsCheck status c b) = m_szInsPrim b"
  "m_vInstallChecks (setInsCheck status c b) = m_vInstallChecks b"
  "m_szInsCheck (setInsCheck status c b) = m_szInsCheck b \<or> m_szInsCheck (setInsCheck status c b) = file_path_text c"
  by (simp_all add: setInsCheck_def Let_def)

lemma choose_check_installed:
  assumes inst: "isInstalled_bii status" and "choose_check n env status one cip l b m = Some (m', b', pr)"
    and l: "\<forall>c \<in> fst ` set l. below b c"
  shows "m_szPath_i b' = m_szPath_i b \<and> m_szInsPrim b' = m_szInsPrim b \<and> m_vInstallChecks b' = m_vInstallChecks b
    \<and> (m_szInsCheck b' = m_szInsCheck b \<or> (\<exists>c. below b c \<and> m_szInsCheck b' = file_path_text c))
    \<and> \<not> pr_useCip pr"
proof (cases "first_valid env (if one then take 1 l else l)")
  case None
  then show ?thesis using assms(2) inst by (auto simp: choose_check_def Let_def split: if_splits)
next
  case (Some x)
  have "x < length (if one then take 1 l else l)" using Some by (auto simp: first_valid_def Let_def split: if_splits)
  then have "x < length l" by (auto split: if_splits)
  then have "below b (fst (l ! x))" using l by simp
  moreover have "b' = setInsCheck status (fst (l ! x)) b" "\<not> pr_useCip pr"
    using assms(2) Some by (auto simp: choose_check_def found_check_def Let_def)
  ultimately show ?thesis using setInsCheck_places [of status "fst (l ! x)" b] by auto
qed

lemma read_paths_installed:
  "isInstalled_bii status \<Longrightarrow> read_paths n status e b m = Some (m', b') \<Longrightarrow> b' = b"
  by (auto simp: read_paths_def Let_def split: option.splits)

lemma process_locations_installed:
  assumes inst: "isInstalled_bii status"
    and "process_locations n env status e ics reset bought cip b m = Some (m', b', pr)"
  shows "m_szPath_i b' = m_szPath_i b \<and> m_szInsPrim b' = m_szInsPrim b
    \<and> (m_szInsCheck b' = m_szInsCheck b \<or> (\<exists>c. below b c \<and> m_szInsCheck b' = file_path_text c))
    \<and> (\<forall>c \<in> set (m_vInstallChecks b'). c \<in> set (m_vInstallChecks b) \<or> below b c)"
proof -
  obtain m1 l m2 b1 m3 b2 m4 b3 where 1: "extractInstallChecks n status ics b m = Some (m1, l)"
      and 2: "UpdateInstallCheckList n l b m1 = Some (m2, b1)"
      and 3: "choose_check n env status (reset \<or> bought \<and> \<not> isInstalled_bii status) cip l b1 m2 = Some (m3, b2, pr)"
      and 4: "read_paths n status e b2 m3 = Some (m4, b3)"
      and 5: "processExes n status (pr_useCip pr) e b3 m4 = Some (m', b')"
    using assms(2) by (auto simp: process_locations_def split: option.splits)
  have l: "\<forall>c \<in> fst ` set l. below b c"
    using extract_loop_below [OF inst] 1 by (simp add: extractInstallChecks_def)
  note b1 = UpdateInstallCheckList_keeps [OF 2]
  have "\<forall>c \<in> fst ` set l. below b1 c" using l b1 by (simp add: below_def)
  note b2 = choose_check_installed [OF inst 3 this]
  have b3: "b3 = b2" by (rule read_paths_installed [OF inst 4])
  have b': "places b' = places b3"
    using 5 b2 processExes_loop_places by (fastforce simp: processExes_def)
  have same: "below b1 c = below b c" for c using b1 by (simp add: below_def)
  show ?thesis
    using b' b3 b2 b1 l unfolding places_def same by auto
qed

text \<open>Settings that are read for an installed branch never move it: its install path and primary file stay, and its install check is the old one or a file below the install path, and so is every check that is added to its list.\<close>

theorem installed_branch_stays:
  assumes "isInstalled_bii status"
    and "processSettings_bii n env status e reset bought cip b m = Some (m', b', pr)"
  shows "m_szPath_i b' = m_szPath_i b \<and> m_szInsPrim b' = m_szInsPrim b
    \<and> (m_szInsCheck b' = m_szInsCheck b \<or> (\<exists>c. below b c \<and> m_szInsCheck b' = file_path_text c))
    \<and> (\<forall>c \<in> set (m_vInstallChecks b'). c \<in> set (m_vInstallChecks b) \<or> below b c \<or> c = m_szInsCheck b')
    \<and> pr_insCheck pr = m_szInsCheck b'"
proof (cases "FirstChildElement e ''installlocations''")
  case None
  then show ?thesis using assms by (auto simp: processSettings_bii_def Let_def split: if_splits)
next
  case (Some ics)
  then obtain m1 b1 pr1 where p: "process_locations n env status e ics reset bought cip b m = Some (m1, b1, pr1)"
      and b': "b' = (if m_vInstallChecks b1 = [] then b1\<lparr>m_vInstallChecks := [m_szInsCheck b1]\<rparr> else b1)"
      and pr: "pr_insCheck pr = m_szInsCheck b'"
    using assms by (auto simp: processSettings_bii_def Let_def)
  then show ?thesis using process_locations_installed [OF assms(1) p] by auto
qed

definition demo_settings :: xml where
  "demo_settings = Elem ''settings'' [] None
     [Elem ''installlocations'' [] None
        [Elem ''installlocation'' [] None
           [Elem ''check'' [] (Some ''/c/d/x.txt'') [], Elem ''path'' [] (Some ''/c'') []]],
      Elem ''installprimary'' [] (Some ''p'') []]"

definition demo_install :: install_info where
  "demo_install = (BranchInstallInfo_new 100 \<lparr>m_uiItemId = 2, m_uiType = TYPE_GAME\<rparr>)\<lparr>m_szPath_i := ''/g''\<rparr>"

definition demo_files :: item_env where
  "demo_files = demo_env\<lparr>valid_file := (\<lambda>f. f = ''/g/d/x.txt'')\<rparr>"

lemma demo_settings_run:
  "map_option (\<lambda>(m', b', pr). (m_szPath_i b', m_szInsCheck b', pr_found pr))
     (processSettings_bii 2 demo_files STATUS_INSTALLED demo_settings False False None demo_install demo_wc)
   = Some (''/g'', ''/g/d/x.txt'', True)"
  by code_simp

theorem installed_branch_stays_witness:
  "\<exists>m' b' pr. processSettings_bii 2 demo_files STATUS_INSTALLED demo_settings False False None demo_install demo_wc = Some (m', b', pr)
     \<and> m_szInsCheck b' = ''/g/d/x.txt'' \<and> m_szPath_i b' = ''/g'' \<and> pr_insCheck pr = ''/g/d/x.txt''"
proof -
  obtain m' b' pr where r:
      "processSettings_bii 2 demo_files STATUS_INSTALLED demo_settings False False None demo_install demo_wc = Some (m', b', pr)"
      "m_szInsCheck b' = ''/g/d/x.txt''"
    using demo_settings_run by auto
  have "isInstalled_bii STATUS_INSTALLED" by (simp add: isInstalled_bii_def)
  from installed_branch_stays [OF this r(1)] show ?thesis using r by (auto simp: demo_install_def BranchInstallInfo_new_def)
qed

text \<open>When the update feed announces a newer build and this build is then installed, the branch has this build, remembers the one before, reports that the update is done, and the same feed announces nothing more.\<close>

theorem update_cycle:
  assumes "processUpdateXml_bii e b = (b1, True)" and "setInstalledMcf_bii (m_NextBuild b1) b1 = (b2, told)"
  shows "told \<and> m_INBuild b2 = m_NextBuild b1 \<and> m_INBuild b < m_INBuild b2 \<and> m_LastBuild b2 = m_INBuild b
    \<and> \<not> snd (processUpdateXml_bii e b2)"
proof -
  have b1: "m_INBuild b1 = m_INBuild b" "m_INBuild b < m_NextBuild b1"
    using assms(1) by (auto simp: processUpdateXml_bii_def Let_def split: option.splits if_splits)
  have b2: "told" "b2 = b1\<lparr>m_LastBuild := m_INBuild b, m_INBuild := m_NextBuild b1, m_NextBuild := 0\<rparr>"
    using assms(2) b1 by (auto simp: setInstalledMcf_bii_def)
  have pos: "m_NextBuild b1 \<noteq> 0" using b1(2) by auto
  have again: "\<not> snd (processUpdateXml_bii e b2)"
  proof (cases "FirstChildElement e ''mcf''")
    case None
    then show ?thesis by (simp add: processUpdateXml_bii_def b2)
  next
    case (Some n)
    then have "GetAtt (Some n) ''id'' \<noteq> [] \<Longrightarrow> m_NextBuild b1 = GetChild_u32 n ''build'' (- 1) \<or> m_NextBuild b1 = m_INBuild b"
      using assms(1) by (auto simp: processUpdateXml_bii_def Let_def BuildFromInt_def split: if_splits)
    then show ?thesis using Some pos b1 by (auto simp: processUpdateXml_bii_def b2 Let_def)
  qed
  show ?thesis using b1 b2 again by simp
qed


theorem update_cycle_witness:
  "snd (processUpdateXml_bii (Elem ''branch'' [] None [Elem ''mcf'' [(''id'', ''1'')] None [Elem ''build'' [] (Some ''3'') []]])
      (demo_install\<lparr>m_INBuild := 2\<rparr>))
   \<and> snd (setInstalledMcf_bii 3 (demo_install\<lparr>m_INBuild := 2, m_NextBuild := 3\<rparr>))"
proof -
  let ?e = "Elem ''branch'' [] None [Elem ''mcf'' [(''id'', ''1'')] None [Elem ''build'' [] (Some ''3'') []]]"
  have 3: "Safe_atoi (Some ''3'') = 3" 
  proof -
    have "dec_digits 3 = ''3''" by code_simp
    then show ?thesis using Safe_atoi_dec [of 3] by simp
  qed
  have 1: "processUpdateXml_bii ?e (demo_install\<lparr>m_INBuild := 2\<rparr>) = (demo_install\<lparr>m_INBuild := 2, m_NextBuild := 3\<rparr>, True)"
    by (simp add: processUpdateXml_bii_def FirstChildElement_def GetAtt_def GetChild_u32_def GetChild_def GetText_def
        3 BuildFromInt_def)
  show ?thesis
    using update_cycle [OF 1, of "fst (setInstalledMcf_bii 3 (demo_install\<lparr>m_INBuild := 2, m_NextBuild := 3\<rparr>))"
        "snd (setInstalledMcf_bii 3 (demo_install\<lparr>m_INBuild := 2, m_NextBuild := 3\<rparr>))"] 1
    by simp
qed

subsection \<open>Reading settings ends\<close>

text \<open>With all wildcards resolved each step has a result and keeps them resolved.\<close>

lemma try_construct_total:
  assumes "all_resolved m" and "27 \<le> n"
  obtains m' r where "try_construct n p f m = Some (m', r)" "all_resolved m'"
proof -
  obtain m1 r1 where c: "constructPath n 0 p m = Some (m1, r1)" "all_resolved m1"
    using constructPath_resolved [OF assms(1), of n 0 p] assms(2) by (auto simp: MAX_DEPTH_def)
  then have "constructPath_fix n (Some p) f m
      = Some (m1, case r1 of Inl e \<Rightarrow> Inl e | Inr s \<Rightarrow> Inr (if f then fix_path s else s))"
    by (cases r1) (simp_all add: constructPath_fix_def)
  then show ?thesis using that c(2) by (cases r1) (auto simp: try_construct_def)
qed

lemma install_wildcard_resolved: "all_resolved m \<Longrightarrow> all_resolved (install_wildcard v m)"
  by (fastforce simp: install_wildcard_def updateInstallWildcard_def all_resolved_def change_item_def addItem_wc_def
      addItem_key_def WildcardInfo_def set_insort_key split: option.splits if_splits)

lemma extract_loop_total:
  assumes n: "27 \<le> n"
  shows "all_resolved m \<Longrightarrow> \<exists>m' r. extract_loop n status b l m acc = Some (m', r) \<and> all_resolved m'"
proof (induction l arbitrary: m acc)
  case (Cons x l)
  obtain m1 r where t: "try_construct n (GetChild_str x ''check'' []) True m = Some (m1, r)" "all_resolved m1"
    using try_construct_total [OF Cons(2) n] by blast
  show ?case
    using Cons(1) [OF Cons(2)] Cons(1) [OF t(2)] t(1)
    by (simp add: Let_def split: option.split prod.split)
qed simp

lemma UpdateInstallCheckList_total:
  assumes n: "27 \<le> n"
  shows "all_resolved m \<Longrightarrow> \<exists>m' b'. UpdateInstallCheckList n l b m = Some (m', b') \<and> all_resolved m'"
proof (induction l arbitrary: m b)
  case (Cons x l)
  obtain m1 r where t: "try_construct n (snd x) True m = Some (m1, r)" "all_resolved m1"
    using try_construct_total [OF Cons(2) n] by blast
  show ?case
    using Cons(1) [OF t(2)] t(1) by (cases x) (simp split: option.split)
qed simp

lemma processExes_loop_total:
  assumes n: "27 \<le> n"
  shows "all_resolved m \<Longrightarrow> \<exists>m' b'. processExes_loop n status cip l rank b m = Some (m', b') \<and> all_resolved m'"
proof (induction l arbitrary: m b rank)
  case (Cons x l)
  obtain m1 r where t: "try_construct n (GetChild_str x ''exe'' []) True m = Some (m1, r)" "all_resolved m1"
    using try_construct_total [OF Cons(2) n] by blast
  obtain m2 r2 where t2: "try_construct n (GetChild_str x ''args'' []) False m1 = Some (m2, r2)" "all_resolved m2"
    using try_construct_total [OF t(2) n] by blast
  show ?case
    using Cons(1) [OF Cons(2)] Cons(1) [OF t2(2)] t(1) t2(1) by (simp add: Let_def case_prod_beta)
qed simp

lemma choose_check_total:
  assumes "27 \<le> n" and "all_resolved m"
  shows "\<exists>m' b' pr. choose_check n env status one cip l b m = Some (m', b', pr) \<and> all_resolved m'"
proof -
  obtain m1 r where t: "try_construct n (fst (l ! 0)) True m = Some (m1, r)" "all_resolved m1"
    using try_construct_total [OF assms(2,1)] by blast
  show ?thesis
    using assms(2) t by (auto simp: choose_check_def found_check_def default_check_def Let_def install_wildcard_resolved
        split: option.split)
qed

lemma read_paths_total:
  assumes "27 \<le> n" and "all_resolved m"
  shows "\<exists>m' b'. read_paths n status e b m = Some (m', b') \<and> all_resolved m'"
proof -
  obtain m1 r where t: "try_construct n ''%INSTALL_PATH%'' True m = Some (m1, r)" "all_resolved m1"
    using try_construct_total [OF assms(2,1)] by blast
  obtain m2 r2 where t2: "try_construct n (GetChild_str e ''installprimary'' []) True m1 = Some (m2, r2)" "all_resolved m2"
    using try_construct_total [OF t(2) assms(1)] by blast
  show ?thesis using t t2 by (simp add: read_paths_def Let_def)
qed

lemma process_locations_total:
  assumes n: "27 \<le> n" and m: "all_resolved m"
  shows "\<exists>m' b' pr. process_locations n env status e ics reset bought cip b m = Some (m', b', pr) \<and> all_resolved m'"
proof -
  obtain m1 l where 1: "extractInstallChecks n status ics b m = Some (m1, l)" "all_resolved m1"
    using extract_loop_total [OF n m] unfolding extractInstallChecks_def by blast
  obtain m2 b1 where 2: "UpdateInstallCheckList n l b m1 = Some (m2, b1)" "all_resolved m2"
    using UpdateInstallCheckList_total [OF n 1(2)] by blast
  obtain m3 b2 pr where 3: "choose_check n env status (reset \<or> bought \<and> \<not> isInstalled_bii status) cip l b1 m2
      = Some (m3, b2, pr)" "all_resolved m3"
    using choose_check_total [OF n 2(2)] by blast
  obtain m4 b3 where 4: "read_paths n status e b2 m3 = Some (m4, b3)" "all_resolved m4"
    using read_paths_total [OF n 3(2)] by blast
  obtain m5 b4 where 5: "processExes n status (pr_useCip pr) e b3 m4 = Some (m5, b4)" "all_resolved m5"
    using processExes_loop_total [OF n 4(2)] unfolding processExes_def by blast
  show ?thesis using 1 2 3 4 5 by (simp add: process_locations_def)
qed

lemma processSettings_total:
  assumes "27 \<le> n" and "all_resolved m"
  shows "\<exists>m' b' pr. processSettings_bii n env status e reset bought cip b m = Some (m', b', pr) \<and> all_resolved m'"
proof (cases "FirstChildElement e ''installlocations''")
  case None
  then show ?thesis using assms(2) by (simp add: processSettings_bii_def Let_def)
next
  case (Some ics)
  obtain m' b' pr where "process_locations n env status e ics reset bought cip
      (if \<not> isInstalled_bii status then b\<lparr>m_vInstallChecks := []\<rparr> else b) m = Some (m', b', pr)" "all_resolved m'"
    using process_locations_total [OF assms] by blast
  then show ?thesis by (simp add: processSettings_bii_def Some Let_def)
qed

text \<open>With all wildcards resolved, reading the settings of a branch ends, and leaves them resolved.\<close>

theorem settings_read:
  assumes "all_resolved m" and "27 \<le> n"
  shows "\<exists>r. processSettings_bii n env status e reset bought cip b m = Some r \<and> all_resolved (fst r)"
  using processSettings_total [OF assms(2,1)] by fastforce

theorem settings_read_witness:
  "\<exists>r. processSettings_bii 27 demo_files STATUS_INSTALLED demo_settings False False None demo_install
     (demo_wc\<lparr>m_mItemMap := []\<rparr>) = Some r \<and> all_resolved (fst r)"
  by (rule settings_read) (simp_all add: all_resolved_def)

text \<open>The check of an installed branch may not stay in the same directory, but may move to any other.\<close>

lemma setInsCheck_moves:
  "m_szInsCheck (setInsCheck STATUS_INSTALLED ''/z/y.txt'' (demo_install\<lparr>m_szInsCheck := ''/g/x.txt''\<rparr>)) = ''/z/y.txt''"
  by code_simp

end
