(* ===== verification/Item_Info.thy ===== *)
theory Item_Info
  imports Item_Install
begin

text \<open>
  An item: \<^verbatim>\<open>src/src/shared/usercore/code/ItemInfo.cpp\<close> and \<^verbatim>\<open>ItemInfo.h\<close>, without the item database. What an item
  tells the rest of the client is a log of events. The rest of the client is an environment: the disk, whether
  loading is delayed, whether the core is there, the path of the stored archive and of the custom install.
\<close>

unbundle bit_operations_syntax

section \<open>State\<close>

record core_env =
  disk_env :: item_env
  delayLoading :: bool
  hasInternal :: bool
  mcf_path :: string
  cip_path :: "string option"
  user_id :: u32
  script_crc :: u32

datatype item_event =
    InfoChange u32 | ItemsAdded | NewItem DesuraId | FetchIcon | FetchLogo | AccountAdd | AccountRemove | ItemSaved

record item_info =
  m_bPauseCallBack :: bool
  m_bWasOnAccount :: bool
  m_iId :: DesuraId
  m_iParentId :: DesuraId
  m_iChangedFlags :: u32
  m_iStatus :: u32
  m_INBranchIndex :: u32
  m_INBranch :: MCFBranch
  m_LastBranch :: MCFBranch
  m_iPermissions :: u8
  m_iOptions :: u8
  m_iPercent :: u8
  m_szRating :: string
  m_szDesc :: string
  m_szDev :: string
  m_szDevProfile :: string
  m_szPublisher :: string
  m_szPublisherProfile :: string
  m_szName_it :: string
  m_szShortName :: string
  m_szIcon :: string
  m_szLogo :: string
  m_szIconUrl :: string
  m_szLogoUrl :: string
  m_szTheme :: string
  m_szGenre :: string
  m_szProfile :: string
  m_szEULAUrl :: string
  m_vBranchList :: "branch_info list"
  m_mBranchInstallInfo :: "(u32 \<times> install_info) list"
  item_events :: "item_event list"

definition ItemInfo_new :: "DesuraId \<Rightarrow> DesuraId \<Rightarrow> item_info" where
  "ItemInfo_new i parid =
     \<lparr>m_bPauseCallBack = False, m_bWasOnAccount = False, m_iId = i, m_iParentId = parid, m_iChangedFlags = 0,
      m_iStatus = 0, m_INBranchIndex = - 1, m_INBranch = MCFBranch_default, m_LastBranch = MCFBranch_default,
      m_iPermissions = 0, m_iOptions = OPTION_AUTOUPDATE, m_iPercent = 0, m_szRating = [], m_szDesc = [], m_szDev = [],
      m_szDevProfile = [], m_szPublisher = [], m_szPublisherProfile = [], m_szName_it = [], m_szShortName = [],
      m_szIcon = [], m_szLogo = [], m_szIconUrl = [], m_szLogoUrl = [], m_szTheme = [], m_szGenre = [],
      m_szProfile = [], m_szEULAUrl = [], m_vBranchList = [], m_mBranchInstallInfo = [], item_events = []\<rparr>"

definition tell :: "item_event \<Rightarrow> item_info \<Rightarrow> item_info" where
  "tell e i = i\<lparr>item_events := item_events i @ [e]\<rparr>"

section \<open>Status\<close>

definition triggerCallBack :: "core_env \<Rightarrow> item_info \<Rightarrow> item_info" where
  "triggerCallBack env i =
     (let i' = (if HasAnyFlags (m_iChangedFlags i) CHANGED_STATUS \<or> \<not> delayLoading env
                then tell (InfoChange (m_iChangedFlags i)) i else i)
      in i'\<lparr>m_iChangedFlags := 0\<rparr>)"

definition onInfoChange :: "core_env \<Rightarrow> item_info \<Rightarrow> item_info" where
  "onInfoChange env i = (if \<not> m_bPauseCallBack i then triggerCallBack env i else i)"

definition change_flags :: "u32 \<Rightarrow> item_info \<Rightarrow> item_info" where
  "change_flags f i = i\<lparr>m_iChangedFlags := m_iChangedFlags i OR f\<rparr>"

definition isDeleted :: "item_info \<Rightarrow> bool" where
  "isDeleted i \<longleftrightarrow> HasAllFlags (m_iStatus i) STATUS_DELETED"

definition isInstalled_item :: "item_info \<Rightarrow> bool" where
  "isInstalled_item i \<longleftrightarrow> m_iStatus i AND STATUS_INSTALLED \<noteq> 0"

definition isLaunchable :: "item_info \<Rightarrow> bool" where
  "isLaunchable i \<longleftrightarrow> m_iStatus i AND (STATUS_INSTALLED OR STATUS_READY) \<noteq> 0"

definition isDownloadable_item :: "item_info \<Rightarrow> bool" where
  "isDownloadable_item i \<longleftrightarrow> \<not> HasAnyFlags (m_iStatus i) (STATUS_NONDOWNLOADABLE OR STATUS_LINK)"

definition isComplex :: "item_info \<Rightarrow> bool" where
  "isComplex i \<longleftrightarrow> HasAllFlags (m_iStatus i) STATUS_INSTALLCOMPLEX"

definition isUpdating :: "item_info \<Rightarrow> bool" where
  "isUpdating i \<longleftrightarrow> isInstalled_item i \<and> HasAllFlags (m_iStatus i) STATUS_UPDATEAVAL"

definition isFirstLaunch :: "item_info \<Rightarrow> bool" where
  "isFirstLaunch i \<longleftrightarrow> \<not> HasAllFlags (m_iStatus i) STATUS_LAUNCHED"

definition isCallBackActive :: "item_info \<Rightarrow> bool" where
  "isCallBackActive i \<longleftrightarrow> m_bPauseCallBack i"

definition pauseCallBack :: "item_info \<Rightarrow> item_info" where "pauseCallBack i = i\<lparr>m_bPauseCallBack := True\<rparr>"
definition resumeCallBack :: "item_info \<Rightarrow> item_info" where "resumeCallBack i = i\<lparr>m_bPauseCallBack := False\<rparr>"

definition delSFlag :: "core_env \<Rightarrow> u32 \<Rightarrow> item_info \<Rightarrow> item_info" where
  "delSFlag env flags i =
     (if \<not> HasAnyFlags (m_iStatus i) flags then i
      else
        let wasDeleted = isDeleted i;
            s1 = m_iStatus i AND NOT flags;
            s2 = (if flags AND STATUS_PAUSABLE \<noteq> 0 then s1 AND NOT STATUS_PAUSED else s1);
            s3 = (if flags AND STATUS_INSTALLED \<noteq> 0 then s2 AND NOT STATUS_READY else s2);
            i' = onInfoChange env (i\<lparr>m_iStatus := s3\<rparr>)
        in if \<not> isDeleted i' \<and> wasDeleted then tell (NewItem (m_iId i')) i' else i')"

definition del_if :: "core_env \<Rightarrow> bool \<Rightarrow> u32 \<Rightarrow> item_info \<Rightarrow> item_info" where
  "del_if env c flags i = (if c then delSFlag env flags i else i)"

definition addSFlag :: "core_env \<Rightarrow> u32 \<Rightarrow> item_info \<Rightarrow> item_info" where
  "addSFlag env flags i =
     (if HasAllFlags (m_iStatus i) flags then i
      else
        let shouldTriggerUpdate = (m_iStatus i AND STATUS_DEVELOPER \<noteq> 0 \<or>
              HasAnyFlags flags (STATUS_INSTALLED OR STATUS_ONCOMPUTER OR STATUS_ONACCOUNT OR STATUS_PAUSED OR STATUS_UPDATEAVAL));
            i0 = change_flags CHANGED_STATUS (i\<lparr>m_iStatus := m_iStatus i OR flags\<rparr>);
            i1 = del_if env (flags AND STATUS_VERIFING \<noteq> 0) STATUS_READY i0;
            i2 = del_if env (flags AND STATUS_READY \<noteq> 0)
                   (STATUS_DOWNLOADING OR STATUS_INSTALLING OR STATUS_UPLOADING OR STATUS_VERIFING) i1;
            i3 = del_if env (flags AND STATUS_DOWNLOADING \<noteq> 0) (STATUS_INSTALLING OR STATUS_UPLOADING) i2;
            i4 = del_if env (flags AND STATUS_INSTALLING \<noteq> 0) (STATUS_DOWNLOADING OR STATUS_UPLOADING) i3;
            i5 = del_if env (flags AND STATUS_UPLOADING \<noteq> 0) (STATUS_DOWNLOADING OR STATUS_INSTALLING) i4;
            i6 = del_if env (flags AND STATUS_VERIFING \<noteq> 0) STATUS_READY i5;
            i7 = del_if env (HasAnyFlags flags STATUS_DELETED)
                   (STATUS_INSTALLED OR STATUS_ONACCOUNT OR STATUS_ONCOMPUTER OR STATUS_READY) i6;
            i8 = (if shouldTriggerUpdate \<or> HasAnyFlags flags STATUS_DELETED then tell ItemsAdded i7 else i7)
        in onInfoChange env i8)"

section \<open>Permissions, options, percent\<close>

definition addPFlag :: "u8 \<Rightarrow> item_info \<Rightarrow> item_info" where
  "addPFlag flags i = i\<lparr>m_iPermissions := m_iPermissions i OR flags\<rparr>"

definition delPFlag :: "u8 \<Rightarrow> item_info \<Rightarrow> item_info" where
  "delPFlag flags i = i\<lparr>m_iPermissions := m_iPermissions i AND NOT flags\<rparr>"

definition delOFlag :: "u8 \<Rightarrow> item_info \<Rightarrow> item_info" where
  "delOFlag flags i = i\<lparr>m_iOptions := m_iOptions i AND NOT flags\<rparr>"

definition addOFlag :: "u8 \<Rightarrow> item_info \<Rightarrow> item_info" where
  "addOFlag flags i =
     (let i0 = i\<lparr>m_iOptions := m_iOptions i OR flags\<rparr>;
          i1 = (if flags AND OPTION_NOUPDATE \<noteq> 0 then delOFlag (OPTION_PROMPTUPDATE OR OPTION_AUTOUPDATE) i0 else i0);
          i2 = (if flags AND OPTION_PROMPTUPDATE \<noteq> 0 then delOFlag (OPTION_NOUPDATE OR OPTION_AUTOUPDATE) i1 else i1)
      in if flags AND OPTION_AUTOUPDATE \<noteq> 0 then delOFlag (OPTION_PROMPTUPDATE OR OPTION_NOUPDATE) i2 else i2)"

definition setPercent :: "core_env \<Rightarrow> u8 \<Rightarrow> item_info \<Rightarrow> item_info" where
  "setPercent env percent i =
     (if m_iPercent i = percent then i
      else onInfoChange env (change_flags CHANGED_PERCENT (i\<lparr>m_iPercent := of_nat (min (max (unat percent) 0) 100)\<rparr>)))"

section \<open>Text\<close>

definition valid_item_file :: "core_env \<Rightarrow> string \<Rightarrow> bool" where
  "valid_item_file env s = valid_path (disk_env env) s"

definition setIcon :: "core_env \<Rightarrow> string option \<Rightarrow> item_info \<Rightarrow> item_info" where
  "setIcon env icon i =
     (let i0 = (if \<not> valid_item_file env (m_szIcon i) then i\<lparr>m_szIcon := []\<rparr> else i)
      in case icon of None \<Rightarrow> i0
         | Some p \<Rightarrow>
             if \<not> valid_item_file env p then i0
             else onInfoChange env (change_flags CHANGED_ICON (i0\<lparr>m_szIcon := file_path_text p\<rparr>)))"

definition setLogo :: "core_env \<Rightarrow> string option \<Rightarrow> item_info \<Rightarrow> item_info" where
  "setLogo env logo i =
     (let i0 = (if \<not> valid_item_file env (m_szLogo i) then i\<lparr>m_szLogo := []\<rparr> else i)
      in case logo of None \<Rightarrow> i0
         | Some p \<Rightarrow>
             if \<not> valid_item_file env p then i0
             else onInfoChange env (change_flags CHANGED_LOGO (i0\<lparr>m_szLogo := file_path_text p\<rparr>)))"

definition setIconUrl :: "core_env \<Rightarrow> string option \<Rightarrow> item_info \<Rightarrow> item_info" where
  "setIconUrl env url i =
     (case url of None \<Rightarrow> i
      | Some u \<Rightarrow>
          let changed = (m_szIconUrl i \<noteq> u); i0 = (if changed then i\<lparr>m_szIconUrl := u\<rparr> else i)
          in if m_szIconUrl i0 \<noteq> [] \<and> (changed \<or> \<not> valid_item_file env (m_szIcon i0)) \<and> hasInternal env
             then tell FetchIcon i0 else i0)"

definition setLogoUrl :: "core_env \<Rightarrow> string option \<Rightarrow> item_info \<Rightarrow> item_info" where
  "setLogoUrl env url i =
     (case url of None \<Rightarrow> i
      | Some u \<Rightarrow>
          let changed = (m_szLogoUrl i \<noteq> u); i0 = (if changed then i\<lparr>m_szLogoUrl := u\<rparr> else i)
          in if m_szLogoUrl i0 \<noteq> [] \<and> (changed \<or> \<not> valid_item_file env (m_szLogo i0)) \<and> hasInternal env
             then tell FetchLogo i0 else i0)"

definition lower :: "string \<Rightarrow> string" where
  "lower s = map to_lower s"

definition contains_text :: "string \<Rightarrow> string \<Rightarrow> bool" where
  "contains_text s f = (strstr (lower s) (lower f) \<noteq> None)"

definition compare_item :: "string \<Rightarrow> item_info \<Rightarrow> bool" where
  "compare_item txt i =
     (if contains_text (m_szDev i) txt then True
      else if contains_text (m_szName_it i) txt then True
      else if contains_text (m_szShortName i) txt then True
      else if contains_text (m_szTheme i) txt then True
      else if contains_text (m_szGenre i) txt then True
      else False)"

definition addToAccount :: "core_env \<Rightarrow> item_info \<Rightarrow> item_info" where
  "addToAccount env i =
     (if m_iStatus i AND STATUS_ONACCOUNT \<noteq> 0 then i
      else if \<not> hasInternal env then i
      else tell AccountAdd i)"

definition removeFromAccount :: "core_env \<Rightarrow> item_info \<Rightarrow> item_info" where
  "removeFromAccount env i =
     (let i0 = delSFlag env STATUS_ONACCOUNT i in if \<not> hasInternal env then i0 else tell AccountRemove i0)"

section \<open>Branches\<close>

text \<open>The install data of a key, and a change to them; a branch whose key is not in the map has none.\<close>

definition install_at :: "u32 \<Rightarrow> item_info \<Rightarrow> install_info res" where
  "install_at k i = (case map_of (m_mBranchInstallInfo i) k of None \<Rightarrow> Inl UNDEFINED | Some b \<Rightarrow> Inr b)"

definition change_install :: "u32 \<Rightarrow> (install_info \<Rightarrow> install_info) \<Rightarrow> item_info \<Rightarrow> item_info" where
  "change_install k f i =
     i\<lparr>m_mBranchInstallInfo := map (\<lambda>(k', b). if k' = k then (k', f b) else (k', b)) (m_mBranchInstallInfo i)\<rparr>"

definition ensure_install :: "u32 \<Rightarrow> item_info \<Rightarrow> item_info" where
  "ensure_install k i =
     (if map_of (m_mBranchInstallInfo i) k \<noteq> None then i
      else i\<lparr>m_mBranchInstallInfo :=
               insort_key fst (k, BranchInstallInfo_new k (m_iId i)) (m_mBranchInstallInfo i)\<rparr>)"

definition change_branch :: "nat \<Rightarrow> (branch_info \<Rightarrow> branch_info) \<Rightarrow> item_info \<Rightarrow> item_info" where
  "change_branch x f i = i\<lparr>m_vBranchList := (m_vBranchList i)[x := f (m_vBranchList i ! x)]\<rparr>"

text \<open>The position of the current branch: none when unset, undefined outside the list.\<close>

definition current_position :: "item_info \<Rightarrow> nat option res" where
  "current_position i =
     (if m_INBranchIndex i = - 1 then Inr None
      else if unat (m_INBranchIndex i) < length (m_vBranchList i) then Inr (Some (unat (m_INBranchIndex i)))
      else Inl UNDEFINED)"

definition getCurrentBranch :: "item_info \<Rightarrow> branch_info option res" where
  "getCurrentBranch i = bind_res (current_position i) (\<lambda>p. Inr (map_option ((!) (m_vBranchList i)) p))"

text \<open>\<open>getBranch\<close> compares the index as a signed number that is then converted to 64 bits.\<close>

definition getBranch :: "u32 \<Rightarrow> item_info \<Rightarrow> branch_info option" where
  "getBranch index i =
     (if (of_nat (length (m_vBranchList i)) :: u64) \<le> scast index then None else Some (m_vBranchList i ! unat index))"

definition branch_index :: "u32 \<Rightarrow> item_info \<Rightarrow> nat option" where
  "branch_index n i =
     (let x = length (takeWhile (\<lambda>b. branch_int b \<noteq> n) (m_vBranchList i))
      in if x < length (m_vBranchList i) then Some x else None)"

definition getBranchById :: "u32 \<Rightarrow> item_info \<Rightarrow> branch_info option" where
  "getBranchById n i = map_option ((!) (m_vBranchList i)) (branch_index n i)"

definition getBestBranch :: "core_env \<Rightarrow> MCFBranch \<Rightarrow> item_info \<Rightarrow> MCFBranch" where
  "getBestBranch env branch i =
     (if m_bGlobal branch then
        selectBestBranch (disk_env env)
          (filter (\<lambda>b. MCFBranch.m_uiBranch (m_uiGlobalId b) = MCFBranch.m_uiBranch branch) (m_vBranchList i))
      else
        (case getBranchById (MCFBranch.m_uiBranch branch) i of
           Some b \<Rightarrow> m_uiBranchId b
         | None \<Rightarrow> selectBestBranch (disk_env env) (m_vBranchList i)))"

text \<open>The key of the install data that \<open>getBranchOrCurrent\<close> returns.\<close>

definition getBranchOrCurrent :: "MCFBranch \<Rightarrow> item_info \<Rightarrow> u32 option" where
  "getBranchOrCurrent branch i =
     (let branch' = (if MCFBranch.m_uiBranch branch = 0 then m_INBranch i else branch)
      in case getBranchById (MCFBranch.m_uiBranch branch') i of
           Some b \<Rightarrow> Some (m_InstallInfo b)
         | None \<Rightarrow>
             if \<not> isDownloadable_item i \<and> m_mBranchInstallInfo i \<noteq> [] then Some (fst (hd (m_mBranchInstallInfo i)))
             else None)"

text \<open>Reading and changing the install data of a branch, or of the current one.\<close>

definition with_install :: "MCFBranch \<Rightarrow> 'a \<Rightarrow> (install_info \<Rightarrow> 'a) \<Rightarrow> item_info \<Rightarrow> 'a res" where
  "with_install branch none f i =
     (case getBranchOrCurrent branch i of None \<Rightarrow> Inr none | Some k \<Rightarrow> bind_res (install_at k i) (\<lambda>b. Inr (f b)))"

definition on_install :: "MCFBranch \<Rightarrow> (install_info \<Rightarrow> install_info) \<Rightarrow> item_info \<Rightarrow> item_info" where
  "on_install branch f i = (case getBranchOrCurrent branch i of None \<Rightarrow> i | Some k \<Rightarrow> change_install k f i)"

definition getPath_item :: "MCFBranch \<Rightarrow> item_info \<Rightarrow> string option res" where
  "getPath_item branch = with_install branch None (\<lambda>b. Some (m_szPath_i b))"

definition getInsPrimary_item :: "MCFBranch \<Rightarrow> item_info \<Rightarrow> string option res" where
  "getInsPrimary_item branch = with_install branch None (\<lambda>b. Some (m_szInsPrim b))"

definition getInstalledVersion_item :: "MCFBranch \<Rightarrow> item_info \<Rightarrow> string option res" where
  "getInstalledVersion_item branch = with_install branch None (\<lambda>b. Some (m_szInsVersion b))"

definition getInstallSize_item :: "MCFBranch \<Rightarrow> item_info \<Rightarrow> u64 res" where
  "getInstallSize_item branch = with_install branch 0 m_uiInstallSize"

definition getDownloadSize_item :: "MCFBranch \<Rightarrow> item_info \<Rightarrow> u64 res" where
  "getDownloadSize_item branch = with_install branch 0 m_uiDownloadSize"

definition getLastInstalledBuild_item :: "MCFBranch \<Rightarrow> item_info \<Rightarrow> MCFBuild res" where
  "getLastInstalledBuild_item branch = with_install branch 0 m_LastBuild"

definition getInstalledBuild_item :: "MCFBranch \<Rightarrow> item_info \<Rightarrow> MCFBuild res" where
  "getInstalledBuild_item branch = with_install branch 0 m_INBuild"

definition getNextUpdateBuild_item :: "MCFBranch \<Rightarrow> item_info \<Rightarrow> MCFBuild res" where
  "getNextUpdateBuild_item branch = with_install branch 0 m_NextBuild"

definition overrideMcfBuild_item :: "MCFBuild \<Rightarrow> MCFBranch \<Rightarrow> item_info \<Rightarrow> item_info" where
  "overrideMcfBuild_item build branch = on_install branch (overideMcfBuild_bii build)"

definition setInstalledModId_item :: "DesuraId \<Rightarrow> MCFBranch \<Rightarrow> item_info \<Rightarrow> item_info" where
  "setInstalledModId_item d branch = on_install branch (setInstalledModId_bii d)"

definition setActiveExe_item :: "string \<Rightarrow> MCFBranch \<Rightarrow> item_info \<Rightarrow> item_info" where
  "setActiveExe_item name branch = on_install branch (setActiveExe name)"

definition getActiveExe_item :: "MCFBranch \<Rightarrow> item_info \<Rightarrow> exe_info option res" where
  "getActiveExe_item branch = with_install branch None getActiveExe"

definition getExeCount_item :: "core_env \<Rightarrow> bool \<Rightarrow> MCFBranch \<Rightarrow> item_info \<Rightarrow> (item_info \<times> nat) res" where
  "getExeCount_item env setActive branch i =
     (case getBranchOrCurrent branch i of None \<Rightarrow> Inr (i, 0)
      | Some k \<Rightarrow>
          bind_res (install_at k i)
            (\<lambda>b. let (b', n) = getExeCount (disk_env env) setActive b in Inr (change_install k (\<lambda>_. b') i, n)))"

text \<open>\<open>getInstalledModId\<close> takes a branch and asks the current one.\<close>

definition getInstalledModId_item :: "MCFBranch \<Rightarrow> item_info \<Rightarrow> DesuraId res" where
  "getInstalledModId_item branch i =
     bind_res (getCurrentBranch i)
       (\<lambda>c. case c of None \<Rightarrow> Inr DesuraId_none
          | Some b \<Rightarrow> bind_res (install_at (m_InstallInfo b) i) (\<lambda>d. Inr (m_iInstalledMod d)))"

definition isParentToComplex :: "item_info \<Rightarrow> bool res" where
  "isParentToComplex i =
     (if DesuraId_isOk (m_iParentId i) then Inr False
      else bind_res (getInstalledModId_item MCFBranch_default i) (\<lambda>d. Inr (DesuraId_isOk d)))"

definition hasAcceptedEula_item :: "item_info \<Rightarrow> bool res" where
  "hasAcceptedEula_item i =
     bind_res (getCurrentBranch i) (\<lambda>c. case c of None \<Rightarrow> Inr True | Some b \<Rightarrow> Inr (hasAcceptedEula_branch b))"

definition getEulaUrl_item :: "item_info \<Rightarrow> string res" where
  "getEulaUrl_item i =
     bind_res (getCurrentBranch i) (\<lambda>c. case c of None \<Rightarrow> Inr [] | Some b \<Rightarrow> Inr (m_szEulaUrl_b b))"

definition acceptEula_item :: "item_info \<Rightarrow> item_info res" where
  "acceptEula_item i =
     bind_res (current_position i)
       (\<lambda>p. case p of None \<Rightarrow> Inr i | Some x \<Rightarrow> Inr (change_branch x acceptEula_branch i))"

section \<open>The installed branch\<close>

text \<open>A change to the install data of the current branch.\<close>

definition on_current :: "(install_info \<Rightarrow> install_info) \<Rightarrow> item_info \<Rightarrow> item_info res" where
  "on_current f i =
     bind_res (getCurrentBranch i)
       (\<lambda>c. case c of None \<Rightarrow> Inr i
          | Some b \<Rightarrow> bind_res (install_at (m_InstallInfo b) i) (\<lambda>_. Inr (change_install (m_InstallInfo b) f i)))"

definition updated_item :: "core_env \<Rightarrow> item_info \<Rightarrow> item_info res" where
  "updated_item env i = bind_res (on_current updated_bii i) (\<lambda>i. Inr (delSFlag env STATUS_UPDATEAVAL i))"

definition overideInstalledBuild_item :: "MCFBuild \<Rightarrow> item_info \<Rightarrow> item_info res" where
  "overideInstalledBuild_item build i = on_current (overideInstalledBuild_bii build) i"

definition resetInstalledMcf :: "core_env \<Rightarrow> item_info \<Rightarrow> item_info res" where
  "resetInstalledMcf env i =
     bind_res (on_current resetInstalledMcf_bii i)
       (\<lambda>i. Inr (onInfoChange env
          (i\<lparr>m_LastBranch := MCFBranch_default, m_INBranch := MCFBranch_default, m_INBranchIndex := - 1\<rparr>)))"

definition setInstalledMcf :: "core_env \<Rightarrow> MCFBranch \<Rightarrow> MCFBuild \<Rightarrow> item_info \<Rightarrow> (item_info \<times> bool) res" where
  "setInstalledMcf env branch build i =
     (case branch_index (MCFBranch.m_uiBranch branch) i of
        None \<Rightarrow> Inr (i, False)
      | Some x \<Rightarrow>
          let b = m_vBranchList i ! x; k = m_InstallInfo b;
              i0 = i\<lparr>m_INBranchIndex := of_nat x, m_LastBranch := m_INBranch i, m_INBranch := branch\<rparr>;
              build' = (if build = 0 then m_uiLatestBuild b else build)
          in bind_res (install_at k i0)
               (\<lambda>d. let (d', up) = setInstalledMcf_bii build' d;
                       i1 = change_install k (\<lambda>_. d') i0;
                       i2 = (if up then delSFlag env STATUS_UPDATEAVAL i1 else i1)
                    in Inr (onInfoChange env i2, True)))"

definition migrateStandalone :: "core_env \<Rightarrow> MCFBranch \<Rightarrow> MCFBuild \<Rightarrow> item_info \<Rightarrow> item_info res" where
  "migrateStandalone env branch build i =
     bind_res (setInstalledMcf env branch build (delSFlag env (STATUS_LINK OR STATUS_NONDOWNLOADABLE) i)) (\<lambda>r. Inr (fst r))"

definition softDelete :: "core_env \<Rightarrow> item_info \<Rightarrow> item_info res" where
  "softDelete env i =
     (let i0 = delSFlag env STATUS_LINK i;
          i1 = (if HasAnyFlags (m_iStatus i0) STATUS_DEVELOPER
                then delSFlag env (STATUS_INSTALLED OR STATUS_ONACCOUNT OR STATUS_ONCOMPUTER OR STATUS_READY) i0
                else addSFlag env STATUS_DELETED i0)
      in resetInstalledMcf env i1)"

definition onBranchInfoChanged :: "core_env \<Rightarrow> item_info \<Rightarrow> item_info" where
  "onBranchInfoChanged env i = onInfoChange env (change_flags CHANGED_STATUS i)"


section \<open>What the status operations leave alone\<close>

text \<open>The part of an item that says which branch is installed where.\<close>

definition core :: "item_info \<Rightarrow> branch_info list \<times> (u32 \<times> install_info) list \<times> u32 \<times> MCFBranch \<times> MCFBranch \<times> DesuraId" where
  "core i = (m_vBranchList i, m_mBranchInstallInfo i, m_INBranchIndex i, m_INBranch i, m_LastBranch i, m_iId i)"

text \<open>
  The index of the current branch is unset or is that of a branch with the installed id, and every branch has its
  install data.
\<close>

definition current_ok :: "item_info \<Rightarrow> bool" where
  "current_ok i \<longleftrightarrow> m_INBranchIndex i = - 1
     \<or> unat (m_INBranchIndex i) < length (m_vBranchList i)
       \<and> branch_int (m_vBranchList i ! unat (m_INBranchIndex i)) = MCFBranch.m_uiBranch (m_INBranch i)"

definition installs_ok :: "item_info \<Rightarrow> bool" where
  "installs_ok i \<longleftrightarrow> (\<forall>b \<in> set (m_vBranchList i). m_InstallInfo b \<in> fst ` set (m_mBranchInstallInfo i))"

definition item_inv :: "item_info \<Rightarrow> bool" where
  "item_inv i \<longleftrightarrow> current_ok i \<and> installs_ok i"

locale status_op =
  fixes f :: "item_info \<Rightarrow> item_info"
  assumes core_op: "core (f i) = core i"
begin

lemma fields [simp]:
  "m_vBranchList (f i) = m_vBranchList i" "m_mBranchInstallInfo (f i) = m_mBranchInstallInfo i"
  "m_INBranchIndex (f i) = m_INBranchIndex i" "m_INBranch (f i) = m_INBranch i" "m_LastBranch (f i) = m_LastBranch i"
  "m_iId (f i) = m_iId i"
  using core_op [of i] by (simp_all add: core_def)

lemma inv [simp]: "item_inv (f i) = item_inv i"
  by (simp add: item_inv_def current_ok_def installs_ok_def)

lemma lookups [simp]:
  "current_position (f i) = current_position i" "getCurrentBranch (f i) = getCurrentBranch i"
  "branch_index n (f i) = branch_index n i" "install_at k (f i) = install_at k i"
  by (simp_all add: current_position_def getCurrentBranch_def branch_index_def install_at_def)

end

lemma core_onInfoChange: "core (onInfoChange env i) = core i"
  by (simp add: core_def onInfoChange_def triggerCallBack_def tell_def Let_def)

lemma core_delSFlag: "core (delSFlag env flags i) = core i"
proof -
  have "core (tell e i) = core i" "core (i\<lparr>m_iStatus := s\<rparr>) = core i" for e i s
    by (simp_all add: core_def tell_def)
  then show ?thesis by (simp add: delSFlag_def Let_def core_onInfoChange)
qed

lemma core_addSFlag: "core (addSFlag env flags i) = core i"
proof -
  have "core (del_if env b g i) = core i" for b g i
    by (simp add: del_if_def core_delSFlag)
  moreover have "core (tell e i) = core i" "core (i\<lparr>m_iStatus := s\<rparr>) = core i" "core (change_flags c i) = core i"
    for e i s c by (simp_all add: core_def tell_def change_flags_def)
  ultimately show ?thesis by (simp add: addSFlag_def Let_def core_onInfoChange)
qed

interpretation tells: status_op "tell e" by unfold_locales (simp add: core_def tell_def)

interpretation info_change: status_op "onInfoChange env" by unfold_locales (rule core_onInfoChange)

interpretation del_status: status_op "delSFlag env flags" by unfold_locales (rule core_delSFlag)

interpretation add_status: status_op "addSFlag env flags" by unfold_locales (rule core_addSFlag)

interpretation changes: status_op "change_flags flags" by unfold_locales (simp add: core_def change_flags_def)

interpretation pauses: status_op pauseCallBack by unfold_locales (simp add: core_def pauseCallBack_def)

interpretation resumes: status_op resumeCallBack by unfold_locales (simp add: core_def resumeCallBack_def)

interpretation triggers: status_op "triggerCallBack env"
  by unfold_locales (simp add: core_def triggerCallBack_def tell_def Let_def)

section \<open>Which flags go together\<close>

lemma status_frame [simp]:
  "m_iStatus (tell e i) = m_iStatus i" "m_iStatus (onInfoChange env i) = m_iStatus i"
  "m_iStatus (change_flags f i) = m_iStatus i"
  by (simp_all add: tell_def onInfoChange_def triggerCallBack_def change_flags_def Let_def)

text \<open>The status after a deletion and after an addition, as a function of the status before.\<close>

definition without :: "u32 \<Rightarrow> u32 \<Rightarrow> u32" where
  "without flags s =
     (if \<not> HasAnyFlags s flags then s
      else
        let s2 = (if HasAnyFlags flags STATUS_PAUSABLE then (s AND NOT flags) AND NOT STATUS_PAUSED else s AND NOT flags)
        in if HasAnyFlags flags STATUS_INSTALLED then s2 AND NOT STATUS_READY else s2)"

lemma delSFlag_status: "m_iStatus (delSFlag env flags i) = without flags (m_iStatus i)"
  by (simp add: delSFlag_def without_def Let_def flip: HasAnyFlags_def)

lemma bit_HasAnyFlags: "\<not> HasAnyFlags s flags \<Longrightarrow> bit s n \<Longrightarrow> \<not> bit flags n"
  by (metis HasAnyFlags_def bit_0_eq bit_and_iff bot_apply bot_bool_def)

lemma without_bit:
  "bit (without flags s) n \<longleftrightarrow> bit s n \<and> \<not> bit flags n
     \<and> (HasAnyFlags s flags \<longrightarrow> \<not> (n = 17 \<and> bit flags 19) \<and> \<not> (n = 4 \<and> bit flags 1))"
  using bit_HasAnyFlags [of s flags n] by (auto simp: without_def Let_def)

lemma without_le: "bit (without flags s) n \<Longrightarrow> bit s n"
  by (simp add: without_bit)

lemma del_if_status: "m_iStatus (del_if env c flags i) = (if c then without flags (m_iStatus i) else m_iStatus i)"
  by (simp add: del_if_def delSFlag_status)

lemma del_if_bit:
  assumes "\<not> bit f 19" and "bit f 1 \<longrightarrow> bit f 4"
  shows "bit (m_iStatus (del_if env c f i)) n \<longleftrightarrow> bit (m_iStatus i) n \<and> \<not> (c \<and> bit f n)"
  using assms by (auto simp: del_if_status without_bit)

text \<open>
  An item is never ready while it is verified, and never does two of downloading, installing and uploading.
\<close>

definition exclusive :: "u32 \<Rightarrow> bool" where
  "exclusive s \<longleftrightarrow> \<not> (bit s 4 \<and> bit s 9) \<and> \<not> (bit s 6 \<and> bit s 7) \<and> \<not> (bit s 6 \<and> bit s 8) \<and> \<not> (bit s 7 \<and> bit s 8)"

lemma exclusive_without: "exclusive s \<Longrightarrow> exclusive (without flags s)"
  by (auto simp: exclusive_def dest: without_le)

lemma addSFlag_bit:
  assumes "\<not> HasAllFlags (m_iStatus i) flags"
  shows "bit (m_iStatus (addSFlag env flags i)) n \<longleftrightarrow>
     (bit (m_iStatus i) n \<or> bit flags n)
     \<and> \<not> (bit flags 9 \<and> n = 4)
     \<and> \<not> (bit flags 4 \<and> n \<in> {6, 7, 8, 9})
     \<and> \<not> (bit flags 6 \<and> n \<in> {7, 8})
     \<and> \<not> (bit flags 7 \<and> n \<in> {6, 8})
     \<and> \<not> (bit flags 8 \<and> n \<in> {6, 7})
     \<and> \<not> (bit flags 14 \<and> n \<in> {1, 2, 3, 4})"
  unfolding addSFlag_def Let_def if_not_P [OF assms]
  by (simp add: del_if_bit bit_or_iff change_flags_def tell_def flip: HasAnyFlags_def) auto

lemma exclusive_addSFlag: "exclusive (m_iStatus i) \<Longrightarrow> exclusive (m_iStatus (addSFlag env flags i))"
proof (cases "HasAllFlags (m_iStatus i) flags")
  case True
  assume "exclusive (m_iStatus i)"
  then show ?thesis using True by (simp add: addSFlag_def)
next
  case False
  assume "exclusive (m_iStatus i)"
  then show ?thesis unfolding exclusive_def addSFlag_bit [OF False] by auto
qed

datatype flag_op = Add_flags u32 | Del_flags u32

fun flag_step :: "core_env \<Rightarrow> flag_op \<Rightarrow> item_info \<Rightarrow> item_info" where
  "flag_step env (Add_flags f) i = addSFlag env f i"
| "flag_step env (Del_flags f) i = delSFlag env f i"

text \<open>C25: Whatever flags are added to and taken from an item, in any order: it is never ready while it is being verified, and never does two of downloading, installing and uploading.\<close>

theorem activities_exclusive:
  assumes "exclusive (m_iStatus i)"
  shows "exclusive (m_iStatus (fold (flag_step env) ops i))"
  using assms
proof (induction ops arbitrary: i)
  case (Cons p ops)
  then show ?case by (cases p) (simp_all add: exclusive_addSFlag delSFlag_status exclusive_without)
qed simp

definition demo_core :: core_env where
  "demo_core = \<lparr>disk_env = demo_env, delayLoading = False, hasInternal = True, mcf_path = [], cip_path = None,
     user_id = 1, script_crc = 0\<rparr>"

definition demo_item :: item_info where
  "demo_item = (ItemInfo_new \<lparr>m_uiItemId = 2, m_uiType = TYPE_GAME\<rparr> DesuraId_none)
     \<lparr>m_vBranchList := [demo_branch 7 BF_FREE], m_mBranchInstallInfo := [(0, demo_install)]\<rparr>"

theorem activities_exclusive_witness:
  "exclusive (m_iStatus (fold (flag_step demo_core)
     [Add_flags STATUS_DOWNLOADING, Add_flags STATUS_INSTALLING, Add_flags STATUS_VERIFING, Del_flags STATUS_INSTALLING] demo_item))"
  by (rule activities_exclusive) (simp add: demo_item_def ItemInfo_new_def exclusive_def)

text \<open>Only the other way round: an item that is ready and starts to download stays ready.\<close>

lemma ready_and_downloading:
  "bit (m_iStatus (addSFlag env STATUS_DOWNLOADING (addSFlag env STATUS_READY (ItemInfo_new x y)))) n \<longleftrightarrow> n \<in> {4, 6}"
  by (auto simp: addSFlag_bit ItemInfo_new_def)

text \<open>Not to update is no flag: choosing it changes nothing.\<close>

lemma addOFlag_noupdate: "addOFlag OPTION_NOUPDATE i = i"
  by (simp add: addOFlag_def OPTION_NOUPDATE_def OPTION_PROMPTUPDATE_def OPTION_AUTOUPDATE_def)

lemma setPercent_bound: "m_iPercent i \<le> 100 \<Longrightarrow> m_iPercent (setPercent env p i) \<le> 100"
  by (auto simp: setPercent_def onInfoChange_def triggerCallBack_def tell_def change_flags_def Let_def word_le_nat_alt
      unat_of_nat min_def)

section \<open>The current branch\<close>

lemma current_position_defined: "current_ok i \<Longrightarrow> \<exists>p. current_position i = Inr p"
  by (auto simp: current_ok_def current_position_def)

lemma current_in_list:
  "getCurrentBranch i = Inr (Some b) \<Longrightarrow> b \<in> set (m_vBranchList i)"
  by (auto simp: getCurrentBranch_def current_position_def split: if_splits)

lemma install_at_defined: "k \<in> fst ` set (m_mBranchInstallInfo i) \<Longrightarrow> \<exists>d. install_at k i = Inr d"
  by (auto simp: install_at_def split: option.split dest: weak_map_of_SomeI simp: map_of_eq_None_iff)

lemma branch_install_defined:
  "installs_ok i \<Longrightarrow> b \<in> set (m_vBranchList i) \<Longrightarrow> \<exists>d. install_at (m_InstallInfo b) i = Inr d"
  by (rule install_at_defined) (auto simp: installs_ok_def)

lemma keys_change_install [simp]:
  "fst ` set (m_mBranchInstallInfo (change_install k f i)) = fst ` set (m_mBranchInstallInfo i)"
  by (force simp: change_install_def split: if_splits)

lemma change_install_fields [simp]:
  "m_vBranchList (change_install k f i) = m_vBranchList i" "m_INBranchIndex (change_install k f i) = m_INBranchIndex i"
  "m_INBranch (change_install k f i) = m_INBranch i" "m_LastBranch (change_install k f i) = m_LastBranch i"
  "m_iStatus (change_install k f i) = m_iStatus i" "m_iId (change_install k f i) = m_iId i"
  by (simp_all add: change_install_def)

lemma item_inv_change_install [simp]: "item_inv (change_install k f i) = item_inv i"
  by (simp add: item_inv_def current_ok_def installs_ok_def)

lemma install_at_change:
  "install_at j (change_install k f i) = (if j = k then bind_res (install_at k i) (\<lambda>d. Inr (f d)) else install_at j i)"
proof -
  have "map_of (map (\<lambda>(k', b). if k' = k then (k', f b) else (k', b)) xs) j
      = (if j = k then map_option f (map_of xs k) else map_of xs j)" for xs :: "(u32 \<times> install_info) list"
    by (induction xs) auto
  then show ?thesis by (auto simp: install_at_def change_install_def split: option.split)
qed

lemma on_current_ok:
  assumes "item_inv i"
  obtains i' where "on_current f i = Inr i'" "item_inv i'" "m_vBranchList i' = m_vBranchList i"
    "m_INBranchIndex i' = m_INBranchIndex i" "m_iStatus i' = m_iStatus i" "fst ` set (m_mBranchInstallInfo i') = fst ` set (m_mBranchInstallInfo i)"
    "m_iId i' = m_iId i"
proof -
  obtain p where p: "current_position i = Inr p" using assms current_position_defined by (auto simp: item_inv_def)
  show ?thesis
  proof (cases p)
    case None
    then show ?thesis using that [of i] p assms by (simp add: on_current_def getCurrentBranch_def)
  next
    case (Some x)
    let ?b = "m_vBranchList i ! x"
    have c: "getCurrentBranch i = Inr (Some ?b)" using p Some by (simp add: getCurrentBranch_def)
    then obtain d where "install_at (m_InstallInfo ?b) i = Inr d"
      using branch_install_defined [OF _ current_in_list [OF c]] assms by (auto simp: item_inv_def)
    then show ?thesis using that [of "change_install (m_InstallInfo ?b) f i"] c assms by (simp add: on_current_def)
  qed
qed

lemma unset_inv: "item_inv i \<Longrightarrow> item_inv (i\<lparr>m_LastBranch := a, m_INBranch := b, m_INBranchIndex := - 1\<rparr>)"
  by (simp add: item_inv_def current_ok_def installs_ok_def)

lemma resetInstalledMcf_ok:
  assumes "item_inv i"
  obtains i' where "resetInstalledMcf env i = Inr i'" "item_inv i'" "m_INBranchIndex i' = - 1"
    "m_INBranch i' = MCFBranch_default" "m_vBranchList i' = m_vBranchList i" "m_iStatus i' = m_iStatus i"
    "fst ` set (m_mBranchInstallInfo i') = fst ` set (m_mBranchInstallInfo i)" "m_iId i' = m_iId i"
proof -
  obtain i0 where i0: "on_current resetInstalledMcf_bii i = Inr i0" "item_inv i0" "m_vBranchList i0 = m_vBranchList i"
      "m_iStatus i0 = m_iStatus i" "fst ` set (m_mBranchInstallInfo i0) = fst ` set (m_mBranchInstallInfo i)" "m_iId i0 = m_iId i"
    using on_current_ok [OF assms] by metis
  show ?thesis
    by (rule that [of "onInfoChange env
          (i0\<lparr>m_LastBranch := MCFBranch_default, m_INBranch := MCFBranch_default, m_INBranchIndex := - 1\<rparr>)"])
       (use i0 in \<open>simp_all add: resetInstalledMcf_def unset_inv\<close>)
qed

text \<open>The first branch with an id.\<close>

lemma branch_index_Some:
  assumes "branch_index n i = Some x"
  shows "x < length (m_vBranchList i)" "branch_int (m_vBranchList i ! x) = n"
    "\<forall>y < x. branch_int (m_vBranchList i ! y) \<noteq> n"
proof -
  let ?P = "\<lambda>b. branch_int b \<noteq> n" and ?l = "m_vBranchList i"
  have x: "x = length (takeWhile ?P ?l)" "x < length ?l"
    using assms by (auto simp: branch_index_def Let_def split: if_splits)
  show "x < length ?l" by (rule x(2))
  show "branch_int (?l ! x) = n" using nth_length_takeWhile [of ?P ?l] x by simp
  show "\<forall>y < x. branch_int (?l ! y) \<noteq> n"
    using x(1) by (metis (mono_tags, lifting) nth_mem set_takeWhileD takeWhile_nth)
qed

lemma branch_index_None: "branch_index n i = None \<longleftrightarrow> (\<forall>b \<in> set (m_vBranchList i). branch_int b \<noteq> n)"
proof -
  let ?P = "\<lambda>b. branch_int b \<noteq> n"
  have "length (takeWhile ?P l) = length l \<longleftrightarrow> (\<forall>b \<in> set l. ?P b)" for l
    by (induction l) auto
  moreover have "branch_index n i = None \<longleftrightarrow> length (takeWhile ?P (m_vBranchList i)) = length (m_vBranchList i)"
    using length_takeWhile_le [of ?P "m_vBranchList i"] by (simp add: branch_index_def Let_def)
  ultimately show ?thesis by simp
qed

lemma of_nat_index: "x < 2 ^ 32 - 1 \<Longrightarrow> unat (of_nat x :: u32) = x \<and> (of_nat x :: u32) \<noteq> - 1"
proof -
  assume x: "x < 2 ^ 32 - 1"
  then have u: "unat (of_nat x :: u32) = x" by (simp add: unat_of_nat)
  moreover have "(of_nat x :: u32) \<noteq> - 1"
  proof
    assume "(of_nat x :: u32) = - 1"
    then have "x = unat (- 1 :: u32)" using u by simp
    then show False using x by (simp add: unsigned_minus_1_eq_mask mask_eq_exp_minus_1)
  qed
  ultimately show ?thesis by simp
qed

text \<open>Setting the installed archive of a branch the item has makes it the current branch, remembers the one before, notes the build (its latest one when none is named), and takes the update flag back exactly when this was the pending build.\<close>

theorem setInstalledMcf_sets:
  assumes "item_inv i" and "branch_index (MCFBranch.m_uiBranch branch) i = Some x" and "length (m_vBranchList i) < 2 ^ 32"
    and "install_at (m_InstallInfo (m_vBranchList i ! x)) i = Inr d"
    and "build' = (if build = 0 then m_uiLatestBuild (m_vBranchList i ! x) else build)"
  shows "\<exists>i'. setInstalledMcf env branch build i = Inr (i', True) \<and> item_inv i'
    \<and> getCurrentBranch i' = Inr (Some (m_vBranchList i ! x)) \<and> m_INBranch i' = branch \<and> m_LastBranch i' = m_INBranch i
    \<and> install_at (m_InstallInfo (m_vBranchList i ! x)) i' = Inr (fst (setInstalledMcf_bii build' d))
    \<and> m_iStatus i' = (if m_NextBuild d = build' then without STATUS_UPDATEAVAL (m_iStatus i) else m_iStatus i)"
proof -
  let ?b = "m_vBranchList i ! x"
  let ?i0 = "i\<lparr>m_INBranchIndex := of_nat x, m_LastBranch := m_INBranch i, m_INBranch := branch\<rparr>"
  let ?i1 = "change_install (m_InstallInfo ?b) (\<lambda>_. fst (setInstalledMcf_bii build' d)) ?i0"
  let ?up = "m_NextBuild d = build'"
  let ?i2 = "if ?up then delSFlag env STATUS_UPDATEAVAL ?i1 else ?i1"
  note x = branch_index_Some [OF assms(2)]
  have b': "(if build = 0 then m_uiLatestBuild ?b else build) = build'" by (simp add: assms(5))
  have ix: "unat (of_nat x :: u32) = x" "(of_nat x :: u32) \<noteq> - 1"
    using of_nat_index [of x] x(1) assms(3) by auto
  have d: "install_at (m_InstallInfo ?b) ?i0 = Inr d" using assms(4) by (simp add: install_at_def)
  have up: "snd (setInstalledMcf_bii build' d) = ?up" by (simp add: setInstalledMcf_bii_def Let_def)
  have "setInstalledMcf env branch build i = Inr (onInfoChange env ?i2, True)"
    unfolding setInstalledMcf_def assms(2) option.case Let_def b' d bind_res_simps case_prod_beta up by simp
  moreover have inv: "item_inv ?i0"
    using assms(1) x ix by (simp add: item_inv_def current_ok_def installs_ok_def)
  moreover have "getCurrentBranch ?i2 = Inr (Some ?b)"
    using x(1) ix by (simp add: getCurrentBranch_def current_position_def)
  moreover have "install_at (m_InstallInfo ?b) ?i2 = Inr (fst (setInstalledMcf_bii build' d))"
    using d by (simp add: install_at_change)
  ultimately show ?thesis by (simp add: delSFlag_status)
qed

theorem setInstalledMcf_sets_witness:
  "\<exists>i'. setInstalledMcf demo_core (BranchFromInt 7 False) 3 demo_item = Inr (i', True)
    \<and> getCurrentBranch i' = Inr (Some (demo_branch 7 BF_FREE))"
proof -
  have 1: "item_inv demo_item" "branch_index (MCFBranch.m_uiBranch (BranchFromInt 7 False)) demo_item = Some 0"
    "install_at (m_InstallInfo (m_vBranchList demo_item ! 0)) demo_item = Inr demo_install"
    "length (m_vBranchList demo_item) < 2 ^ 32" "m_vBranchList demo_item ! 0 = demo_branch 7 BF_FREE"
    by (simp_all add: item_inv_def current_ok_def installs_ok_def branch_index_def install_at_def demo_item_def
        ItemInfo_new_def demo_branch_def BranchInfo_new_def branch_int_def BranchFromInt_def)
  show ?thesis using setInstalledMcf_sets [OF 1(1,2,4,3), of 3 3 demo_core] 1(5) by auto
qed

end
