(* ===== verification/Item_Load.thy ===== *)
theory Item_Load
  imports Item_Info
begin

text \<open>
  Loading an item from the XML of the service (\<^verbatim>\<open>ItemInfo.cpp\<close>): its info, its branches, the settings of its platform,
  and what follows for its status; the update feed; items that have been bought; links. The wildcards of the settings
  come from a manager, the mods of an item from the item manager, each with whether it is worked on.
\<close>

unbundle bit_operations_syntax

section \<open>Branches\<close>

text \<open>The last branch with an id.\<close>

definition last_branch :: "u32 \<Rightarrow> item_info \<Rightarrow> nat option" where
  "last_branch n i =
     (case filter (\<lambda>x. branch_int (m_vBranchList i ! x) = n) [0 ..< length (m_vBranchList i)] of
        [] \<Rightarrow> None | x # xs \<Rightarrow> Some (last (x # xs)))"

text \<open>The change events a branch raises reach the item when it listens.\<close>

definition load_branch :: "core_env \<Rightarrow> xml \<Rightarrow> branch_info \<Rightarrow> branch_info \<times> nat" where
  "load_branch env e b =
     (let b' = loadXmlData_branch (disk_env env) e b
      in (b', length (filter (\<lambda>ev. ev = BranchInfoChanged) (drop (length (branch_events b)) (branch_events b')))))"

definition hear :: "core_env \<Rightarrow> bool \<Rightarrow> nat \<Rightarrow> item_info \<Rightarrow> item_info" where
  "hear env listens n i = (if listens then (onBranchInfoChanged env ^^ n) i else i)"

definition reload_branch :: "core_env \<Rightarrow> xml \<Rightarrow> nat \<Rightarrow> item_info \<Rightarrow> item_info" where
  "reload_branch env e x i =
     (let b = m_vBranchList i ! x; (b', n) = load_branch env e b in hear env (item_listens b) n (change_branch x (\<lambda>_. b') i))"

definition new_branch :: "core_env \<Rightarrow> xml \<Rightarrow> u32 \<Rightarrow> item_info \<Rightarrow> branch_info" where
  "new_branch env e n i =
     (let platformId = GetAtt_u32 (Some e) ''platformid'' 100
      in BranchInfo_new (BranchFromInt n False) (m_iId i) platformId platformId (user_id env) (script_crc env))"

definition push_branch :: "branch_info \<Rightarrow> item_info \<Rightarrow> item_info" where
  "push_branch b i = i\<lparr>m_vBranchList := m_vBranchList i @ [b]\<rparr>"

definition loadBranchXmlData :: "core_env \<Rightarrow> xml \<Rightarrow> item_info \<Rightarrow> item_info" where
  "loadBranchXmlData env e i =
     (let n = GetAtt_u32 (Some e) ''id'' 0; current = (n = MCFBranch.m_uiBranch (m_INBranch i))
      in if n = 0 then i
         else
           (case last_branch n i of
              Some x \<Rightarrow> reload_branch env e x (if current then i\<lparr>m_INBranchIndex := of_nat x\<rparr> else i)
            | None \<Rightarrow>
                let b = (new_branch env e n i)\<lparr>item_listens := True\<rparr>; (b', k) = load_branch env e b;
                    i1 = push_branch b' (hear env True k (ensure_install (m_InstallInfo b) i))
                in if current then i1\<lparr>m_INBranchIndex := of_nat (length (m_vBranchList i1) - 1)\<rparr> else i1))"

definition load_branches :: "core_env \<Rightarrow> xml \<Rightarrow> item_info \<Rightarrow> item_info" where
  "load_branches env e i =
     fold (loadBranchXmlData env)
       (case FirstChildElement e ''branches'' of None \<Rightarrow> [] | Some bs \<Rightarrow> for_each_child bs ''branch'') i"

section \<open>Info\<close>

definition set_images :: "core_env \<Rightarrow> xml \<Rightarrow> item_info \<Rightarrow> item_info" where
  "set_images env e i =
     (let i1 = (case FirstChildElement e ''boxart'' of None \<Rightarrow> i
           | Some n \<Rightarrow> let icon = GetText (Some n)
               in if isWebURL (Some icon) then setLogoUrl env (Some icon) i else setLogo env (Some icon) i)
      in (case FirstChildElement e ''icon'' of None \<Rightarrow> i1
          | Some n \<Rightarrow> let icon = GetText (Some n)
              in if isWebURL (Some icon) then setIconUrl env (Some icon) i1 else setIcon env (Some icon) i1))"

definition set_kind :: "core_env \<Rightarrow> xml \<Rightarrow> item_info \<Rightarrow> item_info" where
  "set_kind env e i =
     (let i1 = (if FirstChildElement e ''downloadable'' = None then i
                else if GetChild_bool e ''downloadable'' False then delSFlag env STATUS_NONDOWNLOADABLE i
                else addSFlag env STATUS_NONDOWNLOADABLE i)
      in if FirstChildElement e ''expansion'' = None then i1
         else if GetChild_u32 e ''expansion'' 0 \<noteq> 0 then addSFlag env STATUS_DLC i1
         else delSFlag env STATUS_DLC i1)"

definition processInfo :: "core_env \<Rightarrow> xml \<Rightarrow> item_info \<Rightarrow> item_info" where
  "processInfo env e i =
     (let i1 = i\<lparr>m_szName_it := GetChild_str e ''name'' (m_szName_it i),
                 m_szShortName := GetChild_str e ''nameid'' (m_szShortName i),
                 m_szDesc := GetChild_str e ''summary'' (m_szDesc i),
                 m_szProfile := GetChild_str e ''url'' (m_szProfile i),
                 m_szGenre := GetChild_str e ''style'' (m_szGenre i),
                 m_szTheme := GetChild_str e ''theme'' (m_szTheme i),
                 m_szRating := GetChild_str e ''rating'' (m_szRating i),
                 m_szEULAUrl := GetChild_str e ''eula'' (m_szEULAUrl i)\<rparr>;
          i2 = (if GetChild_bool e ''devadmin'' False then addSFlag env STATUS_DEVELOPER i1 else i1);
          i3 = set_kind env e (set_images env e i2);
          i4 = (case FirstChildElement e ''developer'' of None \<Rightarrow> i3
                | Some d \<Rightarrow> i3\<lparr>m_szDev := GetChild_str d ''name'' (m_szDev i3),
                               m_szDevProfile := GetChild_str d ''url'' (m_szDevProfile i3)\<rparr>)
      in (case FirstChildElement e ''publisher'' of None \<Rightarrow> i4
          | Some d \<Rightarrow> i4\<lparr>m_szPublisher := GetChild_str d ''name'' (m_szPublisher i4),
                         m_szPublisherProfile := GetChild_str d ''url'' (m_szPublisherProfile i4)\<rparr>))"

section \<open>Settings\<close>

definition hasBroughtItem :: "item_info \<Rightarrow> bool" where
  "hasBroughtItem i \<longleftrightarrow>
     (\<exists>b \<in> set (m_vBranchList i).
        HasAnyFlags (m_uiFlags_b b) BF_ONACCOUNT \<and> \<not> HasAnyFlags (m_uiFlags_b b) BF_NORELEASES)"

text \<open>What the result of reading the settings of the platform makes of the status.\<close>

definition settings_flags :: "core_env \<Rightarrow> process_result \<Rightarrow> item_info \<Rightarrow> item_info res" where
  "settings_flags env pr i =
     (if pr_useCip pr \<or> pr_found pr then
        let elsewhere = (\<not> isDownloadable_item i \<or> pr_notFirst pr);
            there = (elsewhere \<and> valid_item_file env (pr_insCheck pr));
            flags = STATUS_ONCOMPUTER OR (if there then STATUS_INSTALLED else 0) OR (if elsewhere then STATUS_LINK else 0)
        in bind_res (if there then setInstalledMcf env (BranchFromInt 0 False) 0 i else Inr (i, False))
             (\<lambda>(i, _). Inr (addSFlag env flags i))
      else Inr i)"

definition settings_link :: "core_env \<Rightarrow> u32 \<Rightarrow> item_info \<Rightarrow> item_info res" where
  "settings_link env platform i =
     (if HasAnyFlags (m_iStatus i) STATUS_LINK then
        let i' = (if m_vBranchList i = []
                  then push_branch (BranchInfo_new (BranchFromInt 0 False) (m_iId i) platform 0 (user_id env) (script_crc env)) i
                  else i)
        in bind_res (setInstalledMcf env (BranchFromInt 0 False) 0 i') (\<lambda>(i, _). Inr i)
      else Inr i)"

definition processSettings_item ::
  "nat \<Rightarrow> core_env \<Rightarrow> u32 \<Rightarrow> xml \<Rightarrow> bool \<Rightarrow> item_info \<Rightarrow> wc_manager \<Rightarrow> (wc_manager \<times> item_info) res option" where
  "processSettings_item n env platform setNode reset i m =
     (let brought = hasBroughtItem i;
          i1 = (if GetChild_bool setNode ''installcomplex'' False then addSFlag env STATUS_INSTALLCOMPLEX i else i);
          i2 = (if \<not> isDownloadable_item i1 then ensure_install platform i1 else i1)
      in case map_of (m_mBranchInstallInfo i2) platform of
           None \<Rightarrow> Some (Inr (m, i2))
         | Some d \<Rightarrow>
             (case processSettings_bii n (disk_env env) (m_iStatus i2) setNode reset brought (cip_path env) d m of
                None \<Rightarrow> None
              | Some (m', d', pr) \<Rightarrow>
                  Some (bind_res (settings_flags env pr (change_install platform (\<lambda>_. d') i2))
                    (\<lambda>i3. bind_res (settings_link env platform i3) (\<lambda>i4. Inr (m', i4))))))"

section \<open>Bought items\<close>

definition forget_flags :: u32 where
  "forget_flags = STATUS_LINK OR STATUS_READY OR STATUS_INSTALLED OR STATUS_ONCOMPUTER OR STATUS_UPDATING
     OR STATUS_DOWNLOADING OR STATUS_INSTALLING OR STATUS_VERIFING OR STATUS_UPDATEAVAL OR STATUS_PAUSED OR STATUS_PAUSABLE"

text \<open>A mod of the item, with whether it is in a stage.\<close>

type_synonym mod_item = "item_info \<times> bool"

fun forget_mods :: "core_env \<Rightarrow> mod_item list \<Rightarrow> mod_item list res" where
  "forget_mods env [] = Inr []"
| "forget_mods env ((i, stage) # mods) =
     bind_res (resetInstalledMcf env (delSFlag env forget_flags i))
       (\<lambda>i'. bind_res (forget_mods env mods) (\<lambda>mods'. Inr ((i', stage) # mods')))"

definition brought :: "item_info \<Rightarrow> bool" where
  "brought i \<longleftrightarrow>
     (\<exists>b \<in> set (m_vBranchList i).
        HasAnyFlags (m_uiFlags_b b) BF_ONACCOUNT \<and> \<not> HasAnyFlags (m_uiFlags_b b) (BF_DEMO OR BF_TEST))"

text \<open>Whether the current branch has a mod installed into it.\<close>

definition current_has_mod :: "item_info \<Rightarrow> bool res" where
  "current_has_mod i =
     bind_res (getCurrentBranch i)
       (\<lambda>c. case c of None \<Rightarrow> Inr False
          | Some b \<Rightarrow> bind_res (install_at (m_InstallInfo b) i) (\<lambda>d. Inr (hasInstalledMod d)))"

definition broughtCheck :: "core_env \<Rightarrow> mod_item list \<Rightarrow> item_info \<Rightarrow> (mod_item list \<times> item_info) res" where
  "broughtCheck env mods i =
     (if \<not> HasAnyFlags (m_iStatus i) STATUS_LINK then Inr (mods, i)
      else if \<not> brought i then Inr (mods, i)
      else
        bind_res (current_has_mod i)
          (\<lambda>has. if has then Inr (mods, i)
             else if \<exists>m \<in> set mods. snd m then Inr (mods, i)
             else
               bind_res (forget_mods env mods)
                 (\<lambda>mods'. Inr (mods', delSFlag env (forget_flags OR STATUS_NONDOWNLOADABLE) i))))"

section \<open>Loading\<close>

text \<open>The branches among which the installed one is looked for when it is not known.\<close>

definition may_be_installed :: "branch_info \<Rightarrow> bool" where
  "may_be_installed b \<longleftrightarrow>
     \<not> HasAnyFlags (m_uiFlags_b b) (BF_MEMBERLOCK OR BF_REGIONLOCK) \<and> \<not> HasAnyFlags (m_uiFlags_b b) BF_NORELEASES
     \<and> \<not> HasAnyFlags (m_uiFlags_b b) (BF_DEMO OR BF_TEST) \<and> HasAnyFlags (m_uiFlags_b b) (BF_ONACCOUNT OR BF_FREE)"

definition guess_branch :: "core_env \<Rightarrow> item_info \<Rightarrow> item_info res" where
  "guess_branch env i =
     (if isInstalled_item i \<and> isDownloadable_item i \<and> MCFBranch.m_uiBranch (m_INBranch i) = 0 then
        (case filter (\<lambda>x. may_be_installed (m_vBranchList i ! x)) [0 ..< length (m_vBranchList i)] of
           [x] \<Rightarrow>
             let b = m_vBranchList i ! x; i' = i\<lparr>m_INBranchIndex := of_nat x, m_INBranch := m_uiBranchId b\<rparr>
             in bind_res (install_at (m_InstallInfo b) i')
                  (\<lambda>_. Inr (change_install (m_InstallInfo b) (\<lambda>d. fst (setInstalledMcf_bii (m_uiLatestBuild b) d)) i'))
         | _ \<Rightarrow> Inr (addSFlag env STATUS_LINK i))
      else if isInstalled_item i \<and> \<not> isDownloadable_item i then
        Inr (delSFlag env STATUS_DELETED (addSFlag env STATUS_LINK i))
      else Inr i)"

definition installCheckFile :: "core_env \<Rightarrow> item_info \<Rightarrow> string res" where
  "installCheckFile env i =
     bind_res (getCurrentBranch i)
       (\<lambda>c. bind_res (case c of None \<Rightarrow> Inr []
                      | Some b \<Rightarrow> bind_res (install_at (m_InstallInfo b) i) (\<lambda>d. Inr (m_szInsCheck d)))
          (\<lambda>f. Inr (if m_iStatus i AND STATUS_INSTALLCOMPLEX \<noteq> 0 then mcf_path env else f)))"

definition mark_installed :: "core_env \<Rightarrow> bool \<Rightarrow> bool \<Rightarrow> item_info \<Rightarrow> item_info res" where
  "mark_installed env installed verifying i =
     bind_res (installCheckFile env i)
       (\<lambda>f. Inr (if valid_item_file env f \<and> (installed \<or> \<not> isDownloadable_item i)
                 then (let i' = addSFlag env STATUS_INSTALLED i in if \<not> verifying then addSFlag env STATUS_READY i' else i')
                 else i))"

definition load_status :: "xml \<Rightarrow> item_info \<Rightarrow> item_info" where
  "load_status e i =
     (case FirstChildElement e ''status'' of None \<Rightarrow> i
      | Some n \<Rightarrow>
          let s = GetAtt_u32 (Some n) ''id'' (m_iStatus i)
          in i\<lparr>m_iStatus := (if m_iStatus i AND STATUS_DEVELOPER \<noteq> 0 then s OR STATUS_DEVELOPER else s)\<rparr>)"

definition load_settings ::
  "nat \<Rightarrow> core_env \<Rightarrow> u32 \<Rightarrow> xml \<Rightarrow> bool \<Rightarrow> item_info \<Rightarrow> wc_manager option \<Rightarrow> (wc_manager option \<times> item_info) res option" where
  "load_settings n env platform e reset i wc =
     (case (FirstChildElement e ''settings'', wc) of
        (Some s, Some m) \<Rightarrow>
          map_option (\<lambda>r. bind_res r (\<lambda>(m', i'). Inr (Some m', i'))) (processSettings_item n env platform s reset i m)
      | _ \<Rightarrow> Some (Inr (wc, i)))"

definition finish_load :: "core_env \<Rightarrow> bool \<Rightarrow> bool \<Rightarrow> mod_item list \<Rightarrow> item_info \<Rightarrow> (mod_item list \<times> item_info) res" where
  "finish_load env installed verifying mods i =
     bind_res (mark_installed env installed verifying i)
       (\<lambda>i1. bind_res (guess_branch env i1)
          (\<lambda>i2. bind_res (broughtCheck env mods (change_flags CHANGED_INFO i2))
             (\<lambda>(mods', i3). Inr (mods', triggerCallBack env (resumeCallBack (tell ItemSaved i3))))))"

definition loadXmlData_item ::
  "nat \<Rightarrow> core_env \<Rightarrow> u32 \<Rightarrow> xml option \<Rightarrow> u16 \<Rightarrow> wc_manager option \<Rightarrow> bool \<Rightarrow> mod_item list \<Rightarrow> item_info
    \<Rightarrow> (wc_manager option \<times> mod_item list \<times> item_info) res option" where
  "loadXmlData_item n env platform xmlNode statusOveride wc reset mods i =
     (case xmlNode of
        None \<Rightarrow> Some (Inl ERR_BADXML)
      | Some e \<Rightarrow>
          let i1 = load_status e (pauseCallBack i);
              installed = HasAllFlags (m_iStatus i1) STATUS_INSTALLED;
              verifying = HasAllFlags (m_iStatus i1) STATUS_VERIFING;
              i2 = delSFlag env STATUS_INSTALLED (addSFlag env (ucast statusOveride) i1);
              i3 = load_branches env e (processInfo env e i2)
          in map_option
               (\<lambda>r. bind_res r (\<lambda>(wc', i4).
                  bind_res (finish_load env installed verifying mods i4) (\<lambda>(mods', i5). Inr (wc', mods', i5))))
               (load_settings n env platform e reset i3 wc))"

section \<open>The update feed and links\<close>

definition update_branch :: "core_env \<Rightarrow> xml \<Rightarrow> item_info \<Rightarrow> item_info res" where
  "update_branch env e i =
     (let n = GetAtt_u32 (Some e) ''id'' 0
      in if n = 0 then Inr i
         else
           let (i1, x) =
             (case last_branch n i of
                Some x \<Rightarrow> (reload_branch env e x i, x)
              | None \<Rightarrow>
                  let b = new_branch env e n i; i0 = ensure_install (m_InstallInfo b) i
                  in (push_branch ((fst (load_branch env e b))\<lparr>item_listens := True\<rparr>) i0, length (m_vBranchList i0)));
             b = m_vBranchList i1 ! x; k = m_InstallInfo b
           in if branch_int b = MCFBranch.m_uiBranch (m_INBranch i1) then
                bind_res (install_at k i1)
                  (\<lambda>d. let (d', newer) = processUpdateXml_bii e d; i2 = change_install k (\<lambda>_. d') i1
                       in Inr (if newer then addSFlag env STATUS_UPDATEAVAL i2 else i2))
              else Inr i1)"

definition processUpdateXml_item :: "core_env \<Rightarrow> mod_item list \<Rightarrow> xml \<Rightarrow> item_info \<Rightarrow> (mod_item list \<times> item_info) res" where
  "processUpdateXml_item env mods node i =
     bind_res
       (fold (\<lambda>e r. bind_res r (update_branch env e))
          (case FirstChildElement node ''branches'' of None \<Rightarrow> [] | Some bs \<Rightarrow> for_each_child bs ''branch'') (Inr i))
       (broughtCheck env mods)"

definition BUILDID_PUBLIC :: u32 where "BUILDID_PUBLIC = 120"

definition setLinkInfo_item :: "core_env \<Rightarrow> string \<Rightarrow> string \<Rightarrow> item_info \<Rightarrow> item_info res" where
  "setLinkInfo_item env exe args i =
     (if m_uiType (m_iId i) \<noteq> TYPE_LINK then Inr i
      else
        let path = getFolderPath (Path_ctor exe [] True);
            i1 = (if m_mBranchInstallInfo i = [] then ensure_install BUILDID_PUBLIC i else i)
        in bind_res (install_at BUILDID_PUBLIC i1)
             (\<lambda>d. let i2 = (if m_vBranchList i1 = []
                            then push_branch (BranchInfo_new (BranchFromInt 0 False) (m_iId i1) BUILDID_PUBLIC 0
                                   (user_id env) (script_crc env)) i1
                            else i1);
                      i3 = change_install BUILDID_PUBLIC (setLinkInfo_bii (m_iStatus i2) path exe args) i2;
                      i4 = change_branch 0 (setLinkInfo_branch (m_szName_it i3)) i3
                  in bind_res (setInstalledMcf env (BranchFromInt 0 False) 0 i4)
                       (\<lambda>(i5, _). Inr (i5\<lparr>m_iStatus := STATUS_LINK OR STATUS_NONDOWNLOADABLE OR STATUS_READY
                          OR STATUS_ONCOMPUTER OR STATUS_INSTALLED\<rparr>))))"


section \<open>What each step keeps\<close>

lemma last_branch_Some:
  assumes "last_branch n i = Some x"
  shows "x < length (m_vBranchList i)" "branch_int (m_vBranchList i ! x) = n"
proof -
  let ?l = "filter (\<lambda>x. branch_int (m_vBranchList i ! x) = n) [0 ..< length (m_vBranchList i)]"
  have l: "?l \<noteq> []" "x = last ?l"
    using assms by (auto simp: last_branch_def split: list.splits if_splits)
  then have "x \<in> set ?l" using last_in_set by metis
  then show "x < length (m_vBranchList i)" "branch_int (m_vBranchList i ! x) = n" by auto
qed

lemma core_hear: "core (hear env l n i) = core i"
proof -
  have "core ((onBranchInfoChanged env ^^ n) i) = core i" for n
    by (induction n) (simp_all add: onBranchInfoChanged_def core_onInfoChange core_def change_flags_def)
  then show ?thesis by (simp add: hear_def)
qed

lemma hear_status [simp]: "m_iStatus (hear env l n i) = m_iStatus i"
proof -
  have "m_iStatus ((onBranchInfoChanged env ^^ n) i) = m_iStatus i" for n
    by (induction n) (simp_all add: onBranchInfoChanged_def)
  then show ?thesis by (simp add: hear_def)
qed

interpretation hears: status_op "hear env l n" by unfold_locales (rule core_hear)

lemma core_set_images: "core (set_images env e i) = core i"
proof -
  have "core (setLogo env p i) = core i" "core (setIcon env p i) = core i"
      "core (setLogoUrl env p i) = core i" "core (setIconUrl env p i) = core i" for p i
    by (auto simp: setLogo_def setIcon_def setLogoUrl_def setIconUrl_def core_def Let_def split: option.split)
  then show ?thesis by (simp add: set_images_def Let_def split: option.split)
qed

lemma core_set_kind: "core (set_kind env e i) = core i"
  by (simp add: set_kind_def Let_def core_addSFlag core_delSFlag)

lemma core_processInfo: "core (processInfo env e i) = core i"
proof -
  let ?i1 = "i\<lparr>m_szName_it := GetChild_str e ''name'' (m_szName_it i),
                 m_szShortName := GetChild_str e ''nameid'' (m_szShortName i),
                 m_szDesc := GetChild_str e ''summary'' (m_szDesc i),
                 m_szProfile := GetChild_str e ''url'' (m_szProfile i),
                 m_szGenre := GetChild_str e ''style'' (m_szGenre i),
                 m_szTheme := GetChild_str e ''theme'' (m_szTheme i),
                 m_szRating := GetChild_str e ''rating'' (m_szRating i),
                 m_szEULAUrl := GetChild_str e ''eula'' (m_szEULAUrl i)\<rparr>"
  have dev: "core (j\<lparr>m_szDev := a, m_szDevProfile := b\<rparr>) = core j" "core (j\<lparr>m_szPublisher := a, m_szPublisherProfile := b\<rparr>) = core j"
    for j a b by (simp_all add: core_def)
  have "core ?i1 = core i" by (simp add: core_def)
  then show ?thesis
    unfolding processInfo_def Let_def
    by (simp add: core_set_kind core_set_images core_addSFlag dev split: option.split)
qed

interpretation infos: status_op "processInfo env e" by unfold_locales (rule core_processInfo)

text \<open>The install checks of an item, with their keys.\<close>

definition checks :: "item_info \<Rightarrow> (u32 \<times> string) list" where
  "checks i = map (\<lambda>(k, d). (k, m_szInsCheck d)) (m_mBranchInstallInfo i)"

lemma fst_checks [simp]: "fst ` set (checks i) = fst ` set (m_mBranchInstallInfo i)"
  by (force simp: checks_def)

lemma checks_change [simp]:
  "(\<And>d. m_szInsCheck (f d) = m_szInsCheck d) \<Longrightarrow> checks (change_install k f i) = checks i"
  by (auto simp: checks_def change_install_def)

lemma checks_core [simp]: "checks (onInfoChange env i) = checks i" "checks (delSFlag env f i) = checks i"
  "checks (addSFlag env f i) = checks i" "checks (hear env l n i) = checks i" "checks (processInfo env e i) = checks i"
  by (simp_all add: checks_def)

lemma map_fst_change [simp]:
  "map fst (m_mBranchInstallInfo (change_install k f i)) = map fst (m_mBranchInstallInfo i)"
  by (auto simp: change_install_def)

lemma checks_replace:
  assumes "distinct (map fst (m_mBranchInstallInfo i))" and "install_at k i = Inr d" and "m_szInsCheck d' = m_szInsCheck d"
  shows "checks (change_install k (\<lambda>_. d') i) = checks i"
proof -
  have "\<And>d1. (k, d1) \<in> set (m_mBranchInstallInfo i) \<Longrightarrow> d1 = d"
    using assms(1,2) by (auto simp: install_at_def split: option.splits dest!: map_of_is_SomeI)
  then show ?thesis using assms(3) by (auto simp: checks_def change_install_def)
qed

text \<open>
  An item with the invariant and fewer branches than an index can count; its install data are a map.
\<close>

definition item_fits :: "item_info \<Rightarrow> bool" where
  "item_fits i \<longleftrightarrow> item_inv i \<and> length (m_vBranchList i) < 2 ^ 32 - 1 \<and> distinct (map fst (m_mBranchInstallInfo i))"

lemma setInstalledMcf_ok:
  assumes "item_fits i"
  obtains i' r where "setInstalledMcf env branch build i = Inr (i', r)" "item_fits i'" "checks i' = checks i"
    "\<forall>n. bit (m_iStatus i') n \<longrightarrow> bit (m_iStatus i) n"
proof (cases "branch_index (MCFBranch.m_uiBranch branch) i")
  case None
  then show ?thesis using that [of i False] assms by (simp add: setInstalledMcf_def)
next
  case (Some x)
  let ?b = "m_vBranchList i ! x"
  let ?build = "if build = 0 then m_uiLatestBuild ?b else build"
  let ?i0 = "i\<lparr>m_INBranchIndex := of_nat x, m_LastBranch := m_INBranch i, m_INBranch := branch\<rparr>"
  note x = branch_index_Some [OF Some]
  have ix: "unat (of_nat x :: u32) = x" "(of_nat x :: u32) \<noteq> - 1"
    using of_nat_index [of x] x(1) assms by (auto simp: item_fits_def)
  obtain d where d: "install_at (m_InstallInfo ?b) i = Inr d"
    using branch_install_defined [of i ?b] assms x(1) by (auto simp: item_fits_def item_inv_def)
  then have d0: "install_at (m_InstallInfo ?b) ?i0 = Inr d" by (simp add: install_at_def)
  let ?i1 = "change_install (m_InstallInfo ?b) (\<lambda>_. fst (setInstalledMcf_bii ?build d)) ?i0"
  let ?i2 = "if snd (setInstalledMcf_bii ?build d) then delSFlag env STATUS_UPDATEAVAL ?i1 else ?i1"
  have inv: "item_inv ?i0" using assms x ix by (simp add: item_fits_def item_inv_def current_ok_def installs_ok_def)
  show ?thesis
  proof (rule that [of "onInfoChange env ?i2" True])
    show "setInstalledMcf env branch build i = Inr (onInfoChange env ?i2, True)"
      unfolding setInstalledMcf_def Some option.case Let_def d0 bind_res_simps case_prod_beta by simp
    show "item_fits (onInfoChange env ?i2)" using inv assms by (simp add: item_fits_def)
    show "\<forall>n. bit (m_iStatus (onInfoChange env ?i2)) n \<longrightarrow> bit (m_iStatus i) n"
      by (simp add: delSFlag_status without_bit)
    have "checks ?i1 = checks ?i0"
      by (rule checks_replace [OF _ d0]) (use assms in \<open>simp_all add: item_fits_def setInstalledMcf_bii_def Let_def\<close>)
    then show "checks (onInfoChange env ?i2) = checks i" by (simp add: checks_def)
  qed
qed


subsection \<open>Branches\<close>

lemma branch_int_load [simp]:
  "branch_int (fst (load_branch env e b)) = branch_int b" "m_InstallInfo (fst (load_branch env e b)) = m_InstallInfo b"
  by (simp_all add: load_branch_def branch_int_def Let_def)

lemma reload_branch_keeps:
  assumes "item_fits i" and "x < length (m_vBranchList i)"
  shows "item_fits (reload_branch env e x i)" "length (m_vBranchList (reload_branch env e x i)) = length (m_vBranchList i)"
    "checks (reload_branch env e x i) = checks i" "m_iStatus (reload_branch env e x i) = m_iStatus i"
    "m_INBranch (reload_branch env e x i) = m_INBranch i"
    "branch_int (m_vBranchList (reload_branch env e x i) ! x) = branch_int (m_vBranchList i ! x)"
proof -
  let ?b = "m_vBranchList i ! x" and ?i1 = "change_branch x (\<lambda>_. fst (load_branch env e (m_vBranchList i ! x))) i"
  have r: "reload_branch env e x i = hear env (item_listens ?b) (snd (load_branch env e ?b)) ?i1"
    by (simp add: reload_branch_def Let_def case_prod_beta)
  have "m_InstallInfo (fst (load_branch env e ?b)) \<in> fst ` set (m_mBranchInstallInfo i)"
    using assms by (auto simp: item_fits_def item_inv_def installs_ok_def)
  then have "installs_ok ?i1"
    using assms unfolding item_fits_def item_inv_def installs_ok_def change_branch_def
    by (auto dest!: set_update_subset_insert [THEN subsetD])
  moreover have "current_ok ?i1"
    using assms by (auto simp: item_fits_def item_inv_def current_ok_def change_branch_def nth_list_update)
  ultimately have "item_inv ?i1" by (simp add: item_inv_def)
  then show "item_fits (reload_branch env e x i)"
    using assms unfolding r by (simp add: item_fits_def) (simp add: change_branch_def)
  show "length (m_vBranchList (reload_branch env e x i)) = length (m_vBranchList i)"
    "checks (reload_branch env e x i) = checks i" "m_iStatus (reload_branch env e x i) = m_iStatus i"
    "m_INBranch (reload_branch env e x i) = m_INBranch i"
    "branch_int (m_vBranchList (reload_branch env e x i) ! x) = branch_int ?b"
    unfolding r using assms(2) by (simp_all add: change_branch_def checks_def)
qed

text \<open>A new entry in the map of the install data.\<close>

lemma ensure_install_keeps:
  shows "m_vBranchList (ensure_install k i) = m_vBranchList i" "m_INBranchIndex (ensure_install k i) = m_INBranchIndex i"
    "m_INBranch (ensure_install k i) = m_INBranch i" "m_iStatus (ensure_install k i) = m_iStatus i"
    "m_iId (ensure_install k i) = m_iId i"
    "fst ` set (m_mBranchInstallInfo (ensure_install k i)) = insert k (fst ` set (m_mBranchInstallInfo i))"
    "set (checks i) \<subseteq> set (checks (ensure_install k i))"
    "distinct (map fst (m_mBranchInstallInfo i)) \<Longrightarrow> distinct (map fst (m_mBranchInstallInfo (ensure_install k i)))"
proof -
  show "m_vBranchList (ensure_install k i) = m_vBranchList i" "m_INBranchIndex (ensure_install k i) = m_INBranchIndex i"
    "m_INBranch (ensure_install k i) = m_INBranch i" "m_iStatus (ensure_install k i) = m_iStatus i"
    "m_iId (ensure_install k i) = m_iId i"
    by (simp_all add: ensure_install_def)
  have k: "map_of (m_mBranchInstallInfo i) k \<noteq> None \<longleftrightarrow> k \<in> fst ` set (m_mBranchInstallInfo i)"
    by (simp add: map_of_eq_None_iff)
  show "fst ` set (m_mBranchInstallInfo (ensure_install k i)) = insert k (fst ` set (m_mBranchInstallInfo i))"
    using k by (simp add: ensure_install_def set_insort_key insert_absorb)
  show "set (checks i) \<subseteq> set (checks (ensure_install k i))"
    by (auto simp: checks_def ensure_install_def set_insort_key)
  have d: "distinct (map fst (insort_key fst (k, d) xs)) \<longleftrightarrow> k \<notin> fst ` set xs \<and> distinct (map fst xs)" for d and xs :: "(u32 \<times> install_info) list"
    by (induction xs) (auto simp: set_insort_key)
  show "distinct (map fst (m_mBranchInstallInfo i)) \<Longrightarrow> distinct (map fst (m_mBranchInstallInfo (ensure_install k i)))"
    using k by (simp add: ensure_install_def d)
qed

lemma ensure_install_fits: "item_fits i \<Longrightarrow> item_fits (ensure_install k i)"
  by (auto simp: item_fits_def item_inv_def current_ok_def installs_ok_def ensure_install_keeps)

lemma push_branch_fits:
  assumes "item_fits i" and "length (m_vBranchList i) + 1 < 2 ^ 32 - 1" and "m_InstallInfo b \<in> fst ` set (m_mBranchInstallInfo i)"
  shows "item_fits (push_branch b i)"
  using assms by (auto simp: item_fits_def item_inv_def current_ok_def installs_ok_def push_branch_def nth_append)

lemma push_branch_fields [simp]:
  "m_vBranchList (push_branch b i) = m_vBranchList i @ [b]" "m_iStatus (push_branch b i) = m_iStatus i"
  "checks (push_branch b i) = checks i" "m_INBranch (push_branch b i) = m_INBranch i"
  "m_mBranchInstallInfo (push_branch b i) = m_mBranchInstallInfo i"
  by (simp_all add: push_branch_def checks_def)

text \<open>The index of the current branch may be set to any branch with the installed id.\<close>

lemma set_index_fits:
  assumes "item_fits i" and "x < length (m_vBranchList i)" and "branch_int (m_vBranchList i ! x) = MCFBranch.m_uiBranch (m_INBranch i)"
  shows "item_fits (i\<lparr>m_INBranchIndex := of_nat x\<rparr>)"
proof -
  have "unat (of_nat x :: u32) = x" using of_nat_index [of x] assms by (auto simp: item_fits_def)
  then show ?thesis using assms by (simp add: item_fits_def item_inv_def current_ok_def installs_ok_def)
qed


lemma new_branch_id [simp]: "branch_int (new_branch env e n i) = n"
  by (simp add: new_branch_def branch_int_def BranchInfo_new_def BranchFromInt_def Let_def)

lemma listening_id [simp]: "branch_int (b\<lparr>item_listens := l\<rparr>) = branch_int b"
  by (simp add: branch_int_def)

lemma loadBranchXmlData_keeps:
  assumes "item_fits i" and "length (m_vBranchList i) + 1 < 2 ^ 32 - 1"
  shows "item_fits (loadBranchXmlData env e i)"
    "length (m_vBranchList (loadBranchXmlData env e i)) \<le> length (m_vBranchList i) + 1"
    "m_iStatus (loadBranchXmlData env e i) = m_iStatus i"
proof -
  let ?n = "GetAtt_u32 (Some e) ''id'' 0" and ?i' = "loadBranchXmlData env e i"
  have "item_fits ?i' \<and> length (m_vBranchList ?i') \<le> length (m_vBranchList i) + 1 \<and> m_iStatus ?i' = m_iStatus i"
  proof (cases "?n = 0")
    case True
    then show ?thesis using assms by (simp add: loadBranchXmlData_def)
  next
    case False
    show ?thesis
    proof (cases "last_branch ?n i")
      case (Some x)
      let ?i0 = "if ?n = MCFBranch.m_uiBranch (m_INBranch i) then i\<lparr>m_INBranchIndex := of_nat x\<rparr> else i"
      note x = last_branch_Some [OF Some]
      have i0: "item_fits ?i0" using set_index_fits [OF assms(1) x(1)] x(2) assms(1) by simp
      have x0: "x < length (m_vBranchList ?i0)" using x(1) by simp
      have "?i' = reload_branch env e x ?i0" using Some False by (simp add: loadBranchXmlData_def Let_def)
      then show ?thesis using reload_branch_keeps(1-4) [OF i0 x0] by simp
    next
      case None
      let ?b = "(new_branch env e ?n i)\<lparr>item_listens := True\<rparr>"
      let ?i0 = "hear env True (snd (load_branch env e ?b)) (ensure_install (m_InstallInfo ?b) i)"
      let ?i1 = "push_branch (fst (load_branch env e ?b)) ?i0"
      have r: "?i' = (if ?n = MCFBranch.m_uiBranch (m_INBranch i)
          then ?i1\<lparr>m_INBranchIndex := of_nat (length (m_vBranchList ?i1) - 1)\<rparr> else ?i1)"
        unfolding loadBranchXmlData_def Let_def None option.case case_prod_beta using False by simp
      have i0: "item_fits ?i0" using ensure_install_fits [OF assms(1)] by (simp add: item_fits_def)
      have "m_InstallInfo (fst (load_branch env e ?b)) \<in> fst ` set (m_mBranchInstallInfo ?i0)"
        by (simp add: ensure_install_keeps)
      from push_branch_fits [OF i0 _ this] have i1: "item_fits ?i1" using assms(2) by (simp add: ensure_install_keeps)
      have l: "length (m_vBranchList ?i1) = length (m_vBranchList i) + 1" by (simp add: ensure_install_keeps)
      have "item_fits (?i1\<lparr>m_INBranchIndex := of_nat (length (m_vBranchList ?i1) - 1)\<rparr>)"
        if "?n = MCFBranch.m_uiBranch (m_INBranch i)"
        by (rule set_index_fits [OF i1]) (use that in \<open>simp_all add: ensure_install_keeps\<close>)
      then show ?thesis using r i1 l by (simp add: ensure_install_keeps)
    qed
  qed
  then show "item_fits ?i'" "length (m_vBranchList ?i') \<le> length (m_vBranchList i) + 1" "m_iStatus ?i' = m_iStatus i"
    by simp_all
qed

definition branch_elements :: "xml \<Rightarrow> xml list" where
  "branch_elements e = (case FirstChildElement e ''branches'' of None \<Rightarrow> [] | Some bs \<Rightarrow> for_each_child bs ''branch'')"

lemma load_branches_keeps:
  assumes "item_fits i" and "length (m_vBranchList i) + length (branch_elements e) < 2 ^ 32 - 1"
  shows "item_fits (load_branches env e i)
    \<and> length (m_vBranchList (load_branches env e i)) \<le> length (m_vBranchList i) + length (branch_elements e)
    \<and> m_iStatus (load_branches env e i) = m_iStatus i"
proof -
  have "item_fits (fold (loadBranchXmlData env) bs i)
      \<and> length (m_vBranchList (fold (loadBranchXmlData env) bs i)) \<le> length (m_vBranchList i) + length bs
      \<and> m_iStatus (fold (loadBranchXmlData env) bs i) = m_iStatus i"
    if "item_fits i" "length (m_vBranchList i) + length bs < 2 ^ 32 - 1" for bs i
    using that
  proof (induction bs arbitrary: i)
    case (Cons b bs)
    have 1: "length (m_vBranchList i) + 1 < 2 ^ 32 - 1" using Cons(3) by simp
    note k = loadBranchXmlData_keeps [OF Cons(2) 1, of env b]
    show ?case using Cons(1) [of "loadBranchXmlData env b i"] k Cons(3) by simp
  qed simp
  from this [OF assms] show ?thesis by (simp add: load_branches_def branch_elements_def)
qed

subsection \<open>Status\<close>

lemma addSFlag_new: "bit (m_iStatus (addSFlag env f i)) n \<Longrightarrow> bit (m_iStatus i) n \<or> bit f n"
  by (cases "HasAllFlags (m_iStatus i) f") (simp add: addSFlag_def, simp add: addSFlag_bit)

lemma delSFlag_old: "bit (m_iStatus (delSFlag env f i)) n \<Longrightarrow> bit (m_iStatus i) n \<and> \<not> bit f n"
  by (simp add: delSFlag_status without_bit)

lemma setters_status [simp]: "m_iStatus (set_images env e i) = m_iStatus i"
proof -
  have "m_iStatus (setLogo env p i) = m_iStatus i" "m_iStatus (setIcon env p i) = m_iStatus i"
      "m_iStatus (setLogoUrl env p i) = m_iStatus i" "m_iStatus (setIconUrl env p i) = m_iStatus i" for p i
    by (auto simp: setLogo_def setIcon_def setLogoUrl_def setIconUrl_def Let_def split: option.split)
  then show ?thesis by (simp add: set_images_def Let_def split: option.split)
qed

lemma processInfo_status:
  assumes "bit (m_iStatus (processInfo env e i)) 1"
  shows "bit (m_iStatus i) 1"
proof -
  have kind: "bit (m_iStatus (set_kind env e i)) 1 \<Longrightarrow> bit (m_iStatus i) 1" for i
    by (auto simp: set_kind_def Let_def STATUS_NONDOWNLOADABLE_def STATUS_DLC_def split: if_splits
        dest!: addSFlag_new delSFlag_old)
  show ?thesis
    using assms unfolding processInfo_def Let_def
    by (auto simp: STATUS_DEVELOPER_def split: option.splits if_splits dest!: kind [unfolded One_nat_def] addSFlag_new)
qed


subsection \<open>Settings\<close>

text \<open>The file that shows that an item is installed is on the disk: an install check, or the stored archive.\<close>

definition check_on_disk :: "core_env \<Rightarrow> item_info \<Rightarrow> bool" where
  "check_on_disk env i \<longleftrightarrow>
     valid_item_file env (mcf_path env) \<or> (\<exists>d \<in> snd ` set (m_mBranchInstallInfo i). valid_item_file env (m_szInsCheck d))"

lemma check_on_disk_checks:
  "check_on_disk env i \<longleftrightarrow> valid_item_file env (mcf_path env) \<or> (\<exists>c \<in> snd ` set (checks i). valid_item_file env c)"
  by (force simp: check_on_disk_def checks_def)

text \<open>A step that keeps the item within its bounds and does not say it is installed unless it was or its check is there.\<close>

definition sound_step :: "core_env \<Rightarrow> item_info \<Rightarrow> item_info \<Rightarrow> bool" where
  "sound_step env i i' \<longleftrightarrow> item_fits i' \<and> (check_on_disk env i \<longrightarrow> check_on_disk env i')
     \<and> fst ` set (m_mBranchInstallInfo i) \<subseteq> fst ` set (m_mBranchInstallInfo i')
     \<and> (bit (m_iStatus i') 1 \<longrightarrow> bit (m_iStatus i) 1 \<or> check_on_disk env i')"

lemma sound_refl: "item_fits i \<Longrightarrow> sound_step env i i"
  by (simp add: sound_step_def)

lemma sound_trans: "sound_step env i j \<Longrightarrow> sound_step env j k \<Longrightarrow> sound_step env i k"
  unfolding sound_step_def by blast

lemma sound_core:
  assumes "item_fits i" and "core i' = core i" and "bit (m_iStatus i') 1 \<longrightarrow> bit (m_iStatus i) 1 \<or> check_on_disk env i"
  shows "sound_step env i i'"
  using assms
  by (simp add: sound_step_def item_fits_def item_inv_def current_ok_def installs_ok_def check_on_disk_def core_def)

lemma sound_addSFlag:
  assumes "item_fits i" and "bit f 1 \<longrightarrow> check_on_disk env i"
  shows "sound_step env i (addSFlag env f i)"
  by (rule sound_core) (use assms in \<open>auto simp: core_addSFlag dest: addSFlag_new\<close>)

lemma sound_delSFlag: "item_fits i \<Longrightarrow> sound_step env i (delSFlag env f i)"
  by (rule sound_core) (auto simp: core_delSFlag dest: delSFlag_old)

lemma sound_setInstalledMcf:
  assumes "item_fits i"
  obtains i' r where "setInstalledMcf env branch build i = Inr (i', r)" "sound_step env i i'"
    "check_on_disk env i' = check_on_disk env i"
proof -
  obtain i' r where r: "setInstalledMcf env branch build i = Inr (i', r)" "item_fits i'" "checks i' = checks i"
      "\<forall>n. bit (m_iStatus i') n \<longrightarrow> bit (m_iStatus i) n"
    using setInstalledMcf_ok [OF assms] .
  have c: "check_on_disk env i' = check_on_disk env i" using r(3) by (simp add: check_on_disk_checks)
  have "fst ` set (m_mBranchInstallInfo i') = fst ` set (m_mBranchInstallInfo i)" using r(3) by (metis fst_checks)
  then show ?thesis by (intro that [OF r(1) _ c]) (use r c in \<open>simp add: sound_step_def\<close>)
qed

lemma settings_flags_sound:
  assumes "item_fits i" and "\<exists>d \<in> snd ` set (m_mBranchInstallInfo i). pr_insCheck pr = m_szInsCheck d"
  shows "\<exists>i'. settings_flags env pr i = Inr i' \<and> sound_step env i i'"
proof -
  let ?there = "(\<not> isDownloadable_item i \<or> pr_notFirst pr) \<and> valid_item_file env (pr_insCheck pr)"
  have there: "?there \<Longrightarrow> check_on_disk env i" using assms(2) unfolding check_on_disk_def by metis
  obtain i1 r where s: "setInstalledMcf env (BranchFromInt 0 False) 0 i = Inr (i1, r)" "sound_step env i i1"
      "check_on_disk env i1 = check_on_disk env i"
    using sound_setInstalledMcf [OF assms(1)] .
  have f1: "item_fits i1" using s(2) by (simp add: sound_step_def)
  have t: "sound_step env i (addSFlag env f i1)" if ?there for f
    by (rule sound_trans [OF s(2) sound_addSFlag [OF f1]]) (use that there s(3) in simp)
  have n: "sound_step env i (addSFlag env f i)" if "\<not> bit f 1" for f
    by (rule sound_addSFlag [OF assms(1)]) (use that in simp)
  show ?thesis
  proof (cases "pr_useCip pr \<or> pr_found pr")
    case True
    show ?thesis
    proof (cases ?there)
      case True
      then show ?thesis using s(1) t [OF True] \<open>pr_useCip pr \<or> pr_found pr\<close> by (simp add: settings_flags_def Let_def)
    next
      case False
      let ?f = "STATUS_ONCOMPUTER OR 0 OR (if \<not> isDownloadable_item i \<or> pr_notFirst pr then STATUS_LINK else 0)"
      have "\<not> bit ?f 1" by (simp add: STATUS_ONCOMPUTER_def STATUS_LINK_def)
      moreover have "settings_flags env pr i = Inr (addSFlag env ?f i)"
        unfolding settings_flags_def Let_def using False \<open>pr_useCip pr \<or> pr_found pr\<close> by auto
      ultimately show ?thesis using n by blast
    qed
  qed (use assms(1) in \<open>simp add: settings_flags_def sound_refl\<close>)
qed

lemma settings_link_sound:
  assumes "item_fits i" and "platform \<in> fst ` set (m_mBranchInstallInfo i)"
  shows "\<exists>i'. settings_link env platform i = Inr i' \<and> sound_step env i i'"
proof (cases "HasAnyFlags (m_iStatus i) STATUS_LINK")
  case True
  let ?b = "BranchInfo_new (BranchFromInt 0 False) (m_iId i) platform 0 (user_id env) (script_crc env)"
  let ?i1 = "if m_vBranchList i = [] then push_branch ?b i else i"
  have "item_fits (push_branch ?b i)" if "m_vBranchList i = []"
    by (rule push_branch_fits [OF assms(1)]) (use that assms(2) in \<open>simp_all add: BranchInfo_new_def\<close>)
  then have f: "item_fits ?i1" using assms(1) by simp
  then have s: "sound_step env i ?i1" by (simp add: sound_step_def check_on_disk_def)
  obtain i2 r where r: "setInstalledMcf env (BranchFromInt 0 False) 0 ?i1 = Inr (i2, r)" "sound_step env ?i1 i2"
    using sound_setInstalledMcf [OF f] .
  then have "settings_link env platform i = Inr i2" using True by (simp add: settings_link_def Let_def)
  then show ?thesis using sound_trans [OF s r(2)] by blast
qed (use assms(1) in \<open>simp add: settings_link_def sound_refl\<close>)


lemma processSettings_check:
  "processSettings_bii n env status e reset bought cip b m = Some (m', b', pr) \<Longrightarrow> pr_insCheck pr = m_szInsCheck b'"
  by (auto simp: processSettings_bii_def Let_def)

text \<open>
  Reading the settings of the platform may lose its old install check: the flag is only kept by a check that is there.
\<close>

lemma processSettings_item_sound:
  assumes "item_fits i" and "\<not> bit (m_iStatus i) 1" and "processSettings_item n env platform e reset i m = Some r"
  shows "\<exists>m' i'. r = Inr (m', i') \<and> item_fits i' \<and> (bit (m_iStatus i') 1 \<longrightarrow> check_on_disk env i')"
proof -
  let ?i1 = "if GetChild_bool e ''installcomplex'' False then addSFlag env STATUS_INSTALLCOMPLEX i else i"
  let ?i2 = "if \<not> isDownloadable_item ?i1 then ensure_install platform ?i1 else ?i1"
  have "sound_step env i ?i1"
    using sound_addSFlag [OF assms(1), of STATUS_INSTALLCOMPLEX env] sound_refl [OF assms(1)]
    by (simp add: STATUS_INSTALLCOMPLEX_def)
  then have 1: "item_fits ?i1" "\<not> bit (m_iStatus ?i1) 1"
    using assms(2) by (auto simp: sound_step_def STATUS_INSTALLCOMPLEX_def split: if_splits dest!: addSFlag_new)
  then have 2: "item_fits ?i2" "\<not> bit (m_iStatus ?i2) 1"
    using ensure_install_fits [OF 1(1)] by (simp_all add: ensure_install_keeps)
  show ?thesis
  proof (cases "map_of (m_mBranchInstallInfo ?i2) platform")
    case None
    then have "processSettings_item n env platform e reset i m = Some (Inr (m, ?i2))"
      unfolding processSettings_item_def Let_def by simp
    then show ?thesis using 2 assms(3) by auto
  next
    case (Some d)
    obtain m' d' pr where p: "processSettings_bii n (disk_env env) (m_iStatus ?i2) e reset (hasBroughtItem i) (cip_path env) d m
        = Some (m', d', pr)"
      using assms(3) Some unfolding processSettings_item_def Let_def by (auto split: option.splits)
    let ?i3 = "change_install platform (\<lambda>_. d') ?i2"
    have 3: "item_fits ?i3" "\<not> bit (m_iStatus ?i3) 1"
      using 2 item_inv_change_install unfolding item_fits_def by (simp_all only: change_install_fields map_fst_change) simp_all
    have key: "platform \<in> fst ` set (m_mBranchInstallInfo ?i2)" using Some by (metis map_of_eq_None_iff option.distinct(1))
    then have "\<exists>d \<in> snd ` set (m_mBranchInstallInfo ?i3). pr_insCheck pr = m_szInsCheck d"
      unfolding processSettings_check [OF p] by (force simp: change_install_def)
    from settings_flags_sound [OF 3(1) this, of env] obtain i4
      where 4: "settings_flags env pr ?i3 = Inr i4" "sound_step env ?i3 i4" by blast
    have "platform \<in> fst ` set (m_mBranchInstallInfo i4)"
      using key 4(2) by (auto simp: sound_step_def)
    with 4(2) settings_link_sound [of i4 platform env] obtain i5
      where 5: "settings_link env platform i4 = Inr i5" "sound_step env i4 i5" by (auto simp: sound_step_def)
    have "processSettings_item n env platform e reset i m = Some (Inr (m', i5))"
      unfolding processSettings_item_def Let_def Some option.case p using 4(1) 5(1) by simp
    then show ?thesis using sound_trans [OF 4(2) 5(2)] 3(2) assms(3) by (auto simp: sound_step_def)
  qed
qed

text \<open>With all wildcards resolved it returns.\<close>

lemma processSettings_item_total:
  assumes "all_resolved m" and "27 \<le> n"
  shows "processSettings_item n env platform e reset i m \<noteq> None"
proof -
  have f: "processSettings_bii n de status e reset bought cip d m \<noteq> None" for de status bought cip d
    using processSettings_total [OF assms(2,1)] by (metis option.distinct(1))
  show ?thesis
    unfolding processSettings_item_def Let_def by (simp add: f del: if_split split: option.split)
qed


subsection \<open>The rest of a load\<close>

text \<open>The current branch and its install data are there.\<close>

lemma current_branch_defined:
  assumes "item_inv i"
  shows "getCurrentBranch i = Inr None
    \<or> (\<exists>b d. getCurrentBranch i = Inr (Some b) \<and> install_at (m_InstallInfo b) i = Inr d \<and> d \<in> snd ` set (m_mBranchInstallInfo i))"
proof -
  obtain p where p: "current_position i = Inr p" using assms current_position_defined by (auto simp: item_inv_def)
  show ?thesis
  proof (cases p)
    case (Some x)
    let ?b = "m_vBranchList i ! x"
    have c: "getCurrentBranch i = Inr (Some ?b)" using p Some by (simp add: getCurrentBranch_def)
    then obtain d where d: "install_at (m_InstallInfo ?b) i = Inr d"
      using branch_install_defined [OF _ current_in_list [OF c]] assms by (auto simp: item_inv_def)
    then have "d \<in> snd ` set (m_mBranchInstallInfo i)"
      by (force simp: install_at_def split: option.splits dest: map_of_SomeD)
    then show ?thesis using c d by blast
  qed (use p in \<open>simp add: getCurrentBranch_def\<close>)
qed

lemma mark_installed_sound:
  assumes "item_fits i" and "\<not> valid_item_file env []"
  shows "\<exists>i'. mark_installed env installed verifying i = Inr i' \<and> sound_step env i i'"
proof -
  have inv: "item_inv i" using assms(1) by (simp add: item_fits_def)
  have "\<exists>f. installCheckFile env i = Inr f \<and> (valid_item_file env f \<longrightarrow> check_on_disk env i)"
    using current_branch_defined [OF inv]
  proof (elim disjE exE conjE)
    fix b d
    assume b: "getCurrentBranch i = Inr (Some b)" "install_at (m_InstallInfo b) i = Inr d" "d \<in> snd ` set (m_mBranchInstallInfo i)"
    then have "valid_item_file env (m_szInsCheck d) \<longrightarrow> check_on_disk env i" unfolding check_on_disk_def by blast
    moreover have "valid_item_file env (mcf_path env) \<longrightarrow> check_on_disk env i" by (simp add: check_on_disk_def)
    ultimately show ?thesis using b(1,2) by (simp add: installCheckFile_def)
  qed (use assms(2) in \<open>simp add: installCheckFile_def check_on_disk_def\<close>)
  then obtain f where f: "installCheckFile env i = Inr f" "valid_item_file env f \<longrightarrow> check_on_disk env i" by blast
  let ?i1 = "addSFlag env STATUS_INSTALLED i"
  have s1: "sound_step env i ?i1" if "valid_item_file env f"
    by (rule sound_addSFlag [OF assms(1)]) (use that f(2) in simp)
  have s2: "sound_step env ?i1 (addSFlag env STATUS_READY ?i1)" if "valid_item_file env f"
    by (rule sound_addSFlag) (use s1 [OF that] in \<open>simp_all add: sound_step_def STATUS_READY_def\<close>)
  show ?thesis
    using f(1) s1 sound_trans [OF s1 s2] sound_refl [OF assms(1)] by (simp add: mark_installed_def Let_def)
qed

lemma guess_branch_sound:
  assumes "item_fits i"
  shows "\<exists>i'. guess_branch env i = Inr i' \<and> sound_step env i i'"
proof -
  have link: "sound_step env i (addSFlag env STATUS_LINK i)"
    by (rule sound_addSFlag [OF assms]) (simp add: STATUS_LINK_def)
  have del: "sound_step env i (delSFlag env STATUS_DELETED (addSFlag env STATUS_LINK i))"
    by (rule sound_trans [OF link sound_delSFlag]) (use link in \<open>simp add: sound_step_def\<close>)
  let ?l = "filter (\<lambda>x. may_be_installed (m_vBranchList i ! x)) [0 ..< length (m_vBranchList i)]"
  have one: "\<exists>i'. guess_branch env i = Inr i' \<and> sound_step env i i'"
    if l: "?l = [x]" and g: "isInstalled_item i \<and> isDownloadable_item i \<and> MCFBranch.m_uiBranch (m_INBranch i) = 0" for x
  proof -
    let ?b = "m_vBranchList i ! x"
    let ?i1 = "i\<lparr>m_INBranchIndex := of_nat x, m_INBranch := m_uiBranchId ?b\<rparr>"
    let ?i2 = "change_install (m_InstallInfo ?b) (\<lambda>d. fst (setInstalledMcf_bii (m_uiLatestBuild ?b) d)) ?i1"
    have "x \<in> set ?l" by (simp add: l)
    then have x: "x < length (m_vBranchList i)" by simp
    obtain d where "install_at (m_InstallInfo ?b) i = Inr d"
      using branch_install_defined [of i ?b] assms x by (auto simp: item_fits_def item_inv_def)
    then have d: "install_at (m_InstallInfo ?b) ?i1 = Inr d" by (simp add: install_at_def)
    have "unat (of_nat x :: u32) = x" using of_nat_index [of x] assms x by (auto simp: item_fits_def)
    then have f: "item_fits ?i1"
      using assms x by (simp add: item_fits_def item_inv_def current_ok_def installs_ok_def branch_int_def)
    have "checks ?i2 = checks ?i1" by (rule checks_change) (simp add: setInstalledMcf_bii_def Let_def)
    then have "check_on_disk env ?i2 = check_on_disk env i" by (simp add: check_on_disk_checks checks_def)
    then have "sound_step env i ?i2" using f by (simp add: sound_step_def item_fits_def)
    then show ?thesis using l g d by (simp add: guess_branch_def Let_def)
  qed
  show ?thesis
  proof (cases "isInstalled_item i \<and> isDownloadable_item i \<and> MCFBranch.m_uiBranch (m_INBranch i) = 0")
    case True
    show ?thesis
    proof (cases "\<exists>x. ?l = [x]")
      case False
      then have "guess_branch env i = Inr (addSFlag env STATUS_LINK i)"
        using True by (auto simp: guess_branch_def split: list.split)
      then show ?thesis using link by blast
    qed (use one True in blast)
  next
    case False
    then show ?thesis using del sound_refl [OF assms] unfolding guess_branch_def by auto
  qed
qed

lemma forget_mods_ok:
  assumes "\<forall>m \<in> set mods. item_inv (fst m)"
  shows "\<exists>mods'. forget_mods env mods = Inr mods' \<and> length mods' = length mods
    \<and> (\<forall>m \<in> set mods'. item_inv (fst m) \<and> m_INBranchIndex (fst m) = - 1
          \<and> (\<forall>n. bit forget_flags n \<longrightarrow> \<not> bit (m_iStatus (fst m)) n))"
  using assms
proof (induction mods)
  case (Cons m mods)
  obtain j stage where m: "m = (j, stage)" by (cases m)
  have inv: "item_inv (delSFlag env forget_flags j)" using Cons(2) m by simp
  obtain j' where j': "resetInstalledMcf env (delSFlag env forget_flags j) = Inr j'" "item_inv j'" "m_INBranchIndex j' = - 1"
      "m_iStatus j' = m_iStatus (delSFlag env forget_flags j)"
    using resetInstalledMcf_ok [OF inv, of env] by metis
  moreover obtain mods' where "forget_mods env mods = Inr mods'" "length mods' = length mods"
      "\<forall>m \<in> set mods'. item_inv (fst m) \<and> m_INBranchIndex (fst m) = - 1
          \<and> (\<forall>n. bit forget_flags n \<longrightarrow> \<not> bit (m_iStatus (fst m)) n)"
    using Cons by auto
  ultimately show ?case by (auto simp: m delSFlag_status without_bit)
qed simp

lemma broughtCheck_sound:
  assumes "item_fits i" and "\<forall>m \<in> set mods. item_inv (fst m)"
  shows "\<exists>mods' i'. broughtCheck env mods i = Inr (mods', i') \<and> sound_step env i i' \<and> (\<forall>m \<in> set mods'. item_inv (fst m))"
proof -
  obtain has where h: "current_has_mod i = Inr has"
    using current_branch_defined [of i] assms(1) by (fastforce simp: current_has_mod_def item_fits_def)
  obtain mods' where "forget_mods env mods = Inr mods'" "\<forall>m \<in> set mods'. item_inv (fst m)"
    using forget_mods_ok [OF assms(2), of env] by blast
  then show ?thesis
    using assms h sound_refl [OF assms(1)] sound_delSFlag [OF assms(1)] by (simp add: broughtCheck_def)
qed

lemma finish_load_sound:
  assumes "item_fits i" and "\<not> valid_item_file env []" and "\<forall>m \<in> set mods. item_inv (fst m)"
  shows "\<exists>mods' i'. finish_load env installed verifying mods i = Inr (mods', i') \<and> sound_step env i i'
    \<and> (\<forall>m \<in> set mods'. item_inv (fst m))"
proof -
  obtain i1 where 1: "mark_installed env installed verifying i = Inr i1" "sound_step env i i1"
    using mark_installed_sound [OF assms(1,2)] by blast
  obtain i2 where 2: "guess_branch env i1 = Inr i2" "sound_step env i1 i2"
    using guess_branch_sound [of i1 env] 1(2) by (auto simp: sound_step_def)
  let ?i2 = "change_flags CHANGED_INFO i2"
  have f: "item_fits i2" using 2(2) by (simp add: sound_step_def)
  then have 3: "sound_step env i2 ?i2" by (rule sound_core) (simp_all add: changes.core_op)
  obtain mods' i3 where 4: "broughtCheck env mods ?i2 = Inr (mods', i3)" "sound_step env ?i2 i3" "\<forall>m \<in> set mods'. item_inv (fst m)"
    using broughtCheck_sound [of ?i2 mods env] assms(3) 3 by (auto simp: sound_step_def)
  let ?i4 = "triggerCallBack env (resumeCallBack (tell ItemSaved i3))"
  have "sound_step env i3 ?i4"
    by (rule sound_core) (use 4(2) in \<open>simp_all add: sound_step_def triggers.core_op resumes.core_op tells.core_op\<close>,
        simp add: triggerCallBack_def resumeCallBack_def tell_def Let_def)
  then have "sound_step env i ?i4" using 1(2) 2(2) 3 4(2) sound_trans by metis
  then show ?thesis using 1(1) 2(1) 4(1,3) by (simp add: finish_load_def)
qed


lemma load_item_ok:
  assumes "item_fits i" and "length (m_vBranchList i) + length (branch_elements e) < 2 ^ 32 - 1"
    and "\<not> valid_item_file env []" and "\<forall>m \<in> set mods. item_inv (fst m)"
    and "loadXmlData_item n env platform (Some e) st wc reset mods i = Some r"
  shows "\<exists>wc' mods' i'. r = Inr (wc', mods', i')
    \<and> item_fits i' \<and> (\<forall>m \<in> set mods'. item_inv (fst m)) \<and> (bit (m_iStatus i') 1 \<longrightarrow> check_on_disk env i')"
proof -
  let ?i1 = "load_status e (pauseCallBack i)"
  let ?i2 = "delSFlag env STATUS_INSTALLED (addSFlag env (ucast st) ?i1)"
  let ?i3 = "load_branches env e (processInfo env e ?i2)"
  have c: "core (processInfo env e ?i2) = core i"
    by (simp add: infos.core_op core_delSFlag core_addSFlag)
       (simp add: load_status_def core_def pauseCallBack_def Let_def split: option.split)
  then have f2: "item_fits (processInfo env e ?i2)" "length (m_vBranchList (processInfo env e ?i2)) = length (m_vBranchList i)"
    using assms(1) by (auto simp: core_def item_fits_def item_inv_def current_ok_def installs_ok_def)
  have b2: "\<not> bit (m_iStatus (processInfo env e ?i2)) 1"
    using processInfo_status delSFlag_old [of env STATUS_INSTALLED "addSFlag env (ucast st) ?i1" 1]
    by (auto simp: STATUS_INSTALLED_def)
  have f3: "item_fits ?i3" "\<not> bit (m_iStatus ?i3) 1"
    using load_branches_keeps [OF f2(1), of e env] f2(2) b2 assms(2) by simp_all
  obtain s where s: "load_settings n env platform e reset ?i3 wc = Some s"
    using assms(5) unfolding loadXmlData_item_def Let_def option.case by (auto simp: option.map_sel)
  have "\<exists>wc' i4. s = Inr (wc', i4) \<and> item_fits i4 \<and> (bit (m_iStatus i4) 1 \<longrightarrow> check_on_disk env i4)"
  proof (cases "\<exists>s m. FirstChildElement e ''settings'' = Some s \<and> wc = Some m")
    case True
    then obtain x m where xm: "FirstChildElement e ''settings'' = Some x" "wc = Some m" by blast
    with s obtain q where q: "processSettings_item n env platform x reset ?i3 m = Some q"
        "s = bind_res q (\<lambda>(m', i). Inr (Some m', i))"
      by (auto simp: load_settings_def)
    show ?thesis using processSettings_item_sound [OF f3(1,2) q(1)] q(2) by auto
  next
    case False
    then have "s = Inr (wc, ?i3)" using s by (auto simp: load_settings_def split: option.splits)
    then show ?thesis using f3 by blast
  qed
  then obtain wc' i4 where 4: "s = Inr (wc', i4)" "item_fits i4" "bit (m_iStatus i4) 1 \<longrightarrow> check_on_disk env i4" by blast
  obtain mods' i5 where 5: "finish_load env (HasAllFlags (m_iStatus ?i1) STATUS_INSTALLED)
      (HasAllFlags (m_iStatus ?i1) STATUS_VERIFING) mods i4 = Inr (mods', i5)" "sound_step env i4 i5" "\<forall>m \<in> set mods'. item_inv (fst m)"
    using finish_load_sound [OF 4(2) assms(3,4)] by blast
  have "loadXmlData_item n env platform (Some e) st wc reset mods i = Some (Inr (wc', mods', i5))"
    unfolding loadXmlData_item_def Let_def option.case s 4(1) by (simp only: option.map bind_res_simps prod.case 5(1))
  then show ?thesis using 4(3) 5(2,3) assms(5) by (auto simp: sound_step_def)
qed

lemma load_item_total:
  assumes "\<forall>m. wc = Some m \<longrightarrow> all_resolved m" and "27 \<le> n"
  shows "loadXmlData_item n env platform (Some e) st wc reset mods i \<noteq> None"
  using assms processSettings_item_total unfolding loadXmlData_item_def load_settings_def Let_def
  by (auto split: option.split)

subsection \<open>The update feed\<close>

lemma announce_keeps:
  assumes "item_fits i" and "m_InstallInfo b \<in> fst ` set (m_mBranchInstallInfo i)"
  shows "\<exists>d. install_at (m_InstallInfo b) i = Inr d
    \<and> item_fits (change_install (m_InstallInfo b) (\<lambda>_. d') i)
    \<and> item_fits (addSFlag env STATUS_UPDATEAVAL (change_install (m_InstallInfo b) (\<lambda>_. d') i))
    \<and> (bit (m_iStatus (addSFlag env STATUS_UPDATEAVAL (change_install (m_InstallInfo b) (\<lambda>_. d') i))) 1 \<longrightarrow> bit (m_iStatus i) 1)"
proof -
  have f: "item_fits (change_install (m_InstallInfo b) (\<lambda>_. d') i)" using assms(1) by (simp add: item_fits_def)
  then have "item_fits (addSFlag env STATUS_UPDATEAVAL (change_install (m_InstallInfo b) (\<lambda>_. d') i))"
    by (simp add: item_fits_def)
  then show ?thesis using f install_at_defined [OF assms(2)]
    by (auto dest!: addSFlag_new simp: STATUS_UPDATEAVAL_def)
qed

lemma update_branch_keeps:
  assumes "item_fits i" and "length (m_vBranchList i) + 1 < 2 ^ 32 - 1"
  shows "\<exists>i'. update_branch env e i = Inr i' \<and> item_fits i' \<and> length (m_vBranchList i') \<le> length (m_vBranchList i) + 1
    \<and> (bit (m_iStatus i') 1 \<longrightarrow> bit (m_iStatus i) 1)"
proof -
  let ?n = "GetAtt_u32 (Some e) ''id'' 0"
  define p where "p = (case last_branch ?n i of
                Some x \<Rightarrow> (reload_branch env e x i, x)
              | None \<Rightarrow>
                  (push_branch ((fst (load_branch env e (new_branch env e ?n i)))\<lparr>item_listens := True\<rparr>)
                     (ensure_install (m_InstallInfo (new_branch env e ?n i)) i),
                   length (m_vBranchList (ensure_install (m_InstallInfo (new_branch env e ?n i)) i))))"
  have p: "item_fits (fst p) \<and> snd p < length (m_vBranchList (fst p)) \<and> length (m_vBranchList (fst p)) \<le> length (m_vBranchList i) + 1
      \<and> m_iStatus (fst p) = m_iStatus i"
  proof (cases "last_branch ?n i")
    case (Some x)
    note x = last_branch_Some(1) [OF Some]
    show ?thesis using reload_branch_keeps [OF assms(1) x, of env e] x by (simp add: p_def Some)
  next
    case None
    let ?b = "new_branch env e ?n i"
    let ?i0 = "ensure_install (m_InstallInfo ?b) i"
    have "item_fits (push_branch ((fst (load_branch env e ?b))\<lparr>item_listens := True\<rparr>) ?i0)"
      by (rule push_branch_fits [OF ensure_install_fits [OF assms(1)]]) (use assms(2) in \<open>simp_all add: ensure_install_keeps\<close>)
    then show ?thesis by (simp add: p_def None Let_def ensure_install_keeps)
  qed
  let ?i1 = "fst p" and ?b = "m_vBranchList (fst p) ! snd p"
  have b: "m_InstallInfo ?b \<in> fst ` set (m_mBranchInstallInfo ?i1)"
    using p by (simp add: item_fits_def item_inv_def installs_ok_def)
  obtain d where d: "install_at (m_InstallInfo ?b) ?i1 = Inr d" using install_at_defined [OF b] by blast
  have u: "update_branch env e i = (if ?n = 0 then Inr i
      else if branch_int ?b = MCFBranch.m_uiBranch (m_INBranch ?i1)
      then Inr (let i2 = change_install (m_InstallInfo ?b) (\<lambda>_. fst (processUpdateXml_bii e d)) ?i1
        in if snd (processUpdateXml_bii e d) then addSFlag env STATUS_UPDATEAVAL i2 else i2)
      else Inr ?i1)"
    unfolding update_branch_def Let_def
    unfolding p_def [symmetric] case_prod_beta by (simp add: d)
  have a: "\<exists>d. install_at (m_InstallInfo ?b) ?i1 = Inr d
    \<and> item_fits (change_install (m_InstallInfo ?b) (\<lambda>_. d') ?i1)
    \<and> item_fits (addSFlag env STATUS_UPDATEAVAL (change_install (m_InstallInfo ?b) (\<lambda>_. d') ?i1))
    \<and> (bit (m_iStatus (addSFlag env STATUS_UPDATEAVAL (change_install (m_InstallInfo ?b) (\<lambda>_. d') ?i1))) 1
        \<longrightarrow> bit (m_iStatus ?i1) 1)" for d'
    using announce_keeps [OF _ b] p by blast
  show ?thesis unfolding u using p a [of "fst (processUpdateXml_bii e d)"] assms(1) by (simp add: Let_def)
qed

lemma update_branches_keep:
  assumes "item_fits i" and "length (m_vBranchList i) + length bs < 2 ^ 32 - 1"
  shows "\<exists>i'. fold (\<lambda>e r. bind_res r (update_branch env e)) bs (Inr i) = Inr i' \<and> item_fits i'
    \<and> (bit (m_iStatus i') 1 \<longrightarrow> bit (m_iStatus i) 1)"
  using assms
proof (induction bs arbitrary: i)
  case (Cons b bs)
  have "length (m_vBranchList i) + 1 < 2 ^ 32 - 1" using Cons(3) by simp
  from update_branch_keeps [OF Cons(2) this] obtain i1 where i1: "update_branch env b i = Inr i1" "item_fits i1"
      "length (m_vBranchList i1) \<le> length (m_vBranchList i) + 1" "bit (m_iStatus i1) 1 \<longrightarrow> bit (m_iStatus i) 1" by blast
  have "length (m_vBranchList i1) + length bs < 2 ^ 32 - 1" using i1(3) Cons(3) by simp
  from Cons(1) [OF i1(2) this] show ?case using i1(1,4) by auto
qed simp

section \<open>Properties\<close>

text \<open>C22: Loading an item from any XML, with any settings, wildcards and mods, and fewer than 2^32 - 1 branches: whenever it
  returns, it has thrown nothing, touched nothing that is not there, and kept the item and its mods well formed: the index
  of the current branch is unset or that of a branch with the installed id, and every branch has its install data. And
  it does return when every wildcard is resolved, or there is no manager of them; unresolved ones may refer to each other
  in a cycle, and then it need not.\<close>

theorem loading_keeps_item:
  assumes "item_fits i" and "length (m_vBranchList i) + length (branch_elements e) < 2 ^ 32 - 1"
    and "\<not> valid_item_file env []" and "\<forall>m \<in> set mods. item_inv (fst m)"
  shows "(\<forall>r. loadXmlData_item n env platform (Some e) st wc reset mods i = Some r \<longrightarrow>
      (\<exists>wc' mods' i'. r = Inr (wc', mods', i') \<and> item_fits i' \<and> (\<forall>m \<in> set mods'. item_inv (fst m))))
    \<and> ((\<forall>m. wc = Some m \<longrightarrow> all_resolved m) \<and> 27 \<le> n \<longrightarrow>
      loadXmlData_item n env platform (Some e) st wc reset mods i \<noteq> None)"
  using load_item_ok [OF assms] load_item_total by blast

definition demo_item_xml :: xml where
  "demo_item_xml = Elem ''game'' [] None
     [Elem ''status'' [(''id'', ''2'')] None [], Elem ''name'' [] (Some ''Demo'') [], Elem ''downloadable'' [] (Some ''0'') [],
      Elem ''branches'' [] None [Elem ''branch'' [(''id'', ''7'')] None []], demo_settings]"

lemma demo_item_fits: "item_fits demo_item"
  by (simp add: item_fits_def item_inv_def current_ok_def installs_ok_def demo_item_def ItemInfo_new_def demo_branch_def
      BranchInfo_new_def)

theorem loading_keeps_item_witness:
  "\<exists>wc' mods' i'. loadXmlData_item 27 demo_core 100 (Some demo_item_xml) 0 (Some (demo_wc\<lparr>m_mItemMap := []\<rparr>)) False
       [(demo_item, False)] demo_item = Some (Inr (wc', mods', i'))
    \<and> item_fits i' \<and> (\<forall>m \<in> set mods'. item_inv (fst m))"
proof -
  have l: "length (m_vBranchList demo_item) + length (branch_elements demo_item_xml) < 2 ^ 32 - 1"
    by (simp add: demo_item_def ItemInfo_new_def branch_elements_def demo_item_xml_def FirstChildElement_def for_each_child_def)
  have m: "\<forall>m \<in> set [(demo_item, False)]. item_inv (fst m)" using demo_item_fits by (simp add: item_fits_def)
  have v: "\<not> valid_item_file demo_core []" by (simp add: valid_item_file_def valid_path_def demo_core_def demo_env_def)
  have w: "(\<forall>m. Some (demo_wc\<lparr>m_mItemMap := []\<rparr>) = Some m \<longrightarrow> all_resolved m) \<and> (27 :: nat) \<le> 27"
    by (simp add: all_resolved_def)
  from loading_keeps_item [OF demo_item_fits l v m, of 27 100 0 "Some (demo_wc\<lparr>m_mItemMap := []\<rparr>)" False] w
  show ?thesis by fastforce
qed

text \<open>C23: Whatever the service says of the status of an item and of its settings and wildcards: when loading returns, the
  item is only flagged as installed when the file that shows it is on the disk, an install check of one of its platforms
  or its stored archive.\<close>

theorem installed_has_check:
  assumes "item_fits i" and "length (m_vBranchList i) + length (branch_elements e) < 2 ^ 32 - 1"
    and "\<not> valid_item_file env []" and "\<forall>m \<in> set mods. item_inv (fst m)"
    and "loadXmlData_item n env platform (Some e) st wc reset mods i = Some (Inr (wc', mods', i'))"
    and "isInstalled_item i'"
  shows "check_on_disk env i'"
proof -
  have "bit (m_iStatus i') 1" using assms(6)
    by (simp add: isInstalled_item_def STATUS_INSTALLED_def and_exp_eq_0_iff_not_bit [of _ 1, simplified])
  then show ?thesis using load_item_ok [OF assms(1-5)] by auto
qed

definition demo_installed :: item_info where
  "demo_installed = demo_item\<lparr>m_iStatus := STATUS_INSTALLED, m_INBranchIndex := 0, m_INBranch := BranchFromInt 7 False,
     m_mBranchInstallInfo := [(0, demo_install\<lparr>m_szInsCheck := ''/g/d/x.txt''\<rparr>)]\<rparr>"

definition demo_disk :: core_env where
  "demo_disk = demo_core\<lparr>disk_env := demo_files\<rparr>"

lemma demo_load_run:
  "case loadXmlData_item 27 demo_disk 100 (Some (Elem ''game'' [] None [])) 0 None False [] demo_installed of
     Some (Inr (_, _, i')) \<Rightarrow> isInstalled_item i' | _ \<Rightarrow> False"
  by code_simp

theorem installed_has_check_witness:
  "\<exists>wc' mods' i'. loadXmlData_item 27 demo_disk 100 (Some (Elem ''game'' [] None [])) 0 None False [] demo_installed
     = Some (Inr (wc', mods', i')) \<and> isInstalled_item i' \<and> check_on_disk demo_disk i'"
proof -
  have f: "item_fits demo_installed"
    by (simp add: item_fits_def item_inv_def current_ok_def installs_ok_def demo_installed_def demo_item_def ItemInfo_new_def
        demo_branch_def BranchInfo_new_def branch_int_def)
  have l: "length (m_vBranchList demo_installed) + length (branch_elements (Elem ''game'' [] None [])) < 2 ^ 32 - 1"
    by (simp add: demo_installed_def demo_item_def branch_elements_def FirstChildElement_def)
  have v: "\<not> valid_item_file demo_disk []" by code_simp
  have "\<exists>wc' mods' i'. loadXmlData_item 27 demo_disk 100 (Some (Elem ''game'' [] None [])) 0 None False [] demo_installed
      = Some (Inr (wc', mods', i')) \<and> isInstalled_item i'"
    using demo_load_run by (auto split: option.splits sum.splits prod.splits)
  then obtain wc' mods' i' where r: "loadXmlData_item 27 demo_disk 100 (Some (Elem ''game'' [] None [])) 0 None False []
      demo_installed = Some (Inr (wc', mods', i'))" "isInstalled_item i'" by blast
  have "check_on_disk demo_disk i'"
    by (rule installed_has_check [OF f l v _ r]) simp
  then show ?thesis using r by blast
qed

text \<open>C24: The update feed keeps an item and its mods well formed, touches nothing that is not there, and never makes an item count as installed.\<close>

theorem update_feed_keeps_item:
  assumes "item_fits i" and "length (m_vBranchList i) + length (branch_elements node) < 2 ^ 32 - 1"
    and "\<forall>m \<in> set mods. item_inv (fst m)"
  shows "\<exists>mods' i'. processUpdateXml_item env mods node i = Inr (mods', i') \<and> item_fits i'
    \<and> (\<forall>m \<in> set mods'. item_inv (fst m)) \<and> (isInstalled_item i' \<longrightarrow> isInstalled_item i)"
proof -
  obtain i1 where 1: "fold (\<lambda>e r. bind_res r (update_branch env e)) (branch_elements node) (Inr i) = Inr i1" "item_fits i1"
      "bit (m_iStatus i1) 1 \<longrightarrow> bit (m_iStatus i) 1"
    using update_branches_keep [OF assms(1,2)] by blast
  obtain mods' i' where 2: "broughtCheck env mods i1 = Inr (mods', i')" "sound_step env i1 i'" "\<forall>m \<in> set mods'. item_inv (fst m)"
    using broughtCheck_sound [OF 1(2) assms(3)] by blast
  have 3: "bit (m_iStatus i') 1 \<longrightarrow> bit (m_iStatus i1) 1"
    using 2(1) by (auto simp: broughtCheck_def bind_res_Inr split: if_splits dest: delSFlag_old)
  have r: "processUpdateXml_item env mods node i = Inr (mods', i')"
    using 1(1) 2(1) unfolding processUpdateXml_item_def branch_elements_def by simp
  have s: "isInstalled_item j \<longleftrightarrow> bit (m_iStatus j) 1" for j
    by (simp add: isInstalled_item_def flip: HasAnyFlags_def)
  show ?thesis using r 1(3) 2(2,3) 3 by (simp add: s sound_step_def)
qed

theorem update_feed_keeps_item_witness:
  "\<exists>mods' i'. processUpdateXml_item demo_core [(demo_item, False)] demo_item_xml demo_item = Inr (mods', i') \<and> item_fits i'"
proof -
  have l: "length (m_vBranchList demo_item) + length (branch_elements demo_item_xml) < 2 ^ 32 - 1"
    by (simp add: demo_item_def ItemInfo_new_def branch_elements_def demo_item_xml_def FirstChildElement_def for_each_child_def)
  have m: "\<forall>m \<in> set [(demo_item, False)]. item_inv (fst m)" using demo_item_fits by (simp add: item_fits_def)
  show ?thesis using update_feed_keeps_item [OF demo_item_fits l m, of demo_core] by blast
qed

text \<open>A linked item of which a full branch has been bought, with no mod installed into it and no mod being worked on, is forgotten with all its mods: none of the flags that say it is linked, installed or busy stays, it can be downloaded again, and its mods have no installed branch.\<close>

theorem bought_item_forgotten:
  assumes "item_inv i" and "\<forall>m \<in> set mods. item_inv (fst m)" and "HasAnyFlags (m_iStatus i) STATUS_LINK"
    and "brought i" and "current_has_mod i = Inr False" and "\<forall>m \<in> set mods. \<not> snd m"
  shows "\<exists>mods' i'. broughtCheck env mods i = Inr (mods', i') \<and> isDownloadable_item i' \<and> \<not> isLaunchable i'
    \<and> (\<forall>n. bit forget_flags n \<longrightarrow> \<not> bit (m_iStatus i') n) \<and> length mods' = length mods
    \<and> (\<forall>m \<in> set mods'. getCurrentBranch (fst m) = Inr None \<and> \<not> isLaunchable (fst m))"
proof -
  obtain mods' where m: "forget_mods env mods = Inr mods'" "length mods' = length mods"
      "\<forall>m \<in> set mods'. m_INBranchIndex (fst m) = - 1 \<and> (\<forall>n. bit forget_flags n \<longrightarrow> \<not> bit (m_iStatus (fst m)) n)"
    using forget_mods_ok [OF assms(2), of env] by blast
  let ?i' = "delSFlag env (forget_flags OR STATUS_NONDOWNLOADABLE) i"
  have b: "\<not> bit (m_iStatus ?i') n" if "bit forget_flags n \<or> bit STATUS_NONDOWNLOADABLE n" for n
    using that by (auto simp: delSFlag_status without_bit bit_or_iff)
  have f: "bit forget_flags 21" "bit forget_flags 1" "bit forget_flags 4"
    by (simp_all add: forget_flags_def bit_or_iff)
  have launch: "\<not> isLaunchable j" if "\<not> bit (m_iStatus j) 1" "\<not> bit (m_iStatus j) 4" for j
    using that by (simp add: isLaunchable_def flip: HasAnyFlags_def)
  have down: "isDownloadable_item j" if "\<not> bit (m_iStatus j) 15" "\<not> bit (m_iStatus j) 21" for j
    using that by (simp add: isDownloadable_item_def)
  have "broughtCheck env mods i = Inr (mods', ?i')" using assms(3-6) m(1) by (auto simp: broughtCheck_def)
  moreover have "getCurrentBranch (fst x) = Inr None" if "x \<in> set mods'" for x
    using m(3) that by (simp add: getCurrentBranch_def current_position_def)
  moreover have "\<not> isLaunchable (fst x)" if "x \<in> set mods'" for x
    using m(3) that f by (intro launch) blast+
  moreover have "\<not> isLaunchable ?i'" using launch [of ?i'] b [of 1] b [of 4] f by blast
  moreover have "isDownloadable_item ?i'"
    by (rule down) (use b f in \<open>simp_all add: STATUS_NONDOWNLOADABLE_def\<close>)
  ultimately show ?thesis using m(2) b by blast
qed

theorem bought_item_forgotten_witness:
  "\<exists>mods' i'. broughtCheck demo_core [(demo_item, False)]
       (demo_item\<lparr>m_iStatus := STATUS_LINK OR STATUS_INSTALLED, m_vBranchList := [demo_branch 7 BF_ONACCOUNT]\<rparr>) = Inr (mods', i')
    \<and> isDownloadable_item i' \<and> \<not> isLaunchable i'"
proof -
  let ?i = "demo_item\<lparr>m_iStatus := STATUS_LINK OR STATUS_INSTALLED, m_vBranchList := [demo_branch 7 BF_ONACCOUNT]\<rparr>"
  have 1: "item_inv ?i" "\<forall>m \<in> set [(demo_item, False)]. item_inv (fst m)"
    using demo_item_fits by (simp_all add: item_fits_def item_inv_def current_ok_def installs_ok_def demo_item_def ItemInfo_new_def
      demo_branch_def BranchInfo_new_def)
  have 2: "HasAnyFlags (m_iStatus ?i) STATUS_LINK" "brought ?i" "current_has_mod ?i = Inr False"
    by (simp_all add: bit_or_iff brought_def demo_branch_def current_has_mod_def getCurrentBranch_def current_position_def
        demo_item_def ItemInfo_new_def)
  show ?thesis using bought_item_forgotten [OF 1 2, of demo_core] by auto
qed

lemma setLinkInfo_branch_fields [simp]:
  "m_uiBranchId (setLinkInfo_branch n b) = m_uiBranchId b" "m_InstallInfo (setLinkInfo_branch n b) = m_InstallInfo b"
  "m_uiLatestBuild (setLinkInfo_branch n b) = m_uiLatestBuild b"
  by (simp_all add: setLinkInfo_branch_def add_flag_def)

lemma setInstalledMcf_only:
  assumes "m_vBranchList i = [b]" and "branch_int b = 0" and "m_uiLatestBuild b = 0"
    and "install_at (m_InstallInfo b) i = Inr d" and "m_NextBuild d = 0"
  shows "\<exists>i5. setInstalledMcf env (BranchFromInt 0 False) 0 i = Inr (i5, True) \<and> m_vBranchList i5 = [b]
    \<and> install_at (m_InstallInfo b) i5 = Inr (fst (setInstalledMcf_bii 0 d)) \<and> m_INBranch i5 = BranchFromInt 0 False"
proof -
  let ?i0 = "i\<lparr>m_INBranchIndex := of_nat 0, m_LastBranch := m_INBranch i, m_INBranch := BranchFromInt 0 False\<rparr>"
  let ?i1 = "change_install (m_InstallInfo b) (\<lambda>_. fst (setInstalledMcf_bii 0 d)) ?i0"
  let ?i5 = "onInfoChange env (delSFlag env STATUS_UPDATEAVAL ?i1)"
  have k: "branch_index (MCFBranch.m_uiBranch (BranchFromInt 0 False)) i = Some 0"
    using assms(1,2) by (simp add: branch_index_def BranchFromInt_def)
  have d0: "install_at (m_InstallInfo b) ?i0 = Inr d" using assms(4) by (simp add: install_at_def)
  have up: "snd (setInstalledMcf_bii 0 d)" using assms(5) by (simp add: setInstalledMcf_bii_def)
  have l: "m_vBranchList i ! 0 = b" using assms(1) by simp
  have "setInstalledMcf env (BranchFromInt 0 False) 0 i = Inr (?i5, True)"
    unfolding setInstalledMcf_def k option.case Let_def l assms(3) if_cancel d0 bind_res_simps case_prod_beta using up by simp
  moreover have "m_vBranchList ?i5 = [b]" "m_INBranch ?i5 = BranchFromInt 0 False" using assms(1) by simp_all
  moreover have "install_at (m_InstallInfo b) ?i5 = Inr (fst (setInstalledMcf_bii 0 d))"
    using d0 by (simp add: install_at_change)
  ultimately show ?thesis by blast
qed

text \<open>A new link never gets its program: setting it is refused because the item is not yet flagged as a link, and only then is the flag set, so the item counts as installed and has nothing to start.\<close>

theorem new_link_without_program:
  assumes "m_uiType d = TYPE_LINK"
  shows "\<exists>i'. setLinkInfo_item env exe args ((ItemInfo_new d par)\<lparr>m_szName_it := name\<rparr>) = Inr i' \<and> isInstalled_item i'
    \<and> getActiveExe_item MCFBranch_default i' = Inr None \<and> getPath_item MCFBranch_default i' = Inr (Some [])"
proof -
  let ?b = "setLinkInfo_branch name (BranchInfo_new (BranchFromInt 0 False) d BUILDID_PUBLIC 0 (user_id env) (script_crc env))"
  let ?d = "BranchInstallInfo_new BUILDID_PUBLIC d"
  let ?i = "(ItemInfo_new d par)\<lparr>m_szName_it := name, m_vBranchList := [?b], m_mBranchInstallInfo := [(BUILDID_PUBLIC, ?d)]\<rparr>"
  have refused: "setLinkInfo_bii 0 p exe args ?d = ?d" for p by (simp add: setLinkInfo_bii_def STATUS_LINK_def)
  have b: "branch_int ?b = 0" "m_InstallInfo ?b = BUILDID_PUBLIC" "m_uiLatestBuild ?b = 0"
    by (simp_all add: branch_int_def BranchInfo_new_def BranchFromInt_def)
  have l: "setLinkInfo_item env exe args ((ItemInfo_new d par)\<lparr>m_szName_it := name\<rparr>)
      = bind_res (setInstalledMcf env (BranchFromInt 0 False) 0 ?i)
          (\<lambda>(i5, _). Inr (i5\<lparr>m_iStatus := STATUS_LINK OR STATUS_NONDOWNLOADABLE OR STATUS_READY
                          OR STATUS_ONCOMPUTER OR STATUS_INSTALLED\<rparr>))"
    using assms refused
    by (simp add: setLinkInfo_item_def ItemInfo_new_def ensure_install_def install_at_def Let_def push_branch_def
        change_install_def change_branch_def)
  have n: "m_NextBuild ?d = 0" by (simp add: BranchInstallInfo_new_def)
  have k: "branch_index (MCFBranch.m_uiBranch (BranchFromInt 0 False)) ?i = Some 0"
    using b(1) by (simp add: branch_index_def BranchFromInt_def)
  obtain i5 where s: "setInstalledMcf env (BranchFromInt 0 False) 0 ?i = Inr (i5, True)" "m_vBranchList i5 = [?b]"
      "install_at BUILDID_PUBLIC i5 = Inr (fst (setInstalledMcf_bii 0 ?d))" "m_INBranch i5 = BranchFromInt 0 False"
    using setInstalledMcf_only [of ?i ?b ?d env] b n by (auto simp: install_at_def)
  let ?i' = "i5\<lparr>m_iStatus := STATUS_LINK OR STATUS_NONDOWNLOADABLE OR STATUS_READY OR STATUS_ONCOMPUTER OR STATUS_INSTALLED\<rparr>"
  have c: "getBranchOrCurrent MCFBranch_default ?i' = Some BUILDID_PUBLIC"
    using s(2,4) b by (simp add: getBranchOrCurrent_def getBranchById_def branch_index_def MCFBranch_default_def BranchFromInt_def)
  have d: "install_at BUILDID_PUBLIC ?i' = Inr (fst (setInstalledMcf_bii 0 ?d))" using s(3) by (simp add: install_at_def)
  have "getActiveExe (fst (setInstalledMcf_bii 0 ?d)) = None" "m_szPath_i (fst (setInstalledMcf_bii 0 ?d)) = []"
    by (simp_all add: setInstalledMcf_bii_def getActiveExe_def best_rank_def BranchInstallInfo_new_def)
  then show ?thesis
    using l s(1) c d by (simp add: getActiveExe_item_def getPath_item_def with_install_def isInstalled_item_def
        HasAnyFlags_def [symmetric] bit_or_iff)
qed

theorem new_link_without_program_witness:
  "\<exists>i'. setLinkInfo_item demo_core ''/bin/x'' [] ((ItemInfo_new \<lparr>m_uiItemId = 5, m_uiType = TYPE_LINK\<rparr> DesuraId_none)
       \<lparr>m_szName_it := ''x''\<rparr>) = Inr i' \<and> isInstalled_item i' \<and> getActiveExe_item MCFBranch_default i' = Inr None"
  using new_link_without_program [of "\<lparr>m_uiItemId = 5, m_uiType = TYPE_LINK\<rparr>" demo_core "''/bin/x''" "[]" "''x''" DesuraId_none]
  by simp blast

end
