(* ===== verification/Item_Handle.thy ===== *)
theory Item_Handle
  imports Item_Load Util_File
begin

text \<open>
  The handle of an item: \<^verbatim>\<open>src/src/shared/usercore/code/ItemHandle.cpp\<close>, without launching, and the thread that runs its
  tasks, \<^verbatim>\<open>ItemThread.cpp\<close>. The handle holds the item, the stage, the thread with its queue of tasks and a lock; it sees
  the other items and their locks through the item manager. What it tells helpers, listeners and the task that runs is a
  log of events. A task is the constructor call that made it.
\<close>

unbundle bit_operations_syntax

section \<open>State\<close>

datatype item_stage =
    STAGE_NONE | STAGE_CLOSE | STAGE_DOWNLOAD | STAGE_GATHERINFO | STAGE_INSTALL | STAGE_INSTALL_CHECK
  | STAGE_INSTALL_COMPLEX | STAGE_UNINSTALL | STAGE_UNINSTALL_BRANCH | STAGE_UNINSTALL_COMPLEX | STAGE_UNINSTALL_PATCH
  | STAGE_UNINSTALL_UPDATE | STAGE_VERIFY | STAGE_LAUNCH | STAGE_DOWNLOADTOOL | STAGE_INSTALLTOOL | STAGE_VALIDATE
  | STAGE_WAIT | STAGE_COMBO_DL_IN

definition GI_FLAG_NONE :: u32 where "GI_FLAG_NONE = 0"
definition GI_FLAG_EXISTING :: u32 where "GI_FLAG_EXISTING = push_bit 1 1"
definition GI_FLAG_UPDATE :: u32 where "GI_FLAG_UPDATE = push_bit 2 1"
definition GI_FLAG_TEST :: u32 where "GI_FLAG_TEST = push_bit 3 1"
definition GI_FLAG_LAUNCH :: u32 where "GI_FLAG_LAUNCH = push_bit 4 1"

lemmas gi_flags = GI_FLAG_NONE_def GI_FLAG_EXISTING_def GI_FLAG_UPDATE_def GI_FLAG_TEST_def GI_FLAG_LAUNCH_def

text \<open>What a task that removes a complex mod does when it is through.\<close>

datatype complex_action = CA_NONE | CA_INSTALL | CA_UNINSTALL_BRANCH | CA_UNINSTALL bool bool | CA_UIPATCH | CA_LAUNCH

datatype item_task =
    BlankTask item_stage
  | DownloadToolTask u32 string MCFBranch MCFBuild
  | DownloadToolLaunch bool u32
  | InstallToolTask bool
  | GatherInfoTask MCFBranch MCFBuild u32
  | ValidateTask MCFBranch MCFBuild
  | DownloadTask string
  | VerifyServiceTask MCFBranch MCFBuild bool bool bool
  | InstallCheckTask
  | LaunchTask
  | UIComplexModServiceTask MCFBranch MCFBuild complex_action bool
  | UIServiceTask bool bool
  | UIBranchServiceTask MCFBranch MCFBuild bool
  | UIUpdateServiceTask string MCFBuild
  | UIPatchServiceTask MCFBranch MCFBuild
  | ComplexLaunchServiceTask bool MCFBranch MCFBuild
  | InstallServiceTask string MCFBranch
  | TaskGroupTask nat

fun getTaskType :: "item_task \<Rightarrow> item_stage" where
  "getTaskType (BlankTask s) = s"
| "getTaskType (DownloadToolTask _ _ _ _) = STAGE_DOWNLOADTOOL"
| "getTaskType (DownloadToolLaunch _ _) = STAGE_DOWNLOADTOOL"
| "getTaskType (InstallToolTask _) = STAGE_INSTALLTOOL"
| "getTaskType (GatherInfoTask _ _ _) = STAGE_GATHERINFO"
| "getTaskType (ValidateTask _ _) = STAGE_VALIDATE"
| "getTaskType (DownloadTask _) = STAGE_DOWNLOAD"
| "getTaskType (VerifyServiceTask _ _ _ _ _) = STAGE_VERIFY"
| "getTaskType InstallCheckTask = STAGE_INSTALL_CHECK"
| "getTaskType LaunchTask = STAGE_LAUNCH"
| "getTaskType (UIComplexModServiceTask _ _ _ _) = STAGE_UNINSTALL_COMPLEX"
| "getTaskType (UIServiceTask _ _) = STAGE_UNINSTALL"
| "getTaskType (UIBranchServiceTask _ _ _) = STAGE_UNINSTALL_BRANCH"
| "getTaskType (UIUpdateServiceTask _ _) = STAGE_UNINSTALL_UPDATE"
| "getTaskType (UIPatchServiceTask _ _) = STAGE_UNINSTALL_PATCH"
| "getTaskType (ComplexLaunchServiceTask _ _ _) = STAGE_INSTALL_COMPLEX"
| "getTaskType (InstallServiceTask _ _) = STAGE_INSTALL"
| "getTaskType (TaskGroupTask _) = STAGE_WAIT"

record item_thread =
  m_bPause :: bool
  m_bStop :: bool
  m_vTaskList :: "item_task list"
  m_pCurrentTask :: "item_task option"
  m_bRunningTask :: bool
  m_bDeleteCurrentTask :: bool

record item_lock =
  m_bLock :: bool
  m_pLockObject :: "DesuraId option"

datatype handle_event =
    StageChanged item_stage | PauseChanged bool | ErrorRaised gc_error string | ThreadCreated | ThreadDeleted "item_task list"
  | TaskStopped item_task | TaskPaused item_task | TaskUnpaused item_task | TaskCanceled item_task
  | LaunchErrorShown gc_error | PreOrderPrompt | ParentNoRunPrompt DesuraId | EULAPrompt | UpdatePrompt | WinLaunchDialog
  | StopStagePrompt | RecentSet DesuraId | ToolsLinked "DesuraId list" string
  | ProcessLaunched string "(string \<times> string) list" | XDGLaunched string string

text \<open>
  \<open>manager_items\<close> and \<open>item_locks\<close> are the other items and the locks of all handles, by the id of the item; the object
  that holds a lock is a handle, named by its id. \<open>dying_threads\<close> are the threads the handle has let go of: they wait for the
  thread pool to delete them, and run on until it does. A deleted one stays in the list, stopped and empty.
\<close>

record item_handle =
  m_pItemInfo :: item_info
  m_bPauseOnError :: bool
  m_bStopped_h :: bool
  m_uiStage :: item_stage
  m_pThread :: "item_thread option"
  m_pGroup :: "nat option"
  manager_items :: "DesuraId \<Rightarrow> item_info option"
  item_locks :: "DesuraId \<Rightarrow> item_lock"
  dying_threads :: "item_thread list"
  handle_events :: "handle_event list"

definition ItemThread_new :: item_thread where
  "ItemThread_new = \<lparr>m_bPause = False, m_bStop = False, m_vTaskList = [], m_pCurrentTask = None,
     m_bRunningTask = False, m_bDeleteCurrentTask = False\<rparr>"

definition lock_free :: item_lock where
  "lock_free = \<lparr>m_bLock = False, m_pLockObject = None\<rparr>"

definition ItemHandle_new :: "item_info \<Rightarrow> (DesuraId \<Rightarrow> item_info option) \<Rightarrow> (DesuraId \<Rightarrow> item_lock) \<Rightarrow> item_handle" where
  "ItemHandle_new i others locks =
     \<lparr>m_pItemInfo = i, m_bPauseOnError = False, m_bStopped_h = False, m_uiStage = STAGE_NONE, m_pThread = None,
      m_pGroup = None, manager_items = others, item_locks = locks(m_iId i := lock_free), dying_threads = [], handle_events = []\<rparr>"

definition say :: "handle_event \<Rightarrow> item_handle \<Rightarrow> item_handle" where
  "say e h = h\<lparr>handle_events := handle_events h @ [e]\<rparr>"

definition say_if :: "bool \<Rightarrow> handle_event \<Rightarrow> item_handle \<Rightarrow> item_handle" where
  "say_if c e h = (if c then say e h else h)"

definition on_item :: "(item_info \<Rightarrow> item_info) \<Rightarrow> item_handle \<Rightarrow> item_handle" where
  "on_item f h = h\<lparr>m_pItemInfo := f (m_pItemInfo h)\<rparr>"

definition own_id :: "item_handle \<Rightarrow> DesuraId" where
  "own_id h = m_iId (m_pItemInfo h)"

definition getStatus_h :: "item_handle \<Rightarrow> u32" where
  "getStatus_h h = m_iStatus (m_pItemInfo h)"

text \<open>\<open>findItemInfo\<close> of the item manager, which knows this item too.\<close>

definition findItemInfo :: "DesuraId \<Rightarrow> item_handle \<Rightarrow> item_info option" where
  "findItemInfo i h = (if i = own_id h then Some (m_pItemInfo h) else manager_items h i)"

definition parent_info :: "item_handle \<Rightarrow> item_info option" where
  "parent_info h = findItemInfo (m_iParentId (m_pItemInfo h)) h"

section \<open>The thread\<close>

definition isPaused_thread :: "item_thread \<Rightarrow> bool" where
  "isPaused_thread t \<longleftrightarrow> \<not> m_bStop t \<and> m_bPause t"

definition hasTaskToRun :: "item_thread \<Rightarrow> bool" where
  "hasTaskToRun t \<longleftrightarrow> m_bRunningTask t \<or> m_vTaskList t \<noteq> []"

text \<open>An operation of the thread that also calls the task that runs, if any.\<close>

definition call_task :: "(item_task \<Rightarrow> handle_event) \<Rightarrow> item_thread \<Rightarrow> handle_event list" where
  "call_task e t = (case m_pCurrentTask t of None \<Rightarrow> [] | Some k \<Rightarrow> [e k])"

definition on_thread :: "(item_thread \<Rightarrow> item_thread \<times> handle_event list) \<Rightarrow> item_handle \<Rightarrow> item_handle" where
  "on_thread f h =
     (case m_pThread h of None \<Rightarrow> h
      | Some t \<Rightarrow> (case f t of (t', es) \<Rightarrow> h\<lparr>m_pThread := Some t', handle_events := handle_events h @ es\<rparr>))"

definition queueTask :: "item_task \<Rightarrow> item_thread \<Rightarrow> item_thread \<times> handle_event list" where
  "queueTask k t = (if m_bStop t then t else t\<lparr>m_vTaskList := m_vTaskList t @ [k]\<rparr>, [])"

definition purge_thread :: "item_thread \<Rightarrow> item_thread \<times> handle_event list" where
  "purge_thread t = (t\<lparr>m_vTaskList := [], m_bDeleteCurrentTask := True\<rparr>, call_task TaskStopped t)"

definition pause_thread :: "item_thread \<Rightarrow> item_thread \<times> handle_event list" where
  "pause_thread t = (if m_bPause t then (t, []) else (t\<lparr>m_bPause := True\<rparr>, call_task TaskPaused t))"

definition unpause_thread :: "item_thread \<Rightarrow> item_thread \<times> handle_event list" where
  "unpause_thread t = (if \<not> m_bPause t then (t, []) else (t\<lparr>m_bPause := False\<rparr>, call_task TaskUnpaused t))"

definition cancelCurrentTask :: "item_thread \<Rightarrow> item_thread \<times> handle_event list" where
  "cancelCurrentTask t = (t, call_task TaskCanceled t)"

definition has_work :: "item_handle \<Rightarrow> bool" where
  "has_work h = (case m_pThread h of None \<Rightarrow> False | Some t \<Rightarrow> hasTaskToRun t)"

section \<open>Locks\<close>

definition getLock :: "DesuraId option \<Rightarrow> DesuraId \<Rightarrow> item_handle \<Rightarrow> item_handle \<times> bool" where
  "getLock obj who h =
     (if obj = None then (h, False)
      else if m_bLock (item_locks h who) then (h, m_pLockObject (item_locks h who) = obj)
      else (h\<lparr>item_locks := (item_locks h)(who := \<lparr>m_bLock = True, m_pLockObject = obj\<rparr>)\<rparr>, True))"

definition isLocked :: "DesuraId \<Rightarrow> item_handle \<Rightarrow> bool" where
  "isLocked who h \<longleftrightarrow> m_bLock (item_locks h who)"

definition hasLock :: "DesuraId option \<Rightarrow> DesuraId \<Rightarrow> item_handle \<Rightarrow> bool" where
  "hasLock obj who h \<longleftrightarrow> (if m_bLock (item_locks h who) then m_pLockObject (item_locks h who) = obj else False)"

definition releaseLock :: "DesuraId option \<Rightarrow> DesuraId \<Rightarrow> item_handle \<Rightarrow> item_handle" where
  "releaseLock obj who h =
     (if m_pLockObject (item_locks h who) \<noteq> obj then h
      else h\<lparr>item_locks := (item_locks h)(who := lock_free)\<rparr>)"

section \<open>Stages\<close>

definition isInStage :: "item_handle \<Rightarrow> bool" where
  "isInStage h \<longleftrightarrow> m_uiStage h \<noteq> STAGE_NONE \<and> m_uiStage h \<noteq> STAGE_CLOSE \<and> m_uiStage h \<noteq> STAGE_LAUNCH"

definition shouldPauseOnError :: "item_handle \<Rightarrow> bool" where
  "shouldPauseOnError h \<longleftrightarrow> m_bPauseOnError h"

definition setPauseOnError :: "bool \<Rightarrow> item_handle \<Rightarrow> item_handle" where
  "setPauseOnError p h = h\<lparr>m_bPauseOnError := p\<rparr>"

definition setPausable :: "core_env \<Rightarrow> bool \<Rightarrow> item_handle \<Rightarrow> item_handle" where
  "setPausable env state h = on_item (if state then addSFlag env STATUS_PAUSABLE else delSFlag env STATUS_PAUSABLE) h"

definition registerTask :: "item_task \<Rightarrow> item_handle \<Rightarrow> item_handle" where
  "registerTask k h =
     on_thread (queueTask k)
       (if m_pThread h = None then say ThreadCreated (h\<lparr>m_pThread := Some ItemThread_new, m_bStopped_h := False\<rparr>) else h)"

definition completeStage :: "bool \<Rightarrow> item_handle \<Rightarrow> item_handle" where
  "completeStage close h =
     registerTask (BlankTask STAGE_NONE) (if close then registerTask (BlankTask STAGE_CLOSE) h else h)"

definition stopThread :: "item_handle \<Rightarrow> item_handle" where
  "stopThread h =
     (case m_pThread h of None \<Rightarrow> h
      | Some t \<Rightarrow> h\<lparr>m_pThread := None, m_bStopped_h := True, dying_threads := dying_threads h @ [t]\<rparr>)"

definition setStage :: "core_env \<Rightarrow> item_stage \<Rightarrow> item_handle \<Rightarrow> item_handle" where
  "setStage env stage h =
     on_item (\<lambda>i. tell (InfoChange CHANGED_STATUS) (setPercent env 0 i))
       (say (StageChanged stage) (h\<lparr>m_uiStage := stage\<rparr>))"

definition goToStageVerify :: "MCFBranch \<Rightarrow> MCFBuild \<Rightarrow> bool \<Rightarrow> bool \<Rightarrow> bool \<Rightarrow> item_handle \<Rightarrow> item_handle" where
  "goToStageVerify branch build files tools hooks = registerTask (VerifyServiceTask branch build files tools hooks)"

definition startUpCheck :: "item_handle \<Rightarrow> bool" where
  "startUpCheck h \<longleftrightarrow>
     (if isInStage h then True
      else if HasAnyFlags (getStatus_h h) (STATUS_READY OR STATUS_PAUSED) then False
      else HasAnyFlags (getStatus_h h) (STATUS_DOWNLOADING OR STATUS_VERIFING OR STATUS_INSTALLING))"

definition verifyOveride :: "item_handle \<Rightarrow> item_handle" where
  "verifyOveride h = goToStageVerify MCFBranch_default 0 True False False (on_thread purge_thread h)"

definition setPaused :: "core_env \<Rightarrow> bool \<Rightarrow> bool \<Rightarrow> item_handle \<Rightarrow> item_handle" where
  "setPaused env state forced h =
     (let isPausable = (getStatus_h h AND STATUS_PAUSABLE \<noteq> 0);
          hasPauseFlag = (case m_pThread h of None \<Rightarrow> False | Some t \<Rightarrow> isPaused_thread t)
      in if (forced \<or> isPausable) \<and> hasPauseFlag \<noteq> state then
           say (PauseChanged state)
             (if state then
                if has_work h then on_thread pause_thread (on_item (addSFlag env STATUS_PAUSED) h) else h
              else
                let h' = on_item (delSFlag env STATUS_PAUSED) h
                in if has_work h' then on_thread unpause_thread h'
                   else if startUpCheck h' then verifyOveride h'
                   else h')
         else h)"

definition releaseComplexLock :: "item_handle \<Rightarrow> item_handle" where
  "releaseComplexLock h =
     releaseLock (Some (own_id h))
       (if HasAllFlags (getStatus_h h) STATUS_INSTALLCOMPLEX \<and> parent_info h \<noteq> None
        then m_iParentId (m_pItemInfo h) else own_id h) h"

definition onTaskStart :: "core_env \<Rightarrow> item_stage \<Rightarrow> item_handle \<Rightarrow> item_handle" where
  "onTaskStart env stage h =
     (if stage = STAGE_NONE then h\<lparr>m_uiStage := STAGE_NONE\<rparr> else setStage env stage h)"

definition onTaskComplete :: "core_env \<Rightarrow> item_stage \<Rightarrow> item_handle \<Rightarrow> item_handle" where
  "onTaskComplete env stage h =
     setPaused env False True (if stage = STAGE_NONE then stopThread (releaseComplexLock h) else h)"

definition resetStage :: "core_env \<Rightarrow> bool \<Rightarrow> item_handle \<Rightarrow> item_handle res" where
  "resetStage env close h =
     bind_res
       (if getStatus_h h AND STATUS_UPDATING \<noteq> 0 then
          Inr (on_item (addSFlag env STATUS_READY) (on_item (delSFlag env (STATUS_UPDATING OR STATUS_UPDATEAVAL)) h))
        else
          let h' = on_item (delSFlag env (STATUS_INSTALLED OR STATUS_DOWNLOADING OR STATUS_READY OR STATUS_VERIFING
                     OR STATUS_UPDATEAVAL)) h
          in bind_res (resetInstalledMcf env (m_pItemInfo h')) (\<lambda>i. Inr (on_item (\<lambda>_. i) h')))
       (\<lambda>h. Inr (completeStage close h))"

definition getComplexLock :: "item_handle \<Rightarrow> (item_handle \<times> bool) res" where
  "getComplexLock h =
     bind_res (getInstalledModId_item MCFBranch_default (m_pItemInfo h))
       (\<lambda>m. let isParentComplex = DesuraId_isOk m; isComplex = HasAllFlags (getStatus_h h) STATUS_INSTALLCOMPLEX
             in if \<not> isComplex \<and> \<not> isParentComplex then Inr (h, True)
                else
                  let parent = isComplex \<and> parent_info h \<noteq> None;
                      (h', got) = getLock (Some (own_id h)) (if parent then m_iParentId (m_pItemInfo h) else own_id h) h
                  in if got then Inr (h', True)
                     else Inr (completeStage True (say (ErrorRaised ERR_INVALID
                         (if parent
                          then ''Failed to get lock. Another task is using the parent game-> Please stop that task and try again.''
                          else ''Failed to get lock. Another task is using this item. Please stop that task and try again.'')) h'),
                       False))"

section \<open>Next stages\<close>

definition goToStageDownloadTools :: "u32 \<Rightarrow> string \<Rightarrow> MCFBranch \<Rightarrow> MCFBuild \<Rightarrow> item_handle \<Rightarrow> item_handle" where
  "goToStageDownloadTools ttid path branch build = registerTask (DownloadToolTask ttid path branch build)"

definition goToStageDownloadTools_launch :: "bool \<Rightarrow> u32 \<Rightarrow> item_handle \<Rightarrow> item_handle" where
  "goToStageDownloadTools_launch launch ttid = registerTask (DownloadToolLaunch launch ttid)"

definition goToStageInstallTools :: "bool \<Rightarrow> item_handle \<Rightarrow> item_handle" where
  "goToStageInstallTools launch = registerTask (InstallToolTask launch)"

definition goToStageGatherInfo :: "MCFBranch \<Rightarrow> MCFBuild \<Rightarrow> u32 \<Rightarrow> item_handle \<Rightarrow> item_handle" where
  "goToStageGatherInfo branch build flags = registerTask (GatherInfoTask branch build flags)"

definition goToStageDownload_path :: "string \<Rightarrow> item_handle \<Rightarrow> item_handle" where
  "goToStageDownload_path path = registerTask (DownloadTask path)"

definition goToStageInstallCheck :: "item_handle \<Rightarrow> item_handle" where
  "goToStageInstallCheck = registerTask InstallCheckTask"

definition goToStageLaunch :: "item_handle \<Rightarrow> item_handle" where
  "goToStageLaunch = registerTask LaunchTask"

definition goToStageUninstallBranch :: "MCFBranch \<Rightarrow> MCFBuild \<Rightarrow> bool \<Rightarrow> item_handle \<Rightarrow> item_handle" where
  "goToStageUninstallBranch branch build test = registerTask (UIBranchServiceTask branch build test)"

definition goToStageUninstallUpdate :: "string \<Rightarrow> MCFBuild \<Rightarrow> item_handle \<Rightarrow> item_handle" where
  "goToStageUninstallUpdate path lastBuild = registerTask (UIUpdateServiceTask path lastBuild)"

text \<open>The exceptions of the check before a download become error events.\<close>

definition preDownloadCheck :: "MCFBranch \<Rightarrow> bool \<Rightarrow> item_handle \<Rightarrow> (item_handle \<times> bool) res" where
  "preDownloadCheck branch test h =
     (case getBranchById (MCFBranch.m_uiBranch branch) (m_pItemInfo h) of
        None \<Rightarrow> Inr (say (ErrorRaised ERR_INVALID ''Branch does not exist.'') h, False)
      | Some b \<Rightarrow>
          if \<not> isAvaliable b \<and> \<not> test then
            Inr (say (ErrorRaised ERR_INVALID ''Branch is not on your account. Please purchase branch first.'') h, False)
          else if \<not> isDownloadable_branch b \<and> \<not> test then
            Inr (say (ErrorRaised ERR_INVALID ''Branch has no releases available for download.'') h, False)
          else
            (case parent_info h of
               None \<Rightarrow> Inr (h, True)
             | Some p \<Rightarrow>
                 bind_res (getCurrentBranch p)
                   (\<lambda>c. let isParentDemo = (case c of None \<Rightarrow> False | Some b \<Rightarrow> HasAllFlags (m_uiFlags_b b) (BF_DEMO OR BF_TEST))
                         in if isParentDemo then
                              Inr (say (ErrorRaised ERR_INVALID (''Parent game is a demo. Please install '' @ m_szName_it p
                                     @ '' on the full version only.'')) h, False)
                            else if \<not> isLaunchable p then
                              Inr (say (ErrorRaised ERR_INVALID (''Parent game is not installed. Please install '' @ m_szName_it p
                                     @ '' first.'')) h, False)
                            else Inr (h, True))))"

definition goToStageDownload :: "MCFBranch \<Rightarrow> MCFBuild \<Rightarrow> bool \<Rightarrow> item_handle \<Rightarrow> item_handle res" where
  "goToStageDownload branch build test h =
     (if shouldPauseOnError h then Inr (completeStage True (setPauseOnError False h))
      else bind_res (preDownloadCheck branch test h)
             (\<lambda>(h, good). Inr (if \<not> good then completeStage True h else registerTask (ValidateTask branch build) h)))"

definition goToStageUninstall :: "core_env \<Rightarrow> bool \<Rightarrow> bool \<Rightarrow> item_handle \<Rightarrow> item_handle res" where
  "goToStageUninstall env complete account h =
     (let h = on_thread purge_thread (setPaused env False True h); i = m_pItemInfo h
      in if HasAllFlags (m_iStatus i) STATUS_INSTALLCOMPLEX then
           bind_res (getInstalledBuild_item MCFBranch_default i)
             (\<lambda>build. Inr (registerTask (UIComplexModServiceTask (m_INBranch i) build (CA_UNINSTALL complete account) True) h))
         else Inr (registerTask (UIServiceTask complete account) h))"

definition goToStageUninstallPatch :: "MCFBranch \<Rightarrow> MCFBuild \<Rightarrow> item_handle \<Rightarrow> item_handle res" where
  "goToStageUninstallPatch branch build h =
     bind_res (getInstalledModId_item MCFBranch_default (m_pItemInfo h))
       (\<lambda>m. let isParentComplex = DesuraId_isOk m; isComplex = HasAllFlags (getStatus_h h) STATUS_INSTALLCOMPLEX
             in if isParentComplex \<or> isComplex then
                  bind_res (getComplexLock h)
                    (\<lambda>(h, got).
                       if \<not> got then Inr h
                       else
                         (case (if isParentComplex then Some (m_pItemInfo h) else parent_info h) of
                            None \<Rightarrow> Inl UNDEFINED
                          | Some p \<Rightarrow>
                              bind_res (getInstalledModId_item MCFBranch_default p)
                                (\<lambda>m. if DesuraId_isOk m
                                      then Inr (registerTask (UIComplexModServiceTask branch build
                                             (if isParentComplex then CA_UIPATCH else CA_INSTALL) False) h)
                                      else Inr (registerTask (UIPatchServiceTask branch build) h))))
                else Inr (registerTask (UIPatchServiceTask branch build) h))"

definition goToStageUninstallComplexBranch :: "MCFBranch \<Rightarrow> MCFBuild \<Rightarrow> bool \<Rightarrow> item_handle \<Rightarrow> item_handle res" where
  "goToStageUninstallComplexBranch branch build launch h =
     bind_res (getComplexLock h)
       (\<lambda>(h, got).
          if \<not> got then Inr h
          else bind_res (getInstalledModId_item MCFBranch_default (m_pItemInfo h))
            (\<lambda>m. Inr (registerTask (UIComplexModServiceTask branch build
                 (if DesuraId_isOk m then
                    if launch \<and> HasAllFlags (getStatus_h h) STATUS_LINK then CA_LAUNCH else CA_UNINSTALL_BRANCH
                  else CA_INSTALL) False) h)))"

text \<open>A failed assertion does nothing in a release build.\<close>

definition goToStageInstallComplex :: "core_env \<Rightarrow> MCFBranch \<Rightarrow> MCFBuild \<Rightarrow> bool \<Rightarrow> item_handle \<Rightarrow> item_handle res" where
  "goToStageInstallComplex env branch build launch h =
     bind_res (getComplexLock h)
       (\<lambda>(h, got).
          Inr (if \<not> got then on_item (addSFlag env (STATUS_PAUSED OR STATUS_INSTALLING)) h
               else if isComplex (m_pItemInfo h) then registerTask (ComplexLaunchServiceTask launch branch build) h
               else h))"

definition goToStageInstall :: "string \<Rightarrow> MCFBranch \<Rightarrow> item_handle \<Rightarrow> item_handle" where
  "goToStageInstall path branch h =
     (if \<not> isComplex (m_pItemInfo h) then registerTask (InstallServiceTask path branch) h else h)"

section \<open>What the user asks for\<close>

definition verify_item :: "bool \<Rightarrow> bool \<Rightarrow> bool \<Rightarrow> item_handle \<Rightarrow> item_handle \<times> bool" where
  "verify_item files tools hooks h =
     (if isInStage h then (h, True) else (goToStageVerify MCFBranch_default 0 files tools hooks h, True))"

definition isCurrentlyInstalledGameOrMod :: "item_handle \<Rightarrow> bool res" where
  "isCurrentlyInstalledGameOrMod h =
     (let i = m_pItemInfo h
      in if \<not> isComplex i then Inr True
         else if DesuraId_isOk (m_iParentId i) then
           (case parent_info h of
              None \<Rightarrow> Inr False
            | Some p \<Rightarrow> bind_res (getInstalledModId_item MCFBranch_default p) (\<lambda>m. Inr (DesuraId_eq m (m_iId i))))
         else bind_res (getInstalledModId_item MCFBranch_default i) (\<lambda>m. Inr (\<not> DesuraId_isOk m)))"

definition checkPaused :: "core_env \<Rightarrow> item_handle \<Rightarrow> item_handle \<times> bool" where
  "checkPaused env h =
     (if HasAnyFlags (getStatus_h h) STATUS_PAUSED
      then let h' = setPaused env False False h in (h', has_work h')
      else (h, False))"

text \<open>The flags an install runs with: an item without authorisation keeps the test flag at most.\<close>

definition install_flags :: "u32 \<Rightarrow> item_handle \<Rightarrow> u32" where
  "install_flags flags h =
     (if \<not> HasAnyFlags flags GI_FLAG_TEST \<and> HasAnyFlags (getStatus_h h) STATUS_UNAUTHED then flags AND GI_FLAG_TEST
      else flags)"

definition installPrivate :: "core_env \<Rightarrow> MCFBranch \<Rightarrow> MCFBuild \<Rightarrow> u32 \<Rightarrow> item_handle \<Rightarrow> (item_handle \<times> bool) res" where
  "installPrivate env branch build flags h =
     (let (h, busy) = checkPaused env h
      in if busy then Inr (h, True)
         else
           let flags = install_flags flags h; i = m_pItemInfo h; iBranch = m_INBranch i;
               bInfo = getBranchById (MCFBranch.m_uiBranch branch) i
           in bind_res (Item_Info.isParentToComplex i)
                (\<lambda>isParentComplex. bind_res (isCurrentlyInstalledGameOrMod h)
                   (\<lambda>current.
                      let needBranchSwitch = (MCFBranch.m_uiBranch iBranch \<noteq> 0
                              \<and> MCFBranch.m_uiBranch iBranch \<noteq> MCFBranch.m_uiBranch branch \<or> isComplex i \<and> \<not> current);
                          isValidBranch = (case bInfo of None \<Rightarrow> False
                              | Some b \<Rightarrow> HasAnyFlags (m_uiFlags_b b) (BF_DEMO OR BF_FREE OR BF_ONACCOUNT OR BF_TEST))
                      in if isValidBranch \<and> isLaunchable i \<and> needBranchSwitch then
                           bind_res (preDownloadCheck branch (HasAnyFlags flags GI_FLAG_TEST) h)
                             (\<lambda>(h, good).
                                if \<not> good then Inr (h, False)
                                else if isComplex i \<or> isParentComplex then
                                  bind_res (goToStageUninstallComplexBranch branch build (HasAnyFlags flags GI_FLAG_LAUNCH) h)
                                    (\<lambda>h. Inr (h, True))
                                else Inr (goToStageUninstallBranch branch build (HasAnyFlags flags GI_FLAG_TEST) h, True))
                         else Inr (goToStageGatherInfo branch build flags h, True))))"

definition install_build :: "core_env \<Rightarrow> MCFBranch \<Rightarrow> MCFBuild \<Rightarrow> u32 \<Rightarrow> item_handle \<Rightarrow> (item_handle \<times> bool) res" where
  "install_build env branch build flags h =
     (if isInStage h then Inr (h, True) else installPrivate env branch build flags h)"

definition install_test :: "core_env \<Rightarrow> MCFBranch \<Rightarrow> MCFBuild \<Rightarrow> bool \<Rightarrow> item_handle \<Rightarrow> (item_handle \<times> bool) res" where
  "install_test env branch build test h = install_build env branch build (if test then GI_FLAG_TEST else GI_FLAG_NONE) h"

definition switchBranch :: "core_env \<Rightarrow> MCFBranch \<Rightarrow> item_handle \<Rightarrow> (item_handle \<times> bool) res" where
  "switchBranch env branch h = install_test env branch 0 False h"

definition installCheck :: "item_handle \<Rightarrow> item_handle \<times> bool" where
  "installCheck h =
     (if isInStage h then (h, True)
      else if \<not> HasAllFlags (getStatus_h h) STATUS_INSTALLED then (goToStageInstallCheck h, True)
      else (h, False))"

definition update_item :: "core_env \<Rightarrow> item_handle \<Rightarrow> (item_handle \<times> bool) res" where
  "update_item env h =
     (if isInStage h then Inr (h, True)
      else bind_res (getCurrentBranch (m_pItemInfo h))
        (\<lambda>c. case c of
             None \<Rightarrow> Inr (say (ErrorRaised ERR_NOUPDATE ''This item has no installed branches.'') h, False)
           | Some b \<Rightarrow>
               if HasAllFlags (getStatus_h h) (STATUS_READY OR STATUS_INSTALLED OR STATUS_UPDATEAVAL) then
                 bind_res (getNextUpdateBuild_item MCFBranch_default (m_pItemInfo h))
                   (\<lambda>build. install_build env (m_uiBranchId b) build GI_FLAG_UPDATE h)
               else Inr (say (ErrorRaised ERR_NOUPDATE ''There is no update available for this item.'') h, False)))"

definition cleanComplexMods :: "item_handle \<Rightarrow> (item_handle \<times> bool) res" where
  "cleanComplexMods h =
     bind_res (getInstalledModId_item MCFBranch_default (m_pItemInfo h))
       (\<lambda>m. if \<not> DesuraId_isOk m then Inr (h, False)
             else
               (case findItemInfo m h of
                  None \<Rightarrow> Inr (h, False)
                | Some child \<Rightarrow>
                    if HasAllFlags (m_iStatus child) STATUS_INSTALLCOMPLEX then
                      bind_res (getComplexLock h)
                        (\<lambda>(h, got).
                           if \<not> got then Inr (h, False)
                           else bind_res (getInstalledBuild_item MCFBranch_default (m_pItemInfo h))
                             (\<lambda>build. Inr (registerTask (UIComplexModServiceTask (m_INBranch (m_pItemInfo h)) build CA_NONE True) h, True)))
                    else Inr (h, False)))"

text \<open>\<open>prompt\<close> is the helper, when there is one, and what it answers to the question whether to stop the stage.\<close>

definition uninstall_item :: "core_env \<Rightarrow> bool option \<Rightarrow> bool \<Rightarrow> bool \<Rightarrow> item_handle \<Rightarrow> (item_handle \<times> bool) res" where
  "uninstall_item env prompt complete account h =
     (if m_uiStage h = STAGE_UNINSTALL then Inr (h, True)
      else
        let h' = say_if (isInStage h \<and> prompt \<noteq> None) StopStagePrompt h
        in if isInStage h \<and> prompt = Some False then Inr (h', False)
           else bind_res (goToStageUninstall env complete account h') (\<lambda>h. Inr (h, True)))"

definition cancelCurrentStage :: "core_env \<Rightarrow> item_handle \<Rightarrow> item_handle" where
  "cancelCurrentStage env h =
     (if \<not> isInStage h then h
      else if m_uiStage h = STAGE_NONE \<or> m_uiStage h = STAGE_CLOSE then h
      else on_thread cancelCurrentTask (setPaused env False False h))"

text \<open>A task group is a number; force drops what the thread has to do.\<close>

definition setTaskGroup_handle :: "core_env \<Rightarrow> nat option \<Rightarrow> bool \<Rightarrow> item_handle \<Rightarrow> item_handle \<times> bool" where
  "setTaskGroup_handle env grp force h =
     (if grp \<noteq> None \<and> isInStage h \<and> \<not> force then (h, False)
      else
        let h1 = (if force then on_thread purge_thread (setPaused env False True h) else h);
            h2 = h1\<lparr>m_pGroup := grp\<rparr>
        in (case grp of
              Some g \<Rightarrow> (registerTask (TaskGroupTask g) h2, True)
            | None \<Rightarrow> (if m_uiStage h2 = STAGE_WAIT then cancelCurrentStage env h2 else h2, True)))"

section \<open>Running the tasks\<close>

text \<open>
  \<open>performTask\<close> takes the first task of the queue unless the thread is paused or stopped, announces it, runs it and
  announces its end; at the end the thread may be one the handle has let go of. \<open>body\<close> is what a task of the other files
  does, with the exceptions caught.
\<close>

definition take_from :: "item_thread \<Rightarrow> (item_thread \<times> item_task) option" where
  "take_from t =
     (if m_bStop t \<or> isPaused_thread t then None
      else (case m_vTaskList t of [] \<Rightarrow> None
            | k # ks \<Rightarrow>
                Some (t\<lparr>m_vTaskList := ks, m_bDeleteCurrentTask := False, m_pCurrentTask := Some k, m_bRunningTask := True\<rparr>, k)))"

definition task_over :: "item_thread \<Rightarrow> item_thread" where
  "task_over t = t\<lparr>m_bRunningTask := False, m_pCurrentTask := None, m_bDeleteCurrentTask := False\<rparr>"

definition start_task :: "core_env \<Rightarrow> item_handle \<Rightarrow> (item_handle \<times> item_task) option" where
  "start_task env h =
     (case m_pThread h of None \<Rightarrow> None
      | Some t \<Rightarrow> map_option (\<lambda>(t, k). (onTaskStart env (getTaskType k) (h\<lparr>m_pThread := Some t\<rparr>), k)) (take_from t))"

definition end_task :: "core_env \<Rightarrow> item_stage \<Rightarrow> item_handle \<Rightarrow> item_handle" where
  "end_task env stage h =
     (let h' = onTaskComplete env stage h
      in if stage = STAGE_NONE \<and> m_pThread h \<noteq> None
         then h'\<lparr>dying_threads := butlast (dying_threads h') @ [task_over (last (dying_threads h'))]\<rparr>
         else on_thread (\<lambda>t. (task_over t, [])) h')"

text \<open>A thread the handle has let go of still tells it of its tasks.\<close>

definition start_dying :: "core_env \<Rightarrow> nat \<Rightarrow> item_handle \<Rightarrow> (item_handle \<times> item_task) option" where
  "start_dying env j h =
     map_option (\<lambda>(t, k). (onTaskStart env (getTaskType k) (h\<lparr>dying_threads := (dying_threads h)[j := t]\<rparr>), k))
       (take_from (dying_threads h ! j))"

definition end_dying :: "core_env \<Rightarrow> nat \<Rightarrow> item_stage \<Rightarrow> item_handle \<Rightarrow> item_handle" where
  "end_dying env j stage h =
     (let h' = onTaskComplete env stage h
      in h'\<lparr>dying_threads := (dying_threads h')[j := task_over (dying_threads h' ! j)]\<rparr>)"

text \<open>
  The thread pool deletes a thread: what is in its queue is dropped, the task that runs is told to stop and waited for.
\<close>

definition delete_thread :: "item_thread \<Rightarrow> item_thread \<times> handle_event list" where
  "delete_thread t =
     (case purge_thread t of (t1, e1) \<Rightarrow>
        if m_bStop t1 then (t1, e1)
        else (case unpause_thread t1 of (t2, e2) \<Rightarrow> (t2\<lparr>m_bStop := True\<rparr>, e1 @ e2 @ call_task TaskStopped t2)))"

definition delete_dying :: "nat \<Rightarrow> item_handle \<Rightarrow> item_handle" where
  "delete_dying j h =
     (case delete_thread (dying_threads h ! j) of (t, es) \<Rightarrow>
        say (ThreadDeleted (m_vTaskList (dying_threads h ! j)))
          (h\<lparr>dying_threads := (dying_threads h)[j := t], handle_events := handle_events h @ es\<rparr>))"

fun run_body :: "(item_task \<Rightarrow> item_handle \<Rightarrow> item_handle res) \<Rightarrow> item_task \<Rightarrow> item_handle \<Rightarrow> item_handle res" where
  "run_body body (BlankTask s) h = Inr h"
| "run_body body LaunchTask h = Inr (completeStage True h)"
| "run_body body k h = body k h"

definition performTask :: "core_env \<Rightarrow> (item_task \<Rightarrow> item_handle \<Rightarrow> item_handle res) \<Rightarrow> item_handle \<Rightarrow> item_handle res" where
  "performTask env body h =
     (case start_task env h of None \<Rightarrow> Inr h
      | Some (h, k) \<Rightarrow> bind_res (run_body body k h) (\<lambda>h. Inr (end_task env (getTaskType k) h)))"

primrec run_tasks :: "nat \<Rightarrow> core_env \<Rightarrow> (item_task \<Rightarrow> item_handle \<Rightarrow> item_handle res) \<Rightarrow> item_handle \<Rightarrow> item_handle res" where
  "run_tasks 0 env body h = Inr h"
| "run_tasks (Suc n) env body h = bind_res (performTask env body h) (run_tasks n env body)"

section \<open>What every operation keeps\<close>

fun is_start :: "handle_event \<Rightarrow> bool" where
  "is_start (ProcessLaunched _ _) = True"
| "is_start (XDGLaunched _ _) = True"
| "is_start _ = False"

definition starts :: "item_handle \<Rightarrow> handle_event list" where
  "starts h = filter is_start (handle_events h)"

definition lock_ok :: "item_lock \<Rightarrow> bool" where
  "lock_ok l \<longleftrightarrow> (m_bLock l \<longleftrightarrow> m_pLockObject l \<noteq> None)"

definition stopped_ok :: "item_handle \<Rightarrow> bool" where
  "stopped_ok h \<longleftrightarrow> (m_bStopped_h h \<longrightarrow> m_pThread h = None)"

text \<open>The thread runs the same task; a new one is idle.\<close>

fun thread_kept :: "item_thread option \<Rightarrow> item_thread option \<Rightarrow> bool" where
  "thread_kept None None = True"
| "thread_kept None (Some t) = (m_pCurrentTask t = None \<and> \<not> m_bRunningTask t)"
| "thread_kept (Some t) None = False"
| "thread_kept (Some t) (Some t') = (m_pCurrentTask t' = m_pCurrentTask t \<and> m_bRunningTask t' = m_bRunningTask t)"

definition frame :: "item_handle \<Rightarrow> item_handle \<Rightarrow> bool" where
  "frame h h' \<longleftrightarrow> m_uiStage h' = m_uiStage h \<and> thread_kept (m_pThread h) (m_pThread h')
     \<and> (stopped_ok h \<longrightarrow> stopped_ok h')
     \<and> ((\<forall>i. lock_ok (item_locks h i)) \<longrightarrow> (\<forall>i. lock_ok (item_locks h' i)))"

definition keeps :: "item_handle \<Rightarrow> item_handle \<Rightarrow> bool" where
  "keeps h h' \<longleftrightarrow> frame h h' \<and> starts h' = starts h"

lemmas keeps_defs = keeps_def frame_def starts_def stopped_ok_def

lemma thread_kept_refl [simp]: "thread_kept t t"
  by (cases t) simp_all

lemma thread_kept_trans: "thread_kept a b \<Longrightarrow> thread_kept b c \<Longrightarrow> thread_kept a c"
  by (cases a; cases b; cases c) simp_all

lemma frame_refl [simp, intro]: "frame h h"
  by (simp add: frame_def)

lemma frame_trans [trans]: "frame a b \<Longrightarrow> frame b c \<Longrightarrow> frame a c"
  unfolding frame_def by (metis thread_kept_trans)

lemma keeps_refl [simp, intro]: "keeps h h"
  by (simp add: keeps_def)

lemma keeps_trans [trans]: "keeps a b \<Longrightarrow> keeps b c \<Longrightarrow> keeps a c"
  unfolding keeps_def by (metis frame_trans)

lemma keeps_frame: "keeps h h' \<Longrightarrow> frame h h'"
  by (simp add: keeps_def)

text \<open>An operation of the handle that leaves the stage and the task that runs alone.\<close>

locale quiet_op =
  fixes f :: "item_handle \<Rightarrow> item_handle"
  assumes keeps_op [simp]: "keeps h (f h)"
begin

lemma after: "keeps h0 h \<Longrightarrow> keeps h0 (f h)"
  by (rule keeps_trans [OF _ keeps_op])

lemma stage [simp]: "m_uiStage (f h) = m_uiStage h"
  using keeps_op [of h] by (simp add: keeps_def frame_def)

lemma starts [simp]: "starts (f h) = starts h"
  using keeps_op [of h] by (simp add: keeps_def frame_def)

lemma isInStage [simp]: "isInStage (f h) = isInStage h"
  by (simp add: isInStage_def)

end

lemma keeps_say: "\<not> is_start e \<Longrightarrow> keeps h (say e h)"
  by (simp add: keeps_defs say_def)

lemma keeps_say_if: "\<not> is_start e \<Longrightarrow> keeps h (say_if c e h)"
  by (simp add: say_if_def keeps_say)

lemma keeps_on_thread:
  assumes "\<And>t t' es. f t = (t', es) \<Longrightarrow> m_pCurrentTask t' = m_pCurrentTask t \<and> m_bRunningTask t' = m_bRunningTask t \<and> filter is_start es = []"
  shows "keeps h (on_thread f h)"
  using assms by (auto simp: keeps_defs on_thread_def split: option.split prod.split)

interpretation on_item: quiet_op "on_item f" for f
  by unfold_locales (simp add: keeps_defs on_item_def)

lemma call_task_start [simp]: "(\<And>k. \<not> is_start (e k)) \<Longrightarrow> filter is_start (call_task e t) = []"
  by (simp add: call_task_def split: option.split)

interpretation queue: quiet_op "on_thread (queueTask k)" for k
  by unfold_locales (rule keeps_on_thread, auto simp: queueTask_def split: if_splits)

interpretation purge: quiet_op "on_thread purge_thread"
  by unfold_locales (rule keeps_on_thread, auto simp: purge_thread_def)

interpretation pause: quiet_op "on_thread pause_thread"
  by unfold_locales (rule keeps_on_thread, auto simp: pause_thread_def split: if_splits)

interpretation unpause: quiet_op "on_thread unpause_thread"
  by unfold_locales (rule keeps_on_thread, auto simp: unpause_thread_def split: if_splits)

interpretation cancel: quiet_op "on_thread cancelCurrentTask"
  by unfold_locales (rule keeps_on_thread, auto simp: cancelCurrentTask_def)

lemma keeps_new_thread:
  "m_pThread h = None \<Longrightarrow> keeps h (say ThreadCreated (h\<lparr>m_pThread := Some ItemThread_new, m_bStopped_h := False\<rparr>))"
  by (simp add: keeps_defs say_def ItemThread_new_def)

interpretation register: quiet_op "registerTask k" for k
  by unfold_locales (auto simp: registerTask_def intro: queue.after keeps_new_thread)

lemmas stage_defs = goToStageVerify_def goToStageDownloadTools_def goToStageDownloadTools_launch_def goToStageInstallTools_def
  goToStageGatherInfo_def goToStageDownload_path_def goToStageInstallCheck_def goToStageLaunch_def goToStageUninstallBranch_def
  goToStageUninstallUpdate_def

interpretation complete: quiet_op "completeStage c" for c
  by unfold_locales (auto simp: completeStage_def intro: register.after)

interpretation stage_verify: quiet_op "goToStageVerify b v x y z" for b v x y z
  by unfold_locales (simp add: stage_defs)

interpretation overide: quiet_op verifyOveride
  by unfold_locales (simp add: verifyOveride_def stage_verify.after purge.after)

interpretation set_paused: quiet_op "setPaused env s f" for env s f
proof
  fix h
  show "keeps h (setPaused env s f h)"
    by (auto simp: setPaused_def Let_def intro!: keeps_trans [OF _ keeps_say] pause.after unpause.after overide.after on_item.keeps_op)
qed

lemma keeps_getLock: "getLock obj who h = (h', b) \<Longrightarrow> keeps h h'"
  by (auto simp: getLock_def keeps_defs lock_ok_def split: if_splits)

lemma keeps_releaseLock: "keeps h (releaseLock obj who h)"
  by (simp add: releaseLock_def keeps_defs lock_ok_def lock_free_def)

interpretation release: quiet_op releaseComplexLock
  by unfold_locales (simp add: releaseComplexLock_def keeps_releaseLock)

lemma keeps_getComplexLock: "getComplexLock h = Inr (h', b) \<Longrightarrow> keeps h h'"
  by (auto simp: getComplexLock_def bind_res_Inr Let_def split: if_splits prod.splits
      intro!: complete.after keeps_trans [OF _ keeps_say] dest: keeps_getLock)


text \<open>The operations of the handle, except starting and ending a task and stopping the thread.\<close>

lemmas keeps_steps = keeps_trans [OF _ keeps_say] keeps_trans [OF _ keeps_say_if] register.after complete.after on_item.after
  set_paused.after purge.after cancel.after stage_verify.after

lemma keeps_preDownloadCheck: "preDownloadCheck br test h = Inr (h', b) \<Longrightarrow> keeps h h'"
  by (auto simp: preDownloadCheck_def bind_res_Inr Let_def keeps_say split: option.splits if_splits)

lemma keeps_goToStageDownload: "goToStageDownload br bu test h = Inr h' \<Longrightarrow> keeps h h'"
  by (auto simp: goToStageDownload_def bind_res_Inr setPauseOnError_def split: if_splits dest!: keeps_preDownloadCheck
      intro!: complete.after register.after) (simp add: keeps_defs)

lemma keeps_uninstall_stage: "goToStageUninstall env c a h = Inr h' \<Longrightarrow> keeps h h'"
  by (auto simp: goToStageUninstall_def bind_res_Inr Let_def split: if_splits intro!: register.after purge.after)

lemma keeps_goToStageUninstallPatch: "goToStageUninstallPatch br bu h = Inr h' \<Longrightarrow> keeps h h'"
  by (auto simp: goToStageUninstallPatch_def bind_res_Inr Let_def split: if_splits option.splits dest!: keeps_getComplexLock
      intro!: register.after)

lemma keeps_goToStageUninstallComplexBranch: "goToStageUninstallComplexBranch br bu l h = Inr h' \<Longrightarrow> keeps h h'"
  by (auto simp: goToStageUninstallComplexBranch_def bind_res_Inr split: if_splits dest!: keeps_getComplexLock
      intro!: register.after)

lemma keeps_goToStageInstallComplex: "goToStageInstallComplex env br bu l h = Inr h' \<Longrightarrow> keeps h h'"
  by (auto simp: goToStageInstallComplex_def bind_res_Inr split: if_splits dest!: keeps_getComplexLock
      intro!: register.after on_item.after)

lemma keeps_resetStage: "resetStage env c h = Inr h' \<Longrightarrow> keeps h h'"
  by (auto simp: resetStage_def bind_res_Inr Let_def split: if_splits intro!: complete.after on_item.after)

lemma keeps_checkPaused: "keeps h (fst (checkPaused env h))"
  by (simp add: checkPaused_def Let_def)

lemma keeps_installPrivate: "installPrivate env br bu fl h = Inr (h', b) \<Longrightarrow> keeps h h'"
proof -
  obtain h1 busy where h1: "checkPaused env h = (h1, busy)" by (rule prod.exhaust)
  then have "keeps h h1" using keeps_checkPaused [of h env] by simp
  moreover have "installPrivate env br bu fl h = Inr (h', b) \<Longrightarrow> keeps h1 h'"
    by (auto simp: installPrivate_def h1 bind_res_Inr Let_def stage_defs goToStageUninstallBranch_def split: if_splits
        dest!: keeps_preDownloadCheck keeps_goToStageUninstallComplexBranch intro: keeps_trans register.after)
  ultimately show "installPrivate env br bu fl h = Inr (h', b) \<Longrightarrow> keeps h h'"
    by (blast intro: keeps_trans)
qed

lemma keeps_install_build: "install_build env br bu fl h = Inr (h', b) \<Longrightarrow> keeps h h'"
  by (auto simp: install_build_def split: if_splits dest: keeps_installPrivate)

lemma keeps_update: "update_item env h = Inr (h', b) \<Longrightarrow> keeps h h'"
  by (auto simp: update_item_def bind_res_Inr keeps_say split: if_splits option.splits dest: keeps_install_build)

lemma keeps_installCheck: "keeps h (fst (installCheck h))"
  by (simp add: installCheck_def stage_defs)

lemma keeps_verify_item: "keeps h (fst (verify_item f t k h))"
  by (simp add: verify_item_def)

lemma keeps_cleanComplexMods: "cleanComplexMods h = Inr (h', b) \<Longrightarrow> keeps h h'"
  by (auto simp: cleanComplexMods_def bind_res_Inr split: if_splits option.splits dest!: keeps_getComplexLock
      intro!: register.after)

lemma keeps_said: "keeps (say_if c e h) h' \<Longrightarrow> \<not> is_start e \<Longrightarrow> keeps h h'"
  by (rule keeps_trans [OF keeps_say_if])

lemma keeps_uninstall_item: "uninstall_item env p c a h = Inr (h', b) \<Longrightarrow> keeps h h'"
  by (auto simp: uninstall_item_def bind_res_Inr Let_def keeps_say_if split: if_splits dest!: keeps_uninstall_stage
      dest: keeps_said)

interpretation cancel_stage: quiet_op "cancelCurrentStage env" for env
  by unfold_locales (auto simp: cancelCurrentStage_def intro: cancel.after)

lemma keeps_setTaskGroup: "keeps h (fst (setTaskGroup_handle env g f h))"
proof -
  have g: "keeps h (h\<lparr>m_pGroup := x\<rparr>)" for h x by (simp add: keeps_defs)
  show ?thesis
    by (auto simp: setTaskGroup_handle_def Let_def split: option.split
        intro!: register.after cancel_stage.after keeps_trans [OF _ g] purge.after)
qed

section \<open>The invariant\<close>

text \<open>
  Without a thread the handle is in no stage; the task that runs has the stage of the handle; a stopped handle has no
  thread; a lock is taken when it has a holder.
\<close>

definition handle_inv :: "item_handle \<Rightarrow> bool" where
  "handle_inv h \<longleftrightarrow>
     (case m_pThread h of
        None \<Rightarrow> m_uiStage h = STAGE_NONE
      | Some t \<Rightarrow> (m_bRunningTask t \<longleftrightarrow> m_pCurrentTask t \<noteq> None)
          \<and> (\<forall>k. m_pCurrentTask t = Some k \<longrightarrow> m_uiStage h = getTaskType k))
     \<and> stopped_ok h \<and> (\<forall>i. lock_ok (item_locks h i))"

lemma frame_inv: "frame h h' \<Longrightarrow> handle_inv h \<Longrightarrow> handle_inv h'"
  by (cases "m_pThread h"; cases "m_pThread h'") (auto simp: frame_def handle_inv_def)

lemma keeps_inv: "keeps h h' \<Longrightarrow> handle_inv h \<Longrightarrow> handle_inv h'"
  by (auto simp: keeps_def intro: frame_inv)


lemma inv_new: "\<forall>i. lock_ok (locks i) \<Longrightarrow> handle_inv (ItemHandle_new i others locks)"
  by (simp add: handle_inv_def ItemHandle_new_def stopped_ok_def lock_ok_def lock_free_def)

lemma inv_start:
  assumes "handle_inv h" and "start_task env h = Some (h', k)"
  shows "handle_inv h' \<and> m_uiStage h' = getTaskType k \<and> (\<exists>t. m_pThread h' = Some t \<and> m_pCurrentTask t = Some k)"
  using assms
  by (auto simp: start_task_def take_from_def onTaskStart_def setStage_def on_item_def say_def handle_inv_def stopped_ok_def
     split: option.splits if_splits list.splits)

lemma stopThread_gone: "m_pThread (stopThread h) = None"
  by (simp add: stopThread_def say_def split: option.split)

lemma setPaused_gone: "m_pThread h = None \<Longrightarrow> setPaused env False f h = h"
  by (simp add: setPaused_def Let_def)

lemma on_thread_gone: "m_pThread h = None \<Longrightarrow> on_thread f h = h"
  by (simp add: on_thread_def)

lemma releaseComplexLock_thread [simp]:
  "m_pThread (releaseComplexLock h) = m_pThread h" "dying_threads (releaseComplexLock h) = dying_threads h"
  "m_uiStage (releaseComplexLock h) = m_uiStage h"
  by (simp_all add: releaseComplexLock_def releaseLock_def)

lemma end_none:
  "m_pThread h = Some t \<Longrightarrow>
   end_task env STAGE_NONE h = (stopThread (releaseComplexLock h))\<lparr>dying_threads := dying_threads h @ [task_over t]\<rparr>"
  by (simp add: end_task_def Let_def onTaskComplete_def setPaused_gone stopThread_gone) (simp add: stopThread_def)

lemma handle_inv_dying [simp]: "handle_inv (h\<lparr>dying_threads := ts\<rparr>) = handle_inv h"
  by (simp add: handle_inv_def stopped_ok_def split: option.split)

lemma inv_stop: "handle_inv h \<Longrightarrow> m_uiStage h = STAGE_NONE \<Longrightarrow> handle_inv (stopThread h)"
  by (simp add: handle_inv_def stopThread_def say_def stopped_ok_def split: option.split)

lemma inv_end:
  assumes "handle_inv h" and "m_pThread h = Some t" and "m_pCurrentTask t = Some k"
  shows "handle_inv (end_task env (getTaskType k) h)"
proof (cases "getTaskType k = STAGE_NONE")
  case True
  have "handle_inv (releaseComplexLock h)" using assms(1) by (rule keeps_inv [OF release.keeps_op])
  moreover have "m_uiStage h = STAGE_NONE" using assms True by (simp add: handle_inv_def)
  ultimately have "handle_inv (stopThread (releaseComplexLock h))" by (simp add: inv_stop)
  then show ?thesis by (simp add: True end_none [OF assms(2)] handle_inv_dying)
next
  case False
  then have "onTaskComplete env (getTaskType k) h = setPaused env False True h" by (simp add: onTaskComplete_def)
  moreover have "handle_inv (setPaused env False True h)" using assms(1) by (rule keeps_inv [OF set_paused.keeps_op])
  ultimately show ?thesis
    using False by (auto simp: end_task_def on_thread_def task_over_def handle_inv_def stopped_ok_def split: option.splits)
qed

section \<open>Finishing\<close>

text \<open>
  An idle stretch of the thread: nothing runs and it is neither paused nor stopped. The queue is what it will run.
\<close>

definition ready_thread :: "item_task list \<Rightarrow> item_thread" where
  "ready_thread ks = ItemThread_new\<lparr>m_vTaskList := ks\<rparr>"

definition task_queue :: "item_handle \<Rightarrow> item_task list" where
  "task_queue h = (case m_pThread h of None \<Rightarrow> [] | Some t \<Rightarrow> m_vTaskList t)"

definition complex_holder :: "item_handle \<Rightarrow> DesuraId" where
  "complex_holder h =
     (if HasAllFlags (getStatus_h h) STATUS_INSTALLCOMPLEX \<and> parent_info h \<noteq> None
      then m_iParentId (m_pItemInfo h) else own_id h)"

lemma releaseComplexLock_holder: "releaseComplexLock h = releaseLock (Some (own_id h)) (complex_holder h) h"
  by (simp add: releaseComplexLock_def complex_holder_def)

lemma released: "\<not> hasLock (Some x) who (releaseLock (Some x) who h)"
  by (simp add: hasLock_def releaseLock_def lock_free_def)

text \<open>The handle is at rest: no thread, no stage, and the lock it takes for complex installs is not its.\<close>

definition at_rest :: "item_handle \<Rightarrow> bool" where
  "at_rest h \<longleftrightarrow> m_pThread h = None \<and> m_uiStage h = STAGE_NONE \<and> m_bStopped_h h
     \<and> \<not> hasLock (Some (own_id h)) (complex_holder h) h"

text \<open>A thread with this queue that would take the first task next.\<close>

definition idle_with :: "item_task list \<Rightarrow> item_handle \<Rightarrow> bool" where
  "idle_with ks h \<longleftrightarrow> (\<exists>t. m_pThread h = Some t \<and> m_vTaskList t = ks \<and> \<not> m_bStop t \<and> \<not> m_bPause t)"

lemma complex_holder_cong:
  "m_pItemInfo h' = m_pItemInfo h \<Longrightarrow> manager_items h' = manager_items h \<Longrightarrow>
   complex_holder h' = complex_holder h \<and> own_id h' = own_id h"
  by (simp add: complex_holder_def own_id_def getStatus_h_def parent_info_def findItemInfo_def)

lemma stop_rests:
  assumes "m_pThread h \<noteq> None" and "m_uiStage h = STAGE_NONE"
  shows "at_rest (stopThread (releaseComplexLock h))"
proof -
  let ?r = "releaseComplexLock h"
  have r: "m_pItemInfo ?r = m_pItemInfo h" "manager_items ?r = manager_items h" "m_pThread ?r = m_pThread h"
      "m_uiStage ?r = m_uiStage h"
    by (simp_all add: releaseComplexLock_def releaseLock_def)
  have s: "m_pItemInfo (stopThread ?r) = m_pItemInfo h" "manager_items (stopThread ?r) = manager_items h"
      "item_locks (stopThread ?r) = item_locks ?r" "m_pThread (stopThread ?r) = None" "m_uiStage (stopThread ?r) = STAGE_NONE"
      "m_bStopped_h (stopThread ?r)"
    using assms by (auto simp: stopThread_def say_def r)
  have "\<not> hasLock (Some (own_id h)) (complex_holder h) ?r"
    by (simp add: releaseComplexLock_holder released)
  then have "\<not> hasLock (Some (own_id h)) (complex_holder h) (stopThread ?r)"
    by (simp add: hasLock_def s split: if_splits)
  then show ?thesis
    using complex_holder_cong [OF s(1,2)] by (simp add: at_rest_def s)
qed

lemma start_idle:
  assumes "idle_with (k # ks) h"
  obtains h' t where "start_task env h = Some (h', k)" "m_pThread h' = Some t" "m_vTaskList t = ks" "\<not> m_bStop t" "\<not> m_bPause t"
    "m_uiStage h' = getTaskType k"
proof -
  from assms obtain t where t: "m_pThread h = Some t" "m_vTaskList t = k # ks" "\<not> m_bStop t" "\<not> m_bPause t"
    by (auto simp: idle_with_def)
  let ?t = "t\<lparr>m_vTaskList := ks, m_bDeleteCurrentTask := False, m_pCurrentTask := Some k, m_bRunningTask := True\<rparr>"
  let ?h = "h\<lparr>m_pThread := Some ?t\<rparr>"
  have "start_task env h = Some (onTaskStart env (getTaskType k) ?h, k)"
    using t by (simp add: start_task_def take_from_def isPaused_thread_def)
  then show thesis
    by (rule that [where t = ?t]) (use t in \<open>simp_all add: onTaskStart_def setStage_def on_item_def say_def\<close>)
qed

lemma at_rest_dying [simp]: "at_rest (h\<lparr>dying_threads := ts\<rparr>) = at_rest h"
  using complex_holder_cong [of "h\<lparr>dying_threads := ts\<rparr>" h] by (simp add: at_rest_def hasLock_def)

lemma at_rest_say: "at_rest (say e h) = at_rest h" "at_rest (h\<lparr>dying_threads := ts, handle_events := es\<rparr>) = at_rest h"
  using complex_holder_cong [of "say e h" h] complex_holder_cong [of "h\<lparr>dying_threads := ts, handle_events := es\<rparr>" h]
  by (simp_all add: at_rest_def hasLock_def say_def)

lemma on_thread_dying: "dying_threads (on_thread f h) = dying_threads h"
  by (simp add: on_thread_def split: option.split prod.split)

lemma registerTask_dying: "dying_threads (registerTask k h) = dying_threads h"
  by (simp add: registerTask_def on_thread_dying say_def)

lemma setPaused_dying: "dying_threads (setPaused env s f h) = dying_threads h"
  by (simp add: setPaused_def Let_def on_thread_dying on_item_def say_def verifyOveride_def goToStageVerify_def registerTask_dying)

text \<open>The thread the handle lets go of keeps what is left in its queue.\<close>

lemma perform_none:
  assumes "idle_with (BlankTask STAGE_NONE # ks) h"
  shows "\<exists>h' t. performTask env body h = Inr h' \<and> at_rest h' \<and> dying_threads h' = dying_threads h @ [t]
    \<and> m_vTaskList t = ks \<and> \<not> m_bStop t \<and> \<not> m_bPause t"
proof -
  from assms obtain h1 t where h1: "start_task env h = Some (h1, BlankTask STAGE_NONE)" "m_pThread h1 = Some t"
      "m_vTaskList t = ks" "\<not> m_bStop t" "\<not> m_bPause t" "m_uiStage h1 = STAGE_NONE"
    by (rule start_idle) simp
  have d: "dying_threads h1 = dying_threads h"
    using h1(1) by (auto simp: start_task_def onTaskStart_def split: option.splits)
  have "performTask env body h = Inr ((stopThread (releaseComplexLock h1))\<lparr>dying_threads := dying_threads h @ [task_over t]\<rparr>)"
    by (simp add: performTask_def h1(1) end_none [OF h1(2)] d)
  moreover have "at_rest (stopThread (releaseComplexLock h1))"
    by (rule stop_rests) (simp_all add: h1)
  ultimately show ?thesis using h1(3-5) by (auto simp: task_over_def)
qed

text \<open>A task that ends unpauses the thread, so what it queued runs.\<close>

lemma end_idle:
  assumes "m_pThread h = Some t" and "m_vTaskList t = ks" and "\<not> m_bStop t" and "ks \<noteq> [] \<or> \<not> m_bPause t" and "stage \<noteq> STAGE_NONE"
  shows "idle_with ks (end_task env stage h)"
proof -
  have "\<exists>t'. m_pThread (setPaused env False True h) = Some t' \<and> m_vTaskList t' = ks \<and> \<not> m_bStop t' \<and> \<not> m_bPause t'"
    using assms(1-4)
    by (auto simp: setPaused_def Let_def isPaused_thread_def has_work_def hasTaskToRun_def on_item_def on_thread_def
        unpause_thread_def say_def)
  then show ?thesis
    using assms(5) by (auto simp: end_task_def onTaskComplete_def on_thread_def idle_with_def task_over_def)
qed

lemma perform_close:
  assumes "idle_with (BlankTask STAGE_CLOSE # ks) h"
  shows "\<exists>h'. performTask env body h = Inr h' \<and> idle_with ks h'"
proof -
  from assms obtain h1 t where h1: "start_task env h = Some (h1, BlankTask STAGE_CLOSE)" "m_pThread h1 = Some t"
      "m_vTaskList t = ks" "\<not> m_bStop t" "\<not> m_bPause t"
    by (rule start_idle)
  have "idle_with ks (end_task env STAGE_CLOSE h1)"
    by (rule end_idle [OF h1(2,3,4)]) (simp_all add: h1(5))
  then show ?thesis by (simp add: performTask_def h1(1))
qed

lemma run_at_rest: "m_pThread h = None \<Longrightarrow> run_tasks n env body h = Inr h"
  by (induction n) (simp_all add: performTask_def start_task_def)

lemma run_closing:
  assumes "idle_with ((if close then [BlankTask STAGE_CLOSE] else []) @ [BlankTask STAGE_NONE]) h" and "2 \<le> n"
  shows "\<exists>h'. run_tasks n env body h = Inr h' \<and> at_rest h'"
proof (cases close)
  case True
  with assms(1) obtain h1 where h1: "performTask env body h = Inr h1" "idle_with [BlankTask STAGE_NONE] h1"
    using perform_close by fastforce
  obtain h2 where h2: "performTask env body h1 = Inr h2" "at_rest h2"
    using perform_none [OF h1(2)] by blast
  have "n = Suc (Suc (n - 2))" using assms(2) by simp
  then show ?thesis using h1 h2 by (metis run_at_rest at_rest_def run_tasks.simps(2) bind_res_simps(2))
next
  case False
  with assms(1) obtain h2 where h2: "performTask env body h = Inr h2" "at_rest h2"
    using perform_none by fastforce
  have "n = Suc (n - 1)" using assms(2) by simp
  then show ?thesis using h2 by (metis run_at_rest at_rest_def run_tasks.simps(2) bind_res_simps(2))
qed

lemma completeStage_thread:
  assumes "m_pThread h = Some t" and "\<not> m_bStop t" and "m_vTaskList t = []"
  shows "\<exists>t'. m_pThread (completeStage close h) = Some t' \<and> \<not> m_bStop t' \<and>
     m_vTaskList t' = (if close then [BlankTask STAGE_CLOSE] else []) @ [BlankTask STAGE_NONE]"
  using assms by (simp add: completeStage_def registerTask_def on_thread_def queueTask_def)

text \<open>
  C15: A task that is alone in the queue and ends by completing its stage brings the handle to rest within three runs
  of the thread, also when the user paused in between: no stage, no thread, the lock of the item given back.
\<close>

theorem finishing_task_rests:
  assumes "idle_with [k] h" and "start_task env h = Some (h1, k)" and "getTaskType k \<noteq> STAGE_NONE"
    and "run_body body k h1 = Inr (completeStage close h2)"
    and "m_pThread h2 = Some t" and "m_vTaskList t = []" and "\<not> m_bStop t" and "3 \<le> n"
  shows "\<exists>h'. run_tasks n env body h = Inr h' \<and> at_rest h'"
proof -
  let ?ks = "(if close then [BlankTask STAGE_CLOSE] else []) @ [BlankTask STAGE_NONE]"
  obtain m where m: "n = Suc m" "2 \<le> m" using assms(8) by (cases n) auto
  have first: "performTask env body h = Inr (end_task env (getTaskType k) (completeStage close h2))"
    using assms(2,4) by (simp add: performTask_def)
  obtain t' where "m_pThread (completeStage close h2) = Some t'" "m_vTaskList t' = ?ks" "\<not> m_bStop t'"
    using completeStage_thread [OF assms(5,7,6)] by blast
  then have "idle_with ?ks (end_task env (getTaskType k) (completeStage close h2))"
    by (rule end_idle) (use assms(3) in simp_all)
  from run_closing [OF this m(2)] show ?thesis by (simp add: m(1) first)
qed

lemma start_take:
  assumes "j < length (dying_threads h)" and "m_vTaskList (dying_threads h ! j) = k # ks"
    and "\<not> m_bStop (dying_threads h ! j)" and "\<not> m_bPause (dying_threads h ! j)"
  shows "\<exists>h'. start_dying env j h = Some (h', k) \<and> m_pThread h' = m_pThread h \<and> m_uiStage h' = getTaskType k"
  using assms
  by (auto simp: start_dying_def take_from_def isPaused_thread_def onTaskStart_def setStage_def on_item_def say_def)


section \<open>The lock for complex mods\<close>

fun is_complex_task :: "item_task \<Rightarrow> bool" where
  "is_complex_task (UIComplexModServiceTask _ _ _ _) = True"
| "is_complex_task (ComplexLaunchServiceTask _ _ _) = True"
| "is_complex_task _ = False"

definition holds_lock :: "item_handle \<Rightarrow> bool" where
  "holds_lock h \<longleftrightarrow> hasLock (Some (own_id h)) (complex_holder h) h"

definition complex_tasks :: "item_handle \<Rightarrow> item_task set" where
  "complex_tasks h = {k \<in> set (task_queue h). is_complex_task k}"

lemma queue_register [simp]: "\<not> is_complex_task k \<Longrightarrow> complex_tasks (registerTask k h) = complex_tasks h"
  by (cases "m_pThread h") (auto simp: complex_tasks_def task_queue_def registerTask_def on_thread_def queueTask_def say_def
      ItemThread_new_def)

lemma queue_complete [simp]: "complex_tasks (completeStage c h) = complex_tasks h"
  by (simp add: completeStage_def)

lemma queue_say [simp]: "complex_tasks (say e h) = complex_tasks h"
  by (simp add: complex_tasks_def task_queue_def say_def)

lemma say_item [simp]: "m_pItemInfo (say e h) = m_pItemInfo h"
  by (simp add: say_def)

lemma queue_on_item [simp]: "complex_tasks (on_item f h) = complex_tasks h"
  by (simp add: complex_tasks_def task_queue_def on_item_def)

lemma queue_getLock: "getLock obj who h = (h', b) \<Longrightarrow> complex_tasks h' = complex_tasks h"
  by (auto simp: getLock_def complex_tasks_def task_queue_def split: if_splits)

lemma queue_preDownloadCheck: "preDownloadCheck br test h = Inr (h', b) \<Longrightarrow> complex_tasks h' = complex_tasks h"
  by (auto simp: preDownloadCheck_def bind_res_Inr Let_def split: option.splits if_splits)

lemma queue_setPaused: "complex_tasks (setPaused env s f h) \<subseteq> complex_tasks h"
  by (auto simp: setPaused_def Let_def on_thread_def pause_thread_def unpause_thread_def verifyOveride_def goToStageVerify_def
      complex_tasks_def task_queue_def on_item_def purge_thread_def say_def registerTask_def queueTask_def ItemThread_new_def
      split: option.splits if_splits)

lemma queue_checkPaused: "complex_tasks (fst (checkPaused env h)) \<subseteq> complex_tasks h"
  by (simp add: checkPaused_def Let_def queue_setPaused)

lemma registerTask_fields [simp]:
  "m_pItemInfo (registerTask k h) = m_pItemInfo h" "manager_items (registerTask k h) = manager_items h"
  "item_locks (registerTask k h) = item_locks h"
  by (auto simp: registerTask_def on_thread_def say_def split: option.split prod.split)

lemma holds_register [simp]: "holds_lock (registerTask k h) = holds_lock h"
  using complex_holder_cong [of "registerTask k h" h] by (simp add: holds_lock_def hasLock_def)

lemma getComplexLock_took:
  assumes "getComplexLock h = Inr (h', got)" and "getInstalledModId_item MCFBranch_default (m_pItemInfo h) = Inr m"
    and "DesuraId_isOk m \<or> HasAllFlags (getStatus_h h) STATUS_INSTALLCOMPLEX"
  shows "m_pItemInfo h' = m_pItemInfo h \<and> complex_tasks h' = complex_tasks h \<and> (got \<longrightarrow> holds_lock h')"
proof -
  let ?who = "complex_holder h"
  obtain h1 b where g: "getLock (Some (own_id h)) ?who h = (h1, b)" by (rule prod.exhaust)
  then have h1: "m_pItemInfo h1 = m_pItemInfo h" "manager_items h1 = manager_items h" "b \<longrightarrow> hasLock (Some (own_id h)) ?who h1"
    by (auto simp: getLock_def hasLock_def split: if_splits)
  have h': "h' = (if b then h1 else h') \<and> got = b \<and> (\<not> b \<longrightarrow> (\<exists>e. h' = completeStage True (say e h1)))"
    using assms(1,3) g
    by (auto simp: getComplexLock_def assms(2) complex_holder_def split: if_splits prod.splits)
  show ?thesis
  proof (cases b)
    case True
    with h1 h' show ?thesis
      using queue_getLock [OF g] complex_holder_cong [OF h1(1,2)] by (auto simp: holds_lock_def)
  next
    case False
    with h' obtain e where "h' = completeStage True (say e h1)" by blast
    then show ?thesis using queue_getLock [OF g] h1(1) h' False by (simp add: completeStage_def)
  qed
qed


lemma complex_task_kept: "complex_tasks (registerTask k h) \<subseteq> insert k (complex_tasks h)"
  by (cases "m_pThread h") (auto simp: complex_tasks_def task_queue_def registerTask_def on_thread_def queueTask_def say_def
      ItemThread_new_def)

text \<open>The operations that may queue a task for a complex mod, apart from uninstalling.\<close>

datatype complex_request =
    Install_request MCFBranch MCFBuild u32 | Complex_request MCFBranch MCFBuild bool | Clean_request
  | Patch_request MCFBranch MCFBuild

fun run_request :: "core_env \<Rightarrow> complex_request \<Rightarrow> item_handle \<Rightarrow> item_handle res" where
  "run_request env (Install_request br bu fl) h = bind_res (installPrivate env br bu fl h) (\<lambda>r. Inr (fst r))"
| "run_request env (Complex_request br bu l) h = goToStageInstallComplex env br bu l h"
| "run_request env Clean_request h = bind_res (cleanComplexMods h) (\<lambda>r. Inr (fst r))"
| "run_request env (Patch_request br bu) h = goToStageUninstallPatch br bu h"

definition locked_after :: "item_handle \<Rightarrow> item_handle \<Rightarrow> bool" where
  "locked_after h h' \<longleftrightarrow> complex_tasks h' \<subseteq> complex_tasks h \<or> holds_lock h'"

lemma locked_register: "holds_lock h' \<Longrightarrow> locked_after h (registerTask k h')"
  by (simp add: locked_after_def)

lemma locked_same: "complex_tasks h' = complex_tasks h \<Longrightarrow> locked_after h h'"
  by (simp add: locked_after_def)

lemma complex_branch_locked:
  assumes "goToStageUninstallComplexBranch br bu l h = Inr h'" and "getInstalledModId_item MCFBranch_default (m_pItemInfo h) = Inr m"
    and "DesuraId_isOk m \<or> HasAllFlags (getStatus_h h) STATUS_INSTALLCOMPLEX"
  shows "locked_after h h'"
proof -
  from assms(1) obtain h1 got where g: "getComplexLock h = Inr (h1, got)"
    by (auto simp: goToStageUninstallComplexBranch_def bind_res_Inr)
  note t = getComplexLock_took [OF g assms(2,3)]
  from assms(1) g t show ?thesis
    by (auto simp: goToStageUninstallComplexBranch_def bind_res_Inr split: if_splits intro: locked_register locked_same)
qed

lemma install_locked:
  assumes "installPrivate env br bu fl h = Inr (h', r)"
  shows "locked_after h h'"
proof -
  obtain h1 busy where h1: "checkPaused env h = (h1, busy)" by (rule prod.exhaust)
  then have q: "complex_tasks h1 \<subseteq> complex_tasks h" using queue_checkPaused [of env h] by simp
  have "locked_after h1 h'"
  proof (cases "complex_tasks h' = complex_tasks h1")
    case True
    then show ?thesis by (rule locked_same)
  next
    case False
    with assms h1 have "\<not> busy" by (auto simp: installPrivate_def)
    with assms h1 obtain pc cur where pc: "Item_Info.isParentToComplex (m_pItemInfo h1) = Inr pc"
        "isCurrentlyInstalledGameOrMod h1 = Inr cur"
      by (auto simp: installPrivate_def Let_def bind_res_Inr)
    have "\<exists>h2. preDownloadCheck br (HasAnyFlags (install_flags fl h1) GI_FLAG_TEST) h1 = Inr (h2, True) \<and>
        goToStageUninstallComplexBranch br bu (HasAnyFlags (install_flags fl h1) GI_FLAG_LAUNCH) h2 = Inr h' \<and>
        (isComplex (m_pItemInfo h1) \<or> pc)"
      using assms False \<open>\<not> busy\<close>
      unfolding installPrivate_def h1 Let_def case_prod_conv pc bind_res_simps goToStageGatherInfo_def goToStageUninstallBranch_def
      by (simp add: bind_res_Inr split: if_splits) (auto dest: queue_preDownloadCheck split: if_splits)
    then obtain h2 where h2: "preDownloadCheck br (HasAnyFlags (install_flags fl h1) GI_FLAG_TEST) h1 = Inr (h2, True)"
      and b: "goToStageUninstallComplexBranch br bu (HasAnyFlags (install_flags fl h1) GI_FLAG_LAUNCH) h2 = Inr h'"
      and c: "isComplex (m_pItemInfo h1) \<or> pc"
      by blast
    have i: "m_pItemInfo h2 = m_pItemInfo h1"
      using h2 by (auto simp: preDownloadCheck_def bind_res_Inr Let_def split: option.splits if_splits)
    from b obtain g where g: "getInstalledModId_item MCFBranch_default (m_pItemInfo h2) = Inr g"
      by (auto simp: goToStageUninstallComplexBranch_def getComplexLock_def bind_res_Inr)
    have "DesuraId_isOk g \<or> HasAllFlags (getStatus_h h2) STATUS_INSTALLCOMPLEX"
      using c pc g i by (auto simp: isParentToComplex_def isComplex_def getStatus_h_def split: if_splits)
    from complex_branch_locked [OF b g this] show ?thesis
      using queue_preDownloadCheck [OF h2] by (simp add: locked_after_def)
  qed
  with q show ?thesis by (auto simp: locked_after_def)
qed

text \<open>
  C16: Whenever installing, cleaning or patching queues a task that changes a complex mod, the handle holds the lock
  of the game the mod belongs to (or its own, when it is that game).
\<close>

theorem complex_tasks_locked:
  assumes "run_request env req h = Inr h'" and "k \<in> set (task_queue h')" and "is_complex_task k" and "k \<notin> set (task_queue h)"
  shows "hasLock (Some (own_id h')) (complex_holder h') h'"
proof -
  have "locked_after h h'"
  proof (cases req)
    case (Install_request br bu fl)
    with assms(1) show ?thesis by (auto simp: bind_res_Inr intro: install_locked)
  next
    case (Complex_request br bu l)
    with assms(1) obtain h1 got where g: "getComplexLock h = Inr (h1, got)"
      and h': "h' = (if \<not> got then on_item (addSFlag env (STATUS_PAUSED OR STATUS_INSTALLING)) h1
               else if isComplex (m_pItemInfo h1) then registerTask (ComplexLaunchServiceTask l br bu) h1 else h1)"
      by (auto simp: goToStageInstallComplex_def bind_res_Inr)
    from g obtain m where m: "getInstalledModId_item MCFBranch_default (m_pItemInfo h) = Inr m"
      by (auto simp: getComplexLock_def bind_res_Inr)
    show ?thesis
    proof (cases "DesuraId_isOk m \<or> HasAllFlags (getStatus_h h) STATUS_INSTALLCOMPLEX")
      case True
      from getComplexLock_took [OF g m this] show ?thesis
        by (auto simp: h' intro: locked_register locked_same)
    next
      case False
      with g m have "h1 = h" by (auto simp: getComplexLock_def bind_res_Inr)
      with False have "\<not> isComplex (m_pItemInfo h1)" by (simp add: isComplex_def getStatus_h_def)
      with h' \<open>h1 = h\<close> show ?thesis by (auto intro: locked_same)
    qed
  next
    case Clean_request
    with assms(1) obtain m r where m: "getInstalledModId_item MCFBranch_default (m_pItemInfo h) = Inr m"
      and r: "cleanComplexMods h = Inr (h', r)"
      by (auto simp: cleanComplexMods_def bind_res_Inr)
    show ?thesis
    proof (cases "h' = h")
      case False
      with r m have ok: "DesuraId_isOk m" by (auto simp: cleanComplexMods_def bind_res_Inr split: if_splits)
      from False r m ok obtain h1 got where g: "getComplexLock h = Inr (h1, got)"
        by (auto simp: cleanComplexMods_def bind_res_Inr split: if_splits option.splits)
      show ?thesis
        using getComplexLock_took [OF g m] ok r m g False
        by (auto simp: cleanComplexMods_def bind_res_Inr split: if_splits option.splits intro: locked_register locked_same)
    qed (simp add: locked_same)
  next
    case (Patch_request br bu)
    with assms(1) obtain m where m: "getInstalledModId_item MCFBranch_default (m_pItemInfo h) = Inr m"
      by (auto simp: goToStageUninstallPatch_def bind_res_Inr)
    show ?thesis
    proof (cases "DesuraId_isOk m \<or> HasAllFlags (getStatus_h h) STATUS_INSTALLCOMPLEX")
      case True
      with Patch_request assms(1) m obtain h1 got where g: "getComplexLock h = Inr (h1, got)"
        by (auto simp: goToStageUninstallPatch_def bind_res_Inr Let_def split: if_splits)
      show ?thesis
        using getComplexLock_took [OF g m True] True Patch_request assms(1) m g
        by (auto simp: goToStageUninstallPatch_def bind_res_Inr Let_def split: if_splits option.splits
            intro: locked_register locked_same)
    next
      case False
      with Patch_request assms(1) m show ?thesis
        by (auto simp: goToStageUninstallPatch_def bind_res_Inr intro: locked_same)
    qed
  qed
  with assms(2-4) show ?thesis by (auto simp: locked_after_def complex_tasks_def holds_lock_def)
qed


lemma registerTask_queue:
  "(\<And>t. m_pThread h = Some t \<Longrightarrow> \<not> m_bStop t) \<Longrightarrow> task_queue (registerTask k h) = task_queue h @ [k]"
  by (cases "m_pThread h") (auto simp: registerTask_def task_queue_def on_thread_def say_def queueTask_def ItemThread_new_def)

text \<open>
  C20: Uninstalling a complex mod takes no lock: it queues the task that removes the mod while another item holds the
  lock of the game.
\<close>

theorem uninstall_ignores_lock:
  assumes "m_pThread h = None" and "\<not> isInStage h" and "HasAllFlags (getStatus_h h) STATUS_INSTALLCOMPLEX"
    and "getInstalledBuild_item MCFBranch_default (m_pItemInfo h) = Inr bu"
    and "hasLock (Some x) (complex_holder h) h" and "x \<noteq> own_id h"
  shows "\<exists>h'. uninstall_item env prompt c a h = Inr (h', True)
    \<and> task_queue h' = [UIComplexModServiceTask (m_INBranch (m_pItemInfo h)) bu (CA_UNINSTALL c a) True]
    \<and> hasLock (Some x) (complex_holder h') h' \<and> \<not> holds_lock h'"
proof -
  let ?k = "UIComplexModServiceTask (m_INBranch (m_pItemInfo h)) bu (CA_UNINSTALL c a) True"
  let ?h = "registerTask ?k h"
  have "goToStageUninstall env c a h = Inr ?h"
    using assms(1,3,4) by (simp add: goToStageUninstall_def setPaused_gone on_thread_gone getStatus_h_def)
  moreover have "m_uiStage h \<noteq> STAGE_UNINSTALL" using assms(2) by (auto simp: isInStage_def)
  ultimately have "uninstall_item env prompt c a h = Inr (?h, True)"
    using assms(2) by (simp add: uninstall_item_def say_if_def)
  moreover have "task_queue ?h = [?k]"
    using assms(1) by (subst registerTask_queue) (simp_all add: task_queue_def)
  moreover have "hasLock (Some x) (complex_holder ?h) ?h" "\<not> holds_lock ?h"
    using assms(5,6) complex_holder_cong [of ?h h] by (auto simp: holds_lock_def hasLock_def split: if_splits)
  ultimately show ?thesis by blast
qed

text \<open>
  The update of an item without authorisation is queued without the update flag: the flags are and-ed with the
  test flag.
\<close>

theorem unauthed_update_forgets:
  assumes "\<not> isInStage h" and "getCurrentBranch (m_pItemInfo h) = Inr (Some b)"
    and "HasAllFlags (getStatus_h h) (STATUS_READY OR STATUS_INSTALLED OR STATUS_UPDATEAVAL)"
    and "HasAnyFlags (getStatus_h h) STATUS_UNAUTHED" and "\<not> HasAnyFlags (getStatus_h h) STATUS_PAUSED"
    and "\<not> isComplex (m_pItemInfo h)" and "MCFBranch.m_uiBranch (m_INBranch (m_pItemInfo h)) = MCFBranch.m_uiBranch (m_uiBranchId b)"
    and "Item_Info.isParentToComplex (m_pItemInfo h) = Inr pc" and "getNextUpdateBuild_item MCFBranch_default (m_pItemInfo h) = Inr bu"
  shows "update_item env h = Inr (registerTask (GatherInfoTask (m_uiBranchId b) bu GI_FLAG_NONE) h, True)"
proof -
  have flags: "install_flags GI_FLAG_UPDATE h = GI_FLAG_NONE"
    using assms(4) by (simp add: install_flags_def gi_flags HasAnyFlags_def)
  have "isCurrentlyInstalledGameOrMod h = Inr True" using assms(6) by (simp add: isCurrentlyInstalledGameOrMod_def)
  then have "installPrivate env (m_uiBranchId b) bu GI_FLAG_UPDATE h
      = Inr (registerTask (GatherInfoTask (m_uiBranchId b) bu GI_FLAG_NONE) h, True)"
    unfolding installPrivate_def checkPaused_def by (simp only: assms(5) if_False Let_def case_prod_conv flags)
      (simp add: assms(6,7,8) goToStageGatherInfo_def)
  then show ?thesis
    using assms(1,2,3,9) by (simp add: update_item_def install_build_def)
qed

section \<open>Examples\<close>

definition demo_mod :: item_info where
  "demo_mod = (ItemInfo_new \<lparr>m_uiItemId = 5, m_uiType = TYPE_MOD\<rparr> \<lparr>m_uiItemId = 2, m_uiType = TYPE_GAME\<rparr>)
     \<lparr>m_iStatus := STATUS_INSTALLCOMPLEX OR STATUS_INSTALLED\<rparr>"

definition demo_handle :: "item_info \<Rightarrow> item_handle" where
  "demo_handle i = ItemHandle_new i (\<lambda>d. if d = m_iId demo_item then Some demo_item else None) (\<lambda>_. lock_free)"

definition demo_lock :: "item_handle \<Rightarrow> item_handle" where
  "demo_lock h = fst (getLock (Some \<lparr>m_uiItemId = 9, m_uiType = TYPE_MOD\<rparr>) (m_iId demo_item) h)"

theorem uninstall_ignores_lock_witness:
  "\<exists>h'. uninstall_item demo_core None True False (demo_lock (demo_handle demo_mod)) = Inr (h', True)
    \<and> task_queue h' = [UIComplexModServiceTask MCFBranch_default 0 (CA_UNINSTALL True False) True]
    \<and> hasLock (Some \<lparr>m_uiItemId = 9, m_uiType = TYPE_MOD\<rparr>) (complex_holder h') h' \<and> \<not> holds_lock h'"
proof -
  let ?h = "demo_lock (demo_handle demo_mod)"
  have "m_pThread ?h = None" "\<not> isInStage ?h" "HasAllFlags (getStatus_h ?h) STATUS_INSTALLCOMPLEX"
    "getInstalledBuild_item MCFBranch_default (m_pItemInfo ?h) = Inr 0"
    "hasLock (Some \<lparr>m_uiItemId = 9, m_uiType = TYPE_MOD\<rparr>) (complex_holder ?h) ?h"
    "\<lparr>m_uiItemId = 9, m_uiType = TYPE_MOD\<rparr> \<noteq> own_id ?h" "m_INBranch (m_pItemInfo ?h) = MCFBranch_default"
    by code_simp+
  then show ?thesis using uninstall_ignores_lock [of ?h 0 _ demo_core None True False] by simp
qed

definition demo_updatable :: item_info where
  "demo_updatable = demo_item\<lparr>m_iStatus := STATUS_READY OR STATUS_INSTALLED OR STATUS_UPDATEAVAL OR STATUS_UNAUTHED,
     m_INBranchIndex := 0, m_INBranch := m_uiBranchId (demo_branch 7 BF_FREE)\<rparr>"

theorem unauthed_update_forgets_witness:
  "update_item demo_core (demo_handle demo_updatable)
     = Inr (registerTask (GatherInfoTask (m_uiBranchId (demo_branch 7 BF_FREE)) (m_NextBuild demo_install) GI_FLAG_NONE)
              (demo_handle demo_updatable), True)"
  by (rule unauthed_update_forgets [where pc = False]; code_simp)

definition demo_install_complex :: item_handle where
  "demo_install_complex = projr (goToStageInstallComplex demo_core MCFBranch_default 0 False (demo_handle demo_mod))"

theorem complex_tasks_locked_witness:
  "hasLock (Some (own_id demo_install_complex)) (complex_holder demo_install_complex) demo_install_complex"
proof -
  have "\<not> isl (goToStageInstallComplex demo_core MCFBranch_default 0 False (demo_handle demo_mod))" by code_simp
  then have "run_request demo_core (Complex_request MCFBranch_default 0 False) (demo_handle demo_mod) = Inr demo_install_complex"
    by (simp add: demo_install_complex_def)
  moreover have "ComplexLaunchServiceTask False MCFBranch_default 0 \<in> set (task_queue demo_install_complex)"
      "ComplexLaunchServiceTask False MCFBranch_default 0 \<notin> set (task_queue (demo_handle demo_mod))"
    by code_simp+
  ultimately show ?thesis using complex_tasks_locked is_complex_task.simps(2) by blast
qed

definition demo_closing :: item_handle where
  "demo_closing = (demo_handle demo_item)\<lparr>m_uiStage := STAGE_CLOSE,
     m_pThread := Some (ItemThread_new\<lparr>m_vTaskList := [BlankTask STAGE_NONE], m_bRunningTask := True,
       m_pCurrentTask := Some (BlankTask STAGE_CLOSE)\<rparr>)\<rparr>"


theorem finishing_task_rests_witness:
  "\<exists>h'. run_tasks 3 demo_core (\<lambda>_. Inr) (goToStageLaunch (demo_handle demo_item)) = Inr h' \<and> at_rest h'"
proof -
  let ?h = "goToStageLaunch (demo_handle demo_item)"
  let ?t = "ready_thread [LaunchTask]"
  have t: "m_pThread ?h = Some ?t"
    by (simp add: goToStageLaunch_def registerTask_def demo_handle_def ItemHandle_new_def on_thread_def queueTask_def say_def
        ready_thread_def ItemThread_new_def)
  then have "idle_with [LaunchTask] ?h" by (simp add: idle_with_def ready_thread_def ItemThread_new_def)
  then obtain h1 t1 where "start_task demo_core ?h = Some (h1, LaunchTask)" "m_pThread h1 = Some t1" "m_vTaskList t1 = []" "\<not> m_bStop t1"
    by (rule start_idle)
  with \<open>idle_with [LaunchTask] ?h\<close> show ?thesis
    by (intro finishing_task_rests [where k = LaunchTask and close = True]) simp_all
qed

end
