(* ===== verification/Item_Launch.thy ===== *)
theory Item_Launch
  imports Item_Handle
begin

text \<open>
  Launching an item on Linux: \<open>launch\<close>, \<open>launchForReal\<close> and \<open>preLaunchCheck\<close> of
  \<^verbatim>\<open>src/src/shared/usercore/code/ItemHandle.cpp\<close>, \<open>doLaunch\<close> of \<^verbatim>\<open>ItemHandle_nix.cpp\<close>, \<open>getFileType\<close> of
  \<^verbatim>\<open>src/src/static/util/code/UtilLinux.cpp\<close>, and the status text of an item.
\<close>

unbundle bit_operations_syntax

section \<open>What launching asks the system\<close>

text \<open>
  The contents of files, the two console variables for launching, folders, how starting a process or \<open>xdg-open\<close> goes, the
  kind of build, the exit code of the test for 32-bit libraries and the state of tools.
\<close>

record launch_env =
  core_of :: core_env
  disk_of :: fs
  gc_linux_launch_globalargs :: string
  gc_linux_launch_globalbin :: string
  valid_folder :: "string \<Rightarrow> bool"
  launchProcess :: "string \<Rightarrow> (string \<times> string) list \<Rightarrow> bool"
  launchProcessXDG :: "string \<Rightarrow> string \<Rightarrow> bool"
  NIX64 :: bool
  USE_BITTEST :: bool
  desura_bittest :: int
  areAllToolsDownloaded :: "DesuraId list \<Rightarrow> bool"
  areAllToolsInstalled :: "DesuraId list \<Rightarrow> bool"
  data_path :: string

section \<open>Starting the program\<close>

datatype bin_type = BT_ELF32 | BT_ELF64 | BT_WIN | BT_SCRIPT | BT_UNKNOWN

definition getFileType :: "bytes \<Rightarrow> bin_type" where
  "getFileType buff =
     (if length buff < 2 then BT_UNKNOWN
      else if take 2 buff = map byte_of_char ''#!'' then BT_SCRIPT
      else if take 2 buff = map byte_of_char ''MZ'' then BT_WIN
      else if length buff < 5 then BT_UNKNOWN
      else if take 3 (drop 1 buff) = map byte_of_char ''ELF'' then
        if buff ! 4 = 1 then BT_ELF32 else if buff ! 4 = 2 then BT_ELF64 else BT_UNKNOWN
      else BT_UNKNOWN)"

text \<open>
  An operation that may throw a \<open>gcException\<close> returns the handle and the exception; a call through a null pointer is
  \<open>Inl UNDEFINED\<close>, which nobody catches.
\<close>

type_synonym attempt = "(item_handle \<times> gc_error option) res"

definition preLaunchCheck :: "launch_env \<Rightarrow> item_handle \<Rightarrow> attempt" where
  "preLaunchCheck env h =
     (if \<not> isLaunchable (m_pItemInfo h) then Inr (h, Some ERR_LAUNCH)
      else bind_res (getActiveExe_item MCFBranch_default (m_pItemInfo h))
        (\<lambda>ei. case ei of
             None \<Rightarrow> Inr (h, Some ERR_LAUNCH)
           | Some e \<Rightarrow>
               if \<not> valid_item_file (core_of env) (m_szExe e) then Inr (h, Some ERR_LAUNCH)
               else Inr (say (RecentSet (own_id h)) h, None)))"

definition append_arg :: "string \<Rightarrow> string \<Rightarrow> string" where
  "append_arg a args = (if a = [] then args else (if args \<noteq> [] then args @ '' '' else args) @ a)"

text \<open>The arguments: the program itself first when a global program starts it.\<close>

definition launch_args :: "launch_env \<Rightarrow> bool \<Rightarrow> string option \<Rightarrow> exe_info \<Rightarrow> string" where
  "launch_args env useXdgOpen globalExe ei =
     (let args = (if \<not> useXdgOpen \<and> (case globalExe of None \<Rightarrow> False | Some e \<Rightarrow> e \<noteq> []) then m_szExe ei else []);
          args = append_arg (m_szUserArgs ei) (append_arg (m_szExeArgs ei) args)
      in if useXdgOpen then args else append_arg (gc_linux_launch_globalargs env) args)"

definition launch_program :: "string option \<Rightarrow> exe_info \<Rightarrow> string" where
  "launch_program globalExe ei = (case globalExe of None \<Rightarrow> m_szExe ei | Some e \<Rightarrow> if e \<noteq> [] then e else m_szExe ei)"

text \<open>A build for 64 bits starts a program that is not for 64 bits only when the libraries for 32 bits are there.\<close>

definition bit_error :: "launch_env \<Rightarrow> bool \<Rightarrow> branch_info option \<Rightarrow> gc_error option" where
  "bit_error env useXdgOpen branch =
     (if NIX64 env \<and> \<not> useXdgOpen \<and> (case branch of None \<Rightarrow> False | Some b \<Rightarrow> \<not> is64Bit b) then
        if USE_BITTEST env then if desura_bittest env \<noteq> 0 then Some ERR_NO32LIBS else None
        else Some ERR_NOBITTEST
      else None)"

definition libPathA :: "launch_env \<Rightarrow> branch_info \<Rightarrow> string" where
  "libPathA env b =
     getAppDataPath (disk_env (core_of env)) [] @ ''/'' @ getFolderPathExtension (m_ItemId_b b) None @ ''/''
       @ dec_digits (unat (MCFBranch.m_uiBranch (m_uiBranchId b))) @ ''/lib''"

definition libPath :: "launch_env \<Rightarrow> branch_info option \<Rightarrow> item_info \<Rightarrow> string res" where
  "libPath env branch i =
     (case branch of
        None \<Rightarrow> Inr []
      | Some b \<Rightarrow>
          bind_res (getPath_item MCFBranch_default i)
            (\<lambda>p. case p of
                 None \<Rightarrow> Inl UNDEFINED
               | Some path \<Rightarrow>
                   let libPathB = path @ ''/lib'' @ (if is32Bit b then ''32'' else ''64'')
                   in Inr (libPathA env b @ (if valid_folder env libPathB then '':'' @ libPathB else []))))"

definition process_info :: "string \<Rightarrow> string \<Rightarrow> exe_info \<Rightarrow> (string \<times> string) list" where
  "process_info args lp ei =
     [(''cla'', args), (''lp'', lp), (''wd'', getFolderPath (Path_ctor (m_szExe ei) [] True))]"

definition start_program :: "launch_env \<Rightarrow> bool \<Rightarrow> string option \<Rightarrow> exe_info \<Rightarrow> branch_info option \<Rightarrow> string \<Rightarrow> item_handle \<Rightarrow>
    item_handle \<times> bool" where
  "start_program env useXdgOpen globalExe ei branch lp h =
     (if useXdgOpen then (say (XDGLaunched (m_szExe ei) lp) h, launchProcessXDG env (m_szExe ei) lp)
      else
        let h' = (case branch of None \<Rightarrow> h | Some b \<Rightarrow> say (ToolsLinked (m_vToolList b) (libPathA env b)) h);
            exe = launch_program globalExe ei;
            info = process_info (launch_args env useXdgOpen globalExe ei) lp ei
        in (say (ProcessLaunched exe info) h', launchProcess env exe info))"

definition doLaunch_exe :: "launch_env \<Rightarrow> bool \<Rightarrow> string option \<Rightarrow> item_handle \<Rightarrow> attempt" where
  "doLaunch_exe env useXdgOpen globalExe h =
     bind_res (preLaunchCheck env h)
       (\<lambda>(h, failed).
          if failed \<noteq> None then Inr (h, failed)
          else bind_res (getActiveExe_item MCFBranch_default (m_pItemInfo h))
            (\<lambda>ei. case ei of None \<Rightarrow> Inl UNDEFINED
               | Some ei \<Rightarrow>
                   bind_res (getCurrentBranch (m_pItemInfo h))
                     (\<lambda>branch.
                        if bit_error env useXdgOpen branch \<noteq> None then Inr (h, bit_error env useXdgOpen branch)
                        else bind_res (libPath env branch (m_pItemInfo h))
                          (\<lambda>lp. let (h, started) = start_program env useXdgOpen globalExe ei branch lp h
                                 in Inr (h, if started then None else Some ERR_LAUNCH)))))"

text \<open>The first five bytes of the program tell how to start it.\<close>

definition read_magic :: "fs \<Rightarrow> string \<Rightarrow> bytes res" where
  "read_magic d exe = bind_res (fh_open d (Some exe) FILE_READ 0) (\<lambda>(d, f). bind_res (fh_read d f 5) (\<lambda>(b, f). Inr b))"

text \<open>The global program, when it is a file.\<close>

definition global_exe :: "launch_env \<Rightarrow> string" where
  "global_exe env =
     (let bin = gc_linux_launch_globalbin env in if bin \<noteq> [] \<and> valid_item_file (core_of env) bin then bin else [])"

definition doLaunch_typed :: "launch_env \<Rightarrow> bool \<Rightarrow> bin_type \<Rightarrow> item_handle \<Rightarrow> attempt" where
  "doLaunch_typed env helper type h =
     doLaunch_exe env (type = BT_UNKNOWN) (if global_exe env = [] \<or> type = BT_UNKNOWN then None else Some (global_exe env))
       (say_if (type = BT_WIN \<and> helper) WinLaunchDialog h)"

definition doLaunch :: "launch_env \<Rightarrow> bool \<Rightarrow> item_handle \<Rightarrow> attempt" where
  "doLaunch env helper h =
     bind_res (getActiveExe_item MCFBranch_default (m_pItemInfo h))
       (\<lambda>ei. case ei of None \<Rightarrow> Inl UNDEFINED
          | Some ei \<Rightarrow>
              (case read_magic (disk_of env) (if global_exe env \<noteq> [] then global_exe env else m_szExe ei) of
                 Inl e \<Rightarrow> Inr (h, Some ERR_LAUNCH)
               | Inr magic \<Rightarrow> doLaunch_typed env helper (getFileType magic) h))"

section \<open>Launching\<close>

definition run_program :: "launch_env \<Rightarrow> bool \<Rightarrow> branch_info option \<Rightarrow> item_handle \<Rightarrow> (item_handle \<times> bool) res" where
  "run_program env helper bi h =
     bind_res (doLaunch env helper h)
       (\<lambda>(h, failed).
          case failed of
            Some e \<Rightarrow> Inr (say (if helper then LaunchErrorShown e else ErrorRaised e []) h, False)
          | None \<Rightarrow>
              Inr (if (case bi of None \<Rightarrow> False | Some b \<Rightarrow> \<not> isSteamGame b)
                   then on_item (addSFlag (core_of env) STATUS_LAUNCHED) h else h, False))"

definition launchForReal :: "launch_env \<Rightarrow> bool \<Rightarrow> bool \<Rightarrow> item_handle \<Rightarrow> (item_handle \<times> bool) res" where
  "launchForReal env helper offline h =
     bind_res (getCurrentBranch (m_pItemInfo h))
       (\<lambda>bi.
          if (case bi of None \<Rightarrow> False | Some b \<Rightarrow> isPreOrder b) then
            if helper then Inr (say PreOrderPrompt h, False) else Inl UNDEFINED
          else
            let tools = (case bi of None \<Rightarrow> [] | Some b \<Rightarrow> m_vToolList b)
            in if bi \<noteq> None \<and> \<not> offline \<and> \<not> areAllToolsDownloaded env tools then
                 Inr (goToStageDownloadTools_launch True (- 1) h, True)
               else if bi \<noteq> None \<and> \<not> offline \<and> \<not> areAllToolsInstalled env tools then
                 Inr (goToStageInstallTools True h, True)
               else run_program env helper bi h)"

text \<open>
  \<open>install\<close> with a helper may launch, and \<open>launch\<close> may install the default branch, for which \<open>install\<close> never launches;
  \<open>relaunch\<close> stands for the call back.
\<close>

definition install_or :: "(item_handle \<Rightarrow> (item_handle \<times> bool) res) \<Rightarrow> launch_env \<Rightarrow> MCFBranch \<Rightarrow> item_handle \<Rightarrow>
    (item_handle \<times> bool) res" where
  "install_or relaunch env branch h =
     (if isInStage h then Inr (h, True)
      else if \<not> isDownloadable_item (m_pItemInfo h) then
        if HasAnyFlags (getStatus_h h) STATUS_LINK \<and> MCFBranch.m_uiBranch branch \<noteq> 0 then
          Inr (goToStageGatherInfo branch 0 (if isLaunchable (m_pItemInfo h) then GI_FLAG_EXISTING else GI_FLAG_NONE) h, True)
        else Inr (installCheck h)
      else if MCFBranch.m_uiBranch branch \<noteq> 0 \<and> isLaunchable (m_pItemInfo h)
        \<and> MCFBranch.m_uiBranch branch = MCFBranch.m_uiBranch (m_INBranch (m_pItemInfo h)) then relaunch h
      else install_test (core_of env) branch 0 False h)"

definition install_default :: "launch_env \<Rightarrow> item_handle \<Rightarrow> item_handle res" where
  "install_default env h = bind_res (install_or (\<lambda>h. Inr (h, False)) env MCFBranch_default h) (\<lambda>r. Inr (fst r))"

definition install_missing :: "launch_env \<Rightarrow> item_handle \<Rightarrow> item_handle res" where
  "install_missing env h =
     (if HasAllFlags (getStatus_h h) STATUS_NONDOWNLOADABLE then Inr (fst (installCheck h)) else install_default env h)"

text \<open>What the parent of an item says to launching it: nothing, or the prompt that ends the launch.\<close>

definition launch_parent :: "bool \<Rightarrow> item_handle \<Rightarrow> item_handle option res" where
  "launch_parent helper h =
     (if \<not> DesuraId_isOk (m_iParentId (m_pItemInfo h)) then Inr None
      else
        (case parent_info h of
           None \<Rightarrow> Inr None
         | Some p \<Rightarrow>
             if \<not> isLaunchable p then
               if helper then Inr (Some (say (LaunchErrorShown ERR_LAUNCH) h)) else Inl UNDEFINED
             else if isFirstLaunch p then Inr (Some (say_if helper (ParentNoRunPrompt (m_iId p)) h))
             else Inr None))"

definition launch_link :: "launch_env \<Rightarrow> bool \<Rightarrow> item_handle \<Rightarrow> (item_handle \<times> bool) res" where
  "launch_link env helper h =
     bind_res (getInstalledModId_item MCFBranch_default (m_pItemInfo h))
       (\<lambda>m. if DesuraId_isOk m then
              if (case findItemInfo m h of None \<Rightarrow> True | Some child \<Rightarrow> \<not> HasAllFlags (m_iStatus child) STATUS_INSTALLCOMPLEX)
              then launchForReal env helper False h
              else bind_res (getInstalledBuild_item MCFBranch_default (m_pItemInfo h))
                (\<lambda>build. bind_res (goToStageUninstallComplexBranch (m_INBranch (m_pItemInfo h)) build True h)
                   (\<lambda>h. Inr (h, True)))
            else if isLaunchable (m_pItemInfo h) then launchForReal env helper False h
            else bind_res (install_default env h) (\<lambda>h. Inr (h, False)))"

text \<open>An item that is there: first the mod it belongs to, then the licence, then the update.\<close>

definition launch_ready :: "launch_env \<Rightarrow> bool \<Rightarrow> bool \<Rightarrow> item_handle \<Rightarrow> (item_handle \<times> bool) res" where
  "launch_ready env helper ignoreUpdate h =
     bind_res (isCurrentlyInstalledGameOrMod h)
       (\<lambda>current.
          if HasAllFlags (getStatus_h h) STATUS_INSTALLCOMPLEX \<and> \<not> current then
            bind_res (getInstalledBuild_item MCFBranch_default (m_pItemInfo h))
              (\<lambda>build. bind_res (install_build (core_of env) (m_INBranch (m_pItemInfo h)) build (GI_FLAG_EXISTING OR GI_FLAG_LAUNCH) h)
                 (\<lambda>r. Inr (fst r, True)))
          else bind_res (hasAcceptedEula_item (m_pItemInfo h))
            (\<lambda>accepted.
               if \<not> accepted then Inr (say_if helper EULAPrompt h, False)
               else if \<not> ignoreUpdate \<and> HasAllFlags (getStatus_h h) STATUS_UPDATEAVAL then Inr (say_if helper UpdatePrompt h, False)
               else launchForReal env helper False h))"

definition launch_online :: "launch_env \<Rightarrow> bool \<Rightarrow> bool \<Rightarrow> item_handle \<Rightarrow> (item_handle \<times> bool) res" where
  "launch_online env helper ignoreUpdate h =
     bind_res (getCurrentBranch (m_pItemInfo h))
       (\<lambda>cur.
          let hasPreorder = list_ex isPreOrderAndNotPreload (m_vBranchList (m_pItemInfo h)); status = getStatus_h h
          in if cur = None \<and> hasPreorder \<and> \<not> helper then Inl UNDEFINED
             else
               let h = say_if (cur = None \<and> hasPreorder) PreOrderPrompt h
               in if HasAnyFlags status (STATUS_DOWNLOADING OR STATUS_VERIFING OR STATUS_INSTALLING) then
                    Inr (fst (verify_item True False False h), True)
                  else if \<not> HasAnyFlags status (STATUS_READY OR STATUS_UPDATEAVAL) then
                    bind_res (install_missing env h) (\<lambda>h. Inr (h, True))
                  else if HasAnyFlags status (STATUS_DOWNLOADING OR STATUS_INSTALLING) then
                    Inr (fst (verify_item True False False
                      (if HasAllFlags status STATUS_PAUSED then on_item (delSFlag (core_of env) STATUS_PAUSED) h else h)), True)
                  else if HasAnyFlags status STATUS_PRELOADED then
                    (case cur of None \<Rightarrow> Inl UNDEFINED
                     | Some b \<Rightarrow>
                         if isPreOrderAndNotPreload b then
                           if helper then Inr (say PreOrderPrompt h, False) else Inl UNDEFINED
                         else bind_res (install_build (core_of env) MCFBranch_default 0 GI_FLAG_EXISTING h) (\<lambda>r. Inr (fst r, True)))
                  else if isLaunchable (m_pItemInfo h) then launch_ready env helper ignoreUpdate h
                  else Inr (h, False))"

definition launch :: "launch_env \<Rightarrow> bool \<Rightarrow> bool \<Rightarrow> bool \<Rightarrow> item_handle \<Rightarrow> (item_handle \<times> bool) res" where
  "launch env helper offline ignoreUpdate h =
     (if isInStage h then Inr (h, True)
      else
        let (h, busy) = checkPaused (core_of env) h
        in if busy then Inr (h, True)
           else bind_res (launch_parent helper h)
             (\<lambda>stopped. case stopped of Some h \<Rightarrow> Inr (h, False)
                | None \<Rightarrow>
                    if HasAllFlags (getStatus_h h) STATUS_LINK then launch_link env helper h
                    else if offline then
                      if isLaunchable (m_pItemInfo h) then launchForReal env helper offline h else Inr (h, False)
                    else if HasAllFlags (getStatus_h h) STATUS_DELETED then
                      bind_res (install_missing env h) (\<lambda>h. Inr (h, True))
                    else launch_online env helper ignoreUpdate h))"

definition install_item :: "launch_env \<Rightarrow> bool \<Rightarrow> MCFBranch \<Rightarrow> item_handle \<Rightarrow> (item_handle \<times> bool) res" where
  "install_item env helper branch h = install_or (launch env helper False False) env branch h"


section \<open>Launch scripts\<close>

text \<open>
  For every program of the item a script is written that starts it. A template is a file that can be read and is not
  empty; \<open>fmt\<close> puts arguments into it. An item without install data has no path and no programs.
\<close>

datatype script_event = ScriptFile string string | ScriptMode string

definition sanitiseFileName :: "string \<Rightarrow> string" where
  "sanitiseFileName name =
     rev (dropWhile (\<lambda>c. c = CHR '' '') (rev (filter (\<lambda>c. c \<notin> {CHR 0x5C, CHR ''/'', CHR '':'', CHR ''*'', CHR ''?'', CHR 0x22, CHR ''<'', CHR ''>'', CHR ''|'', CHR ''%''}) name)))"

definition read_template :: "launch_env \<Rightarrow> string \<Rightarrow> string option" where
  "read_template env file =
     (case disk_of env (data_path env @ ''/'' @ file) of None \<Rightarrow> None
      | Some c \<Rightarrow> if c = [] then None else Some (map char_of_byte c))"

definition quoted :: "string \<Rightarrow> string" where
  "quoted s = [CHR 0x22] @ s @ [CHR 0x22]"

definition script_args :: "launch_env \<Rightarrow> exe_info \<Rightarrow> string" where
  "script_args env exe =
     append_arg (gc_linux_launch_globalargs env)
       (append_arg (m_szExeArgs exe) (if global_exe env \<noteq> [] then m_szExe exe else []))"

definition script_text :: "launch_env \<Rightarrow> (string \<Rightarrow> string list \<Rightarrow> string) \<Rightarrow> string \<Rightarrow> string \<Rightarrow> branch_info \<Rightarrow> string \<Rightarrow>
    exe_info \<Rightarrow> bin_type \<Rightarrow> string" where
  "script_text env fmt scriptBin scriptXdg branch path exe type =
     (if type = BT_UNKNOWN then fmt scriptXdg [m_szExe exe]
      else
        let libPathB = path @ ''/lib'' @ (if is32Bit branch then ''32'' else ''64'');
            libPath = quoted (libPathA env branch) @ (if valid_folder env libPathB then '':'' @ quoted libPathB else [])
        in fmt scriptBin [if global_exe env \<noteq> [] then global_exe env else m_szExe exe, script_args env exe, libPath])"

definition write_script :: "launch_env \<Rightarrow> (string \<Rightarrow> string list \<Rightarrow> string) \<Rightarrow> string \<Rightarrow> string \<Rightarrow> branch_info \<Rightarrow> string \<Rightarrow> exe_info \<Rightarrow>
    script_event list" where
  "write_script env fmt scriptBin scriptXdg branch path exe =
     (if \<not> valid_item_file (core_of env) (m_szExe exe) then []
      else
        let file = path @ ''/desura_launch_'' @ sanitiseFileName (m_szName_e exe) @ ''.sh''
        in (case read_magic (disk_of env) (m_szExe exe) of
              Inl _ \<Rightarrow> []
            | Inr magic \<Rightarrow>
                (if can_write (disk_env (core_of env)) file
                 then [ScriptFile file (script_text env fmt scriptBin scriptXdg branch path exe (getFileType magic))] else [])
                @ [ScriptMode file]))"

definition installLaunchScripts :: "launch_env \<Rightarrow> (string \<Rightarrow> string list \<Rightarrow> string) \<Rightarrow> (exe_info list \<Rightarrow> exe_info list) \<Rightarrow> item_info \<Rightarrow>
    script_event list res" where
  "installLaunchScripts env fmt srt i =
     bind_res (getCurrentBranch i)
       (\<lambda>b. case b of None \<Rightarrow> Inr []
          | Some branch \<Rightarrow>
              bind_res (with_install MCFBranch_default [] (getExeList (disk_env (core_of env)) srt) i)
                (\<lambda>exeList.
                   (case (read_template env ''scripts/launch_bin_template.sh'', read_template env ''scripts/launch_xdg_template.sh'') of
                      (Some scriptBin, Some scriptXdg) \<Rightarrow>
                        bind_res (getPath_item MCFBranch_default i)
                          (\<lambda>p. case p of None \<Rightarrow> Inr []
                             | Some path \<Rightarrow> Inr (concat (map (write_script env fmt scriptBin scriptXdg branch path) exeList)))
                    | _ \<Rightarrow> Inr [])))"

text \<open>A script starts the program the way a launch without arguments of the user does.\<close>

lemma script_args_launch:
  "m_szUserArgs exe = [] \<Longrightarrow>
   script_args env exe = launch_args env False (if global_exe env = [] then None else Some (global_exe env)) exe"
  by (simp add: script_args_def launch_args_def append_arg_def)

section \<open>The status of an item as text\<close>

record language =
  getString :: "string \<Rightarrow> string"
  format_wait :: "string \<Rightarrow> u32 \<Rightarrow> u32 \<Rightarrow> string"

text \<open>
  The message and whether it stands alone, without the percentage; \<open>position\<close> is the place in the task group and the size of
  the group, when there is one.
\<close>

definition idle_message :: "item_info \<Rightarrow> branch_info option \<Rightarrow> string" where
  "idle_message i cur =
     (let hasPreorder = list_ex isPreOrder (m_vBranchList i)
      in if HasAnyFlags (m_iStatus i) (STATUS_READY OR STATUS_PRELOADED) then
           (if (case cur of None \<Rightarrow> False | Some b \<Rightarrow> isPreOrder b) then ''#IS_PRELOADED_STATUS'' else ''#IS_READY'')
         else if cur = None \<and> hasPreorder then ''#IS_PREORDER_STATUS''
         else if m_iStatus i AND STATUS_DEVELOPER \<noteq> 0 then ''#IS_DEVSTUB''
         else ''#IS_NOTAVAIL'')"

definition getStatusStr_s :: "language \<Rightarrow> (u32 \<times> u32) option \<Rightarrow> item_stage \<Rightarrow> item_info \<Rightarrow> string res" where
  "getStatusStr_s lang position nStage i =
     (let status = m_iStatus i;
          with_percent = (\<lambda>msg. dec_digits (unat (m_iPercent i)) @ ''% - ''
            @ getString lang (if status AND STATUS_PAUSED \<noteq> 0 then ''#IS_PAUSED'' else msg))
      in if \<not> isDownloadable_item i then
           Inr (getString lang (if isInstalled_item i then ''#IS_INSTALLED'' else ''#IS_NOTINSTALLED''))
         else if nStage = STAGE_DOWNLOADTOOL then Inr (with_percent ''#IS_DOWNLOADINGTOOL'')
         else if nStage = STAGE_INSTALLTOOL then Inr (with_percent ''#IS_INSTALLINGTOOL'')
         else if nStage = STAGE_LAUNCH then Inr (getString lang ''#IS_LAUNCHING'')
         else if nStage = STAGE_VALIDATE then Inr (with_percent (getString lang ''#IS_VALIDATE''))
         else if nStage = STAGE_WAIT \<and> position \<noteq> None then
           Inr (case position of None \<Rightarrow> [] | Some (pos, count) \<Rightarrow> format_wait lang (getString lang ''#IS_WAIT'') pos count)
         else if status AND STATUS_VERIFING \<noteq> 0 \<or> nStage = STAGE_VERIFY then Inr (with_percent ''#IS_VERIFY'')
         else if status AND STATUS_UPDATING \<noteq> 0 then Inr (with_percent ''#IS_UPDATING'')
         else if status AND STATUS_DOWNLOADING \<noteq> 0 \<or> nStage = STAGE_DOWNLOAD then Inr (with_percent ''#IS_DOWNLOADING'')
         else if status AND STATUS_INSTALLING \<noteq> 0 \<or> nStage = STAGE_INSTALL then Inr (with_percent ''#IS_INSTALLING'')
         else bind_res (getCurrentBranch i) (\<lambda>cur. Inr (getString lang (idle_message i cur))))"

text \<open>\<open>strncpy\<close> fills the buffer and ends the text only when it is shorter.\<close>

definition getStatusStr :: "language \<Rightarrow> (u32 \<times> u32) option \<Rightarrow> item_handle \<Rightarrow> nat \<Rightarrow> string res" where
  "getStatusStr lang position h buffsize =
     bind_res (getStatusStr_s lang position (m_uiStage h) (m_pItemInfo h))
       (\<lambda>text. Inr (take buffsize (text @ replicate buffsize (CHR 0x00))))"

lemma status_text_ends:
  assumes "getStatusStr_s lang p (m_uiStage h) (m_pItemInfo h) = Inr text"
  shows "\<exists>b. getStatusStr lang p h n = Inr b \<and> length b = n \<and> (length text < n \<longrightarrow> b ! length text = CHR 0x00)
     \<and> (n \<le> length text \<longrightarrow> b = take n text)"
  using assms by (simp add: getStatusStr_def nth_append)

section \<open>When a program starts\<close>

text \<open>What has to hold for a program to be started: of the item, and of how the user asks.\<close>

definition runnable :: "launch_env \<Rightarrow> bool \<Rightarrow> item_info \<Rightarrow> bool" where
  "runnable env tools i \<longleftrightarrow> isLaunchable i
     \<and> (\<exists>ei. getActiveExe_item MCFBranch_default i = Inr (Some ei) \<and> valid_item_file (core_of env) (m_szExe ei))
     \<and> (\<forall>b. getCurrentBranch i = Inr (Some b) \<longrightarrow> \<not> isPreOrder b
          \<and> (tools \<longrightarrow> areAllToolsDownloaded env (m_vToolList b) \<and> areAllToolsInstalled env (m_vToolList b)))"

definition parent_ready :: "item_handle \<Rightarrow> bool" where
  "parent_ready h \<longleftrightarrow> DesuraId_isOk (m_iParentId (m_pItemInfo h)) \<longrightarrow>
     (case parent_info h of None \<Rightarrow> True | Some p \<Rightarrow> isLaunchable p \<and> \<not> isFirstLaunch p)"

definition settled :: "bool \<Rightarrow> item_info \<Rightarrow> bool" where
  "settled ignoreUpdate i \<longleftrightarrow>
     \<not> HasAnyFlags (m_iStatus i) (STATUS_DELETED OR STATUS_DOWNLOADING OR STATUS_VERIFING OR STATUS_INSTALLING OR STATUS_PRELOADED)
     \<and> hasAcceptedEula_item i = Inr True \<and> (ignoreUpdate \<or> \<not> HasAllFlags (m_iStatus i) STATUS_UPDATEAVAL)"

definition may_start :: "launch_env \<Rightarrow> bool \<Rightarrow> bool \<Rightarrow> item_handle \<Rightarrow> bool" where
  "may_start env offline ignoreUpdate h \<longleftrightarrow>
     (let i = m_pItemInfo h; link = HasAllFlags (m_iStatus i) STATUS_LINK
      in \<not> isInStage h \<and> runnable env (link \<or> \<not> offline) i \<and> parent_ready h
         \<and> (\<not> link \<and> \<not> offline \<longrightarrow> settled ignoreUpdate i))"

lemma preLaunchCheck_result:
  assumes "preLaunchCheck env h = Inr (h', e)"
  shows "keeps h h' \<and> m_pItemInfo h' = m_pItemInfo h \<and> (e = None \<longrightarrow> isLaunchable (m_pItemInfo h)
     \<and> (\<exists>ei. getActiveExe_item MCFBranch_default (m_pItemInfo h) = Inr (Some ei) \<and> valid_item_file (core_of env) (m_szExe ei)))"
  using assms by (auto simp: preLaunchCheck_def bind_res_Inr keeps_say split: if_splits option.splits)

lemma start_program_frame: "frame h (fst (start_program env x g ei b lp h))"
  by (auto simp: start_program_def Let_def frame_def say_def stopped_ok_def split: option.split)

lemma start_program_item: "m_pItemInfo (fst (start_program env x g ei b lp h)) = m_pItemInfo h"
  by (auto simp: start_program_def Let_def split: option.split)

lemma doLaunch_exe_result:
  assumes "doLaunch_exe env x g h = Inr (h', e)"
  shows "frame h h' \<and> m_pItemInfo h' = m_pItemInfo h \<and> (starts h' \<noteq> starts h \<longrightarrow> isLaunchable (m_pItemInfo h)
     \<and> (\<exists>ei. getActiveExe_item MCFBranch_default (m_pItemInfo h) = Inr (Some ei) \<and> valid_item_file (core_of env) (m_szExe ei)))"
proof -
  from assms obtain h1 f where p: "preLaunchCheck env h = Inr (h1, f)" by (auto simp: doLaunch_exe_def bind_res_Inr)
  note r = preLaunchCheck_result [OF p]
  have h': "h' = h1 \<or> f = None \<and> (\<exists>a b c. h' = fst (start_program env x g a b c h1))"
  proof (cases f)
    case (Some x)
    with assms show ?thesis by (simp add: doLaunch_exe_def p)
  next
    case None
    with assms obtain ei br where "getActiveExe_item MCFBranch_default (m_pItemInfo h1) = Inr (Some ei)"
        "getCurrentBranch (m_pItemInfo h1) = Inr br"
      by (auto simp: doLaunch_exe_def p bind_res_Inr split: option.splits)
    with assms None show ?thesis
      by (auto simp: doLaunch_exe_def p bind_res_Inr case_prod_beta Let_def split: if_splits)
  qed
  then show ?thesis
  proof
    assume "h' = h1" with r show ?thesis by (auto simp: keeps_def)
  next
    assume "f = None \<and> (\<exists>a b c. h' = fst (start_program env x g a b c h1))"
    then obtain a b c where s: "f = None" "h' = fst (start_program env x g a b c h1)" by blast
    have "frame h h'" unfolding s(2) by (rule frame_trans [OF _ start_program_frame]) (use r in \<open>simp add: keeps_def\<close>)
    with r s show ?thesis by (simp add: start_program_item)
  qed
qed

lemma doLaunch_result:
  assumes "doLaunch env helper h = Inr (h', e)"
  shows "frame h h' \<and> m_pItemInfo h' = m_pItemInfo h \<and> (starts h' \<noteq> starts h \<longrightarrow> isLaunchable (m_pItemInfo h)
     \<and> (\<exists>ei. getActiveExe_item MCFBranch_default (m_pItemInfo h) = Inr (Some ei) \<and> valid_item_file (core_of env) (m_szExe ei)))"
proof -
  from assms have "h' = h \<or> (\<exists>type. doLaunch_typed env helper type h = Inr (h', e))"
    by (cases "getActiveExe_item MCFBranch_default (m_pItemInfo h)")
      (auto simp: doLaunch_def split: option.splits sum.splits)
  then have "h' = h \<or> (\<exists>c x g. doLaunch_exe env x g (say_if c WinLaunchDialog h) = Inr (h', e))"
    unfolding doLaunch_typed_def by blast
  then show ?thesis
  proof
    assume "\<exists>c x g. doLaunch_exe env x g (say_if c WinLaunchDialog h) = Inr (h', e)"
    then obtain c x g where d: "doLaunch_exe env x g (say_if c WinLaunchDialog h) = Inr (h', e)" by blast
    have k: "keeps h (say_if c WinLaunchDialog h)" by (rule keeps_say_if) simp
    have i: "m_pItemInfo (say_if c WinLaunchDialog h) = m_pItemInfo h" by (simp add: say_if_def)
    show ?thesis
      using doLaunch_exe_result [OF d] k frame_trans [OF keeps_frame [OF k]] by (auto simp: i keeps_def)
  qed simp
qed

lemma run_program_result:
  assumes "run_program env helper bi h = Inr (h', b)"
  shows "frame h h' \<and> (starts h' \<noteq> starts h \<longrightarrow> isLaunchable (m_pItemInfo h)
     \<and> (\<exists>ei. getActiveExe_item MCFBranch_default (m_pItemInfo h) = Inr (Some ei) \<and> valid_item_file (core_of env) (m_szExe ei)))"
proof -
  from assms obtain h1 e where d: "doLaunch env helper h = Inr (h1, e)" by (auto simp: run_program_def bind_res_Inr)
  have "keeps h1 h'"
    using assms by (auto simp: run_program_def d keeps_say split: option.splits if_splits)
  then have "frame h1 h'" "starts h' = starts h1" by (simp_all add: keeps_def)
  then show ?thesis using doLaunch_result [OF d] frame_trans by metis
qed

lemma launchForReal_cases:
  assumes "launchForReal env helper off h = Inr (h', b)"
  obtains "keeps h h'"
  | bi where "getCurrentBranch (m_pItemInfo h) = Inr bi" "run_program env helper bi h = Inr (h', b)"
      "\<forall>b. bi = Some b \<longrightarrow> \<not> isPreOrder b \<and> (off \<or> areAllToolsDownloaded env (m_vToolList b) \<and> areAllToolsInstalled env (m_vToolList b))"
proof -
  from assms obtain bi where bi: "getCurrentBranch (m_pItemInfo h) = Inr bi"
    by (auto simp: launchForReal_def bind_res_Inr)
  note l = assms [unfolded launchForReal_def bi bind_res_simps Let_def stage_defs]
  show thesis
  proof (cases bi)
    case None
    with l have "run_program env helper bi h = Inr (h', b)" by simp
    with that(2) bi None show thesis by simp
  next
    case (Some br)
    with l have "keeps h h' \<or> run_program env helper bi h = Inr (h', b) \<and> \<not> isPreOrder br
        \<and> (off \<or> areAllToolsDownloaded env (m_vToolList br) \<and> areAllToolsInstalled env (m_vToolList br))"
      by (auto simp: keeps_say split: if_splits)
    with that bi Some show thesis by auto
  qed
qed

lemma launchForReal_frame: "launchForReal env helper off h = Inr (h', b) \<Longrightarrow> frame h h'"
  by (erule launchForReal_cases) (auto simp: keeps_def dest: run_program_result)

lemma launchForReal_starts:
  assumes "launchForReal env helper off h = Inr (h', b)" and "starts h' \<noteq> starts h"
  shows "runnable env (\<not> off) (m_pItemInfo h)"
  using assms(1)
proof (rule launchForReal_cases)
  assume "keeps h h'"
  with assms(2) show ?thesis by (simp add: keeps_def)
next
  fix bi
  assume bi: "getCurrentBranch (m_pItemInfo h) = Inr bi" and r: "run_program env helper bi h = Inr (h', b)"
    and t: "\<forall>b. bi = Some b \<longrightarrow> \<not> isPreOrder b \<and> (off \<or> areAllToolsDownloaded env (m_vToolList b) \<and> areAllToolsInstalled env (m_vToolList b))"
  show ?thesis using run_program_result [OF r] assms(2) bi t by (auto simp: runnable_def)
qed


text \<open>A launch that goes no further than preparing keeps what starts; else it ran the program of this item.\<close>

definition ran :: "launch_env \<Rightarrow> bool \<Rightarrow> item_handle \<Rightarrow> item_handle \<Rightarrow> bool" where
  "ran env tools h h' \<longleftrightarrow> frame h h' \<and> (starts h' \<noteq> starts h \<longrightarrow> runnable env tools (m_pItemInfo h))"

lemma keeps_ran: "keeps h h' \<Longrightarrow> ran env tools h h'"
  by (simp add: ran_def keeps_def)

lemma real_ran: "launchForReal env helper off h = Inr (h', b) \<Longrightarrow> ran env (\<not> off) h h'"
  by (auto simp: ran_def dest: launchForReal_frame launchForReal_starts)

lemma keeps_install_test: "install_test env br bu t h = Inr (h', b) \<Longrightarrow> keeps h h'"
  by (auto simp: install_test_def dest: keeps_install_build)

lemma keeps_install_default: "install_default env h = Inr h' \<Longrightarrow> keeps h h'"
  using keeps_installCheck [of h]
  by (auto simp: install_default_def install_or_def bind_res_Inr MCFBranch_default_def split: if_splits dest: keeps_install_test)

lemma keeps_install_missing: "install_missing env h = Inr h' \<Longrightarrow> keeps h h'"
  using keeps_installCheck [of h] by (auto simp: install_missing_def split: if_splits dest: keeps_install_default)

lemma keeps_launch_parent: "launch_parent helper h = Inr (Some h') \<Longrightarrow> keeps h h'"
  by (auto simp: launch_parent_def keeps_say keeps_say_if split: if_splits option.splits)

lemma launch_parent_None: "launch_parent helper h = Inr None \<Longrightarrow> parent_ready h"
  by (auto simp: launch_parent_def parent_ready_def split: if_splits option.splits)

lemma launch_link_ran: "launch_link env helper h = Inr (h', b) \<Longrightarrow> ran env True h h'"
  by (auto simp: launch_link_def bind_res_Inr split: if_splits option.splits
      dest: real_ran keeps_install_default keeps_goToStageUninstallComplexBranch intro: keeps_ran)

lemma launch_ready_result:
  assumes "launch_ready env helper ign h = Inr (h', b)"
  shows "ran env True h h' \<and> (starts h' \<noteq> starts h \<longrightarrow> hasAcceptedEula_item (m_pItemInfo h) = Inr True
     \<and> (ign \<or> \<not> HasAllFlags (getStatus_h h) STATUS_UPDATEAVAL))"
proof -
  from assms obtain cur where cur: "isCurrentlyInstalledGameOrMod h = Inr cur" by (auto simp: launch_ready_def bind_res_Inr)
  note l = assms [unfolded launch_ready_def cur bind_res_simps]
  show ?thesis
  proof (cases "HasAllFlags (getStatus_h h) STATUS_INSTALLCOMPLEX \<and> \<not> cur")
    case True
    with l have "keeps h h'" by (auto simp: bind_res_Inr dest: keeps_install_build)
    then show ?thesis by (simp add: keeps_ran) (simp add: keeps_def)
  next
    case False
    with l obtain acc where acc: "hasAcceptedEula_item (m_pItemInfo h) = Inr acc" by (auto simp: bind_res_Inr)
    show ?thesis
    proof (cases "\<not> acc \<or> \<not> ign \<and> HasAllFlags (getStatus_h h) STATUS_UPDATEAVAL")
      case True
      with l False acc have "keeps h h'" by (auto simp: keeps_say_if split: if_splits)
      then show ?thesis by (simp add: keeps_ran) (simp add: keeps_def)
    next
      case c: False
      with l False acc have "launchForReal env helper False h = Inr (h', b)" by (auto split: if_splits)
      with c acc show ?thesis by (auto dest: real_ran)
    qed
  qed
qed

lemma not_deleted: "s AND STATUS_DELETED = 0 \<longleftrightarrow> \<not> HasAllFlags s STATUS_DELETED"
proof -
  have d: "STATUS_DELETED = 2 ^ 14" by (simp add: STATUS_DELETED_def)
  have "s AND 2 ^ 14 = 0 \<longleftrightarrow> \<not> bit s 14" by (rule and_exp_eq_0_iff_not_bit)
  moreover have "HasAllFlags s STATUS_DELETED \<longleftrightarrow> bit s 14" by simp
  ultimately show ?thesis by (simp only: d)
qed

lemma launch_online_result:
  assumes "launch_online env helper ign h = Inr (h', b)" and "\<not> HasAllFlags (getStatus_h h) STATUS_DELETED"
  shows "ran env True h h' \<and> (starts h' \<noteq> starts h \<longrightarrow> settled ign (m_pItemInfo h))"
proof -
  from assms(1) obtain cur where cur: "getCurrentBranch (m_pItemInfo h) = Inr cur" by (auto simp: launch_online_def bind_res_Inr)
  let ?c = "cur = None \<and> list_ex isPreOrderAndNotPreload (m_vBranchList (m_pItemInfo h))"
  let ?h = "say_if ?c PreOrderPrompt h"
  let ?busy = "HasAnyFlags (getStatus_h h) (STATUS_DOWNLOADING OR STATUS_VERIFING OR STATUS_INSTALLING)"
  have k: "keeps h ?h" by (rule keeps_say_if) simp
  have i: "m_pItemInfo ?h = m_pItemInfo h" by (simp add: say_if_def)
  have v: "keeps ?h (fst (verify_item True False False (if x then on_item f ?h else ?h)))" for x f
    by (rule keeps_trans [OF _ keeps_verify_item]) simp
  from assms(1) have l: "keeps ?h h' \<or> launch_ready env helper ign ?h = Inr (h', b) \<and> \<not> ?busy
      \<and> \<not> HasAnyFlags (getStatus_h h) STATUS_PRELOADED"
    unfolding launch_online_def cur bind_res_simps Let_def
    by (simp add: bind_res_Inr keeps_say split: if_splits option.splits)
      (use v [of False] v [of True] in \<open>auto simp: keeps_say dest: keeps_install_missing keeps_install_build split: if_splits\<close>)
  then show ?thesis
  proof
    assume "keeps ?h h'"
    then have "keeps h h'" using k by (blast intro: keeps_trans)
    then show ?thesis by (simp add: keeps_ran) (simp add: keeps_def)
  next
    assume r: "launch_ready env helper ign ?h = Inr (h', b) \<and> \<not> ?busy \<and> \<not> HasAnyFlags (getStatus_h h) STATUS_PRELOADED"
    then have "launch_ready env helper ign ?h = Inr (h', b)" by blast
    note r' = launch_ready_result [OF this, unfolded i getStatus_h_def]
    have f: "frame h h'" using r' frame_trans [OF keeps_frame [OF k]] by (simp add: ran_def)
    have st: "starts ?h = starts h" using k by (simp add: keeps_def)
    have set: "settled ign (m_pItemInfo h)"
      if "hasAcceptedEula_item (m_pItemInfo h) = Inr True" "ign \<or> \<not> HasAllFlags (m_iStatus (m_pItemInfo h)) STATUS_UPDATEAVAL"
      using that r assms(2) unfolding settled_def getStatus_h_def HasAnyFlags_def bit.conj_disj_distrib or_eq_0_iff not_deleted by blast
    show ?thesis using r' f set by (auto simp: ran_def st i)
  qed
qed


text \<open>Of the item, a launch first changes at most the flag for pausing.\<close>

definition unpaused :: "item_info \<Rightarrow> item_info \<Rightarrow> bool" where
  "unpaused i i' \<longleftrightarrow> (\<exists>c e. i' = i\<lparr>m_iStatus := m_iStatus i', m_iChangedFlags := c, item_events := e\<rparr>)
     \<and> (\<forall>n. n \<noteq> 17 \<longrightarrow> bit (m_iStatus i') n = bit (m_iStatus i) n)"

lemma unpaused_refl: "unpaused i i"
proof -
  have "i = i\<lparr>m_iStatus := m_iStatus i, m_iChangedFlags := m_iChangedFlags i, item_events := item_events i\<rparr>" by simp
  then show ?thesis unfolding unpaused_def by blast
qed

lemma delSFlag_record: "\<exists>c e. delSFlag env f i = i\<lparr>m_iStatus := m_iStatus (delSFlag env f i), m_iChangedFlags := c, item_events := e\<rparr>"
proof -
  have tell: "\<exists>c e. tell x (i\<lparr>m_iStatus := s, m_iChangedFlags := c', item_events := e'\<rparr>) = i\<lparr>m_iStatus := s, m_iChangedFlags := c, item_events := e\<rparr>"
    for x s c' e' by (auto simp: tell_def)
  have on: "\<exists>c e. onInfoChange env (i\<lparr>m_iStatus := s\<rparr>) = i\<lparr>m_iStatus := s, m_iChangedFlags := c, item_events := e\<rparr>" for s
    by (cases i) (auto simp: onInfoChange_def triggerCallBack_def tell_def Let_def)
  show ?thesis
    by (cases i) (auto simp: delSFlag_def Let_def onInfoChange_def triggerCallBack_def tell_def)
qed


lemma unpaused_delSFlag: "unpaused i (delSFlag env STATUS_PAUSED i)"
  using delSFlag_record [of env STATUS_PAUSED i]
  by (auto simp: unpaused_def delSFlag_status without_bit)

lemma unpaused_and: "unpaused i i' \<Longrightarrow> \<not> bit m 17 \<Longrightarrow> m_iStatus i' AND m = m_iStatus i AND m"
  by (rule bit_eqI, case_tac "n = 17") (simp_all add: unpaused_def bit_and_iff)

lemma unpaused_fields:
  assumes "unpaused i i'"
  shows "m_iId i' = m_iId i" "m_iParentId i' = m_iParentId i" "isLaunchable i' = isLaunchable i"
    "isFirstLaunch i' = isFirstLaunch i" "getCurrentBranch i' = getCurrentBranch i"
    "getActiveExe_item MCFBranch_default i' = getActiveExe_item MCFBranch_default i"
    "hasAcceptedEula_item i' = hasAcceptedEula_item i"
proof -
  note flags = unpaused_and [OF assms]
  have d: "isDownloadable_item i' = isDownloadable_item i"
    by (simp add: isDownloadable_item_def HasAnyFlags_def flags bit_or_iff)
  from assms obtain c e where i': "i' = i\<lparr>m_iStatus := m_iStatus i', m_iChangedFlags := c, item_events := e\<rparr>"
    unfolding unpaused_def by blast
  show "m_iId i' = m_iId i" "m_iParentId i' = m_iParentId i" by (subst i', simp)+
  show "isLaunchable i' = isLaunchable i" "isFirstLaunch i' = isFirstLaunch i"
    by (simp_all add: isLaunchable_def isFirstLaunch_def HasAllFlags_def flags bit_or_iff)
  have f: "m_vBranchList i' = m_vBranchList i" "m_INBranchIndex i' = m_INBranchIndex i" "m_INBranch i' = m_INBranch i"
      "m_mBranchInstallInfo i' = m_mBranchInstallInfo i"
    by (subst i', simp)+
  then show c: "getCurrentBranch i' = getCurrentBranch i" by (simp add: getCurrentBranch_def current_position_def)
  then show "hasAcceptedEula_item i' = hasAcceptedEula_item i" by (simp add: hasAcceptedEula_item_def)
  show "getActiveExe_item MCFBranch_default i' = getActiveExe_item MCFBranch_default i"
    by (simp add: getActiveExe_item_def with_install_def getBranchOrCurrent_def getBranchById_def branch_index_def
        install_at_def f d cong: option.case_cong)
qed

lemma on_thread_item [simp]: "m_pItemInfo (on_thread f h) = m_pItemInfo h" "manager_items (on_thread f h) = manager_items h"
  by (simp_all add: on_thread_def split: option.split prod.split)

lemma on_item_fields [simp]: "m_pItemInfo (on_item f h) = f (m_pItemInfo h)" "manager_items (on_item f h) = manager_items h"
  by (simp_all add: on_item_def)

lemma say_manager [simp]: "manager_items (say e h) = manager_items h"
  by (simp add: say_def)

lemma checkPaused_unpaused:
  "unpaused (m_pItemInfo h) (m_pItemInfo (fst (checkPaused env h))) \<and> manager_items (fst (checkPaused env h)) = manager_items h"
  by (simp add: checkPaused_def setPaused_def Let_def verifyOveride_def goToStageVerify_def unpaused_refl unpaused_delSFlag)

lemma launch_cases:
  assumes "launch env helper off ign h = Inr (h', b)" and "\<not> isInStage h"
  obtains "keeps h h'"
  | h1 where "keeps h h1" "unpaused (m_pItemInfo h) (m_pItemInfo h1)" "manager_items h1 = manager_items h" "parent_ready h1"
      "HasAllFlags (getStatus_h h1) STATUS_LINK \<longrightarrow> launch_link env helper h1 = Inr (h', b)"
      "\<not> HasAllFlags (getStatus_h h1) STATUS_LINK \<and> off \<longrightarrow> launchForReal env helper True h1 = Inr (h', b)"
      "\<not> HasAllFlags (getStatus_h h1) STATUS_LINK \<and> \<not> off \<longrightarrow> launch_online env helper ign h1 = Inr (h', b)
         \<and> \<not> HasAllFlags (getStatus_h h1) STATUS_DELETED"
proof -
  obtain h1 busy where h1: "checkPaused (core_of env) h = (h1, busy)" by (rule prod.exhaust)
  have k: "keeps h h1" and u: "unpaused (m_pItemInfo h) (m_pItemInfo h1)" "manager_items h1 = manager_items h"
    using keeps_checkPaused [of h "core_of env"] checkPaused_unpaused [of h "core_of env"] by (simp_all add: h1)
  note l = assms(1) [unfolded launch_def h1 Let_def case_prod_conv]
  show thesis
  proof (cases busy)
    case True
    with l assms(2) have "h' = h1" by simp
    with that(1) k show thesis by simp
  next
    case False
    with l assms(2) obtain st where st: "launch_parent helper h1 = Inr st" by (auto simp: bind_res_Inr)
    show thesis
    proof (cases st)
      case (Some x)
      with l assms(2) False st have "h' = x" by simp
      with st Some k that(1) keeps_launch_parent keeps_trans show thesis by metis
    next
      case None
      with st have p: "parent_ready h1" by (simp add: launch_parent_None)
      show thesis
      proof (cases "keeps h1 h'")
        case True
        with that(1) k keeps_trans show thesis by metis
      next
        case n: False
        show thesis
          by (rule that(2) [OF k u p])
            (use l assms(2) False st None n in \<open>auto simp: bind_res_Inr split: if_splits dest: keeps_install_missing\<close>)
      qed
    qed
  qed
qed

text \<open>
  C13: A program is only started, by a process or by xdg-open, when the item is in no stage, may be launched, has an active
  executable whose file is there, its current branch is not a pre-order, and its parent, if the manager knows it, may be
  launched and was started before. In a launch that is not offline, or of a link, the tools of its current branch are
  downloaded and installed as well; an offline launch of an item that is not a link does not look at the tools. In a launch that
  is neither offline nor of a link, the item is also not deleted, downloading, verified, installing or preloaded, its
  licence is accepted, and no update is pending that the user did not choose to ignore.
\<close>

theorem launch_guarded:
  assumes "launch env helper offline ignoreUpdate h = Inr (h', b)" and "starts h' \<noteq> starts h"
  shows "may_start env offline ignoreUpdate h"
proof -
  have out: "\<not> isInStage h" using assms by (auto simp: launch_def)
  from assms(1) out show ?thesis
  proof (cases rule: launch_cases)
    case 1
    with assms(2) show ?thesis by (simp add: keeps_def)
  next
    case (2 h1)
    note same = unpaused_fields [OF 2(2)] and flags = unpaused_and [OF 2(2)]
    have st: "starts h' \<noteq> starts h1" using assms(2) 2(1) by (simp add: keeps_def)
    have own: "parent_info h1 = map_option (\<lambda>p. if m_iParentId (m_pItemInfo h) = own_id h then m_pItemInfo h1 else p) (parent_info h)"
      by (simp add: parent_info_def findItemInfo_def own_id_def same 2(3) option.map_ident)
    have par: "parent_ready h"
      using 2(4) by (auto simp: parent_ready_def own same split: option.splits if_splits) (auto simp: parent_info_def findItemInfo_def)
    have run: "runnable env t (m_pItemInfo h1) = runnable env t (m_pItemInfo h)" for t
      by (simp add: runnable_def same)
    have link: "HasAllFlags (getStatus_h h1) STATUS_LINK = HasAllFlags (m_iStatus (m_pItemInfo h)) STATUS_LINK"
      by (simp add: getStatus_h_def HasAllFlags_def flags)
    then have link: "bit (getStatus_h h1) 21 = bit (m_iStatus (m_pItemInfo h)) 21" by simp
    have set: "settled ign (m_pItemInfo h1) = settled ign (m_pItemInfo h)" for ign
      by (simp add: settled_def HasAnyFlags_def HasAllFlags_def flags same bit_or_iff)
    show ?thesis
    proof (cases "HasAllFlags (getStatus_h h1) STATUS_LINK")
      case True
      with 2(5) launch_link_ran st have "runnable env True (m_pItemInfo h1)" by (auto simp: ran_def)
      with True show ?thesis by (simp add: may_start_def Let_def out par run link)
    next
      case nolink: False
      show ?thesis
      proof (cases offline)
        case True
        with nolink 2(6) launchForReal_starts st have "runnable env False (m_pItemInfo h1)" by fastforce
        with True nolink show ?thesis by (simp add: may_start_def Let_def out par run link)
      next
        case False
        with nolink 2(7) have "launch_online env helper ignoreUpdate h1 = Inr (h', b)" "\<not> HasAllFlags (getStatus_h h1) STATUS_DELETED"
          by simp_all
        from launch_online_result [OF this] st
        have "runnable env True (m_pItemInfo h1)" "settled ignoreUpdate (m_pItemInfo h1)" by (auto simp: ran_def)
        with False nolink show ?thesis by (simp add: may_start_def Let_def out par run link set)
      qed
    qed
  qed
qed


section \<open>All that may happen to a handle\<close>

lemma launch_frame:
  assumes "launch env helper off ign h = Inr (h', b)"
  shows "frame h h'"
proof (cases "isInStage h")
  case True
  with assms show ?thesis by (simp add: launch_def)
next
  case False
  from assms False show ?thesis
  proof (cases rule: launch_cases)
    case 1
    then show ?thesis by (rule keeps_frame)
  next
    case (2 h1)
    have "frame h1 h'"
      using 2(5-7) launch_link_ran launch_online_result launchForReal_frame unfolding ran_def by (metis (no_types))
    with keeps_frame [OF 2(1)] show ?thesis by (rule frame_trans)
  qed
qed

lemma install_item_frame: "install_item env helper br h = Inr (h', b) \<Longrightarrow> frame h h'"
  using keeps_installCheck [of h]
  by (auto simp: install_item_def install_or_def goToStageGatherInfo_def split: if_splits
      dest!: launch_frame keeps_install_test intro: keeps_frame)

text \<open>What users, the item manager and tasks ask of a handle.\<close>

datatype handle_op =
    Verify bool bool bool | Update | Install MCFBranch MCFBuild u32 | Install_item bool MCFBranch | Install_check | Clean
  | Launch bool bool bool | Uninstall "bool option" bool bool | Pause bool bool | Pausable bool | Cancel
  | Set_group "nat option" bool | Pause_on_error bool | Next item_task | Complete bool | Reset bool
  | Download MCFBranch MCFBuild bool | Install_complex MCFBranch MCFBuild bool | Install_file string MCFBranch
  | Uninstall_stage bool bool | Uninstall_complex MCFBranch MCFBuild bool | Uninstall_patch MCFBranch MCFBuild

definition drop_answer :: "(item_handle \<times> bool) res \<Rightarrow> item_handle res" where
  "drop_answer r = bind_res r (\<lambda>(h, b). Inr h)"

fun run_op :: "launch_env \<Rightarrow> handle_op \<Rightarrow> item_handle \<Rightarrow> item_handle res" where
  "run_op env (Verify f t k) h = drop_answer (Inr (verify_item f t k h))"
| "run_op env Update h = drop_answer (update_item (core_of env) h)"
| "run_op env (Install br bu fl) h = drop_answer (install_build (core_of env) br bu fl h)"
| "run_op env (Install_item helper br) h = drop_answer (install_item env helper br h)"
| "run_op env Install_check h = drop_answer (Inr (installCheck h))"
| "run_op env Clean h = drop_answer (cleanComplexMods h)"
| "run_op env (Launch helper off ign) h = drop_answer (launch env helper off ign h)"
| "run_op env (Uninstall p c a) h = drop_answer (uninstall_item (core_of env) p c a h)"
| "run_op env (Pause s f) h = Inr (setPaused (core_of env) s f h)"
| "run_op env (Pausable s) h = Inr (setPausable (core_of env) s h)"
| "run_op env Cancel h = Inr (cancelCurrentStage (core_of env) h)"
| "run_op env (Set_group g f) h = drop_answer (Inr (setTaskGroup_handle (core_of env) g f h))"
| "run_op env (Pause_on_error b) h = Inr (setPauseOnError b h)"
| "run_op env (Next k) h = Inr (registerTask k h)"
| "run_op env (Complete c) h = Inr (completeStage c h)"
| "run_op env (Reset c) h = resetStage (core_of env) c h"
| "run_op env (Download br bu t) h = goToStageDownload br bu t h"
| "run_op env (Install_complex br bu l) h = goToStageInstallComplex (core_of env) br bu l h"
| "run_op env (Install_file p br) h = Inr (goToStageInstall p br h)"
| "run_op env (Uninstall_stage c a) h = goToStageUninstall (core_of env) c a h"
| "run_op env (Uninstall_complex br bu l) h = goToStageUninstallComplexBranch br bu l h"
| "run_op env (Uninstall_patch br bu) h = goToStageUninstallPatch br bu h"

lemma drop_answer_Inr: "drop_answer r = Inr h' \<longleftrightarrow> (\<exists>b. r = Inr (h', b))"
  by (auto simp: drop_answer_def bind_res_Inr)

lemma fst_keeps: "keeps h (fst r) \<Longrightarrow> r = (h', b) \<Longrightarrow> keeps h h'"
  by simp

lemmas op_keeps = fst_keeps [OF keeps_verify_item] fst_keeps [OF keeps_installCheck] fst_keeps [OF keeps_setTaskGroup] keeps_update keeps_install_build keeps_cleanComplexMods keeps_uninstall_item keeps_resetStage
  keeps_goToStageDownload keeps_goToStageInstallComplex keeps_uninstall_stage keeps_goToStageUninstallComplexBranch
  keeps_goToStageUninstallPatch

lemma run_op_frame:
  assumes "run_op env p h = Inr h'"
  shows "frame h h'"
proof (cases p)
  case (Install_item x1 x2)
  with assms show ?thesis by (auto simp: drop_answer_Inr dest: install_item_frame)
next
  case (Launch x1 x2 x3)
  with assms show ?thesis by (auto simp: drop_answer_Inr dest: launch_frame)
next
  case (Pause_on_error x)
  with assms show ?thesis by (auto simp: setPauseOnError_def frame_def stopped_ok_def)
qed (use assms in \<open>auto simp: drop_answer_Inr setPausable_def goToStageInstall_def dest: op_keeps intro!: keeps_frame\<close>)

text \<open>
  A step: an operation, the thread of the handle starting or ending a task, a task or the item manager changing the item
  or other items, another handle taking or giving back a lock, the thread pool deleting a thread the handle has let go
  of. What such a thread does when it comes to its next task first is not among them.
\<close>

inductive handle_step :: "launch_env \<Rightarrow> item_handle \<Rightarrow> item_handle \<Rightarrow> bool" for env where
  operation: "run_op env p h = Inr h' \<Longrightarrow> handle_step env h h'"
| start: "start_task (core_of env) h = Some (h', k) \<Longrightarrow> handle_step env h h'"
| finish: "m_pThread h = Some t \<Longrightarrow> m_pCurrentTask t = Some k \<Longrightarrow> handle_step env h (end_task (core_of env) (getTaskType k) h)"
| item: "m_iId i = own_id h \<Longrightarrow> handle_step env h (h\<lparr>m_pItemInfo := i\<rparr>)"
| items: "handle_step env h (h\<lparr>manager_items := m\<rparr>)"
| other_locks: "handle_step env h (fst (getLock (Some j) who h))"
| other_releases: "handle_step env h (releaseLock (Some j) who h)"
| delete: "handle_step env h (delete_dying j h)"

inductive handle_reach :: "launch_env \<Rightarrow> item_handle \<Rightarrow> item_handle \<Rightarrow> bool" for env h0 where
  here: "handle_reach env h0 h0"
| step: "handle_reach env h0 h \<Longrightarrow> handle_step env h h' \<Longrightarrow> handle_reach env h0 h'"

lemma inv_delete: "handle_inv h \<Longrightarrow> handle_inv (delete_dying j h)"
  by (simp add: delete_dying_def case_prod_beta say_def handle_inv_def stopped_ok_def split: option.splits)

lemma inv_getLock: "handle_inv h \<Longrightarrow> handle_inv (fst (getLock (Some j) who h))"
  by (simp add: getLock_def handle_inv_def stopped_ok_def lock_ok_def split: option.splits)

lemma inv_releaseLock: "handle_inv h \<Longrightarrow> handle_inv (releaseLock obj who h)"
  by (simp add: releaseLock_def handle_inv_def stopped_ok_def lock_ok_def lock_free_def split: option.splits)

lemma step_inv: "handle_step env h h' \<Longrightarrow> handle_inv h \<Longrightarrow> handle_inv h'"
proof (induction rule: handle_step.induct)
  case (operation p h h')
  then show ?case by (blast intro: frame_inv run_op_frame)
next
  case (start h h' k)
  then show ?case using inv_start by blast
next
  case (finish h t k)
  then show ?case by (blast intro: inv_end)
next
  case (item i h)
  then show ?case by (simp add: handle_inv_def stopped_ok_def split: option.splits)
next
  case (items h m)
  then show ?case by (simp add: handle_inv_def stopped_ok_def split: option.splits)
qed (simp_all add: inv_delete inv_getLock inv_releaseLock)

text \<open>
  C14: As long as no thread the handle has let go of starts another task: whatever users, tasks, the item manager and
  other handles do, in any order, the task that runs has the stage of the handle, locks are well formed, and a handle
  that is in a stage has a thread.
\<close>

theorem handle_reach_inv:
  assumes "handle_reach env (ItemHandle_new i others locks) h" and "\<forall>j. lock_ok (locks j)"
  shows "handle_inv h \<and> (isInStage h \<longrightarrow> m_pThread h \<noteq> None)"
proof -
  from assms have "handle_inv h"
    by (induction rule: handle_reach.induct) (auto intro: inv_new step_inv)
  then show ?thesis by (auto simp: handle_inv_def isInStage_def split: option.splits)
qed


section \<open>Examples\<close>

definition demo_launch :: launch_env where
  "demo_launch = \<lparr>core_of = demo_core\<lparr>disk_env := demo_env\<lparr>valid_file := (\<lambda>f. f = ''/g/x''), can_write := (\<lambda>_. True)\<rparr>\<rparr>,
     disk_of = [''/g/x'' \<mapsto> map byte_of_char ''#!/bin/sh''],
     gc_linux_launch_globalargs = [], gc_linux_launch_globalbin = [], valid_folder = (\<lambda>_. False),
     launchProcess = (\<lambda>_ _. True), launchProcessXDG = (\<lambda>_ _. True), NIX64 = False, USE_BITTEST = False, desura_bittest = 0,
     areAllToolsDownloaded = (\<lambda>_. True), areAllToolsInstalled = (\<lambda>_. True), data_path = []\<rparr>"

definition demo_game :: item_info where
  "demo_game = (ItemInfo_new \<lparr>m_uiItemId = 2, m_uiType = TYPE_GAME\<rparr> DesuraId_none)
     \<lparr>m_iStatus := STATUS_READY OR STATUS_INSTALLED, m_vBranchList := [demo_branch 7 BF_FREE],
      m_INBranchIndex := 0, m_INBranch := m_uiBranchId (demo_branch 7 BF_FREE),
      m_mBranchInstallInfo := [(0, demo_install\<lparr>m_szPath_i := ''/g'',
         m_vExeList := [(ExeInfo_new ''x'')\<lparr>m_szExe := ''/g/x''\<rparr>], m_szActiveExe := ''x''\<rparr>)]\<rparr>"

definition demo_started :: item_handle where
  "demo_started = fst (projr (launch demo_launch True False False (demo_handle demo_game)))"

theorem launch_guarded_witness: "may_start demo_launch False False (demo_handle demo_game)"
proof -
  have "\<not> isl (launch demo_launch True False False (demo_handle demo_game))" by code_simp
  then obtain h' b where l: "launch demo_launch True False False (demo_handle demo_game) = Inr (h', b)"
    by (metis obj_sumE prod.exhaust sum.disc(1))
  then have "h' = demo_started" by (simp add: demo_started_def)
  moreover have "starts demo_started \<noteq> []" "starts (demo_handle demo_game) = []" by code_simp+
  ultimately show ?thesis using launch_guarded [OF l] by metis
qed

theorem handle_reach_inv_witness:
  "\<exists>h. handle_inv h \<and> isInStage h \<and> m_pThread h \<noteq> None \<and> m_uiStage h = STAGE_VERIFY"
proof -
  let ?h0 = "demo_handle demo_game" and ?h1 = "fst (verify_item True False False (demo_handle demo_game))"
  obtain h where h: "start_task demo_core ?h1 = Some h" "m_uiStage (fst h) = STAGE_VERIFY"
    by (simp add: verify_item_def isInStage_def demo_handle_def ItemHandle_new_def goToStageVerify_def registerTask_def say_def
        on_thread_def queueTask_def start_task_def take_from_def isPaused_thread_def ItemThread_new_def onTaskStart_def
        setStage_def on_item_def)
  let ?env = "demo_launch\<lparr>core_of := demo_core\<rparr>"
  have "handle_step ?env ?h0 ?h1"
    by (rule operation [of _ "Verify True False False"]) (simp add: drop_answer_def case_prod_beta)
  moreover have "handle_step ?env ?h1 (fst h)"
    by (rule start [of _ _ _ "snd h"]) (simp add: h(1))
  ultimately have "handle_reach ?env (ItemHandle_new demo_game (\<lambda>d. if d = m_iId demo_item then Some demo_item else None) (\<lambda>_. lock_free)) (fst h)"
    unfolding demo_handle_def by (blast intro: handle_reach.intros)
  from handle_reach_inv [OF this] h(2) show ?thesis
    by (intro exI [of _ "fst h"]) (simp add: lock_ok_def lock_free_def isInStage_def)
qed

end
