(* ===== verification/Item_Gather.thy ===== *)
theory Item_Gather
  imports Item_Launch
begin

text \<open>
  The task that fetches the information about an item and checks whether a branch of it can be installed:
  \<^verbatim>\<open>src/src/shared/usercore/code/GatherInfoTask.cpp\<close>. The helper is the dialogs of the user interface: what they answer.
  An operation of the task changes the task and the handle and may throw.
\<close>

unbundle bit_operations_syntax

section \<open>The task\<close>

datatype install_action = C_NONE | C_REMOVE | C_INSTALL | C_VERIFY

record gather_helper =
  selectBranch :: "MCFBranch \<Rightarrow> bool \<times> MCFBranch"
  showComplexPrompt :: bool
  showError :: "u8 \<Rightarrow> bool"
  showInstallPrompt :: "string option \<Rightarrow> install_action"
  showPlatformError :: bool
  showToolPrompt :: "u32 \<Rightarrow> bool"

text \<open>
  What the task asks: the helper, whether it is stopped and canceled, the item as the web has it (or the exception), the
  known branches of other platforms, the drive space, folders, and which tool of a list cannot be installed.
\<close>

record gather_env =
  g_core :: core_env
  m_pGIHH :: "gather_helper option"
  isStopped_g :: bool
  m_bCanceled :: bool
  retrieveItemInfo :: "bool \<Rightarrow> item_info \<Rightarrow> item_info res"
  isKnownBranch :: "u32 \<Rightarrow> DesuraId \<Rightarrow> bool"
  user_app_data :: string
  getFreeSpace :: "string \<Rightarrow> u64"
  isValidFolder :: "string \<Rightarrow> bool"
  isFolderEmpty :: "string \<Rightarrow> bool"
  hasNonInstallableTool :: "DesuraId list \<Rightarrow> u32"

record gather_task =
  g_handle :: item_handle
  m_uiMcfBranch :: MCFBranch
  m_uiMcfBuild :: MCFBuild
  m_uiFlags_g :: u32
  m_bFirstTime :: bool

text \<open>The result of an operation: the task with the value or the exception; \<open>Inl\<close> is a call through a null pointer.\<close>

type_synonym 'a gather = "gather_task \<Rightarrow> (gather_task \<times> 'a res) res"

definition pure :: "'a \<Rightarrow> 'a gather" where
  "pure x g = Inr (g, Inr x)"

definition throw :: "gc_error \<Rightarrow> 'a gather" where
  "throw e g = Inr (g, Inl e)"

definition and_then :: "'a gather \<Rightarrow> ('a \<Rightarrow> 'b gather) \<Rightarrow> 'b gather" where
  "and_then m f g = bind_res (m g) (\<lambda>(g, r). case r of Inl e \<Rightarrow> Inr (g, Inl e) | Inr x \<Rightarrow> f x g)"

text \<open>The item, an operation of the item, one of the handle.\<close>

definition item_of :: "gather_task \<Rightarrow> item_info" where
  "item_of g = m_pItemInfo (g_handle g)"

definition ask :: "(item_info \<Rightarrow> 'a res) \<Rightarrow> 'a gather" where
  "ask f g = bind_res (f (item_of g)) (\<lambda>x. Inr (g, Inr x))"

definition change_item :: "(item_info \<Rightarrow> item_info) \<Rightarrow> unit gather" where
  "change_item f g = Inr (g\<lparr>g_handle := on_item f (g_handle g)\<rparr>, Inr ())"

definition change_handle :: "(item_handle \<Rightarrow> item_handle res) \<Rightarrow> unit gather" where
  "change_handle f g = bind_res (f (g_handle g)) (\<lambda>h. Inr (g\<lparr>g_handle := h\<rparr>, Inr ()))"

definition set_branch :: "MCFBranch \<Rightarrow> unit gather" where
  "set_branch b g = Inr (g\<lparr>m_uiMcfBranch := b\<rparr>, Inr ())"

definition flags_of :: "(u32 \<Rightarrow> 'a gather) \<Rightarrow> 'a gather" where
  "flags_of f g = f (m_uiFlags_g g) g"

definition branch_of :: "(MCFBranch \<Rightarrow> 'a gather) \<Rightarrow> 'a gather" where
  "branch_of f g = f (m_uiMcfBranch g) g"

definition build_of :: "(MCFBuild \<Rightarrow> 'a gather) \<Rightarrow> 'a gather" where
  "build_of f g = f (m_uiMcfBuild g) g"

definition with_item :: "(item_info \<Rightarrow> 'a gather) \<Rightarrow> 'a gather" where
  "with_item f g = f (item_of g) g"

section \<open>Ending\<close>

definition complete_gather :: "gather_env \<Rightarrow> unit gather" where
  "complete_gather env = flags_of (\<lambda>flags.
     and_then (change_item (if HasAnyFlags flags GI_FLAG_UPDATE then addSFlag (g_core env) STATUS_READY else (\<lambda>i. i)))
       (\<lambda>_. change_handle (\<lambda>h. Inr (completeStage True h))))"

definition reset_gather :: "gather_env \<Rightarrow> unit gather" where
  "reset_gather env = flags_of (\<lambda>flags.
     if HasAnyFlags flags GI_FLAG_UPDATE then complete_gather env
     else change_handle (resetStage (g_core env) True))"

definition onError_gather :: "gather_env \<Rightarrow> gc_error \<Rightarrow> gather_task \<Rightarrow> item_handle res" where
  "onError_gather env e g =
     (let h = say (ErrorRaised e []) (g_handle g)
      in if \<not> HasAnyFlags (m_uiFlags_g g) (GI_FLAG_EXISTING OR GI_FLAG_UPDATE) then resetStage (g_core env) True h else Inr h)"

section \<open>Checking\<close>

definition V_FREESPACE :: u32 where "V_FREESPACE = push_bit 0 1"
definition V_PARENT :: u32 where "V_PARENT = push_bit 1 1"
definition V_BADINFO :: u32 where "V_BADINFO = push_bit 2 1"
definition V_NONEMPTY :: u32 where "V_NONEMPTY = push_bit 3 1"
definition V_BADPATH :: u32 where "V_BADPATH = push_bit 4 1"
definition V_FREESPACE_INS :: u32 where "V_FREESPACE_INS = push_bit 5 1"
definition V_FREESPACE_DL :: u32 where "V_FREESPACE_DL = push_bit 6 1"
definition V_JAVA_SUN :: u32 where "V_JAVA_SUN = push_bit 28 1"
definition V_JAVA :: u32 where "V_JAVA = push_bit 28 2"
definition V_MONO :: u32 where "V_MONO = push_bit 28 3"
definition V_AIR :: u32 where "V_AIR = push_bit 28 4"

definition flag_when :: "bool \<Rightarrow> u32 \<Rightarrow> u32" where
  "flag_when c f = (if c then f else 0)"

text \<open>The space for the archive and for the files; the first three characters of a path tell its drive.\<close>

definition validate_space :: "gather_env \<Rightarrow> string \<Rightarrow> u64 \<Rightarrow> u64 \<Rightarrow> u32" where
  "validate_space env path download install =
     (let inFreeSpace = getFreeSpace env path; dlFreeSpace = getFreeSpace env (user_app_data env)
      in if take 3 (user_app_data env) = take 3 path then
           flag_when (inFreeSpace + dlFreeSpace < download + install) (V_FREESPACE OR V_FREESPACE_DL OR V_FREESPACE_INS)
         else
           flag_when (dlFreeSpace < download) (V_FREESPACE OR V_FREESPACE_DL)
             OR flag_when (inFreeSpace < install) (V_FREESPACE OR V_FREESPACE_INS))"

definition validate_folder :: "gather_env \<Rightarrow> string \<Rightarrow> string option \<Rightarrow> string option \<Rightarrow> item_info \<Rightarrow> u32" where
  "validate_folder env path primPath parPath i =
     flag_when
       (if m_iStatus i AND STATUS_INSTALLCOMPLEX \<noteq> 0 then
          (case primPath of None \<Rightarrow> False | Some p \<Rightarrow> p \<noteq> [] \<and> isValidFolder env p \<and> \<not> isFolderEmpty env p)
        else if m_iStatus i AND STATUS_DLC \<noteq> 0 then parPath \<noteq> Some path \<and> \<not> isFolderEmpty env path
        else \<not> isFolderEmpty env path) V_NONEMPTY"

definition validate_tools :: "gather_env \<Rightarrow> branch_info \<Rightarrow> u32" where
  "validate_tools env b =
     (let res = hasNonInstallableTool env (m_vToolList b)
      in if res = 0 then V_JAVA_SUN else if res = 1 then V_JAVA else if res = 2 then V_MONO else if res = 3 then V_AIR else 0)"

definition parent_path :: "item_info option \<Rightarrow> string option res" where
  "parent_path par =
     (case par of None \<Rightarrow> Inr None
      | Some p \<Rightarrow> bind_res (getPath_item MCFBranch_default p) (\<lambda>q. Inr (Some (case q of None \<Rightarrow> [] | Some s \<Rightarrow> s))))"

definition validate :: "gather_env \<Rightarrow> gather_task \<Rightarrow> u32 res" where
  "validate env g =
     (let i = item_of g; branch = m_uiMcfBranch g;
          parInfo = (if DesuraId_isOk (m_iParentId i) then parent_info (g_handle g) else None);
          parent = flag_when (DesuraId_isOk (m_iParentId i) \<and>
            (case parInfo of None \<Rightarrow> True | Some p \<Rightarrow> m_iStatus p AND STATUS_INSTALLED = 0)) V_PARENT
      in bind_res (getPath_item branch i)
           (\<lambda>path. bind_res
              (case path of None \<Rightarrow> Inr V_BADPATH
               | Some path \<Rightarrow>
                   bind_res (getDownloadSize_item MCFBranch_default i)
                     (\<lambda>download. bind_res (getInstallSize_item MCFBranch_default i)
                        (\<lambda>install. bind_res (getInsPrimary_item MCFBranch_default i)
                           (\<lambda>primPath. bind_res (parent_path parInfo)
                              (\<lambda>parPath. Inr (validate_space env path download install
                                 OR validate_folder env path primPath parPath i))))))
              (\<lambda>flags. case getBranchById (MCFBranch.m_uiBranch branch) i of
                   None \<Rightarrow> Inl UNDEFINED
                 | Some b \<Rightarrow> Inr (parent OR flags OR validate_tools env b))))"

definition isValidBranch :: "gather_env \<Rightarrow> bool gather" where
  "isValidBranch env = branch_of (\<lambda>branch. with_item (\<lambda>i.
     let branch' = (if m_bGlobal branch then getBestBranch (g_core env) branch i else branch)
     in and_then (set_branch branch') (\<lambda>_. flags_of (\<lambda>flags.
          if MCFBranch.m_uiBranch branch' = 0 then pure False
          else if HasAnyFlags flags GI_FLAG_TEST then pure True
          else pure (case getBranchById (MCFBranch.m_uiBranch branch') i of None \<Rightarrow> False
               | Some b \<Rightarrow> HasAnyFlags (m_uiFlags_b b) (BF_DEMO OR BF_FREE OR BF_ONACCOUNT OR BF_TEST))))))"

text \<open>
  A branch that is not there: the user may be asked to take another one, once; \<open>again\<close> is the check with the chosen branch
  reset. The answer is whether the branch is there.
\<close>

definition checkNullBranch :: "gather_env \<Rightarrow> unit gather \<Rightarrow> branch_info option \<Rightarrow> bool gather" where
  "checkNullBranch env again branchInfo = branch_of (\<lambda>branch. with_item (\<lambda>i. flags_of (\<lambda>flags.
     if branchInfo \<noteq> None then pure True
     else if \<not> isKnownBranch env (MCFBranch.m_uiBranch branch) (m_iId i) then throw ERR_BADITEM
     else (\<lambda>g.
       if \<not> m_bFirstTime g \<or> HasAnyFlags flags GI_FLAG_TEST then throw ERR_UNSUPPORTEDPLATFORM g
       else
         and_then
           (if \<not> m_bCanceled env \<and> (case m_pGIHH env of None \<Rightarrow> False | Some w \<Rightarrow> showPlatformError w)
            then and_then (set_branch (BranchFromInt 0 False)) (\<lambda>_. again)
            else complete_gather env)
           (\<lambda>_. pure False) (g\<lparr>m_bFirstTime := False\<rparr>)))))"

text \<open>The result of \<open>checkNullBranch\<close> is dropped here.\<close>

definition handleInvalidBranch :: "gather_env \<Rightarrow> unit gather \<Rightarrow> bool gather" where
  "handleInvalidBranch env again = branch_of (\<lambda>branch. with_item (\<lambda>i.
     let (chosen, branch') = (case m_pGIHH env of None \<Rightarrow> (True, branch)
           | Some w \<Rightarrow> if m_bCanceled env then (True, branch) else selectBranch w branch)
     in if m_bCanceled env \<or> \<not> chosen then and_then (complete_gather env) (\<lambda>_. pure False)
        else if MCFBranch.m_uiBranch branch' = - 1 then
          and_then (change_handle (\<lambda>h. Inr (goToStageLaunch h))) (\<lambda>_. pure False)
        else
          let branch'' = (if m_bGlobal branch' then getBestBranch (g_core env) branch' i else branch')
          in and_then (checkNullBranch env again (getBranchById (MCFBranch.m_uiBranch branch'') i))
               (\<lambda>_. and_then (set_branch branch'') (\<lambda>_. pure True))))"

definition download_stage :: "gather_env \<Rightarrow> bool \<Rightarrow> bool \<Rightarrow> unit gather" where
  "download_stage env account test = branch_of (\<lambda>branch. build_of (\<lambda>build.
     and_then (change_item (if account then addToAccount (g_core env) else (\<lambda>i. i)))
       (\<lambda>_. change_handle (goToStageDownload branch build test))))"

definition set_installed :: "gather_env \<Rightarrow> MCFBranch \<Rightarrow> MCFBuild \<Rightarrow> unit gather" where
  "set_installed env branch build =
     and_then (ask (setInstalledMcf (g_core env) branch build)) (\<lambda>(i, _). change_item (\<lambda>_. i))"

definition verify_stage :: "gather_env \<Rightarrow> unit gather" where
  "verify_stage env = branch_of (\<lambda>branch. build_of (\<lambda>build.
     and_then (change_item (\<lambda>i. addSFlag (g_core env) STATUS_INSTALLED (addToAccount (g_core env) i)))
       (\<lambda>_. and_then (set_installed env branch build)
          (\<lambda>_. change_handle (\<lambda>h. Inr (goToStageVerify branch build True True True h))))))"

text \<open>A folder that is not empty.\<close>

definition nonempty_folder :: "gather_env \<Rightarrow> unit gather" where
  "nonempty_folder env = branch_of (\<lambda>branch. with_item (\<lambda>i. flags_of (\<lambda>flags.
     let test = HasAnyFlags flags GI_FLAG_TEST; helper = (if m_bCanceled env then None else m_pGIHH env)
     in if HasAnyFlags flags GI_FLAG_UPDATE then download_stage env False False
        else if m_iStatus i AND STATUS_INSTALLCOMPLEX \<noteq> 0 then
          (if (case helper of None \<Rightarrow> False | Some w \<Rightarrow> showComplexPrompt w) then download_stage env False test else reset_gather env)
        else
          and_then (ask (getPath_item branch))
            (\<lambda>path. case (case helper of None \<Rightarrow> C_NONE | Some w \<Rightarrow> showInstallPrompt w path) of
               C_REMOVE \<Rightarrow> and_then (change_item (addOFlag OPTION_REMOVEFILES)) (\<lambda>_. download_stage env True test)
             | C_INSTALL \<Rightarrow> download_stage env True test
             | C_VERIFY \<Rightarrow> verify_stage env
             | C_NONE \<Rightarrow> reset_gather env))))"

text \<open>The four top bits of the result are the tool that is missing.\<close>

definition handle_validation :: "gather_env \<Rightarrow> u32 \<Rightarrow> unit gather" where
  "handle_validation env res = flags_of (\<lambda>flags.
     let tool = drop_bit 28 res; res' = drop_bit 4 (push_bit 4 res); test = HasAnyFlags flags GI_FLAG_TEST
     in if 0 < tool \<and> (case m_pGIHH env of None \<Rightarrow> True | Some w \<Rightarrow> \<not> showToolPrompt w tool) then complete_gather env
        else if res' = 0 then download_stage env True test
        else if res' = V_NONEMPTY then nonempty_folder env
        else if m_bCanceled env \<or> (case m_pGIHH env of None \<Rightarrow> True | Some w \<Rightarrow> showError w (ucast res')) then reset_gather env
        else download_stage env True test)"

definition check_branch :: "gather_env \<Rightarrow> unit gather \<Rightarrow> unit gather" where
  "check_branch env again = branch_of (\<lambda>branch. with_item (\<lambda>i.
     let branchInfo = getBranchById (MCFBranch.m_uiBranch branch) i
     in and_then (checkNullBranch env again branchInfo)
          (\<lambda>there. if \<not> there then pure ()
             else if m_bCanceled env then complete_gather env
             else if (case branchInfo of None \<Rightarrow> False | Some b \<Rightarrow> isPreOrderAndNotPreload b)
             then change_handle (\<lambda>h. Inr (goToStageLaunch h))
             else (\<lambda>g. bind_res (validate env g) (\<lambda>res. handle_validation env res g)))))"

definition check_once :: "gather_env \<Rightarrow> unit gather \<Rightarrow> unit gather" where
  "check_once env again =
     and_then (isValidBranch env)
       (\<lambda>valid. and_then (if valid then pure True else handleInvalidBranch env again)
          (\<lambda>good. if good then check_branch env again else pure ()))"

text \<open>The second check never asks again: it is not the first time.\<close>

definition checkRequirements :: "gather_env \<Rightarrow> unit gather" where
  "checkRequirements env = check_once env (check_once env (pure ()))"

definition onComplete_gather :: "gather_env \<Rightarrow> unit gather" where
  "onComplete_gather env = with_item (\<lambda>i.
     if isDownloadable_item i then checkRequirements env else change_handle (\<lambda>h. Inr (completeStage True h)))"

section \<open>Running\<close>

definition fetch_item :: "gather_env \<Rightarrow> bool gather" where
  "fetch_item env = flags_of (\<lambda>flags. with_item (\<lambda>i.
     if HasAnyFlags flags GI_FLAG_UPDATE then
       and_then (change_item (delSFlag (g_core env) STATUS_READY)) (\<lambda>_. pure True)
     else
       and_then (change_item (if HasAnyFlags flags GI_FLAG_EXISTING
            then delSFlag (g_core env) (STATUS_LINK OR STATUS_ONCOMPUTER OR STATUS_INSTALLED OR STATUS_READY) else (\<lambda>i. i)))
         (\<lambda>_. with_item (\<lambda>i'.
            let reset = HasAnyFlags flags (GI_FLAG_EXISTING OR (if m_uiType (m_iId i) = TYPE_GAME then GI_FLAG_TEST else 0))
            in case retrieveItemInfo env reset i' of
                 Inl e \<Rightarrow> throw e
               | Inr i'' \<Rightarrow> and_then (change_item (\<lambda>_. i'')) (\<lambda>_. pure (\<not> isStopped_g env))))))"

definition doRun_gather :: "gather_env \<Rightarrow> unit gather" where
  "doRun_gather env =
     and_then (fetch_item env)
       (\<lambda>go. if \<not> go then pure ()
          else with_item (\<lambda>i.
            if HasAnyFlags (m_iStatus i) STATUS_STUB then throw ERR_UNSUPPORTEDPLATFORM
            else if m_bCanceled env then complete_gather env
            else onComplete_gather env))"

definition new_gather :: "MCFBranch \<Rightarrow> MCFBuild \<Rightarrow> u32 \<Rightarrow> item_handle \<Rightarrow> gather_task" where
  "new_gather branch build flags h =
     \<lparr>g_handle = h, m_uiMcfBranch = branch, m_uiMcfBuild = build, m_uiFlags_g = flags, m_bFirstTime = True\<rparr>"

text \<open>The body of the task with what its thread does with an exception.\<close>

definition run_gather :: "gather_env \<Rightarrow> MCFBranch \<Rightarrow> MCFBuild \<Rightarrow> u32 \<Rightarrow> item_handle \<Rightarrow> item_handle res" where
  "run_gather env branch build flags h =
     bind_res (doRun_gather env (new_gather branch build flags h))
       (\<lambda>(g, r). case r of Inr _ \<Rightarrow> Inr (g_handle g) | Inl e \<Rightarrow> onError_gather env e g)"


section \<open>Drive space\<close>

text \<open>
  C21: When the archive and the files go to one drive, its free space is counted twice: the check passes exactly when both
  together fit twice that space.
\<close>

theorem space_counted_twice:
  assumes "take 3 (user_app_data env) = take 3 path" and "getFreeSpace env (user_app_data env) = getFreeSpace env path"
    and "unat download + unat install < 2 ^ 64" and "2 * unat (getFreeSpace env path) < 2 ^ 64"
  shows "validate_space env path download install = 0 \<longleftrightarrow> unat download + unat install \<le> 2 * unat (getFreeSpace env path)"
proof -
  let ?f = "getFreeSpace env path"
  have "unat (?f + ?f) = unat ?f + unat ?f"
    by (rule unat_add_lem [THEN iffD1]) (use assms(4) in simp)
  moreover have "unat (download + install) = unat download + unat install"
    by (rule unat_add_lem [THEN iffD1]) (use assms(3) in simp)
  ultimately have "?f + ?f < download + install \<longleftrightarrow> 2 * unat ?f < unat download + unat install"
    by (simp only: word_less_nat_alt mult_2)
  moreover have "V_FREESPACE OR V_FREESPACE_DL OR V_FREESPACE_INS \<noteq> 0" by (simp add: V_FREESPACE_def V_FREESPACE_DL_def V_FREESPACE_INS_def)
  ultimately show ?thesis using assms(1,2) by (auto simp: validate_space_def Let_def flag_when_def)
qed

section \<open>A fetch that fails\<close>

lemma delSFlag_isLaunchable: "\<not> isLaunchable (delSFlag env (STATUS_LINK OR STATUS_ONCOMPUTER OR STATUS_INSTALLED OR STATUS_READY) i)"
proof -
  have "m_iStatus (delSFlag env (STATUS_LINK OR STATUS_ONCOMPUTER OR STATUS_INSTALLED OR STATUS_READY) i) AND (STATUS_INSTALLED OR STATUS_READY) = 0"
    by (rule bit_eqI) (auto simp: bit_and_iff delSFlag_status without_bit bit_or_iff)
  then show ?thesis by (simp add: isLaunchable_def)
qed

lemma run_gather_fails:
  assumes "HasAnyFlags fl GI_FLAG_EXISTING" and "\<not> HasAnyFlags fl GI_FLAG_UPDATE"
    and "\<And>reset i. retrieveItemInfo env reset i = Inl e"
  shows "run_gather env br bu fl h = Inr (say (ErrorRaised e [])
     (on_item (delSFlag (g_core env) (STATUS_LINK OR STATUS_ONCOMPUTER OR STATUS_INSTALLED OR STATUS_READY)) h))"
proof -
  have "HasAnyFlags fl (GI_FLAG_EXISTING OR GI_FLAG_UPDATE)"
    using assms(1) unfolding HasAnyFlags_def bit.conj_disj_distrib or_eq_0_iff by blast
  then show ?thesis
    using assms by (simp add: run_gather_def doRun_gather_def fetch_item_def flags_of_def with_item_def new_gather_def
        and_then_def change_item_def item_of_def throw_def onError_gather_def)
qed



section \<open>What a download needs\<close>

definition downloads :: "gather_task \<Rightarrow> (MCFBranch \<times> MCFBuild) set" where
  "downloads g = {(b, v). ValidateTask b v \<in> set (task_queue (g_handle g))}"

definition may_download :: "gather_task \<Rightarrow> MCFBranch \<Rightarrow> bool" where
  "may_download g b \<longleftrightarrow>
     (\<exists>bi. getBranchById (MCFBranch.m_uiBranch b) (item_of g) = Some bi
        \<and> (isDownloadable_branch bi \<or> HasAnyFlags (m_uiFlags_g g) GI_FLAG_TEST))"

text \<open>An operation of the task keeps the branches of the item and the flags; it queues only downloads that may be.\<close>

definition checked :: "gather_task \<Rightarrow> gather_task \<Rightarrow> bool" where
  "checked g g' \<longleftrightarrow> m_vBranchList (item_of g') = m_vBranchList (item_of g) \<and> m_uiFlags_g g' = m_uiFlags_g g
     \<and> (\<forall>(b, v) \<in> downloads g'. (b, v) \<in> downloads g \<or> may_download g' b)"

definition safe :: "u32 \<Rightarrow> 'a gather \<Rightarrow> bool" where
  "safe F m \<longleftrightarrow> (\<forall>g g' r. m g = Inr (g', r) \<longrightarrow> m_uiFlags_g g = F \<longrightarrow> checked g g')"

lemma checked_refl: "checked g g"
  by (auto simp: checked_def)

lemma may_download_cong:
  "m_vBranchList (item_of g') = m_vBranchList (item_of g) \<Longrightarrow> m_uiFlags_g g' = m_uiFlags_g g \<Longrightarrow> may_download g' b = may_download g b"
  by (simp add: may_download_def getBranchById_def branch_index_def)

lemma checked_trans: "checked a b \<Longrightarrow> checked b c \<Longrightarrow> checked a c"
  using may_download_cong [of c b] by (fastforce simp: checked_def)

named_theorems safe_rules

lemma safe_pure [safe_rules]: "safe F (pure x)"
  by (simp add: safe_def pure_def checked_refl)

lemma safe_throw [safe_rules]: "safe F (throw e)"
  by (simp add: safe_def throw_def checked_refl)

lemma safe_and_then [safe_rules]:
  assumes "safe F m" and "\<And>x. safe F (f x)"
  shows "safe F (and_then m f)"
  unfolding safe_def
proof (intro allI impI)
  fix g g' r
  assume F: "m_uiFlags_g g = F" and "and_then m f g = Inr (g', r)"
  then obtain g1 r1 where m: "m g = Inr (g1, r1)" and c: "(case r1 of Inl e \<Rightarrow> Inr (g1, Inl e) | Inr x \<Rightarrow> f x g1) = Inr (g', r)"
    by (auto simp: and_then_def bind_res_Inr)
  from m F assms(1) have g1: "checked g g1" by (simp add: safe_def)
  moreover from c assms(2) g1 F have "checked g1 g'" by (auto simp: safe_def checked_refl checked_def [of g g1] split: sum.splits)
  ultimately show "checked g g'" by (rule checked_trans)
qed

lemma safe_ask [safe_rules]: "safe F (ask f)"
  by (auto simp: safe_def ask_def bind_res_Inr checked_refl)

lemma safe_reads [safe_rules]:
  "safe F (f F) \<Longrightarrow> safe F (flags_of f)" "(\<And>b. safe F (fb b)) \<Longrightarrow> safe F (branch_of fb)"
  "(\<And>b. safe F (fv b)) \<Longrightarrow> safe F (build_of fv)" "(\<And>i. safe F (fi i)) \<Longrightarrow> safe F (with_item fi)"
  by (auto simp: safe_def flags_of_def branch_of_def build_of_def with_item_def)

lemma safe_set_branch [safe_rules]: "safe F (set_branch b)"
  by (simp add: safe_def set_branch_def checked_def downloads_def item_of_def)

lemma safe_if [safe_rules]: "(c \<Longrightarrow> safe F a) \<Longrightarrow> (\<not> c \<Longrightarrow> safe F b) \<Longrightarrow> safe F (if c then a else b)"
  by simp

lemma safe_change_item [safe_rules]: "(\<And>i. m_vBranchList (f i) = m_vBranchList i) \<Longrightarrow> safe F (change_item f)"
  by (auto simp: safe_def change_item_def checked_def item_of_def downloads_def task_queue_def on_item_def)

text \<open>Operations of the handle that queue no download.\<close>

lemma safe_change_handle:
  assumes "\<And>h h'. f h = Inr h' \<Longrightarrow> m_vBranchList (m_pItemInfo h') = m_vBranchList (m_pItemInfo h)
     \<and> (\<forall>b v. ValidateTask b v \<in> set (task_queue h') \<longrightarrow> ValidateTask b v \<in> set (task_queue h))"
  shows "safe F (change_handle f)"
  using assms by (fastforce simp: safe_def change_handle_def bind_res_Inr checked_def item_of_def downloads_def)

lemma task_registered: "set (task_queue (registerTask k h)) \<subseteq> insert k (set (task_queue h))"
  by (cases "m_pThread h") (auto simp: task_queue_def registerTask_def on_thread_def queueTask_def say_def ItemThread_new_def)

lemma completed: "ValidateTask b v \<in> set (task_queue (completeStage c h)) \<Longrightarrow> ValidateTask b v \<in> set (task_queue h)"
  by (auto simp: completeStage_def dest!: subsetD [OF task_registered] split: if_splits)

lemma complete_item [simp]: "m_pItemInfo (completeStage c h) = m_pItemInfo h"
  by (simp add: completeStage_def)

lemma on_item_queue [simp]: "task_queue (on_item f h) = task_queue h"
  by (simp add: task_queue_def on_item_def)

lemma reset_branches: "resetInstalledMcf env i = Inr i' \<Longrightarrow> m_vBranchList i' = m_vBranchList i"
  by (auto simp: resetInstalledMcf_def on_current_def bind_res_Inr split: option.splits)

lemma reset_keeps:
  assumes "resetStage env c h = Inr h'"
  shows "m_vBranchList (m_pItemInfo h') = m_vBranchList (m_pItemInfo h)
     \<and> (\<forall>b v. ValidateTask b v \<in> set (task_queue h') \<longrightarrow> ValidateTask b v \<in> set (task_queue h))"
  using assms by (auto simp: resetStage_def bind_res_Inr Let_def dest: completed reset_branches split: if_splits)


lemma safe_complete [safe_rules]: "safe F (change_handle (\<lambda>h. Inr (completeStage c h)))"
  by (rule safe_change_handle) (auto dest: completed)

lemma safe_launch [safe_rules]: "safe F (change_handle (\<lambda>h. Inr (goToStageLaunch h)))"
  by (rule safe_change_handle) (auto simp: goToStageLaunch_def dest!: subsetD [OF task_registered])

lemma safe_verify [safe_rules]: "safe F (change_handle (\<lambda>h. Inr (goToStageVerify br bu x y z h)))"
  by (rule safe_change_handle) (auto simp: goToStageVerify_def dest!: subsetD [OF task_registered])

lemma safe_reset [safe_rules]: "safe F (change_handle (resetStage env c))"
  by (rule safe_change_handle) (rule reset_keeps)

lemma say_task_queue [simp]: "task_queue (say e h) = task_queue h"
  by (simp add: task_queue_def say_def)

lemma preDownloadCheck_keeps:
  "preDownloadCheck br test h = Inr (h1, x) \<Longrightarrow> m_pItemInfo h1 = m_pItemInfo h \<and> task_queue h1 = task_queue h"
  by (auto simp: preDownloadCheck_def bind_res_Inr Let_def split: option.splits if_splits)

lemma preDownloadCheck_passed:
  "preDownloadCheck br test h = Inr (h1, True) \<Longrightarrow>
   \<exists>b. getBranchById (MCFBranch.m_uiBranch br) (m_pItemInfo h) = Some b \<and> (isDownloadable_branch b \<or> test)"
  by (auto simp: preDownloadCheck_def split: option.splits if_splits)

lemma safe_download [safe_rules]:
  assumes "test \<Longrightarrow> HasAnyFlags F GI_FLAG_TEST"
  shows "safe F (change_handle (goToStageDownload br bu test))"
  unfolding safe_def
proof (intro allI impI)
  fix g g' r
  assume F: "m_uiFlags_g g = F" and "change_handle (goToStageDownload br bu test) g = Inr (g', r)"
  then obtain h' where h': "goToStageDownload br bu test (g_handle g) = Inr h'" and g': "g' = g\<lparr>g_handle := h'\<rparr>"
    by (auto simp: change_handle_def bind_res_Inr)
  show "checked g g'"
  proof (cases "shouldPauseOnError (g_handle g)")
    case True
    with h' have "h' = completeStage True (setPauseOnError False (g_handle g))" by (simp add: goToStageDownload_def)
    moreover have "task_queue (setPauseOnError False (g_handle g)) = task_queue (g_handle g)"
        "m_pItemInfo (setPauseOnError False (g_handle g)) = m_pItemInfo (g_handle g)"
      by (simp_all add: setPauseOnError_def task_queue_def)
    ultimately show ?thesis by (auto simp: checked_def g' item_of_def downloads_def dest: completed)
  next
    case False
    with h' obtain h1 good where p: "preDownloadCheck br test (g_handle g) = Inr (h1, good)"
      and h1: "h' = (if \<not> good then completeStage True h1 else registerTask (ValidateTask br bu) h1)"
      by (auto simp: goToStageDownload_def bind_res_Inr)
    have q: "m_pItemInfo h1 = m_pItemInfo (g_handle g)" "task_queue h1 = task_queue (g_handle g)"
      using preDownloadCheck_keeps [OF p] by simp_all
    have may: "may_download g' br" if good
      using preDownloadCheck_passed [of br test "g_handle g" h1] p that assms F
      by (auto simp: may_download_def g' item_of_def h1 q)
    show ?thesis
    proof (cases good)
      case True
      then show ?thesis using may [OF True]
        by (auto simp: checked_def g' item_of_def downloads_def h1 q dest!: subsetD [OF task_registered])
    next
      case False
      then show ?thesis by (auto simp: checked_def g' item_of_def downloads_def h1 q dest: completed)
    qed
  qed
qed


lemma addToAccount_branches [simp]: "m_vBranchList (addToAccount env i) = m_vBranchList i"
  by (simp add: addToAccount_def tell_def)

lemma addOFlag_branches [simp]: "m_vBranchList (addOFlag f i) = m_vBranchList i"
  by (simp add: addOFlag_def delOFlag_def Let_def)

lemma safe_complete_gather [safe_rules]: "safe F (complete_gather env)"
  unfolding complete_gather_def by (intro safe_rules) simp_all

lemma safe_reset_gather [safe_rules]: "safe F (reset_gather env)"
  unfolding reset_gather_def by (intro safe_rules)

lemma safe_download_stage [safe_rules]:
  "(test \<Longrightarrow> HasAnyFlags F GI_FLAG_TEST) \<Longrightarrow> safe F (download_stage env account test)"
  unfolding download_stage_def by (intro safe_rules) auto

lemma setInstalledMcf_branches:
  assumes "setInstalledMcf env br bu i = Inr (i', x)"
  shows "m_vBranchList i' = m_vBranchList i"
  using assms by (auto simp: setInstalledMcf_def bind_res_Inr Let_def case_prod_beta split: option.splits if_splits)

lemma safe_set_installed [safe_rules]: "safe F (set_installed env br bu)"
  using setInstalledMcf_branches [of "g_core env" br bu]
  by (auto simp: safe_def set_installed_def and_then_def ask_def bind_res_Inr change_item_def checked_def item_of_def
      downloads_def)

lemma safe_verify_stage [safe_rules]: "safe F (verify_stage env)"
  unfolding verify_stage_def by (intro safe_rules) simp

lemma safe_nonempty [safe_rules]: "safe F (nonempty_folder env)"
  unfolding nonempty_folder_def Let_def
  by (intro safe_rules | simp split: install_action.split | intro conjI impI)+

lemma safe_handle_validation [safe_rules]: "safe F (handle_validation env res)"
  unfolding handle_validation_def Let_def by (intro safe_rules) auto

lemma safe_isValidBranch [safe_rules]: "safe F (isValidBranch env)"
  unfolding isValidBranch_def Let_def by (intro safe_rules)


lemma safe_checkNullBranch [safe_rules]:
  assumes "safe F again"
  shows "safe F (checkNullBranch env again bi)"
proof -
  have c: "safe F (\<lambda>g. if c g then throw e g else m (g\<lparr>m_bFirstTime := False\<rparr>))" if "safe F m" for c e and m :: "bool gather"
  proof -
    have "checked (g\<lparr>m_bFirstTime := False\<rparr>) g' \<Longrightarrow> checked g g'" for g g'
      by (simp add: checked_def item_of_def downloads_def)
    moreover have "m_uiFlags_g (g\<lparr>m_bFirstTime := False\<rparr>) = m_uiFlags_g g" for g by simp
    ultimately show ?thesis using that unfolding safe_def throw_def by (metis checked_refl Inr_inject prod.inject)
  qed
  show ?thesis
    unfolding checkNullBranch_def by (intro safe_rules c assms)
qed

lemma safe_handleInvalidBranch [safe_rules]: "safe F again \<Longrightarrow> safe F (handleInvalidBranch env again)"
  unfolding handleInvalidBranch_def Let_def case_prod_beta by (intro safe_rules)

lemma safe_validate: "(\<And>res. safe F (m res)) \<Longrightarrow> safe F (\<lambda>g. bind_res (validate env g) (\<lambda>res. m res g))"
  by (auto simp: safe_def bind_res_Inr)

lemma safe_check_branch [safe_rules]: "safe F again \<Longrightarrow> safe F (check_branch env again)"
  unfolding check_branch_def Let_def by (intro safe_rules safe_validate)

lemma safe_check_once [safe_rules]: "safe F again \<Longrightarrow> safe F (check_once env again)"
  unfolding check_once_def by (intro safe_rules)

lemma safe_onComplete: "safe F (onComplete_gather env)"
  unfolding onComplete_gather_def checkRequirements_def by (intro safe_rules)

lemma fetch_item_queue:
  "fetch_item env g = Inr (g', r) \<Longrightarrow> downloads g' = downloads g \<and> m_uiFlags_g g' = m_uiFlags_g g"
  by (auto simp: fetch_item_def flags_of_def with_item_def and_then_def change_item_def pure_def throw_def downloads_def
      split: if_splits sum.splits)

text \<open>
  C17: A download that the gathering task starts is of a branch the item has, and that branch can be downloaded
  unless the install is a test.
\<close>

theorem downloads_checked:
  assumes "run_gather env br bu fl h = Inr h'" and "ValidateTask b v \<in> set (task_queue h')" and "ValidateTask b v \<notin> set (task_queue h)"
  shows "\<exists>bi. getBranchById (MCFBranch.m_uiBranch b) (m_pItemInfo h') = Some bi
     \<and> (isDownloadable_branch bi \<or> HasAnyFlags fl GI_FLAG_TEST)"
proof -
  let ?g = "new_gather br bu fl h"
  from assms(1) obtain g2 r where g2: "doRun_gather env ?g = Inr (g2, r)"
    and h': "(case r of Inr _ \<Rightarrow> Inr (g_handle g2) | Inl e \<Rightarrow> onError_gather env e g2) = Inr h'"
    by (auto simp: run_gather_def bind_res_Inr)
  from g2 obtain g1 r1 where g1: "fetch_item env ?g = Inr (g1, r1)" by (auto simp: doRun_gather_def and_then_def bind_res_Inr)
  have q: "downloads g1 = downloads ?g" "m_uiFlags_g g1 = fl"
    using fetch_item_queue [OF g1] by (simp_all add: new_gather_def)
  have "checked g1 g2"
  proof -
    have "safe fl (with_item (\<lambda>i. if HasAnyFlags (m_iStatus i) STATUS_STUB then throw ERR_UNSUPPORTEDPLATFORM
            else if m_bCanceled env then complete_gather env else onComplete_gather env))"
      by (intro safe_rules safe_onComplete)
    then show ?thesis
      using g2 g1 q(2) by (auto simp: doRun_gather_def and_then_def safe_def pure_def checked_refl split: sum.splits if_splits)
  qed
  then have c: "checked g1 g2" "m_uiFlags_g g2 = fl" using q by (simp_all add: checked_def)
  have e: "m_vBranchList (m_pItemInfo h') = m_vBranchList (item_of g2)
      \<and> (ValidateTask b v \<in> set (task_queue h') \<longrightarrow> ValidateTask b v \<in> set (task_queue (g_handle g2)))"
    using h' by (auto simp: onError_gather_def item_of_def Let_def dest: reset_keeps split: sum.splits if_splits)
  then have "(b, v) \<in> downloads g2" using assms(2) by (simp add: downloads_def)
  moreover have "(b, v) \<notin> downloads g1" using assms(3) q by (simp add: downloads_def new_gather_def)
  ultimately have "may_download g2 b" using c(1) by (auto simp: checked_def)
  then show ?thesis using e c(2) by (auto simp: may_download_def getBranchById_def branch_index_def)
qed

section \<open>Examples\<close>

definition demo_gather :: gather_env where
  "demo_gather = \<lparr>g_core = demo_core, m_pGIHH = None, isStopped_g = False, m_bCanceled = False, retrieveItemInfo = (\<lambda>_. Inr),
     isKnownBranch = (\<lambda>_ _. True), user_app_data = ''/home'', getFreeSpace = (\<lambda>_. 1000), isValidFolder = (\<lambda>_. True),
     isFolderEmpty = (\<lambda>_. True), hasNonInstallableTool = (\<lambda>_. - 1)\<rparr>"

theorem space_counted_twice_witness: "validate_space demo_gather ''/home/g'' 900 900 = 0"
  using space_counted_twice [of demo_gather "''/home/g''" 900 900] by (simp add: demo_gather_def)

definition demo_gathered :: item_handle where
  "demo_gathered = projr (run_gather demo_gather (BranchFromInt 7 False) 0 GI_FLAG_NONE (demo_handle demo_game))"

theorem downloads_checked_witness:
  "\<exists>bi. getBranchById 7 (m_pItemInfo demo_gathered) = Some bi \<and> (isDownloadable_branch bi \<or> HasAnyFlags GI_FLAG_NONE GI_FLAG_TEST)"
proof -
  have "\<not> isl (run_gather demo_gather (BranchFromInt 7 False) 0 GI_FLAG_NONE (demo_handle demo_game))" by code_simp
  then have "run_gather demo_gather (BranchFromInt 7 False) 0 GI_FLAG_NONE (demo_handle demo_game) = Inr demo_gathered"
    by (simp add: demo_gathered_def)
  moreover have "ValidateTask (BranchFromInt 7 False) 0 \<in> set (task_queue demo_gathered)" by code_simp
  moreover have "ValidateTask (BranchFromInt 7 False) 0 \<notin> set (task_queue (demo_handle demo_game))" by code_simp
  ultimately show ?thesis using downloads_checked by (fastforce simp: BranchFromInt_def)
qed

definition demo_offline :: gather_env where
  "demo_offline = demo_gather\<lparr>retrieveItemInfo := (\<lambda>_ _. Inl ERR_WEBDL_FAILED)\<rparr>"


text \<open>
  The branch the user chose is checked with the number of the old one: a branch that is known for another platform is
  reported as invalid.
\<close>

lemma choice_checked_as_old:
  assumes "m_pGIHH env = Some w" and "\<not> m_bCanceled env" and "selectBranch w (m_uiMcfBranch g) = (True, b)"
    and "\<not> m_bGlobal b" and "MCFBranch.m_uiBranch b \<noteq> - 1" and "getBranchById (MCFBranch.m_uiBranch b) (item_of g) = None"
    and "\<not> isKnownBranch env (MCFBranch.m_uiBranch (m_uiMcfBranch g)) (m_iId (item_of g))"
  shows "handleInvalidBranch env again g = Inr (g, Inl ERR_BADITEM)"
  using assms by (simp add: handleInvalidBranch_def branch_of_def with_item_def flags_of_def checkNullBranch_def and_then_def throw_def)

end
