(* ===== verification/Item_Group.thy ===== *)
theory Item_Group
  imports Desura_Prelude
begin

text \<open>
  Groups of items that are verified or uninstalled one after the other:
  \<^verbatim>\<open>src/src/shared/usercore/code/ItemTaskGroup.cpp\<close>, with \<open>setTaskGroup\<close> and \<open>force\<close> of \<^verbatim>\<open>ItemHandle.cpp\<close>. Item handles
  are numbers. What a group does to handles and tasks is written to a log: the calls it makes, in their order. Each
  operation is one step; the code has locks for its two lists, but none for the cursors, so two operations at the same
  time are not covered. A call through a null handle is \<open>UNDEFINED\<close>.
\<close>

unbundle bit_operations_syntax

section \<open>State\<close>

datatype group_action = A_VERIFY | A_UNINSTALL | A_OTHER

datatype group_call =
    GroupSet nat | GroupCleared nat | HelperAdded nat | HelperRemoved nat
  | VerifyOveride nat | UninstallOveride nat
  | ProgUpdate nat u32 | McfProgress nat u32 "nat option"

record task_group =
  m_bStarted :: bool
  m_bPaused_group :: bool
  m_bFinal :: bool
  m_uiLastActive :: u32
  m_uiActiveItem :: u32
  m_Action :: group_action
  m_vWaitingList :: "nat list"
  m_vTaskList :: "nat list"
  calls :: "group_call list"

definition UINT_MAX :: u32 where "UINT_MAX = - 1"

definition ItemTaskGroup_new :: "group_action \<Rightarrow> task_group" where
  "ItemTaskGroup_new action =
     \<lparr>m_bStarted = False, m_bPaused_group = False, m_bFinal = False, m_uiLastActive = - 1, m_uiActiveItem = - 1,
      m_Action = action, m_vWaitingList = [], m_vTaskList = [], calls = []\<rparr>"

definition log_call :: "group_call \<Rightarrow> task_group \<Rightarrow> task_group" where
  "log_call c g = g\<lparr>calls := calls g @ [c]\<rparr>"

definition list_size :: "task_group \<Rightarrow> nat" where
  "list_size g = length (m_vWaitingList g)"

section \<open>Operations\<close>

definition getActiveItem :: "task_group \<Rightarrow> nat option" where
  "getActiveItem g =
     (if unat (m_uiActiveItem g) \<ge> list_size g then None else Some (m_vWaitingList g ! unat (m_uiActiveItem g)))"

definition other_tasks :: "task_group \<Rightarrow> nat list" where
  "other_tasks g = filter (\<lambda>t. Some t \<noteq> getActiveItem g) (m_vTaskList g)"

definition onProgressUpdate :: "u32 \<Rightarrow> task_group \<Rightarrow> task_group" where
  "onProgressUpdate progress g =
     fold (\<lambda>t. log_call (McfProgress t progress (getActiveItem g))) (other_tasks g) g"

definition send_count :: "task_group \<Rightarrow> task_group" where
  "send_count g = fold (\<lambda>t. log_call (ProgUpdate t (of_nat (list_size g)))) (other_tasks g) g"

definition cancelAll :: "task_group \<Rightarrow> task_group" where
  "cancelAll g =
     (fold (\<lambda>i. log_call (GroupCleared i)) (m_vWaitingList g) (g\<lparr>m_vTaskList := []\<rparr>))\<lparr>m_vWaitingList := []\<rparr>"

definition startAction :: "nat \<Rightarrow> task_group \<Rightarrow> task_group" where
  "startAction i g =
     (case m_Action g of
        A_VERIFY \<Rightarrow> log_call (VerifyOveride i) g
      | A_UNINSTALL \<Rightarrow> log_call (UninstallOveride i) g
      | A_OTHER \<Rightarrow> g)"

definition finish :: "task_group \<Rightarrow> task_group" where
  "finish g = cancelAll g"

definition leave_active :: "task_group \<Rightarrow> task_group" where
  "leave_active g = (case getActiveItem g of None \<Rightarrow> g | Some i \<Rightarrow> log_call (HelperRemoved i) g)"

definition advance :: "task_group \<Rightarrow> task_group res" where
  "advance g =
     (if unat (m_uiActiveItem g + 1) \<ge> list_size g then
        let g = g\<lparr>m_uiLastActive := m_uiActiveItem g, m_uiActiveItem := UINT_MAX\<rparr>
        in Inr (if m_bFinal g then finish g else g)
      else
        let g = (if m_uiLastActive g \<noteq> UINT_MAX
                 then g\<lparr>m_uiActiveItem := m_uiLastActive g, m_uiLastActive := UINT_MAX\<rparr> else g);
            g = g\<lparr>m_uiActiveItem := m_uiActiveItem g + 1\<rparr>
        in (case getActiveItem g of
              None \<Rightarrow> Inl UNDEFINED
            | Some i \<Rightarrow> Inr (startAction i (log_call (HelperAdded i) g))))"

definition nextItem :: "task_group \<Rightarrow> task_group res" where
  "nextItem g = advance (leave_active (onProgressUpdate 100 g))"

text \<open>
  \<open>setTaskGroup\<close> of an item handle, without force: it refuses a group while the item is in a stage
  (\<open>in_stage\<close>); a new group makes a task for the item.
\<close>

definition newTask_group :: "nat \<Rightarrow> task_group \<Rightarrow> task_group" where
  "newTask_group i g = g\<lparr>m_vTaskList := m_vTaskList g @ [i]\<rparr>"

definition setTaskGroup :: "bool \<Rightarrow> nat \<Rightarrow> task_group \<Rightarrow> task_group \<times> bool" where
  "setTaskGroup in_stage i g = (if in_stage then (g, False) else (newTask_group i (log_call (GroupSet i) g), True))"

definition addItem :: "bool \<Rightarrow> nat option \<Rightarrow> task_group \<Rightarrow> (task_group \<times> bool) res" where
  "addItem in_stage item g =
     (case item of None \<Rightarrow> Inr (g, False)
      | Some i \<Rightarrow>
          case setTaskGroup in_stage i g of
            (g, False) \<Rightarrow> Inr (g, False)
          | (g, True) \<Rightarrow>
              if i \<in> set (m_vWaitingList g) then Inr (g, True)
              else
                let g = g\<lparr>m_vWaitingList := m_vWaitingList g @ [i]\<rparr> in
                bind_res (if m_bStarted g \<and> m_uiActiveItem g = UINT_MAX then nextItem g else Inr g) (\<lambda>g.
                Inr (send_count g, True)))"

definition index_of :: "nat \<Rightarrow> nat list \<Rightarrow> nat option" where
  "index_of i xs = find (\<lambda>x. xs ! x = i) [0 ..< length xs]"

definition removeItem :: "nat option \<Rightarrow> task_group \<Rightarrow> task_group \<times> bool" where
  "removeItem item g =
     (case item of None \<Rightarrow> (g, False)
      | Some i \<Rightarrow>
          (send_count
            (case index_of i (m_vWaitingList g) of
               None \<Rightarrow> g
             | Some x \<Rightarrow>
                 let act = m_uiActiveItem g;
                     g = g\<lparr>m_uiActiveItem := (if unat act > x then act - 1 else if unat act = x then - 1 else act)\<rparr>;
                     g = (if unat (m_uiLastActive g) \<ge> x then g\<lparr>m_uiLastActive := m_uiLastActive g - 1\<rparr> else g);
                     g = g\<lparr>m_vWaitingList := take x (m_vWaitingList g) @ drop (Suc x) (m_vWaitingList g)\<rparr>
                 in log_call (GroupCleared i) (log_call (HelperRemoved i) g)),
           True))"

definition group_finalize :: "task_group \<Rightarrow> task_group" where
  "group_finalize g = (let g = g\<lparr>m_bFinal := True\<rparr> in if getActiveItem g = None then finish g else g)"

definition group_start :: "task_group \<Rightarrow> task_group res" where
  "group_start g = (let g = g\<lparr>m_bStarted := True\<rparr> in if getActiveItem g = None then nextItem g else Inr g)"

definition group_pause :: "task_group \<Rightarrow> task_group" where "group_pause g = g\<lparr>m_bPaused_group := True\<rparr>"
definition group_unpause :: "task_group \<Rightarrow> task_group" where "group_unpause g = g\<lparr>m_bPaused_group := False\<rparr>"
definition group_cancel :: "task_group \<Rightarrow> task_group" where "group_cancel g = g\<lparr>m_bStarted := False\<rparr>"

text \<open>\<open>onComplete\<close>, \<open>onVerifyComplete\<close> and \<open>onError\<close> all go on to the next item.\<close>

definition onComplete :: "task_group \<Rightarrow> task_group res" where "onComplete g = nextItem g"

text \<open>What a task is told when it starts to wait: one message for each item that is done already.\<close>

definition updateEvents :: "nat \<Rightarrow> task_group \<Rightarrow> task_group res" where
  "updateEvents task g =
     (let cur = m_uiActiveItem g;
          cur = (if cur = UINT_MAX \<and> m_uiLastActive g \<noteq> UINT_MAX then m_uiLastActive g + 1 else cur)
      in if cur = UINT_MAX then Inr g
         else if unat cur > list_size g then Inl UNDEFINED
         else Inr (fold (\<lambda>i. log_call (McfProgress task 100 (Some i))) (take (unat cur) (m_vWaitingList g)) g))"

definition minus_done :: "task_group \<Rightarrow> u32 \<Rightarrow> u32" where
  "minus_done g res =
     (if m_uiActiveItem g \<noteq> UINT_MAX then res - (m_uiActiveItem g + 1)
      else if m_uiLastActive g \<noteq> UINT_MAX then res - m_uiLastActive g else res)"

definition getPos :: "nat \<Rightarrow> task_group \<Rightarrow> u32" where
  "getPos i g =
     minus_done g (case index_of i (m_vWaitingList g) of None \<Rightarrow> 0 | Some x \<Rightarrow> of_nat x + 1)"

definition getCount :: "task_group \<Rightarrow> u32" where
  "getCount g = minus_done g (of_nat (list_size g))"

text \<open>
  \<open>ItemHandle::force\<close> of an item of this group. Taking an item out of the list also resets the group of its handle,
  through which \<open>startAction\<close> is then called.
\<close>

definition force :: "nat \<Rightarrow> task_group \<Rightarrow> task_group res" where
  "force i g =
     (case removeItem (Some i) g of
        (h, _) \<Rightarrow> if i \<in> set (m_vWaitingList g) then Inl UNDEFINED else Inr (startAction i h))"

section \<open>Which items were begun\<close>

fun begun :: "group_call list \<Rightarrow> nat list" where
  "begun [] = []"
| "begun (VerifyOveride i # cs) = i # begun cs"
| "begun (UninstallOveride i # cs) = i # begun cs"
| "begun (c # cs) = begun cs"

fun is_begin :: "group_call \<Rightarrow> bool" where
  "is_begin (VerifyOveride i) = True"
| "is_begin (UninstallOveride i) = True"
| "is_begin c = False"

lemma begun_append [simp]: "begun (as @ bs) = begun as @ begun bs"
  by (induction as rule: begun.induct) auto

lemma begun_one [simp]: "\<not> is_begin c \<Longrightarrow> begun [c] = []"
  by (cases c) auto

text \<open>Logging changes nothing but the log.\<close>

lemma log_call_simps [frame_simps]:
  "m_uiActiveItem (log_call c g) = m_uiActiveItem g" "m_uiLastActive (log_call c g) = m_uiLastActive g"
  "m_vWaitingList (log_call c g) = m_vWaitingList g" "m_vTaskList (log_call c g) = m_vTaskList g"
  "m_bStarted (log_call c g) = m_bStarted g" "m_bFinal (log_call c g) = m_bFinal g" "m_Action (log_call c g) = m_Action g"
  "list_size (log_call c g) = list_size g" "getActiveItem (log_call c g) = getActiveItem g"
  "calls (log_call c g) = calls g @ [c]"
  by (simp_all add: log_call_def list_size_def getActiveItem_def)

lemma log_fold [frame_simps]:
  "m_uiActiveItem (fold (\<lambda>t. log_call (c t)) ts g) = m_uiActiveItem g"
  "m_uiLastActive (fold (\<lambda>t. log_call (c t)) ts g) = m_uiLastActive g"
  "m_vWaitingList (fold (\<lambda>t. log_call (c t)) ts g) = m_vWaitingList g"
  "m_vTaskList (fold (\<lambda>t. log_call (c t)) ts g) = m_vTaskList g"
  "m_bStarted (fold (\<lambda>t. log_call (c t)) ts g) = m_bStarted g"
  "m_bFinal (fold (\<lambda>t. log_call (c t)) ts g) = m_bFinal g"
  "m_Action (fold (\<lambda>t. log_call (c t)) ts g) = m_Action g"
  "list_size (fold (\<lambda>t. log_call (c t)) ts g) = list_size g"
  "getActiveItem (fold (\<lambda>t. log_call (c t)) ts g) = getActiveItem g"
  "calls (fold (\<lambda>t. log_call (c t)) ts g) = calls g @ map c ts"
  by (induction ts arbitrary: g) (simp_all add: frame_simps)

lemma begun_map [simp]: "(\<And>t. \<not> is_begin (c t)) \<Longrightarrow> begun (map c ts) = []"
  by (induction ts) (metis begun.simps(1) begun_one begun_append append_Nil list.simps(8,9) append_Cons)+

definition quiet :: "(task_group \<Rightarrow> task_group) \<Rightarrow> bool" where
  "quiet f \<longleftrightarrow> (\<forall>g. m_uiActiveItem (f g) = m_uiActiveItem g \<and> m_uiLastActive (f g) = m_uiLastActive g
     \<and> m_vWaitingList (f g) = m_vWaitingList g \<and> m_bStarted (f g) = m_bStarted g \<and> m_bFinal (f g) = m_bFinal g
     \<and> m_Action (f g) = m_Action g \<and> begun (calls (f g)) = begun (calls g))"

lemma quiet_ops: "quiet (onProgressUpdate p)" "quiet send_count" "\<not> is_begin c \<Longrightarrow> quiet (log_call c)" "quiet (newTask_group i)"
  by (simp_all add: quiet_def onProgressUpdate_def send_count_def newTask_group_def frame_simps)

section \<open>The queue as a machine\<close>

datatype group_event = AddItem bool nat | Start | Complete | Pause | Unpause | Cancel | Progress u32

fun group_step :: "task_group \<Rightarrow> group_event \<Rightarrow> task_group res" where
  "group_step g (AddItem in_stage i) = bind_res (addItem in_stage (Some i) g) (\<lambda>(g, _). Inr g)"
| "group_step g Start = group_start g"
| "group_step g Complete = onComplete g"
| "group_step g Pause = Inr (group_pause g)"
| "group_step g Unpause = Inr (group_unpause g)"
| "group_step g Cancel = Inr (group_cancel g)"
| "group_step g (Progress p) = Inr (onProgressUpdate p g)"

definition begun_count :: "task_group \<Rightarrow> nat" where
  "begun_count g = length (begun (calls g))"

definition idle :: "task_group \<Rightarrow> bool" where
  "idle g \<longleftrightarrow> m_uiActiveItem g = UINT_MAX"

text \<open>The two cursors when \<open>d\<close> items were begun: nothing yet; the last one is active; or it is done and remembered.\<close>

definition cursors :: "nat \<Rightarrow> u32 \<Rightarrow> u32 \<Rightarrow> bool" where
  "cursors d act lst \<longleftrightarrow>
     d = 0 \<and> act = UINT_MAX \<and> lst = UINT_MAX \<or> d \<noteq> 0 \<and> act = of_nat (d - 1) \<and> lst = UINT_MAX
     \<or> d \<noteq> 0 \<and> act = UINT_MAX \<and> lst = of_nat (d - 1)"

text \<open>
  The items begun are the first ones of the list.
\<close>

definition group_inv :: "task_group \<Rightarrow> bool" where
  "group_inv g \<longleftrightarrow>
     distinct (m_vWaitingList g) \<and> list_size g < 2 ^ 32 - 1 \<and> m_Action g \<noteq> A_OTHER \<and> \<not> m_bFinal g
     \<and> begun_count g \<le> list_size g \<and> begun (calls g) = take (begun_count g) (m_vWaitingList g)
     \<and> cursors (begun_count g) (m_uiActiveItem g) (m_uiLastActive g)"

text \<open>
  What may happen when: room in the list; a start of a group with nothing left to do needs an active item or an empty
  past; completion is only told while the group helps an active item.
\<close>

fun group_ok :: "task_group \<Rightarrow> group_event \<Rightarrow> bool" where
  "group_ok g (AddItem in_stage i) \<longleftrightarrow> list_size g + 1 < 2 ^ 32 - 1"
| "group_ok g Start \<longleftrightarrow> \<not> idle g \<or> begun_count g < list_size g \<or> begun_count g = 0"
| "group_ok g Complete \<longleftrightarrow> \<not> idle g"
| "group_ok g _ \<longleftrightarrow> True"

lemma group_inv_quiet: "quiet f \<Longrightarrow> group_inv (f g) = group_inv g"
  by (simp add: quiet_def group_inv_def begun_count_def list_size_def)

lemma unat_UINT_MAX: "unat UINT_MAX = 2 ^ 32 - 1"
  by (simp add: UINT_MAX_def unsigned_minus_1_eq_mask mask_eq_exp_minus_1)

lemma small_u32: "n < 2 ^ 32 - 1 \<Longrightarrow> unat (of_nat n :: u32) = n \<and> (of_nat n :: u32) \<noteq> UINT_MAX"
proof -
  assume n: "n < 2 ^ 32 - 1"
  then have u: "unat (of_nat n :: u32) = n" by (simp add: unat_of_nat take_bit_nat_eq_self)
  then show ?thesis using n unat_UINT_MAX by auto
qed

lemma getActiveItem_inv:
  assumes "group_inv g"
  shows "getActiveItem g = (if idle g then None else Some (m_vWaitingList g ! (begun_count g - 1)))"
proof -
  show ?thesis
    using unat_UINT_MAX assms small_u32 [of "begun_count g - 1"]
    by (auto simp: group_inv_def cursors_def getActiveItem_def idle_def split: if_splits)
qed

lemma leave_active_quiet: "quiet leave_active"
  by (simp add: quiet_def leave_active_def frame_simps split: option.split)

lemma startAction_fields:
  assumes "m_Action g \<noteq> A_OTHER"
  shows "m_uiActiveItem (startAction i g) = m_uiActiveItem g" "m_uiLastActive (startAction i g) = m_uiLastActive g"
    "m_vWaitingList (startAction i g) = m_vWaitingList g" "m_bStarted (startAction i g) = m_bStarted g"
    "m_bFinal (startAction i g) = m_bFinal g" "m_Action (startAction i g) = m_Action g"
    "begun (calls (startAction i g)) = begun (calls g) @ [i]"
  using assms by (cases "m_Action g"; simp add: startAction_def frame_simps)+

text \<open>The next item: the first one not begun yet, unless all are done.\<close>

definition goes_on :: "task_group \<Rightarrow> task_group \<Rightarrow> bool" where
  "goes_on g t \<longleftrightarrow> group_inv t \<and> m_vWaitingList t = m_vWaitingList g \<and> m_bStarted t = m_bStarted g
     \<and> begun (calls t) = take (Suc (begun_count g)) (m_vWaitingList g) \<and> (idle t \<longleftrightarrow> begun_count g = list_size g)"

lemma goes_on_begin:
  assumes inv: "group_inv g" and d: "begun_count g < list_size g"
    and g': "g' = g\<lparr>m_uiActiveItem := of_nat (begun_count g), m_uiLastActive := UINT_MAX\<rparr>"
  shows "\<exists>i. getActiveItem g' = Some i \<and> goes_on g (startAction i (log_call (HelperAdded i) g'))"
proof -
  let ?d = "begun_count g" and ?i = "m_vWaitingList g ! begun_count g"
  have small: "unat (of_nat ?d :: u32) = ?d" "(of_nat ?d :: u32) \<noteq> UINT_MAX"
    using inv d small_u32 [of ?d] by (auto simp: group_inv_def)
  have act: "m_Action (log_call (HelperAdded ?i) g') \<noteq> A_OTHER" using inv by (simp add: group_inv_def g' frame_simps)
  note f = startAction_fields [OF act]
  have begun: "begun (calls (startAction ?i (log_call (HelperAdded ?i) g'))) = take (Suc ?d) (m_vWaitingList g)"
    using inv d f(7) by (simp add: group_inv_def g' frame_simps list_size_def take_Suc_conv_app_nth)
  then have count: "begun_count (startAction ?i (log_call (HelperAdded ?i) g')) = Suc ?d"
    using d by (simp add: begun_count_def list_size_def)
  have "group_inv (startAction ?i (log_call (HelperAdded ?i) g'))"
    using inv d begun count f(1-6) by (simp add: group_inv_def cursors_def g' frame_simps list_size_def)
  then have "goes_on g (startAction ?i (log_call (HelperAdded ?i) g'))"
    using begun d f(1,3,4) small by (simp add: goes_on_def idle_def g' frame_simps)
  moreover have "getActiveItem g' = Some ?i" using small d by (simp add: getActiveItem_def g' list_size_def)
  ultimately show ?thesis by blast
qed

lemma advance_inv:
  assumes inv: "group_inv g" and ok: "\<not> idle g \<or> begun_count g < list_size g \<or> begun_count g = 0"
  shows "\<exists>t. advance g = Inr t \<and> goes_on g t"
proof -
  let ?d = "begun_count g" and ?n = "list_size g"
  have n: "?d \<le> ?n" "?n < 2 ^ 32 - 1" using inv by (simp_all add: group_inv_def)
  have zero: "UINT_MAX + 1 = 0" by (simp add: UINT_MAX_def)
  have d1: "of_nat (?d - 1) + 1 = (of_nat ?d :: u32)" if "?d \<noteq> 0" using that by (cases ?d) simp_all
  have un: "unat (of_nat ?d :: u32) = ?d" using n small_u32 [of ?d] by simp
  consider (first) "?d = 0" "m_uiActiveItem g = UINT_MAX" "m_uiLastActive g = UINT_MAX"
    | (running) "?d \<noteq> 0" "m_uiActiveItem g = of_nat (?d - 1)" "m_uiLastActive g = UINT_MAX"
    | (waiting) "?d \<noteq> 0" "m_uiActiveItem g = UINT_MAX" "m_uiLastActive g = of_nat (?d - 1)"
    using inv by (auto simp: group_inv_def cursors_def)
  then show ?thesis
  proof cases
    case first
    show ?thesis
    proof (cases "?n = 0")
      case True
      then have "m_vWaitingList g = []" by (simp add: list_size_def)
      then show ?thesis using first inv True
        by (simp add: advance_def Let_def zero goes_on_def idle_def group_inv_def cursors_def begun_count_def list_size_def)
    next
      case False
      have g': "g\<lparr>m_uiActiveItem := 0\<rparr> = g\<lparr>m_uiActiveItem := of_nat ?d, m_uiLastActive := UINT_MAX\<rparr>"
        using first by simp
      from goes_on_begin [OF inv _ g'] first False show ?thesis by (auto simp: advance_def Let_def zero)
    qed
  next
    case running
    have next_u: "m_uiActiveItem g + 1 = of_nat ?d" using running d1 by simp
    show ?thesis
    proof (cases "?d = ?n")
      case True
      have "advance g = Inr (g\<lparr>m_uiLastActive := m_uiActiveItem g, m_uiActiveItem := UINT_MAX\<rparr>)"
        using True un inv by (simp add: advance_def next_u group_inv_def)
      then show ?thesis using running inv True
        by (simp add: goes_on_def idle_def group_inv_def cursors_def begun_count_def list_size_def)
    next
      case False
      have g': "g\<lparr>m_uiActiveItem := of_nat ?d\<rparr> = g\<lparr>m_uiActiveItem := of_nat ?d, m_uiLastActive := UINT_MAX\<rparr>"
        using running by simp
      from goes_on_begin [OF inv _ g'] running False n un show ?thesis by (auto simp: advance_def Let_def next_u)
    qed
  next
    case waiting
    then have lt: "?d < ?n" using ok by (auto simp: idle_def)
    have c1: "\<not> list_size g \<le> unat (m_uiActiveItem g + 1)" using waiting lt by (simp add: zero)
    have "(of_nat (?d - 1) :: u32) \<noteq> UINT_MAX" using n small_u32 [of "?d - 1"] by simp
    then have c2: "(m_uiLastActive g \<noteq> UINT_MAX) = True" using waiting by simp
    let ?g1 = "g\<lparr>m_uiActiveItem := m_uiLastActive g, m_uiLastActive := UINT_MAX\<rparr>"
    have adv: "advance g = (case getActiveItem (?g1\<lparr>m_uiActiveItem := m_uiActiveItem ?g1 + 1\<rparr>) of None \<Rightarrow> Inl UNDEFINED
        | Some i \<Rightarrow> Inr (startAction i (log_call (HelperAdded i) (?g1\<lparr>m_uiActiveItem := m_uiActiveItem ?g1 + 1\<rparr>))))"
      by (simp only: advance_def Let_def c1 c2 if_False if_True)
    have "?g1\<lparr>m_uiActiveItem := m_uiActiveItem ?g1 + 1\<rparr> = g\<lparr>m_uiActiveItem := of_nat ?d, m_uiLastActive := UINT_MAX\<rparr>"
      using waiting d1 by (cases g) simp
    from goes_on_begin [OF inv lt this] show ?thesis unfolding adv by auto
  qed
qed

lemma nextItem_inv:
  assumes inv: "group_inv g" and "\<not> idle g \<or> begun_count g < list_size g \<or> begun_count g = 0"
  shows "\<exists>t. nextItem g = Inr t \<and> goes_on g t"
proof -
  let ?h = "leave_active (onProgressUpdate 100 g)"
  have q: "m_uiActiveItem ?h = m_uiActiveItem g" "m_vWaitingList ?h = m_vWaitingList g" "m_bStarted ?h = m_bStarted g"
    "begun (calls ?h) = begun (calls g)"
    using leave_active_quiet quiet_ops(1) by (simp_all add: quiet_def)
  have "group_inv ?h" using inv by (simp add: group_inv_quiet leave_active_quiet quiet_ops)
  moreover have "\<not> idle ?h \<or> begun_count ?h < list_size ?h \<or> begun_count ?h = 0"
    using assms(2) q by (simp add: idle_def begun_count_def list_size_def)
  ultimately show ?thesis
    using advance_inv [of ?h] q by (simp add: nextItem_def goes_on_def begun_count_def list_size_def)
qed

section \<open>Runs\<close>

lemma addItem_inv:
  assumes "group_inv g" and "list_size g + 1 < 2 ^ 32 - 1"
  shows "\<exists>t b. addItem in_stage (Some i) g = Inr (t, b) \<and> group_inv t"
proof (cases "in_stage \<or> i \<in> set (m_vWaitingList g)")
  case True
  have "group_inv (newTask_group i (log_call (GroupSet i) g))"
    using assms(1) by (simp add: group_inv_quiet quiet_ops)
  then show ?thesis using True assms(1) by (auto simp: addItem_def setTaskGroup_def newTask_group_def frame_simps)
next
  case False
  let ?g = "newTask_group i (log_call (GroupSet i) g)"
  let ?h = "?g\<lparr>m_vWaitingList := m_vWaitingList ?g @ [i]\<rparr>"
  have h: "group_inv ?h" "begun_count ?h < list_size ?h"
    using assms False by (auto simp: group_inv_def newTask_group_def frame_simps list_size_def begun_count_def)
  have "\<exists>t. (if m_bStarted ?h \<and> m_uiActiveItem ?h = UINT_MAX then nextItem ?h else Inr ?h) = Inr t \<and> group_inv t"
    using nextItem_inv [OF h(1)] h by (auto simp: goes_on_def)
  then obtain t where t: "(if m_bStarted ?h \<and> m_uiActiveItem ?h = UINT_MAX then nextItem ?h else Inr ?h) = Inr t" "group_inv t"
    by blast
  have "addItem in_stage (Some i) g = bind_res (if m_bStarted ?h \<and> m_uiActiveItem ?h = UINT_MAX then nextItem ?h else Inr ?h)
      (\<lambda>g. Inr (send_count g, True))"
    using False by (simp add: addItem_def setTaskGroup_def newTask_group_def frame_simps Let_def)
  moreover have "group_inv (send_count t)" using t(2) by (simp add: group_inv_quiet quiet_ops)
  ultimately have "addItem in_stage (Some i) g = Inr (send_count t, True)" by (simp only: t(1) bind_res_simps)
  with \<open>group_inv (send_count t)\<close> show ?thesis by blast
qed

lemma group_step_inv:
  assumes "group_inv g" and "group_ok g e"
  shows "\<exists>t. group_step g e = Inr t \<and> group_inv t"
proof -
  have start: "group_inv (g\<lparr>m_bStarted := b\<rparr>)" for b
    using assms(1) by (simp add: group_inv_def list_size_def begun_count_def)
  show ?thesis
  proof (cases e)
    case (AddItem in_stage i)
    then show ?thesis using addItem_inv [OF assms(1)] assms(2) by (auto simp: bind_res_Inr)
  next
    case Start
    then show ?thesis
      using assms nextItem_inv [OF start [of True]] getActiveItem_inv [OF start [of True]] start [of True]
      by (auto simp: group_start_def Let_def goes_on_def idle_def begun_count_def list_size_def split: if_splits)
  next
    case Complete
    then show ?thesis using assms nextItem_inv [OF assms(1)] by (auto simp: onComplete_def goes_on_def)
  next
    case (Progress p)
    then show ?thesis using assms(1) by (simp add: group_inv_quiet quiet_ops)
  qed (use assms(1) start [of False] in \<open>simp_all add: group_pause_def group_unpause_def group_cancel_def
      group_inv_def list_size_def begun_count_def\<close>)
qed

interpretation group: fallible_machine group_step group_inv group_ok
  by unfold_locales (rule group_step_inv)

lemma group_inv_new: "a \<noteq> A_OTHER \<Longrightarrow> group_inv (ItemTaskGroup_new a)"
  by (simp add: group_inv_def cursors_def ItemTaskGroup_new_def list_size_def begun_count_def UINT_MAX_def)

text \<open>A group whose items are all done must not be started again.\<close>

lemma restart_breaks:
  assumes "group_inv g" and "idle g" and "begun_count g = list_size g" and "0 < list_size g"
  shows "group_start g = Inl UNDEFINED"
proof -
  have cur: "m_uiActiveItem g = UINT_MAX" "m_uiLastActive g = of_nat (list_size g - 1)"
    using assms by (auto simp: group_inv_def cursors_def idle_def)
  have size: "list_size g < 2 ^ 32 - 1" using assms(1) by (simp add: group_inv_def)
  have lst: "m_uiLastActive g \<noteq> UINT_MAX" "m_uiLastActive g + 1 = of_nat (list_size g)"
    using small_u32 [of "list_size g - 1"] size assms(4) cur(2) by (simp_all add: of_nat_diff)
  have big: "unat (of_nat (list_size g) :: u32) = list_size g" using small_u32 size by blast
  have none: "getActiveItem g = None" using assms(2) size by (simp add: getActiveItem_def idle_def unat_UINT_MAX list_size_def)
  let ?h = "leave_active (onProgressUpdate 100 (g\<lparr>m_bStarted := True\<rparr>))"
  have same: "m_uiActiveItem ?h = m_uiActiveItem g" "m_uiLastActive ?h = m_uiLastActive g" "m_vWaitingList ?h = m_vWaitingList g"
    by (simp_all add: leave_active_def onProgressUpdate_def frame_simps split: option.split)
  have zero: "UINT_MAX + 1 = (0 :: u32)" by (simp add: UINT_MAX_def)
  show ?thesis
    using none lst big assms(4) size unat_UINT_MAX
    by (simp add: group_start_def nextItem_def advance_def Let_def same cur(1) zero list_size_def getActiveItem_def)
qed

text \<open>C12: Whatever is added, started, completed, paused and cancelled in any order, one call after the other, when an active item is
  there for every completion and a group whose items are all done is not started again: the group begins its items one
  after the other in the order of its list, each at most once, never the next one before the last, and no call goes
  through a null handle. Starting it again when all its items are done does go through one.\<close>

theorem group_begins_in_order:
  assumes "a \<noteq> A_OTHER" and "permitted group_step group_ok (ItemTaskGroup_new a) es"
  shows "\<exists>t k. runs group_step (ItemTaskGroup_new a) es = Inr t \<and> distinct (m_vWaitingList t)
    \<and> begun (calls t) = take k (m_vWaitingList t) \<and> k \<le> length (m_vWaitingList t)
    \<and> (getActiveItem t = None \<or> k > 0 \<and> getActiveItem t = Some (m_vWaitingList t ! (k - 1)))
    \<and> (getActiveItem t = None \<and> k = length (m_vWaitingList t) \<and> 0 < k \<longrightarrow> group_start t = Inl UNDEFINED)"
proof -
  obtain t where t: "runs group_step (ItemTaskGroup_new a) es = Inr t" "group_inv t"
    using group.run_inv [OF group_inv_new [OF assms(1)] assms(2)] by blast
  then have "distinct (m_vWaitingList t) \<and> begun (calls t) = take (begun_count t) (m_vWaitingList t)
      \<and> begun_count t \<le> length (m_vWaitingList t)"
    by (simp add: group_inv_def list_size_def)
  moreover have act: "getActiveItem t = None \<and> idle t \<or> begun_count t > 0 \<and> getActiveItem t = Some (m_vWaitingList t ! (begun_count t - 1))"
    using getActiveItem_inv [OF t(2)] t(2) by (auto simp: group_inv_def cursors_def idle_def)
  moreover have "group_start t = Inl UNDEFINED" if "getActiveItem t = None \<and> begun_count t = length (m_vWaitingList t) \<and> 0 < begun_count t"
    using restart_breaks [OF t(2)] act that by (auto simp: list_size_def)
  ultimately show ?thesis using t(1) by (intro exI [of _ t] exI [of _ "begun_count t"]) auto
qed

theorem group_begins_in_order_witness:
  "\<exists>t k. runs group_step (ItemTaskGroup_new A_VERIFY) [AddItem False 3, Start, Complete] = Inr t
    \<and> begun (calls t) = take k (m_vWaitingList t)"
proof -
  have "permitted group_step group_ok (ItemTaskGroup_new A_VERIFY) [AddItem False 3, Start, Complete]"
    by (simp add: ItemTaskGroup_new_def idle_def UINT_MAX_def begun_count_def list_size_def group_start_def onComplete_def
        addItem_def setTaskGroup_def newTask_group_def nextItem_def advance_def leave_active_def onProgressUpdate_def
        send_count_def other_tasks_def getActiveItem_def log_call_def startAction_def unsigned_minus_1_eq_mask
        mask_eq_exp_minus_1)
  then show ?thesis using group_begins_in_order [of A_VERIFY] by blast
qed

text \<open>A group that is not started only collects.\<close>

definition collecting :: "nat list \<Rightarrow> task_group \<Rightarrow> bool" where
  "collecting items g \<longleftrightarrow> group_inv g \<and> \<not> m_bStarted g \<and> begun_count g = 0 \<and> m_vWaitingList g = items"

lemma collect_one:
  assumes "collecting items g" and "i \<notin> set items" and "length items + 1 < 2 ^ 32 - 1"
  shows "\<exists>t. group_step g (AddItem False i) = Inr t \<and> collecting (items @ [i]) t"
proof -
  let ?h = "(newTask_group i (log_call (GroupSet i) g))\<lparr>m_vWaitingList := items @ [i]\<rparr>"
  have "collecting (items @ [i]) ?h"
    using assms by (auto simp: collecting_def group_inv_def newTask_group_def frame_simps list_size_def begun_count_def)
  moreover have "collecting is (send_count k) = collecting is k" for "is" k
    using quiet_ops(2) by (simp add: collecting_def group_inv_quiet quiet_def begun_count_def)
  moreover have "group_step g (AddItem False i) = Inr (send_count ?h)"
    using assms by (simp add: addItem_def setTaskGroup_def newTask_group_def frame_simps collecting_def)
  ultimately show ?thesis by blast
qed

lemma collect_all:
  "collecting items g \<Longrightarrow> distinct (items @ is) \<Longrightarrow> length (items @ is) < 2 ^ 32 - 1 \<Longrightarrow>
   \<exists>t. runs group_step g (map (AddItem False) is) = Inr t \<and> collecting (items @ is) t"
proof (induction "is" arbitrary: items g)
  case (Cons i "is")
  then obtain t where t: "group_step g (AddItem False i) = Inr t" "collecting (items @ [i]) t"
    using collect_one [of items g i] by auto
  then show ?case using Cons.IH [of "items @ [i]" t] Cons.prems by auto
qed simp

text \<open>A group that has begun \<open>d\<close> items, the last of which is active unless all are done.\<close>

definition going :: "nat list \<Rightarrow> nat \<Rightarrow> task_group \<Rightarrow> bool" where
  "going items d g \<longleftrightarrow> group_inv g \<and> m_vWaitingList g = items \<and> begun (calls g) = take d items \<and> \<not> idle g \<and> 0 < d \<and> d \<le> length items"

lemma complete_all:
  assumes "going items d g"
  shows "\<exists>t. runs group_step g (replicate (length items - d) Complete) = Inr t \<and> going items (length items) t"
  using assms
proof (induction "length items - d" arbitrary: d g)
  case 0
  then show ?case by (auto simp: going_def)
next
  case (Suc k)
  have "begun_count g = d" using Suc.prems by (simp add: going_def begun_count_def)
  moreover obtain t where "nextItem g = Inr t" "goes_on g t" using nextItem_inv [of g] Suc.prems by (auto simp: going_def)
  ultimately have t: "group_step g Complete = Inr t" "going items (Suc d) t"
    using Suc.prems Suc.hyps(2) by (auto simp: goes_on_def going_def onComplete_def list_size_def)
  have "k = length items - Suc d" using Suc.hyps(2) by simp
  from Suc.hyps(1) [OF this t(2)] t(1) show ?case
    using \<open>k = length items - Suc d\<close> by (simp flip: Suc.hyps(2))
qed

text \<open>C11: A group that gets its items, is started, and hears of one completion for each item begins every one of them,
  in the order they were added, and is then idle.\<close>

theorem group_runs_all:
  assumes "a \<noteq> A_OTHER" and "distinct items" and "items \<noteq> []" and "length items < 2 ^ 32 - 1"
  shows "\<exists>t. runs group_step (ItemTaskGroup_new a) (map (AddItem False) items @ [Start] @ replicate (length items) Complete) = Inr t
    \<and> begun (calls t) = items \<and> getActiveItem t = None"
proof -
  have "collecting [] (ItemTaskGroup_new a)"
    using group_inv_new [OF assms(1)] by (simp add: collecting_def ItemTaskGroup_new_def begun_count_def)
  from collect_all [OF this, of items] assms obtain g where
    g: "runs group_step (ItemTaskGroup_new a) (map (AddItem False) items) = Inr g" "collecting items g" by auto
  let ?g = "g\<lparr>m_bStarted := True\<rparr>"
  have inv: "group_inv ?g" "begun_count ?g = 0" "m_vWaitingList ?g = items"
    using g(2) by (auto simp: collecting_def group_inv_def list_size_def begun_count_def)
  then have "idle ?g" by (simp add: group_inv_def cursors_def idle_def)
  then have "getActiveItem ?g = None" using getActiveItem_inv [OF inv(1)] by simp
  moreover obtain s where s: "nextItem ?g = Inr s" "goes_on ?g s" using nextItem_inv [OF inv(1)] inv(2) by blast
  ultimately have start: "group_step g Start = Inr s" by (simp add: group_start_def)
  have "going items 1 s" using s(2) inv assms(3) by (auto simp: goes_on_def going_def list_size_def Suc_le_eq)
  from complete_all [OF this] obtain u where
    u: "runs group_step s (replicate (length items - 1) Complete) = Inr u" "going items (length items) u" by blast
  have "begun_count u = length items" using u(2) by (simp add: going_def begun_count_def)
  moreover obtain t where t: "nextItem u = Inr t" "goes_on u t" using nextItem_inv [of u] u(2) by (auto simp: going_def)
  ultimately have fin: "begun (calls t) = items" "getActiveItem t = None"
    using u(2) getActiveItem_inv [of t] by (auto simp: goes_on_def going_def list_size_def)
  have "replicate (length items) Complete = replicate (length items - 1) Complete @ [Complete]"
    using assms(3) by (metis Suc_pred' length_greater_0_conv replicate_Suc replicate_append_same)
  then show ?thesis using g(1) start u(1) t(1) fin by (simp add: runs_append onComplete_def)
qed

theorem group_runs_all_witness:
  "\<exists>t. runs group_step (ItemTaskGroup_new A_UNINSTALL) [AddItem False 4, AddItem False 9, Start, Complete, Complete] = Inr t
    \<and> begun (calls t) = [4, 9]"
  using group_runs_all [of A_UNINSTALL "[4, 9]"] by auto

section \<open>Taking an item out of a running group\<close>

lemma index_of_Some: "i \<in> set xs \<Longrightarrow> \<exists>x. index_of i xs = Some x \<and> x < length xs \<and> xs ! x = i"
proof -
  assume "i \<in> set xs"
  then have "index_of i xs \<noteq> None" by (auto simp: index_of_def find_None_iff in_set_conv_nth)
  then obtain x where "index_of i xs = Some x" by auto
  then show ?thesis by (auto simp: index_of_def find_Some_iff)
qed

text \<open>C40: Taking any item out of a group that is working (forcing it, closing it) breaks the group when items are left after
  the one it then works on: the memory of the last item, which is unset, is counted down, and the next completion is passed
  on through a null handle.\<close>

theorem removed_item_breaks_group:
  assumes "group_inv g" and "\<not> idle g" and "i \<in> set (m_vWaitingList g)" and "removeItem (Some i) g = (h, ok)"
    and "unat (m_uiActiveItem h + 1) < list_size h"
  shows "onComplete h = Inl UNDEFINED"
proof -
  obtain x where x: "index_of i (m_vWaitingList g) = Some x" "x < list_size g"
    using index_of_Some [OF assms(3)] by (auto simp: list_size_def)
  have lst: "m_uiLastActive g = UINT_MAX" using assms(1,2) by (auto simp: group_inv_def cursors_def idle_def)
  have "x \<le> unat UINT_MAX" using x(2) assms(1) unat_UINT_MAX by (simp add: group_inv_def)
  then have last: "m_uiLastActive h = UINT_MAX - 1"
    using assms(4) x(1) lst by (auto simp: removeItem_def Let_def send_count_def frame_simps)
  have small: "list_size h < 2 ^ 32 - 1"
    using assms(1,4) x by (auto simp: removeItem_def Let_def send_count_def frame_simps group_inv_def list_size_def)
  let ?h = "leave_active (onProgressUpdate 100 h)"
  have q: "m_uiActiveItem ?h = m_uiActiveItem h" "m_uiLastActive ?h = UINT_MAX - 1" "m_vWaitingList ?h = m_vWaitingList h"
    using leave_active_quiet quiet_ops(1) last by (simp_all add: quiet_def)
  have c1: "\<not> list_size ?h \<le> unat (m_uiActiveItem ?h + 1)" using q assms(5) by (simp add: list_size_def)
  have c2: "m_uiLastActive ?h \<noteq> UINT_MAX" using q by simp
  have "unat (UINT_MAX - 1 + 1) = 2 ^ 32 - 1" using unat_UINT_MAX by simp
  then have "getActiveItem (?h\<lparr>m_uiActiveItem := m_uiLastActive ?h, m_uiLastActive := UINT_MAX, m_uiActiveItem := m_uiLastActive ?h + 1\<rparr>) = None"
    using q small by (simp add: getActiveItem_def list_size_def)
  then show ?thesis
    unfolding onComplete_def nextItem_def advance_def Let_def using c1 c2 by simp
qed

definition demo_group :: task_group where
  "demo_group =
     \<lparr>m_bStarted = True, m_bPaused_group = False, m_bFinal = False, m_uiLastActive = UINT_MAX, m_uiActiveItem = 0,
      m_Action = A_VERIFY, m_vWaitingList = [1, 2, 3], m_vTaskList = [1, 2, 3], calls = [VerifyOveride 1]\<rparr>"

theorem removed_item_breaks_group_witness: "onComplete (fst (removeItem (Some 3) demo_group)) = Inl UNDEFINED"
proof -
  obtain h ok where r: "removeItem (Some 3) demo_group = (h, ok)" by fastforce
  have "group_inv demo_group"
    by (simp add: group_inv_def demo_group_def list_size_def begun_count_def cursors_def UINT_MAX_def)
  moreover have "\<not> idle demo_group" by (simp add: idle_def demo_group_def UINT_MAX_def)
  moreover have "index_of 3 [1, 2, 3] = Some 2" by code_simp
  then have "m_uiActiveItem h = 0" "m_vWaitingList h = [1, 2]"
    using r by (auto simp: removeItem_def demo_group_def Let_def send_count_def frame_simps)
  then have "unat (m_uiActiveItem h + 1) < list_size h" by (simp add: list_size_def)
  ultimately have "onComplete h = Inl UNDEFINED"
    using removed_item_breaks_group [OF _ _ _ r] by (simp add: demo_group_def)
  then show ?thesis using r by simp
qed

text \<open>
  After the last item of a group of \<open>n\<close> items is done, \<open>getCount\<close> still answers 1: the remembered item is one too
  little to subtract.
\<close>

lemma count_after_all:
  assumes "group_inv g" and "idle g" and "begun_count g = list_size g" and "0 < list_size g"
  shows "getCount g = 1"
proof -
  have lst: "m_uiLastActive g = of_nat (list_size g - 1)" using assms by (auto simp: group_inv_def cursors_def idle_def)
  have "(of_nat (list_size g - 1) :: u32) \<noteq> UINT_MAX" using assms(1) by (intro conjunct2 [OF small_u32]) (auto simp: group_inv_def)
  then show ?thesis using assms(2,4) lst by (simp add: getCount_def minus_done_def idle_def of_nat_diff)
qed

end
