(* ===== verification/Ipc_Param.thy ===== *)
theory Ipc_Param
  imports Util_Bytes Util_Num "HOL-Library.List_Lexorder"
begin

text \<open>
  The values that cross the pipe between the client and its service:
  \<^verbatim>\<open>src/src/static/ipc_pipe/code/IPCParameter.cpp\<close> and the lists of \<^verbatim>\<open>IPCClass.cpp\<close>. A buffer is the memory from
  its pointer to the end of the allocation; reading past that end is \<open>UNDEFINED\<close>. The names the compiler gives to
  the types (\<open>typeid(T).name()\<close>) are a parameter \<open>nm\<close>. Machines are little-endian.
\<close>

section \<open>Parameters\<close>

text \<open>
  A double is its bit pattern, a signed integer its two's complement. A null string is \<open>PString None\<close>. A blob has the
  size and the data it points to, which differ after a failed \<open>deserialize\<close>.
\<close>

datatype ipc_param =
    PVoid
  | PBool bool
  | PUint32 u32
  | PInt32 u32
  | PUint64 u64
  | PDouble u64
  | PString "bytes option"
  | PException u32 u32 bytes
  | PBlob u32 bytes
  | PMapStringString "(bytes \<times> bytes) list"

definition cstr :: "bytes \<Rightarrow> bytes" where
  "cstr msg = takeWhile (\<lambda>b. b \<noteq> 0) msg"

text \<open>\<open>std::map\<close>: the entries in the order of their keys.\<close>

fun map_insert :: "bytes \<Rightarrow> bytes \<Rightarrow> (bytes \<times> bytes) list \<Rightarrow> (bytes \<times> bytes) list" where
  "map_insert k v [] = [(k, v)]"
| "map_insert k v ((k', v') # m) =
     (if k < k' then (k, v) # (k', v') # m else if k = k' then (k, v) # m else (k', v') # map_insert k v m)"

definition entry_size :: "bytes \<times> bytes \<Rightarrow> nat" where
  "entry_size e = 8 + length (fst e) + length (snd e)"

text \<open>What \<open>getSerializeSize\<close> says and what \<open>serialize\<close> writes from its pointer on, class by class.\<close>

definition PBool_serialize :: "bool \<Rightarrow> bytes" where "PBool_serialize b = [if b then 1 else 0]"
definition PUint32_serialize :: "u32 \<Rightarrow> bytes" where "PUint32_serialize v = le32 v"
definition PInt32_serialize :: "u32 \<Rightarrow> bytes" where "PInt32_serialize v = le32 v"
definition PUint64_serialize :: "u64 \<Rightarrow> bytes" where "PUint64_serialize v = le64 v"
definition PDouble_serialize :: "u64 \<Rightarrow> bytes" where "PDouble_serialize v = le64 v"

definition PString_size :: "bytes option \<Rightarrow> u32" where
  "PString_size v = (case v of None \<Rightarrow> 0 | Some s \<Rightarrow> 4 + of_nat (length s))"

definition PString_serialize :: "bytes option \<Rightarrow> bytes" where
  "PString_serialize v = (case v of None \<Rightarrow> [] | Some s \<Rightarrow> le32 (of_nat (length s)) @ s)"

definition PException_size :: "bytes \<Rightarrow> u32" where
  "PException_size msg = 12 + of_nat (length (cstr msg))"

definition PException_serialize :: "u32 \<Rightarrow> u32 \<Rightarrow> bytes \<Rightarrow> bytes" where
  "PException_serialize e1 e2 msg = le32 e1 @ le32 e2 @ le32 (of_nat (length (cstr msg))) @ cstr msg"

definition PBlob_size :: "u32 \<Rightarrow> u32" where "PBlob_size sz = 4 + sz"

definition PBlob_serialize :: "u32 \<Rightarrow> bytes \<Rightarrow> bytes res" where
  "PBlob_serialize sz d = bind_res (rd_bytes (unat sz) d) (\<lambda>d. Inr (le32 sz @ d))"

definition PMap_size :: "(bytes \<times> bytes) list \<Rightarrow> u32" where
  "PMap_size m = 4 + of_nat (sum_list (map entry_size m))"

definition entry_bytes :: "bytes \<times> bytes \<Rightarrow> bytes" where
  "entry_bytes e = le32 (of_nat (length (fst e))) @ le32 (of_nat (length (snd e))) @ fst e @ snd e"

definition PMap_serialize :: "(bytes \<times> bytes) list \<Rightarrow> bytes" where
  "PMap_serialize m = le32 (of_nat (length m)) @ concat (map entry_bytes m)"

fun getSerializeSize :: "ipc_param \<Rightarrow> u32" where
  "getSerializeSize PVoid = 0"
| "getSerializeSize (PBool _) = 1"
| "getSerializeSize (PUint32 _) = 4"
| "getSerializeSize (PInt32 _) = 4"
| "getSerializeSize (PUint64 _) = 8"
| "getSerializeSize (PDouble _) = 8"
| "getSerializeSize (PString v) = PString_size v"
| "getSerializeSize (PException _ _ msg) = PException_size msg"
| "getSerializeSize (PBlob sz _) = PBlob_size sz"
| "getSerializeSize (PMapStringString m) = PMap_size m"

fun serialize :: "ipc_param \<Rightarrow> bytes res" where
  "serialize PVoid = Inr []"
| "serialize (PBool b) = Inr (PBool_serialize b)"
| "serialize (PUint32 v) = Inr (PUint32_serialize v)"
| "serialize (PInt32 v) = Inr (PInt32_serialize v)"
| "serialize (PUint64 v) = Inr (PUint64_serialize v)"
| "serialize (PDouble v) = Inr (PDouble_serialize v)"
| "serialize (PString v) = Inr (PString_serialize v)"
| "serialize (PException e1 e2 msg) = Inr (PException_serialize e1 e2 msg)"
| "serialize (PBlob sz d) = PBlob_serialize sz d"
| "serialize (PMapStringString m) = Inr (PMap_serialize m)"

text \<open>The entries of a map: \<open>done\<close> is the position, \<open>temp\<close> the memory from there on.\<close>

fun map_entries :: "nat \<Rightarrow> u32 \<Rightarrow> nat \<Rightarrow> bytes \<Rightarrow> (bytes \<times> bytes) list \<Rightarrow> ((bytes \<times> bytes) list \<times> nat) res" where
  "map_entries 0 nSize pos temp m = Inr (m, pos)"
| "map_entries (Suc n) nSize pos temp m =
     bind_res (rd32 temp) (\<lambda>nKeySize.
     bind_res (rd32 (drop 4 temp)) (\<lambda>nValSize.
       if pos + 8 + unat nKeySize + unat nValSize > unat nSize then Inr (m, pos + 8)
       else
         bind_res (rd_bytes (unat nKeySize) (drop 8 temp)) (\<lambda>key.
         bind_res (rd_bytes (unat nValSize) (drop (8 + unat nKeySize) temp)) (\<lambda>val.
           map_entries n nSize (pos + 8 + unat nKeySize + unat nValSize)
             (drop (8 + unat nKeySize + unat nValSize) temp) (map_insert key val m)))))"

text \<open>\<open>deserialize\<close>: the object afterwards and the number of bytes used.\<close>

definition PBool_deserialize :: "bool \<Rightarrow> bytes \<Rightarrow> u32 \<Rightarrow> (ipc_param \<times> u32) res" where
  "PBool_deserialize v buffer nSize =
     (if nSize \<ge> 1 then bind_res (rd_bytes 1 buffer) (\<lambda>b. Inr (PBool (b \<noteq> [0]), 1)) else Inr (PBool v, 0))"

definition PUint32_deserialize :: "u32 \<Rightarrow> bytes \<Rightarrow> u32 \<Rightarrow> (ipc_param \<times> u32) res" where
  "PUint32_deserialize v buffer nSize =
     (if nSize \<ge> 4 then bind_res (rd32 buffer) (\<lambda>x. Inr (PUint32 x, 4)) else Inr (PUint32 v, 0))"

definition PInt32_deserialize :: "u32 \<Rightarrow> bytes \<Rightarrow> u32 \<Rightarrow> (ipc_param \<times> u32) res" where
  "PInt32_deserialize v buffer nSize =
     (if nSize \<ge> 4 then bind_res (rd32 buffer) (\<lambda>x. Inr (PInt32 x, 4)) else Inr (PInt32 v, 0))"

definition PUint64_deserialize :: "u64 \<Rightarrow> bytes \<Rightarrow> u32 \<Rightarrow> (ipc_param \<times> u32) res" where
  "PUint64_deserialize v buffer nSize =
     (if nSize \<ge> 8 then bind_res (rd64 buffer) (\<lambda>x. Inr (PUint64 x, 8)) else Inr (PUint64 v, 0))"

definition PDouble_deserialize :: "u64 \<Rightarrow> bytes \<Rightarrow> u32 \<Rightarrow> (ipc_param \<times> u32) res" where
  "PDouble_deserialize v buffer nSize =
     (if nSize \<ge> 8 then bind_res (rd64 buffer) (\<lambda>x. Inr (PDouble x, 8)) else Inr (PDouble v, 0))"

definition PString_deserialize :: "bytes option \<Rightarrow> bytes \<Rightarrow> u32 \<Rightarrow> (ipc_param \<times> u32) res" where
  "PString_deserialize v buffer nSize =
     (if nSize < 4 then Inr (PString None, 0)
      else bind_res (rd32 buffer) (\<lambda>strsize.
        if strsize > nSize - 4 then Inr (PString None, 0)
        else bind_res (rd_bytes (unat strsize) (drop 4 buffer)) (\<lambda>s. Inr (PString (Some s), 4 + strsize))))"

definition PException_deserialize :: "u32 \<Rightarrow> u32 \<Rightarrow> bytes \<Rightarrow> bytes \<Rightarrow> u32 \<Rightarrow> (ipc_param \<times> u32) res" where
  "PException_deserialize e1 e2 msg buffer nSize =
     (if nSize < 8 then Inr (PException e1 e2 msg, 0)
      else bind_res (rd32 buffer) (\<lambda>x1. bind_res (rd32 (drop 4 buffer)) (\<lambda>x2.
           bind_res (rd32 (drop 8 buffer)) (\<lambda>msgSize.
        if msgSize > nSize - 12 then Inr (PException e1 e2 msg, 0)
        else bind_res (rd_bytes (unat msgSize) (drop 12 buffer)) (\<lambda>m.
               Inr (PException x1 x2 (cstr m), 12 + msgSize))))))"

definition PBlob_deserialize :: "u32 \<Rightarrow> bytes \<Rightarrow> bytes \<Rightarrow> u32 \<Rightarrow> (ipc_param \<times> u32) res" where
  "PBlob_deserialize sz d buffer nSize =
     (if nSize < 4 then Inr (PBlob sz d, 0)
      else bind_res (rd32 buffer) (\<lambda>n.
        if n > nSize - 4 then Inr (PBlob n d, 0)
        else bind_res (rd_bytes (unat n) (drop 4 buffer)) (\<lambda>x. Inr (PBlob n x, 4 + n))))"

definition PMap_deserialize :: "(bytes \<times> bytes) list \<Rightarrow> bytes \<Rightarrow> u32 \<Rightarrow> (ipc_param \<times> u32) res" where
  "PMap_deserialize m buffer nSize =
     bind_res (rd32 buffer) (\<lambda>nCount.
     bind_res (map_entries (unat nCount) nSize 4 (drop 4 buffer) []) (\<lambda>(m, pos). Inr (PMapStringString m, of_nat pos)))"

fun deserialize :: "ipc_param \<Rightarrow> bytes \<Rightarrow> u32 \<Rightarrow> (ipc_param \<times> u32) res" where
  "deserialize PVoid buffer nSize = Inr (PVoid, 0)"
| "deserialize (PBool v) buffer nSize = PBool_deserialize v buffer nSize"
| "deserialize (PUint32 v) buffer nSize = PUint32_deserialize v buffer nSize"
| "deserialize (PInt32 v) buffer nSize = PInt32_deserialize v buffer nSize"
| "deserialize (PUint64 v) buffer nSize = PUint64_deserialize v buffer nSize"
| "deserialize (PDouble v) buffer nSize = PDouble_deserialize v buffer nSize"
| "deserialize (PString v) buffer nSize = PString_deserialize v buffer nSize"
| "deserialize (PException e1 e2 msg) buffer nSize = PException_deserialize e1 e2 msg buffer nSize"
| "deserialize (PBlob sz d) buffer nSize = PBlob_deserialize sz d buffer nSize"
| "deserialize (PMapStringString m) buffer nSize = PMap_deserialize m buffer nSize"

lemmas class_defs [simp] =
  PBool_serialize_def PUint32_serialize_def PInt32_serialize_def PUint64_serialize_def PDouble_serialize_def
  PString_size_def PString_serialize_def PException_size_def PException_serialize_def PBlob_size_def PBlob_serialize_def
  PMap_size_def PMap_serialize_def PBool_deserialize_def PUint32_deserialize_def PInt32_deserialize_def
  PUint64_deserialize_def PDouble_deserialize_def PString_deserialize_def PException_deserialize_def
  PBlob_deserialize_def PMap_deserialize_def

section \<open>Types\<close>

datatype cpp_type =
    T_void | T_uint8 | T_uint32 | T_int32 | T_uint64 | T_bool | T_gcException | T_char | T_char_const | T_double
  | T_PBlob | T_PMapStringString

fun type_of :: "ipc_param \<Rightarrow> cpp_type" where
  "type_of PVoid = T_void"
| "type_of (PBool _) = T_bool"
| "type_of (PUint32 _) = T_uint32"
| "type_of (PInt32 _) = T_int32"
| "type_of (PUint64 _) = T_uint64"
| "type_of (PDouble _) = T_double"
| "type_of (PString _) = T_char"
| "type_of (PException _ _ _) = T_gcException"
| "type_of (PBlob _ _) = T_PBlob"
| "type_of (PMapStringString _) = T_PMapStringString"

type_synonym type_names = "cpp_type \<Rightarrow> string"

definition getType :: "type_names \<Rightarrow> ipc_param \<Rightarrow> u32" where
  "getType nm p = RSHash (nm (type_of p))"

definition default_message :: bytes where
  "default_message = map byte_of_char ''An unknown error occurred''"

text \<open>The registrations in their order; a later one replaces an earlier one with the same hash.\<close>

definition registrations :: "(cpp_type \<times> ipc_param) list" where
  "registrations =
     [(T_void, PVoid), (T_uint8, PUint32 0), (T_uint32, PUint32 0), (T_int32, PInt32 0), (T_uint64, PUint64 0),
      (T_bool, PBool False), (T_gcException, PException 1 0 default_message), (T_char, PString (Some [])),
      (T_char_const, PString (Some [])), (T_double, PDouble 0), (T_PBlob, PBlob 0 []),
      (T_PMapStringString, PMapStringString [])]"

definition RegType :: "type_names \<Rightarrow> cpp_type \<Rightarrow> ipc_param \<Rightarrow> (u32 \<rightharpoonup> ipc_param) \<Rightarrow> (u32 \<rightharpoonup> ipc_param)" where
  "RegType nm type funct g = g(RSHash (nm type) \<mapsto> funct)"

definition g_vParameterType :: "type_names \<Rightarrow> u32 \<rightharpoonup> ipc_param" where
  "g_vParameterType nm = fold (\<lambda>(t, p). RegType nm t p) registrations Map.empty"

definition newParameter :: "type_names \<Rightarrow> u32 \<Rightarrow> bytes \<Rightarrow> u32 \<Rightarrow> ipc_param res" where
  "newParameter nm type buff nSize =
     (case g_vParameterType nm type of
        None \<Rightarrow> Inr PVoid
      | Some p \<Rightarrow> bind_res (deserialize p buff nSize) (\<lambda>(p, _). Inr p))"

section \<open>Lists of parameters\<close>

definition IPCParameterSIZE :: u32 where "IPCParameterSIZE = 8"

definition param_bytes :: "type_names \<Rightarrow> ipc_param \<Rightarrow> bytes res" where
  "param_bytes nm p =
     bind_res (serialize p) (\<lambda>d. Inr (le32 (getType nm p) @ le32 (getSerializeSize p) @ d))"

fun params_bytes :: "type_names \<Rightarrow> ipc_param list \<Rightarrow> bytes res" where
  "params_bytes nm [] = Inr []"
| "params_bytes nm (p # ps) =
     bind_res (param_bytes nm p) (\<lambda>b. bind_res (params_bytes nm ps) (\<lambda>bs. Inr (b @ bs)))"

text \<open>Undefined when the parameters do not fit the buffer, whose size is counted in 32 bits.\<close>

definition serializeList :: "type_names \<Rightarrow> ipc_param list \<Rightarrow> (bytes \<times> u32) res" where
  "serializeList nm pList =
     (let rsize = sum_list (map (\<lambda>p. IPCParameterSIZE + getSerializeSize p) pList) in
      bind_res (params_bytes nm pList) (\<lambda>buff.
        if length buff > unat rsize then Inl UNDEFINED else Inr (buff, rsize)))"

text \<open>The loop of \<open>deserializeList\<close>: the parameters so far and the memory from \<open>tempB\<close> on. It may not end.\<close>

partial_function (option) deserialize_loop ::
    "type_names \<Rightarrow> u32 \<Rightarrow> ipc_param list \<Rightarrow> bytes \<Rightarrow> u32 \<Rightarrow> ((ipc_param list \<times> u32) res) option" where
  "deserialize_loop nm nSize list tempB sizeLeft =
     (if sizeLeft = 0 then Some (Inr (list, nSize - sizeLeft))
      else if sizeLeft < IPCParameterSIZE then Some (Inr (list, nSize))
      else
        (case bind_res (rd32 tempB) (\<lambda>type. bind_res (rd32 (drop 4 tempB)) (\<lambda>psize. Inr (type, psize))) of
           Inl e \<Rightarrow> Some (Inl e)
         | Inr tp \<Rightarrow>
             if sizeLeft < snd tp + IPCParameterSIZE then Some (Inr (list, nSize - sizeLeft))
             else
               (case newParameter nm (fst tp) (drop 8 tempB) (snd tp) of
                  Inl e \<Rightarrow> Some (Inl e)
                | Inr p \<Rightarrow>
                    deserialize_loop nm nSize (list @ [p]) (drop (unat (snd tp + IPCParameterSIZE)) tempB)
                      (sizeLeft - (snd tp + IPCParameterSIZE)))))"

definition deserializeList :: "type_names \<Rightarrow> bytes \<Rightarrow> u32 \<Rightarrow> ((ipc_param list \<times> u32) res) option" where
  "deserializeList nm buffer nSize = deserialize_loop nm nSize [] buffer nSize"

section \<open>Reading back one parameter\<close>

text \<open>
  Lengths that fit their 32-bit counts; an exception text is a C string, a blob points to as much data as it says, and a
  map has its keys in order.
\<close>

fun param_ok :: "ipc_param \<Rightarrow> bool" where
  "param_ok (PString (Some s)) \<longleftrightarrow> length s < 2 ^ 32 - 4"
| "param_ok (PException _ _ msg) \<longleftrightarrow> 0 \<notin> set msg \<and> length msg < 2 ^ 32 - 12"
| "param_ok (PBlob sz d) \<longleftrightarrow> length d = unat sz \<and> unat sz < 2 ^ 32 - 4"
| "param_ok (PMapStringString m) \<longleftrightarrow> sorted_wrt (<) (map fst m) \<and> sum_list (map entry_size m) < 2 ^ 32 - 4"
| "param_ok _ \<longleftrightarrow> True"

lemma cstr_id: "0 \<notin> set msg \<Longrightarrow> cstr msg = msg"
  unfolding cstr_def by (rule takeWhile_none)

lemma length_entry_bytes: "length (entry_bytes e) = entry_size e"
  by (simp add: entry_bytes_def entry_size_def)

lemma length_entries: "length (concat (map entry_bytes m)) = sum_list (map entry_size m)"
  by (induction m) (simp_all add: length_entry_bytes)

lemma entry_size_pair: "entry_size (k, v) = 8 + length k + length v"
  by (simp add: entry_size_def)

lemma sum_entry_size_ge: "8 * length m \<le> sum_list (map entry_size m)"
  by (induction m) (simp_all add: entry_size_def)

lemma map_insert_last: "\<forall>k'\<in>set (map fst m). k' < k \<Longrightarrow> map_insert k v m = m @ [(k, v)]"
  by (induction m) auto

lemma map_entries_back:
  assumes "sorted_wrt (<) (map fst (m @ rest))" and "pos + sum_list (map entry_size rest) \<le> unat nSize"
  shows "map_entries (length rest) nSize pos (concat (map entry_bytes rest) @ after) m
    = Inr (m @ rest, pos + sum_list (map entry_size rest))"
  using assms
proof (induction rest arbitrary: m pos)
  case (Cons e rest)
  obtain k v where e: "e = (k, v)" by (cases e)
  have fits: "pos + (8 + length k + length v) + sum_list (map entry_size rest) \<le> unat nSize"
    using Cons.prems(2) by (simp add: e entry_size_pair)
  have small: "length k < 2 ^ 32" "length v < 2 ^ 32"
    using fits unsigned_less [of nSize, where ?'a = nat] by simp_all
  have ins: "map_insert k v m = m @ [(k, v)]"
    by (rule map_insert_last) (use Cons.prems(1) in \<open>auto simp: e sorted_wrt_append\<close>)
  have IH: "map_entries (length rest) nSize (pos + 8 + length k + length v) (concat (map entry_bytes rest) @ after) (m @ [(k, v)])
      = Inr ((m @ [(k, v)]) @ rest, pos + 8 + length k + length v + sum_list (map entry_size rest))"
    by (rule Cons.IH) (use Cons.prems(1) fits in \<open>simp_all add: e\<close>)
  have key: "rd_bytes (length k) (k @ v @ t) = Inr k" and val: "rd_bytes (length v) (v @ t) = Inr v" for t
    by (simp_all add: codec_simps)
  show ?case
    using fits small IH by (simp add: e entry_bytes_def [of "(k, v)"] codec_simps key val ins entry_size_pair add.assoc)
qed simp

lemma serialize_length:
  assumes "param_ok p"
  shows "\<exists>bs. serialize p = Inr bs \<and> length bs = unat (getSerializeSize p)"
proof (cases p)
  case (PString s)
  then show ?thesis using assms by (cases s) (simp_all add: unat_add_of_nat)
next
  case (PException e1 e2 msg)
  then show ?thesis using assms by (simp add: cstr_id unat_add_of_nat)
next
  case (PBlob sz d)
  then show ?thesis using assms unat_add_of_nat [of 4 "unat sz"] by (simp add: rd_bytes_def)
next
  case (PMapStringString m)
  then show ?thesis using assms by (simp add: length_entries unat_add_of_nat)
qed simp_all

lemma not_less_plus: "unat k + n < 2 ^ 32 \<Longrightarrow> \<not> (k + of_nat n < (k :: u32))"
  by (simp add: word_less_nat_alt unat_add_of_nat)

lemma deserialize_serialize:
  assumes ok: "param_ok p" and t: "type_of q = type_of p" and s: "serialize p = Inr bs"
  shows "deserialize q (bs @ after) (getSerializeSize p) = Inr (p, getSerializeSize p)"
proof (cases p)
  case PVoid
  then show ?thesis using t s by (cases q) simp_all
next
  case (PBool b)
  then show ?thesis using t s by (cases q) (auto simp: rd_bytes_def split: if_splits)
next
  case (PString v)
  show ?thesis
  proof (cases v)
    case None
    then show ?thesis using PString t s by (cases q) simp_all
  next
    case (Some x)
    then have "length x < 2 ^ 32 - 4" using ok PString by simp
    then show ?thesis using PString Some t s not_less_plus [of 4 "length x"] by (cases q) (auto simp: codec_simps)
  qed
next
  case (PException e1 e2 msg)
  then have m: "0 \<notin> set msg" "length msg < 2 ^ 32 - 12" using ok by simp_all
  then have "\<not> (12 + of_nat (length msg) < (8 :: u32))"
    by (simp add: word_less_nat_alt unat_add_of_nat)
  then show ?thesis using PException t s m by (cases q) (auto simp: codec_simps cstr_id)
next
  case (PBlob sz d)
  then have "length d = unat sz" "unat sz < 2 ^ 32 - 4" using ok by simp_all
  then show ?thesis using PBlob t s not_less_plus [of 4 "unat sz"] by (cases q) (auto simp: codec_simps rd_bytes_def)
next
  case (PMapStringString m)
  then have m: "sorted_wrt (<) (map fst m)" "sum_list (map entry_size m) < 2 ^ 32 - 4" using ok by simp_all
  then have "unat (getSerializeSize p) = 4 + sum_list (map entry_size m)" "length m < 2 ^ 32"
    using sum_entry_size_ge [of m] by (simp_all add: PMapStringString unat_add_of_nat)
  then show ?thesis
    using PMapStringString t s m map_entries_back [of "[]" m 4 "getSerializeSize p" after]
    by (cases q) (auto simp: codec_simps)
qed (use t s in \<open>cases q; auto simp: codec_simps\<close>)+

section \<open>Reading back a list\<close>

text \<open>The hashes of the type names are different, so that each type finds its own registration.\<close>

definition names_ok :: "type_names \<Rightarrow> bool" where
  "names_ok nm \<longleftrightarrow> distinct (map (\<lambda>r. RSHash (nm (fst r))) registrations)"

lemma RegType_map_of:
  "distinct (map (\<lambda>r. RSHash (nm (fst r))) regs) \<Longrightarrow>
   fold (\<lambda>(t, p). RegType nm t p) regs g = g ++ map_of (map (\<lambda>r. (RSHash (nm (fst r)), snd r)) regs)"
proof (induction regs arbitrary: g)
  case (Cons r regs)
  have "RSHash (nm (fst r)) \<notin> dom (map_of (map (\<lambda>r. (RSHash (nm (fst r)), snd r)) regs))"
    using Cons.prems by (auto simp: dom_map_of_conv_image_fst image_image)
  then have "g(RSHash (nm (fst r)) \<mapsto> snd r) ++ map_of (map (\<lambda>r. (RSHash (nm (fst r)), snd r)) regs)
      = g ++ map_of (map (\<lambda>r. (RSHash (nm (fst r)), snd r)) (r # regs))"
    by (auto simp: map_add_def fun_eq_iff dom_def split: option.splits)
  moreover have "(case r of (t, p) \<Rightarrow> RegType nm t p) g = g(RSHash (nm (fst r)) \<mapsto> snd r)"
    by (simp add: case_prod_beta RegType_def)
  ultimately show ?case
    using Cons.prems Cons.IH [of "g(RSHash (nm (fst r)) \<mapsto> snd r)"] by (simp only: fold_simps list.map distinct.simps simp_thms)
qed simp

definition default_of :: "ipc_param \<Rightarrow> ipc_param" where
  "default_of p = the (map_of registrations (type_of p))"

lemma registered:
  assumes "names_ok nm"
  shows "g_vParameterType nm (getType nm p) = Some (default_of p) \<and> type_of (default_of p) = type_of p"
proof -
  let ?regs = "map (\<lambda>r. (RSHash (nm (fst r)), snd r)) registrations"
  have d: "distinct (map fst ?regs)"
    using assms by (simp add: names_ok_def comp_def)
  have in_regs: "(type_of p, default_of p) \<in> set registrations \<and> type_of (default_of p) = type_of p"
    by (cases p) (simp_all add: registrations_def default_of_def)
  then have "(RSHash (nm (type_of p)), default_of p) \<in> set ?regs" by force
  then have "map_of ?regs (getType nm p) = Some (default_of p)"
    using d by (simp add: getType_def)
  then show ?thesis
    using in_regs assms by (simp add: g_vParameterType_def RegType_map_of names_ok_def)
qed

lemma newParameter_back:
  assumes "names_ok nm" and "param_ok p" and "serialize p = Inr bs"
  shows "newParameter nm (getType nm p) (bs @ after) (getSerializeSize p) = Inr p"
  using assms registered [of nm p] deserialize_serialize [of p "default_of p" bs after]
  by (simp add: newParameter_def)

definition wire_size :: "ipc_param \<Rightarrow> nat" where
  "wire_size p = 8 + unat (getSerializeSize p)"

text \<open>The whole list fits the 32-bit size of the buffer.\<close>

definition list_ok :: "ipc_param list \<Rightarrow> bool" where
  "list_ok ps \<longleftrightarrow> (\<forall>p\<in>set ps. param_ok p) \<and> sum_list (map wire_size ps) < 2 ^ 32"

lemma param_bytes_ok:
  assumes "param_ok p"
  shows "\<exists>d. serialize p = Inr d \<and> length d = unat (getSerializeSize p)
    \<and> param_bytes nm p = Inr (le32 (getType nm p) @ le32 (getSerializeSize p) @ d)"
  using serialize_length [OF assms] by (auto simp: param_bytes_def)

lemma params_bytes_ok:
  "\<forall>p\<in>set ps. param_ok p \<Longrightarrow> \<exists>bs. params_bytes nm ps = Inr bs \<and> length bs = sum_list (map wire_size ps)"
proof (induction ps)
  case (Cons p ps)
  then obtain bs where "params_bytes nm ps = Inr bs" "length bs = sum_list (map wire_size ps)" by auto
  moreover obtain d where "serialize p = Inr d" "length d = unat (getSerializeSize p)"
    "param_bytes nm p = Inr (le32 (getType nm p) @ le32 (getSerializeSize p) @ d)"
    using Cons.prems param_bytes_ok [of p nm] by auto
  ultimately show ?case by (simp add: wire_size_def [of p])
qed simp

lemma rsize_nat:
  "sum_list (map wire_size ps) < 2 ^ 32 \<Longrightarrow>
   unat (sum_list (map (\<lambda>p. IPCParameterSIZE + getSerializeSize p) ps)) = sum_list (map wire_size ps)"
proof (induction ps)
  case (Cons p ps)
  have "unat (8 + getSerializeSize p) = wire_size p"
    using Cons.prems unat_add_of_nat [of 8 "unat (getSerializeSize p)"] by (simp add: wire_size_def)
  then show ?case
    using Cons unat_add_of_nat [of "8 + getSerializeSize p" "sum_list (map wire_size ps)"]
    by (simp add: IPCParameterSIZE_def unat_plus_eq)
qed simp

lemma serializeList_ok:
  assumes "list_ok ps"
  obtains buff n where "serializeList nm ps = Inr (buff, n)" "params_bytes nm ps = Inr buff"
    "length buff = unat n" "unat n = sum_list (map wire_size ps)"
  using assms params_bytes_ok [of ps nm] rsize_nat [of ps] by (auto simp: list_ok_def serializeList_def Let_def)

lemma deserialize_back:
  assumes "names_ok nm"
  shows "\<lbrakk>\<forall>p\<in>set ps. param_ok p; params_bytes nm ps = Inr bs; unat left = sum_list (map wire_size ps)\<rbrakk>
    \<Longrightarrow> deserialize_loop nm nSize acc (bs @ after) left = Some (Inr (acc @ ps, nSize))"
proof (induction ps arbitrary: acc bs left)
  case Nil
  then have "left = 0" by (simp add: unat_eq_0)
  then show ?case by (simp add: deserialize_loop.simps)
next
  case (Cons p ps)
  obtain d where d: "serialize p = Inr d" "length d = unat (getSerializeSize p)"
    "param_bytes nm p = Inr (le32 (getType nm p) @ le32 (getSerializeSize p) @ d)"
    using Cons.prems(1) param_bytes_ok [of p nm] by auto
  obtain bs' where bs': "params_bytes nm ps = Inr bs'" "bs = le32 (getType nm p) @ le32 (getSerializeSize p) @ d @ bs'"
    using Cons.prems(2) d by (auto simp: bind_res_Inr)
  have left: "unat left = wire_size p + sum_list (map wire_size ps)" using Cons.prems(3) by simp
  then have fit: "wire_size p < 2 ^ 32" "wire_size p \<le> unat left"
    using unsigned_less [of left, where ?'a = nat] by simp_all
  then have size8: "unat (getSerializeSize p + 8) = wire_size p"
    using unat_plus_eq [of "getSerializeSize p" 8] by (simp add: wire_size_def)
  have big: "8 \<le> unat left" using left by (simp add: wire_size_def)
  then have cond: "left \<noteq> 0" "\<not> left < 8" "\<not> left < getSerializeSize p + 8"
    using fit size8 by (auto simp: word_less_nat_alt)
  have left': "unat (left - (getSerializeSize p + 8)) = sum_list (map wire_size ps)"
    using left fit size8 by (simp add: unat_sub_if_size word_size)
  have drop: "drop (wire_size p) (bs @ after) = bs' @ after"
    by (simp add: bs' d wire_size_def)
  have np: "newParameter nm (getType nm p) (d @ bs' @ after) (getSerializeSize p) = Inr p"
    using newParameter_back [OF assms _ d(1), of "bs' @ after"] Cons.prems(1) by simp
  have IH: "deserialize_loop nm nSize (acc @ [p]) (bs' @ after) (left - (getSerializeSize p + 8))
      = Some (Inr ((acc @ [p]) @ ps, nSize))"
    by (rule Cons.IH) (use Cons.prems bs' left' in simp_all)
  show ?case
    using cond drop np IH
    by (subst deserialize_loop.simps) (simp add: bs'(2) codec_simps IPCParameterSIZE_def size8)
qed

text \<open>
  C10: Every list of parameters that fits a buffer is serialised to exactly the announced number of bytes and read back
  unchanged, whatever follows it in memory, as long as the hashes of the type names differ.
\<close>

theorem parameter_list_roundtrip:
  assumes "names_ok nm" and "list_ok ps"
  shows "\<exists>buff n. serializeList nm ps = Inr (buff, n) \<and> length buff = unat n
    \<and> deserializeList nm (buff @ after) n = Some (Inr (ps, n))"
proof -
  obtain buff n where b: "serializeList nm ps = Inr (buff, n)" "params_bytes nm ps = Inr buff"
    "length buff = unat n" "unat n = sum_list (map wire_size ps)"
    using serializeList_ok [OF assms(2)] by blast
  then have "deserializeList nm (buff @ after) n = Some (Inr (ps, n))"
    using deserialize_back [OF assms(1), of ps buff n n "[]" after] assms(2)
    by (simp add: deserializeList_def list_ok_def)
  then show ?thesis using b by blast
qed

text \<open>The names that GCC and Clang give to the types.\<close>

fun itanium :: type_names where
  "itanium T_void = ''v''"
| "itanium T_uint8 = ''h''"
| "itanium T_uint32 = ''j''"
| "itanium T_int32 = ''i''"
| "itanium T_uint64 = ''y''"
| "itanium T_bool = ''b''"
| "itanium T_gcException = ''11gcException''"
| "itanium T_char = ''Pc''"
| "itanium T_char_const = ''PKc''"
| "itanium T_double = ''d''"
| "itanium T_PBlob = ''N3IPC5PBlobE''"
| "itanium T_PMapStringString = ''N3IPC16PMapStringStringE''"

lemma itanium_ok: "names_ok itanium"
  by code_simp

theorem parameter_list_roundtrip_witness:
  "\<exists>buff n. serializeList itanium [PUint32 7, PString None, PException 64 0 [65], PMapStringString [([65], [66]), ([66], [])]]
      = Inr (buff, n) \<and> length buff = unat n
    \<and> deserializeList itanium (buff @ [1, 2]) n
      = Some (Inr ([PUint32 7, PString None, PException 64 0 [65], PMapStringString [([65], [66]), ([66], [])]], n))"
  by (rule parameter_list_roundtrip [OF itanium_ok]) (simp add: list_ok_def wire_size_def entry_size_def cstr_def)

section \<open>What a bad message does\<close>

text \<open>A parameter of an unknown type reads nothing.\<close>

lemma newParameter_unknown: "g_vParameterType nm t = None \<Longrightarrow> newParameter nm t b n = Inr PVoid"
  by (simp add: newParameter_def)

text \<open>
  The size of a parameter is added to the size of its head in 32 bits, so that a size of 8 below the limit wraps to no
  step at all: a list that begins with such a parameter of unknown or void type is never read to its end.
\<close>

theorem deserializeList_never_ends:
  assumes "g_vParameterType nm t = None \<or> g_vParameterType nm t = Some PVoid" and "8 \<le> n"
  shows "deserializeList nm (le32 t @ le32 (- 8) @ after) n = None"
proof -
  let ?b = "le32 t @ le32 (- 8) @ after"
  have new: "newParameter nm t b k = Inr PVoid" for b k
    using assms(1) by (auto simp: newParameter_def)
  have head: "bind_res (rd32 ?b) (\<lambda>type. bind_res (rd32 (drop 4 ?b)) (\<lambda>psize. Inr (type, psize))) = Inr (t, - 8)"
    by (simp add: codec_simps)
  have cond: "n \<noteq> 0" "\<not> n < 8" using assms(2) by auto
  have never: "nm' = nm \<longrightarrow> b' = ?b \<longrightarrow> left' = n \<longrightarrow> False"
    if "deserialize_loop nm' n' acc' b' left' = Some r" for nm' n' acc' b' left' r
  proof (rule deserialize_loop.raw_induct
      [where P = "\<lambda>nm' n' acc' b' left' r. nm' = nm \<longrightarrow> b' = ?b \<longrightarrow> left' = n \<longrightarrow> False", OF _ that])
    fix f nm' n' acc' b' left' r
    assume IH: "\<And>nm' n' acc' b' left' r. f nm' n' acc' b' left' = Some r \<Longrightarrow> nm' = nm \<longrightarrow> b' = ?b \<longrightarrow> left' = n \<longrightarrow> False"
      and f: "(if left' = 0 then Some (Inr (acc', n' - left'))
        else if left' < IPCParameterSIZE then Some (Inr (acc', n'))
        else
          (case bind_res (rd32 b') (\<lambda>type. bind_res (rd32 (drop 4 b')) (\<lambda>psize. Inr (type, psize))) of
             Inl e \<Rightarrow> Some (Inl e)
           | Inr tp \<Rightarrow>
               if left' < snd tp + IPCParameterSIZE then Some (Inr (acc', n' - left'))
               else
                 (case newParameter nm' (fst tp) (drop 8 b') (snd tp) of
                    Inl e \<Rightarrow> Some (Inl e)
                  | Inr p \<Rightarrow>
                      f nm' n' (acc' @ [p]) (drop (unat (snd tp + IPCParameterSIZE)) b')
                        (left' - (snd tp + IPCParameterSIZE))))) = Some r"
    show "nm' = nm \<longrightarrow> b' = ?b \<longrightarrow> left' = n \<longrightarrow> False"
    proof (intro impI)
      assume "nm' = nm" "b' = ?b" "left' = n"
      then have "f nm n' (acc' @ [PVoid]) ?b n = Some r"
        using f cond head new by (simp add: IPCParameterSIZE_def)
      from IH [OF this] show False by simp
    qed
  qed
  show ?thesis
  proof (cases "deserializeList nm ?b n")
    case (Some r)
    from never [OF Some [unfolded deserializeList_def]] show ?thesis by simp
  qed simp
qed

theorem deserializeList_never_ends_witness:
  "deserializeList itanium (le32 (RSHash ''v'') @ le32 (- 8) @ [0]) 9 = None"
proof (rule deserializeList_never_ends)
  show "g_vParameterType itanium (RSHash ''v'') = None \<or> g_vParameterType itanium (RSHash ''v'') = Some PVoid"
    using registered [OF itanium_ok, of PVoid] by (simp add: getType_def default_of_def registrations_def)
qed simp

text \<open>
  An exception checks for eight bytes and reads twelve; with less than twelve its check of the text never fails.
\<close>

lemma exception_reads_past_end:
  "8 \<le> length b \<Longrightarrow> length b < 12 \<Longrightarrow> deserialize (PException e1 e2 m) b (of_nat (length b)) = Inl UNDEFINED"
  by (simp add: rd32_long rd32_short word_less_nat_alt)

text \<open>A map reads the number of its entries and the sizes of each before any check.\<close>

lemma map_reads_past_end: "length b < 4 \<Longrightarrow> deserialize (PMapStringString m) b (of_nat (length b)) = Inl UNDEFINED"
  by (simp add: rd32_short)

text \<open>A blob that refuses a message has already taken over its size, so that it can no longer be sent.\<close>

lemma blob_size_before_check:
  assumes "1 \<le> k"
  shows "deserialize (PBlob sz d) (le32 k) 4 = Inr (PBlob k d, 0)" and "length d < unat k \<Longrightarrow> serialize (PBlob k d) = Inl UNDEFINED"
  using assms by (auto simp: codec_simps rd_bytes_def word_less_nat_alt word_le_nat_alt)

end
