(* ===== verification/Ipc_Class.thy ===== *)
theory Ipc_Class
  imports Ipc_Param
begin

text \<open>
  One end of a class that lives in two processes: \<^verbatim>\<open>IPCClass.cpp\<close>, \<^verbatim>\<open>IPCClass.h\<close> and the locks of
  \<^verbatim>\<open>IPCLockable.cpp\<close>, all in \<^verbatim>\<open>src/src/static/ipc_pipe/code/\<close>. The user's functions and events are parameters: they
  may change a state \<open>'w\<close> of the process. What a handler sends is its result; the manager queues it. A call is its start
  and its end, between which the caller waits. Messages are memory from a pointer to the end of the allocation.
\<close>

section \<open>Locks\<close>

record ipc_lock =
  lock_id :: u32
  m_pResult :: "ipc_param option"
  m_bTriggered :: bool

definition lock_trigger :: "ipc_param \<Rightarrow> ipc_lock \<Rightarrow> ipc_lock" where
  "lock_trigger p l = l\<lparr>m_pResult := Some p, m_bTriggered := True\<rparr>"

definition popResult :: "ipc_lock \<Rightarrow> ipc_param option \<times> ipc_lock" where
  "popResult l = (m_pResult l, l\<lparr>m_pResult := None\<rparr>)"

text \<open>The counter and the locks of an \<open>IPCLockable\<close>.\<close>

record lockable =
  m_uiIdCount :: u32
  m_vLockList :: "ipc_lock list"

definition newLock :: "lockable \<Rightarrow> u32 \<times> lockable" where
  "newLock k =
     (let i = m_uiIdCount k + 1
      in (i, k\<lparr>m_uiIdCount := i, m_vLockList := m_vLockList k @ [\<lparr>lock_id = i, m_pResult = None, m_bTriggered = False\<rparr>]\<rparr>))"

fun remove_lock :: "u32 \<Rightarrow> ipc_lock list \<Rightarrow> ipc_lock list" where
  "remove_lock i [] = []"
| "remove_lock i (l # ls) = (if lock_id l = i then ls else l # remove_lock i ls)"

definition delLock :: "u32 \<Rightarrow> lockable \<Rightarrow> lockable" where
  "delLock i k = k\<lparr>m_vLockList := remove_lock i (m_vLockList k)\<rparr>"

definition findLock :: "u32 \<Rightarrow> lockable \<Rightarrow> ipc_lock option" where
  "findLock i k = find (\<lambda>l. lock_id l = i) (m_vLockList k)"

text \<open>Triggering the lock that \<open>findLock\<close> finds.\<close>

fun trigger_first :: "u32 \<Rightarrow> ipc_param \<Rightarrow> ipc_lock list \<Rightarrow> ipc_lock list" where
  "trigger_first i p [] = []"
| "trigger_first i p (l # ls) = (if lock_id l = i then lock_trigger p l # ls else l # trigger_first i p ls)"

definition trigger_lock :: "u32 \<Rightarrow> ipc_param \<Rightarrow> lockable \<Rightarrow> lockable" where
  "trigger_lock i p k = k\<lparr>m_vLockList := trigger_first i p (m_vLockList k)\<rparr>"

definition cancelLocks :: "ipc_param \<Rightarrow> lockable \<Rightarrow> lockable" where
  "cancelLocks reason k = k\<lparr>m_vLockList := map (lock_trigger reason) (m_vLockList k)\<rparr>"

section \<open>Functions that can be called from the other process\<close>

text \<open>
  A function has the default parameters of its argument types and a callback that returns a result or throws. The texts of
  the exceptions made here are the environment's.
\<close>

type_synonym exc = "u32 \<times> u32 \<times> bytes"

record 'w net_function =
  Args :: "ipc_param list"
  m_fnCallback :: "'w \<Rightarrow> ipc_param list \<Rightarrow> 'w \<times> (exc + ipc_param)"
  returns_void :: bool

record ipc_env =
  nm :: type_names
  text_args :: "u8 \<Rightarrow> nat \<Rightarrow> bytes"
  text_missing :: "u32 \<Rightarrow> u32 \<Rightarrow> bytes"
  text_small :: bytes

definition ID_ERR_INVALID :: u32 where "ID_ERR_INVALID = 7"
definition ID_ERR_IPC :: u32 where "ID_ERR_IPC = 64"

definition IPCFunctionCallSIZE :: u32 where "IPCFunctionCallSIZE = 16"
definition IPCEventTriggerSIZE :: u32 where "IPCEventTriggerSIZE = 8"

definition exc_param :: "exc \<Rightarrow> ipc_param" where
  "exc_param e = (case e of (e1, e2, msg) \<Rightarrow> PException e1 e2 (cstr msg))"

text \<open>Where each argument is said to start; \<open>None\<close> when the data has ended.\<close>

fun arg_ptrs :: "nat \<Rightarrow> bytes \<Rightarrow> u32 \<Rightarrow> u32 \<Rightarrow> bytes option list res" where
  "arg_ptrs 0 buff dn sz = Inr []"
| "arg_ptrs (Suc n) buff dn sz =
     (if dn \<ge> sz then bind_res (arg_ptrs n buff dn sz) (\<lambda>r. Inr (None # r))
      else
        bind_res (rd32 (drop 4 buff)) (\<lambda>psize.
        let s = IPCParameterSIZE + psize in
        bind_res (arg_ptrs n (drop (unat s) buff) (dn + s) sz) (\<lambda>r. Inr (Some buff # r))))"

definition setupParam :: "ipc_env \<Rightarrow> ipc_param \<Rightarrow> bytes option \<Rightarrow> ipc_param res" where
  "setupParam env p msg =
     (case msg of
        None \<Rightarrow> Inr p
      | Some b \<Rightarrow>
          bind_res (rd32 b) (\<lambda>type.
            if type \<noteq> getType (nm env) p then Inr p
            else
              bind_res (rd32 (drop 4 b)) (\<lambda>psize.
              bind_res (deserialize p (drop 8 b) psize) (\<lambda>(p, _). Inr p))))"

fun setup_all :: "ipc_env \<Rightarrow> ipc_param list \<Rightarrow> bytes option list \<Rightarrow> ipc_param list res" where
  "setup_all env (p # ps) (m # ms) =
     bind_res (setupParam env p m) (\<lambda>p. bind_res (setup_all env ps ms) (\<lambda>ps. Inr (p # ps)))"
| "setup_all env _ _ = Inr []"

definition processArgs :: "ipc_env \<Rightarrow> ipc_param list \<Rightarrow> bytes \<Rightarrow> u32 \<Rightarrow> u8 \<Rightarrow> (exc + ipc_param list) res" where
  "processArgs env defaults buff sz numP =
     (if unat numP \<noteq> length defaults then
        Inr (Inl (ID_ERR_INVALID, 0, text_args env numP (length defaults)))
      else
        bind_res (arg_ptrs (length defaults) buff 0 sz) (\<lambda>ms.
        bind_res (setup_all env defaults ms) (\<lambda>ps. Inr (Inr ps))))"

definition net_call :: "ipc_env \<Rightarrow> 'w net_function \<Rightarrow> 'w \<Rightarrow> bytes \<Rightarrow> u32 \<Rightarrow> u8 \<Rightarrow> ('w \<times> ipc_param) res" where
  "net_call env f w buff sz numP =
     bind_res (processArgs env (Args f) buff sz numP) (\<lambda>r.
       case r of
         Inl e \<Rightarrow> Inr (w, exc_param e)
       | Inr ps \<Rightarrow>
           (case m_fnCallback f w ps of
              (w, Inl e) \<Rightarrow> Inr (w, exc_param e)
            | (w, Inr res) \<Rightarrow> Inr (w, if returns_void f then PVoid else res)))"

section \<open>Events\<close>

datatype 'w ipc_event = IPCEvent "'w \<Rightarrow> ipc_param \<Rightarrow> 'w" | IPCEventV "'w \<Rightarrow> 'w"

fun event_trigger :: "'w ipc_event \<Rightarrow> ipc_param list \<Rightarrow> 'w \<Rightarrow> 'w" where
  "event_trigger (IPCEvent e) vParams w = (case vParams of [p] \<Rightarrow> e w p | _ \<Rightarrow> w)"
| "event_trigger (IPCEventV e) vParams w = e w"

section \<open>The class\<close>

record 'w ipc_class =
  m_uiId :: u32
  locks :: lockable
  m_nKillCount :: u32
  m_KillCondition :: bool
  m_mFunc :: "u32 \<rightharpoonup> 'w net_function"
  m_mEvent :: "u32 \<rightharpoonup> 'w ipc_event"

definition IPCClass_new :: "u32 \<Rightarrow> 'w ipc_class" where
  "IPCClass_new i =
     \<lparr>m_uiId = i, locks = \<lparr>m_uiIdCount = 0, m_vLockList = []\<rparr>, m_nKillCount = 0, m_KillCondition = False,
      m_mFunc = Map.empty, m_mEvent = Map.empty\<rparr>"

definition registerFunction :: "'w net_function \<Rightarrow> string \<Rightarrow> 'w ipc_class \<Rightarrow> 'w ipc_class" where
  "registerFunction funct name c =
     (case m_mFunc c (RSHash name) of None \<Rightarrow> c\<lparr>m_mFunc := (m_mFunc c)(RSHash name \<mapsto> funct)\<rparr> | Some _ \<Rightarrow> c)"

definition registerEvent :: "'w ipc_event \<Rightarrow> string \<Rightarrow> 'w ipc_class \<Rightarrow> 'w ipc_class" where
  "registerEvent e name c =
     (case m_mEvent c (RSHash name) of None \<Rightarrow> c\<lparr>m_mEvent := (m_mEvent c)(RSHash name \<mapsto> e)\<rparr> | Some _ \<Rightarrow> c)"

datatype msg_type =
    MT_NULL | MT_CREATECLASS | MT_CREATECLASSRETURN | MT_KILLCLASS | MT_STOP
  | MT_FUNCTIONCALL | MT_FUNCTIONCALL_ASYNC | MT_FUNCTIONRETURN | MT_EVENTTRIGGER | MT_KILL | MT_KILL_COMPLETE

fun mt :: "msg_type \<Rightarrow> u32" where
  "mt MT_NULL = 0" | "mt MT_CREATECLASS = 1" | "mt MT_CREATECLASSRETURN = 2" | "mt MT_KILLCLASS = 3"
| "mt MT_STOP = 4" | "mt MT_FUNCTIONCALL = 5" | "mt MT_FUNCTIONCALL_ASYNC = 6" | "mt MT_FUNCTIONRETURN = 7"
| "mt MT_EVENTTRIGGER = 8" | "mt MT_KILL = 9" | "mt MT_KILL_COMPLETE = 10"

text \<open>A message to send: its type and its bytes.\<close>

type_synonym send = "msg_type \<times> bytes"

subsection \<open>Calling\<close>

definition call_bytes :: "ipc_env \<Rightarrow> string \<Rightarrow> u32 \<Rightarrow> ipc_param list \<Rightarrow> bytes res" where
  "call_bytes env name i pList =
     bind_res (serializeList (nm env) pList) (\<lambda>(data, tsize).
       Inr (le32 (RSHash name) @ le32 tsize @ le32 i @ le32 (of_nat (length pList)) @ data))"

text \<open>The start of a call: the new state, the message and, for a call that waits, its lock; an asynchronous call is over.\<close>

definition callFunction :: "ipc_env \<Rightarrow> string \<Rightarrow> bool \<Rightarrow> ipc_param list \<Rightarrow> 'w ipc_class \<Rightarrow> ('w ipc_class \<times> send \<times> u32 option) res" where
  "callFunction env name async pList c =
     (if async then
        bind_res (call_bytes env name 0 pList) (\<lambda>b. Inr (c, (MT_FUNCTIONCALL_ASYNC, b), None))
      else
        (case newLock (locks c) of
           (i, k) \<Rightarrow>
             bind_res (call_bytes env name i pList) (\<lambda>b. Inr (c\<lparr>locks := k\<rparr>, (MT_FUNCTIONCALL, b), Some i))))"

text \<open>
  The end of the wait on a lock: it was triggered or the time is over (\<open>timeout\<close>, thrown as an IPC error). The lock is
  deleted in any case. The result may be null.
\<close>

definition call_end :: "u32 \<Rightarrow> bool \<Rightarrow> 'w ipc_class \<Rightarrow> ('w ipc_class \<times> ipc_param option res)" where
  "call_end i timeout c =
     (let c' = c\<lparr>locks := delLock i (locks c)\<rparr> in
      case findLock i (locks c) of
        None \<Rightarrow> (c', Inl UNDEFINED)
      | Some l \<Rightarrow> if \<not> m_bTriggered l \<and> timeout then (c', Inl ERR_IPC) else (c', Inr (fst (popResult l))))"

text \<open>What the caller makes of a result: an exception is thrown, also for a void where a value is due.\<close>

definition handleReturn :: "ipc_param \<Rightarrow> exc + ipc_param" where
  "handleReturn r =
     (case r of
        PException e1 e2 msg \<Rightarrow> Inl (e1, e2, msg)
      | PVoid \<Rightarrow> Inl (1, 0, default_message)
      | _ \<Rightarrow> Inr r)"

definition handleReturnV :: "ipc_param \<Rightarrow> exc option" where
  "handleReturnV r = (case r of PException e1 e2 msg \<Rightarrow> Some (e1, e2, msg) | _ \<Rightarrow> None)"

text \<open>\<open>IPCDelegate\<close>: an event of this process is sent to the other one.\<close>

definition event_bytes :: "ipc_env \<Rightarrow> string \<Rightarrow> ipc_param list \<Rightarrow> send res" where
  "event_bytes env name vParams =
     bind_res (serializeList (nm env) vParams) (\<lambda>(data, sz). Inr (MT_EVENTTRIGGER, le32 (RSHash name) @ le32 sz @ data))"

subsection \<open>Being called\<close>

text \<open>\<open>Inl\<close> is an exception; the two numbers are \<open>nFunctionId\<close> and \<open>nFunctionHash\<close>.\<close>

definition doHandleFunctionCall ::
    "ipc_env \<Rightarrow> 'w ipc_class \<Rightarrow> 'w \<Rightarrow> bytes \<Rightarrow> u32 \<Rightarrow> ('w \<times> (exc + ipc_param) \<times> u32 \<times> u32) res" where
  "doHandleFunctionCall env c w buff sz =
     (if sz < IPCFunctionCallSIZE then Inr (w, Inl (ID_ERR_IPC, 0, text_small env), 0, 0)
      else
        bind_res (rd32 buff) (\<lambda>functionHash.
        bind_res (rd32 (drop 4 buff)) (\<lambda>fsize.
        bind_res (rd32 (drop 8 buff)) (\<lambda>i.
        bind_res (rd32 (drop 12 buff)) (\<lambda>numP.
        let fsize = (if sz < fsize + IPCFunctionCallSIZE then sz - IPCFunctionCallSIZE else fsize) in
        case m_mFunc c functionHash of
          None \<Rightarrow> Inr (w, Inl (ID_ERR_IPC, 0, text_missing env functionHash numP), i, functionHash)
        | Some f \<Rightarrow>
            bind_res (net_call env f w (drop 16 buff) fsize (ucast numP)) (\<lambda>(w, p).
            Inr (w, Inr p, i, functionHash)))))))"

definition return_bytes :: "ipc_env \<Rightarrow> u32 \<Rightarrow> u32 \<Rightarrow> ipc_param \<Rightarrow> bytes res" where
  "return_bytes env i hash ret =
     bind_res (serialize ret) (\<lambda>d.
       let dsize = getSerializeSize ret in
       if unat (IPCFunctionCallSIZE + dsize + IPCParameterSIZE) < 24 + length d then Inl UNDEFINED
       else Inr (le32 hash @ le32 (dsize + IPCParameterSIZE) @ le32 i @ le32 1
                 @ le32 (getType (nm env) ret) @ le32 dsize @ d))"

definition handleFunctionCall ::
    "ipc_env \<Rightarrow> 'w ipc_class \<Rightarrow> 'w \<Rightarrow> bytes \<Rightarrow> u32 \<Rightarrow> bool \<Rightarrow> ('w \<times> send list) res" where
  "handleFunctionCall env c w buff sz async =
     bind_res (doHandleFunctionCall env c w buff sz) (\<lambda>(w, r, i, hash).
       let ret = (case r of Inl e \<Rightarrow> exc_param e | Inr p \<Rightarrow> p) in
       if async \<or> hash = 0 then Inr (w, [])
       else bind_res (return_bytes env i hash ret) (\<lambda>b. Inr (w, [(MT_FUNCTIONRETURN, b)])))"

text \<open>The result of a call, whose size is not checked.\<close>

definition read_result :: "ipc_env \<Rightarrow> bytes \<Rightarrow> ipc_param res" where
  "read_result env par =
     bind_res (rd32 par) (\<lambda>type. bind_res (rd32 (drop 4 par)) (\<lambda>psize. newParameter (nm env) type (drop 8 par) psize))"

definition handleFunctionReturn :: "ipc_env \<Rightarrow> 'w ipc_class \<Rightarrow> bytes \<Rightarrow> 'w ipc_class res" where
  "handleFunctionReturn env c buff =
     bind_res (rd32 (drop 8 buff)) (\<lambda>i.
       case findLock i (locks c) of
         None \<Rightarrow> Inr c
       | Some _ \<Rightarrow> bind_res (read_result env (drop 16 buff)) (\<lambda>p. Inr (c\<lparr>locks := trigger_lock i p (locks c)\<rparr>)))"

definition handleEventTrigger :: "ipc_env \<Rightarrow> 'w ipc_class \<Rightarrow> 'w \<Rightarrow> bytes \<Rightarrow> u32 \<Rightarrow> 'w res option" where
  "handleEventTrigger env c w buff sz =
     (if IPCEventTriggerSIZE > sz then Some (Inr w)
      else
        (case bind_res (rd32 buff) (\<lambda>hash. bind_res (rd32 (drop 4 buff)) (\<lambda>n. Inr (hash, n))) of
           Inl e \<Rightarrow> Some (Inl e)
         | Inr (hash, n) \<Rightarrow>
             (case m_mEvent c hash of
                None \<Rightarrow> Some (Inr w)
              | Some ev \<Rightarrow>
                  map_option (\<lambda>r. bind_res r (\<lambda>(ps, _). Inr (event_trigger ev ps w)))
                    (deserializeList (nm env) (drop 8 buff) n))))"

text \<open>
  A message for the class: its new state, the state of the process, what it sends, and whether it asks the manager to
  destroy it. \<open>None\<close>: the handler does not return.
\<close>

definition messageRecived ::
    "ipc_env \<Rightarrow> 'w ipc_class \<Rightarrow> 'w \<Rightarrow> u8 \<Rightarrow> bytes \<Rightarrow> u32 \<Rightarrow> ('w ipc_class \<times> 'w \<times> send list \<times> bool) res option" where
  "messageRecived env c w type buff sz =
     (if ucast type = mt MT_FUNCTIONCALL then
        Some (bind_res (handleFunctionCall env c w buff sz False) (\<lambda>(w, out). Inr (c, w, out, False)))
      else if ucast type = mt MT_FUNCTIONCALL_ASYNC then
        Some (bind_res (handleFunctionCall env c w buff sz True) (\<lambda>(w, out). Inr (c, w, out, False)))
      else if ucast type = mt MT_FUNCTIONRETURN then
        Some (bind_res (handleFunctionReturn env c buff) (\<lambda>c. Inr (c, w, [], False)))
      else if ucast type = mt MT_EVENTTRIGGER then
        map_option (\<lambda>r. bind_res r (\<lambda>w. Inr (c, w, [], False))) (handleEventTrigger env c w buff sz)
      else if ucast type = mt MT_KILL then
        let c = c\<lparr>m_nKillCount := m_nKillCount c + 1\<rparr> in
        if m_nKillCount c = 2 then Some (Inr (c, w, [(MT_KILL_COMPLETE, [])], True)) else Some (Inr (c, w, [], False))
      else if ucast type = mt MT_KILL_COMPLETE then
        let c = c\<lparr>m_nKillCount := m_nKillCount c + 1\<rparr> in
        Some (Inr (if m_nKillCount c = 2 then c\<lparr>m_KillCondition := True\<rparr> else c, w, [], False))
      else Some (Inr (c, w, [], False)))"

section \<open>Locks are found by their number\<close>

lemma lock_id_trigger [simp]: "lock_id (lock_trigger p l) = lock_id l"
  by (simp add: lock_trigger_def)

lemma findLock_trigger:
  "findLock j (trigger_lock i p k) = (if j = i then map_option (lock_trigger p) (findLock i k) else findLock j k)"
proof -
  have "find (\<lambda>l. lock_id l = j) (trigger_first i p ls)
      = (if j = i then map_option (lock_trigger p) (find (\<lambda>l. lock_id l = i) ls) else find (\<lambda>l. lock_id l = j) ls)" for ls
    by (induction ls) auto
  then show ?thesis by (simp add: findLock_def trigger_lock_def)
qed

lemma findLock_newLock:
  assumes "m_uiIdCount k + 1 \<notin> lock_id ` set (m_vLockList k)"
  shows "findLock (fst (newLock k)) (snd (newLock k))
    = Some \<lparr>lock_id = m_uiIdCount k + 1, m_pResult = None, m_bTriggered = False\<rparr>"
proof -
  have "find (\<lambda>l. lock_id l = i) (ls @ [l]) = Some l" if "i \<notin> lock_id ` set ls" "lock_id l = i" for ls l i
    using that by (induction ls) auto
  from this [OF assms] show ?thesis by (simp add: newLock_def findLock_def Let_def)
qed

section \<open>Reading a call\<close>

definition local_call :: "'w net_function \<Rightarrow> 'w \<Rightarrow> ipc_param list \<Rightarrow> 'w \<times> ipc_param" where
  "local_call f w ps =
     (case m_fnCallback f w ps of
        (w, Inl e) \<Rightarrow> (w, exc_param e)
      | (w, Inr res) \<Rightarrow> (w, if returns_void f then PVoid else res))"

lemma arg_of_bytes:
  assumes "names_ok (nm env)" and "param_ok p" and "type_of q = type_of p" and "param_bytes (nm env) p = Inr b"
  shows "setupParam env q (Some (b @ after)) = Inr p"
proof -
  obtain d where "serialize p = Inr d" "b = le32 (getType (nm env) p) @ le32 (getSerializeSize p) @ d"
    using assms(4) by (auto simp: param_bytes_def bind_res_Inr)
  then show ?thesis
    using deserialize_serialize [OF assms(2,3), of d after] assms(3)
    by (simp add: setupParam_def codec_simps getType_def)
qed

lemma setup_args:
  assumes nm: "names_ok (nm env)"
  shows "\<lbrakk>\<forall>p\<in>set ps. param_ok p; map type_of qs = map type_of ps; params_bytes (nm env) ps = Inr bs;
      unat dn + sum_list (map wire_size ps) = unat sz\<rbrakk>
    \<Longrightarrow> bind_res (arg_ptrs (length ps) (bs @ after) dn sz) (\<lambda>ms. setup_all env qs ms) = Inr ps"
proof (induction ps arbitrary: qs bs dn)
  case (Cons p ps)
  obtain q qs' where qs: "qs = q # qs'" "type_of q = type_of p" "map type_of qs' = map type_of ps"
    using Cons.prems(2) by (cases qs) auto
  obtain d where d: "serialize p = Inr d" "length d = unat (getSerializeSize p)"
    "param_bytes (nm env) p = Inr (le32 (getType (nm env) p) @ le32 (getSerializeSize p) @ d)"
    using Cons.prems(1) param_bytes_ok [of p "nm env"] by auto
  obtain bs' where bs': "params_bytes (nm env) ps = Inr bs'" "bs = le32 (getType (nm env) p) @ le32 (getSerializeSize p) @ d @ bs'"
    using Cons.prems(3) d by (auto simp: bind_res_Inr)
  have total: "unat dn + wire_size p + sum_list (map wire_size ps) = unat sz" using Cons.prems(4) by simp
  then have fit: "wire_size p < 2 ^ 32" "unat dn + wire_size p < 2 ^ 32"
    using unsigned_less [of sz, where ?'a = nat] by simp_all
  then have size8: "unat (8 + getSerializeSize p) = wire_size p"
    using unat_plus_eq [of 8 "getSerializeSize p"] by (simp add: wire_size_def)
  then have "unat (dn + (8 + getSerializeSize p)) + sum_list (map wire_size ps) = unat sz"
    using fit total unat_plus_eq [of dn "8 + getSerializeSize p"] by simp
  then have IH: "bind_res (arg_ptrs (length ps) (bs' @ after) (dn + (8 + getSerializeSize p)) sz) (setup_all env qs') = Inr ps"
    using Cons.IH [of qs' bs' "dn + (8 + getSerializeSize p)"] Cons.prems(1) qs(3) bs'(1) by simp
  have "\<not> sz \<le> dn" using total by (simp add: word_le_nat_alt wire_size_def)
  moreover have "drop (wire_size p) (bs @ after) = bs' @ after"
    by (simp add: bs' d wire_size_def)
  moreover have "setupParam env q (Some (bs @ after)) = Inr p"
    using arg_of_bytes [OF nm _ qs(2) d(3), of "bs' @ after"] Cons.prems(1) by (simp add: bs'(2))
  moreover have "rd32 (drop 4 (bs @ after)) = Inr (getSerializeSize p)"
    by (simp add: bs'(2) codec_simps)
  ultimately show ?case
    using IH by (auto simp: qs(1) IPCParameterSIZE_def size8 Let_def bind_res_Inr)
qed (auto simp: bind_res_Inr)

text \<open>What a call looks like and that it fits: the bounds on the arguments.\<close>

definition args_ok :: "'w net_function \<Rightarrow> ipc_param list \<Rightarrow> bool" where
  "args_ok f ps \<longleftrightarrow> (\<forall>p\<in>set ps. param_ok p) \<and> sum_list (map wire_size ps) < 2 ^ 32 - 16 \<and> length ps < 256
     \<and> map type_of (Args f) = map type_of ps"

lemma list_ok_args: "args_ok f ps \<Longrightarrow> list_ok ps"
  by (auto simp: args_ok_def list_ok_def)

lemma processArgs_back:
  assumes "names_ok (nm env)" and "args_ok f ps" and "params_bytes (nm env) ps = Inr bs" and "unat sz = sum_list (map wire_size ps)"
  shows "processArgs env (Args f) (bs @ after) sz (of_nat (length ps)) = Inr (Inr ps)"
proof -
  have len: "length (Args f) = length ps" and small: "unat (of_nat (length ps) :: u8) = length ps"
    using assms(2) by (auto simp: args_ok_def unat_of_nat take_bit_nat_eq_self dest: map_eq_imp_length_eq)
  have "bind_res (arg_ptrs (length ps) (bs @ after) 0 sz) (\<lambda>ms. setup_all env (Args f) ms) = Inr ps"
    by (rule setup_args) (use assms in \<open>auto simp: args_ok_def\<close>)
  then show ?thesis
    by (auto simp: processArgs_def len small bind_res_Inr)
qed

lemma call_bytes_ok:
  assumes "args_ok f ps"
  shows "\<exists>data. params_bytes (nm env) ps = Inr data \<and> length data = sum_list (map wire_size ps)
    \<and> call_bytes env name i ps
      = Inr (le32 (RSHash name) @ le32 (of_nat (length data)) @ le32 i @ le32 (of_nat (length ps)) @ data)"
proof -
  obtain data n where "serializeList (nm env) ps = Inr (data, n)" "params_bytes (nm env) ps = Inr data"
    "length data = unat n" "unat n = sum_list (map wire_size ps)"
    using serializeList_ok [OF list_ok_args [OF assms], of "nm env"] by blast
  moreover have "n = of_nat (unat n)" by (simp only: of_nat_unat ucast_id)
  ultimately have "serializeList (nm env) ps = Inr (data, of_nat (length data))" "params_bytes (nm env) ps = Inr data"
    "length data = sum_list (map wire_size ps)" by simp_all
  then show ?thesis by (simp add: call_bytes_def)
qed

text \<open>The callee makes the call that the message asks for and answers with its result.\<close>

lemma handleFunctionCall_ok:
  assumes nm: "names_ok (nm env)" and f: "m_mFunc c (RSHash name) = Some f" and h: "RSHash name \<noteq> 0"
    and ok: "args_ok f ps" and b: "call_bytes env name i ps = Inr b"
    and r: "local_call f w ps = (w', r)" and rb: "return_bytes env i (RSHash name) r = Inr rb"
  shows "handleFunctionCall env c w (b @ after) (of_nat (length b)) async = Inr (w', if async then [] else [(MT_FUNCTIONRETURN, rb)])"
proof -
  obtain data where data: "params_bytes (nm env) ps = Inr data" "length data = sum_list (map wire_size ps)"
    "b = le32 (RSHash name) @ le32 (of_nat (length data)) @ le32 i @ le32 (of_nat (length ps)) @ data"
    using call_bytes_ok [OF ok, of env name i] b by auto
  have small: "length data < 2 ^ 32 - 16" using ok data(2) by (simp add: args_ok_def)
  have len: "unat (of_nat (length b) :: u32) = 16 + length data"
    using small by (simp add: data(3) codec_simps)
  have "unat (of_nat (length data) + 16 :: u32) = length data + 16"
    using small by (simp add: codec_simps)
  then have size: "\<not> (of_nat (length b) :: u32) < 16" "\<not> (of_nat (length b) :: u32) < of_nat (length data) + 16"
    using len by (simp_all add: word_less_nat_alt)
  have p: "processArgs env (Args f) (data @ after) (of_nat (length data)) (of_nat (length ps)) = Inr (Inr ps)"
    by (rule processArgs_back [OF nm ok data(1)]) (use small data(2) in simp)
  have "net_call env f w (data @ after) (of_nat (length data)) (of_nat (length ps)) = Inr (w', r)"
    using r by (auto simp: net_call_def p local_call_def split: prod.splits sum.splits)
  moreover have "ucast (of_nat (length ps) :: u32) = (of_nat (length ps) :: u8)"
    using ok by (simp add: args_ok_def unsigned_of_nat take_bit_nat_eq_self)
  ultimately have "doHandleFunctionCall env c w (b @ after) (of_nat (length b)) = Inr (w', Inr r, i, RSHash name)"
    using size by (simp add: doHandleFunctionCall_def data(3) codec_simps f IPCFunctionCallSIZE_def Let_def)
  then show ?thesis
    using h rb by (simp add: handleFunctionCall_def Let_def)
qed

lemma return_bytes_ok:
  assumes "param_ok r" and "unat (getSerializeSize r) < 2 ^ 32 - 24"
  shows "\<exists>d. serialize r = Inr d \<and> length d = unat (getSerializeSize r)
    \<and> return_bytes env i hash r = Inr (le32 hash @ le32 (getSerializeSize r + 8) @ le32 i @ le32 1
        @ le32 (getType (nm env) r) @ le32 (getSerializeSize r) @ d)"
proof -
  obtain d where d: "serialize r = Inr d" "length d = unat (getSerializeSize r)"
    using serialize_length [OF assms(1)] by auto
  have s: "IPCFunctionCallSIZE + getSerializeSize r + IPCParameterSIZE = getSerializeSize r + 24"
    by (simp add: IPCFunctionCallSIZE_def IPCParameterSIZE_def)
  have "unat (IPCFunctionCallSIZE + getSerializeSize r + IPCParameterSIZE) = unat (getSerializeSize r) + 24"
    unfolding s using assms(2) by (simp add: codec_simps)
  then show ?thesis using d by (simp add: return_bytes_def Let_def IPCParameterSIZE_def)
qed

text \<open>The caller finds the lock of the call and puts the result there.\<close>

lemma handleFunctionReturn_ok:
  assumes "names_ok (nm env)" and "param_ok r" and "unat (getSerializeSize r) < 2 ^ 32 - 24"
    and "return_bytes env i hash r = Inr rb" and "findLock i (locks c) = Some l"
  shows "handleFunctionReturn env c (rb @ after) = Inr (c\<lparr>locks := trigger_lock i r (locks c)\<rparr>)"
proof -
  obtain d where d: "serialize r = Inr d" "length d = unat (getSerializeSize r)"
    "rb = le32 hash @ le32 (getSerializeSize r + 8) @ le32 i @ le32 1 @ le32 (getType (nm env) r) @ le32 (getSerializeSize r) @ d"
    using return_bytes_ok [OF assms(2,3), of env i hash] assms(4) by auto
  have "read_result env (le32 (getType (nm env) r) @ le32 (getSerializeSize r) @ d @ after) = Inr r"
    using newParameter_back [OF assms(1,2) d(1), of after] by (simp add: read_result_def codec_simps)
  then show ?thesis using assms(5) by (simp add: handleFunctionReturn_def d(3) codec_simps)
qed

end
