(* ===== verification/Ipc_Manager.thy ===== *)
theory Ipc_Manager
  imports Ipc_Class
begin

text \<open>
  The manager of the classes of one process: \<^verbatim>\<open>src/src/static/ipc_pipe/code/IPCManager.cpp\<close>, with the packed structures
  of \<^verbatim>\<open>IPCMessage.h\<close>. Messages are cut into parts that fit the buffer of the pipe, put together on the other side and
  handed to the classes, partly through two queues that have a thread each. A queue is a list here, and the work of its
  thread on one message is one step; \<open>None\<close> is a step that does not end. The class registry \<open>g_pmIPCClassList\<close>, filled
  by the users of the library, is a parameter.
\<close>

section \<open>Messages\<close>

record ipc_message =
  tsize :: u32
  msg_id :: u32
  msg_type :: u32
  msg_size :: u32
  part :: u8
  totparts :: u8
  serial :: u64

definition IPCMessageSIZE :: nat where "IPCMessageSIZE = 26"
definition BUFSIZE :: nat where "BUFSIZE = 4096"

definition message_bytes :: "ipc_message \<Rightarrow> bytes" where
  "message_bytes m =
     le32 (tsize m) @ le32 (msg_id m) @ le32 (msg_type m) @ le32 (msg_size m) @ [part m, totparts m] @ le64 (serial m)"

text \<open>The structure at a pointer.\<close>

definition message_at :: "bytes \<Rightarrow> ipc_message res" where
  "message_at mem =
     (if length mem < IPCMessageSIZE then Inl UNDEFINED
      else Inr \<lparr>tsize = read32 mem 0, msg_id = read32 mem 4, msg_type = read32 mem 8, msg_size = read32 mem 12,
                part = mem ! 16, totparts = mem ! 17, serial = read64 mem 18\<rparr>)"

section \<open>State\<close>

record 'w ipc_manager =
  m_bServer :: bool
  m_bDisconnected :: bool
  m_mClassId :: u32
  m_Locks :: lockable
  m_vClassList :: "'w ipc_class list"
  m_nMsgSerial :: u64
  m_vPipeMsgs :: "bytes list"
  m_mOutstandingPartMessages :: "u64 \<Rightarrow> bytes list"
  m_pPendingMessage :: "(u32 \<times> bytes) option"
  m_EventQueue :: "(u32 \<times> u32 \<times> bytes) list"
  m_CallQueue :: "(u32 \<times> u32 \<times> bytes) list"
  world :: 'w

definition IPCManager_new :: "bool \<Rightarrow> 'w \<Rightarrow> 'w ipc_manager" where
  "IPCManager_new isServer w =
     \<lparr>m_bServer = isServer, m_bDisconnected = False, m_mClassId = (if isServer then 1 else - 1),
      m_Locks = \<lparr>m_uiIdCount = 0, m_vLockList = []\<rparr>, m_vClassList = [], m_nMsgSerial = 0, m_vPipeMsgs = [],
      m_mOutstandingPartMessages = (\<lambda>_. []), m_pPendingMessage = None, m_EventQueue = [], m_CallQueue = [], world = w\<rparr>"

definition findClass :: "u32 \<Rightarrow> 'w ipc_manager \<Rightarrow> 'w ipc_class option" where
  "findClass i s = find (\<lambda>c. m_uiId c = i) (m_vClassList s)"

definition isVaildClass :: "u32 \<Rightarrow> 'w ipc_manager \<Rightarrow> bool" where
  "isVaildClass i s \<longleftrightarrow> i = 0 \<or> findClass i s \<noteq> None"

text \<open>The object that \<open>findClass\<close> returned has changed.\<close>

fun set_class :: "'w ipc_class \<Rightarrow> 'w ipc_class list \<Rightarrow> 'w ipc_class list" where
  "set_class c [] = []"
| "set_class c (d # ds) = (if m_uiId d = m_uiId c then c # ds else d # set_class c ds)"

fun remove_class :: "u32 \<Rightarrow> 'w ipc_class list \<Rightarrow> 'w ipc_class list" where
  "remove_class i [] = []"
| "remove_class i (c # cs) = (if m_uiId c = i then cs else c # remove_class i cs)"

definition destroyClass :: "u32 \<Rightarrow> 'w ipc_manager \<Rightarrow> 'w ipc_manager" where
  "destroyClass i s = s\<lparr>m_vClassList := remove_class i (m_vClassList s)\<rparr>"

section \<open>Sending\<close>

text \<open>The payloads of the parts.\<close>

function msg_parts :: "bytes \<Rightarrow> bytes list" where
  "msg_parts buff =
     (if length buff \<le> BUFSIZE - IPCMessageSIZE then [buff]
      else take (BUFSIZE - IPCMessageSIZE) buff # msg_parts (drop (BUFSIZE - IPCMessageSIZE) buff))"
  by pat_completeness auto
termination
  by (relation "measure length") (auto simp: BUFSIZE_def IPCMessageSIZE_def)

declare msg_parts.simps [simp del]

definition createMessage :: "u32 \<Rightarrow> u32 \<Rightarrow> u64 \<Rightarrow> bytes \<Rightarrow> u8 \<Rightarrow> u8 \<Rightarrow> bytes" where
  "createMessage i type ser buff prt tot =
     message_bytes \<lparr>tsize = of_nat (IPCMessageSIZE + length buff), msg_id = i, msg_type = type, msg_size = of_nat (length buff),
       part = prt, totparts = tot, serial = ser\<rparr> @ buff"

text \<open>The numbers of the parts are cut to 8 bits.\<close>

definition make_parts :: "u32 \<Rightarrow> u32 \<Rightarrow> u64 \<Rightarrow> bytes \<Rightarrow> bytes list" where
  "make_parts i type ser buff =
     (let ps = msg_parts buff
      in map (\<lambda>x. createMessage i type ser (ps ! x) (of_nat x) (of_nat (length ps))) [0 ..< length ps])"

definition sendMessage :: "bytes \<Rightarrow> u32 \<Rightarrow> msg_type \<Rightarrow> 'w ipc_manager \<Rightarrow> 'w ipc_manager res" where
  "sendMessage buff i type s =
     (if m_bDisconnected s then Inl ERR_IPC
      else if \<not> isVaildClass i s then Inl ERR_IPC
      else
        let ser = m_nMsgSerial s + 1 in
        Inr (s\<lparr>m_nMsgSerial := ser, m_vPipeMsgs := m_vPipeMsgs s @ make_parts i (mt type) ser buff\<rparr>))"

fun send_all :: "u32 \<Rightarrow> send list \<Rightarrow> 'w ipc_manager \<Rightarrow> 'w ipc_manager res" where
  "send_all i [] s = Inr s"
| "send_all i ((type, b) # out) s = bind_res (sendMessage b i type s) (send_all i out)"

text \<open>The next message for the pipe; one that is longer than the buffer is cut.\<close>

definition getMessageToSend :: "nat \<Rightarrow> 'w ipc_manager \<Rightarrow> 'w ipc_manager \<times> bytes option" where
  "getMessageToSend buffSize s =
     (case m_vPipeMsgs s of
        [] \<Rightarrow> (s, None)
      | m # ms \<Rightarrow> (s\<lparr>m_vPipeMsgs := ms\<rparr>, Some (take buffSize m)))"

definition getNumSendEvents :: "'w ipc_manager \<Rightarrow> nat" where
  "getNumSendEvents s = length (m_vPipeMsgs s)"

definition stop :: "'w ipc_manager \<Rightarrow> 'w ipc_manager res" where
  "stop s = (if m_bDisconnected s then Inr s else sendMessage [] 0 MT_STOP s)"

section \<open>Creating classes\<close>

type_synonym 'w class_registry = "u32 \<rightharpoonup> (u32 \<Rightarrow> 'w ipc_class)"

text \<open>The side that asks: the start sends the request, the end reads what came back and keeps the new object.\<close>

definition createClass_start ::
    "'w class_registry \<Rightarrow> string \<Rightarrow> 'w ipc_manager \<Rightarrow> ('w ipc_manager \<times> 'w ipc_class \<times> u32) res" where
  "createClass_start reg name s =
     (case reg (RSHash name) of
        None \<Rightarrow> Inl ERR_IPC
      | Some mk \<Rightarrow>
          let i = m_mClassId s;
              s = s\<lparr>m_mClassId := (if m_bServer s then i + 1 else i - 1)\<rparr>
          in (case newLock (m_Locks s) of
                (lk, k) \<Rightarrow>
                  bind_res (sendMessage (le32 (RSHash name) @ le32 i @ le32 lk) 0 MT_CREATECLASS (s\<lparr>m_Locks := k\<rparr>)) (\<lambda>s.
                    Inr (s, mk i, lk))))"

text \<open>\<open>getValue\<close> is not zero: a number that is not, or a pointer.\<close>

fun value_nonzero :: "ipc_param \<Rightarrow> bool" where
  "value_nonzero PVoid \<longleftrightarrow> False"
| "value_nonzero (PBool b) \<longleftrightarrow> b"
| "value_nonzero (PUint32 v) \<longleftrightarrow> v \<noteq> 0"
| "value_nonzero (PInt32 v) \<longleftrightarrow> v \<noteq> 0"
| "value_nonzero (PUint64 v) \<longleftrightarrow> v \<noteq> 0"
| "value_nonzero (PDouble v) \<longleftrightarrow> v \<noteq> 0"
| "value_nonzero (PString s) \<longleftrightarrow> s \<noteq> None"
| "value_nonzero _ \<longleftrightarrow> True"

definition createClass_end :: "'w ipc_class \<Rightarrow> u32 \<Rightarrow> 'w ipc_manager \<Rightarrow> 'w ipc_manager \<times> unit res" where
  "createClass_end c lk s =
     (let ret = Option.bind (findLock lk (m_Locks s)) m_pResult;
          s = s\<lparr>m_Locks := delLock lk (m_Locks s)\<rparr>
      in case ret of
           None \<Rightarrow> (s, Inl ERR_IPC)
         | Some (PException _ _ _) \<Rightarrow> (s, Inl ERR_IPC)
         | Some p \<Rightarrow> if value_nonzero p then (s\<lparr>m_vClassList := m_vClassList s @ [c]\<rparr>, Inr ()) else (s, Inl ERR_IPC))"

text \<open>The other side.\<close>

definition no_class_message :: bytes where
  "no_class_message = map byte_of_char ''Cannot find class to create''"

definition createClass :: "'w class_registry \<Rightarrow> u32 \<Rightarrow> u32 \<Rightarrow> 'w ipc_manager \<Rightarrow> 'w ipc_manager \<times> ipc_param" where
  "createClass reg hash i s =
     (case reg hash of
        None \<Rightarrow> (s, PException ID_ERR_IPC 0 no_class_message)
      | Some mk \<Rightarrow> (s\<lparr>m_vClassList := m_vClassList s @ [mk i]\<rparr>, PBool True))"

definition create_return_bytes :: "ipc_env \<Rightarrow> u32 \<Rightarrow> u32 \<Rightarrow> ipc_param \<Rightarrow> bytes res" where
  "create_return_bytes env i lk p =
     bind_res (serialize p) (\<lambda>d.
       Inr (le32 i @ le32 lk @ le32 (getSerializeSize p + IPCParameterSIZE)
            @ le32 (getType (nm env) p) @ le32 (getSerializeSize p) @ d))"

definition processInternalMessage ::
    "ipc_env \<Rightarrow> 'w class_registry \<Rightarrow> u8 \<Rightarrow> bytes \<Rightarrow> 'w ipc_manager \<Rightarrow> 'w ipc_manager res" where
  "processInternalMessage env reg type buff s =
     (if ucast type = mt MT_CREATECLASS then
        bind_res (rd32 buff) (\<lambda>hash. bind_res (rd32 (drop 4 buff)) (\<lambda>i. bind_res (rd32 (drop 8 buff)) (\<lambda>lk.
          case createClass reg hash i s of
            (s, res) \<Rightarrow>
              bind_res (create_return_bytes env i lk res) (\<lambda>b. sendMessage b 0 MT_CREATECLASSRETURN s))))
      else if ucast type = mt MT_CREATECLASSRETURN then
        bind_res (rd32 (drop 4 buff)) (\<lambda>lk.
          case findLock lk (m_Locks s) of
            None \<Rightarrow> Inr s
          | Some _ \<Rightarrow>
              bind_res (read_result env (drop 12 buff)) (\<lambda>p. Inr (s\<lparr>m_Locks := trigger_lock lk p (m_Locks s)\<rparr>)))
      else Inr s)"

section \<open>Receiving a message\<close>

text \<open>A class has handled a message: what it sends, and whether it is gone.\<close>

definition class_done :: "'w ipc_class \<times> 'w \<times> send list \<times> bool \<Rightarrow> 'w ipc_manager \<Rightarrow> 'w ipc_manager res" where
  "class_done r s =
     (case r of (c, w, out, gone) \<Rightarrow>
        bind_res (send_all (m_uiId c) out (s\<lparr>m_vClassList := set_class c (m_vClassList s), world := w\<rparr>)) (\<lambda>s.
          Inr (if gone then destroyClass (m_uiId c) s else s)))"

definition class_message ::
    "ipc_env \<Rightarrow> 'w ipc_class \<Rightarrow> u8 \<Rightarrow> bytes \<Rightarrow> u32 \<Rightarrow> 'w ipc_manager \<Rightarrow> 'w ipc_manager res option" where
  "class_message env c type buff sz s =
     map_option (\<lambda>r. bind_res r (\<lambda>r. class_done r s)) (messageRecived env c (world s) type buff sz)"

text \<open>
  A message for a class goes to the queues: events to the one, calls to the other, the two messages about the end of a
  class to both.
\<close>

definition queue_message :: "ipc_message \<Rightarrow> bytes \<Rightarrow> 'w ipc_manager \<Rightarrow> 'w ipc_manager" where
  "queue_message msg b s =
     (let item = (msg_id msg, msg_type msg, b);
          s = (if msg_type msg \<in> {mt MT_EVENTTRIGGER, mt MT_KILL_COMPLETE, mt MT_KILL}
               then s\<lparr>m_EventQueue := m_EventQueue s @ [item]\<rparr> else s)
      in if msg_type msg \<noteq> mt MT_EVENTTRIGGER then s\<lparr>m_CallQueue := m_CallQueue s @ [item]\<rparr> else s)"

text \<open>A whole message: \<open>data\<close> is the memory behind the head.\<close>

definition dispatch ::
    "ipc_env \<Rightarrow> 'w class_registry \<Rightarrow> ipc_message \<Rightarrow> bytes \<Rightarrow> 'w ipc_manager \<Rightarrow> 'w ipc_manager res option" where
  "dispatch env reg msg data s =
     (if msg_id msg = 0 then Some (processInternalMessage env reg (ucast (msg_type msg)) data s)
      else
        case findClass (msg_id msg) s of
          None \<Rightarrow> Some (if msg_type msg = mt MT_FUNCTIONRETURN then Inl UNDEFINED else Inr s)
        | Some c \<Rightarrow>
            if msg_type msg = mt MT_FUNCTIONRETURN then class_message env c (ucast (msg_type msg)) data (msg_size msg) s
            else Some (bind_res (rd_bytes (unat (msg_size msg)) data) (\<lambda>b. Inr (queue_message msg b s))))"

text \<open>The parts with their heads, in the order of their numbers, and the message they make.\<close>

fun part_heads :: "bytes list \<Rightarrow> (ipc_message \<times> bytes) list res" where
  "part_heads [] = Inr []"
| "part_heads (b # bs) =
     bind_res (message_at b) (\<lambda>m. bind_res (part_heads bs) (\<lambda>r. Inr ((m, drop IPCMessageSIZE b) # r)))"

fun copy_parts :: "(ipc_message \<times> bytes) list \<Rightarrow> bytes res" where
  "copy_parts [] = Inr []"
| "copy_parts ((m, d) # ps) =
     bind_res (rd_bytes (unat (msg_size m)) d) (\<lambda>b. bind_res (copy_parts ps) (\<lambda>bs. Inr (b @ bs)))"

definition joinPartMessages :: "bytes list \<Rightarrow> (ipc_message \<times> bytes) res" where
  "joinPartMessages vMessages =
     bind_res (part_heads vMessages) (\<lambda>hs.
       let totSize = of_nat IPCMessageSIZE + sum_list (map (\<lambda>(m, _). msg_size m) hs);
           hs = sort_key (\<lambda>(m, _). part m) hs
       in bind_res (copy_parts hs) (\<lambda>data.
            if hs = [] \<or> unat totSize < IPCMessageSIZE + length data then Inl UNDEFINED
            else
              let m = fst (hs ! 0)
              in Inr (m\<lparr>tsize := totSize, msg_size := totSize - of_nat IPCMessageSIZE, part := 0, totparts := 1\<rparr>, data)))"

text \<open>\<open>m_mOutstandingPartMessages\<close>: \<open>[serial].push_back\<close> and \<open>erase\<close>.\<close>

definition keep_part :: "u64 \<Rightarrow> bytes \<Rightarrow> 'w ipc_manager \<Rightarrow> 'w ipc_manager" where
  "keep_part ser b s =
     s\<lparr>m_mOutstandingPartMessages :=
        (m_mOutstandingPartMessages s)(ser := m_mOutstandingPartMessages s ser @ [b])\<rparr>"

definition forget_parts :: "u64 \<Rightarrow> 'w ipc_manager \<Rightarrow> 'w ipc_manager" where
  "forget_parts ser s = s\<lparr>m_mOutstandingPartMessages := (m_mOutstandingPartMessages s)(ser := [])\<rparr>"

definition recvMessage_msg ::
    "ipc_env \<Rightarrow> 'w class_registry \<Rightarrow> bytes \<Rightarrow> 'w ipc_manager \<Rightarrow> 'w ipc_manager res option" where
  "recvMessage_msg env reg mem s =
     (case message_at mem of
        Inl e \<Rightarrow> Some (Inl e)
      | Inr msg \<Rightarrow>
          if totparts msg \<noteq> 1 then
            (case rd_bytes (unat (tsize msg)) mem of
               Inl e \<Rightarrow> Some (Inl e)
             | Inr b \<Rightarrow>
                 if length (m_mOutstandingPartMessages (keep_part (serial msg) b s) (serial msg)) = unat (totparts msg) then
                   (case joinPartMessages (m_mOutstandingPartMessages (keep_part (serial msg) b s) (serial msg)) of
                      Inl e \<Rightarrow> Some (Inl e)
                    | Inr (m, data) \<Rightarrow>
                        map_option (\<lambda>r. bind_res r (\<lambda>s. Inr (forget_parts (serial msg) s)))
                          (dispatch env reg m data (keep_part (serial msg) b s)))
                 else Some (Inr (keep_part (serial msg) b s)))
          else dispatch env reg msg (drop IPCMessageSIZE mem) s)"

section \<open>Receiving a stream\<close>

text \<open>
  \<open>recvMessage(buff, size)\<close>: whole messages are handled in the buffer, one that is cut off at its end is kept until the
  rest has come: \<open>m_pPendingMessage\<close> is what is missing and what is there. The position is counted in 32 bits.
\<close>

definition pending_append :: "bytes \<Rightarrow> u32 \<times> bytes \<Rightarrow> u32 \<times> bytes" where
  "pending_append b p = (fst p - of_nat (length b), snd p @ b)"

partial_function (option) recv_loop ::
    "ipc_env \<Rightarrow> 'w class_registry \<Rightarrow> bytes \<Rightarrow> u32 \<Rightarrow> 'w ipc_manager \<Rightarrow> 'w ipc_manager res option" where
  "recv_loop env reg buff processed s =
     (if unat processed \<ge> length buff then Some (Inr s)
      else if length buff - unat processed < 4 then Some (Inr s)
      else
        case m_pPendingMessage s of
          Some p \<Rightarrow>
            if unat (fst p) < length buff - unat processed then
              (case recvMessage_msg env reg (snd (pending_append (take (unat (fst p)) (drop (unat processed) buff)) p)) s of
                 None \<Rightarrow> None
               | Some r \<Rightarrow>
                   (case r of Inl e \<Rightarrow> Some (Inl e)
                    | Inr s \<Rightarrow> recv_loop env reg buff (processed + fst p) (s\<lparr>m_pPendingMessage := None\<rparr>)))
            else
              recv_loop env reg buff (processed + of_nat (length buff - unat processed))
                (s\<lparr>m_pPendingMessage := Some (pending_append (drop (unat processed) buff) p)\<rparr>)
        | None \<Rightarrow>
            if unat (read32 buff (unat processed)) > length buff - unat processed then
              recv_loop env reg buff (processed - of_nat (length buff - unat processed))
                (s\<lparr>m_pPendingMessage :=
                    Some (read32 buff (unat processed) - of_nat (length buff - unat processed), drop (unat processed) buff)\<rparr>)
            else
              (case recvMessage_msg env reg (drop (unat processed) buff) s of
                 None \<Rightarrow> None
               | Some r \<Rightarrow>
                   (case r of Inl e \<Rightarrow> Some (Inl e)
                    | Inr s \<Rightarrow> recv_loop env reg buff (processed + read32 buff (unat processed)) s)))"

definition recvMessage :: "ipc_env \<Rightarrow> 'w class_registry \<Rightarrow> bytes \<Rightarrow> 'w ipc_manager \<Rightarrow> 'w ipc_manager res option" where
  "recvMessage env reg buff s = recv_loop env reg buff 0 s"

fun recv_all :: "ipc_env \<Rightarrow> 'w class_registry \<Rightarrow> bytes list \<Rightarrow> 'w ipc_manager \<Rightarrow> 'w ipc_manager res option" where
  "recv_all env reg [] s = Some (Inr s)"
| "recv_all env reg (b # bs) s =
     (case recvMessage env reg b s of
        None \<Rightarrow> None
      | Some r \<Rightarrow> (case r of Inl e \<Rightarrow> Some (Inl e) | Inr s \<Rightarrow> recv_all env reg bs s))"

section \<open>The two queues\<close>

text \<open>One message of a queue: its class may be gone.\<close>

definition process_item :: "ipc_env \<Rightarrow> u32 \<times> u32 \<times> bytes \<Rightarrow> 'w ipc_manager \<Rightarrow> 'w ipc_manager res option" where
  "process_item env e s =
     (case e of (i, type, b) \<Rightarrow>
        case findClass i s of
          None \<Rightarrow> Some (Inr s)
        | Some c \<Rightarrow> class_message env c (ucast type) b (of_nat (length b)) s)"

definition run_events :: "ipc_env \<Rightarrow> 'w ipc_manager \<Rightarrow> 'w ipc_manager res option" where
  "run_events env s =
     (case m_EventQueue s of [] \<Rightarrow> Some (Inr s) | e # es \<Rightarrow> process_item env e (s\<lparr>m_EventQueue := es\<rparr>))"

definition run_calls :: "ipc_env \<Rightarrow> 'w ipc_manager \<Rightarrow> 'w ipc_manager res option" where
  "run_calls env s =
     (case m_CallQueue s of [] \<Rightarrow> Some (Inr s) | e # es \<Rightarrow> process_item env e (s\<lparr>m_CallQueue := es\<rparr>))"

section \<open>The operations of a class through its manager\<close>

definition call_start ::
    "ipc_env \<Rightarrow> u32 \<Rightarrow> string \<Rightarrow> bool \<Rightarrow> ipc_param list \<Rightarrow> 'w ipc_manager \<Rightarrow> ('w ipc_manager \<times> u32 option) res" where
  "call_start env i name async ps s =
     (case findClass i s of
        None \<Rightarrow> Inl UNDEFINED
      | Some c \<Rightarrow>
          bind_res (callFunction env name async ps c) (\<lambda>(c, (type, b), lk).
          bind_res (sendMessage b i type (s\<lparr>m_vClassList := set_class c (m_vClassList s)\<rparr>)) (\<lambda>s. Inr (s, lk))))"

text \<open>\<open>destroy\<close>: the message, and after the wait for the answer the end of this side.\<close>

definition destroy_start :: "u32 \<Rightarrow> 'w ipc_manager \<Rightarrow> 'w ipc_manager res" where
  "destroy_start i s = (if m_bDisconnected s then Inr s else sendMessage [] i MT_KILL s)"

definition destroy_end :: "u32 \<Rightarrow> 'w ipc_manager \<Rightarrow> 'w ipc_manager option" where
  "destroy_end i s =
     (case findClass i s of
        None \<Rightarrow> None
      | Some c \<Rightarrow> if m_bDisconnected s \<or> m_KillCondition c then Some (destroyClass i s) else None)"

definition disconnect :: "'w ipc_manager \<Rightarrow> 'w ipc_manager" where
  "disconnect s = s\<lparr>m_bDisconnected := True\<rparr>"

definition ID_ERR_PIPE :: u32 where "ID_ERR_PIPE = 56"

definition disconnect_message :: bytes where
  "disconnect_message = map byte_of_char ''Pipe Disconnected. IPC Failed.''"

definition informClassesOfDisconnect :: "'w ipc_manager \<Rightarrow> 'w ipc_manager" where
  "informClassesOfDisconnect s =
     s\<lparr>m_vClassList :=
        map (\<lambda>c. c\<lparr>locks := cancelLocks (PException ID_ERR_PIPE 0 disconnect_message) (locks c)\<rparr>) (m_vClassList s)\<rparr>"

definition restart :: "'w ipc_manager \<Rightarrow> 'w ipc_manager" where
  "restart s = s\<lparr>m_vClassList := [], m_EventQueue := [], m_CallQueue := [], m_bDisconnected := False\<rparr>"

section \<open>The two ends of a pipe\<close>

text \<open>
  \<^verbatim>\<open>IPCPipeBase_Nix.cpp\<close>: the buffers that came in and the messages of this process to itself. What
  \<open>processEvents\<close> sends goes to \<open>pipe_recvMessage\<close> of the other end.
\<close>

record 'w pipe_base =
  pipe_manager :: "'w ipc_manager"
  m_vRecvBuffer :: "bytes list"
  m_vLoopback :: "bytes list"

definition pipe_recvMessage :: "bytes \<Rightarrow> 'w pipe_base \<Rightarrow> 'w pipe_base res" where
  "pipe_recvMessage buffer p =
     (if length buffer > BUFSIZE then Inl UNDEFINED else Inr (p\<lparr>m_vRecvBuffer := m_vRecvBuffer p @ [buffer]\<rparr>))"

definition pipe_send :: "'w pipe_base \<Rightarrow> 'w pipe_base \<times> bytes option" where
  "pipe_send p =
     (case getMessageToSend BUFSIZE (pipe_manager p) of (s, b) \<Rightarrow> (p\<lparr>pipe_manager := s\<rparr>, b))"

definition processEvents ::
    "ipc_env \<Rightarrow> 'w class_registry \<Rightarrow> 'w pipe_base \<Rightarrow> ('w pipe_base \<times> bytes option) res option" where
  "processEvents env reg p =
     (case m_vRecvBuffer p of
        [] \<Rightarrow> Some (Inr (pipe_send p))
      | b # bs \<Rightarrow>
          map_option (\<lambda>r. bind_res r (\<lambda>s. Inr (pipe_send (p\<lparr>pipe_manager := s, m_vRecvBuffer := bs\<rparr>))))
            (recvMessage env reg b (pipe_manager p)))"

definition itemsWaiting :: "'w pipe_base \<Rightarrow> bool" where
  "itemsWaiting p \<longleftrightarrow> length (m_vRecvBuffer p) + getNumSendEvents (pipe_manager p) \<noteq> 0"

definition processLoopback :: "ipc_env \<Rightarrow> 'w class_registry \<Rightarrow> 'w pipe_base \<Rightarrow> 'w pipe_base res option" where
  "processLoopback env reg p =
     (case m_vLoopback p of
        [] \<Rightarrow> Some (Inr p)
      | b # bs \<Rightarrow>
          map_option (\<lambda>r. bind_res r (\<lambda>s. Inr (p\<lparr>pipe_manager := s, m_vLoopback := bs\<rparr>)))
            (recvMessage env reg b (pipe_manager p)))"

text \<open>The serial number of a message of this kind is not set: \<open>ser\<close> is what the memory held.\<close>

definition sendLoopbackMessage :: "u64 \<Rightarrow> bytes \<Rightarrow> u32 \<Rightarrow> msg_type \<Rightarrow> 'w pipe_base \<Rightarrow> 'w pipe_base res" where
  "sendLoopbackMessage ser buff i type p =
     (if m_bDisconnected (pipe_manager p) then Inl ERR_IPC
      else Inr (p\<lparr>m_vLoopback := m_vLoopback p @ [createMessage i (mt type) ser buff 0 1]\<rparr>))"

text \<open>\<open>callLoopback\<close>: a call of this process to itself, on the thread of the pipe.\<close>

definition callLoopback ::
    "ipc_env \<Rightarrow> u64 \<Rightarrow> u32 \<Rightarrow> string \<Rightarrow> bool \<Rightarrow> ipc_param list \<Rightarrow> 'w pipe_base \<Rightarrow> ('w pipe_base \<times> u32 option) res" where
  "callLoopback env ser i name async ps p =
     (let s = pipe_manager p in
      case findClass i s of
        None \<Rightarrow> Inl UNDEFINED
      | Some c \<Rightarrow>
          bind_res (callFunction env name async ps c) (\<lambda>(c, (type, b), lk).
          bind_res (sendLoopbackMessage ser b i type (p\<lparr>pipe_manager := s\<lparr>m_vClassList := set_class c (m_vClassList s)\<rparr>\<rparr>))
            (\<lambda>p. Inr (p, lk))))"

end
