(* ===== verification/Ipc_Transport.thy ===== *)
theory Ipc_Transport
  imports Ipc_Manager "HOL-Library.Multiset"
begin

text \<open>
  What arrives on the other side of the pipe: the packed heads, the parts of a message in any order, the stream with its
  pending message, and where the 8-bit part counter and the backward step of the stream break it.
\<close>

section \<open>The head of a message\<close>

lemma length_message_bytes [simp]: "length (message_bytes m) = 26"
  by (simp add: message_bytes_def)

lemma message_at_bytes [codec_simps]: "message_at (message_bytes m @ d) = Inr m"
  by (simp add: message_at_def IPCMessageSIZE_def message_bytes_def read32_def read64_def readInt_le32 readInt_le64 nth_append)

interpretation message_head: fixed_codec message_bytes
  "\<lambda>bs. if length bs = 26 then (case message_at bs of Inl _ \<Rightarrow> None | Inr m \<Rightarrow> Some m) else None" "\<lambda>_. True" 26
  by unfold_locales (use message_at_bytes [of _ "[]"] in simp_all)

text \<open>A message of one part, as \<open>sendMessage\<close> would make it.\<close>

definition whole_head :: "u32 \<Rightarrow> u32 \<Rightarrow> u64 \<Rightarrow> bytes \<Rightarrow> ipc_message" where
  "whole_head i type ser b =
     \<lparr>tsize = of_nat (IPCMessageSIZE + length b), msg_id = i, msg_type = type, msg_size = of_nat (length b),
      part = 0, totparts = 1, serial = ser\<rparr>"

section \<open>The parts\<close>

lemma concat_msg_parts: "concat (msg_parts b) = b"
proof (induction b rule: msg_parts.induct)
  case (1 b)
  then show ?case by (subst msg_parts.simps) simp
qed

lemma msg_parts_size: "p \<in> set (msg_parts b) \<Longrightarrow> length p \<le> 4070"
proof (induction b rule: msg_parts.induct)
  case (1 b)
  then show ?case by (subst (asm) (2) msg_parts.simps) (auto simp: BUFSIZE_def IPCMessageSIZE_def split: if_splits)
qed

lemma msg_parts_nonempty [simp]: "msg_parts b \<noteq> []"
  by (subst msg_parts.simps) simp

lemma length_msg_parts: "length b \<le> Suc k * 4070 \<Longrightarrow> length (msg_parts b) \<le> Suc k"
proof (induction k arbitrary: b)
  case 0
  then show ?case by (subst msg_parts.simps) (simp add: BUFSIZE_def IPCMessageSIZE_def)
next
  case (Suc k)
  then have "length (msg_parts (drop 4070 b)) \<le> Suc k" by simp
  then show ?case by (subst msg_parts.simps) (simp add: BUFSIZE_def IPCMessageSIZE_def)
qed

definition part_of :: "u32 \<Rightarrow> u32 \<Rightarrow> u64 \<Rightarrow> bytes list \<Rightarrow> nat \<Rightarrow> bytes" where
  "part_of i type ser ps x = createMessage i type ser (ps ! x) (of_nat x) (of_nat (length ps))"

definition part_head :: "u32 \<Rightarrow> u32 \<Rightarrow> u64 \<Rightarrow> bytes list \<Rightarrow> nat \<Rightarrow> ipc_message" where
  "part_head i type ser ps x =
     \<lparr>tsize = of_nat (IPCMessageSIZE + length (ps ! x)), msg_id = i, msg_type = type, msg_size = of_nat (length (ps ! x)),
      part = of_nat x, totparts = of_nat (length ps), serial = ser\<rparr>"

lemma make_parts_map: "make_parts i type ser b = map (part_of i type ser (msg_parts b)) [0 ..< length (msg_parts b)]"
  by (simp add: make_parts_def part_of_def Let_def)

lemma part_of_bytes: "part_of i type ser ps x = message_bytes (part_head i type ser ps x) @ ps ! x"
  by (simp add: part_of_def createMessage_def part_head_def)

lemma mset_map_obtain:
  assumes "mset bs = mset (map f ys)"
  obtains xs where "mset xs = mset ys" "bs = map f xs"
  using assms
proof (induction bs arbitrary: ys thesis)
  case (Cons b bs)
  then have "b \<in> set (map f ys)" by (metis list.set_intros(1) set_mset_mset)
  then obtain y where y: "y \<in> set ys" "b = f y" by auto
  then have "mset ys = add_mset y (mset (remove1 y ys))" by simp
  then have "mset (map f ys) = add_mset (f y) (mset (map f (remove1 y ys)))" by (simp only: mset_map image_mset_add_mset)
  then have "mset bs = mset (map f (remove1 y ys))" using Cons.prems(2) y(2) by simp
  then obtain xs where "mset xs = mset (remove1 y ys)" "bs = map f xs" using Cons.IH by blast
  then show ?case using y Cons.prems(1) [of "y # xs"] by simp
qed simp

lemma part_heads_of:
  "part_heads (map (part_of i type ser ps) xs) = Inr (map (\<lambda>x. (part_head i type ser ps x, ps ! x)) xs)"
  by (induction xs) (simp_all add: part_of_bytes codec_simps IPCMessageSIZE_def)

lemma copy_parts_of:
  "\<forall>x\<in>set xs. length (ps ! x) \<le> 4070 \<Longrightarrow>
   copy_parts (map (\<lambda>x. (part_head i type ser ps x, ps ! x)) xs) = Inr (concat (map ((!) ps) xs))"
proof (induction xs)
  case (Cons x xs)
  have "unat (of_nat (length (ps ! x)) :: u32) = length (ps ! x)" using Cons.prems by simp
  then show ?case using Cons by (simp add: part_head_def rd_bytes_def)
qed simp

lemma sum_sizes: "sum_list (map (\<lambda>p. of_nat (length p)) ps) = (of_nat (length (concat ps)) :: u32)"
  by (induction ps) simp_all

lemma sum_list_perm: "mset xs = mset ys \<Longrightarrow> sum_list (map f xs) = sum_list (map f ys)" for f :: "'a \<Rightarrow> 'b::comm_monoid_add"
proof -
  assume "mset xs = mset ys"
  then have "sum_mset (mset (map f xs)) = sum_mset (mset (map f ys))" by (simp only: mset_map)
  then show ?thesis by (simp only: sum_mset_sum_list)
qed

lemma join_parts:
  assumes xs: "mset xs = mset [0 ..< length (msg_parts b)]" and len: "length b \<le> 255 * 4070"
  shows "joinPartMessages (map (part_of i type ser (msg_parts b)) xs) = Inr (whole_head i type ser b, b)"
proof -
  let ?ps = "msg_parts b" let ?n = "length ?ps"
  let ?g = "\<lambda>x. (part_head i type ser ?ps x, ?ps ! x)"
  have n: "?n \<le> 255" "0 < ?n" using length_msg_parts [of b 254] len by simp_all
  have set: "set xs = {..<?n}" using xs by (metis atLeast_upt mset_eq_setD)
  have small: "unat (of_nat x :: u8) = x" if "x < ?n" for x
    using that n by (simp add: unat_of_nat take_bit_nat_eq_self)
  have "sort_key (\<lambda>(m, _). part m) (map ?g xs) = map ?g [0 ..< ?n]"
  proof (rule sort_key_inj_key_eq)
    show "mset (map ?g xs) = mset (map ?g [0 ..< ?n])" using xs by (metis mset_map)
    show "inj_on (\<lambda>(m, _). part m) (set (map ?g xs))"
    proof (rule inj_onI)
      fix p q
      assume "p \<in> set (map ?g xs)" "q \<in> set (map ?g xs)" and eq: "(case p of (m, _) \<Rightarrow> part m) = (case q of (m, _) \<Rightarrow> part m)"
      then obtain x y where xy: "p = ?g x" "q = ?g y" "x < ?n" "y < ?n" using set by auto
      then have "(of_nat x :: u8) = of_nat y" using eq by (simp add: part_head_def)
      then have "x = y" using small [OF xy(3)] small [OF xy(4)] by metis
      then show "p = q" using xy by simp
    qed
    show "sorted (map (\<lambda>(m, _). part m) (map ?g [0 ..< ?n]))"
    proof -
      have le: "(of_nat x :: u8) \<le> of_nat y" if "x \<in> set [0 ..< ?n]" "y \<in> set [0 ..< ?n]" "x < y" for x y
      proof -
        have "x < ?n" "y < ?n" using that by simp_all
        then show ?thesis using that(3) by (simp add: word_le_nat_alt small)
      qed
      have "sorted_wrt (\<lambda>x y. (of_nat x :: u8) \<le> of_nat y) [0 ..< ?n]"
        by (rule sorted_wrt_mono_rel [OF _ sorted_wrt_upt]) (rule le)
      moreover have "map (\<lambda>(m, _). part m) (map ?g [0 ..< ?n]) = map (\<lambda>x. of_nat x) [0 ..< ?n]"
        by (simp only: map_map comp_def prod.case part_head_def ipc_message.simps)
      ultimately show ?thesis by (simp only: sorted_wrt_map)
    qed
  qed
  moreover have "copy_parts (map ?g [0 ..< ?n]) = Inr b"
  proof -
    have "map ((!) ?ps) [0 ..< ?n] = ?ps" by (rule map_nth)
    moreover have "\<forall>x\<in>set [0 ..< ?n]. length (?ps ! x) \<le> 4070" using msg_parts_size [OF nth_mem] by simp
    ultimately show ?thesis using copy_parts_of [of "[0 ..< ?n]" ?ps i type ser] by (simp only: concat_msg_parts)
  qed
  moreover have "sum_list (map (\<lambda>(m, _). msg_size m) (map ?g xs)) = of_nat (length b)"
  proof -
    have "sum_list (map (\<lambda>(m, _). msg_size m) (map ?g xs)) = sum_list (map (\<lambda>x. of_nat (length (?ps ! x))) xs)"
      by (simp only: map_map comp_def prod.case part_head_def ipc_message.simps)
    also have "\<dots> = sum_list (map (\<lambda>x. of_nat (length (?ps ! x))) [0 ..< ?n])"
      by (rule sum_list_perm [OF xs])
    also have "\<dots> = sum_list (map (\<lambda>p. of_nat (length p)) (map ((!) ?ps) [0 ..< ?n]))"
      by (simp only: map_map comp_def)
    also have "\<dots> = of_nat (length b)" by (simp only: map_nth sum_sizes concat_msg_parts)
    finally show ?thesis .
  qed
  moreover have "unat (26 + of_nat (length b) :: u32) = 26 + length b" using len by (simp add: codec_simps)
  moreover have "map ?g [0 ..< ?n] ! 0 = ?g 0" using n by (simp add: nth_map)
  ultimately show ?thesis
    using n(2) by (simp add: joinPartMessages_def part_heads_of Let_def IPCMessageSIZE_def whole_head_def part_head_def)
qed

section \<open>What messages leave alone\<close>

abbreviation map_res :: "('a \<Rightarrow> 'b) \<Rightarrow> 'a res \<Rightarrow> 'b res" where
  "map_res f r \<equiv> bind_res r (\<lambda>x. Inr (f x))"

lemma bind_res_assoc: "bind_res (bind_res r f) g = bind_res r (\<lambda>x. bind_res (f x) g)"
  by (cases r) simp_all

text \<open>
  A change of the manager that no whole message looks at: all that a message reads is as before, and all that it writes
  commutes with the change.
\<close>

locale manager_frame =
  fixes upd :: "'w ipc_manager \<Rightarrow> 'w ipc_manager"
  assumes fields [simp]:
    "m_bServer (upd s) = m_bServer s" "m_bDisconnected (upd s) = m_bDisconnected s" "m_mClassId (upd s) = m_mClassId s"
    "m_Locks (upd s) = m_Locks s" "m_vClassList (upd s) = m_vClassList s" "m_nMsgSerial (upd s) = m_nMsgSerial s"
    "m_vPipeMsgs (upd s) = m_vPipeMsgs s" "m_EventQueue (upd s) = m_EventQueue s" "m_CallQueue (upd s) = m_CallQueue s"
    "world (upd s) = world s"
  and updates [simp]:
    "upd s\<lparr>m_vClassList := cs\<rparr> = upd (s\<lparr>m_vClassList := cs\<rparr>)" "upd s\<lparr>m_Locks := k\<rparr> = upd (s\<lparr>m_Locks := k\<rparr>)"
    "upd s\<lparr>m_EventQueue := q\<rparr> = upd (s\<lparr>m_EventQueue := q\<rparr>)" "upd s\<lparr>m_CallQueue := q\<rparr> = upd (s\<lparr>m_CallQueue := q\<rparr>)"
    "upd s\<lparr>world := w\<rparr> = upd (s\<lparr>world := w\<rparr>)" "upd s\<lparr>m_nMsgSerial := n\<rparr> = upd (s\<lparr>m_nMsgSerial := n\<rparr>)"
    "upd s\<lparr>m_vPipeMsgs := ms\<rparr> = upd (s\<lparr>m_vPipeMsgs := ms\<rparr>)"
begin

lemma findClass_upd [simp]: "findClass i (upd s) = findClass i s"
  by (simp add: findClass_def)

lemma sendMessage_upd: "sendMessage b i t (upd s) = map_res upd (sendMessage b i t s)"
  by (simp add: sendMessage_def isVaildClass_def Let_def)

lemma send_all_upd: "send_all i out (upd s) = map_res upd (send_all i out s)"
proof (induction i out s rule: send_all.induct)
  case (2 i type b out s)
  then show ?case by (cases "sendMessage b i type s") (simp_all add: sendMessage_upd)
qed simp

lemma class_done_upd: "class_done r (upd s) = map_res upd (class_done r s)"
proof -
  obtain c w out gone where r: "r = (c, w, out, gone)" by (cases r)
  show ?thesis
    by (cases "send_all (m_uiId c) out (s\<lparr>m_vClassList := set_class c (m_vClassList s), world := w\<rparr>)")
       (simp_all add: r class_done_def send_all_upd destroyClass_def)
qed

lemma class_message_upd: "class_message env c t b n (upd s) = map_option (map_res upd) (class_message env c t b n s)"
proof -
  have "bind_res x (\<lambda>r. class_done r (upd s)) = map_res upd (bind_res x (\<lambda>r. class_done r s))" for x
    by (cases x) (simp_all add: class_done_upd)
  then show ?thesis by (simp add: class_message_def option.map_comp comp_def)
qed

lemma createClass_upd: "createClass reg h i (upd s) = (case createClass reg h i s of (s, p) \<Rightarrow> (upd s, p))"
  by (simp add: createClass_def split: option.split)

lemma queue_message_upd: "queue_message m b (upd s) = upd (queue_message m b s)"
  by (simp add: queue_message_def Let_def)

lemma processInternalMessage_upd:
  "processInternalMessage env reg t b (upd s) = map_res upd (processInternalMessage env reg t b s)"
proof -
  have "bind_res (rd32 (drop 4 b)) (\<lambda>lk. case findLock lk (m_Locks s) of None \<Rightarrow> Inr (upd s) | Some x \<Rightarrow>
            bind_res (read_result env (drop 12 b)) (\<lambda>p. Inr (upd s\<lparr>m_Locks := trigger_lock lk p (m_Locks (upd s))\<rparr>))) =
        bind_res (rd32 (drop 4 b)) (\<lambda>lk. map_res upd (case findLock lk (m_Locks s) of None \<Rightarrow> Inr s | Some x \<Rightarrow>
            bind_res (read_result env (drop 12 b)) (\<lambda>p. Inr (s\<lparr>m_Locks := trigger_lock lk p (m_Locks s)\<rparr>))))"
    by (cases "rd32 (drop 4 b)") (simp_all add: bind_res_assoc split: option.split)
  then show ?thesis
    by (simp add: processInternalMessage_def bind_res_assoc createClass_upd sendMessage_upd case_prod_beta)
qed

lemma dispatch_upd: "dispatch env reg m d (upd s) = map_option (map_res upd) (dispatch env reg m d s)"
  by (simp add: dispatch_def processInternalMessage_upd class_message_upd bind_res_assoc queue_message_upd split: option.split)

lemma dispatch_fixed:
  assumes "upd s = s" and "dispatch env reg m d s = Some (Inr t)"
  shows "upd t = t"
  using dispatch_upd [of env reg m d s] assms by simp

end

definition stored :: "(u64 \<Rightarrow> bytes list) \<Rightarrow> 'w ipc_manager \<Rightarrow> 'w ipc_manager" where
  "stored f s = s\<lparr>m_mOutstandingPartMessages := f\<rparr>"

definition pending :: "(u32 \<times> bytes) option \<Rightarrow> 'w ipc_manager \<Rightarrow> 'w ipc_manager" where
  "pending p s = s\<lparr>m_pPendingMessage := p\<rparr>"

interpretation store: manager_frame "stored f" for f
  by unfold_locales (simp_all add: stored_def)

interpretation held: manager_frame "pending p" for p
  by unfold_locales (simp_all add: pending_def)

lemma stored_self [simp]: "stored (m_mOutstandingPartMessages s) s = s"
  and stored_get [simp]: "m_mOutstandingPartMessages (stored f s) = f"
  and stored_stored [simp]: "stored f (stored g s) = stored f s"
  and stored_pending [simp]: "m_pPendingMessage (stored f s) = m_pPendingMessage s"
  by (simp_all add: stored_def)

lemma pending_self [simp]: "pending (m_pPendingMessage s) s = s"
  and pending_get [simp]: "m_pPendingMessage (pending p s) = p"
  and pending_pending [simp]: "pending p (pending q s) = pending p s"
  by (simp_all add: pending_def)

lemma dispatch_keeps_store:
  assumes "dispatch env reg m d s = Some (Inr t)"
  shows "m_mOutstandingPartMessages t = m_mOutstandingPartMessages s"
  using store.dispatch_fixed [OF stored_self assms] by (metis stored_get)

lemma dispatch_keeps_pending:
  assumes "dispatch env reg m d s = Some (Inr t)"
  shows "m_pPendingMessage t = m_pPendingMessage s"
  using held.dispatch_fixed [OF pending_self assms] by (metis pending_get)

section \<open>A buffer with one message\<close>

lemma recv_loop_end: "length buff \<le> unat n \<Longrightarrow> recv_loop env reg buff n t = Some (Inr t)"
  by (subst recv_loop.simps) simp

lemma recv_whole:
  assumes "m_pPendingMessage s = None" and "read32 mem 0 = of_nat (length mem)" and "4 \<le> length mem" and "length mem < 2 ^ 32"
  shows "recvMessage env reg mem s = recvMessage_msg env reg mem s"
proof -
  have ne: "mem \<noteq> []" "\<not> length mem < 4" using assms(3) by auto
  show ?thesis
    unfolding recvMessage_def
    by (subst recv_loop.simps) (use assms ne in \<open>simp add: recv_loop_end split: option.split sum.split\<close>)
qed

lemma recv_part:
  assumes "m_pPendingMessage s = None" and "length (ps ! x) \<le> 4070"
  shows "recvMessage env reg (part_of i type ser ps x) s = recvMessage_msg env reg (part_of i type ser ps x) s"
proof (rule recv_whole)
  have "read32 (part_of i type ser ps x) 0 = of_nat (26 + length (ps ! x))"
    by (simp add: part_of_bytes message_bytes_def part_head_def read32_def readInt_le32 IPCMessageSIZE_def)
  then show "read32 (part_of i type ser ps x) 0 = of_nat (length (part_of i type ser ps x))"
    by (simp add: part_of_bytes)
qed (use assms in \<open>simp_all add: part_of_bytes\<close>)

section \<open>Parts in any order\<close>

lemma keep_part_stored:
  "keep_part ser b s = stored ((m_mOutstandingPartMessages s)(ser := m_mOutstandingPartMessages s ser @ [b])) s"
  by (simp add: keep_part_def stored_def)

lemma keep_part_get [simp]:
  "m_mOutstandingPartMessages (keep_part ser b s) ser = m_mOutstandingPartMessages s ser @ [b]"
  by (simp add: keep_part_def)

lemma stored_keep_part:
  "stored ((m_mOutstandingPartMessages (keep_part ser b s))(ser := zs)) (keep_part ser b s)
   = stored ((m_mOutstandingPartMessages s)(ser := zs)) s"
  by (simp add: keep_part_def stored_def)

lemma forget_parts_stored: "forget_parts ser s = stored ((m_mOutstandingPartMessages s)(ser := [])) s"
  by (simp add: forget_parts_def stored_def)

text \<open>The number of parts is known modulo 256.\<close>

lemma recv_part_msg:
  assumes "length (ps ! x) \<le> 4070" and "(of_nat (length ps) :: u8) \<noteq> 1"
  shows "recvMessage_msg env reg (part_of i type ser ps x) s =
    (if Suc (length (m_mOutstandingPartMessages s ser)) = length ps mod 256 then
       (case joinPartMessages (m_mOutstandingPartMessages s ser @ [part_of i type ser ps x]) of
          Inl e \<Rightarrow> Some (Inl e)
        | Inr (m, data) \<Rightarrow>
            map_option (map_res (forget_parts ser))
              (dispatch env reg m data (keep_part ser (part_of i type ser ps x) s)))
     else Some (Inr (keep_part ser (part_of i type ser ps x) s)))"
proof -
  let ?b = "part_of i type ser ps x"
  have head: "message_at ?b = Inr (part_head i type ser ps x)" by (simp add: part_of_bytes codec_simps)
  have tot: "totparts (part_head i type ser ps x) = of_nat (length ps)" "serial (part_head i type ser ps x) = ser"
    by (simp_all add: part_head_def)
  have u: "unat (of_nat (length ps) :: u8) = length ps mod 256"
    by (simp add: unat_of_nat take_bit_eq_mod)
  have "unat (tsize (part_head i type ser ps x)) = length ?b"
    using assms(1) by (simp add: part_head_def part_of_bytes IPCMessageSIZE_def codec_simps)
  then have all: "rd_bytes (unat (tsize (part_head i type ser ps x))) ?b = Inr ?b" by (simp add: rd_bytes_def)
  show ?thesis
    using assms(2) by (simp add: recvMessage_msg_def head tot all u keep_part_def split: sum.split)
qed

lemma recv_all_append:
  "recv_all env reg (as @ bs) s =
     (case recv_all env reg as s of
        None \<Rightarrow> None
      | Some r \<Rightarrow> (case r of Inl e \<Rightarrow> Some (Inl e) | Inr s \<Rightarrow> recv_all env reg bs s))"
  by (induction as arbitrary: s) (auto split: option.split sum.split)

lemma keep_part_pending: "m_pPendingMessage (keep_part ser b s) = m_pPendingMessage s"
  by (simp add: keep_part_def)

lemma recv_some_parts:
  assumes "\<forall>x\<in>set xs. length (ps ! x) \<le> 4070" and "(of_nat (length ps) :: u8) \<noteq> 1"
    and "m_pPendingMessage s = None"
    and "length ps mod 256 = 0 \<or> length (m_mOutstandingPartMessages s ser) + length xs < length ps mod 256"
  shows "recv_all env reg (map (part_of i type ser ps) xs) s
    = Some (Inr (stored ((m_mOutstandingPartMessages s)
        (ser := m_mOutstandingPartMessages s ser @ map (part_of i type ser ps) xs)) s))"
  using assms
proof (induction xs arbitrary: s)
  case (Cons x xs)
  let ?b = "part_of i type ser ps x"
  have "Suc (length (m_mOutstandingPartMessages s ser)) \<noteq> length ps mod 256" using Cons.prems(4) by auto
  then have "recvMessage env reg ?b s = Some (Inr (keep_part ser ?b s))"
    using recv_part [of s ps x env reg i type ser] recv_part_msg [of ps x env reg i type ser s] Cons.prems by simp
  moreover have "recv_all env reg (map (part_of i type ser ps) xs) (keep_part ser ?b s)
      = Some (Inr (stored ((m_mOutstandingPartMessages s)
          (ser := m_mOutstandingPartMessages s ser @ map (part_of i type ser ps) (x # xs))) s))"
    using Cons.IH [of "keep_part ser ?b s"] Cons.prems keep_part_pending [of ser ?b s]
    by (simp only: stored_keep_part keep_part_get) simp
  ultimately show ?case by (simp only: list.map recv_all.simps option.case sum.case)
qed simp

text \<open>
  C8: The parts of a message, delivered in any order, have the effect of the message itself, as long as it needs at most
  255 parts.
\<close>

theorem message_parts_any_order:
  assumes bufs: "mset bufs = mset (make_parts i type ser b)" and len: "length b \<le> 255 * 4070"
    and pend: "m_pPendingMessage s = None" and new: "m_mOutstandingPartMessages s ser = []"
  shows "recv_all env reg bufs s = dispatch env reg (whole_head i type ser b) b s"
proof -
  let ?ps = "msg_parts b" let ?n = "length ?ps" let ?part = "part_of i type ser ?ps"
  have n: "?n \<le> 255" "0 < ?n" using length_msg_parts [of b 254] len by simp_all
  obtain xs where xs: "mset xs = mset [0 ..< ?n]" "bufs = map ?part xs"
    using mset_map_obtain [of bufs ?part "[0 ..< ?n]"] bufs by (metis make_parts_map)
  have small: "\<forall>x\<in>set xs. length (?ps ! x) \<le> 4070"
    using msg_parts_size [OF nth_mem] xs(1) by (metis atLeastLessThan_iff atLeast_upt lessThan_iff mset_eq_setD)
  have "length xs = ?n" using xs(1) by (metis diff_zero length_upt size_mset)
  then obtain ys y where ys: "xs = ys @ [y]" "Suc (length ys) = ?n"
    using n(2) by (metis length_append_singleton length_greater_0_conv rev_exhaust)
  show ?thesis
  proof (cases "?n = 1")
    case True
    then have "xs = [0]" "?ps = [b]" using ys xs(1) concat_msg_parts [of b] by (auto simp: length_Suc_conv)
    moreover from this small have "length b \<le> 4070" by simp
    ultimately show ?thesis
      using recv_part [OF pend, of "[b]" 0 env reg i type ser] xs(2)
      by (simp add: recvMessage_msg_def part_of_bytes codec_simps part_head_def whole_head_def IPCMessageSIZE_def
          split: option.split sum.split)
  next
    case False
    have mod: "?n mod 256 = ?n" using n by simp
    have one: "(of_nat ?n :: u8) \<noteq> 1"
      using n False by (simp add: word_unat_eq_iff unat_of_nat take_bit_nat_eq_self)
    let ?f = "(m_mOutstandingPartMessages s)(ser := map ?part ys)"
    have "recv_all env reg (map ?part ys) s = Some (Inr (stored ?f s))"
      using recv_some_parts [of ys ?ps s ser env reg i type] small one pend new ys n by (simp add: mod)
    then have "recv_all env reg bufs s = recv_all env reg [?part y] (stored ?f s)"
      by (simp add: xs(2) ys(1) recv_all_append)
    also have "\<dots> = recvMessage_msg env reg (?part y) (stored ?f s)"
      using recv_part [of "stored ?f s" ?ps y env reg i type ser] small ys(1) pend
      by (simp split: option.split sum.split)
    also have "\<dots> = map_option (map_res (forget_parts ser))
        (dispatch env reg (whole_head i type ser b) b (keep_part ser (?part y) (stored ?f s)))"
      using recv_part_msg [of ?ps y env reg i type ser "stored ?f s"] small ys one join_parts [OF xs(1) len, of i type ser]
      by (simp add: mod)
    also have "\<dots> = dispatch env reg (whole_head i type ser b) b s"
    proof -
      have "((m_mOutstandingPartMessages s)(ser := zs))(ser := []) = m_mOutstandingPartMessages s" for zs
        using new by (simp add: fun_upd_idem_iff)
      then have "map_res (stored ((m_mOutstandingPartMessages s)(ser := []))) r = r" 
        if "dispatch env reg (whole_head i type ser b) b s = Some r" for r
        using that dispatch_keeps_store [of env reg "whole_head i type ser b" b s] new
        by (cases r) (simp_all add: fun_upd_idem flip: stored_self)
      then show ?thesis
        by (cases "dispatch env reg (whole_head i type ser b) b s")
           (simp_all add: keep_part_stored forget_parts_stored store.dispatch_upd bind_res_assoc)
    qed
    finally show ?thesis .
  qed
qed

text \<open>An environment with the type names of GCC, for examples.\<close>

definition demo_env :: ipc_env where
  "demo_env = \<lparr>nm = itanium, text_args = (\<lambda>_ _. []), text_missing = (\<lambda>_ _. []), text_small = []\<rparr>"

theorem message_parts_any_order_witness:
  "recv_all demo_env Map.empty (rev (make_parts 0 4 1 (replicate 5000 7))) (IPCManager_new True ())
    = Some (Inr (IPCManager_new True ()))"
proof -
  have "recv_all demo_env Map.empty (rev (make_parts 0 4 1 (replicate 5000 7))) (IPCManager_new True ())
      = dispatch demo_env Map.empty (whole_head 0 4 1 (replicate 5000 7)) (replicate 5000 7) (IPCManager_new True ())"
    by (rule message_parts_any_order) (simp_all add: IPCManager_new_def)
  then show ?thesis by (simp add: dispatch_def whole_head_def processInternalMessage_def)
qed

section \<open>Too many parts\<close>

lemma length_msg_parts_exact: "length b = Suc k * 4070 \<Longrightarrow> length (msg_parts b) = Suc k"
proof (induction k arbitrary: b)
  case 0
  then show ?case by (subst msg_parts.simps) (simp add: BUFSIZE_def IPCMessageSIZE_def)
next
  case (Suc k)
  then have "length (msg_parts (drop 4070 b)) = Suc k" by simp
  then show ?case using Suc.prems by (subst msg_parts.simps) (simp add: BUFSIZE_def IPCMessageSIZE_def)
qed

text \<open>
  A message of 256 parts announces 0 of them: its parts arrive, are kept for ever, and nothing is done with them.
\<close>

theorem message_of_256_parts_lost:
  assumes "length (msg_parts b) mod 256 = 0" and "m_pPendingMessage s = None"
  shows "recv_all env reg (make_parts i type ser b) s
    = Some (Inr (s\<lparr>m_mOutstandingPartMessages :=
        (m_mOutstandingPartMessages s)(ser := m_mOutstandingPartMessages s ser @ make_parts i type ser b)\<rparr>))"
proof -
  have "(of_nat (length (msg_parts b)) :: u8) \<noteq> 1"
    using assms(1) by (simp add: word_unat_eq_iff unat_of_nat take_bit_eq_mod)
  then show ?thesis
    using recv_some_parts [of "[0 ..< length (msg_parts b)]" "msg_parts b" s ser env reg i type] assms
      msg_parts_size [OF nth_mem, of _ b]
    by (simp add: make_parts_map stored_def)
qed

theorem message_of_256_parts_lost_witness:
  "recv_all demo_env Map.empty (make_parts 1 5 1 (replicate (256 * 4070) 0)) (IPCManager_new True ())
    = Some (Inr (IPCManager_new True ()\<lparr>m_mOutstandingPartMessages :=
        (\<lambda>_. [])(1 := make_parts 1 5 1 (replicate (256 * 4070) 0))\<rparr>))"
proof -
  have "length (msg_parts (replicate (256 * 4070) 0)) = 256"
    using length_msg_parts_exact [of "replicate (256 * 4070) 0" 255] by simp
  then show ?thesis
    using message_of_256_parts_lost [of "replicate (256 * 4070) 0" "IPCManager_new True ()" demo_env Map.empty 1 5 1]
    by (simp only: IPCManager_new_def ipc_manager.simps) simp
qed

section \<open>A message cut into pieces\<close>

lemma message_fields_pending [simp]:
  "m_mOutstandingPartMessages (pending p s) = m_mOutstandingPartMessages s"
  "keep_part ser b (pending p s) = pending p (keep_part ser b s)"
  "forget_parts ser (pending p s) = pending p (forget_parts ser s)"
  by (simp_all add: pending_def keep_part_def forget_parts_def)

lemma recvMessage_msg_pending:
  "recvMessage_msg env reg mem (pending p s) = map_option (map_res (pending p)) (recvMessage_msg env reg mem s)"
proof -
  have "map_option (\<lambda>r. map_res (forget_parts ser) (map_res (pending p) r)) x
      = map_option (\<lambda>r. map_res (pending p) (map_res (forget_parts ser) r)) x" for ser x
    by (cases x) (auto simp: bind_res_assoc)
  then show ?thesis
    by (auto simp: recvMessage_msg_def held.dispatch_upd option.map_comp comp_def split: sum.split)
qed

lemma recv_piece_first:
  assumes "m_pPendingMessage s = None" and "4 \<le> length p" and "length p < unat (read32 p 0)" and "length p \<le> 2 ^ 31"
  shows "recvMessage env reg p s = Some (Inr (pending (Some (read32 p 0 - of_nat (length p), p)) s))"
proof -
  have wraps: "unat (- of_nat (length p) :: u32) = 2 ^ 32 - length p"
  proof -
    have "(- of_nat (length p) :: u32) = of_nat (2 ^ 32 - length p)"
      using assms(4) by (simp add: of_nat_diff)
    moreover have "unat (of_nat (2 ^ 32 - length p) :: u32) = 2 ^ 32 - length p"
      by (rule unat_small) (use assms(2) in simp)
    ultimately show ?thesis by (simp only:)
  qed
  show ?thesis
    unfolding recvMessage_def
    by (subst recv_loop.simps) (use assms wraps in \<open>auto simp: pending_def recv_loop_end\<close>)
qed

lemma recv_piece_next:
  assumes "m_pPendingMessage s = Some q" and "4 \<le> length p" and "length p \<le> unat (fst q)"
  shows "recvMessage env reg p s = Some (Inr (pending (Some (pending_append p q)) s))"
proof -
  have "length p < 2 ^ 32" using assms(3) unsigned_less [of "fst q", where ?'a = nat] by simp
  then show ?thesis
    unfolding recvMessage_def
    by (subst recv_loop.simps) (use assms in \<open>auto simp: pending_def recv_loop_end\<close>)
qed

lemma recv_pieces_next:
  assumes "\<forall>p\<in>set ps. 4 \<le> length p" and "m_pPendingMessage s = Some (l, got)" and "length (concat ps) \<le> unat l"
  shows "recv_all env reg ps s
    = Some (Inr (pending (Some (l - of_nat (length (concat ps)), got @ concat ps)) s))"
  using assms
proof (induction ps arbitrary: s l got)
  case Nil
  then have "pending (Some (l, got)) s = s" by (metis pending_self)
  then show ?case by simp
next
  case (Cons p ps)
  let ?q = "(l - of_nat (length p), got @ p)"
  have small: "length p \<le> unat l" "unat l < 2 ^ 32" using Cons.prems(3) unsigned_less [of l, where ?'a = nat] by simp_all
  then have "unat (l - of_nat (length p)) = unat l - length p" by (simp add: unat_sub word_le_nat_alt)
  then have "recv_all env reg ps (pending (Some ?q) s)
      = Some (Inr (pending (Some (l - of_nat (length p) - of_nat (length (concat ps)), (got @ p) @ concat ps)) s))"
    using Cons.IH [of "pending (Some ?q) s" "l - of_nat (length p)" "got @ p"] Cons.prems by simp
  moreover have "recvMessage env reg p s = Some (Inr (pending (Some ?q) s))"
    using recv_piece_next [of s "(l, got)" p env reg] Cons.prems small by (simp add: pending_append_def)
  ultimately show ?case by (simp add: algebra_simps)
qed

lemma recv_rest:
  assumes "m_pPendingMessage s = None" and "4 \<le> length rest"
  shows "recvMessage env reg rest (pending (Some (0, m)) s) =
    (case recvMessage_msg env reg m s of
       None \<Rightarrow> None
     | Some r \<Rightarrow> (case r of Inl e \<Rightarrow> Some (Inl e) | Inr t \<Rightarrow> recvMessage env reg rest (pending None t)))"
proof -
  have ne: "rest \<noteq> []" "\<not> length rest < 4" using assms(2) by auto
  have upd: "t\<lparr>m_pPendingMessage := None\<rparr> = pending None t" for t :: "'a ipc_manager"
    by (simp add: pending_def)
  show ?thesis
    unfolding recvMessage_def
    by (subst recv_loop.simps)
       (use ne in \<open>simp add: pending_append_def recvMessage_msg_pending upd split: option.split sum.split\<close>)
qed

text \<open>
  C9: Cutting a message into pieces of at least four bytes, each in a buffer of its own, changes nothing for what comes
  next: the following buffer first delivers the message and is then read as if the message had been whole.
\<close>

theorem cut_message_arrives:
  assumes whole: "read32 m 0 = of_nat (length m)" "length m \<le> 2 ^ 31"
    and pieces: "concat ps = m" "2 \<le> length ps" "\<forall>p\<in>set ps. 4 \<le> length p"
    and rest: "4 \<le> length rest" and pend: "m_pPendingMessage s = None"
  shows "recv_all env reg (ps @ [rest]) s =
    (case recvMessage_msg env reg m s of
       None \<Rightarrow> None
     | Some r \<Rightarrow> (case r of Inl e \<Rightarrow> Some (Inl e) | Inr t \<Rightarrow> recvMessage env reg rest (pending None t)))"
proof -
  obtain p qs where ps: "ps = p # qs" "qs \<noteq> []" using pieces(2) by (cases ps) (auto simp: Suc_le_length_iff)
  have m: "m = p @ concat qs" using pieces(1) ps(1) by simp
  have "0 < length (concat qs)" using ps pieces(3) by (cases qs) auto
  then have len: "length p < length m" "4 \<le> length p" using m pieces(3) ps(1) by simp_all
  have head: "read32 p 0 = of_nat (length m)" using whole(1) len(2) by (simp add: m read32_def)
  then have um: "unat (read32 p 0) = length m" using whole(2) by simp
  have up: "unat (of_nat (length p) :: u32) = length p" using len whole(2) by simp
  have left: "unat (read32 p 0 - of_nat (length p)) = length (concat qs)"
    using len um up m by (simp add: unat_sub word_le_nat_alt)
  have first: "recvMessage env reg p s = Some (Inr (pending (Some (read32 p 0 - of_nat (length p), p)) s))"
    by (rule recv_piece_first) (use len um whole(2) pend in simp_all)
  have zero: "read32 p 0 - of_nat (length p) - of_nat (length (concat qs)) = 0"
    using left by (simp add: flip: left)
  have "recv_all env reg qs (pending (Some (read32 p 0 - of_nat (length p), p)) s)
      = Some (Inr (pending (Some (0, m)) s))"
    using recv_pieces_next [of qs "pending (Some (read32 p 0 - of_nat (length p), p)) s" "read32 p 0 - of_nat (length p)" p env reg]
      pieces(3) ps(1) left by (simp add: zero m)
  then have "recv_all env reg ps s = Some (Inr (pending (Some (0, m)) s))"
    using first by (simp add: ps(1))
  then show ?thesis
    using recv_rest [OF pend rest, of env reg m]
    by (simp add: recv_all_append split: option.split sum.split)
qed

theorem cut_message_arrives_witness:
  "let m = message_bytes (whole_head 0 4 1 []) in
   recv_all demo_env Map.empty ([take 10 m, take 12 (drop 10 m), drop 22 m] @ [m]) (IPCManager_new True ())
     = Some (Inr (IPCManager_new True ()))"
proof -
  define m where "m = message_bytes (whole_head 0 4 1 [])"
  have len: "length m = 26" and head: "read32 m 0 = 26"
    by (simp_all add: m_def message_bytes_def whole_head_def read32_def readInt_le32 IPCMessageSIZE_def)
  have msg: "recvMessage_msg demo_env Map.empty m s = Some (Inr s)" for s :: "unit ipc_manager"
    using message_at_bytes [of "whole_head 0 4 1 []" "[]"]
    by (simp add: m_def recvMessage_msg_def) (simp add: whole_head_def dispatch_def processInternalMessage_def)
  have "concat [take 10 m, take 12 (drop 10 m), drop 22 m] = m"
    by (simp add: append_take_drop_id flip: append_assoc take_add)
  then have "recv_all demo_env Map.empty ([take 10 m, take 12 (drop 10 m), drop 22 m] @ [m]) (IPCManager_new True ())
      = recvMessage demo_env Map.empty m (pending None (IPCManager_new True ()))"
    using cut_message_arrives [of m "[take 10 m, take 12 (drop 10 m), drop 22 m]" m "IPCManager_new True ()" demo_env Map.empty]
    by (simp add: len head msg IPCManager_new_def)
  also have "\<dots> = Some (Inr (IPCManager_new True ()))"
    using recv_whole [of "IPCManager_new True ()" m demo_env Map.empty] len head msg
    by (simp add: IPCManager_new_def pending_def)
  finally show ?thesis by (simp add: m_def [symmetric])
qed

text \<open>
  When the beginning of a message follows a longer message in one buffer, the position steps back instead of forward:
  the tail of the first message and the piece itself are taken for the continuation, and the message is corrupted.
\<close>

theorem piece_behind_message_corrupts:
  assumes first: "recvMessage_msg env reg (m @ p) s = Some (Inr t)" "read32 m 0 = of_nat (length m)"
    and len: "4 \<le> length p" "length p \<le> length m" "length m + length p < 2 ^ 31"
    and big: "3 * length p \<le> unat (read32 p 0)" and pend: "m_pPendingMessage s = None" "m_pPendingMessage t = None"
  shows "recvMessage env reg (m @ p) s
    = Some (Inr (pending (Some (read32 p 0 - of_nat (3 * length p), p @ drop (length m - length p) m @ p)) t))"
proof -
  have rm: "read32 (m @ p) 0 = of_nat (length m)" and rp: "read32 (m @ p) (length m) = read32 p 0"
    using first(2) len by (simp_all add: read32_def)
  have um: "unat (of_nat (length m) :: u32) = length m" using len by simp
  have ud: "unat (of_nat (length m) - of_nat (length p) :: u32) = length m - length p"
  proof -
    have "(of_nat (length m) - of_nat (length p) :: u32) = of_nat (length m - length p)" using len by (simp add: of_nat_diff)
    moreover have "unat (of_nat (length m - length p) :: u32) = length m - length p" by (rule unat_small) (use len in simp)
    ultimately show ?thesis by (simp only:)
  qed
  have ul: "unat (read32 p 0 - of_nat (length p)) = unat (read32 p 0) - length p"
    using big len by (simp add: unat_sub word_le_nat_alt)
  have app: "pending_append (drop (length m - length p) m @ p) (read32 p 0 - of_nat (length p), p)
      = (read32 p 0 - of_nat (3 * length p), p @ drop (length m - length p) m @ p)"
    using len by (simp add: pending_append_def algebra_simps)
  have us: "unat (of_nat (length p) + of_nat (length m) :: u32) = length p + length m"
    using unat_small [of "length p + length m"] len by simp
  have last_step: "recv_loop env reg (m @ p) (of_nat (length m) - of_nat (length p)) (pending (Some (read32 p 0 - of_nat (length p), p)) t)
      = Some (Inr (pending (Some (read32 p 0 - of_nat (3 * length p), p @ drop (length m - length p) m @ p)) t))"
    by (subst recv_loop.simps) (use len big ul ud us app in \<open>auto simp: pending_def recv_loop_end\<close>)
  have second: "recv_loop env reg (m @ p) (of_nat (length m)) t
      = Some (Inr (pending (Some (read32 p 0 - of_nat (3 * length p), p @ drop (length m - length p) m @ p)) t))"
    by (subst recv_loop.simps) (use len big um rp pend(2) ud last_step in \<open>auto simp: pending_def\<close>)
  show ?thesis
    unfolding recvMessage_def
    by (subst recv_loop.simps) (use len rm um first(1) pend(1) second in \<open>auto simp: word_less_nat_alt\<close>)
qed

theorem piece_behind_message_corrupts_witness:
  "let m = message_bytes (whole_head 0 4 1 []); p = le32 26 @ le32 0 in
   recvMessage demo_env Map.empty (m @ p) (IPCManager_new True ())
     = Some (Inr (pending (Some (2, p @ drop 18 m @ p)) (IPCManager_new True ())))"
proof -
  define m where "m = message_bytes (whole_head 0 4 1 [])"
  define p where "p = le32 26 @ le32 0"
  have len: "length m = 26" "length p = 8" and head: "read32 m 0 = 26" "read32 p 0 = 26"
    by (simp_all add: m_def p_def message_bytes_def whole_head_def read32_def readInt_le32 IPCMessageSIZE_def)
  have msg: "recvMessage_msg demo_env Map.empty (m @ p) s = Some (Inr s)" for s :: "unit ipc_manager"
    using message_at_bytes [of "whole_head 0 4 1 []" p]
    by (simp add: m_def recvMessage_msg_def) (simp add: whole_head_def dispatch_def processInternalMessage_def)
  have "recvMessage demo_env Map.empty (m @ p) (IPCManager_new True ())
     = Some (Inr (pending (Some (26 - of_nat (3 * 8), p @ drop (26 - 8) m @ p)) (IPCManager_new True ())))"
    using piece_behind_message_corrupts [of demo_env Map.empty m p "IPCManager_new True ()" "IPCManager_new True ()"]
    by (simp add: len head msg IPCManager_new_def)
  then show ?thesis by (simp add: m_def [symmetric] p_def [symmetric])
qed

end
