(* ===== verification/Ipc_Remote.thy ===== *)
theory Ipc_Remote
  imports Ipc_Transport
begin

text \<open>
  Calls and the end of a class across the two processes: a call through the pipe does what the call in the other process
  would do, and the order in which the two queues of a manager work when a class is destroyed.
\<close>

section \<open>Finding classes\<close>

lemma find_set_class:
  "find (\<lambda>c. m_uiId c = i) cs = Some d \<Longrightarrow> m_uiId c = i \<Longrightarrow> find (\<lambda>c. m_uiId c = i) (set_class c cs) = Some c"
  by (induction cs) (auto split: if_splits)

lemma findClass_set_class:
  "findClass i s = Some d \<Longrightarrow> m_uiId c = i \<Longrightarrow> findClass i (s\<lparr>m_vClassList := set_class c (m_vClassList s)\<rparr>) = Some c"
  by (simp add: findClass_def find_set_class)

lemma findClass_id: "findClass i s = Some c \<Longrightarrow> m_uiId c = i"
  by (auto simp: findClass_def find_Some_iff)

lemma findClass_fields [simp]:
  "findClass i (s\<lparr>m_nMsgSerial := n\<rparr>) = findClass i s" "findClass i (s\<lparr>m_vPipeMsgs := ms\<rparr>) = findClass i s"
  "findClass i (s\<lparr>m_EventQueue := q\<rparr>) = findClass i s" "findClass i (s\<lparr>m_CallQueue := q\<rparr>) = findClass i s"
  "findClass i (s\<lparr>world := w\<rparr>) = findClass i s"
  by (simp_all add: findClass_def)

section \<open>The steps of a call\<close>

text \<open>An end that is connected, has nothing to send and has not begun a message with this serial number.\<close>

definition ready_end :: "u64 \<Rightarrow> 'w ipc_manager \<Rightarrow> bool" where
  "ready_end ser s \<longleftrightarrow> \<not> m_bDisconnected s \<and> m_vPipeMsgs s = [] \<and> m_pPendingMessage s = None
     \<and> m_mOutstandingPartMessages s ser = []"

lemma sendMessage_ok:
  assumes "\<not> m_bDisconnected s" and "findClass i s = Some c" and "m_vPipeMsgs s = []"
  shows "sendMessage b i t s
    = Inr (s\<lparr>m_nMsgSerial := m_nMsgSerial s + 1, m_vPipeMsgs := make_parts i (mt t) (m_nMsgSerial s + 1) b\<rparr>)"
  using assms by (simp add: sendMessage_def isVaildClass_def Let_def)

lemma call_start_ok:
  assumes s: "\<not> m_bDisconnected s" "m_vPipeMsgs s = []" and c: "findClass i s = Some c" and ok: "args_ok f ps"
    and b: "call_bytes env name (m_uiIdCount (locks c) + 1) ps = Inr b"
  shows "call_start env i name False ps s =
    Inr (s\<lparr>m_vClassList := set_class (c\<lparr>locks := snd (newLock (locks c))\<rparr>) (m_vClassList s), m_nMsgSerial := m_nMsgSerial s + 1,
           m_vPipeMsgs := make_parts i (mt MT_FUNCTIONCALL) (m_nMsgSerial s + 1) b\<rparr>, Some (m_uiIdCount (locks c) + 1))"
proof -
  let ?c = "c\<lparr>locks := snd (newLock (locks c))\<rparr>"
  have "findClass i (s\<lparr>m_vClassList := set_class ?c (m_vClassList s)\<rparr>) = Some ?c"
    using findClass_set_class [OF c, of ?c] findClass_id [OF c] by simp
  moreover have "newLock (locks c) = (m_uiIdCount (locks c) + 1, snd (newLock (locks c)))"
    by (simp add: newLock_def Let_def)
  ultimately show ?thesis
    using b s sendMessage_ok [of "s\<lparr>m_vClassList := set_class ?c (m_vClassList s)\<rparr>" i ?c b MT_FUNCTIONCALL]
    by (simp add: call_start_def c callFunction_def split: prod.split) auto
qed

text \<open>The call arrives in the queue.\<close>

lemma dispatch_call:
  assumes "i \<noteq> 0" and "findClass i s = Some c" and "length b < 2 ^ 32"
  shows "dispatch env reg (whole_head i (mt MT_FUNCTIONCALL) ser b) b s
    = Some (Inr (s\<lparr>m_CallQueue := m_CallQueue s @ [(i, mt MT_FUNCTIONCALL, b)]\<rparr>))"
  using assms by (simp add: dispatch_def whole_head_def rd_bytes_def queue_message_def Let_def)

text \<open>The thread makes the call and sends the result.\<close>

lemma run_calls_ok:
  assumes nm: "names_ok (nm env)" and s: "\<not> m_bDisconnected s" "m_vPipeMsgs s = []"
    and q: "m_CallQueue s = [(i, mt MT_FUNCTIONCALL, b)]"
    and c: "findClass i s = Some c" and f: "m_mFunc c (RSHash name) = Some f" and h: "RSHash name \<noteq> 0"
    and ok: "args_ok f ps" and b: "call_bytes env name lk ps = Inr b"
    and r: "local_call f (world s) ps = (w', r)" and rb: "return_bytes env lk (RSHash name) r = Inr rb"
  shows "run_calls env s = Some (Inr (s\<lparr>m_CallQueue := [], m_vClassList := set_class c (m_vClassList s), world := w',
      m_nMsgSerial := m_nMsgSerial s + 1, m_vPipeMsgs := make_parts i (mt MT_FUNCTIONRETURN) (m_nMsgSerial s + 1) rb\<rparr>))"
proof -
  have "handleFunctionCall env c (world s) b (of_nat (length b)) False = Inr (w', [(MT_FUNCTIONRETURN, rb)])"
    using handleFunctionCall_ok [OF nm f h ok b r rb, of "[]" False] by simp
  then have "messageRecived env c (world s) 5 b (of_nat (length b)) = Some (Inr (c, w', [(MT_FUNCTIONRETURN, rb)], False))"
    by (simp add: messageRecived_def)
  moreover have "findClass i (s\<lparr>m_CallQueue := [], m_vClassList := set_class c (m_vClassList s), world := w'\<rparr>) = Some c"
    using find_set_class [of i "m_vClassList s" c c] c findClass_id [OF c] by (simp add: findClass_def)
  ultimately show ?thesis
    using s sendMessage_ok [of "s\<lparr>m_CallQueue := [], m_vClassList := set_class c (m_vClassList s), world := w'\<rparr>" i c rb MT_FUNCTIONRETURN]
    by (simp add: run_calls_def q process_item_def c class_message_def class_done_def findClass_id [OF c])
qed

text \<open>The result arrives at the lock.\<close>

lemma dispatch_return:
  assumes nm: "names_ok (nm env)" and i: "i \<noteq> 0" and c: "findClass i s = Some c"
    and r: "param_ok r" "unat (getSerializeSize r) < 2 ^ 32 - 24" and rb: "return_bytes env lk hash r = Inr rb"
    and l: "findLock lk (locks c) = Some l"
  shows "dispatch env reg (whole_head i (mt MT_FUNCTIONRETURN) ser rb) rb s
    = Some (Inr (s\<lparr>m_vClassList := set_class (c\<lparr>locks := trigger_lock lk r (locks c)\<rparr>) (m_vClassList s)\<rparr>))"
proof -
  have "handleFunctionReturn env c rb = Inr (c\<lparr>locks := trigger_lock lk r (locks c)\<rparr>)"
    using handleFunctionReturn_ok [OF nm r rb l, of "[]"] by simp
  then have "messageRecived env c (world s) 7 rb n = Some (Inr (c\<lparr>locks := trigger_lock lk r (locks c)\<rparr>, world s, [], False))" for n
    by (simp add: messageRecived_def)
  then show ?thesis
    using i by (simp add: dispatch_def whole_head_def c class_message_def class_done_def)
qed

section \<open>A remote call is a local call\<close>

text \<open>
  C6: A call of a registered function through the pipe, when both ends are connected and quiet (nothing waits to be sent,
  no cut-off message and no part of a message with the next serial is there, no call waits at the other end), the
  arguments are of the types of the function and fewer than 256, each of the two messages fits 255 parts of 4070 bytes,
  the hash of the name and the id of the class are not zero, the lock's number is free, and the answer comes before the
  caller's timeout. Then, however the parts of each message are ordered on the way, the function runs in the other
  process once, on exactly the arguments given, and the caller's lock receives exactly its result, or the exception it
  threw.
\<close>

theorem remote_call_is_local:
  assumes nm: "names_ok (nm env)" and i: "i \<noteq> 0" and name: "RSHash name \<noteq> 0"
    and A: "ready_end (m_nMsgSerial B + 1) A" "findClass i A = Some ca"
    and lock: "m_uiIdCount (locks ca) + 1 \<notin> lock_id ` set (m_vLockList (locks ca))"
    and B: "ready_end (m_nMsgSerial A + 1) B" "findClass i B = Some cb" "m_CallQueue B = []"
    and f: "m_mFunc cb (RSHash name) = Some f" "args_ok f ps" "16 + sum_list (map wire_size ps) \<le> 255 * 4070"
    and r: "local_call f (world B) ps = (w', r)" "param_ok r" "24 + unat (getSerializeSize r) \<le> 255 * 4070"
  shows "\<exists>A1 lk. call_start env i name False ps A = Inr (A1, Some lk)
    \<and> (\<forall>bufs. mset bufs = mset (m_vPipeMsgs A1) \<longrightarrow>
        (\<exists>B1 B2. recv_all env reg bufs B = Some (Inr B1) \<and> run_calls env B1 = Some (Inr B2) \<and> world B2 = w'
          \<and> (\<forall>bufs'. mset bufs' = mset (m_vPipeMsgs B2) \<longrightarrow>
              (\<exists>A2 c. recv_all env reg' bufs' (A1\<lparr>m_vPipeMsgs := []\<rparr>) = Some (Inr A2) \<and> findClass i A2 = Some c
                \<and> snd (call_end lk False c) = Inr (Some r)))))"
proof -
  let ?lk = "m_uiIdCount (locks ca) + 1" let ?c = "ca\<lparr>locks := snd (newLock (locks ca))\<rparr>"
  let ?sa = "m_nMsgSerial A + 1" let ?sb = "m_nMsgSerial B + 1"
  obtain b where b: "call_bytes env name ?lk ps = Inr b" "length b = 16 + sum_list (map wire_size ps)"
    using call_bytes_ok [OF f(2), of env name ?lk] by auto
  have r': "unat (getSerializeSize r) < 2 ^ 32 - 24" using r(3) by simp
  obtain rb where rb: "return_bytes env ?lk (RSHash name) r = Inr rb" "length rb = 24 + unat (getSerializeSize r)"
    using return_bytes_ok [OF r(2) r', of env ?lk "RSHash name"] by auto
  define A1 where "A1 = A\<lparr>m_vClassList := set_class ?c (m_vClassList A), m_nMsgSerial := ?sa,
    m_vPipeMsgs := make_parts i (mt MT_FUNCTIONCALL) ?sa b\<rparr>"
  define B1 where "B1 = B\<lparr>m_CallQueue := [(i, mt MT_FUNCTIONCALL, b)]\<rparr>"
  define B2 where "B2 = B1\<lparr>m_CallQueue := [], m_vClassList := set_class cb (m_vClassList B1), world := w',
      m_nMsgSerial := ?sb, m_vPipeMsgs := make_parts i (mt MT_FUNCTIONRETURN) ?sb rb\<rparr>"
  define c2 where "c2 = ?c\<lparr>locks := trigger_lock ?lk r (locks ?c)\<rparr>"
  have start: "call_start env i name False ps A = Inr (A1, Some ?lk)"
    using call_start_ok [of A i ca f ps env name b] A f(2) b(1) by (simp add: ready_end_def A1_def)
  have to_B: "recv_all env reg bufs B = Some (Inr B1)" if "mset bufs = mset (m_vPipeMsgs A1)" for bufs
    using message_parts_any_order [of bufs i "mt MT_FUNCTIONCALL" ?sa b B env reg] that b(2) f(3) B
      dispatch_call [OF i B(2), of b env reg ?sa]
    by (simp add: A1_def ready_end_def B1_def)
  have run: "run_calls env B1 = Some (Inr B2)"
    using run_calls_ok [OF nm, of B1 i b cb name f ps ?lk w' r rb] B f name b(1) r(1) rb(1)
    by (simp add: B1_def B2_def ready_end_def)
  have cA: "findClass i (A1\<lparr>m_vPipeMsgs := []\<rparr>) = Some ?c"
    using findClass_set_class [OF A(2), of ?c] findClass_id [OF A(2)] by (simp add: A1_def findClass_def)
  have l: "findLock ?lk (locks ?c) = Some \<lparr>lock_id = ?lk, m_pResult = None, m_bTriggered = False\<rparr>"
    using findLock_newLock [OF lock] by (simp add: newLock_def Let_def)
  have to_A: "recv_all env reg' bufs' (A1\<lparr>m_vPipeMsgs := []\<rparr>)
      = Some (Inr (A1\<lparr>m_vPipeMsgs := [], m_vClassList := set_class c2 (m_vClassList A1)\<rparr>))"
    if "mset bufs' = mset (m_vPipeMsgs B2)" for bufs'
    using message_parts_any_order [of bufs' i "mt MT_FUNCTIONRETURN" ?sb rb "A1\<lparr>m_vPipeMsgs := []\<rparr>" env reg'] that rb(2) r(3) A
      dispatch_return [OF nm i cA r(2) r' rb(1) l, of reg' ?sb]
    by (simp add: B2_def ready_end_def A1_def c2_def)
  have found: "findClass i (A1\<lparr>m_vPipeMsgs := [], m_vClassList := set_class c2 (m_vClassList A1)\<rparr>) = Some c2"
    using findClass_set_class [OF cA, of c2] findClass_id [OF A(2)] by (simp add: c2_def)
  have result: "snd (call_end ?lk False c2) = Inr (Some r)"
    using l by (simp add: call_end_def c2_def findLock_trigger Let_def popResult_def lock_trigger_def)
  have "world B2 = w'" by (simp add: B2_def)
  with start to_B run to_A found result show ?thesis by blast
qed

text \<open>A class with one function, which counts its calls and adds one.\<close>

definition demo_inc :: "nat net_function" where
  "demo_inc = \<lparr>Args = [PUint32 0],
     m_fnCallback = (\<lambda>w ps. (Suc w, case ps of [PUint32 x] \<Rightarrow> Inr (PUint32 (x + 1)) | _ \<Rightarrow> Inl (7, 0, []))), returns_void = False\<rparr>"

definition demo_end :: "nat ipc_manager" where
  "demo_end = IPCManager_new True 0\<lparr>m_vClassList := [registerFunction demo_inc ''inc'' (IPCClass_new 1)]\<rparr>"

theorem remote_call_is_local_witness:
  "\<exists>A1 lk. call_start demo_env 1 ''inc'' False [PUint32 41] demo_end = Inr (A1, Some lk)
    \<and> (\<forall>bufs. mset bufs = mset (m_vPipeMsgs A1) \<longrightarrow>
        (\<exists>B1 B2. recv_all demo_env Map.empty bufs demo_end = Some (Inr B1) \<and> run_calls demo_env B1 = Some (Inr B2)
          \<and> world B2 = 1
          \<and> (\<forall>bufs'. mset bufs' = mset (m_vPipeMsgs B2) \<longrightarrow>
              (\<exists>A2 c. recv_all demo_env Map.empty bufs' (A1\<lparr>m_vPipeMsgs := []\<rparr>) = Some (Inr A2) \<and> findClass 1 A2 = Some c
                \<and> snd (call_end lk False c) = Inr (Some (PUint32 42))))))"
proof (rule remote_call_is_local)
  show "names_ok (nm demo_env)" by (simp add: demo_env_def itanium_ok)
  show "RSHash ''inc'' \<noteq> 0" by code_simp
  show "findClass 1 demo_end = Some (registerFunction demo_inc ''inc'' (IPCClass_new 1))"
    by (simp add: demo_end_def findClass_def registerFunction_def IPCClass_new_def)
  then show "findClass 1 demo_end = Some (registerFunction demo_inc ''inc'' (IPCClass_new 1))" .
  show "m_mFunc (registerFunction demo_inc ''inc'' (IPCClass_new 1)) (RSHash ''inc'') = Some demo_inc"
    by (simp add: registerFunction_def IPCClass_new_def)
  show "args_ok demo_inc [PUint32 41]" "16 + sum_list (map wire_size [PUint32 41]) \<le> 255 * 4070"
    by (simp_all add: args_ok_def demo_inc_def wire_size_def)
  show "local_call demo_inc (world demo_end) [PUint32 41] = (1, PUint32 42)"
    by (simp add: local_call_def demo_inc_def demo_end_def IPCManager_new_def)
qed (simp_all add: demo_end_def IPCManager_new_def ready_end_def registerFunction_def IPCClass_new_def)

section \<open>The end of a class\<close>

text \<open>A message that counts for the end of its class; only the low 8 bits of a type are looked at.\<close>

definition is_kill :: "u32 \<Rightarrow> bool" where
  "is_kill type \<longleftrightarrow> ucast (ucast type :: u8) \<in> {mt MT_KILL, mt MT_KILL_COMPLETE}"

lemma find_set_other: "m_uiId c \<noteq> i \<Longrightarrow> find (\<lambda>c. m_uiId c = i) (set_class c cs) = find (\<lambda>c. m_uiId c = i) cs"
  by (induction cs) auto

lemma find_remove_other: "j \<noteq> i \<Longrightarrow> find (\<lambda>c. m_uiId c = i) (remove_class j cs) = find (\<lambda>c. m_uiId c = i) cs"
  by (induction cs) auto

text \<open>Sending changes neither classes nor queues.\<close>

lemma sendMessage_frame:
  assumes "sendMessage b i t s = Inr s'"
  shows "m_vClassList s' = m_vClassList s \<and> m_EventQueue s' = m_EventQueue s \<and> m_CallQueue s' = m_CallQueue s"
  using assms by (auto simp: sendMessage_def Let_def split: if_splits)

lemma send_all_frame:
  "send_all i out s = Inr s' \<Longrightarrow>
   m_vClassList s' = m_vClassList s \<and> m_EventQueue s' = m_EventQueue s \<and> m_CallQueue s' = m_CallQueue s"
proof (induction i out s rule: send_all.induct)
  case (2 i type b out s)
  then obtain s1 where "sendMessage b i type s = Inr s1" "send_all i out s1 = Inr s'" by (auto simp: bind_res_Inr)
  then show ?case using 2 sendMessage_frame [of b i type s s1] by simp
qed simp

lemma class_done_frame:
  assumes "class_done (c, w, out, gone) s = Inr s'"
  shows "m_EventQueue s' = m_EventQueue s \<and> m_CallQueue s' = m_CallQueue s
    \<and> m_vClassList s' = (if gone then remove_class (m_uiId c) else (\<lambda>x. x)) (set_class c (m_vClassList s))"
  using assms by (auto simp: class_done_def bind_res_Inr destroyClass_def dest!: send_all_frame)

lemma messageRecived_kill:
  assumes "messageRecived env c w type b n = Some (Inr (c', w', out, gone))"
  shows "m_uiId c' = m_uiId c
    \<and> m_nKillCount c' = (if ucast type \<in> {mt MT_KILL, mt MT_KILL_COMPLETE} then m_nKillCount c + 1 else m_nKillCount c)
    \<and> (gone \<longrightarrow> ucast type = mt MT_KILL \<and> m_nKillCount c' = 2)"
  using assms
  by (auto simp: messageRecived_def handleFunctionReturn_def bind_res_Inr Let_def split: if_splits option.splits)

lemma process_item_other:
  assumes step: "process_item env (j, t, b) s = Some (Inr s')" and c: "findClass i s = Some c"
  shows "m_EventQueue s' = m_EventQueue s \<and> m_CallQueue s' = m_CallQueue s
    \<and> (j \<noteq> i \<or> \<not> is_kill t \<longrightarrow> (\<exists>c'. findClass i s' = Some c' \<and> m_nKillCount c' = m_nKillCount c))
    \<and> (j = i \<and> is_kill t \<and> m_nKillCount c + 1 \<noteq> 2 \<longrightarrow>
        (\<exists>c'. findClass i s' = Some c' \<and> m_nKillCount c' = m_nKillCount c + 1))"
proof (cases "findClass j s")
  case None
  then show ?thesis using step c by (auto simp: process_item_def)
next
  case (Some d)
  let ?m = "messageRecived env d (world s) (ucast t) b (of_nat (length b))"
  obtain d' w out gone where m: "?m = Some (Inr (d', w, out, gone))" and dn: "class_done (d', w, out, gone) s = Inr s'"
    using step Some by (auto simp: process_item_def class_message_def bind_res_Inr)
  note k = messageRecived_kill [OF m] and f = class_done_frame [OF dn]
  have d: "m_uiId d' = j" using k findClass_id [OF Some] by simp
  show ?thesis
  proof (cases "j = i")
    case True
    then have "d = c" using Some c by simp
    moreover have "find (\<lambda>c. m_uiId c = i) (set_class d' (m_vClassList s)) = Some d'"
      using find_set_class [of i "m_vClassList s" c d'] c d True by (simp add: findClass_def)
    ultimately show ?thesis
      using k f True by (auto simp: findClass_def is_kill_def)
  next
    case False
    then show ?thesis
      using f c d find_set_other [of d' i "m_vClassList s"] find_remove_other [of j i "set_class d' (m_vClassList s)"]
      by (auto simp: findClass_def)
  qed
qed

text \<open>A run of the two threads: \<open>True\<close> is a step of the call thread.\<close>

fun run_queues :: "ipc_env \<Rightarrow> bool list \<Rightarrow> 'w ipc_manager \<Rightarrow> 'w ipc_manager res option" where
  "run_queues env [] s = Some (Inr s)"
| "run_queues env (e # es) s =
     (case (if e then run_calls env s else run_events env s) of
        None \<Rightarrow> None
      | Some r \<Rightarrow> (case r of Inl e \<Rightarrow> Some (Inl e) | Inr s \<Rightarrow> run_queues env es s))"

text \<open>
  After \<open>x\<close> messages of the call queue and \<open>y\<close> of the event queue: what is left, and how often the class was told to end.
\<close>

definition kill_inv :: "u32 \<Rightarrow> (u32 \<times> u32 \<times> bytes) list \<Rightarrow> (u32 \<times> u32 \<times> bytes) list \<Rightarrow> nat \<Rightarrow> nat \<Rightarrow> 'w ipc_manager \<Rightarrow> bool" where
  "kill_inv i qc qe x y s \<longleftrightarrow>
     m_CallQueue s = drop x (qc @ [(i, mt MT_KILL, [])]) \<and> m_EventQueue s = drop y (qe @ [(i, mt MT_KILL, [])])
     \<and> (x \<le> length qc \<or> y \<le> length qe \<longrightarrow>
         (\<exists>c. findClass i s = Some c \<and> m_nKillCount c = of_bool (length qc < x) + of_bool (length qe < y)))"

definition no_kills :: "u32 \<Rightarrow> (u32 \<times> u32 \<times> bytes) list \<Rightarrow> bool" where
  "no_kills i q \<longleftrightarrow> (\<forall>(j, t, b)\<in>set q. j = i \<longrightarrow> \<not> is_kill t)"

lemma run_calls_kill_inv:
  assumes inv: "kill_inv i qc qe x y s" and nk: "no_kills i qc" and run: "run_calls env s = Some (Inr s')"
  shows "kill_inv i qc qe (Suc x) y s'"
proof (cases "x \<le> length qc")
  case True
  let ?q = "qc @ [(i, mt MT_KILL, [])]"
  obtain j t b where item: "?q ! x = (j, t, b)" by (metis prod_cases3)
  have "x < length ?q" using True by simp
  from Cons_nth_drop_Suc [OF this] have "drop x ?q = (j, t, b) # drop (Suc x) ?q" by (simp only: item)
  then have q: "m_CallQueue s = (j, t, b) # drop (Suc x) ?q"
    using inv by (simp only: kill_inv_def)
  obtain c where c: "findClass i s = Some c" "m_nKillCount c = of_bool (length qe < y)"
    using inv True by (auto simp: kill_inv_def)
  have step: "process_item env (j, t, b) (s\<lparr>m_CallQueue := drop (Suc x) ?q\<rparr>) = Some (Inr s')"
    using run by (simp add: run_calls_def q)
  have "x < length qc \<Longrightarrow> j \<noteq> i \<or> \<not> is_kill t"
    using nk item nth_mem [of x qc] by (auto simp: no_kills_def nth_append)
  moreover have "x = length qc \<Longrightarrow> j = i \<and> is_kill t"
    using item by (simp add: is_kill_def)
  ultimately show ?thesis
    using process_item_other [OF step, of i c] inv c True by (cases "x < length qc") (auto simp: kill_inv_def)
next
  case False
  then have "m_CallQueue s = []" using inv by (simp add: kill_inv_def)
  then show ?thesis using inv run False by (simp add: kill_inv_def run_calls_def)
qed

lemma run_events_kill_inv:
  assumes inv: "kill_inv i qc qe x y s" and nk: "no_kills i qe" and run: "run_events env s = Some (Inr s')"
  shows "kill_inv i qc qe x (Suc y) s'"
proof (cases "y \<le> length qe")
  case True
  let ?q = "qe @ [(i, mt MT_KILL, [])]"
  obtain j t b where item: "?q ! y = (j, t, b)" by (metis prod_cases3)
  have "y < length ?q" using True by simp
  from Cons_nth_drop_Suc [OF this] have "drop y ?q = (j, t, b) # drop (Suc y) ?q" by (simp only: item)
  then have q: "m_EventQueue s = (j, t, b) # drop (Suc y) ?q"
    using inv by (simp only: kill_inv_def)
  obtain c where c: "findClass i s = Some c" "m_nKillCount c = of_bool (length qc < x)"
    using inv True by (auto simp: kill_inv_def)
  have step: "process_item env (j, t, b) (s\<lparr>m_EventQueue := drop (Suc y) ?q\<rparr>) = Some (Inr s')"
    using run by (simp add: run_events_def q)
  have "y < length qe \<Longrightarrow> j \<noteq> i \<or> \<not> is_kill t"
    using nk item nth_mem [of y qe] by (auto simp: no_kills_def nth_append)
  moreover have "y = length qe \<Longrightarrow> j = i \<and> is_kill t"
    using item by (simp add: is_kill_def)
  ultimately show ?thesis
    using process_item_other [OF step, of i c] inv c True by (cases "y < length qe") (auto simp: kill_inv_def)
next
  case False
  then have "m_EventQueue s = []" using inv by (simp add: kill_inv_def)
  then show ?thesis using inv run False by (simp add: kill_inv_def run_events_def)
qed

lemma run_queues_kill_inv:
  assumes "no_kills i qc" and "no_kills i qe"
  shows "\<lbrakk>kill_inv i qc qe x y s; run_queues env es s = Some (Inr s')\<rbrakk>
    \<Longrightarrow> kill_inv i qc qe (x + length (filter id es)) (y + length (filter Not es)) s'"
proof (induction es arbitrary: x y s)
  case (Cons e es)
  show ?case
  proof (cases e)
    case True
    then obtain s1 where "run_calls env s = Some (Inr s1)" "run_queues env es s1 = Some (Inr s')"
      using Cons.prems(2) by (auto split: option.splits sum.splits)
    then show ?thesis
      using Cons.IH [of "Suc x" y s1] run_calls_kill_inv [OF Cons.prems(1) assms(1)] True by simp
  next
    case False
    then obtain s1 where "run_events env s = Some (Inr s1)" "run_queues env es s1 = Some (Inr s')"
      using Cons.prems(2) by (auto split: option.splits sum.splits)
    then show ?thesis
      using Cons.IH [of x "Suc y" s1] run_events_kill_inv [OF Cons.prems(1) assms(2)] False by simp
  qed
qed simp

text \<open>
  C7: A class that the other side destroys is kept until both threads have worked off everything that came before: in
  whatever order they run, the class is only gone after more steps of each thread than messages were waiting for it.
\<close>

theorem class_ends_after_its_messages:
  assumes c: "i \<noteq> 0" "findClass i s = Some c" "m_nKillCount c = 0"
    and nk: "no_kills i (m_CallQueue s)" "no_kills i (m_EventQueue s)"
    and kill: "dispatch env reg (whole_head i (mt MT_KILL) ser []) [] s = Some (Inr s1)"
    and run: "run_queues env es s1 = Some (Inr s2)" and gone: "findClass i s2 = None"
  shows "length (m_CallQueue s) < length (filter id es) \<and> length (m_EventQueue s) < length (filter Not es)"
proof -
  have "kill_inv i (m_CallQueue s) (m_EventQueue s) 0 0 s1"
    using kill c by (auto simp: dispatch_def whole_head_def rd_bytes_def queue_message_def kill_inv_def Let_def)
  from run_queues_kill_inv [OF nk this run] show ?thesis
    using gone by (auto simp: kill_inv_def not_less)
qed

theorem class_ends_after_its_messages_witness:
  "let s = demo_end\<lparr>m_CallQueue := [(1, 6, [])]\<rparr>; es = [True, False, True] in
   (\<exists>s1 s2. dispatch demo_env Map.empty (whole_head 1 (mt MT_KILL) 7 []) [] s = Some (Inr s1)
      \<and> run_queues demo_env es s1 = Some (Inr s2) \<and> findClass 1 s2 = None)
   \<and> length (m_CallQueue s) < length (filter id es)"
proof -
  let ?s = "demo_end\<lparr>m_CallQueue := [(1, 6, [])]\<rparr>"
  obtain s1 s2 where
    d: "dispatch demo_env Map.empty (whole_head 1 (mt MT_KILL) 7 []) [] ?s = Some (Inr s1)"
    and r: "run_queues demo_env [True, False, True] s1 = Some (Inr s2)" and g: "findClass 1 s2 = None"
    by (auto simp: demo_end_def IPCManager_new_def IPCClass_new_def registerFunction_def dispatch_def whole_head_def findClass_def
        rd_bytes_def queue_message_def run_calls_def run_events_def process_item_def class_message_def messageRecived_def
        handleFunctionCall_def doHandleFunctionCall_def IPCFunctionCallSIZE_def class_done_def sendMessage_def isVaildClass_def
        destroyClass_def Let_def)
  have c: "findClass 1 ?s = Some (registerFunction demo_inc ''inc'' (IPCClass_new 1))"
    by (simp add: demo_end_def findClass_def registerFunction_def IPCClass_new_def)
  have "length (m_CallQueue ?s) < length (filter id [True, False, True])"
    using class_ends_after_its_messages [OF _ c _ _ _ d r g]
    by (simp add: registerFunction_def IPCClass_new_def no_kills_def is_kill_def demo_end_def IPCManager_new_def)
  then show ?thesis using d r g by (auto simp: Let_def)
qed

end
