(* ===== verification/Spec2Isabelle.thy ===== *)
theory Spec2Isabelle
  imports Mcf_Patch Wgt_Blocks Util_Crc Util_Codec Util_Path Item_Gather Item_Group Ipc_Remote
begin

text \<open>
  A verification development for the Desura client (the C++ tree below \<^verbatim>\<open>src/src\<close>).

  \<^bold>\<open>The program.\<close> Desura downloads, verifies, installs, patches and removes games and mods. An item is an archive in a
  format of its own (MCF): a binary header, the stored data of the files, and a compressed XML list of the files with
  their digests and CRC lists. The parts of the program and how they use each other, from the bottom:

  \<^item> \<^verbatim>\<open>static/util\<close>, \<^verbatim>\<open>static/util_fs\<close>: strings, paths, numbers, hashes, CRC-32, base64, files.
  \<^item> \<^verbatim>\<open>static/umcf\<close>, \<^verbatim>\<open>shared/mcfcore/code/mcf\<close>: the archive, its header and its files; checking against the disk,
    comparing, saving, exporting, merging and patching archives.
  \<^item> \<^verbatim>\<open>shared/mcfcore/code/thread\<close>: the threads that work on an archive; here the download from web servers, a
    controller with several workers.
  \<^item> \<^verbatim>\<open>static/ipc_pipe\<close>: calls between the client and its service process through a pipe.
  \<^item> \<^verbatim>\<open>shared/usercore\<close>: items, their stages and the groups in which they are worked on.
  \<^item> \<^verbatim>\<open>shared/uicore\<close>, \<^verbatim>\<open>shared/webcore\<close>: the user interface and the calls of the web service.

  \<^bold>\<open>Conventions.\<close> Machine integers are words of their width, so that every wrap-around of the code is one of the model;
  sizes of containers are natural numbers. A structure is a record with the names of its fields, an enumeration a
  datatype. A function that may throw returns \<open>Inl\<close> the error or \<open>Inr\<close> its result (\<^verbatim>\<open>res\<close> of \<^verbatim>\<open>Desura_Prelude\<close>);
  \<open>UNDEFINED\<close> marks an access outside an object. A loop that may not end is a \<open>partial_function\<close> with result \<open>None\<close>
  when it does not. The expansion of wildcards, and what reads paths with it, takes fuel, a bound on the depth of
  its calls: 27 is enough when all wildcards are resolved, and 25 when they refer to each other without a cycle; a
  theorem shows that no fuel is enough for a cycle of unresolved ones. The thread of an item runs for as many passes as
  the number given to \<open>run_tasks\<close>; three bring a handle to rest whose only task ends by completing its stage.
  Operations change an explicit state; concurrency is a sequence of steps of the threads in any order. In the download and
  in the pipe a step is one of the calls a thread makes, between which it holds no lock; in a handle it is an
  operation, or the start or the end of a task; a group gets one call after the other. The disk is a map from paths to
  bytes. Names that clash with HOL get a suffix (\<open>Path_\<close>, \<open>header_\<close>, \<open>mcf_\<close>, \<open>fh_\<close>).

  \<^bold>\<open>Theories and code.\<close>

  \<^item> \<^verbatim>\<open>Desura_Prelude\<close>: error ids (\<^verbatim>\<open>include/gcError.h\<close>), the error result, characters and bytes, and the interfaces as
    locales: \<open>codec\<close> and \<open>fixed_codec\<close> (an encoder and its decoder; interpreted by base64, URL escapes, backslash
    escapes, decimal numbers, little-endian integers and the message head), \<open>machine\<close> and \<open>fallible_machine\<close> (steps and an
    invariant; interpreted by the download and the item groups). \<^verbatim>\<open>Item_Info\<close> has a locale \<open>status_op\<close> for what leaves the
    branches of an item alone, \<^verbatim>\<open>Item_Handle\<close> a locale \<open>quiet_op\<close> for what leaves the stage and the running task of a
    handle alone, interpreted on the operations of the handle and its thread. \<^verbatim>\<open>Util_Bytes\<close>: integers as bytes and sizes in 32 bits.
  \<^item> \<^verbatim>\<open>Util_Misc\<close>, \<^verbatim>\<open>Util_Crc\<close> (\<^verbatim>\<open>UtilMisc.cpp\<close>), \<^verbatim>\<open>Util_String\<close>, \<^verbatim>\<open>Util_Codec\<close> (\<^verbatim>\<open>UtilString.cpp\<close>), \<^verbatim>\<open>Util_Path\<close>
    (\<^verbatim>\<open>UtilFsPath.cpp\<close>), \<^verbatim>\<open>Util_Num\<close> (\<^verbatim>\<open>UtilSafeString.h\<close>, \<^verbatim>\<open>GeneralHashFunctions.cpp\<close>), \<^verbatim>\<open>Util_File\<close> (\<^verbatim>\<open>UtilFs_nix.cpp\<close>,
    \<^verbatim>\<open>UtilFs.cpp\<close>, \<^verbatim>\<open>MD5Wrapper.cpp\<close>), \<^verbatim>\<open>Util_Xml\<close> (\<^verbatim>\<open>XMLMacros.h\<close>, \<^verbatim>\<open>XMLSaveAndCompress.cpp\<close>), \<^verbatim>\<open>Desura_Id\<close> (\<^verbatim>\<open>DesuraId.h\<close>,
    \<^verbatim>\<open>Common.h\<close>). Lemmas: the CRC equals bitwise polynomial division; decoders invert encoders and stay in their
    buffers; a path survives printing and parsing; the chunked reader delivers its range.
  \<^item> \<^verbatim>\<open>Mcf_Header\<close> (\<^verbatim>\<open>UMcfHeader.cpp\<close>, \<^verbatim>\<open>MCFHeader.cpp\<close>), \<^verbatim>\<open>Mcf_File\<close> and \<^verbatim>\<open>Mcf_Check\<close> (\<^verbatim>\<open>MCFFile.cpp\<close>), \<^verbatim>\<open>Mcf_Index\<close> and
    \<^verbatim>\<open>Mcf_Verify\<close> (\<^verbatim>\<open>MCF.cpp\<close>), \<^verbatim>\<open>Mcf_Diff\<close>, \<^verbatim>\<open>Mcf_Merge\<close> and \<^verbatim>\<open>Mcf_Patch\<close> (\<^verbatim>\<open>MCF_Patch.cpp\<close>, export in \<^verbatim>\<open>MCF_Save.cpp\<close>),
    \<^verbatim>\<open>Mcf_Save\<close> (\<^verbatim>\<open>MCF_Save.cpp\<close>). Lemmas: header, file and archive round trips; what a verification verdict means, with
    its limits at 4 GiB; the bookkeeping of a comparison refines the classification by path hash; export and merge move
    every file with its data.
  \<^item> \<^verbatim>\<open>Wgt_Download\<close>, \<^verbatim>\<open>Wgt_Blocks\<close> (\<^verbatim>\<open>WGTController.cpp\<close>, \<^verbatim>\<open>WGTWorker.cpp\<close>, \<^verbatim>\<open>WGTExtras.h\<close>, \<^verbatim>\<open>BaseMCFThread.h\<close>): the state of
    the controller and its workers, their steps, and the list of blocks. A worker's step is one call of the controller, or
    one piece of data it writes; the controller's steps (\<open>ctl_step\<close>, with its place in the loop of \<^verbatim>\<open>run\<close> as
    \<open>ctl_point\<close>) are to save the buffer of one worker, to look into one buffer, to read the number of running workers, and to ask
    for providers. Finding the worker with the most work and splitting its block (\<open>stealBlocks\<close>) is one step, and so is
    saving the blocks of one buffer. \<^verbatim>\<open>Wgt_Safety\<close> has the invariant that no block is
    lost or doubled, \<^verbatim>\<open>Wgt_Steps\<close> shows that the passes of a worker and of the controller, written as functions, are made of such
    steps, \<^verbatim>\<open>Wgt_Complete\<close> what a finished and a stopped download has on the disk, and that the loop can end with a block
    still in a buffer, because it looks into the buffers before it reads the number of running workers.
  \<^item> \<^verbatim>\<open>Ipc_Param\<close> (\<^verbatim>\<open>IPCParameter.cpp\<close>, lists of \<^verbatim>\<open>IPCClass.cpp\<close>), \<^verbatim>\<open>Ipc_Class\<close> (\<^verbatim>\<open>IPCClass.cpp\<close>, \<^verbatim>\<open>IPCClass.h\<close>,
    \<^verbatim>\<open>IPCLockable.cpp\<close>), \<^verbatim>\<open>Ipc_Manager\<close> (\<^verbatim>\<open>IPCManager.cpp\<close>, \<^verbatim>\<open>IPCMessage.h\<close>, \<^verbatim>\<open>IPCPipeBase_Nix.cpp\<close>). \<^verbatim>\<open>Ipc_Transport\<close>: parts in
    any order and messages in pieces; its locale \<open>manager_frame\<close> is interpreted for the two fields a whole message never
    looks at. \<^verbatim>\<open>Ipc_Remote\<close>: a remote call is a local call, and a class ends after its messages.
  \<^item> \<^verbatim>\<open>Util_Wildcard\<close> (\<^verbatim>\<open>WildcardManager.cpp\<close>, \<^verbatim>\<open>BaseManager.h\<close>): the wildcards in paths, how they are resolved and
    expanded, when an expansion ends and what it means.
  \<^item> \<^verbatim>\<open>Item_Branch\<close> (\<^verbatim>\<open>BranchInfo.cpp\<close>, the choice of a branch in \<^verbatim>\<open>ItemInfo.cpp\<close>), \<^verbatim>\<open>Item_Install\<close>
    (\<^verbatim>\<open>BranchInstallInfo.cpp\<close>), \<^verbatim>\<open>Item_Flags\<close> (\<^verbatim>\<open>ItemInfoI.h\<close>), \<^verbatim>\<open>Item_Info\<close> and \<^verbatim>\<open>Item_Load\<close> (\<^verbatim>\<open>ItemInfo.cpp\<close>): an item
    with its status, its branches and the install data of each platform. Pointers from a branch to its install data are
    keys of the map of the item. Lemmas: which flags go together; an installed branch is never moved; the index of the
    current branch and the pointers stay valid through loading, settings, the update feed and bought items; an item is
    only flagged as installed when its check file is on the disk.
  \<^item> \<^verbatim>\<open>Item_Handle\<close> (\<^verbatim>\<open>ItemHandle.cpp\<close>, \<^verbatim>\<open>ItemThread.cpp\<close>, the task that deletes a thread in \<^verbatim>\<open>UserTasks.cpp\<close>): the handle of
    an item with its stage, its lock, the thread that runs its tasks and the threads it has let go of, which run on until
    the pool deletes them (\<open>dying_threads\<close>); installing, updating, switching the branch, verifying, uninstalling and pausing. A task is the
    constructor call that made it, and what it does is an argument. \<^verbatim>\<open>Item_Launch\<close> (launching in \<^verbatim>\<open>ItemHandle.cpp\<close>,
    \<^verbatim>\<open>ItemHandle_nix.cpp\<close>, \<^verbatim>\<open>UtilLinux.cpp\<close>): from the request to the process, launch scripts and the status text; the
    steps of a handle among the others as a relation. \<^verbatim>\<open>Item_Gather\<close> (\<^verbatim>\<open>GatherInfoTask.cpp\<close>): the task between the request to
    install and the download; it offers another branch at most once, so its check is two levels of definitions and no
    recursion. Lemmas: when a program starts; what is downloaded was checked; complex mods are changed under the lock
    of their game, except when uninstalled; how a handle comes to rest and where it gets stuck. What is shown of every
    reachable handle holds as long as no thread it has let go of starts another task; what such a task does is shown on its own.
  \<^item> \<^verbatim>\<open>Item_Group\<close> (\<^verbatim>\<open>ItemTaskGroup.cpp\<close>): the queue of a group of items as a machine; which items it begins, in what
    order, and how taking an item out breaks it.

  \<^bold>\<open>Parameters.\<close> Code that is not in the repository is an argument of the definitions that use it: the MD5 digest, the
  bzip2 coder, the XML text parser, the order in which \<open>std::sort\<close> leaves equal
  keys (a locale \<open>hash_sort\<close>, interpreted by the stable sort), the servers that answer a download, the disk as items see it, the handlers that resolve wildcards, the mods
  of an item and whether they are worked on, how starting a process goes, the tool manager and the answers of dialogs
  (\<open>launch_env\<close>, \<open>gather_env\<close>), the names the compiler
  gives to types, the functions and events called through the pipe. Their assumptions are named at the theorems
  (decoder inverts encoder, distinct type hashes, honest bytes) and every theorem with one has a witness that computes
  an instance.

  \<^bold>\<open>Bounds.\<close> Where the code counts in 32 bits the theorems say so: files whose size and one block more are at most 4 GiB for the block list, stored copies of at most 65536 blocks that
  fill less than 4 GiB for CRC checks, lists of
  parameters below 4 GiB, messages of at most 255 parts of 4070 bytes, fewer than 2^32 - 1 items of a group; separate
  theorems show what happens beyond. The length of a base64 text, an \<open>int\<close> in the code, is not bounded here: the code
  differs for texts of 2 GiB or more. Loops over such data are total functions with a measure, or partial functions
  with a theorem that they return below the bound.

  \<^bold>\<open>Not modelled.\<close> The user interface and the web client (presentation and I/O); the third-party coders and parsers;
  courgette diffs; the HTTP connection of a worker; the Windows pipe; directory operations; gcString formatting beyond
  decimal numbers. Of the user core: the SQLite rows of items, branches and install data (reading and writing a database
  of a third-party library), the item manager, the tasks that drive the service process and tools, the list of helpers
  of a handle (its events are a log), desktop files, the wait of a destructor for the task its thread is in, and what is only
  compiled for Windows (the hack for launch scripts, icons of links). Of the archive the threads around it other than the download
  (\<^verbatim>\<open>SMTController\<close>, \<^verbatim>\<open>SFTController\<close>).
\<close>

end
